(* ===== verification/Prelude.thy ===== *)
theory Prelude
  imports Complex_Main "HOL-Library.Word" "HOL-Library.AList" "HOL-Library.Char_ord"
    "HOL-Library.List_Lexorder" "HOL-Library.Product_Lexorder"
begin

text \<open>
  Shared vocabulary of the development: Python dictionaries as insertion-ordered association
  lists, UUIDs as 128-bit words with their canonical text form, Python strings and the regular
  expressions the package uses on names, and the collections of facts the component theories add
  to.  A Python \<open>str\<close> is a \<^typ>\<open>string\<close>: one \<^typ>\<open>char\<close> per code point, so the model covers the code
  points below 256; \<open>utf8_length\<close> gives the number of bytes of the UTF-8 encoding, which differs
  from the number of code points.
\<close>

named_theorems wf_rules "preservation of a component invariant by its operations"
named_theorems result_simps "inversion of results of error-returning code"

section \<open>Dictionaries\<close>

text \<open>
  A Python dictionary iterates in insertion order; assigning to a present key keeps its place.
\<close>

type_synonym ('k, 'v) dict = "('k \<times> 'v) list"

abbreviation dget :: "('k, 'v) dict \<Rightarrow> 'k \<Rightarrow> 'v option" where
  "dget d k \<equiv> map_of d k"

abbreviation dset :: "'k \<Rightarrow> 'v \<Rightarrow> ('k, 'v) dict \<Rightarrow> ('k, 'v) dict" where
  "dset k v d \<equiv> AList.update k v d"

abbreviation ddel :: "'k \<Rightarrow> ('k, 'v) dict \<Rightarrow> ('k, 'v) dict" where
  "ddel k d \<equiv> AList.delete k d"

abbreviation dkeys :: "('k, 'v) dict \<Rightarrow> 'k list" where
  "dkeys d \<equiv> map fst d"

abbreviation dvalues :: "('k, 'v) dict \<Rightarrow> 'v list" where
  "dvalues d \<equiv> map snd d"

lemma dget_dset [simp]: "dget (dset k v d) k' = (if k' = k then Some v else dget d k')"
  by (simp add: update_conv)

lemma dget_ddel [simp]: "dget (ddel k d) k' = (if k' = k then None else dget d k')"
  by (simp add: delete_conv')

lemma dkeys_dset: "dkeys (dset k v d) = (if k \<in> set (dkeys d) then dkeys d else dkeys d @ [k])"
  by (simp add: update_keys)

lemma dkeys_dset_present [simp]: "dget d k = Some w \<Longrightarrow> dkeys (dset k v d) = dkeys d"
  by (metis dkeys_dset map_of_eq_None_iff image_set option.distinct(1))

lemma dkeys_dset_absent [simp]: "dget d k = None \<Longrightarrow> dkeys (dset k v d) = dkeys d @ [k]"
  by (metis dkeys_dset map_of_eq_None_iff image_set)

lemma dget_Some_key: "dget d k = Some v \<Longrightarrow> k \<in> set (dkeys d)"
  by (metis image_set map_of_eq_None_iff option.distinct(1))

lemma key_dget_Some: "k \<in> set (dkeys d) \<Longrightarrow> \<exists>v. dget d k = Some v"
  by (metis image_set map_of_eq_None_iff not_None_eq)

lemma dvalues_dget:
  assumes "distinct (dkeys d)" and "v \<in> set (dvalues d)"
  shows "\<exists>k. dget d k = Some v"
  using assms by (metis (no_types, lifting) imageE list.set_map map_of_is_SomeI prod.collapse)

text \<open>The interface the components rely on: lookup, assignment and removal on any key store.\<close>

locale key_store =
  fixes lookup :: "'s \<Rightarrow> 'k \<Rightarrow> 'v option"
    and store :: "'k \<Rightarrow> 'v \<Rightarrow> 's \<Rightarrow> 's"
    and remove :: "'k \<Rightarrow> 's \<Rightarrow> 's"
  assumes lookup_store: "lookup (store k v s) k' = (if k' = k then Some v else lookup s k')"
    and lookup_remove: "lookup (remove k s) k' = (if k' = k then None else lookup s k')"
begin

lemma store_store: "lookup (store k v (store k w s)) = lookup (store k v s)"
  by (rule ext) (simp add: lookup_store)

lemma remove_fresh: "lookup s k = None \<Longrightarrow> lookup (remove k (store k v s)) = lookup s"
  by (rule ext) (simp add: lookup_store lookup_remove)

lemma store_commute:
  "k \<noteq> k' \<Longrightarrow> lookup (store k v (store k' v' s)) = lookup (store k' v' (store k v s))"
  by (rule ext) (simp add: lookup_store)

end

interpretation pydict: key_store
  "map_of :: ('k \<times> 'v) list \<Rightarrow> 'k \<Rightarrow> 'v option" AList.update AList.delete
  by unfold_locales simp_all

text \<open>Undoing the insertion of a new key restores the dictionary itself, order included.\<close>

lemma ddel_dset_fresh: "dget d k = None \<Longrightarrow> ddel k (dset k v d) = d"
  by (induction d) (auto simp: AList.delete_eq split: if_splits)

lemma dset_absent: "dget d k = None \<Longrightarrow> dset k v d = d @ [(k, v)]"
  by (induction d) (auto split: if_splits)

section \<open>UUIDs\<close>

type_synonym uuid = "128 word"

text \<open>\<open>uuid4()\<close> is the platform's random source: an operation that draws identifiers takes them as
  the sequence of the values the calls return.\<close>

type_synonym uuid_source = "nat \<Rightarrow> uuid"

definition hex_digit :: "nat \<Rightarrow> char" where
  "hex_digit n = ''0123456789abcdef'' ! (n mod 16)"

definition hex_block :: "nat \<Rightarrow> nat \<Rightarrow> nat \<Rightarrow> string" where
  "hex_block n hi lo = map (\<lambda>i. hex_digit (n div 16 ^ i mod 16)) (rev [lo..<hi])"

text \<open>\<open>str(uuid)\<close>: 8-4-4-4-12 lowercase hexadecimal digits.\<close>

definition uuid_str :: "uuid \<Rightarrow> string" where
  "uuid_str u = (let n = unat u in
     hex_block n 32 24 @ ''-'' @ hex_block n 24 20 @ ''-'' @ hex_block n 20 16 @ ''-''
       @ hex_block n 16 12 @ ''-'' @ hex_block n 12 0)"

lemma length_hex_block [simp]: "length (hex_block n hi lo) = hi - lo"
  by (simp add: hex_block_def)

lemma length_uuid_str [simp]: "length (uuid_str u) = 36"
  by (simp add: uuid_str_def Let_def)

lemma hex_digit_inj: "a < 16 \<Longrightarrow> b < 16 \<Longrightarrow> hex_digit a = hex_digit b \<Longrightarrow> a = b"
proof -
  have "distinct ''0123456789abcdef''" by simp
  moreover have "length ''0123456789abcdef'' = 16" by simp
  ultimately show "a < 16 \<Longrightarrow> b < 16 \<Longrightarrow> hex_digit a = hex_digit b \<Longrightarrow> a = b"
    by (metis hex_digit_def mod_less nth_eq_iff_index_eq)
qed

lemma hex_block_inj:
  assumes "hex_block m hi lo = hex_block n hi lo" and "lo \<le> i" and "i < hi"
  shows "m div 16 ^ i mod 16 = n div 16 ^ i mod 16"
proof -
  have "\<forall>x \<in> set (rev [lo..<hi]).
      hex_digit (m div 16 ^ x mod 16) = hex_digit (n div 16 ^ x mod 16)"
    using assms(1) unfolding hex_block_def by (simp add: map_eq_conv)
  with assms(2,3) have "hex_digit (m div 16 ^ i mod 16) = hex_digit (n div 16 ^ i mod 16)"
    by auto
  then show ?thesis by (intro hex_digit_inj) auto
qed

lemma digits_eq:
  "m < 16 ^ k \<Longrightarrow> n < 16 ^ k \<Longrightarrow>
   (\<And>i. i < k \<Longrightarrow> m div 16 ^ i mod 16 = n div 16 ^ i mod (16::nat)) \<Longrightarrow> m = n"
proof (induction k arbitrary: m n)
  case 0
  then show ?case by simp
next
  case (Suc k)
  have low: "m mod 16 = n mod 16" using Suc.prems(3)[of 0] by simp
  have "m div 16 = n div 16"
  proof (rule Suc.IH)
    show "m div 16 < 16 ^ k" "n div 16 < 16 ^ k"
      using Suc.prems(1,2) by (simp_all add: less_mult_imp_div_less mult.commute)
    fix i assume "i < k"
    then show "m div 16 div 16 ^ i mod 16 = n div 16 div 16 ^ i mod 16"
      using Suc.prems(3)[of "Suc i"] by (simp add: div_mult2_eq)
  qed
  with low show ?case by (metis div_mult_mod_eq)
qed

lemma uuid_str_inj: "uuid_str u = uuid_str v \<Longrightarrow> u = v"
proof -
  assume eq: "uuid_str u = uuid_str v"
  have parts: "hex_block (unat u) 32 24 = hex_block (unat v) 32 24 \<and>
      hex_block (unat u) 24 20 = hex_block (unat v) 24 20 \<and>
      hex_block (unat u) 20 16 = hex_block (unat v) 20 16 \<and>
      hex_block (unat u) 16 12 = hex_block (unat v) 16 12 \<and>
      hex_block (unat u) 12 0 = hex_block (unat v) 12 0"
    using eq by (simp add: uuid_str_def Let_def append_eq_append_conv)
  have "unat u = unat v"
  proof (rule digits_eq [where k = 32])
    show "unat u < 16 ^ 32" "unat v < 16 ^ 32"
      using unsigned_less [of u] unsigned_less [of v] by simp_all
    fix i :: nat assume i: "i < 32"
    consider "24 \<le> i" | "20 \<le> i" "i < 24" | "16 \<le> i" "i < 20" | "12 \<le> i" "i < 16" | "i < 12"
      by linarith
    then show "unat u div 16 ^ i mod 16 = unat v div 16 ^ i mod 16"
      by cases (use parts i hex_block_inj in blast)+
  qed
  then show "u = v" by (rule unsigned_word_eqI)
qed

section \<open>Strings and names\<close>

abbreviation ord_c :: "char \<Rightarrow> nat" where
  "ord_c c \<equiv> of_char c"

definition utf8_length :: "string \<Rightarrow> nat" where
  "utf8_length s = sum_list (map (\<lambda>c. if ord_c c < 128 then 1 else 2) s)"

lemma utf8_length_Nil [simp]: "utf8_length [] = 0"
  and utf8_length_Cons [simp]:
    "utf8_length (c # s) = (if ord_c c < 128 then 1 else 2) + utf8_length s"
  and utf8_length_append [simp]: "utf8_length (s @ t) = utf8_length s + utf8_length t"
  by (simp_all add: utf8_length_def)

lemma utf8_length_ge: "length s \<le> utf8_length s"
  by (induction s) auto

lemma utf8_length_ascii: "list_all (\<lambda>c. ord_c c < 128) s \<Longrightarrow> utf8_length s = length s"
  by (induction s) auto

definition is_digit_c :: "char \<Rightarrow> bool" where
  "is_digit_c c \<longleftrightarrow> 48 \<le> ord_c c \<and> ord_c c \<le> 57"

definition is_lower_c :: "char \<Rightarrow> bool" where
  "is_lower_c c \<longleftrightarrow> 97 \<le> ord_c c \<and> ord_c c \<le> 122"

definition is_upper_c :: "char \<Rightarrow> bool" where
  "is_upper_c c \<longleftrightarrow> 65 \<le> ord_c c \<and> ord_c c \<le> 90"

definition is_alnum_c :: "char \<Rightarrow> bool" where
  "is_alnum_c c \<longleftrightarrow> is_digit_c c \<or> is_lower_c c \<or> is_upper_c c"

lemmas char_class_defs = is_digit_c_def is_lower_c_def is_upper_c_def is_alnum_c_def

text \<open>\<open>str.lower()\<close> on the code points below 256.\<close>

definition char_lower :: "char \<Rightarrow> char" where
  "char_lower c = (let n = ord_c c in
     if 65 \<le> n \<and> n \<le> 90 \<or> 192 \<le> n \<and> n \<le> 222 \<and> n \<noteq> 215 then char_of (n + 32) else c)"

fun split_on :: "char \<Rightarrow> string \<Rightarrow> string list" where
  "split_on c [] = [[]]"
| "split_on c (x # xs) =
     (if x = c then [] # split_on c xs
      else case split_on c xs of [] \<Rightarrow> [[x]] | w # ws \<Rightarrow> (x # w) # ws)"

lemma split_on_nonempty [simp]: "split_on c s \<noteq> []"
  by (induction s) (auto split: list.splits)

text \<open>The decimal rendering of a Python integer, \<open>str(n)\<close>.\<close>

fun nat_str :: "nat \<Rightarrow> string" where
  "nat_str n = (if n < 10 then [char_of (48 + n)] else nat_str (n div 10) @ [char_of (48 + n mod 10)])"

declare nat_str.simps [simp del]

definition int_str :: "int \<Rightarrow> string" where
  "int_str i = (if i < 0 then ''-'' @ nat_str (nat (- i)) else nat_str (nat i))"

section \<open>Results\<close>

text \<open>Fallible code returns a sum; the left side is the exception raised.\<close>

definition ebind :: "'e + 'a \<Rightarrow> ('a \<Rightarrow> 'e + 'b) \<Rightarrow> 'e + 'b" where
  "ebind m f = (case m of Inl e \<Rightarrow> Inl e | Inr x \<Rightarrow> f x)"

definition guard :: "bool \<Rightarrow> 'e \<Rightarrow> 'e + unit" where
  "guard b e = (if b then Inr () else Inl e)"

lemma ebind_simps [simp]: "ebind (Inl e) f = Inl e" "ebind (Inr x) f = f x"
  by (simp_all add: ebind_def)

lemma ebind_Inr_iff [result_simps]: "ebind m f = Inr y \<longleftrightarrow> (\<exists>x. m = Inr x \<and> f x = Inr y)"
  by (cases m) auto

lemma ebind_Inl_iff [result_simps]:
  "ebind m f = Inl e \<longleftrightarrow> m = Inl e \<or> (\<exists>x. m = Inr x \<and> f x = Inl e)"
  by (cases m) auto

lemma guard_Inr_iff [result_simps]: "guard b e = Inr u \<longleftrightarrow> b"
  by (simp add: guard_def)

lemma guard_Inl_iff [result_simps]: "guard b e = Inl e' \<longleftrightarrow> \<not> b \<and> e' = e"
  by (auto simp: guard_def)

lemma guard_simps [simp]: "guard True e = Inr ()" "guard False e = Inl e"
  by (simp_all add: guard_def)

text \<open>Visit a list from left to right and stop at the first failure.\<close>

fun traverse :: "('a \<Rightarrow> 'e + 'b) \<Rightarrow> 'a list \<Rightarrow> 'e + 'b list" where
  "traverse f [] = Inr []"
| "traverse f (x # xs) = ebind (f x) (\<lambda>y. ebind (traverse f xs) (\<lambda>ys. Inr (y # ys)))"

lemma traverse_Inr_iff [result_simps]:
  "traverse f xs = Inr ys \<longleftrightarrow> list_all2 (\<lambda>x y. f x = Inr y) xs ys"
  by (induction xs arbitrary: ys) (auto simp: ebind_Inr_iff list_all2_Cons1)

lemma traverse_Inl:
  "traverse f xs = Inl e \<Longrightarrow> \<exists>x \<in> set xs. f x = Inl e"
  by (induction xs) (auto simp: ebind_Inl_iff)

end
