(* ===== verification/Json.thy ===== *)
theory Json
  imports Prelude
begin

text \<open>
  JSON values as the package passes them around (payloads, headers, progress, receipts), the
  compact \<open>json.dumps\<close> the package measures and hashes, and Python's equality on them.  Floating
  point numbers are left out: nothing in the modelled code computes with one inside a JSON value.
\<close>

datatype json =
    JNull
  | JBool bool
  | JInt int
  | JStr string
  | JArr "json list"
  | JObj "(string \<times> json) list"

type_synonym jobj = "(string \<times> json) list"

section \<open>Compact serialisation\<close>

text \<open>\<open>json.dumps(.., ensure_ascii=False)\<close> escapes the quote, the backslash and the controls.\<close>

definition json_escape :: "char \<Rightarrow> string" where
  "json_escape c = (let n = ord_c c in
     if n = 34 then [CHR 0x5C, CHR 0x22]
     else if n = 92 then [CHR 0x5C, CHR 0x5C]
     else if n = 10 then [CHR 0x5C, CHR ''n'']
     else if n = 13 then [CHR 0x5C, CHR ''r'']
     else if n = 9 then [CHR 0x5C, CHR ''t'']
     else if n = 12 then [CHR 0x5C, CHR ''f'']
     else if n = 8 then [CHR 0x5C, CHR ''b'']
     else if n < 32 then [CHR 0x5C] @ ''u00'' @ [hex_digit (n div 16), hex_digit n]
     else [c])"

definition json_quote :: "string \<Rightarrow> string" where
  "json_quote s = [CHR 0x22] @ concat (map json_escape s) @ [CHR 0x22]"

fun intersperse_join :: "string \<Rightarrow> string list \<Rightarrow> string" where
  "intersperse_join sep [] = []"
| "intersperse_join sep [w] = w"
| "intersperse_join sep (w # v # ws) = w @ sep @ intersperse_join sep (v # ws)"

fun json_dumps :: "json \<Rightarrow> string" where
  "json_dumps JNull = ''null''"
| "json_dumps (JBool b) = (if b then ''true'' else ''false'')"
| "json_dumps (JInt i) = int_str i"
| "json_dumps (JStr s) = json_quote s"
| "json_dumps (JArr xs) = ''['' @ intersperse_join '','' (map json_dumps xs) @ '']''"
| "json_dumps (JObj kvs) =
     [CHR 0x7B] @ intersperse_join '','' (map (\<lambda>(k, v). json_quote k @ '':'' @ json_dumps v) kvs)
       @ [CHR 0x7D]"

text \<open>\<open>sort_keys=True\<close>: every object is printed with its keys in ascending order.\<close>

fun json_sorted :: "json \<Rightarrow> json" where
  "json_sorted (JArr xs) = JArr (map json_sorted xs)"
| "json_sorted (JObj kvs) = JObj (sort_key fst (map (\<lambda>(k, v). (k, json_sorted v)) kvs))"
| "json_sorted j = j"

text \<open>\<open>_json_size\<close>: the UTF-8 size of the compact serialisation.\<close>

definition json_size :: "json \<Rightarrow> nat" where
  "json_size j = utf8_length (json_dumps j)"

text \<open>\<open>_bounded_json\<close>: \<open>None\<close> passes; a present value must fit the limit.\<close>

definition bounded_json :: "json option \<Rightarrow> nat \<Rightarrow> bool" where
  "bounded_json v limit = (case v of None \<Rightarrow> True | Some j \<Rightarrow> json_size j \<le> limit)"

section \<open>Python equality\<close>

text \<open>
  \<open>True == 1\<close> and \<open>False == 0\<close> in Python; dictionaries compare by content, not by order.
\<close>

lemma size_zip_left [termination_simp]:
  "(x, y) \<in> set (zip xs ys) \<Longrightarrow> size x < Suc (size_list size xs)"
  by (meson less_Suc_eq_le order_refl set_zip_leftD size_list_estimation')

fun py_eq :: "json \<Rightarrow> json \<Rightarrow> bool" where
  "py_eq (JArr xs) b = (case b of
      JArr ys \<Rightarrow> length xs = length ys \<and> list_all (\<lambda>(x, y). py_eq x y) (zip xs ys)
    | _ \<Rightarrow> False)"
| "py_eq (JObj xs) b = (case b of
      JObj ys \<Rightarrow> length xs = length ys \<and>
        list_all (\<lambda>(k, v). case map_of ys k of None \<Rightarrow> False | Some w \<Rightarrow> py_eq v w) xs
    | _ \<Rightarrow> False)"
| "py_eq (JBool x) b = (case b of JBool y \<Rightarrow> x = y | JInt n \<Rightarrow> n = of_bool x | _ \<Rightarrow> False)"
| "py_eq (JInt m) b = (case b of JBool y \<Rightarrow> m = of_bool y | JInt n \<Rightarrow> m = n | _ \<Rightarrow> False)"
| "py_eq (JStr s) b = (case b of JStr t \<Rightarrow> s = t | _ \<Rightarrow> False)"
| "py_eq JNull b = (case b of JNull \<Rightarrow> True | _ \<Rightarrow> False)"

text \<open>An object whose keys are distinct at every level, as every Python value is.\<close>

fun json_ok :: "json \<Rightarrow> bool" where
  "json_ok (JArr xs) = list_all json_ok xs"
| "json_ok (JObj kvs) = (distinct (map fst kvs) \<and> list_all (\<lambda>(k, v). json_ok v) kvs)"
| "json_ok j = True"

lemma py_eq_refl: "json_ok j \<Longrightarrow> py_eq j j"
proof (induction j rule: json_ok.induct)
  case (1 xs)
  then show ?case
    by (auto simp: list_all_iff in_set_zip)
next
  case (2 kvs)
  have "py_eq v v \<and> map_of kvs k = Some v" if "(k, v) \<in> set kvs" for k v
    using 2 that by (auto simp: list_all_iff)
  then show ?case
    by (auto simp: list_all_iff split: option.splits)
qed simp_all

definition jobj_eq :: "jobj \<Rightarrow> jobj \<Rightarrow> bool" where
  "jobj_eq a b = py_eq (JObj a) (JObj b)"

definition jobj_ok :: "jobj \<Rightarrow> bool" where
  "jobj_ok a = json_ok (JObj a)"

lemma jobj_eq_refl [simp]: "jobj_ok a \<Longrightarrow> jobj_eq a a"
  unfolding jobj_eq_def jobj_ok_def by (rule py_eq_refl)

end
