(* ===== verification/Errors.thy ===== *)
theory Errors
  imports Json
begin

text \<open>
  The public error vocabulary: the \<open>TqCode\<close> registry of \<open>protocol.py\<close> and \<open>errors.py\<close> (safe
  details, retry hints, and the normalisation of a database exception by its SQLSTATE).  An
  exception raised by Python code is a value of \<open>exc\<close>; the exceptions a database driver raises
  form a finite object graph, which \<open>exception_chain\<close> walks.
\<close>

section \<open>Protocol codes\<close>

datatype tq_code =
    NOT_FOUND | OPERATOR_DENIED | CONFLICT | VALIDATION | QUEUE_OWNER_DENIED
  | VERSION | BACKPRESSURE | INTERNAL | CAPABILITY | UNAVAILABLE

definition all_codes :: "tq_code list" where
  "all_codes = [NOT_FOUND, OPERATOR_DENIED, CONFLICT, VALIDATION, QUEUE_OWNER_DENIED,
     VERSION, BACKPRESSURE, INTERNAL, CAPABILITY, UNAVAILABLE]"

fun code_value :: "tq_code \<Rightarrow> string" where
  "code_value NOT_FOUND = ''TQ001''"
| "code_value OPERATOR_DENIED = ''TQ403''"
| "code_value CONFLICT = ''TQ409''"
| "code_value VALIDATION = ''TQ422''"
| "code_value QUEUE_OWNER_DENIED = ''TQ425''"
| "code_value VERSION = ''TQ426''"
| "code_value BACKPRESSURE = ''TQ429''"
| "code_value INTERNAL = ''TQ500''"
| "code_value CAPABILITY = ''TQ501''"
| "code_value UNAVAILABLE = ''TQ503''"

record tq_error_spec =
  http_status :: nat
  spec_retryable :: bool
  category :: string

fun error_registry :: "tq_code \<Rightarrow> tq_error_spec" where
  "error_registry NOT_FOUND =
     \<lparr>http_status = 404, spec_retryable = False, category = ''resource not found''\<rparr>"
| "error_registry OPERATOR_DENIED =
     \<lparr>http_status = 403, spec_retryable = False, category = ''operator authorization denied''\<rparr>"
| "error_registry CONFLICT =
     \<lparr>http_status = 409, spec_retryable = False, category = ''durable state conflict''\<rparr>"
| "error_registry VALIDATION =
     \<lparr>http_status = 422, spec_retryable = False, category = ''invalid command''\<rparr>"
| "error_registry QUEUE_OWNER_DENIED =
     \<lparr>http_status = 403, spec_retryable = False, category = ''queue admission owner denied''\<rparr>"
| "error_registry VERSION =
     \<lparr>http_status = 426, spec_retryable = False, category = ''unsupported version''\<rparr>"
| "error_registry BACKPRESSURE =
     \<lparr>http_status = 429, spec_retryable = True, category = ''queue backpressure''\<rparr>"
| "error_registry INTERNAL =
     \<lparr>http_status = 500, spec_retryable = True, category = ''internal taskq failure''\<rparr>"
| "error_registry CAPABILITY =
     \<lparr>http_status = 501, spec_retryable = False, category = ''capability not active''\<rparr>"
| "error_registry UNAVAILABLE =
     \<lparr>http_status = 503, spec_retryable = True, category = ''taskq unavailable''\<rparr>"

text \<open>\<open>TqCode(value)\<close>: the member with this value, or a \<open>ValueError\<close>.\<close>

definition code_of_value :: "string \<Rightarrow> tq_code option" where
  "code_of_value s = find (\<lambda>c. code_value c = s) all_codes"

lemma all_codes_complete: "c \<in> set all_codes"
  by (cases c) (simp_all add: all_codes_def)

lemma code_value_inj: "code_value c = code_value d \<Longrightarrow> c = d"
  by (cases c; cases d) simp_all

lemma code_of_value_Some: "code_of_value s = Some c \<longleftrightarrow> code_value c = s"
proof
  show "code_of_value s = Some c \<Longrightarrow> code_value c = s"
    by (auto simp: code_of_value_def find_Some_iff)
  assume s: "code_value c = s"
  then have "code_of_value s \<noteq> None"
    using all_codes_complete [of c] by (auto simp: code_of_value_def find_None_iff)
  then obtain d where d: "code_of_value s = Some d" by blast
  then have "code_value d = s" by (auto simp: code_of_value_def find_Some_iff)
  with s d show "code_of_value s = Some c" using code_value_inj by metis
qed

section \<open>Exception values\<close>

datatype pyfloat = FFinite rat | FPosInf | FNegInf | FNaN

record taskq_error =
  err_code :: tq_code
  err_details :: jobj
  err_retryable :: bool
  err_retry_after :: "rat option"
  err_protocol :: bool

datatype exc =
    TaskqError taskq_error
  | ConfigError string
  | InvalidFollowupError string
  | UnknownTaskError string
  | ValidationError string
  | PyAssertionError string
  | PyKeyError
  | PyException string

definition sensitive_detail_keys :: "string list" where
  "sensitive_detail_keys =
     [''attempt_id'', ''connection'', ''dsn'', ''query'', ''raw_sql'', ''sql'', ''statement'']"

definition safe_details :: "jobj \<Rightarrow> jobj" where
  "safe_details d = filter (\<lambda>(k, v). map char_lower k \<notin> set sensitive_detail_keys) d"

definition normalize_retry_after :: "pyfloat option \<Rightarrow> rat option" where
  "normalize_retry_after r = (case r of
      Some (FFinite q) \<Rightarrow> if q > 0 then Some q else None
    | _ \<Rightarrow> None)"

text \<open>The constructor every \<open>TaskqError\<close> subclass shares; \<open>retryable\<close> is read from the registry.\<close>

definition taskq_error_init :: "tq_code \<Rightarrow> jobj \<Rightarrow> pyfloat option \<Rightarrow> taskq_error" where
  "taskq_error_init c details retry_after =
     \<lparr>err_code = c, err_details = safe_details details,
      err_retryable = spec_retryable (error_registry c),
      err_retry_after = normalize_retry_after retry_after, err_protocol = False\<rparr>"

abbreviation raise_code :: "tq_code \<Rightarrow> exc" where
  "raise_code c \<equiv> TaskqError (taskq_error_init c [] None)"

abbreviation raise_with :: "tq_code \<Rightarrow> jobj \<Rightarrow> exc" where
  "raise_with c d \<equiv> TaskqError (taskq_error_init c d None)"

abbreviation raise_reason :: "tq_code \<Rightarrow> string \<Rightarrow> exc" where
  "raise_reason c r \<equiv> raise_with c [(''reason'', JStr r)]"

definition taskq_error_from_code :: "string \<Rightarrow> jobj \<Rightarrow> pyfloat option \<Rightarrow> taskq_error" where
  "taskq_error_from_code s details retry_after =
     taskq_error_init (case code_of_value s of Some c \<Rightarrow> c | None \<Rightarrow> INTERNAL) details retry_after"

lemma safe_details_keys:
  "(k, v) \<in> set (safe_details d) \<Longrightarrow> map char_lower k \<notin> set sensitive_detail_keys"
  by (auto simp: safe_details_def)

section \<open>Database exceptions\<close>

text \<open>
  An attribute read by \<open>getattr(.., None)\<close>: absent or \<open>None\<close>, a string, or some other object with
  its truth value.  The links of an exception are object identities.
\<close>

datatype pyattr = ANone | AStr string | AObj bool

record exc_node =
  sqlstate :: pyattr
  pgcode :: pyattr
  orig :: "nat option"
  exc_cause :: "nat option"
  exc_context :: "nat option"

type_synonym exc_graph = "(nat, exc_node) dict"

fun truthy :: "pyattr \<Rightarrow> bool" where
  "truthy ANone = False"
| "truthy (AStr s) = (s \<noteq> [])"
| "truthy (AObj b) = b"

definition exc_links :: "exc_graph \<Rightarrow> exc_node \<Rightarrow> nat list" where
  "exc_links g n = filter (\<lambda>i. dget g i \<noteq> None)
     (List.map_filter id [orig n, exc_cause n, exc_context n])"

lemma exc_seen_decreases:
  assumes "current \<notin> seen" and "dget g current = Some n"
  shows "card (fst ` set g - insert current seen) < card (fst ` set g - seen)"
proof (rule psubset_card_mono)
  have "current \<in> fst ` set g" using dget_Some_key [OF assms(2)] by simp
  with assms(1) show "fst ` set g - insert current seen \<subset> fst ` set g - seen" by blast
qed simp

function exception_chain :: "exc_graph \<Rightarrow> nat list \<Rightarrow> nat set \<Rightarrow> nat list \<Rightarrow> nat list" where
  "exception_chain g [] seen result = result"
| "exception_chain g (current # pending) seen result =
     (if current \<in> seen then exception_chain g pending seen result
      else case dget g current of
        None \<Rightarrow> exception_chain g pending seen result
      | Some n \<Rightarrow>
          exception_chain g (pending @ exc_links g n) (insert current seen) (result @ [current]))"
  by pat_completeness auto
termination
  by (relation "measures [\<lambda>(g, p, seen, r). card (set (dkeys g) - seen), \<lambda>(g, p, seen, r). length p]")
    (auto dest: exc_seen_decreases)

text \<open>\<open>getattr(e, "sqlstate", None) or getattr(e, "pgcode", None)\<close>, when it is a string.\<close>

definition candidate_state :: "exc_node \<Rightarrow> string option" where
  "candidate_state n =
     (case (if truthy (sqlstate n) then sqlstate n else pgcode n) of AStr s \<Rightarrow> Some s | _ \<Rightarrow> None)"

fun first_state :: "exc_graph \<Rightarrow> nat list \<Rightarrow> string option" where
  "first_state g [] = None"
| "first_state g (i # is) = (case dget g i of
      None \<Rightarrow> first_state g is
    | Some n \<Rightarrow> (case candidate_state n of Some s \<Rightarrow> Some s | None \<Rightarrow> first_state g is))"

definition availability_states :: "string list" where
  "availability_states = [''53300'', ''57P01'', ''57P02'', ''57P03'']"

definition code_of_state :: "string option \<Rightarrow> tq_code" where
  "code_of_state state = (case state of
      None \<Rightarrow> INTERNAL
    | Some s \<Rightarrow> (case code_of_value s of
        Some c \<Rightarrow> c
      | None \<Rightarrow> if take 2 s = ''08'' \<or> s \<in> set availability_states then UNAVAILABLE else INTERNAL))"

definition taskq_error_from_exception :: "exc_graph \<Rightarrow> nat \<Rightarrow> taskq_error" where
  "taskq_error_from_exception g e =
     taskq_error_init (code_of_state (first_state g (exception_chain g [e] {} []))) [] None"

section \<open>The chain is the reachable part of the graph\<close>

inductive exc_reach :: "exc_graph \<Rightarrow> nat \<Rightarrow> nat \<Rightarrow> bool" for g e where
  exc_refl: "dget g e \<noteq> None \<Longrightarrow> exc_reach g e e"
| exc_step: "exc_reach g e i \<Longrightarrow> dget g i = Some n \<Longrightarrow> j \<in> set (exc_links g n) \<Longrightarrow> exc_reach g e j"

text \<open>
  The invariant of the walk: the result lists the seen exceptions once each, and a link of a seen
  exception is seen or pending.
\<close>

definition chain_inv :: "exc_graph \<Rightarrow> nat \<Rightarrow> nat list \<Rightarrow> nat set \<Rightarrow> nat list \<Rightarrow> bool" where
  "chain_inv g e pending seen result \<longleftrightarrow>
     set result = seen \<and> distinct result \<and>
     (\<forall>i \<in> seen \<union> set pending. exc_reach g e i) \<and>
     e \<in> seen \<union> set pending \<and>
     (\<forall>i \<in> seen. \<forall>n. dget g i = Some n \<longrightarrow> set (exc_links g n) \<subseteq> seen \<union> set pending)"

lemma exc_reach_present: "exc_reach g e i \<Longrightarrow> \<exists>n. dget g i = Some n"
  by (induction rule: exc_reach.induct) (auto simp: exc_links_def)

lemma chain_inv_closed:
  assumes inv: "chain_inv g e [] seen result"
  shows "set result = {i. exc_reach g e i} \<and> distinct result"
proof -
  have "i \<in> seen" if "exc_reach g e i" for i
    using that
  proof (induction rule: exc_reach.induct)
    case exc_refl
    with inv show ?case by (simp add: chain_inv_def)
  next
    case (exc_step i n j)
    with inv have "set (exc_links g n) \<subseteq> seen" unfolding chain_inv_def by simp
    with exc_step show ?case by blast
  qed
  with inv show ?thesis by (auto simp: chain_inv_def)
qed

lemma chain_inv_skip:
  "chain_inv g e (c # p) seen result \<Longrightarrow> c \<in> seen \<Longrightarrow> chain_inv g e p seen result"
  unfolding chain_inv_def by (auto simp: insert_absorb)

lemma chain_inv_visit:
  assumes inv: "chain_inv g e (c # p) seen result" and c: "c \<notin> seen" and n: "dget g c = Some n"
  shows "chain_inv g e (p @ exc_links g n) (insert c seen) (result @ [c])"
proof -
  have "exc_reach g e c" using inv by (simp add: chain_inv_def)
  then have "\<forall>j \<in> set (exc_links g n). exc_reach g e j"
    using n by (auto intro: exc_reach.exc_step)
  moreover have "set (exc_links g m) \<subseteq> insert c seen \<union> set (p @ exc_links g n)"
    if "i \<in> insert c seen" "dget g i = Some m" for i m
    using inv n that unfolding chain_inv_def by (cases "i = c") fastforce+
  ultimately show ?thesis using inv c unfolding chain_inv_def by auto
qed

lemma exception_chain_inv:
  "chain_inv g e pending seen result \<Longrightarrow>
   set (exception_chain g pending seen result) = {i. exc_reach g e i} \<and>
   distinct (exception_chain g pending seen result)"
proof (induction g pending seen result rule: exception_chain.induct)
  case (1 g seen result)
  then show ?case by (simp add: chain_inv_closed)
next
  case (2 g c p seen result)
  show ?case
  proof (cases "c \<in> seen")
    case True
    with 2 show ?thesis by (simp add: chain_inv_skip)
  next
    case False
    from 2(4) have "exc_reach g e c" by (simp add: chain_inv_def)
    then obtain n where n: "dget g c = Some n" using exc_reach_present by blast
    with 2 False show ?thesis by (simp add: chain_inv_visit)
  qed
qed

text \<open>
  The chain a database exception is classified by is exactly the set of exceptions reachable
  from it over \<open>orig\<close>, \<open>__cause__\<close> and \<open>__context__\<close>, each visited once, cyclic links included.
\<close>

theorem exception_chain_reachable:
  assumes "dget g e \<noteq> None"
  shows "set (exception_chain g [e] {} []) = {i. exc_reach g e i}
    \<and> distinct (exception_chain g [e] {} [])"
proof -
  have "chain_inv g e [e] {} []"
    using assms by (auto simp: chain_inv_def intro: exc_reach.exc_refl)
  then show ?thesis by (rule exception_chain_inv)
qed

definition example_exc_graph :: exc_graph where
  "example_exc_graph =
     [(1, \<lparr>sqlstate = ANone, pgcode = ANone, orig = Some 2, exc_cause = None, exc_context = Some 1\<rparr>),
      (2, \<lparr>sqlstate = AStr ''08006'', pgcode = ANone, orig = None, exc_cause = Some 1, exc_context = None\<rparr>)]"

lemma example_chain: "exception_chain example_exc_graph [1] {} [] = [1, 2]"
  by (simp add: example_exc_graph_def exc_links_def List.map_filter_def)

theorem exception_chain_reachable_witness:
  "set (exception_chain example_exc_graph [1] {} []) = {i. exc_reach example_exc_graph 1 i}
    \<and> exception_chain example_exc_graph [1] {} [] = [1, 2]"
proof -
  have "dget example_exc_graph 1 \<noteq> None" by (simp add: example_exc_graph_def)
  from exception_chain_reachable [OF this] example_chain show ?thesis by blast
qed

text \<open>
  A SQLSTATE decides the public code: an own \<open>TQ\<close> code is itself, a connection state is
  \<open>UNAVAILABLE\<close>, anything else \<open>INTERNAL\<close>; only retryable codes result for foreign states.
\<close>

lemma foreign_state_retryable:
  "code_of_value s = None \<Longrightarrow> spec_retryable (error_registry (code_of_state (Some s)))"
  by (simp add: code_of_state_def)

lemma no_state_internal: "first_state g (exception_chain g [e] {} []) = None \<Longrightarrow>
  err_code (taskq_error_from_exception g e) = INTERNAL"
  by (simp add: taskq_error_from_exception_def taskq_error_init_def code_of_state_def)

lemma own_code_kept: "code_of_state (Some (code_value c)) = c"
  using code_of_value_Some [of "code_value c" c] by (simp add: code_of_state_def)

end
