(* ===== verification/Protocol.thy ===== *)
theory Protocol
  imports Errors
begin

text \<open>
  The value models of \<open>protocol.py\<close>: enumerations, command and request models with the predicate
  their pydantic validators accept, and the result models the transports return.  An aware
  \<open>datetime\<close> is an instant, a number of microseconds; a model's constructor raises
  \<open>ValidationError\<close> exactly when its predicate is false.
\<close>

type_synonym instant = int

definition seconds :: "int \<Rightarrow> instant" where
  "seconds n = n * 1000000"

section \<open>Names and small checks\<close>

definition queue_char :: "char \<Rightarrow> bool" where
  "queue_char c \<longleftrightarrow> is_lower_c c \<or> is_digit_c c \<or> c = CHR ''_''"

text \<open>\<open>^[a-z0-9_]{1,57}$\<close>\<close>

definition queue_name :: "string \<Rightarrow> bool" where
  "queue_name s \<longleftrightarrow> 1 \<le> length s \<and> length s \<le> 57 \<and> list_all queue_char s"

fun wire_part :: "string \<Rightarrow> bool" where
  "wire_part [] = False"
| "wire_part (c # cs) = (is_lower_c c \<and> list_all queue_char cs)"

text \<open>\<open>^[a-z][a-z0-9_]*(?:\.[a-z][a-z0-9_]*)*$\<close>, at most 120 characters.\<close>

definition wire_name :: "string \<Rightarrow> bool" where
  "wire_name s \<longleftrightarrow> 1 \<le> length s \<and> length s \<le> 120 \<and> list_all wire_part (split_on CHR ''.'' s)"

definition step_char :: "char \<Rightarrow> bool" where
  "step_char c \<longleftrightarrow> is_alnum_c c \<or> c = CHR ''.'' \<or> c = CHR ''_'' \<or> c = CHR ''-''"

text \<open>\<open>^[A-Za-z0-9][A-Za-z0-9._-]*$\<close>, at most 64 characters: step keys, revisions.\<close>

definition step_name :: "string \<Rightarrow> bool" where
  "step_name s \<longleftrightarrow> length s \<le> 64 \<and>
     (case s of [] \<Rightarrow> False | c # cs \<Rightarrow> is_alnum_c c \<and> list_all step_char cs)"

definition hex_char :: "char \<Rightarrow> bool" where
  "hex_char c \<longleftrightarrow> is_digit_c c \<or> 97 \<le> ord_c c \<and> ord_c c \<le> 102"

text \<open>\<open>^[0-9a-f]{64}$\<close>\<close>

definition policy_hash :: "string \<Rightarrow> bool" where
  "policy_hash s \<longleftrightarrow> length s = 64 \<and> list_all hex_char s"

definition opt_ok :: "('a \<Rightarrow> bool) \<Rightarrow> 'a option \<Rightarrow> bool" where
  "opt_ok P x = (case x of None \<Rightarrow> True | Some v \<Rightarrow> P v)"

lemma opt_ok_simps [simp]: "opt_ok P None" "opt_ok P (Some v) = P v"
  by (simp_all add: opt_ok_def)

definition between :: "int \<Rightarrow> int \<Rightarrow> int \<Rightarrow> bool" where
  "between lo hi n \<longleftrightarrow> lo \<le> n \<and> n \<le> hi"

definition str_len :: "nat \<Rightarrow> nat \<Rightarrow> string \<Rightarrow> bool" where
  "str_len lo hi s \<longleftrightarrow> lo \<le> length s \<and> length s \<le> hi"

lemma step_char_ascii: "step_char c \<Longrightarrow> ord_c c < 128"
  by (auto simp: step_char_def char_class_defs)

lemma step_name_ascii: "step_name s \<Longrightarrow> list_all (\<lambda>c. ord_c c < 128) s"
  by (cases s) (auto simp: step_name_def list_all_iff step_char_ascii char_class_defs)

lemma step_name_bytes: "step_name s \<Longrightarrow> utf8_length s \<le> 64"
  by (metis step_name_ascii step_name_def utf8_length_ascii)

section \<open>Enumerations\<close>

datatype job_status = BLOCKED | QUEUED | RUNNING | SUCCEEDED | FAILED | CANCELLED

definition terminal_status :: "job_status \<Rightarrow> bool" where
  "terminal_status s \<longleftrightarrow> s = SUCCEEDED \<or> s = FAILED \<or> s = CANCELLED"

datatype settle_outcome =
  OK | RETRY_SCHEDULED | DEAD | ALREADY_SETTLED | SETTLE_CONFLICT | LOST

fun settle_outcome_value :: "settle_outcome \<Rightarrow> string" where
  "settle_outcome_value OK = ''ok''"
| "settle_outcome_value RETRY_SCHEDULED = ''retry_scheduled''"
| "settle_outcome_value DEAD = ''dead''"
| "settle_outcome_value ALREADY_SETTLED = ''already_settled''"
| "settle_outcome_value SETTLE_CONFLICT = ''settle_conflict''"
| "settle_outcome_value LOST = ''lost''"

datatype claim_state =
  CLAIMED | CLAIM_EMPTY | PAUSED_QUEUE | THROTTLED | UNKNOWN_QUEUE | CLAIM_UNAVAILABLE

datatype workflow_kind = DAG | BATCH
datatype workflow_status = WF_RUNNING | WF_SUCCEEDED | WF_FAILED | WF_CANCELLED
datatype schedule_state = SCHED_ACTIVE | SCHED_PAUSED | SCHED_RETIRED
datatype catchup_policy = SKIP | FIRE_ONCE | FIRE_ALL
datatype backoff_mode = FIXED | EXPONENTIAL

section \<open>Enqueue commands\<close>

record enqueue_command =
  ec_queue :: string
  ec_job_type :: string
  ec_payload :: jobj
  ec_priority :: "int option"
  ec_scheduled_at :: "instant option"
  ec_idempotency_key :: "string option"
  ec_concurrency_key :: "string option"
  ec_affinity_key :: "string option"
  ec_max_attempts :: "int option"
  ec_lease_seconds :: "int option"
  ec_backoff_mode :: "backoff_mode option"
  ec_backoff_base :: "int option"
  ec_backoff_cap :: "int option"
  ec_workflow_id :: "uuid option"
  ec_step_key :: "string option"
  ec_depends_on :: "uuid list option"
  ec_headers :: "jobj option"
  ec_ttl_seconds :: "int option"
  ec_flow_key :: "string option"

text \<open>The field constraints, \<open>_step_key_bytes\<close> and \<open>_workflow_shape\<close> of \<open>EnqueueCommand\<close>.\<close>

definition enqueue_command_valid :: "enqueue_command \<Rightarrow> bool" where
  "enqueue_command_valid c \<longleftrightarrow>
     opt_ok (\<lambda>s. step_name s \<and> utf8_length s \<le> 64) (ec_step_key c) \<and>
     opt_ok (\<lambda>d. length d \<le> 100) (ec_depends_on c) \<and>
     opt_ok (between 1 31536000) (ec_ttl_seconds c) \<and>
     opt_ok (str_len 1 120) (ec_flow_key c) \<and>
     (ec_workflow_id c = None \<longleftrightarrow> ec_step_key c = None) \<and>
     \<not> (ec_workflow_id c = None \<and> ec_depends_on c \<noteq> None \<and> ec_depends_on c \<noteq> Some []) \<and>
     opt_ok distinct (ec_depends_on c) \<and>
     opt_ok (\<lambda>u. u \<noteq> 0) (ec_workflow_id c) \<and>
     opt_ok (list_all (\<lambda>u. u \<noteq> 0)) (ec_depends_on c)"

definition enqueue_command_init :: "enqueue_command \<Rightarrow> exc + enqueue_command" where
  "enqueue_command_init c =
     (if enqueue_command_valid c then Inr c else Inl (ValidationError ''EnqueueCommand''))"

text \<open>Pydantic equality is field-wise Python equality.\<close>

definition opt_jobj_eq :: "jobj option \<Rightarrow> jobj option \<Rightarrow> bool" where
  "opt_jobj_eq a b = (case (a, b) of
      (None, None) \<Rightarrow> True | (Some x, Some y) \<Rightarrow> jobj_eq x y | _ \<Rightarrow> False)"

definition enqueue_command_eq :: "enqueue_command \<Rightarrow> enqueue_command \<Rightarrow> bool" where
  "enqueue_command_eq a b \<longleftrightarrow>
     jobj_eq (ec_payload a) (ec_payload b) \<and> opt_jobj_eq (ec_headers a) (ec_headers b) \<and>
     a\<lparr>ec_payload := [], ec_headers := None\<rparr> = b\<lparr>ec_payload := [], ec_headers := None\<rparr>"

record enqueue_many_item =
  mi_job_type :: string
  mi_payload :: jobj
  mi_priority :: "int option"
  mi_scheduled_at :: "instant option"
  mi_idempotency_key :: "string option"
  mi_concurrency_key :: "string option"
  mi_affinity_key :: "string option"
  mi_max_attempts :: "int option"
  mi_lease_seconds :: "int option"
  mi_backoff_mode :: "backoff_mode option"
  mi_backoff_base :: "int option"
  mi_backoff_cap :: "int option"
  mi_headers :: "jobj option"
  mi_workflow_id :: "uuid option"
  mi_step_key :: "string option"
  mi_ttl_seconds :: "int option"
  mi_flow_key :: "string option"

definition enqueue_many_item_valid :: "enqueue_many_item \<Rightarrow> bool" where
  "enqueue_many_item_valid i \<longleftrightarrow>
     opt_ok (\<lambda>s. step_name s \<and> utf8_length s \<le> 64) (mi_step_key i) \<and>
     opt_ok (between 1 31536000) (mi_ttl_seconds i) \<and>
     opt_ok (str_len 1 120) (mi_flow_key i) \<and>
     (mi_workflow_id i = None \<longleftrightarrow> mi_step_key i = None) \<and>
     opt_ok (\<lambda>u. u \<noteq> 0) (mi_workflow_id i)"

text \<open>\<open>EnqueueCommand(queue=queue, **item.model_dump())\<close>: a batch item carries no dependencies.\<close>

definition command_of_item :: "string \<Rightarrow> enqueue_many_item \<Rightarrow> enqueue_command" where
  "command_of_item q i =
     \<lparr>ec_queue = q, ec_job_type = mi_job_type i, ec_payload = mi_payload i,
      ec_priority = mi_priority i, ec_scheduled_at = mi_scheduled_at i,
      ec_idempotency_key = mi_idempotency_key i, ec_concurrency_key = mi_concurrency_key i,
      ec_affinity_key = mi_affinity_key i, ec_max_attempts = mi_max_attempts i,
      ec_lease_seconds = mi_lease_seconds i, ec_backoff_mode = mi_backoff_mode i,
      ec_backoff_base = mi_backoff_base i, ec_backoff_cap = mi_backoff_cap i,
      ec_workflow_id = mi_workflow_id i, ec_step_key = mi_step_key i, ec_depends_on = None,
      ec_headers = mi_headers i, ec_ttl_seconds = mi_ttl_seconds i, ec_flow_key = mi_flow_key i\<rparr>"

lemma item_command_valid [simp]:
  "enqueue_command_valid (command_of_item q i) = enqueue_many_item_valid i"
  by (auto simp: enqueue_command_valid_def enqueue_many_item_valid_def command_of_item_def)

record followup =
  fu_step :: string
  fu_job_type :: string
  fu_queue :: "string option"
  fu_payload :: jobj
  fu_headers :: jobj
  fu_priority :: "int option"
  fu_max_attempts :: "int option"
  fu_lease_seconds :: "int option"
  fu_scheduled_at :: "instant option"
  fu_workflow_member :: bool

text \<open>\<open>workflow_member\<close> is \<open>True\<close> or absent, so a Boolean carries it.\<close>

definition followup_valid :: "followup \<Rightarrow> bool" where
  "followup_valid f \<longleftrightarrow>
     step_name (fu_step f) \<and> wire_name (fu_job_type f) \<and> opt_ok queue_name (fu_queue f) \<and>
     opt_ok (between 0 1000) (fu_priority f) \<and> opt_ok (between 1 100) (fu_max_attempts f) \<and>
     opt_ok (between 15 86400) (fu_lease_seconds f) \<and>
     bounded_json (Some (JObj (fu_payload f))) 65536 \<and>
     bounded_json (Some (JObj (fu_headers f))) 8192"

section \<open>Results of enqueue, claim, heartbeat and settlement\<close>

datatype enqueue_status = CREATED | EXISTED

record enqueue_result =
  er_status :: enqueue_status
  er_job_id :: uuid
  er_queue :: string
  er_job_type :: string
  er_idempotency_key :: "string option"
  er_scheduled_at :: "instant option"

definition er_created :: "enqueue_result \<Rightarrow> bool" where
  "er_created r \<longleftrightarrow> er_status r = CREATED"

record claimed_job =
  cj_job_id :: uuid
  cj_queue :: string
  cj_job_type :: string
  cj_priority :: int
  cj_payload :: jobj
  cj_headers :: jobj
  cj_progress :: "jobj option"
  cj_attempt_id :: uuid
  cj_attempt_number :: int
  cj_failure_count :: int
  cj_max_attempts :: int
  cj_lease_expires_at :: instant
  cj_lease_seconds :: int
  cj_workflow_id :: "uuid option"
  cj_step_key :: "string option"
  cj_policy_hash :: "string option"

definition claimed_job_valid :: "claimed_job \<Rightarrow> bool" where
  "claimed_job_valid j \<longleftrightarrow> between 15 86400 (cj_lease_seconds j) \<and> opt_ok policy_hash (cj_policy_hash j)"

record claim_result =
  cr_state :: claim_state
  cr_jobs :: "claimed_job list"
  cr_retry_after :: "int option"

text \<open>\<open>_jobs_match_state\<close>\<close>

definition claim_result_valid :: "claim_result \<Rightarrow> bool" where
  "claim_result_valid r \<longleftrightarrow> (cr_state r = CLAIMED \<longleftrightarrow> cr_jobs r \<noteq> [])"

record heartbeat_result =
  hb_ok :: bool
  hb_cancel_requested :: bool
  hb_lease_expires_at :: "instant option"

record settle_result =
  sr_result :: settle_outcome
  sr_job_status :: "job_status option"
  sr_scheduled_at :: "instant option"

section \<open>Admission, worker, workflow and schedule requests\<close>

record admission_reserve_request =
  ar_idempotency_key :: string
  ar_intent_hash :: string
  ar_handle :: uuid
  ar_reservation_ttl :: int
  ar_receipt_ttl :: int

definition admission_reserve_valid :: "admission_reserve_request \<Rightarrow> bool" where
  "admission_reserve_valid r \<longleftrightarrow>
     str_len 1 255 (ar_idempotency_key r) \<and> policy_hash (ar_intent_hash r) \<and> ar_handle r \<noteq> 0 \<and>
     between 15 3600 (ar_reservation_ttl r) \<and> between 3600 31536000 (ar_receipt_ttl r)"

record admission_job_command =
  aj_job_type :: string
  aj_payload :: jobj
  aj_priority :: "int option"
  aj_scheduled_at :: "instant option"
  aj_concurrency_key :: "string option"
  aj_affinity_key :: "string option"
  aj_max_attempts :: "int option"
  aj_lease_seconds :: "int option"
  aj_backoff_mode :: "backoff_mode option"
  aj_backoff_base :: "int option"
  aj_backoff_cap :: "int option"
  aj_headers :: "jobj option"

definition admission_job_valid :: "admission_job_command \<Rightarrow> bool" where
  "admission_job_valid j \<longleftrightarrow>
     bounded_json (Some (JObj (aj_payload j))) 65536 \<and>
     bounded_json (map_option JObj (aj_headers j)) 8192"

record admission_finish_request =
  af_idempotency_key :: string
  af_handle :: uuid
  af_job :: admission_job_command
  af_receipt :: jobj

definition admission_finish_valid :: "admission_finish_request \<Rightarrow> bool" where
  "admission_finish_valid r \<longleftrightarrow>
     str_len 1 255 (af_idempotency_key r) \<and> af_handle r \<noteq> 0 \<and> admission_job_valid (af_job r) \<and>
     bounded_json (Some (JObj (af_receipt r))) 2048"

definition admission_cancel_valid :: "string \<Rightarrow> uuid \<Rightarrow> bool" where
  "admission_cancel_valid key handle \<longleftrightarrow> str_len 1 255 key \<and> handle \<noteq> 0"

record worker_presence_request =
  wp_worker_id :: string
  wp_queues :: "string list"
  wp_hostname :: "string option"
  wp_pid :: "int option"
  wp_version :: "string option"
  wp_meta :: "jobj option"

definition worker_presence_valid :: "worker_presence_request \<Rightarrow> bool" where
  "worker_presence_valid r \<longleftrightarrow>
     str_len 1 200 (wp_worker_id r) \<and> 1 \<le> length (wp_queues r) \<and> length (wp_queues r) \<le> 32 \<and>
     opt_ok (str_len 0 200) (wp_hostname r) \<and> opt_ok (between 1 2147483647) (wp_pid r) \<and>
     opt_ok (str_len 0 200) (wp_version r) \<and>
     distinct (wp_queues r) \<and> list_all queue_name (wp_queues r) \<and>
     bounded_json (map_option JObj (wp_meta r)) 8192"

record create_workflow_request =
  cw_workflow_key :: string
  cw_kind :: workflow_kind
  cw_params :: jobj
  cw_declared_queues :: "string list"
  cw_member_limit :: "int option"
  cw_policy_hash :: "string option"

definition create_workflow_valid :: "create_workflow_request \<Rightarrow> bool" where
  "create_workflow_valid r \<longleftrightarrow>
     str_len 1 255 (cw_workflow_key r) \<and> utf8_length (cw_workflow_key r) \<le> 255 \<and>
     bounded_json (Some (JObj (cw_params r))) 65536 \<and>
     1 \<le> length (cw_declared_queues r) \<and> length (cw_declared_queues r) \<le> 32 \<and>
     distinct (cw_declared_queues r) \<and> list_all queue_name (cw_declared_queues r) \<and>
     opt_ok (between 1 1000000) (cw_member_limit r) \<and> opt_ok policy_hash (cw_policy_hash r)"

definition workflow_cancel_valid :: "string option \<Rightarrow> bool" where
  "workflow_cancel_valid reason \<longleftrightarrow>
     opt_ok (\<lambda>s. length s \<le> 2048 \<and> utf8_length s \<le> 2048) reason"

text \<open>\<open>_continuation_capacity_is_coherent\<close> on (member limit, admitted total, remaining capacity).\<close>

definition capacity_coherent :: "int option \<Rightarrow> int option \<Rightarrow> int option \<Rightarrow> bool" where
  "capacity_coherent member_limit admitted remaining = (case (member_limit, admitted, remaining) of
      (None, None, None) \<Rightarrow> True
    | (Some l, Some a, Some r) \<Rightarrow> a \<le> l \<and> r = l - a
    | _ \<Rightarrow> False)"

lemma capacity_coherent_bounds:
  "capacity_coherent (Some l) (Some a) r \<Longrightarrow> \<exists>v. r = Some v \<and> 0 \<le> v \<and> a + v = l"
  by (auto simp: capacity_coherent_def split: option.splits)

record schedule_job_target =
  st_queue :: string
  st_job_type :: string
  st_payload :: jobj
  st_headers :: jobj
  st_priority :: "int option"
  st_max_attempts :: "int option"
  st_lease_seconds :: "int option"
  st_backoff_mode :: "backoff_mode option"
  st_backoff_base :: "int option"
  st_backoff_cap :: "int option"
  st_concurrency_key :: "string option"
  st_affinity_key :: "string option"

definition schedule_job_target_valid :: "schedule_job_target \<Rightarrow> bool" where
  "schedule_job_target_valid t \<longleftrightarrow>
     queue_name (st_queue t) \<and> wire_name (st_job_type t) \<and>
     opt_ok (between 0 1000) (st_priority t) \<and> opt_ok (between 1 100) (st_max_attempts t) \<and>
     opt_ok (between 15 86400) (st_lease_seconds t) \<and> opt_ok (between 0 86400) (st_backoff_base t) \<and>
     opt_ok (between 0 604800) (st_backoff_cap t) \<and> opt_ok (str_len 1 255) (st_concurrency_key t) \<and>
     opt_ok (str_len 1 255) (st_affinity_key t) \<and>
     bounded_json (Some (JObj (st_payload t))) 65536 \<and>
     bounded_json (Some (JObj (st_headers t))) 8192"

datatype recurrence = Interval int | Cron string string

record schedule_definition =
  sd_target :: schedule_job_target
  sd_recurrence :: recurrence
  sd_catchup_policy :: catchup_policy
  sd_max_catchup :: int
  sd_paused :: bool

definition schedule_definition_eq :: "schedule_definition \<Rightarrow> schedule_definition \<Rightarrow> bool" where
  "schedule_definition_eq a b \<longleftrightarrow>
     jobj_eq (st_payload (sd_target a)) (st_payload (sd_target b)) \<and>
     jobj_eq (st_headers (sd_target a)) (st_headers (sd_target b)) \<and>
     (sd_target a)\<lparr>st_payload := [], st_headers := []\<rparr> =
       (sd_target b)\<lparr>st_payload := [], st_headers := []\<rparr> \<and>
     a\<lparr>sd_target := sd_target b\<rparr> = b"

end
