(* ===== verification/Commands.thy ===== *)
theory Commands
  imports Protocol
begin

text \<open>
  The command catalogue of \<open>protocol.py\<close>: \<open>COMMAND_SPECS\<close> (SQL identity, capability role, closed
  outcomes, public errors, replay rule) and \<open>HTTP_COMMAND_SPECS\<close> (method, path, action, queue source,
  statuses, retry class), row by row in the source's order, with the consistency of the two tables.
\<close>

section \<open>Names\<close>

datatype command_name =
    C_RESERVE_ADMISSION | C_FINISH_ADMISSION | C_CANCEL_ADMISSION | C_ENQUEUE | C_ENQUEUE_MANY
  | C_CREATE_WORKFLOW | C_SEAL_WORKFLOW | C_CLAIM | C_HEARTBEAT | C_COMPLETE | C_FAIL | C_SNOOZE
  | C_RELEASE | C_CANCEL_RUNNING | C_WORKER_HEARTBEAT | C_GET_AUTHORIZATION_PROJECTION
  | C_GET_WORKFLOW_AUTHORIZATION_PROJECTION | C_GET_WORKFLOW_PAGE | C_LIST_WORKFLOWS
  | C_LIST_WORKER_PRESENCE | C_GET_JOB | C_LIST_JOB_EVENTS | C_GET_QUEUE_STATS
  | C_GET_QUEUE_PROFILE | C_LIST_JOBS | C_GET_CONTRACT_META | C_METRICS | C_ENSURE_QUEUE
  | C_UPDATE_QUEUE_PROFILE | C_PAUSE_QUEUE | C_RESUME_QUEUE | C_SET_CONCURRENCY_LIMIT
  | C_REQUEST_WORKER_SHUTDOWN | C_PURGE_QUEUED | C_RUN_NOW | C_REPRIORITIZE | C_CANCEL
  | C_CANCEL_WORKFLOW | C_PUT_SCHEDULE | C_GET_SCHEDULE | C_LIST_SCHEDULES | C_RETIRE_SCHEDULE
  | C_GET_SCHEDULE_AUTHORIZATION_PROJECTION | C_CLAIM_SCHEDULES | C_FIRE_SCHEDULE
  | C_SCHEDULE_ERROR | C_REDRIVE | C_REDRIVE_FAILED | C_EXPIRE_JOB | C_EXPIRE_WORKER_LEASES
  | C_TICK | C_JANITOR

datatype http_command_name =
    H_META | H_TARGET | H_SCHEDULER_HEALTH | H_ENSURE_QUEUE | H_ENQUEUE | H_ENQUEUE_MANY
  | H_RESERVE_ADMISSION | H_FINISH_ADMISSION | H_CANCEL_ADMISSION | H_CREATE_WORKFLOW
  | H_SEAL_WORKFLOW | H_CANCEL_WORKFLOW | H_GET_WORKFLOW_PAGE | H_LIST_WORKFLOWS | H_GET_SCHEDULE
  | H_LIST_SCHEDULES | H_PUT_SCHEDULE | H_RETIRE_SCHEDULE | H_CLAIM | H_HEARTBEAT | H_COMPLETE
  | H_FAIL | H_RELEASE | H_SNOOZE | H_CANCEL_RUNNING | H_WORKER_HEARTBEAT | H_GET_JOB
  | H_LIST_JOB_EVENTS | H_GET_QUEUE_STATS | H_LIST_QUEUE_STATS | H_METRICS | H_PAUSE_QUEUE
  | H_RESUME_QUEUE | H_CANCEL | H_REDRIVE | H_EXPIRE_JOB | H_EXPIRE_WORKER_LEASES
  | H_PURGE_QUEUED | H_RUN_NOW | H_REPRIORITIZE | H_SET_CONCURRENCY_LIMIT
  | H_REQUEST_WORKER_SHUTDOWN | H_LIST_WORKERS | H_GET_QUEUE | H_LIST_JOBS

datatype capability_role =
    ROLE_PRODUCER | ROLE_RUNNER | ROLE_OBSERVER | ROLE_OPERATOR | ROLE_HOUSEKEEPER

datatype replay_rule =
    FENCED | STATE_DERIVED

datatype taskq_action =
    ACT_ENQUEUE | ACT_RUN | ACT_READ | ACT_CONTROL | ACT_ADMIN

datatype queue_source =
    QS_PATH | QS_JOB_LOOKUP | QS_WORKFLOW_LOOKUP | QS_SCHEDULE_LOOKUP | QS_DECLARED_QUEUES
  | QS_GLOBAL | QS_DEPLOYMENT | QS_QUERY

datatype http_surface =
    SURFACE_ACTIVE | SURFACE_GATED | SURFACE_DEFERRED

datatype retry_class =
    RETRY_NEVER | RETRY_KEYED_ENQUEUE | RETRY_KEYED_BATCH | RETRY_SAFE_IDEMPOTENT
  | RETRY_WORKER_SETTLEMENT

datatype http_method =
    M_DELETE | M_GET | M_POST | M_PUT

definition all_commands :: "command_name list" where
  "all_commands = [C_RESERVE_ADMISSION, C_FINISH_ADMISSION, C_CANCEL_ADMISSION, C_ENQUEUE,
     C_ENQUEUE_MANY, C_CREATE_WORKFLOW, C_SEAL_WORKFLOW, C_CLAIM, C_HEARTBEAT, C_COMPLETE, C_FAIL,
     C_SNOOZE, C_RELEASE, C_CANCEL_RUNNING, C_WORKER_HEARTBEAT, C_GET_AUTHORIZATION_PROJECTION,
     C_GET_WORKFLOW_AUTHORIZATION_PROJECTION, C_GET_WORKFLOW_PAGE, C_LIST_WORKFLOWS,
     C_LIST_WORKER_PRESENCE, C_GET_JOB, C_LIST_JOB_EVENTS, C_GET_QUEUE_STATS, C_GET_QUEUE_PROFILE,
     C_LIST_JOBS, C_GET_CONTRACT_META, C_METRICS, C_ENSURE_QUEUE, C_UPDATE_QUEUE_PROFILE,
     C_PAUSE_QUEUE, C_RESUME_QUEUE, C_SET_CONCURRENCY_LIMIT, C_REQUEST_WORKER_SHUTDOWN,
     C_PURGE_QUEUED, C_RUN_NOW, C_REPRIORITIZE, C_CANCEL, C_CANCEL_WORKFLOW, C_PUT_SCHEDULE,
     C_GET_SCHEDULE, C_LIST_SCHEDULES, C_RETIRE_SCHEDULE, C_GET_SCHEDULE_AUTHORIZATION_PROJECTION,
     C_CLAIM_SCHEDULES, C_FIRE_SCHEDULE, C_SCHEDULE_ERROR, C_REDRIVE, C_REDRIVE_FAILED,
     C_EXPIRE_JOB, C_EXPIRE_WORKER_LEASES, C_TICK, C_JANITOR]"

definition all_http_commands :: "http_command_name list" where
  "all_http_commands = [H_META, H_TARGET, H_SCHEDULER_HEALTH, H_ENSURE_QUEUE, H_ENQUEUE,
     H_ENQUEUE_MANY, H_RESERVE_ADMISSION, H_FINISH_ADMISSION, H_CANCEL_ADMISSION,
     H_CREATE_WORKFLOW, H_SEAL_WORKFLOW, H_CANCEL_WORKFLOW, H_GET_WORKFLOW_PAGE, H_LIST_WORKFLOWS,
     H_GET_SCHEDULE, H_LIST_SCHEDULES, H_PUT_SCHEDULE, H_RETIRE_SCHEDULE, H_CLAIM, H_HEARTBEAT,
     H_COMPLETE, H_FAIL, H_RELEASE, H_SNOOZE, H_CANCEL_RUNNING, H_WORKER_HEARTBEAT, H_GET_JOB,
     H_LIST_JOB_EVENTS, H_GET_QUEUE_STATS, H_LIST_QUEUE_STATS, H_METRICS, H_PAUSE_QUEUE,
     H_RESUME_QUEUE, H_CANCEL, H_REDRIVE, H_EXPIRE_JOB, H_EXPIRE_WORKER_LEASES, H_PURGE_QUEUED,
     H_RUN_NOW, H_REPRIORITIZE, H_SET_CONCURRENCY_LIMIT, H_REQUEST_WORKER_SHUTDOWN,
     H_LIST_WORKERS, H_GET_QUEUE, H_LIST_JOBS]"

lemma all_commands_complete: "c \<in> set all_commands"
  by (cases c) (simp_all add: all_commands_def)

lemma all_http_commands_complete: "c \<in> set all_http_commands"
  by (cases c) (simp_all add: all_http_commands_def)

section \<open>The SQL command table\<close>

record command_spec =
  sql_function :: string
  capability :: capability_role
  spec_outcomes :: "string list"
  spec_errors :: "tq_code list"
  replay_rule :: replay_rule

definition mk_spec ::
  "string \<Rightarrow> capability_role \<Rightarrow> string list \<Rightarrow> tq_code list \<Rightarrow> replay_rule \<Rightarrow> command_spec" where
  "mk_spec f c outs errs rule =
     \<lparr>sql_function = f, capability = c, spec_outcomes = outs, spec_errors = errs, replay_rule = rule\<rparr>"

definition producer_specs :: "(command_name \<times> command_spec) list" where
  "producer_specs = [
     (C_RESERVE_ADMISSION, mk_spec ''taskq.reserve_admission(text,text,text,uuid,integer,integer)''
        ROLE_PRODUCER [''reserved'', ''pending'', ''admitted'']
        [NOT_FOUND, CONFLICT, VALIDATION, QUEUE_OWNER_DENIED] STATE_DERIVED),
     (C_FINISH_ADMISSION, mk_spec ''taskq.finish_admission(text,text,uuid,jsonb,jsonb)''
        ROLE_PRODUCER [''created'', ''existed'']
        [NOT_FOUND, CONFLICT, VALIDATION, BACKPRESSURE, INTERNAL, QUEUE_OWNER_DENIED] STATE_DERIVED),
     (C_CANCEL_ADMISSION, mk_spec ''taskq.cancel_admission(text,text,uuid)''
        ROLE_PRODUCER [''cancelled'', ''already_cancelled'', ''expired'', ''already_admitted'']
        [NOT_FOUND, CONFLICT, VALIDATION, QUEUE_OWNER_DENIED] STATE_DERIVED),
     (C_ENQUEUE, mk_spec ''taskq.enqueue(text,text,jsonb,smallint,timestamp with time zone,text,text,text,smallint,integer,text,integer,integer,uuid[],uuid,text,uuid,jsonb,integer,text)''
        ROLE_PRODUCER [''created'', ''existed'']
        [NOT_FOUND, CONFLICT, VALIDATION, BACKPRESSURE, INTERNAL, QUEUE_OWNER_DENIED] STATE_DERIVED),
     (C_ENQUEUE_MANY, mk_spec ''taskq.enqueue_many(text,jsonb)''
        ROLE_PRODUCER [''created'', ''existed'']
        [NOT_FOUND, CONFLICT, VALIDATION, BACKPRESSURE, INTERNAL, QUEUE_OWNER_DENIED] STATE_DERIVED),
     (C_CREATE_WORKFLOW, mk_spec ''taskq.create_workflow(text,text,jsonb,text[],text)''
        ROLE_PRODUCER [''created'', ''existed'']
        [NOT_FOUND, CONFLICT, VALIDATION] STATE_DERIVED),
     (C_SEAL_WORKFLOW, mk_spec ''taskq.seal_workflow(uuid,text)''
        ROLE_PRODUCER [''sealed'', ''already_sealed'']
        [NOT_FOUND] STATE_DERIVED)]"

definition runner_specs :: "(command_name \<times> command_spec) list" where
  "runner_specs = [
     (C_CLAIM, mk_spec ''taskq.claim_jobs(text,text,integer,text[],integer,text,uuid,boolean)''
        ROLE_RUNNER [''claimed'', ''empty'', ''paused'', ''throttled'', ''unknown_queue'', ''unavailable'']
        [VALIDATION] STATE_DERIVED),
     (C_HEARTBEAT, mk_spec ''taskq.heartbeat(uuid,uuid,text,integer,jsonb,jsonb)''
        ROLE_RUNNER [''ok'', ''lost'']
        [VALIDATION] STATE_DERIVED),
     (C_COMPLETE, mk_spec ''taskq.complete_job(uuid,uuid,text,jsonb,jsonb,jsonb)''
        ROLE_RUNNER [''ok'', ''already_settled'', ''settle_conflict'', ''lost'']
        [VALIDATION, CAPABILITY, QUEUE_OWNER_DENIED] FENCED),
     (C_FAIL, mk_spec ''taskq.fail_job(uuid,uuid,text,text,boolean,integer,jsonb,jsonb)''
        ROLE_RUNNER [''ok'', ''retry_scheduled'', ''dead'', ''already_settled'', ''settle_conflict'', ''lost'']
        [VALIDATION] FENCED),
     (C_SNOOZE, mk_spec ''taskq.snooze_job(uuid,uuid,text,integer,text,jsonb)''
        ROLE_RUNNER [''ok'', ''already_settled'', ''settle_conflict'', ''lost'']
        [VALIDATION] FENCED),
     (C_RELEASE, mk_spec ''taskq.release_job(uuid,uuid,text,text,integer,jsonb)''
        ROLE_RUNNER [''ok'', ''already_settled'', ''settle_conflict'', ''lost'']
        [VALIDATION] FENCED),
     (C_CANCEL_RUNNING, mk_spec ''taskq.cancel_running_job(uuid,uuid,text,text)''
        ROLE_RUNNER [''ok'', ''already_settled'', ''settle_conflict'', ''lost'']
        [] FENCED),
     (C_WORKER_HEARTBEAT, mk_spec ''taskq.worker_heartbeat(text,text[],text,integer,text,jsonb)''
        ROLE_RUNNER [''continue'', ''shutdown_requested'']
        [VALIDATION] STATE_DERIVED)]"

definition observer_specs :: "(command_name \<times> command_spec) list" where
  "observer_specs = [
     (C_GET_AUTHORIZATION_PROJECTION, mk_spec ''taskq.get_authorization_projection(uuid)''
        ROLE_OBSERVER [''ok'', ''missing'']
        [] STATE_DERIVED),
     (C_GET_WORKFLOW_AUTHORIZATION_PROJECTION, mk_spec ''taskq.get_workflow_authorization_projection(uuid)''
        ROLE_OBSERVER [''ok'']
        [NOT_FOUND] STATE_DERIVED),
     (C_GET_WORKFLOW_PAGE, mk_spec ''taskq.get_workflow_page(uuid,integer,uuid)''
        ROLE_OBSERVER [''ok'']
        [NOT_FOUND, VALIDATION, INTERNAL, CAPABILITY] STATE_DERIVED),
     (C_LIST_WORKFLOWS, mk_spec ''taskq.list_workflows(text,integer,jsonb)''
        ROLE_OBSERVER [''ok'']
        [VALIDATION, CAPABILITY] STATE_DERIVED),
     (C_LIST_WORKER_PRESENCE, mk_spec ''taskq.list_worker_presence(integer,timestamp with time zone,text)''
        ROLE_OBSERVER [''ok'']
        [VALIDATION, CAPABILITY] STATE_DERIVED),
     (C_GET_JOB, mk_spec ''taskq.get_job(uuid,boolean,boolean,boolean,boolean)''
        ROLE_OBSERVER [''ok'', ''missing'']
        [] STATE_DERIVED),
     (C_LIST_JOB_EVENTS, mk_spec ''taskq.list_job_events(uuid,integer,bigint,boolean)''
        ROLE_OBSERVER [''ok'']
        [NOT_FOUND, VALIDATION, CAPABILITY] STATE_DERIVED),
     (C_GET_QUEUE_STATS, mk_spec ''taskq.get_queue_stats(text)''
        ROLE_OBSERVER [''ok'']
        [] STATE_DERIVED),
     (C_GET_QUEUE_PROFILE, mk_spec ''taskq.get_queue_profile(text)''
        ROLE_OBSERVER [''ok'']
        [] STATE_DERIVED),
     (C_LIST_JOBS, mk_spec ''taskq.list_jobs(text,text,integer,jsonb)''
        ROLE_OBSERVER [''ok'']
        [NOT_FOUND, VALIDATION, CAPABILITY] STATE_DERIVED),
     (C_GET_CONTRACT_META, mk_spec ''taskq.get_contract_meta()''
        ROLE_OBSERVER [''ok'']
        [] STATE_DERIVED),
     (C_METRICS, mk_spec ''taskq.metrics()''
        ROLE_OBSERVER [''ok'']
        [] STATE_DERIVED)]"

definition operator_specs :: "(command_name \<times> command_spec) list" where
  "operator_specs = [
     (C_ENSURE_QUEUE, mk_spec ''taskq.ensure_queue(text,jsonb,text)''
        ROLE_OPERATOR [''created'', ''updated'', ''unchanged'']
        [VALIDATION] STATE_DERIVED),
     (C_UPDATE_QUEUE_PROFILE, mk_spec ''taskq.update_queue_profile(text,jsonb,text,bigint)''
        ROLE_OPERATOR [''updated'', ''profile_version_conflict'']
        [NOT_FOUND, VALIDATION] STATE_DERIVED),
     (C_PAUSE_QUEUE, mk_spec ''taskq.pause_queue(text,text,text)''
        ROLE_OPERATOR [''paused'', ''already_paused'']
        [NOT_FOUND] STATE_DERIVED),
     (C_RESUME_QUEUE, mk_spec ''taskq.resume_queue(text,text)''
        ROLE_OPERATOR [''resumed'', ''already_resumed'']
        [NOT_FOUND] STATE_DERIVED),
     (C_SET_CONCURRENCY_LIMIT, mk_spec ''taskq.set_concurrency_limit(text,integer,text)''
        ROLE_OPERATOR [''created'', ''updated'', ''unchanged'']
        [VALIDATION] STATE_DERIVED),
     (C_REQUEST_WORKER_SHUTDOWN, mk_spec ''taskq.request_worker_shutdown(text,text,text)''
        ROLE_OPERATOR [''ok'']
        [] STATE_DERIVED),
     (C_PURGE_QUEUED, mk_spec ''taskq.purge_queued(text,integer,text,text)''
        ROLE_OPERATOR [''ok'']
        [NOT_FOUND, VALIDATION] STATE_DERIVED),
     (C_RUN_NOW, mk_spec ''taskq.run_now(uuid,text)''
        ROLE_OPERATOR [''ok'']
        [NOT_FOUND, CONFLICT] STATE_DERIVED),
     (C_REPRIORITIZE, mk_spec ''taskq.reprioritize(uuid,smallint,text)''
        ROLE_OPERATOR [''ok'']
        [NOT_FOUND, CONFLICT, VALIDATION] STATE_DERIVED),
     (C_CANCEL, mk_spec ''taskq.cancel_job(uuid,text,text)''
        ROLE_OPERATOR [''cancelled'', ''cancel_requested'', ''already_terminal'']
        [NOT_FOUND] STATE_DERIVED),
     (C_CANCEL_WORKFLOW, mk_spec ''taskq.cancel_workflow(uuid,text,text)''
        ROLE_OPERATOR [''cancel_requested'', ''already_requested'', ''already_terminal'']
        [NOT_FOUND, VALIDATION] STATE_DERIVED)]"

definition schedule_specs :: "(command_name \<times> command_spec) list" where
  "schedule_specs = [
     (C_PUT_SCHEDULE, mk_spec ''taskq.put_schedule(text,jsonb,text,bigint)''
        ROLE_OPERATOR [''created'', ''unchanged'', ''updated'']
        [NOT_FOUND, CONFLICT, VALIDATION] STATE_DERIVED),
     (C_GET_SCHEDULE, mk_spec ''taskq.get_schedule(text)''
        ROLE_OPERATOR [''ok'']
        [NOT_FOUND] STATE_DERIVED),
     (C_LIST_SCHEDULES, mk_spec ''taskq.list_schedules(text,integer,text)''
        ROLE_OPERATOR [''ok'']
        [VALIDATION, CAPABILITY] STATE_DERIVED),
     (C_RETIRE_SCHEDULE, mk_spec ''taskq.retire_schedule(text,bigint,text)''
        ROLE_OPERATOR [''retired'', ''already_retired'']
        [NOT_FOUND, CONFLICT, VALIDATION] STATE_DERIVED),
     (C_GET_SCHEDULE_AUTHORIZATION_PROJECTION, mk_spec ''taskq.get_schedule_authorization_projection(text)''
        ROLE_OPERATOR [''ok'']
        [NOT_FOUND] STATE_DERIVED),
     (C_CLAIM_SCHEDULES, mk_spec ''taskq.claim_schedules(text,integer,integer)''
        ROLE_HOUSEKEEPER [''empty'', ''claimed'']
        [VALIDATION] STATE_DERIVED),
     (C_FIRE_SCHEDULE, mk_spec ''taskq.fire_schedule(uuid,uuid,bigint,timestamp with time zone[],timestamp with time zone)''
        ROLE_HOUSEKEEPER [''initialized'', ''fired'', ''skipped'', ''stale'']
        [NOT_FOUND, VALIDATION, INTERNAL, QUEUE_OWNER_DENIED] STATE_DERIVED),
     (C_SCHEDULE_ERROR, mk_spec ''taskq.schedule_error(uuid,uuid,bigint,text,integer)''
        ROLE_HOUSEKEEPER [''error_recorded'', ''auto_paused'', ''stale'']
        [NOT_FOUND, VALIDATION] STATE_DERIVED),
     (C_REDRIVE, mk_spec ''taskq.redrive_job(uuid,text,boolean)''
        ROLE_OPERATOR [''redriven'']
        [NOT_FOUND, CONFLICT] STATE_DERIVED),
     (C_REDRIVE_FAILED, mk_spec ''taskq.redrive_failed(text,integer,text,integer)''
        ROLE_OPERATOR [''ok'']
        [VALIDATION] STATE_DERIVED),
     (C_EXPIRE_JOB, mk_spec ''taskq.expire_job(uuid,text)''
        ROLE_OPERATOR [''not_running'', ''expired_and_reaped'']
        [NOT_FOUND] STATE_DERIVED),
     (C_EXPIRE_WORKER_LEASES, mk_spec ''taskq.expire_worker_leases(text,text)''
        ROLE_OPERATOR [''ok'']
        [] STATE_DERIVED),
     (C_TICK, mk_spec ''taskq.tick(integer)''
        ROLE_HOUSEKEEPER [''ok'']
        [VALIDATION] STATE_DERIVED),
     (C_JANITOR, mk_spec ''taskq.janitor()''
        ROLE_HOUSEKEEPER [''ok'']
        [VALIDATION] STATE_DERIVED)]"

definition command_specs :: "(command_name, command_spec) dict" where
  "command_specs =
     producer_specs @ runner_specs @ observer_specs @ operator_specs @ schedule_specs"

lemmas command_table_defs = command_specs_def producer_specs_def runner_specs_def
  observer_specs_def operator_specs_def schedule_specs_def mk_spec_def

definition spec_of :: "command_name \<Rightarrow> command_spec" where
  "spec_of c = the (dget command_specs c)"

definition retryable_errors :: "command_spec \<Rightarrow> tq_code list" where
  "retryable_errors s = filter (\<lambda>c. spec_retryable (error_registry c)) (spec_errors s)"

section \<open>The HTTP command table\<close>

record http_command_spec =
  http_method :: http_method
  http_path :: string
  http_action :: "taskq_action option"
  http_queue_source :: queue_source
  http_surface :: http_surface
  http_outcomes :: "(string, nat) dict"
  http_retry_class :: retry_class
  http_sql_command :: "command_name option"
  http_request_model :: "string option"
  http_data_model :: "string option"
  http_enveloped :: bool

definition mk_http ::
  "http_method \<Rightarrow> string \<Rightarrow> taskq_action option \<Rightarrow> queue_source \<Rightarrow> (string, nat) dict \<Rightarrow> retry_class \<Rightarrow>
   command_name option \<Rightarrow> string option \<Rightarrow> string option \<Rightarrow> bool \<Rightarrow> http_command_spec" where
  "mk_http m p a qs outs rc sql req dat env =
     \<lparr>http_method = m, http_path = p, http_action = a, http_queue_source = qs,
      http_surface = SURFACE_ACTIVE, http_outcomes = outs, http_retry_class = rc,
      http_sql_command = sql, http_request_model = req, http_data_model = dat,
      http_enveloped = env\<rparr>"

definition http_admission_specs :: "(http_command_name \<times> http_command_spec) list" where
  "http_admission_specs = [
     (H_META, mk_http M_GET ''/taskq/v1/meta''
        (Some ACT_READ) QS_DEPLOYMENT
        [(''ok'', 200)]
        RETRY_SAFE_IDEMPOTENT (Some C_GET_CONTRACT_META)
        None (Some ''ContractMeta'') True),
     (H_TARGET, mk_http M_GET ''/taskq/v1/target''
        (Some ACT_READ) QS_GLOBAL
        [(''ok'', 200)]
        RETRY_SAFE_IDEMPOTENT None
        None (Some ''TargetIdentityProfile'') True),
     (H_SCHEDULER_HEALTH, mk_http M_GET ''/taskq/v1/scheduler/health''
        (Some ACT_READ) QS_GLOBAL
        [(''ok'', 200)]
        RETRY_SAFE_IDEMPOTENT None
        None (Some ''SchedulerHealth'') True),
     (H_ENSURE_QUEUE, mk_http M_PUT ''/taskq/v1/queues/{queue}''
        (Some ACT_ADMIN) QS_PATH
        [(''created'', 201), (''updated'', 200), (''unchanged'', 200)]
        RETRY_SAFE_IDEMPOTENT (Some C_ENSURE_QUEUE)
        (Some ''EnsureQueueWireRequest'') (Some ''EnsureQueueWireData'') True),
     (H_ENQUEUE, mk_http M_POST ''/taskq/v1/queues/{queue}/jobs''
        (Some ACT_ENQUEUE) QS_PATH
        [(''created'', 201), (''existed'', 200)]
        RETRY_KEYED_ENQUEUE (Some C_ENQUEUE)
        (Some ''EnqueueWireRequest'') (Some ''EnqueueWireData'') True),
     (H_ENQUEUE_MANY, mk_http M_POST ''/taskq/v1/queues/{queue}/jobs/batch''
        (Some ACT_ENQUEUE) QS_PATH
        [(''ok'', 200)]
        RETRY_KEYED_BATCH (Some C_ENQUEUE_MANY)
        (Some ''EnqueueManyWireRequest'') (Some ''EnqueueManyWireData'') True),
     (H_RESERVE_ADMISSION, mk_http M_POST ''/taskq/v1/queues/{queue}/admissions/reserve''
        (Some ACT_ENQUEUE) QS_PATH
        [(''reserved'', 200), (''pending'', 202), (''admitted'', 200)]
        RETRY_SAFE_IDEMPOTENT (Some C_RESERVE_ADMISSION)
        (Some ''AdmissionReserveRequest'') (Some ''AdmissionReserveWireData'') True),
     (H_FINISH_ADMISSION, mk_http M_POST ''/taskq/v1/queues/{queue}/admissions/finish''
        (Some ACT_ENQUEUE) QS_PATH
        [(''created'', 201), (''existed'', 200)]
        RETRY_SAFE_IDEMPOTENT (Some C_FINISH_ADMISSION)
        (Some ''AdmissionFinishRequest'') (Some ''AdmissionResultWireData'') True),
     (H_CANCEL_ADMISSION, mk_http M_POST ''/taskq/v1/queues/{queue}/admissions/cancel''
        (Some ACT_ENQUEUE) QS_PATH
        [(''cancelled'', 200), (''already_cancelled'', 200), (''expired'', 200), (''already_admitted'', 200)]
        RETRY_SAFE_IDEMPOTENT (Some C_CANCEL_ADMISSION)
        (Some ''AdmissionCancelRequest'') (Some ''AdmissionCancelWireData'') True)]"

definition http_workflow_specs :: "(http_command_name \<times> http_command_spec) list" where
  "http_workflow_specs = [
     (H_CREATE_WORKFLOW, mk_http M_POST ''/taskq/v1/workflows''
        (Some ACT_ENQUEUE) QS_DECLARED_QUEUES
        [(''created'', 201), (''existed'', 200)]
        RETRY_SAFE_IDEMPOTENT (Some C_CREATE_WORKFLOW)
        (Some ''CreateWorkflowWireRequest'') (Some ''WorkflowWireData'') True),
     (H_SEAL_WORKFLOW, mk_http M_POST ''/taskq/v1/workflows/{id}/seal''
        (Some ACT_ENQUEUE) QS_WORKFLOW_LOOKUP
        [(''sealed'', 200), (''already_sealed'', 200)]
        RETRY_SAFE_IDEMPOTENT (Some C_SEAL_WORKFLOW)
        (Some ''EmptyWireRequest'') (Some ''WorkflowWireData'') True),
     (H_CANCEL_WORKFLOW, mk_http M_POST ''/taskq/v1/workflows/{id}/cancel''
        (Some ACT_CONTROL) QS_WORKFLOW_LOOKUP
        [(''cancel_requested'', 202), (''already_requested'', 202), (''already_terminal'', 200)]
        RETRY_SAFE_IDEMPOTENT (Some C_CANCEL_WORKFLOW)
        (Some ''WorkflowCancelWireRequest'') (Some ''WorkflowWireData'') True),
     (H_GET_WORKFLOW_PAGE, mk_http M_GET ''/taskq/v1/workflows/{workflow_id}''
        (Some ACT_READ) QS_WORKFLOW_LOOKUP
        [(''ok'', 200)]
        RETRY_SAFE_IDEMPOTENT (Some C_GET_WORKFLOW_PAGE)
        None (Some ''WorkflowPageWireData'') True),
     (H_LIST_WORKFLOWS, mk_http M_GET ''/taskq/v1/workflows''
        (Some ACT_READ) QS_GLOBAL
        [(''ok'', 200)]
        RETRY_SAFE_IDEMPOTENT (Some C_LIST_WORKFLOWS)
        None (Some ''WorkflowListPageWireData'') True),
     (H_GET_SCHEDULE, mk_http M_GET ''/taskq/v1/schedules/{name}''
        (Some ACT_CONTROL) QS_SCHEDULE_LOOKUP
        [(''ok'', 200)]
        RETRY_SAFE_IDEMPOTENT (Some C_GET_SCHEDULE)
        None (Some ''ScheduleWireData'') True),
     (H_LIST_SCHEDULES, mk_http M_GET ''/taskq/v1/schedules''
        (Some ACT_CONTROL) QS_GLOBAL
        [(''ok'', 200)]
        RETRY_SAFE_IDEMPOTENT (Some C_LIST_SCHEDULES)
        None (Some ''ScheduleListPageWireData'') True),
     (H_PUT_SCHEDULE, mk_http M_PUT ''/taskq/v1/schedules/{name}''
        (Some ACT_CONTROL) QS_SCHEDULE_LOOKUP
        [(''created'', 201), (''unchanged'', 200), (''updated'', 200)]
        RETRY_SAFE_IDEMPOTENT (Some C_PUT_SCHEDULE)
        (Some ''ScheduleDefinition'') (Some ''ScheduleWireData'') True),
     (H_RETIRE_SCHEDULE, mk_http M_DELETE ''/taskq/v1/schedules/{name}''
        (Some ACT_CONTROL) QS_SCHEDULE_LOOKUP
        [(''retired'', 200), (''already_retired'', 200)]
        RETRY_SAFE_IDEMPOTENT (Some C_RETIRE_SCHEDULE)
        None (Some ''ScheduleWireData'') True)]"

definition http_runner_specs :: "(http_command_name \<times> http_command_spec) list" where
  "http_runner_specs = [
     (H_CLAIM, mk_http M_POST ''/taskq/v1/queues/{queue}/claims''
        (Some ACT_RUN) QS_PATH
        [(''claimed'', 200), (''empty'', 200), (''timeout'', 200), (''paused'', 200), (''unavailable'', 200)]
        RETRY_NEVER (Some C_CLAIM)
        (Some ''ClaimWireRequest'') (Some ''ClaimWireData'') True),
     (H_HEARTBEAT, mk_http M_POST ''/taskq/v1/jobs/{job_id}/heartbeat''
        (Some ACT_RUN) QS_JOB_LOOKUP
        [(''ok'', 200), (''lost'', 409)]
        RETRY_SAFE_IDEMPOTENT (Some C_HEARTBEAT)
        (Some ''HeartbeatWireRequest'') (Some ''HeartbeatWireData'') True),
     (H_COMPLETE, mk_http M_POST ''/taskq/v1/jobs/{job_id}/complete''
        (Some ACT_RUN) QS_JOB_LOOKUP
        [(''ok'', 200), (''already_settled'', 200), (''settle_conflict'', 409), (''lost'', 409)]
        RETRY_WORKER_SETTLEMENT (Some C_COMPLETE)
        (Some ''CompleteWireRequest'') (Some ''SettleWireData'') True),
     (H_FAIL, mk_http M_POST ''/taskq/v1/jobs/{job_id}/fail''
        (Some ACT_RUN) QS_JOB_LOOKUP
        [(''retry_scheduled'', 200), (''dead'', 200), (''already_settled'', 200), (''settle_conflict'', 409), (''lost'', 409)]
        RETRY_WORKER_SETTLEMENT (Some C_FAIL)
        (Some ''FailWireRequest'') (Some ''SettleWireData'') True),
     (H_RELEASE, mk_http M_POST ''/taskq/v1/jobs/{job_id}/release''
        (Some ACT_RUN) QS_JOB_LOOKUP
        [(''ok'', 200), (''already_settled'', 200), (''settle_conflict'', 409), (''lost'', 409)]
        RETRY_WORKER_SETTLEMENT (Some C_RELEASE)
        (Some ''ReleaseWireRequest'') (Some ''SettleWireData'') True),
     (H_SNOOZE, mk_http M_POST ''/taskq/v1/jobs/{job_id}/snooze''
        (Some ACT_RUN) QS_JOB_LOOKUP
        [(''ok'', 200), (''already_settled'', 200), (''settle_conflict'', 409), (''lost'', 409)]
        RETRY_WORKER_SETTLEMENT (Some C_SNOOZE)
        (Some ''SnoozeWireRequest'') (Some ''SettleWireData'') True),
     (H_CANCEL_RUNNING, mk_http M_POST ''/taskq/v1/jobs/{job_id}/cancel-running''
        (Some ACT_RUN) QS_JOB_LOOKUP
        [(''ok'', 200), (''already_settled'', 200), (''settle_conflict'', 409), (''lost'', 409)]
        RETRY_WORKER_SETTLEMENT (Some C_CANCEL_RUNNING)
        (Some ''CancelRunningWireRequest'') (Some ''SettleWireData'') True),
     (H_WORKER_HEARTBEAT, mk_http M_POST ''/taskq/v1/workers/heartbeat''
        (Some ACT_RUN) QS_DECLARED_QUEUES
        [(''continue'', 200), (''shutdown_requested'', 200)]
        RETRY_SAFE_IDEMPOTENT (Some C_WORKER_HEARTBEAT)
        (Some ''WorkerPresenceWireRequest'') (Some ''WorkerPresenceWireData'') True)]"

definition http_read_specs :: "(http_command_name \<times> http_command_spec) list" where
  "http_read_specs = [
     (H_GET_JOB, mk_http M_GET ''/taskq/v1/jobs/{job_id}''
        (Some ACT_READ) QS_JOB_LOOKUP
        [(''ok'', 200)]
        RETRY_SAFE_IDEMPOTENT (Some C_GET_JOB)
        None (Some ''JobDetail'') True),
     (H_LIST_JOB_EVENTS, mk_http M_GET ''/taskq/v1/jobs/{job_id}/events''
        (Some ACT_READ) QS_JOB_LOOKUP
        [(''ok'', 200)]
        RETRY_SAFE_IDEMPOTENT (Some C_LIST_JOB_EVENTS)
        None (Some ''JobEventPageWireData'') True),
     (H_GET_QUEUE_STATS, mk_http M_GET ''/taskq/v1/stats/queues/{queue}''
        (Some ACT_READ) QS_PATH
        [(''ok'', 200)]
        RETRY_SAFE_IDEMPOTENT (Some C_GET_QUEUE_STATS)
        None (Some ''QueueStatsWireData'') True),
     (H_LIST_QUEUE_STATS, mk_http M_GET ''/taskq/v1/stats/queues''
        (Some ACT_READ) QS_GLOBAL
        [(''ok'', 200)]
        RETRY_SAFE_IDEMPOTENT (Some C_GET_QUEUE_STATS)
        None (Some ''QueueStatsWireData'') True),
     (H_METRICS, mk_http M_GET ''/taskq/metrics''
        None QS_DEPLOYMENT
        [(''ok'', 200)]
        RETRY_SAFE_IDEMPOTENT (Some C_METRICS)
        None None False),
     (H_PAUSE_QUEUE, mk_http M_POST ''/taskq/v1/queues/{queue}/pause''
        (Some ACT_CONTROL) QS_PATH
        [(''paused'', 200), (''already_paused'', 200)]
        RETRY_SAFE_IDEMPOTENT (Some C_PAUSE_QUEUE)
        (Some ''ReasonWireRequest'') None True),
     (H_RESUME_QUEUE, mk_http M_POST ''/taskq/v1/queues/{queue}/resume''
        (Some ACT_CONTROL) QS_PATH
        [(''resumed'', 200), (''already_resumed'', 200)]
        RETRY_SAFE_IDEMPOTENT (Some C_RESUME_QUEUE)
        (Some ''EmptyWireRequest'') None True),
     (H_CANCEL, mk_http M_POST ''/taskq/v1/jobs/{job_id}/cancel''
        (Some ACT_CONTROL) QS_JOB_LOOKUP
        [(''cancelled'', 200), (''cancel_requested'', 202), (''already_terminal'', 200)]
        RETRY_SAFE_IDEMPOTENT (Some C_CANCEL)
        (Some ''ReasonWireRequest'') (Some ''CancelWireData'') True),
     (H_REDRIVE, mk_http M_POST ''/taskq/v1/jobs/{job_id}/redrive''
        (Some ACT_CONTROL) QS_JOB_LOOKUP
        [(''redriven'', 200)]
        RETRY_SAFE_IDEMPOTENT (Some C_REDRIVE)
        (Some ''RedriveWireRequest'') None True),
     (H_EXPIRE_JOB, mk_http M_POST ''/taskq/v1/jobs/{job_id}/expire''
        (Some ACT_CONTROL) QS_JOB_LOOKUP
        [(''expired_and_reaped'', 200), (''not_running'', 409)]
        RETRY_SAFE_IDEMPOTENT (Some C_EXPIRE_JOB)
        (Some ''EmptyWireRequest'') None True)]"

definition http_operator_specs :: "(http_command_name \<times> http_command_spec) list" where
  "http_operator_specs = [
     (H_EXPIRE_WORKER_LEASES, mk_http M_POST ''/taskq/v1/workers/{worker_id}/expire-leases''
        (Some ACT_CONTROL) QS_GLOBAL
        [(''ok'', 200)]
        RETRY_SAFE_IDEMPOTENT (Some C_EXPIRE_WORKER_LEASES)
        (Some ''EmptyWireRequest'') (Some ''ExpireWorkerLeasesResult'') True),
     (H_PURGE_QUEUED, mk_http M_POST ''/taskq/v1/queues/{queue}/purge''
        (Some ACT_CONTROL) QS_PATH
        [(''ok'', 200)]
        RETRY_SAFE_IDEMPOTENT (Some C_PURGE_QUEUED)
        (Some ''PurgeWireRequest'') (Some ''CountWireData'') True),
     (H_RUN_NOW, mk_http M_POST ''/taskq/v1/jobs/{job_id}/run-now''
        (Some ACT_CONTROL) QS_JOB_LOOKUP
        [(''ok'', 200)]
        RETRY_SAFE_IDEMPOTENT (Some C_RUN_NOW)
        (Some ''EmptyWireRequest'') None True),
     (H_REPRIORITIZE, mk_http M_POST ''/taskq/v1/jobs/{job_id}/reprioritize''
        (Some ACT_CONTROL) QS_JOB_LOOKUP
        [(''ok'', 200)]
        RETRY_SAFE_IDEMPOTENT (Some C_REPRIORITIZE)
        (Some ''ReprioritizeWireRequest'') None True),
     (H_SET_CONCURRENCY_LIMIT, mk_http M_PUT ''/taskq/v1/concurrency-limits/{key}''
        (Some ACT_ADMIN) QS_GLOBAL
        [(''created'', 201), (''updated'', 200), (''unchanged'', 200)]
        RETRY_SAFE_IDEMPOTENT (Some C_SET_CONCURRENCY_LIMIT)
        (Some ''ConcurrencyLimitWireRequest'') None True),
     (H_REQUEST_WORKER_SHUTDOWN, mk_http M_POST ''/taskq/v1/workers/shutdown-requests''
        (Some ACT_CONTROL) QS_GLOBAL
        [(''accepted'', 202)]
        RETRY_SAFE_IDEMPOTENT (Some C_REQUEST_WORKER_SHUTDOWN)
        (Some ''ShutdownRequestWireRequest'') (Some ''CountWireData'') True),
     (H_LIST_WORKERS, mk_http M_GET ''/taskq/v1/workers''
        (Some ACT_READ) QS_GLOBAL
        [(''ok'', 200)]
        RETRY_SAFE_IDEMPOTENT (Some C_LIST_WORKER_PRESENCE)
        None (Some ''WorkerPresencePageWireData'') True),
     (H_GET_QUEUE, mk_http M_GET ''/taskq/v1/queues/{queue}''
        (Some ACT_READ) QS_PATH
        [(''ok'', 200)]
        RETRY_SAFE_IDEMPOTENT (Some C_GET_QUEUE_PROFILE)
        None (Some ''QueueProfile'') True),
     (H_LIST_JOBS, mk_http M_GET ''/taskq/v1/jobs''
        (Some ACT_READ) QS_QUERY
        [(''ok'', 200)]
        RETRY_SAFE_IDEMPOTENT (Some C_LIST_JOBS)
        None (Some ''JobPageWireData'') True)]"

definition http_command_specs :: "(http_command_name, http_command_spec) dict" where
  "http_command_specs = http_admission_specs @ http_workflow_specs @ http_runner_specs
     @ http_read_specs @ http_operator_specs"

lemmas http_table_defs = http_command_specs_def http_admission_specs_def http_workflow_specs_def
  http_runner_specs_def http_read_specs_def http_operator_specs_def mk_http_def

definition http_spec_of :: "http_command_name \<Rightarrow> http_command_spec" where
  "http_spec_of c = the (dget http_command_specs c)"

text \<open>\<open>HttpCommandSpec.errors\<close>\<close>

definition http_errors :: "http_command_spec \<Rightarrow> tq_code set" where
  "http_errors s = (if http_surface s \<noteq> SURFACE_ACTIVE then {CAPABILITY}
     else (case http_sql_command s of None \<Rightarrow> {} | Some c \<Rightarrow> set (spec_errors (spec_of c)))
       \<union> {VERSION, INTERNAL, UNAVAILABLE})"

end
