(* ===== verification/CommandProps.thy ===== *)
theory CommandProps
  imports Commands
begin

text \<open>
  Consistency of the two command tables: both are total and duplicate-free, the HTTP statuses and
  retry classes of settlement commands agree with the SQL replay rules, and every route is unique.
\<close>

section \<open>Totality\<close>

lemma command_specs_keys: "dkeys command_specs = dkeys producer_specs @ dkeys runner_specs
    @ dkeys observer_specs @ dkeys operator_specs @ dkeys schedule_specs"
  by (simp add: command_specs_def)

lemma command_specs_distinct: "distinct (dkeys command_specs)"
  by (simp add: command_table_defs)

lemma command_specs_total: "set (dkeys command_specs) = set all_commands"
  by (simp add: command_table_defs all_commands_def)

lemma http_specs_distinct: "distinct (dkeys http_command_specs)"
  by (simp add: http_table_defs)

lemma http_specs_total: "set (dkeys http_command_specs) = set all_http_commands"
  by (simp add: http_table_defs all_http_commands_def)

lemma spec_of_entry: "(c, s) \<in> set command_specs \<Longrightarrow> spec_of c = s"
  using command_specs_distinct by (simp add: spec_of_def map_of_is_SomeI)

lemma spec_of_in: "(c, spec_of c) \<in> set command_specs"
proof -
  have "c \<in> set (dkeys command_specs)" by (simp only: command_specs_total all_commands_complete)
  then obtain s where "dget command_specs c = Some s" using key_dget_Some by fast
  then show ?thesis by (simp add: spec_of_def map_of_SomeD)
qed

lemma http_spec_of_in: "(h, http_spec_of h) \<in> set http_command_specs"
proof -
  have "h \<in> set (dkeys http_command_specs)"
    by (simp only: http_specs_total all_http_commands_complete)
  then obtain s where "dget http_command_specs h = Some s" using key_dget_Some by fast
  then show ?thesis by (simp add: http_spec_of_def map_of_SomeD)
qed

text \<open>A property of every row of a table is a property of every command.\<close>

lemma command_specs_all: "list_all (\<lambda>(c, s). P c s) command_specs \<Longrightarrow> P c (spec_of c)"
  using spec_of_in [of c] by (auto simp: list_all_iff)

lemma http_specs_all: "list_all (\<lambda>(h, s). P h s) http_command_specs \<Longrightarrow> P h (http_spec_of h)"
  using http_spec_of_in [of h] by (auto simp: list_all_iff)

section \<open>Replay rules and retry classes\<close>

definition settlement_commands :: "command_name list" where
  "settlement_commands = [C_COMPLETE, C_FAIL, C_SNOOZE, C_RELEASE, C_CANCEL_RUNNING]"

lemma fenced_rows: "list_all (\<lambda>(c, s).
    (replay_rule s = FENCED) = (c \<in> set settlement_commands)) command_specs"
  by (simp add: command_table_defs settlement_commands_def)

text \<open>
  The attempt-fenced replay rule is declared for exactly the five settlement verbs, and an HTTP
  command carries the worker-settlement retry class exactly when its SQL command is fenced.
\<close>

theorem settlement_retry_class:
  "(replay_rule (spec_of c) = FENCED) = (c \<in> set settlement_commands) \<and>
   (http_retry_class (http_spec_of h) = RETRY_WORKER_SETTLEMENT) =
     (\<exists>k. http_sql_command (http_spec_of h) = Some k \<and> replay_rule (spec_of k) = FENCED)"
proof
  have f: "(replay_rule (spec_of c) = FENCED) = (c \<in> set settlement_commands)" for c
    by (rule command_specs_all [OF fenced_rows])
  show "(replay_rule (spec_of c) = FENCED) = (c \<in> set settlement_commands)" by (rule f)
  have "list_all (\<lambda>(h, s). (http_retry_class s = RETRY_WORKER_SETTLEMENT) =
      (\<exists>k. http_sql_command s = Some k \<and> k \<in> set settlement_commands)) http_command_specs"
    by (simp add: http_table_defs settlement_commands_def)
  then show "(http_retry_class (http_spec_of h) = RETRY_WORKER_SETTLEMENT) =
      (\<exists>k. http_sql_command (http_spec_of h) = Some k \<and> replay_rule (spec_of k) = FENCED)"
    unfolding f by (rule http_specs_all)
qed

section \<open>HTTP outcomes\<close>

text \<open>
  The status of a settlement outcome: a lost or conflicting attempt is a 409, everything else a 200.
\<close>

definition settle_status :: "string \<Rightarrow> nat" where
  "settle_status out = (if out = ''settle_conflict'' \<or> out = ''lost'' then 409 else 200)"

lemma settlement_outcomes:
  "spec_outcomes (spec_of C_COMPLETE) = [''ok'', ''already_settled'', ''settle_conflict'', ''lost'']"
  "spec_outcomes (spec_of C_SNOOZE) = [''ok'', ''already_settled'', ''settle_conflict'', ''lost'']"
  "spec_outcomes (spec_of C_RELEASE) = [''ok'', ''already_settled'', ''settle_conflict'', ''lost'']"
  "spec_outcomes (spec_of C_CANCEL_RUNNING) =
     [''ok'', ''already_settled'', ''settle_conflict'', ''lost'']"
  "spec_outcomes (spec_of C_FAIL) =
     [''ok'', ''retry_scheduled'', ''dead'', ''already_settled'', ''settle_conflict'', ''lost'']"
  by (simp_all add: spec_of_def command_table_defs)

lemma settlement_http_rows: "list_all (\<lambda>(h, s). \<forall>c \<in> set settlement_commands.
    http_sql_command s = Some c \<longrightarrow>
      set (dkeys (http_outcomes s)) = set (spec_outcomes (spec_of c)) - (if c = C_FAIL then {''ok''} else {})
      \<and> list_all (\<lambda>(out, n). n = settle_status out) (http_outcomes s)) http_command_specs"
  unfolding settlement_commands_def
  by (simp add: http_table_defs settlement_outcomes settle_status_def insert_Diff_if)

text \<open>
  Each fenced HTTP command lists exactly the outcomes its SQL function can return (but for the
  \<open>ok\<close> of \<open>fail\<close>), gives 409 to the conflicting and the lost ones and 200 to the others.
\<close>

theorem settlement_http_outcomes:
  assumes "http_sql_command (http_spec_of h) = Some c" and "c \<in> set settlement_commands"
  shows "set (dkeys (http_outcomes (http_spec_of h))) =
      set (spec_outcomes (spec_of c)) - (if c = C_FAIL then {''ok''} else {}) \<and>
    (\<forall>(out, n) \<in> set (http_outcomes (http_spec_of h)). n = settle_status out)"
  using http_specs_all [OF settlement_http_rows, of h] assms by (simp add: list_all_iff)

theorem settlement_http_outcomes_witness:
  "set (dkeys (http_outcomes (http_spec_of H_FAIL))) =
     {''retry_scheduled'', ''dead'', ''already_settled'', ''settle_conflict'', ''lost''}"
proof -
  have a: "http_sql_command (http_spec_of H_FAIL) = Some C_FAIL"
    by (simp add: http_spec_of_def http_table_defs)
  have b: "C_FAIL \<in> set settlement_commands" by (simp add: settlement_commands_def)
  show ?thesis using settlement_http_outcomes [OF a b]
    by (simp add: settlement_outcomes insert_Diff_if)
qed

section \<open>Routes\<close>

lemma routes_distinct:
  "distinct (map (\<lambda>(h, s). (http_method s, http_path s)) http_command_specs)"
  by (simp add: http_table_defs)

text \<open>
  No two HTTP commands share a method and a path, so a route names one command.
\<close>

theorem route_unique: "inj (\<lambda>h. (http_method (http_spec_of h), http_path (http_spec_of h)))"
proof (rule injI)
  fix h k
  assume eq: "(http_method (http_spec_of h), http_path (http_spec_of h)) =
    (http_method (http_spec_of k), http_path (http_spec_of k))"
  have "inj_on (\<lambda>(h, s). (http_method s, http_path s)) (set http_command_specs)"
    using routes_distinct by (simp add: distinct_map)
  from inj_onD [OF this _ http_spec_of_in [of h] http_spec_of_in [of k]] eq
  show "h = k" by simp
qed

end
