(* ===== verification/Execution.thy ===== *)
theory Execution
  imports Protocol
begin

text \<open>
  Handler results, the cancellation token and the checkpoint buffer of \<open>execution.py\<close>.  The lock of
  \<open>CancellationToken\<close> and of \<open>JobContext\<close> makes each method atomic, so a concurrent run is a sequence
  of method calls; the properties quantify over every sequence.
\<close>

section \<open>Handler results\<close>

datatype handler_result =
    Complete jobj "followup list"
  | Snooze int "jobj option" "string option"
  | Cancel string
  | Retry "int option" "string option" "jobj option"
  | NonRetryable string "jobj option"

text \<open>The field constraints of the five result models.\<close>

fun handler_result_valid :: "handler_result \<Rightarrow> bool" where
  "handler_result_valid (Complete r fs) = (length fs \<le> 20)"
| "handler_result_valid (Snooze d p r) = between 0 2592000 d"
| "handler_result_valid (Cancel r) = (r \<noteq> [])"
| "handler_result_valid (Retry a e p) = opt_ok (between 0 2592000) a"
| "handler_result_valid (NonRetryable e p) = (e \<noteq> [])"

definition handler_result_init :: "handler_result \<Rightarrow> exc + handler_result" where
  "handler_result_init r =
     (if handler_result_valid r then Inr r else Inl (ValidationError ''HandlerResult''))"

text \<open>\<open>dict(progress or {}) or None\<close>\<close>

definition some_object :: "jobj option \<Rightarrow> jobj option" where
  "some_object p = (case p of None \<Rightarrow> None | Some [] \<Rightarrow> None | Some o' \<Rightarrow> Some o')"

text \<open>\<open>x or d\<close> on an optional integer: \<open>None\<close> and \<open>0\<close> give the default.\<close>

definition or_int :: "int option \<Rightarrow> int \<Rightarrow> int" where
  "or_int x d = (case x of None \<Rightarrow> d | Some n \<Rightarrow> if n = 0 then d else n)"

section \<open>Cancellation\<close>

datatype cancellation_reason = SHUTDOWN | OPERATOR | LEASE_LOST

fun cancellation_priority :: "cancellation_reason \<Rightarrow> nat" where
  "cancellation_priority SHUTDOWN = 1"
| "cancellation_priority OPERATOR = 2"
| "cancellation_priority LEASE_LOST = 3"

instantiation cancellation_reason :: linorder
begin

definition less_eq_cancellation_reason :: "cancellation_reason \<Rightarrow> cancellation_reason \<Rightarrow> bool" where
  "r \<le> r' \<longleftrightarrow> cancellation_priority r \<le> cancellation_priority r'"

definition less_cancellation_reason :: "cancellation_reason \<Rightarrow> cancellation_reason \<Rightarrow> bool" where
  "r < r' \<longleftrightarrow> cancellation_priority r < cancellation_priority r'"

instance
proof
  fix x y z :: cancellation_reason
  show "(x < y) = (x \<le> y \<and> \<not> y \<le> x)" and "x \<le> x" and "x \<le> y \<or> y \<le> x"
    by (auto simp: less_eq_cancellation_reason_def less_cancellation_reason_def)
  show "x \<le> y \<Longrightarrow> y \<le> z \<Longrightarrow> x \<le> z"
    by (auto simp: less_eq_cancellation_reason_def)
  show "x \<le> y \<Longrightarrow> y \<le> x \<Longrightarrow> x = y"
    by (cases x; cases y) (auto simp: less_eq_cancellation_reason_def)
qed

end

record cancellation_token =
  tok_reason :: "cancellation_reason option"
  tok_event :: bool

definition new_token :: cancellation_token where
  "new_token = \<lparr>tok_reason = None, tok_event = False\<rparr>"

definition token_cancel ::
  "cancellation_token \<Rightarrow> cancellation_reason \<Rightarrow> bool \<times> cancellation_token" where
  "token_cancel t reason = (case tok_reason t of
      Some current \<Rightarrow>
        if cancellation_priority current \<ge> cancellation_priority reason then (False, t)
        else (True, t\<lparr>tok_reason := Some reason, tok_event := True\<rparr>)
    | None \<Rightarrow> (True, t\<lparr>tok_reason := Some reason, tok_event := True\<rparr>))"

definition is_cancelled :: "cancellation_token \<Rightarrow> bool" where
  "is_cancelled t = tok_event t"

definition token_run :: "cancellation_token \<Rightarrow> cancellation_reason list \<Rightarrow> cancellation_token" where
  "token_run t rs = foldl (\<lambda>t r. snd (token_cancel t r)) t rs"

definition reason_join ::
  "cancellation_reason option \<Rightarrow> cancellation_reason \<Rightarrow> cancellation_reason option" where
  "reason_join c r = Some (case c of None \<Rightarrow> r | Some x \<Rightarrow> max x r)"

lemma token_cancel_reason: "tok_reason (snd (token_cancel t r)) = reason_join (tok_reason t) r"
proof (cases "tok_reason t")
  case None
  then show ?thesis by (simp add: token_cancel_def reason_join_def)
next
  case (Some c)
  then show ?thesis
    by (cases c; cases r)
      (simp_all add: token_cancel_def reason_join_def max_def less_eq_cancellation_reason_def)
qed

lemma token_cancel_event:
  "tok_event t = (tok_reason t \<noteq> None) \<Longrightarrow> tok_event (snd (token_cancel t r))"
  by (auto simp: token_cancel_def split: option.splits)

lemma token_run_state:
  "tok_event t = (tok_reason t \<noteq> None) \<Longrightarrow>
   tok_reason (token_run t rs) = foldl reason_join (tok_reason t) rs \<and>
   tok_event (token_run t rs) = (tok_reason (token_run t rs) \<noteq> None)"
proof (induction rs arbitrary: t)
  case Nil
  then show ?case by (simp add: token_run_def)
next
  case (Cons r rs)
  have "tok_event (snd (token_cancel t r)) = (tok_reason (snd (token_cancel t r)) \<noteq> None)"
    using Cons.prems by (simp add: token_cancel_event token_cancel_reason reason_join_def)
  from Cons.IH [OF this] show ?case by (simp add: token_run_def token_cancel_reason)
qed

lemma foldl_reason_join:
  "foldl reason_join (Some r) rs = Some (Max (set (r # rs)))"
proof (induction rs arbitrary: r)
  case Nil
  then show ?case by simp
next
  case (Cons x xs)
  have "Max (set (max r x # xs)) = Max (set (r # x # xs))"
    by (cases xs) (simp_all add: max.assoc)
  with Cons.IH [of "max r x"] show ?case by (simp add: reason_join_def)
qed

text \<open>
  After any sequence of \<open>cancel\<close> calls, in whatever order the competing threads make them, a new
  token reports the highest-priority reason requested, and it is cancelled exactly when one was.
\<close>

theorem token_reports_highest_reason:
  "tok_reason (token_run new_token rs) = (if rs = [] then None else Some (Max (set rs))) \<and>
   is_cancelled (token_run new_token rs) = (rs \<noteq> [])"
proof -
  have "foldl reason_join None rs = (if rs = [] then None else Some (Max (set rs)))"
    using foldl_reason_join by (cases rs) (auto simp: reason_join_def)
  with token_run_state [of new_token rs] show ?thesis
    by (simp add: new_token_def is_cancelled_def)
qed

section \<open>Checkpoints\<close>

record job_context =
  ctx_failure_count :: int
  ctx_max_attempts :: int
  ctx_progress :: "jobj option"
  ctx_generation :: nat
  ctx_pending :: "jobj option"

text \<open>\<open>_checkpoint_copy\<close> (the argument is a JSON object already): at most 2048 bytes.\<close>

definition checkpoint_copy :: "jobj \<Rightarrow> exc + jobj" where
  "checkpoint_copy p = (if json_size (JObj p) > 2048
     then Inl (ConfigError ''checkpoint exceeds the 2KB limit'') else Inr p)"

text \<open>\<open>_effect_copy\<close> with the byte limit of its boundary.\<close>

definition effect_copy :: "jobj \<Rightarrow> nat \<Rightarrow> exc + jobj" where
  "effect_copy p max_bytes = (if json_size (JObj p) > max_bytes
     then Inl (ConfigError ''effect exceeds the configured limit'') else Inr p)"

definition job_context_init :: "int \<Rightarrow> int \<Rightarrow> jobj option \<Rightarrow> int \<Rightarrow> int \<Rightarrow> exc + job_context" where
  "job_context_init failure_count max_attempts progress request_max response_max =
     ebind (guard (between 1024 8388608 request_max \<and> between 1024 8388608 response_max)
       (ConfigError ''effect limits must be between 1024 and 8388608 bytes'')) (\<lambda>_.
     ebind (case progress of None \<Rightarrow> Inr None | Some p \<Rightarrow> map_sum id Some (checkpoint_copy p)) (\<lambda>p.
     Inr \<lparr>ctx_failure_count = failure_count, ctx_max_attempts = max_attempts, ctx_progress = p,
       ctx_generation = 0, ctx_pending = None\<rparr>))"

definition failure_would_exhaust_retry_budget :: "job_context \<Rightarrow> bool" where
  "failure_would_exhaust_retry_budget c \<longleftrightarrow> ctx_failure_count c + 1 \<ge> ctx_max_attempts c"

definition checkpoint_nowait :: "job_context \<Rightarrow> jobj \<Rightarrow> exc + job_context" where
  "checkpoint_nowait c progress = ebind (checkpoint_copy progress) (\<lambda>copied.
     Inr (c\<lparr>ctx_progress := Some copied, ctx_generation := ctx_generation c + 1,
       ctx_pending := Some copied\<rparr>))"

definition pending_checkpoint :: "job_context \<Rightarrow> (nat \<times> jobj) option" where
  "pending_checkpoint c = (case ctx_pending c of
      None \<Rightarrow> None | Some p \<Rightarrow> Some (ctx_generation c, p))"

definition ack_checkpoint :: "job_context \<Rightarrow> nat \<Rightarrow> job_context" where
  "ack_checkpoint c generation =
     (if generation = ctx_generation c then c\<lparr>ctx_pending := None\<rparr> else c)"

text \<open>
  The handler thread checkpoints, the heartbeat loop reads the pending checkpoint, sends it and
  later acknowledges the generation it read.  A step of the pair is one of the three; \<open>sent\<close> is the
  checkpoint a heartbeat has in flight and \<open>stored\<close> the progress the server has confirmed.
\<close>

datatype ckpt_event = Checkpoint jobj | HeartbeatSend | HeartbeatAck | HeartbeatFail

record ckpt_state =
  ck_ctx :: job_context
  ck_sent :: "(nat \<times> jobj) option"
  ck_stored :: "jobj option"

fun ckpt_step :: "ckpt_state \<Rightarrow> ckpt_event \<Rightarrow> ckpt_state" where
  "ckpt_step s (Checkpoint p) = (case checkpoint_nowait (ck_ctx s) p of
      Inl e \<Rightarrow> s | Inr c \<Rightarrow> s\<lparr>ck_ctx := c\<rparr>)"
| "ckpt_step s HeartbeatSend = s\<lparr>ck_sent := pending_checkpoint (ck_ctx s)\<rparr>"
| "ckpt_step s HeartbeatAck = (case ck_sent s of
      None \<Rightarrow> s
    | Some (g, p) \<Rightarrow> s\<lparr>ck_ctx := ack_checkpoint (ck_ctx s) g, ck_sent := None, ck_stored := Some p\<rparr>)"
| "ckpt_step s HeartbeatFail = s\<lparr>ck_sent := None\<rparr>"

definition ckpt_run :: "ckpt_state \<Rightarrow> ckpt_event list \<Rightarrow> ckpt_state" where
  "ckpt_run = foldl ckpt_step"

definition ckpt_inv :: "ckpt_state \<Rightarrow> bool" where
  "ckpt_inv s \<longleftrightarrow>
     (case ctx_pending (ck_ctx s) of
        Some p \<Rightarrow> ctx_progress (ck_ctx s) = Some p
      | None \<Rightarrow> ctx_generation (ck_ctx s) > 0 \<longrightarrow> ck_stored s = ctx_progress (ck_ctx s)) \<and>
     (case ck_sent s of
        None \<Rightarrow> True
      | Some (g, p) \<Rightarrow> g \<le> ctx_generation (ck_ctx s) \<and> 0 < g \<and>
          ctx_pending (ck_ctx s) \<noteq> None \<and>
          (g = ctx_generation (ck_ctx s) \<longrightarrow> ctx_progress (ck_ctx s) = Some p)) \<and>
     (ctx_generation (ck_ctx s) = 0 \<longrightarrow> ctx_pending (ck_ctx s) = None)"

lemma ckpt_step_inv [wf_rules]: "ckpt_inv s \<Longrightarrow> ckpt_inv (ckpt_step s e)"
  by (cases e) (auto simp: ckpt_inv_def checkpoint_nowait_def checkpoint_copy_def ack_checkpoint_def
      pending_checkpoint_def split: option.splits if_splits)

lemma ckpt_run_inv: "ckpt_inv s \<Longrightarrow> ckpt_inv (ckpt_run s es)"
  by (induction es arbitrary: s) (auto simp: ckpt_run_def ckpt_step_inv)

definition ckpt_start :: "job_context \<Rightarrow> ckpt_state" where
  "ckpt_start c = \<lparr>ck_ctx = c, ck_sent = None, ck_stored = ctx_progress c\<rparr>"

lemma ckpt_start_inv:
  assumes "job_context_init f m p rq rs = Inr c"
  shows "ckpt_inv (ckpt_start c)"
  using assms
  by (auto simp: job_context_init_def ckpt_start_def ckpt_inv_def ebind_Inr_iff)

lemma ckpt_pending_progress:
  "ckpt_inv s \<Longrightarrow> ctx_pending (ck_ctx s) = Some p \<Longrightarrow> ctx_progress (ck_ctx s) = Some p"
  by (simp add: ckpt_inv_def)

text \<open>
  However checkpoints interleave with heartbeats, a context never drops the latest checkpoint: it
  stays pending until a heartbeat that carried it is acknowledged, so when nothing is pending the
  progress the server stored is the context's progress.
\<close>

theorem no_lost_checkpoint:
  assumes "job_context_init f m p request_max response_max = Inr c"
    and "ctx_generation (ck_ctx (ckpt_run (ckpt_start c) es)) > 0"
  shows "(case ctx_pending (ck_ctx (ckpt_run (ckpt_start c) es)) of
      Some q \<Rightarrow> ctx_progress (ck_ctx (ckpt_run (ckpt_start c) es)) = Some q
    | None \<Rightarrow> ck_stored (ckpt_run (ckpt_start c) es) =
        ctx_progress (ck_ctx (ckpt_run (ckpt_start c) es)))"
  using ckpt_run_inv [OF ckpt_start_inv [OF assms(1)], of es] assms(2)
  by (auto simp: ckpt_inv_def split: option.splits)

definition ckpt_example :: "ckpt_event list" where
  "ckpt_example = [Checkpoint [(''n'', JInt 1)], HeartbeatSend, Checkpoint [(''n'', JInt 2)],
     HeartbeatAck, HeartbeatSend, HeartbeatAck]"

theorem no_lost_checkpoint_witness:
  "\<exists>c. job_context_init 0 3 None 8192 8192 = Inr c \<and>
     ck_stored (ckpt_run (ckpt_start c) ckpt_example) = Some [(''n'', JInt 2)]"
proof -
  let ?c = "\<lparr>ctx_failure_count = 0, ctx_max_attempts = 3, ctx_progress = None,
    ctx_generation = 0, ctx_pending = None\<rparr>"
  have i: "job_context_init 0 3 None 8192 8192 = Inr ?c"
    by (simp add: job_context_init_def between_def)
  have r: "ctx_generation (ck_ctx (ckpt_run (ckpt_start ?c) ckpt_example)) = 2"
    "ctx_pending (ck_ctx (ckpt_run (ckpt_start ?c) ckpt_example)) = None"
    "ctx_progress (ck_ctx (ckpt_run (ckpt_start ?c) ckpt_example)) = Some [(''n'', JInt 2)]"
    by code_simp+
  with no_lost_checkpoint [OF i, of ckpt_example] show ?thesis by (intro exI [of _ ?c]) (simp add: i)
qed

end
