(* ===== verification/FakeState.thy ===== *)
theory FakeState
  imports Execution
begin

text \<open>
  The state of \<open>FakeTaskQClient\<close> (\<open>testing.py\<close>): jobs, workflows, admissions, schedules, workers and
  the two ledgers.  A dictionary of mutable objects is a \<open>dict\<close> of records, updated at its key.  The
  clock is an argument of the operations that read it, and \<open>uuid4()\<close> a sequence of draws: the state
  counts the draws, and the \<open>n\<close>-th call of a run returns \<open>us n\<close>.  An operation returns its result
  or the exception it raises together with the state it leaves, which keeps every mutation made
  before the exception.
\<close>

section \<open>Records\<close>

datatype settle_verb = V_COMPLETE | V_FAIL | V_SNOOZE | V_RELEASE | V_CANCEL_RUNNING

record fake_job =
  fj_job_id :: uuid
  fj_command :: enqueue_command
  fj_status :: job_status
  fj_attempt_id :: "uuid option"
  fj_worker_id :: "string option"
  fj_attempt_number :: int
  fj_failure_count :: int
  fj_settled_command :: "settle_verb option"
  fj_parent_job_id :: "uuid option"
  fj_policy_hash :: "string option"

definition new_fake_job :: "uuid \<Rightarrow> enqueue_command \<Rightarrow> job_status \<Rightarrow> fake_job" where
  "new_fake_job i c s =
     \<lparr>fj_job_id = i, fj_command = c, fj_status = s, fj_attempt_id = None, fj_worker_id = None,
      fj_attempt_number = 0, fj_failure_count = 0, fj_settled_command = None,
      fj_parent_job_id = None, fj_policy_hash = None\<rparr>"

datatype admission_state = RESERVED | ADMITTED | ADM_CANCELLED

record fake_admission =
  fa_intent_hash :: string
  fa_handle :: uuid
  fa_expires_at :: instant
  fa_receipt_ttl :: int
  fa_state :: admission_state
  fa_finish_hash :: "string option"
  fa_job_id :: "uuid option"
  fa_receipt :: "jobj option"
  fa_receipt_expires_at :: "instant option"

record fake_workflow =
  fw_workflow_id :: uuid
  fw_workflow_key :: string
  fw_kind :: workflow_kind
  fw_params :: jobj
  fw_queues :: "string list"
  fw_sealed :: bool
  fw_cancel_requested :: bool
  fw_status :: workflow_status
  fw_steps :: "(string, uuid) dict"
  fw_member_limit :: "int option"
  fw_admitted_total :: int
  fw_policy_hash :: "string option"

record fake_worker =
  fp_worker_id :: string
  fp_queues :: "string list"
  fp_version :: "string option"
  fp_started_at :: instant
  fp_last_seen_at :: instant
  fp_shutdown_requested :: bool

datatype schedule_outcome = SO_INITIALIZED | SO_FIRED | SO_SKIPPED | SO_STALE | SO_ERROR_RECORDED

record schedule_action_result =
  sa_outcome :: schedule_outcome
  sa_replayed :: bool
  sa_schedule_id :: uuid
  sa_jobs_enqueued :: int
  sa_next_fire_at :: instant
  sa_state :: schedule_state
  sa_version :: int

record fake_schedule =
  fs_schedule_id :: uuid
  fs_name :: string
  fs_definition :: schedule_definition
  fs_state :: schedule_state
  fs_next_fire_at :: instant
  fs_version :: int
  fs_initialized :: bool
  fs_last_fire_at :: "instant option"
  fs_token :: "uuid option"
  fs_claim_as_of :: "instant option"
  fs_claim_expires_at :: "instant option"
  fs_retry_not_before :: "instant option"
  fs_last_action_token :: "uuid option"
  fs_last_action :: "schedule_action_result option"

record recorded_enqueue =
  re_job_id :: uuid
  re_queue :: string
  re_job_type :: string
  re_payload :: jobj
  re_headers :: jobj
  re_idempotency_key :: "string option"
  re_status :: enqueue_status
  re_parent_job_id :: "uuid option"

record recorded_settlement =
  rs_job_id :: uuid
  rs_queue :: string
  rs_job_type :: string
  rs_command :: settle_verb
  rs_intent :: "handler_result option"
  rs_outcome :: settle_outcome
  rs_cause :: "string option"

type_synonym jobs = "(uuid, fake_job) dict"

record fake =
  known_queues :: "string set"
  jobs :: jobs
  order :: "uuid list"
  active_keys :: "(string \<times> string, uuid) dict"
  admissions :: "(string \<times> string, fake_admission) dict"
  workflows :: "(uuid, fake_workflow) dict"
  workflow_keys :: "(string, uuid) dict"
  schedules :: "(string, fake_schedule) dict"
  workers :: "(string, fake_worker) dict"
  enqueues :: "recorded_enqueue list"
  settlements :: "recorded_settlement list"
  closed :: bool
  drawn :: nat

definition new_fake :: "string list \<Rightarrow> fake" where
  "new_fake queues =
     \<lparr>known_queues = set queues, jobs = [], order = [], active_keys = [], admissions = [],
      workflows = [], workflow_keys = [], schedules = [], workers = [], enqueues = [],
      settlements = [], closed = False, drawn = 0\<rparr>"

section \<open>Effects\<close>

type_synonym 'a res = "(exc + 'a) \<times> fake"

definition rbind :: "'a res \<Rightarrow> ('a \<Rightarrow> fake \<Rightarrow> 'b res) \<Rightarrow> 'b res" where
  "rbind r f = (case r of (Inl e, st) \<Rightarrow> (Inl e, st) | (Inr x, st) \<Rightarrow> f x st)"

lemma rbind_simps [simp]: "rbind (Inl e, st) f = (Inl e, st)" "rbind (Inr x, st) f = f x st"
  by (simp_all add: rbind_def)

lemma rbind_Inr_iff [result_simps]:
  "rbind r f = (Inr y, st) \<longleftrightarrow> (\<exists>x st1. r = (Inr x, st1) \<and> f x st1 = (Inr y, st))"
  by (cases r; cases "fst r") auto

text \<open>\<open>_ensure_open\<close>\<close>

definition ensure_open :: "fake \<Rightarrow> 'a res \<Rightarrow> 'a res" where
  "ensure_open st body =
     (if closed st then (Inl (ConfigError ''FakeTaskQClient is closed''), st) else body)"

text \<open>What the clock returns: an aware datetime or a naive one.\<close>

datatype clock = Aware instant | Naive

text \<open>\<open>_now\<close>\<close>

definition with_now :: "clock \<Rightarrow> fake \<Rightarrow> (instant \<Rightarrow> 'a res) \<Rightarrow> 'a res" where
  "with_now clk st body = (case clk of
      Aware t \<Rightarrow> body t
    | Naive \<Rightarrow> (Inl (ConfigError ''FakeTaskQClient clock must return an aware datetime''), st))"

lemma with_now_simps [simp]:
  "with_now (Aware t) st body = body t"
  "with_now Naive st body =
     (Inl (ConfigError ''FakeTaskQClient clock must return an aware datetime''), st)"
  by (simp_all add: with_now_def)

definition plus_seconds :: "instant \<Rightarrow> int \<Rightarrow> instant" where
  "plus_seconds t n = t + seconds n"

section \<open>Queries\<close>

definition deps :: "fake_job \<Rightarrow> uuid list" where
  "deps j = (case ec_depends_on (fj_command j) of None \<Rightarrow> [] | Some d \<Rightarrow> d)"

definition headers_of :: "enqueue_command \<Rightarrow> jobj" where
  "headers_of c = (case ec_headers c of None \<Rightarrow> [] | Some h \<Rightarrow> h)"

definition pending_status :: "job_status \<Rightarrow> bool" where
  "pending_status s \<longleftrightarrow> s = BLOCKED \<or> s = QUEUED"

record enqueued_job =
  ej_job_id :: uuid
  ej_queue :: string
  ej_job_type :: string
  ej_payload :: jobj
  ej_headers :: jobj
  ej_idempotency_key :: "string option"
  ej_status :: job_status
  ej_scheduled_at :: "instant option"
  ej_parent_job_id :: "uuid option"

definition safe_job :: "fake_job \<Rightarrow> enqueued_job" where
  "safe_job j = (let c = fj_command j in
     \<lparr>ej_job_id = fj_job_id j, ej_queue = ec_queue c, ej_job_type = ec_job_type c,
      ej_payload = ec_payload c, ej_headers = headers_of c,
      ej_idempotency_key = ec_idempotency_key c, ej_status = fj_status j,
      ej_scheduled_at = ec_scheduled_at c, ej_parent_job_id = fj_parent_job_id j\<rparr>)"

text \<open>The \<open>pending\<close> property; an id of \<open>_order\<close> that \<open>_jobs\<close> lacks is a \<open>KeyError\<close>.\<close>

definition pending :: "fake \<Rightarrow> exc + enqueued_job list" where
  "pending st = ebind (traverse (\<lambda>i. case dget (jobs st) i of None \<Rightarrow> Inl PyKeyError | Some j \<Rightarrow> Inr j)
       (order st))
     (\<lambda>js. Inr (map safe_job (filter (\<lambda>j. fj_status j = QUEUED) js)))"

section \<open>Writing one job\<close>

definition put_job :: "fake_job \<Rightarrow> fake \<Rightarrow> fake" where
  "put_job j st = st\<lparr>jobs := dset (fj_job_id j) j (jobs st)\<rparr>"

text \<open>\<open>self._jobs[id] = job; self._order.append(id)\<close>\<close>

definition insert_job :: "fake_job \<Rightarrow> fake \<Rightarrow> fake" where
  "insert_job j st =
     st\<lparr>jobs := dset (fj_job_id j) j (jobs st), order := order st @ [fj_job_id j]\<rparr>"

definition log_enqueue :: "fake_job \<Rightarrow> enqueue_command \<Rightarrow> enqueue_status \<Rightarrow> fake \<Rightarrow> fake" where
  "log_enqueue j c s st = st\<lparr>enqueues := enqueues st @
     [\<lparr>re_job_id = fj_job_id j, re_queue = ec_queue c, re_job_type = ec_job_type c,
       re_payload = ec_payload c, re_headers = headers_of c,
       re_idempotency_key = ec_idempotency_key c, re_status = s,
       re_parent_job_id = fj_parent_job_id j\<rparr>]\<rparr>"

section \<open>A concrete identifier source\<close>

text \<open>The source of the concrete runs: the identifiers 1, 2, 3, and so on.\<close>

definition sample_ids :: uuid_source where
  "sample_ids i = of_nat (i + 1)"

lemma sample_ids_inj: "n < 1000 \<Longrightarrow> inj_on sample_ids {..<n}"
proof (rule inj_onI)
  fix x y assume n: "n < 1000" and x: "x \<in> {..<n}" and y: "y \<in> {..<n}" and eq: "sample_ids x = sample_ids y"
  have "unat (sample_ids i) = i + 1" if "i < 1000" for i
    unfolding sample_ids_def unat_of_nat using that by simp
  then show "x = y" using eq n x y by (metis add_right_imp_eq lessThan_iff less_trans)
qed

end
