(* ===== verification/FakeGraph.thy ===== *)
theory FakeGraph
  imports FakeState
begin

text \<open>
  The dependency graph of the fake's workflows: \<open>_refresh_workflow\<close> and \<open>_advance_fake_workflow\<close>,
  the loop that promotes blocked jobs, the frontier loop that cancels the descendants of a failed
  one, and what both compute, stated without the loops.
\<close>

definition job_workflow :: "fake_job \<Rightarrow> uuid option" where
  "job_workflow j = ec_workflow_id (fj_command j)"

definition get_job :: "jobs \<Rightarrow> uuid \<Rightarrow> exc + fake_job" where
  "get_job js i = (case dget js i of None \<Rightarrow> Inl PyKeyError | Some j \<Rightarrow> Inr j)"

section \<open>Refreshing a workflow\<close>

definition refreshed_status :: "fake_workflow \<Rightarrow> job_status list \<Rightarrow> workflow_status" where
  "refreshed_status w ss =
     (if fw_cancel_requested w then
        (if list_all (\<lambda>s. s \<noteq> RUNNING) ss then WF_CANCELLED else fw_status w)
      else if list_ex (\<lambda>s. s = FAILED) ss then WF_FAILED
      else if list_ex (\<lambda>s. s = CANCELLED) ss then WF_CANCELLED
      else if list_all (\<lambda>s. s = SUCCEEDED) ss then WF_SUCCEEDED
      else fw_status w)"

definition put_workflow :: "fake_workflow \<Rightarrow> fake \<Rightarrow> fake" where
  "put_workflow w st = st\<lparr>workflows := dset (fw_workflow_id w) w (workflows st)\<rparr>"

definition refresh_workflow :: "fake_workflow \<Rightarrow> fake \<Rightarrow> unit res" where
  "refresh_workflow w st =
     (if \<not> fw_sealed w then (Inr (), st)
      else case traverse (get_job (jobs st)) (dvalues (fw_steps w)) of
        Inl e \<Rightarrow> (Inl e, st)
      | Inr js \<Rightarrow>
          (Inr (), put_workflow (w\<lparr>fw_status := refreshed_status w (map fj_status js)\<rparr>) st))"

section \<open>Promotion of blocked jobs\<close>

fun promote :: "uuid \<Rightarrow> uuid \<Rightarrow> uuid list \<Rightarrow> jobs \<Rightarrow> (exc + unit) \<times> jobs" where
  "promote wid pid [] js = (Inr (), js)"
| "promote wid pid (k # ks) js = (case dget js k of
      None \<Rightarrow> promote wid pid ks js
    | Some c \<Rightarrow>
        if job_workflow c \<noteq> Some wid \<or> fj_status c \<noteq> BLOCKED \<or> pid \<notin> set (deps c)
        then promote wid pid ks js
        else case traverse (get_job js) (deps c) of
          Inl e \<Rightarrow> (Inl e, js)
        | Inr parents \<Rightarrow>
            promote wid pid ks
              (if list_all (\<lambda>p. fj_status p = SUCCEEDED) parents
               then dset k (c\<lparr>fj_status := QUEUED\<rparr>) js else js))"

definition succeeded :: "jobs \<Rightarrow> uuid \<Rightarrow> bool" where
  "succeeded js i \<longleftrightarrow> (case dget js i of None \<Rightarrow> False | Some j \<Rightarrow> fj_status j = SUCCEEDED)"

definition promoted :: "uuid \<Rightarrow> uuid \<Rightarrow> jobs \<Rightarrow> fake_job \<Rightarrow> fake_job" where
  "promoted wid pid js c =
     (if job_workflow c = Some wid \<and> fj_status c = BLOCKED \<and> pid \<in> set (deps c) \<and>
         list_all (succeeded js) (deps c)
      then c\<lparr>fj_status := QUEUED\<rparr> else c)"

definition deps_exist :: "jobs \<Rightarrow> bool" where
  "deps_exist js \<longleftrightarrow> (\<forall>k c. dget js k = Some c \<longrightarrow> (\<forall>d \<in> set (deps c). dget js d \<noteq> None))"

lemma traverse_get_job:
  assumes "\<forall>d \<in> set ds. dget js d \<noteq> None"
  shows "traverse (get_job js) ds = Inr (map (\<lambda>d. the (dget js d)) ds)"
  using assms by (induction ds) (auto simp: get_job_def)

lemma list_all_succeeded:
  "\<forall>d \<in> set ds. dget js d \<noteq> None \<Longrightarrow>
   list_all (\<lambda>p. fj_status p = SUCCEEDED) (map (\<lambda>d. the (dget js d)) ds) = list_all (succeeded js) ds"
  by (induction ds) (auto simp: succeeded_def)

lemma promote_step:
  assumes "dget js k = Some c" and "fj_status c = BLOCKED" and "deps_exist js"
  shows "deps_exist (dset k (c\<lparr>fj_status := QUEUED\<rparr>) js)"
    and "promoted wid pid (dset k (c\<lparr>fj_status := QUEUED\<rparr>) js) = promoted wid pid js"
proof -
  show "deps_exist (dset k (c\<lparr>fj_status := QUEUED\<rparr>) js)"
    using assms by (auto simp: deps_exist_def deps_def)
  have "succeeded (dset k (c\<lparr>fj_status := QUEUED\<rparr>) js) = succeeded js"
    using assms by (auto simp: succeeded_def fun_eq_iff split: option.splits)
  then show "promoted wid pid (dset k (c\<lparr>fj_status := QUEUED\<rparr>) js) = promoted wid pid js"
    unfolding promoted_def by simp
qed

lemma promote_spec:
  assumes "distinct ks" and "deps_exist js"
  shows "fst (promote wid pid ks js) = Inr () \<and> dkeys (snd (promote wid pid ks js)) = dkeys js \<and>
    (\<forall>k. dget (snd (promote wid pid ks js)) k =
       (if k \<in> set ks then map_option (promoted wid pid js) (dget js k) else dget js k))"
  using assms
proof (induction ks arbitrary: js)
  case Nil
  then show ?case by simp
next
  case (Cons k ks)
  show ?case
  proof (cases "dget js k")
    case None
    then show ?thesis using Cons by auto
  next
    case (Some c)
    have ex: "\<forall>d \<in> set (deps c). dget js d \<noteq> None"
      using Cons.prems(2) Some by (auto simp: deps_exist_def)
    show ?thesis
    proof (cases "job_workflow c = Some wid \<and> fj_status c = BLOCKED \<and> pid \<in> set (deps c) \<and>
        list_all (succeeded js) (deps c)")
      case True
      note step = promote_step(1) [OF Some _ Cons.prems(2)]
        promote_step(2) [OF Some _ Cons.prems(2), of wid pid]
      have "promote wid pid (k # ks) js = promote wid pid ks (dset k (c\<lparr>fj_status := QUEUED\<rparr>) js)"
        using True Some traverse_get_job [OF ex] list_all_succeeded [OF ex] by simp
      moreover have "promoted wid pid js c = c\<lparr>fj_status := QUEUED\<rparr>"
        using True by (simp add: promoted_def)
      ultimately show ?thesis
        using Cons.IH [of "dset k (c\<lparr>fj_status := QUEUED\<rparr>) js"] Cons.prems(1) step True Some by auto
    next
      case False
      then have "promote wid pid (k # ks) js = promote wid pid ks js"
        using Some traverse_get_job [OF ex] list_all_succeeded [OF ex] by auto
      moreover have "promoted wid pid js c = c" using False by (auto simp: promoted_def)
      ultimately show ?thesis using Cons Some by auto
    qed
  qed
qed

section \<open>Cancellation of descendants\<close>

definition dependent :: "uuid \<Rightarrow> uuid \<Rightarrow> fake_job \<Rightarrow> bool" where
  "dependent wid f c \<longleftrightarrow>
     job_workflow c = Some wid \<and> pending_status (fj_status c) \<and> f \<in> set (deps c)"

fun cancel_dependents ::
  "uuid \<Rightarrow> uuid \<Rightarrow> uuid list \<Rightarrow> jobs \<Rightarrow> uuid list \<Rightarrow> jobs \<times> uuid list" where
  "cancel_dependents wid f [] js frontier = (js, frontier)"
| "cancel_dependents wid f (k # ks) js frontier = (case dget js k of
      None \<Rightarrow> cancel_dependents wid f ks js frontier
    | Some c \<Rightarrow>
        if dependent wid f c
        then cancel_dependents wid f ks (dset k (c\<lparr>fj_status := CANCELLED\<rparr>) js)
               (frontier @ [fj_job_id c])
        else cancel_dependents wid f ks js frontier)"

text \<open>The number of jobs that can still be cancelled bounds the number of pushes.\<close>

definition pending_count :: "jobs \<Rightarrow> nat" where
  "pending_count js =
     card {k \<in> set (dkeys js). \<exists>c. dget js k = Some c \<and> pending_status (fj_status c)}"

lemma pending_count_cancel:
  assumes "dget js k = Some c" and "pending_status (fj_status c)"
  shows "pending_count (dset k (c\<lparr>fj_status := CANCELLED\<rparr>) js) < pending_count js"
  unfolding pending_count_def
proof (rule psubset_card_mono)
  show "finite {k \<in> set (dkeys js). \<exists>c. dget js k = Some c \<and> pending_status (fj_status c)}" by simp
  have keys: "dkeys (dset k (c\<lparr>fj_status := CANCELLED\<rparr>) js) = dkeys js" using assms(1) by simp
  have "k \<in> set (dkeys js)" using dget_Some_key [OF assms(1)] .
  then show "{ka \<in> set (dkeys (dset k (c\<lparr>fj_status := CANCELLED\<rparr>) js)). \<exists>d.
        dget (dset k (c\<lparr>fj_status := CANCELLED\<rparr>) js) ka = Some d \<and> pending_status (fj_status d)}
      \<subset> {k \<in> set (dkeys js). \<exists>c. dget js k = Some c \<and> pending_status (fj_status c)}"
    unfolding keys using assms by (auto simp: pending_status_def)
qed

lemma cancel_dependents_count:
  "cancel_dependents wid f ks js frontier = (js', frontier') \<Longrightarrow>
   length frontier' + pending_count js' \<le> length frontier + pending_count js"
proof (induction ks arbitrary: js frontier)
  case (Cons k ks)
  show ?case
  proof (cases "\<exists>c. dget js k = Some c \<and> dependent wid f c")
    case True
    then obtain c where c: "dget js k = Some c" "dependent wid f c" by blast
    then have "pending_count (dset k (c\<lparr>fj_status := CANCELLED\<rparr>) js) < pending_count js"
      by (intro pending_count_cancel) (auto simp: dependent_def)
    with Cons.IH [of "dset k (c\<lparr>fj_status := CANCELLED\<rparr>) js" "frontier @ [fj_job_id c]"] Cons.prems c
    show ?thesis by simp
  next
    case False
    then show ?thesis using Cons by (auto split: option.splits)
  qed
qed simp

function cascade :: "uuid \<Rightarrow> uuid list \<Rightarrow> uuid set \<Rightarrow> jobs \<Rightarrow> jobs" where
  "cascade wid frontier seen js =
     (if frontier = [] then js
      else let f = last frontier; rest = butlast frontier in
        if f \<in> seen then cascade wid rest seen js
        else case cancel_dependents wid f (dkeys js) js rest of
          (js', frontier') \<Rightarrow> cascade wid frontier' (insert f seen) js')"
  by pat_completeness auto
termination
proof (relation "measure (\<lambda>(wid, frontier, seen, js). length frontier + pending_count js)")
  fix wid frontier seen js f rest js' frontier'
  assume a: "frontier \<noteq> []" "f = last frontier" "rest = butlast frontier"
    and p: "(js', frontier') = cancel_dependents wid f (dkeys js) js rest"
  have "length frontier' + pending_count js' \<le> length rest + pending_count js"
    using cancel_dependents_count [OF p [symmetric]] .
  moreover have "length rest < length frontier" using a by simp
  ultimately show "((wid, frontier', insert f seen, js'), wid, frontier, seen, js)
      \<in> measure (\<lambda>(wid, frontier, seen, js). length frontier + pending_count js)" by simp
qed auto

declare cascade.simps [simp del]

definition cancelled_dep :: "uuid \<Rightarrow> uuid \<Rightarrow> fake_job \<Rightarrow> fake_job" where
  "cancelled_dep wid f c = (if dependent wid f c then c\<lparr>fj_status := CANCELLED\<rparr> else c)"

definition ids_match :: "jobs \<Rightarrow> bool" where
  "ids_match js \<longleftrightarrow> (\<forall>k c. dget js k = Some c \<longrightarrow> fj_job_id c = k)"

lemma ids_match_dset [simp]:
  "ids_match js \<Longrightarrow> fj_job_id c = k \<Longrightarrow> ids_match (dset k c js)"
  by (auto simp: ids_match_def)

lemma cancel_dependents_spec:
  assumes "distinct ks" and "ids_match js"
    and "cancel_dependents wid f ks js frontier = (js', frontier')"
  shows "dkeys js' = dkeys js \<and> ids_match js' \<and>
    (\<forall>k. dget js' k = (if k \<in> set ks then map_option (cancelled_dep wid f) (dget js k) else dget js k)) \<and>
    set frontier' = set frontier \<union>
      {k \<in> set ks. \<exists>c. dget js k = Some c \<and> dependent wid f c}"
  using assms
proof (induction ks arbitrary: js frontier)
  case (Cons k ks)
  show ?case
  proof (cases "\<exists>c. dget js k = Some c \<and> dependent wid f c")
    case True
    then obtain c where c: "dget js k = Some c" "dependent wid f c" by blast
    have id: "fj_job_id c = k" using Cons.prems(2) c(1) by (simp add: ids_match_def)
    let ?js = "dset k (c\<lparr>fj_status := CANCELLED\<rparr>) js"
    have m: "ids_match ?js" using Cons.prems(2) id by simp
    have "cancel_dependents wid f ks ?js (frontier @ [k]) = (js', frontier')"
      using Cons.prems(3) c id by simp
    from Cons.IH [OF _ m this] Cons.prems(1) c show ?thesis
      by (auto simp: cancelled_dep_def)
  next
    case False
    then have e: "cancel_dependents wid f ks js frontier = (js', frontier')"
      using Cons.prems(3) by (auto split: option.splits)
    have n: "map_option (cancelled_dep wid f) (dget js k) = dget js k"
      using False by (cases "dget js k") (auto simp: cancelled_dep_def)
    from Cons.IH [OF _ Cons.prems(2) e] Cons.prems(1) False n show ?thesis
      by auto
  qed
qed simp

text \<open>The jobs that depend, through pending jobs of the workflow, on the failed one.\<close>

inductive descends :: "jobs \<Rightarrow> uuid \<Rightarrow> uuid \<Rightarrow> uuid \<Rightarrow> bool" for js wid start where
  desc_child: "dget js k = Some c \<Longrightarrow> dependent wid start c \<Longrightarrow> descends js wid start k"
| desc_step: "descends js wid start d \<Longrightarrow> dget js k = Some c \<Longrightarrow> dependent wid d c \<Longrightarrow>
    descends js wid start k"

definition cascade_inv ::
  "jobs \<Rightarrow> uuid \<Rightarrow> uuid \<Rightarrow> uuid list \<Rightarrow> uuid set \<Rightarrow> jobs \<Rightarrow> bool" where
  "cascade_inv js0 wid start frontier seen js \<longleftrightarrow>
     ids_match js \<and> dkeys js = dkeys js0 \<and> start \<in> seen \<union> set frontier \<and>
     (\<forall>f \<in> seen \<union> set frontier. f = start \<or> descends js0 wid start f) \<and>
     (\<forall>k. dget js k = dget js0 k \<or>
        k \<in> seen \<union> set frontier \<and> descends js0 wid start k \<and>
        dget js k = map_option (fj_status_update (\<lambda>_. CANCELLED)) (dget js0 k)) \<and>
     (\<forall>k c f. dget js k = Some c \<longrightarrow> f \<in> seen \<longrightarrow> \<not> dependent wid f c)"

lemma cascade_inv_pop:
  "cascade_inv js0 wid start frontier seen js \<Longrightarrow> frontier \<noteq> [] \<Longrightarrow> last frontier \<in> seen \<Longrightarrow>
   cascade_inv js0 wid start (butlast frontier) seen js"
proof -
  assume "frontier \<noteq> []" "last frontier \<in> seen"
  then have s: "seen \<union> set frontier = seen \<union> set (butlast frontier)"
    by (cases frontier rule: rev_cases) auto
  show "cascade_inv js0 wid start frontier seen js \<Longrightarrow> ?thesis"
    unfolding cascade_inv_def s by simp
qed


lemma cascade_inv_visit:
  assumes inv: "cascade_inv js0 wid start frontier seen js" and ne: "frontier \<noteq> []"
    and d: "distinct (dkeys js0)"
    and c: "cancel_dependents wid (last frontier) (dkeys js) js (butlast frontier) = (js', frontier')"
  shows "cascade_inv js0 wid start frontier' (insert (last frontier) seen) js'"
proof -
  let ?f = "last frontier"
  have front: "set frontier = insert ?f (set (butlast frontier))"
    using ne by (cases frontier rule: rev_cases) auto
  have k: "dkeys js = dkeys js0" and m: "ids_match js" using inv by (auto simp: cascade_inv_def)
  have cd: "cancel_dependents wid ?f (dkeys js0) js (butlast frontier) = (js', frontier')"
    using c k by simp
  note sp = cancel_dependents_spec [OF d m cd]
  have spec: "dkeys js' = dkeys js" "ids_match js'" using sp by blast+
  have pt: "dget js' k = (if k \<in> set (dkeys js0) then map_option (cancelled_dep wid ?f) (dget js k)
      else dget js k)" for k
    using sp by blast
  have upd: "dget js' k = map_option (cancelled_dep wid ?f) (dget js k)" for k
    using pt [of k] dget_Some_key [of js k] k by (cases "dget js k") auto
  have "set frontier' = set (butlast frontier) \<union>
      {k \<in> set (dkeys js0). \<exists>c. dget js k = Some c \<and> dependent wid ?f c}"
    using sp by blast
  then have fr: "set frontier' = set (butlast frontier) \<union>
      {k. \<exists>c. dget js k = Some c \<and> dependent wid ?f c}"
    using k dget_Some_key [of js] by auto
  have old: "dget js0 k = Some c" if "dget js k = Some c" "dependent wid g c" for k c g
  proof -
    have "dget js k = dget js0 k \<or> dget js k = map_option (fj_status_update (\<lambda>_. CANCELLED)) (dget js0 k)"
      using inv by (auto simp: cascade_inv_def)
    with that show ?thesis by (cases "dget js0 k") (auto simp: dependent_def pending_status_def)
  qed
  have reach: "descends js0 wid start k" if "dget js k = Some c" "dependent wid ?f c" for k c
  proof -
    have "?f = start \<or> descends js0 wid start ?f" using inv front by (auto simp: cascade_inv_def)
    with old [OF that] that(2) show ?thesis by (auto intro: descends.intros)
  qed
  have sub: "seen \<union> set frontier \<subseteq> insert ?f seen \<union> set frontier'" using front fr by auto
  show ?thesis
    unfolding cascade_inv_def
  proof (intro conjI allI ballI impI)
    show "ids_match js'" "dkeys js' = dkeys js0" using spec k by auto
    show "start \<in> insert ?f seen \<union> set frontier'" using inv sub by (auto simp: cascade_inv_def)
    fix g assume "g \<in> insert ?f seen \<union> set frontier'"
    then show "g = start \<or> descends js0 wid start g"
      using inv front fr reach by (auto simp: cascade_inv_def)
  next
    fix k
    show "dget js' k = dget js0 k \<or> k \<in> insert ?f seen \<union> set frontier' \<and> descends js0 wid start k \<and>
        dget js' k = map_option (fj_status_update (\<lambda>_. CANCELLED)) (dget js0 k)"
    proof (cases "\<exists>c. dget js k = Some c \<and> dependent wid ?f c")
      case True
      then obtain c where "dget js k = Some c" "dependent wid ?f c" by blast
      with old reach upd [of k] fr show ?thesis by (auto simp: cancelled_dep_def)
    next
      case False
      then have "dget js' k = dget js k" using upd [of k] by (cases "dget js k") (auto simp: cancelled_dep_def)
      then show ?thesis using inv sub unfolding cascade_inv_def by auto
    qed
  next
    fix k c g assume g: "dget js' k = Some c" "g \<in> insert ?f seen"
    obtain b where b: "dget js k = Some b" "c = cancelled_dep wid ?f b"
      using upd [of k] g(1) by (cases "dget js k") auto
    show "\<not> dependent wid g c"
    proof (cases "dependent wid ?f b")
      case True
      then have "fj_status c = CANCELLED" using b by (simp add: cancelled_dep_def)
      then show ?thesis by (simp add: dependent_def pending_status_def)
    next
      case False
      with b have "c = b" by (simp add: cancelled_dep_def)
      with b g False show ?thesis using inv by (auto simp: cascade_inv_def)
    qed
  qed
qed

lemma cascade_inv_run:
  assumes "cascade_inv js0 wid start frontier seen js" and "distinct (dkeys js0)"
  shows "\<exists>seen'. cascade_inv js0 wid start [] seen' (cascade wid frontier seen js)"
  using assms
proof (induction wid frontier seen js rule: cascade.induct)
  case (1 wid frontier seen js)
  show ?case
  proof (cases "frontier = []")
    case True
    then show ?thesis using 1(3) by (auto simp: cascade.simps)
  next
    case ne: False
    show ?thesis
    proof (cases "last frontier \<in> seen")
      case True
      then show ?thesis
        using 1(1) [OF ne refl refl True cascade_inv_pop [OF 1(3) ne True] 1(4)] ne
        by (subst cascade.simps) (simp add: Let_def)
    next
      case False
      obtain js' frontier' where c: "cancel_dependents wid (last frontier) (dkeys js) js
          (butlast frontier) = (js', frontier')" by (cases rule: prod.exhaust)
      show ?thesis
        using 1(2) [OF ne refl refl False c [symmetric] cascade_inv_visit [OF 1(3) ne 1(4) c] 1(4)]
          ne False c
        by (subst cascade.simps) (simp add: Let_def)
    qed
  qed
qed

lemma cascade_spec:
  assumes "ids_match js" and "distinct (dkeys js)"
  shows "dkeys (cascade wid [start] {} js) = dkeys js \<and>
    (\<forall>k. dget (cascade wid [start] {} js) k =
      (if descends js wid start k then map_option (fj_status_update (\<lambda>_. CANCELLED)) (dget js k)
       else dget js k))"
proof -
  have "cascade_inv js wid start [start] {} js" using assms by (auto simp: cascade_inv_def)
  then obtain seen where inv: "cascade_inv js wid start [] seen (cascade wid [start] {} js)"
    using cascade_inv_run assms(2) by blast
  let ?r = "cascade wid [start] {} js"
  have alt: "dget ?r k = dget js k \<or>
      k \<in> seen \<and> dget ?r k = map_option (fj_status_update (\<lambda>_. CANCELLED)) (dget js k)" for k
    using inv by (auto simp: cascade_inv_def)
  have rest: "dget ?r k = Some c \<Longrightarrow> f \<in> seen \<Longrightarrow> \<not> dependent wid f c" for k c f
    using inv unfolding cascade_inv_def by blast
  have s: "start \<in> seen" using inv by (auto simp: cascade_inv_def)
  have all: "dget ?r k = map_option (fj_status_update (\<lambda>_. CANCELLED)) (dget js k) \<and> k \<in> seen"
    if "descends js wid start k" for k
    using that
  proof induction
    case (desc_child k c)
    then show ?case using alt [of k] rest [of k c start] s by metis
  next
    case (desc_step d k c)
    then show ?case using alt [of k] rest [of k c d] by metis
  qed
  have "dget ?r k = dget js k" if "\<not> descends js wid start k" for k
    using inv that unfolding cascade_inv_def by auto
  with all inv show ?thesis by (auto simp: cascade_inv_def)
qed


section \<open>Advancing a workflow\<close>

text \<open>\<open>_advance_fake_workflow\<close>: \<open>parent\<close> is the job as it has just been written.\<close>

definition advance_workflow :: "fake_job \<Rightarrow> fake \<Rightarrow> unit res" where
  "advance_workflow parent st = (case job_workflow parent of
      None \<Rightarrow> (Inl (PyAssertionError ''workflow_id is not None''), st)
    | Some wid \<Rightarrow> (case dget (workflows st) wid of
        None \<Rightarrow> (Inl PyKeyError, st)
      | Some w \<Rightarrow>
          if fj_status parent = SUCCEEDED
          then case promote wid (fj_job_id parent) (dkeys (jobs st)) (jobs st) of
              (Inl e, js) \<Rightarrow> (Inl e, st\<lparr>jobs := js\<rparr>)
            | (Inr _, js) \<Rightarrow> refresh_workflow w (st\<lparr>jobs := js\<rparr>)
          else refresh_workflow w
                 (st\<lparr>jobs := cascade wid [fj_job_id parent] {} (jobs st)\<rparr>)))"

end
