(* ===== verification/ContinuationIds.thy ===== *)
theory ContinuationIds
  imports Protocol
begin

text \<open>
  The identities of \<open>continuations.py\<close>: the engine-owned workflow step and idempotency key derived
  for one continuation, the check of a producer's own key, and the wire options of workflow
  creation, claim and completion.
\<close>

section \<open>Derived identities\<close>

definition validated_parent_uuid :: "uuid \<Rightarrow> exc + string" where
  "validated_parent_uuid u =
     (if u = 0 then Inl (ConfigError ''parent_job_id must be a non-nil UUID'')
      else Inr (map char_lower (uuid_str u)))"

definition validated_local_step :: "string \<Rightarrow> exc + string" where
  "validated_local_step s =
     (if step_name s then Inr s
      else Inl (ConfigError ''local_step must match [A-Za-z0-9][A-Za-z0-9._-]* and be at most 64 ASCII bytes''))"

definition derive_continuation_workflow_step :: "uuid \<Rightarrow> string \<Rightarrow> exc + string" where
  "derive_continuation_workflow_step parent_job_id local_step =
     ebind (validated_parent_uuid parent_job_id) (\<lambda>parent.
     ebind (validated_local_step local_step) (\<lambda>step.
       let value = ''c:'' @ parent @ '':'' @ step in
       if length value > 103
       then Inl (ConfigError ''derived continuation workflow step exceeds 103 ASCII bytes'')
       else Inr value))"

definition reserved_prefix :: string where
  "reserved_prefix = ''chain:''"

definition derive_continuation_idempotency_key :: "uuid \<Rightarrow> string \<Rightarrow> exc + string" where
  "derive_continuation_idempotency_key parent_job_id local_step =
     ebind (validated_parent_uuid parent_job_id) (\<lambda>parent.
     ebind (validated_local_step local_step) (\<lambda>step.
       let value = reserved_prefix @ parent @ '':'' @ step in
       if length value > 107
       then Inl (ConfigError ''derived continuation idempotency key exceeds 107 ASCII bytes'')
       else Inr value))"

definition starts_with :: "string \<Rightarrow> string \<Rightarrow> bool" where
  "starts_with p s \<longleftrightarrow> take (length p) s = p"

definition validate_producer_idempotency_key :: "string option \<Rightarrow> exc + string option" where
  "validate_producer_idempotency_key value = (case value of
      None \<Rightarrow> Inr None
    | Some v \<Rightarrow>
        if v = [] then Inl (ConfigError ''idempotency_key must be a non-empty string'')
        else if utf8_length v > 255 then Inl (ConfigError ''idempotency_key exceeds 255 UTF-8 bytes'')
        else if starts_with reserved_prefix v
        then Inl (ConfigError ''idempotency_key uses the reserved chain: namespace'')
        else Inr (Some v))"

section \<open>Wire options\<close>

definition default_member_limit :: int where
  "default_member_limit = 10000"

definition max_member_limit :: int where
  "max_member_limit = 1000000"

record continuation_workflow_options =
  cwo_member_limit :: int
  cwo_policy_hash :: "string option"

definition continuation_workflow_options_init ::
  "int option \<Rightarrow> string option \<Rightarrow> exc + continuation_workflow_options" where
  "continuation_workflow_options_init member_limit h =
     (let l = (case member_limit of None \<Rightarrow> default_member_limit | Some n \<Rightarrow> n) in
      if between 1 max_member_limit l \<and> opt_ok policy_hash h
      then Inr \<lparr>cwo_member_limit = l, cwo_policy_hash = h\<rparr>
      else Inl (ValidationError ''ContinuationWorkflowWireOptions''))"

definition continuation_claim_options :: "string list \<Rightarrow> exc + string list" where
  "continuation_claim_options hashes =
     (if length hashes \<le> 32 \<and> list_all policy_hash hashes \<and> distinct hashes
      then Inr (sort hashes) else Inl (ValidationError ''ContinuationClaimWireOptions''))"

definition continuation_complete_options :: "string \<Rightarrow> exc + string" where
  "continuation_complete_options h =
     (if policy_hash h then Inr h else Inl (ValidationError ''ContinuationCompleteWireOptions''))"

section \<open>Lemmas\<close>

lemma char_lower_hex_digit [simp]: "char_lower (hex_digit n) = hex_digit n"
proof -
  have "list_all (\<lambda>c. char_lower c = c) ''0123456789abcdef''"
    by (simp add: char_lower_def)
  moreover have "hex_digit n \<in> set ''0123456789abcdef''"
    unfolding hex_digit_def by (rule nth_mem) simp
  ultimately show ?thesis by (simp add: list_all_iff del: list.set)
qed

lemma lower_uuid_str [simp]: "map char_lower (uuid_str u) = uuid_str u"
proof -
  have "map char_lower (hex_block n a b) = hex_block n a b" for n a b
    by (simp add: hex_block_def)
  moreover have "char_lower CHR ''-'' = CHR ''-''" by (simp add: char_lower_def)
  ultimately show ?thesis by (simp add: uuid_str_def Let_def)
qed

definition engine_step :: "uuid \<Rightarrow> string \<Rightarrow> string" where
  "engine_step p s = ''c:'' @ uuid_str p @ '':'' @ s"

definition engine_key :: "uuid \<Rightarrow> string \<Rightarrow> string" where
  "engine_key p s = ''chain:'' @ uuid_str p @ '':'' @ s"

lemma derive_step_Inr [result_simps]:
  "derive_continuation_workflow_step p s = Inr v \<longleftrightarrow> p \<noteq> 0 \<and> step_name s \<and> v = engine_step p s"
  by (auto simp: derive_continuation_workflow_step_def validated_parent_uuid_def engine_step_def
      validated_local_step_def Let_def step_name_def)

lemma derive_key_Inr [result_simps]:
  "derive_continuation_idempotency_key p s = Inr v \<longleftrightarrow> p \<noteq> 0 \<and> step_name s \<and> v = engine_key p s"
  by (auto simp: derive_continuation_idempotency_key_def validated_parent_uuid_def engine_key_def
      validated_local_step_def Let_def step_name_def reserved_prefix_def)

lemma engine_step_inj: "engine_step p s = engine_step q t \<longleftrightarrow> p = q \<and> s = t"
  by (auto simp: engine_step_def append_eq_append_conv dest: uuid_str_inj)

lemma engine_key_inj: "engine_key p s = engine_key q t \<longleftrightarrow> p = q \<and> s = t"
  by (auto simp: engine_key_def append_eq_append_conv dest: uuid_str_inj)

lemma engine_step_not_producer: "\<not> step_name (engine_step p s)"
  by (auto simp: engine_step_def step_name_def step_char_def char_class_defs)

lemma engine_key_reserved: "starts_with reserved_prefix (engine_key p s)"
  by (simp add: starts_with_def reserved_prefix_def engine_key_def)

text \<open>
  The identities the engine derives for continuations are total on valid steps, fit their byte
  limits, are injective in the parent and the local step, and no producer can name one: a derived
  workflow step is never a valid public step key, and a derived idempotency key is never accepted
  from a producer.
\<close>

theorem derived_identities_private:
  assumes "p \<noteq> 0" and "step_name s"
  shows "\<exists>w k. derive_continuation_workflow_step p s = Inr w \<and>
    derive_continuation_idempotency_key p s = Inr k \<and> length w \<le> 103 \<and> length k \<le> 107 \<and>
    \<not> step_name w \<and> (\<exists>e. validate_producer_idempotency_key (Some k) = Inl e) \<and>
    (\<forall>q t. (derive_continuation_workflow_step q t = Inr w \<longrightarrow> q = p \<and> t = s) \<and>
           (derive_continuation_idempotency_key q t = Inr k \<longrightarrow> q = p \<and> t = s))"
proof (intro exI conjI)
  show "derive_continuation_workflow_step p s = Inr (engine_step p s)"
    "derive_continuation_idempotency_key p s = Inr (engine_key p s)"
    using assms by (auto simp: result_simps)
  show "length (engine_step p s) \<le> 103" "length (engine_key p s) \<le> 107"
    using assms by (auto simp: engine_step_def engine_key_def step_name_def)
  show "\<not> step_name (engine_step p s)" by (rule engine_step_not_producer)
  show "validate_producer_idempotency_key (Some (engine_key p s)) = Inl
      (if utf8_length (engine_key p s) > 255
       then ConfigError ''idempotency_key exceeds 255 UTF-8 bytes''
       else ConfigError ''idempotency_key uses the reserved chain: namespace'')"
    using engine_key_reserved by (simp add: validate_producer_idempotency_key_def engine_key_def)
  show "\<forall>q t. (derive_continuation_workflow_step q t = Inr (engine_step p s) \<longrightarrow> q = p \<and> t = s) \<and>
      (derive_continuation_idempotency_key q t = Inr (engine_key p s) \<longrightarrow> q = p \<and> t = s)"
    by (auto simp: result_simps engine_step_inj engine_key_inj)
qed

lemma derived_identities_private_witness:
  "\<exists>w k. derive_continuation_workflow_step 7 ''a'' = Inr w \<and>
    derive_continuation_idempotency_key 7 ''a'' = Inr k \<and> length w \<le> 103 \<and> length k \<le> 107 \<and>
    \<not> step_name w \<and> (\<exists>e. validate_producer_idempotency_key (Some k) = Inl e)"
  using derived_identities_private [of 7 "''a''"] by (auto simp: step_name_def char_class_defs)

end
