(* ===== verification/FakeInv.thy ===== *)
theory FakeInv
  imports FakeGraph ContinuationIds
begin

text \<open>
  The well-formedness invariant of the fake's state and the relation between the states before and
  after an operation.  Both are stated once here; every operation is shown to respect them in the
  theory that models it.
\<close>

section \<open>Shape of a job\<close>

text \<open>What no operation changes about a job: everything but its status, its attempt and the time it
  is scheduled at.\<close>

definition job_shape :: "fake_job \<Rightarrow> uuid \<times> enqueue_command \<times> uuid option \<times> string option" where
  "job_shape j = (fj_job_id j, (fj_command j)\<lparr>ec_scheduled_at := None\<rparr>, fj_parent_job_id j,
     fj_policy_hash j)"

lemma command_shape:
  assumes "(c::enqueue_command)\<lparr>ec_scheduled_at := None\<rparr> = c'\<lparr>ec_scheduled_at := None\<rparr>"
  shows "ec_queue c = ec_queue c' \<and> ec_idempotency_key c = ec_idempotency_key c' \<and>
    ec_workflow_id c = ec_workflow_id c' \<and> ec_step_key c = ec_step_key c' \<and>
    ec_depends_on c = ec_depends_on c' \<and> ec_max_attempts c = ec_max_attempts c'"
  using assms by (cases c; cases c') simp

lemma job_shape_fields:
  assumes "job_shape j = job_shape j'"
  shows "fj_job_id j = fj_job_id j'" "ec_queue (fj_command j) = ec_queue (fj_command j')"
    "ec_idempotency_key (fj_command j) = ec_idempotency_key (fj_command j')"
    "job_workflow j = job_workflow j'" "ec_step_key (fj_command j) = ec_step_key (fj_command j')"
    "deps j = deps j'" "fj_parent_job_id j = fj_parent_job_id j'"
    "fj_policy_hash j = fj_policy_hash j'"
  using assms command_shape [of "fj_command j" "fj_command j'"]
  by (auto simp: job_shape_def job_workflow_def deps_def)

section \<open>Evolution of a job\<close>

text \<open>A finished job is final, and nothing returns to the blocked status.\<close>

definition status_leads :: "job_status \<Rightarrow> job_status \<Rightarrow> bool" where
  "status_leads s s' \<longleftrightarrow> s = s' \<or> s = BLOCKED \<or> (s = QUEUED \<or> s = RUNNING) \<and> s' \<noteq> BLOCKED"

text \<open>A new attempt has a higher number and an id drawn between the two states; until then the attempt
  stays settled once it has been.\<close>

definition attempt_evolves :: "uuid_source \<Rightarrow> nat \<Rightarrow> nat \<Rightarrow> fake_job \<Rightarrow> fake_job \<Rightarrow> bool" where
  "attempt_evolves us n m j j' \<longleftrightarrow>
     fj_attempt_number j \<le> fj_attempt_number j' \<and>
     (fj_attempt_number j' = fj_attempt_number j \<longrightarrow> fj_attempt_id j' = fj_attempt_id j \<and>
        (fj_settled_command j \<noteq> None \<longrightarrow> fj_settled_command j' \<noteq> None)) \<and>
     (fj_attempt_number j' \<noteq> fj_attempt_number j \<longrightarrow>
        (\<exists>i \<in> {n..<m}. fj_attempt_id j' = Some (us i)))"

definition job_evolves :: "uuid_source \<Rightarrow> nat \<Rightarrow> nat \<Rightarrow> fake_job \<Rightarrow> fake_job \<Rightarrow> bool" where
  "job_evolves us n m j j' \<longleftrightarrow>
     job_shape j' = job_shape j \<and> status_leads (fj_status j) (fj_status j') \<and>
     (terminal_status (fj_status j) \<longrightarrow> j' = j) \<and> attempt_evolves us n m j j' \<and>
     fj_failure_count j \<le> fj_failure_count j'"

lemma attempt_evolves_refl [simp]: "attempt_evolves us n m j j"
  by (simp add: attempt_evolves_def)

lemma attempt_evolves_mono:
  assumes a: "attempt_evolves us n m j j'" and "n' \<le> n" and "m \<le> m'"
  shows "attempt_evolves us n' m' j j'"
proof -
  have "{n..<m} \<subseteq> {n'..<m'}" using assms(2,3) by auto
  then show ?thesis using a unfolding attempt_evolves_def by blast
qed

lemma attempt_evolves_trans:
  assumes a: "attempt_evolves us n m j j'" and b: "attempt_evolves us m p j' j''" and l: "n \<le> m" "m \<le> p"
  shows "attempt_evolves us n p j j''"
proof (cases "fj_attempt_number j'' = fj_attempt_number j'")
  case True
  then show ?thesis
    using attempt_evolves_mono [OF a order_refl l(2)] b unfolding attempt_evolves_def by simp
next
  case False
  then have "fj_attempt_number j'' \<noteq> fj_attempt_number j"
    using a b unfolding attempt_evolves_def by linarith
  then show ?thesis
    using attempt_evolves_mono [OF b l(1) order_refl] a False unfolding attempt_evolves_def by auto
qed

lemma job_evolves_attempt:
  "job_evolves us n m j j' \<Longrightarrow>
   fj_attempt_id j' = fj_attempt_id j \<or> (\<exists>i. n \<le> i \<and> i < m \<and> fj_attempt_id j' = Some (us i))"
  unfolding job_evolves_def attempt_evolves_def
  by (cases "fj_attempt_number j' = fj_attempt_number j") auto

definition jobs_evolve :: "uuid_source \<Rightarrow> nat \<Rightarrow> nat \<Rightarrow> jobs \<Rightarrow> jobs \<Rightarrow> bool" where
  "jobs_evolve us n m js js' \<longleftrightarrow>
     (\<forall>k j. dget js k = Some j \<longrightarrow> (\<exists>j'. dget js' k = Some j' \<and> job_evolves us n m j j'))"

lemma job_evolves_refl [simp]: "job_evolves us n m j j"
  by (simp add: job_evolves_def status_leads_def)

lemma status_leads_trans: "status_leads s s' \<Longrightarrow> status_leads s' s'' \<Longrightarrow> status_leads s s''"
  unfolding status_leads_def by auto

lemma job_evolves_trans:
  assumes a: "job_evolves us n m j j'" and b: "job_evolves us m p j' j''" and l: "n \<le> m" "m \<le> p"
  shows "job_evolves us n p j j''"
  unfolding job_evolves_def
proof (intro conjI impI)
  show "job_shape j'' = job_shape j" using a b by (simp add: job_evolves_def)
  show "status_leads (fj_status j) (fj_status j'')"
    using a b status_leads_trans by (auto simp: job_evolves_def)
  show "j'' = j" if "terminal_status (fj_status j)"
    using a b that unfolding job_evolves_def by metis
  show "attempt_evolves us n p j j''"
    using a b l attempt_evolves_trans unfolding job_evolves_def by blast
  show "fj_failure_count j \<le> fj_failure_count j''"
    using a b by (auto simp: job_evolves_def)
qed

lemma jobs_evolve_refl [simp]: "jobs_evolve us n m js js"
  by (auto simp: jobs_evolve_def)

lemma jobs_evolve_trans:
  assumes "jobs_evolve us n m js js'" and "jobs_evolve us m p js' js''" and "n \<le> m" and "m \<le> p"
  shows "jobs_evolve us n p js js''"
  using assms job_evolves_trans unfolding jobs_evolve_def by meson

lemma jobs_evolve_mono:
  assumes "jobs_evolve us n m js js'" and "n' \<le> n" and "m \<le> m'"
  shows "jobs_evolve us n' m' js js'"
proof -
  have "job_evolves us n m j j' \<Longrightarrow> job_evolves us n' m' j j'" for j j'
    using assms(2,3) attempt_evolves_mono unfolding job_evolves_def by blast
  then show ?thesis using assms(1) unfolding jobs_evolve_def by blast
qed

lemma jobs_evolve_add: "dget js k = None \<Longrightarrow> jobs_evolve us n m js (dset k j js)"
  by (auto simp: jobs_evolve_def)

lemma jobs_evolve_put:
  "dget js k = Some j \<Longrightarrow> job_evolves us n m j j' \<Longrightarrow> jobs_evolve us n m js (dset k j' js)"
  by (auto simp: jobs_evolve_def)

text \<open>A promise a workflow keeps: its identity and limits are fixed, sealing and cancellation stay.\<close>

definition workflow_evolves :: "fake_workflow \<Rightarrow> fake_workflow \<Rightarrow> bool" where
  "workflow_evolves w w' \<longleftrightarrow>
     fw_workflow_id w' = fw_workflow_id w \<and> fw_workflow_key w' = fw_workflow_key w \<and>
     fw_queues w' = fw_queues w \<and> fw_member_limit w' = fw_member_limit w \<and>
     fw_policy_hash w' = fw_policy_hash w \<and>
     (fw_sealed w \<longrightarrow> fw_sealed w') \<and> (fw_cancel_requested w \<longrightarrow> fw_cancel_requested w') \<and>
     fw_admitted_total w \<le> fw_admitted_total w' \<and>
     (\<forall>s i. dget (fw_steps w) s = Some i \<longrightarrow> dget (fw_steps w') s = Some i)"

definition workflows_evolve :: "(uuid, fake_workflow) dict \<Rightarrow> (uuid, fake_workflow) dict \<Rightarrow> bool" where
  "workflows_evolve ws ws' \<longleftrightarrow>
     (\<forall>k w. dget ws k = Some w \<longrightarrow> (\<exists>w'. dget ws' k = Some w' \<and> workflow_evolves w w'))"

lemma workflow_evolves_refl [simp]: "workflow_evolves w w"
  by (simp add: workflow_evolves_def)

lemma workflow_evolves_trans:
  "workflow_evolves w w' \<Longrightarrow> workflow_evolves w' w'' \<Longrightarrow> workflow_evolves w w''"
  by (simp add: workflow_evolves_def)

lemma workflows_evolve_refl [simp]: "workflows_evolve ws ws"
  by (auto simp: workflows_evolve_def)

lemma workflows_evolve_trans:
  "workflows_evolve ws ws' \<Longrightarrow> workflows_evolve ws' ws'' \<Longrightarrow> workflows_evolve ws ws''"
  unfolding workflows_evolve_def by (meson workflow_evolves_trans)

lemma workflows_evolve_put:
  "dget ws k = Some w \<Longrightarrow> workflow_evolves w w' \<Longrightarrow> workflows_evolve ws (dset k w' ws)"
  by (auto simp: workflows_evolve_def)

lemma workflows_evolve_add: "dget ws k = None \<Longrightarrow> workflows_evolve ws (dset k w ws)"
  by (auto simp: workflows_evolve_def)

definition evolves :: "uuid_source \<Rightarrow> fake \<Rightarrow> fake \<Rightarrow> bool" where
  "evolves us st st' \<longleftrightarrow> drawn st \<le> drawn st' \<and> known_queues st \<subseteq> known_queues st' \<and>
     jobs_evolve us (drawn st) (drawn st') (jobs st) (jobs st') \<and>
     workflows_evolve (workflows st) (workflows st')"

lemma evolves_refl [simp]: "evolves us st st"
  by (simp add: evolves_def)

lemma evolves_trans [trans]: "evolves us st st' \<Longrightarrow> evolves us st' st'' \<Longrightarrow> evolves us st st''"
  unfolding evolves_def using jobs_evolve_trans workflows_evolve_trans by (meson order_trans)


section \<open>The invariant\<close>

definition live_status :: "job_status \<Rightarrow> bool" where
  "live_status s \<longleftrightarrow> s = BLOCKED \<or> s = QUEUED \<or> s = RUNNING"

definition dead :: "jobs \<Rightarrow> uuid \<Rightarrow> bool" where
  "dead js i \<longleftrightarrow> (case dget js i of None \<Rightarrow> False
     | Some j \<Rightarrow> fj_status j = FAILED \<or> fj_status j = CANCELLED)"

definition position :: "'a list \<Rightarrow> 'a \<Rightarrow> nat" where
  "position xs x = length (takeWhile (\<lambda>y. y \<noteq> x) xs)"

text \<open>One job by itself.\<close>

definition job_ok :: "fake_job \<Rightarrow> bool" where
  "job_ok j \<longleftrightarrow>
     (fj_status j = RUNNING \<longrightarrow>
        fj_attempt_id j \<noteq> None \<and> fj_worker_id j \<noteq> None \<and> fj_settled_command j = None) \<and>
     (fj_status j = BLOCKED \<longrightarrow> fj_attempt_id j = None \<and> fj_settled_command j = None) \<and>
     (fj_status j = SUCCEEDED \<or> fj_status j = FAILED \<longrightarrow> fj_settled_command j \<noteq> None) \<and>
     (fj_attempt_id j = None \<longleftrightarrow> fj_attempt_number j = 0) \<and>
     0 \<le> fj_attempt_number j \<and> 0 \<le> fj_failure_count j \<and>
     (job_workflow j = None \<longrightarrow> deps j = [])"

text \<open>Identifiers are draws; the order of creation is the order of the dictionary.\<close>

definition ids_inv ::
  "uuid_source \<Rightarrow> nat \<Rightarrow> jobs \<Rightarrow> uuid list \<Rightarrow> (uuid, fake_workflow) dict \<Rightarrow> bool" where
  "ids_inv us n js ord ws \<longleftrightarrow>
     inj_on us {..<n} \<and> distinct (dkeys js) \<and> ord = dkeys js \<and>
     ids_match js \<and> set (dkeys js) \<subseteq> us ` {..<n} \<and> set (dkeys ws) \<subseteq> us ` {..<n} \<and>
     (\<forall>k j a. dget js k = Some j \<longrightarrow> fj_attempt_id j = Some a \<longrightarrow> a \<in> us ` {..<n})"

text \<open>Parents come before their children, and a job leaves the blocked status only when they have
  all succeeded; a blocked job waits for a parent that can still succeed.\<close>

definition dep_ok :: "jobs \<Rightarrow> uuid \<Rightarrow> fake_job \<Rightarrow> bool" where
  "dep_ok js k c \<longleftrightarrow>
     (\<forall>d \<in> set (deps c). position (dkeys js) d < position (dkeys js) k \<and>
        (\<exists>p. dget js d = Some p \<and> job_workflow p = job_workflow c)) \<and>
     (fj_status c \<noteq> BLOCKED \<and> fj_status c \<noteq> CANCELLED \<longrightarrow> (\<forall>d \<in> set (deps c). succeeded js d)) \<and>
     (fj_status c = BLOCKED \<longrightarrow>
        (\<exists>d \<in> set (deps c). \<not> succeeded js d) \<and> (\<forall>d \<in> set (deps c). \<not> dead js d))"

definition dag_inv :: "jobs \<Rightarrow> bool" where
  "dag_inv js \<longleftrightarrow> (\<forall>k c. dget js k = Some c \<longrightarrow> dep_ok js k c)"

text \<open>A live job owns its idempotency key.\<close>

definition job_key :: "fake_job \<Rightarrow> (string \<times> string) option" where
  "job_key j = map_option (Pair (ec_queue (fj_command j))) (ec_idempotency_key (fj_command j))"

definition keys_inv :: "jobs \<Rightarrow> (string \<times> string, uuid) dict \<Rightarrow> bool" where
  "keys_inv js keys \<longleftrightarrow>
     (\<forall>q i. dget keys q = Some i \<longrightarrow> (\<exists>j. dget js i = Some j \<and> job_key j = Some q)) \<and>
     (\<forall>i j q. dget js i = Some j \<longrightarrow> live_status (fj_status j) \<longrightarrow> job_key j = Some q \<longrightarrow>
        dget keys q = Some i)"

text \<open>The step a member holds: a producer's own name, or the identity derived from the parent
  whose completion created it.\<close>

definition parent_ok :: "jobs \<Rightarrow> fake_job \<Rightarrow> bool" where
  "parent_ok js j \<longleftrightarrow> (case fj_parent_job_id j of
      None \<Rightarrow> opt_ok step_name (ec_step_key (fj_command j))
    | Some p \<Rightarrow> succeeded js p \<and>
        (\<exists>s. ec_idempotency_key (fj_command j) = Some (engine_key p s) \<and>
             opt_ok (\<lambda>k. k = engine_step p s) (ec_step_key (fj_command j))))"

definition member_ok :: "(uuid, fake_workflow) dict \<Rightarrow> fake_job \<Rightarrow> bool" where
  "member_ok ws j \<longleftrightarrow> (case job_workflow j of
      None \<Rightarrow> ec_step_key (fj_command j) = None
    | Some wid \<Rightarrow> (\<exists>w s. dget ws wid = Some w \<and> ec_step_key (fj_command j) = Some s \<and>
        dget (fw_steps w) s = Some (fj_job_id j)))"

definition workflow_ok :: "jobs \<Rightarrow> uuid \<Rightarrow> fake_workflow \<Rightarrow> bool" where
  "workflow_ok js wid w \<longleftrightarrow>
     fw_workflow_id w = wid \<and> distinct (dkeys (fw_steps w)) \<and>
     int (length (fw_steps w)) \<le> fw_admitted_total w \<and>
     (\<forall>l. fw_member_limit w = Some l \<longrightarrow> fw_admitted_total w \<le> l) \<and>
     (fw_cancel_requested w \<longrightarrow> fw_sealed w) \<and>
     (\<forall>s i. dget (fw_steps w) s = Some i \<longrightarrow>
        (\<exists>j. dget js i = Some j \<and> job_workflow j = Some wid \<and> ec_step_key (fj_command j) = Some s))"

definition workflows_inv ::
  "jobs \<Rightarrow> (uuid, fake_workflow) dict \<Rightarrow> (string, uuid) dict \<Rightarrow> bool" where
  "workflows_inv js ws names \<longleftrightarrow>
     (\<forall>wid w. dget ws wid = Some w \<longrightarrow> workflow_ok js wid w) \<and>
     (\<forall>i j. dget js i = Some j \<longrightarrow> member_ok ws j \<and> parent_ok js j) \<and>
     (\<forall>key wid. dget names key = Some wid \<longrightarrow>
        (\<exists>w. dget ws wid = Some w \<and> fw_workflow_key w = key))"

definition jobs_ok :: "jobs \<Rightarrow> bool" where
  "jobs_ok js \<longleftrightarrow> (\<forall>k j. dget js k = Some j \<longrightarrow> job_ok j)"

definition fake_inv :: "uuid_source \<Rightarrow> fake \<Rightarrow> bool" where
  "fake_inv us st \<longleftrightarrow>
     ids_inv us (drawn st) (jobs st) (order st) (workflows st) \<and> jobs_ok (jobs st) \<and>
     dag_inv (jobs st) \<and> keys_inv (jobs st) (active_keys st) \<and>
     workflows_inv (jobs st) (workflows st) (workflow_keys st)"

lemma fake_inv_new: "fake_inv us (new_fake qs)"
  by (simp add: fake_inv_def ids_inv_def new_fake_def ids_match_def dag_inv_def keys_inv_def
      workflows_inv_def jobs_ok_def)

lemma position_append: "x \<in> set xs \<Longrightarrow> position (xs @ ys) x = position xs x"
  by (simp add: position_def takeWhile_append1)

lemma position_less: "x \<in> set xs \<Longrightarrow> position xs x < length xs"
  unfolding position_def by (induction xs) auto

lemma position_new: "y \<notin> set xs \<Longrightarrow> position (xs @ [y]) y = length xs"
  unfolding position_def by (induction xs) auto

lemma fresh_draw:
  assumes "ids_inv us n js ord ws" and "inj_on us {..<Suc n}"
  shows "dget js (us n) = None" "dget ws (us n) = None"
proof -
  have "us n \<notin> us ` {..<n}" using assms(2) by (auto simp: lessThan_Suc)
  moreover have "set (dkeys js) \<subseteq> us ` {..<n}" "set (dkeys ws) \<subseteq> us ` {..<n}"
    using assms(1) unfolding ids_inv_def by blast+
  ultimately show "dget js (us n) = None" "dget ws (us n) = None"
    unfolding map_of_eq_None_iff by auto
qed

section \<open>Changes of status\<close>

text \<open>
  An update of jobs that keeps every shape.  What the invariant says about identities, steps and
  keys only depends on shapes, on which jobs have succeeded and on which are live.
\<close>

definition same_shape :: "jobs \<Rightarrow> jobs \<Rightarrow> bool" where
  "same_shape js js' \<longleftrightarrow> dkeys js' = dkeys js \<and>
     (\<forall>k. map_option job_shape (dget js' k) = map_option job_shape (dget js k))"

lemma same_shape_refl [simp]: "same_shape js js"
  by (simp add: same_shape_def)

lemma same_shape_trans: "same_shape js js' \<Longrightarrow> same_shape js' js'' \<Longrightarrow> same_shape js js''"
  by (simp add: same_shape_def)

lemma same_shapeD:
  assumes "same_shape js js'" and "dget js' k = Some j'"
  shows "\<exists>j. dget js k = Some j \<and> job_shape j' = job_shape j"
proof -
  have "map_option job_shape (dget js' k) = map_option job_shape (dget js k)"
    using assms(1) by (simp add: same_shape_def)
  then show ?thesis using assms(2) by (cases "dget js k") auto
qed

lemma same_shapeE:
  assumes "same_shape js js'" and "dget js k = Some j"
  shows "\<exists>j'. dget js' k = Some j' \<and> job_shape j' = job_shape j"
proof -
  have "map_option job_shape (dget js' k) = map_option job_shape (dget js k)"
    using assms(1) by (simp add: same_shape_def)
  then show ?thesis using assms(2) by (cases "dget js' k") auto
qed

lemma same_shape_put:
  "dget js k = Some j \<Longrightarrow> job_shape j' = job_shape j \<Longrightarrow> same_shape js (dset k j' js)"
  by (auto simp: same_shape_def)

lemma same_shape_status [simp]: "job_shape (j\<lparr>fj_status := s\<rparr>) = job_shape j"
  by (simp add: job_shape_def)

lemma deps_status [simp]: "deps (j\<lparr>fj_status := s\<rparr>) = deps j"
  and job_workflow_status [simp]: "job_workflow (j\<lparr>fj_status := s\<rparr>) = job_workflow j"
  by (simp_all add: deps_def job_workflow_def)

lemma job_key_shape: "job_shape j = job_shape j' \<Longrightarrow> job_key j = job_key j'"
  unfolding job_key_def using job_shape_fields by metis

lemma ids_match_shape: "same_shape js js' \<Longrightarrow> ids_match js \<Longrightarrow> ids_match js'"
  unfolding ids_match_def by (metis same_shapeD job_shape_fields(1))

text \<open>Nothing that has succeeded stops having succeeded.\<close>

definition keeps_success :: "jobs \<Rightarrow> jobs \<Rightarrow> bool" where
  "keeps_success js js' \<longleftrightarrow> (\<forall>i. succeeded js i \<longrightarrow> succeeded js' i)"

lemma workflows_inv_shape:
  assumes inv: "workflows_inv js ws names" and sh: "same_shape js js'" and "keeps_success js js'"
  shows "workflows_inv js' ws names"
proof -
  have m: "member_ok ws j' \<and> parent_ok js' j'" if j': "dget js' i = Some j'" for i j'
  proof -
    obtain j where j: "dget js i = Some j" "job_shape j' = job_shape j"
      using same_shapeD [OF sh j'] by blast
    note f = job_shape_fields [OF j(2)]
    have "member_ok ws j \<and> parent_ok js j" using inv j(1) by (simp add: workflows_inv_def)
    then show ?thesis
      using assms(3) unfolding member_ok_def parent_ok_def f keeps_success_def
      by (auto split: option.splits)
  qed
  have w: "workflow_ok js' wid w" if ok: "workflow_ok js wid w" for wid w
  proof -
    have "\<exists>j. dget js' i = Some j \<and> job_workflow j = Some wid \<and> ec_step_key (fj_command j) = Some s"
      if s: "dget (fw_steps w) s = Some i" for s i
    proof -
      obtain j where j: "dget js i = Some j" "job_workflow j = Some wid"
          "ec_step_key (fj_command j) = Some s"
        using ok s unfolding workflow_ok_def by blast
      obtain j' where j': "dget js' i = Some j'" "job_shape j' = job_shape j"
        using same_shapeE [OF sh j(1)] by blast
      then show ?thesis using j job_shape_fields [OF j'(2)] by simp
    qed
    then show ?thesis using ok unfolding workflow_ok_def by blast
  qed
  show ?thesis using inv m w unfolding workflows_inv_def by blast
qed

lemma keys_inv_shape:
  assumes inv: "keys_inv js keys" and sh: "same_shape js js'"
    and live: "\<And>k j j'. dget js k = Some j \<Longrightarrow> dget js' k = Some j' \<Longrightarrow>
      live_status (fj_status j') \<Longrightarrow> live_status (fj_status j)"
  shows "keys_inv js' keys"
proof -
  have a: "\<exists>j'. dget js' i = Some j' \<and> job_key j' = Some q" if q: "dget keys q = Some i" for q i
  proof -
    obtain j where j: "dget js i = Some j" "job_key j = Some q"
      using inv q unfolding keys_inv_def by blast
    obtain j' where j': "dget js' i = Some j'" "job_shape j' = job_shape j"
      using same_shapeE [OF sh j(1)] by blast
    then show ?thesis using j job_key_shape [OF j'(2)] by simp
  qed
  have b: "dget keys q = Some i"
    if j': "dget js' i = Some j'" "live_status (fj_status j')" "job_key j' = Some q" for i j' q
  proof -
    obtain j where j: "dget js i = Some j" "job_shape j' = job_shape j"
      using same_shapeD [OF sh j'(1)] by blast
    have "live_status (fj_status j)" "job_key j = Some q"
      using live [OF j(1) j'(1,2)] j'(3) job_key_shape [OF j(2)] by simp_all
    then show ?thesis using inv j(1) unfolding keys_inv_def by blast
  qed
  show ?thesis using a b unfolding keys_inv_def by blast
qed


lemma ids_inv_shape:
  assumes inv: "ids_inv us n js ord ws" and sh: "same_shape js js'"
    and n: "n \<le> m" "inj_on us {..<m}"
    and at: "\<And>k j a. dget js' k = Some j \<Longrightarrow> fj_attempt_id j = Some a \<Longrightarrow> a \<in> us ` {..<m}"
  shows "ids_inv us m js' ord ws"
proof -
  have sub: "us ` {..<n} \<subseteq> us ` {..<m}" using n(1) by auto
  have k: "dkeys js' = dkeys js" using sh by (simp add: same_shape_def)
  have "ids_match js'" using ids_match_shape [OF sh] inv by (simp add: ids_inv_def)
  then show ?thesis
    using inv n(2) sub at unfolding ids_inv_def k by blast
qed

lemma keys_inv_drop:
  assumes inv: "keys_inv js keys"
    and drop: "\<And>q. dget keys' q = dget keys q \<or> dget keys' q = None \<and>
      (\<forall>i j. dget js i = Some j \<longrightarrow> live_status (fj_status j) \<longrightarrow> job_key j \<noteq> Some q)"
  shows "keys_inv js keys'"
  using inv drop unfolding keys_inv_def by (metis option.distinct(1))


lemma keys_inv_live:
  "keys_inv js keys \<Longrightarrow> dget js i = Some j \<Longrightarrow> live_status (fj_status j) \<Longrightarrow> job_key j = Some q \<Longrightarrow>
   dget keys q = Some i"
  unfolding keys_inv_def by blast

lemma keys_inv_owner:
  "keys_inv js keys \<Longrightarrow> dget keys q = Some i \<Longrightarrow> \<exists>j. dget js i = Some j \<and> job_key j = Some q"
  unfolding keys_inv_def by blast

end
