(* ===== verification/FakeAdvance.thy ===== *)
theory FakeAdvance
  imports FakeInv
begin

text \<open>
  What advancing a workflow does to the invariant: after one running job reaches its final status,
  promotion or the cascade restores the dependency invariant, and refreshing a workflow only
  rewrites its status.
\<close>

section \<open>Writing a workflow\<close>

definition same_members :: "fake_workflow \<Rightarrow> fake_workflow \<Rightarrow> bool" where
  "same_members w w' \<longleftrightarrow> fw_steps w' = fw_steps w \<and> fw_admitted_total w' = fw_admitted_total w \<and>
     (fw_cancel_requested w' \<longrightarrow> fw_sealed w')"

lemma workflows_inv_write:
  assumes inv: "workflows_inv js ws names" and w: "dget ws wid = Some w"
    and ok': "workflow_ok js wid w'" and st: "fw_steps w' = fw_steps w"
    and key: "fw_workflow_key w' = fw_workflow_key w"
  shows "workflows_inv js (dset wid w' ws) names"
proof -
  have m: "member_ok (dset wid w' ws) j" if "member_ok ws j" for j
    using that w st unfolding member_ok_def by (auto split: option.splits)
  have n: "\<exists>v. dget (dset wid w' ws) i = Some v \<and> fw_workflow_key v = key"
    if "dget ws i = Some v" "fw_workflow_key v = key" for i v key
    using that w key by auto
  show ?thesis
    unfolding workflows_inv_def
  proof (intro conjI allI impI)
    fix i v assume "dget (dset wid w' ws) i = Some v"
    then show "workflow_ok js i v"
      using inv ok' unfolding workflows_inv_def by (cases "i = wid") simp_all
  next
    fix i j assume "dget js i = Some j"
    then show "member_ok (dset wid w' ws) j" "parent_ok js j"
      using inv m unfolding workflows_inv_def by blast+
  next
    fix key i assume "dget names key = Some i"
    then show "\<exists>v. dget (dset wid w' ws) i = Some v \<and> fw_workflow_key v = key"
      using inv n unfolding workflows_inv_def by blast
  qed
qed

lemma workflows_inv_put:
  assumes inv: "workflows_inv js ws names" and w: "dget ws wid = Some w"
    and sm: "same_members w w'" and ev: "workflow_evolves w w'"
  shows "workflows_inv js (dset wid w' ws) names"
proof (rule workflows_inv_write [OF inv w])
  have "workflow_ok js wid w" using inv w unfolding workflows_inv_def by blast
  then show "workflow_ok js wid w'"
    using sm ev unfolding workflow_ok_def same_members_def workflow_evolves_def by simp
qed (use sm ev in \<open>simp_all add: same_members_def workflow_evolves_def\<close>)

lemma put_workflow_inv:
  assumes inv: "fake_inv us st" and w: "dget (workflows st) wid = Some w"
    and sm: "same_members w w'" and ev: "workflow_evolves w w'"
  shows "fake_inv us (put_workflow w' st) \<and> evolves us st (put_workflow w' st)"
proof -
  have id: "fw_workflow_id w = wid"
    using inv w unfolding fake_inv_def workflows_inv_def workflow_ok_def by blast
  then have id': "fw_workflow_id w' = wid" using ev by (simp add: workflow_evolves_def)
  have k: "dkeys (dset wid w' (workflows st)) = dkeys (workflows st)" using w by simp
  have "workflows_inv (jobs st) (dset wid w' (workflows st)) (workflow_keys st)"
    using workflows_inv_put [OF _ w sm ev] inv unfolding fake_inv_def by blast
  then have "fake_inv us (put_workflow w' st)"
    using inv unfolding fake_inv_def put_workflow_def ids_inv_def by (simp add: id' k)
  then show ?thesis
    using workflows_evolve_put [OF w ev] by (simp add: evolves_def put_workflow_def id')
qed

lemma traverse_steps:
  assumes inv: "workflow_ok js wid w"
  shows "\<exists>ps. traverse (get_job js) (dvalues (fw_steps w)) = Inr ps"
proof -
  have "dget js i \<noteq> None" if i: "i \<in> set (dvalues (fw_steps w))" for i
  proof -
    have "distinct (dkeys (fw_steps w))" using inv by (simp add: workflow_ok_def)
    then obtain s where "dget (fw_steps w) s = Some i" using dvalues_dget i by fast
    then show ?thesis using inv unfolding workflow_ok_def by blast
  qed
  then show ?thesis using traverse_get_job by blast
qed

lemma refresh_inv:
  assumes inv: "fake_inv us st" and w: "dget (workflows st) wid = Some w"
  shows "\<exists>st'. refresh_workflow w st = (Inr (), st') \<and> fake_inv us st' \<and> evolves us st st' \<and>
    (\<exists>s. st' = (if fw_sealed w then put_workflow (w\<lparr>fw_status := s\<rparr>) st else st))"
proof (cases "fw_sealed w")
  case True
  have "workflow_ok (jobs st) wid w" using inv w unfolding fake_inv_def workflows_inv_def by blast
  then have ok: "\<exists>ps. traverse (get_job (jobs st)) (dvalues (fw_steps w)) = Inr ps"
    "fw_cancel_requested w \<longrightarrow> fw_sealed w"
    using traverse_steps unfolding workflow_ok_def by blast+
  obtain ps where ps: "traverse (get_job (jobs st)) (dvalues (fw_steps w)) = Inr ps"
    using ok(1) by blast
  have "same_members w (w\<lparr>fw_status := s\<rparr>)" "workflow_evolves w (w\<lparr>fw_status := s\<rparr>)" for s
    using ok(2) by (simp_all add: same_members_def workflow_evolves_def)
  then show ?thesis using put_workflow_inv [OF inv w] True ps by (auto simp: refresh_workflow_def)
next
  case False
  then show ?thesis using inv by (auto simp: refresh_workflow_def)
qed

section \<open>The dependency invariant after a job is settled\<close>

lemma dag_invD: "dag_inv js \<Longrightarrow> dget js k = Some c \<Longrightarrow> dep_ok js k c"
  by (simp add: dag_inv_def)

lemma dag_deps_exist: "dag_inv js \<Longrightarrow> deps_exist js"
  unfolding dag_inv_def dep_ok_def deps_exist_def by fastforce

lemma dep_parent:
  assumes "dag_inv js" and "dget js k = Some c" and "d \<in> set (deps c)"
  shows "\<exists>p. dget js d = Some p \<and> job_workflow p = job_workflow c"
  using assms unfolding dag_inv_def dep_ok_def by blast

text \<open>
  The first two conjuncts of the dependency invariant only need shapes and success; the third
  needs the deaths.  This is the common form of the three cases below.
\<close>

lemma dag_inv_update:
  assumes inv: "dag_inv js" and sh: "same_shape js js'"
    and succ: "keeps_success js js'"
    and left: "\<And>k c c'. dget js k = Some c \<Longrightarrow> dget js' k = Some c' \<Longrightarrow>
      fj_status c' \<noteq> BLOCKED \<Longrightarrow> fj_status c' \<noteq> CANCELLED \<Longrightarrow>
      fj_status c \<noteq> BLOCKED \<and> fj_status c \<noteq> CANCELLED \<or> (\<forall>d \<in> set (deps c). succeeded js' d)"
    and blocked: "\<And>k c c'. dget js k = Some c \<Longrightarrow> dget js' k = Some c' \<Longrightarrow> fj_status c' = BLOCKED \<Longrightarrow>
      (\<exists>d \<in> set (deps c). \<not> succeeded js' d) \<and> (\<forall>d \<in> set (deps c). \<not> dead js' d)"
  shows "dag_inv js'"
  unfolding dag_inv_def
proof (intro allI impI)
  fix k c' assume c': "dget js' k = Some c'"
  obtain c where c: "dget js k = Some c" "job_shape c' = job_shape c"
    using same_shapeD [OF sh c'] by blast
  note f = job_shape_fields [OF c(2)]
  have ok: "dep_ok js k c" using inv c(1) by (rule dag_invD)
  have keys: "dkeys js' = dkeys js" using sh by (simp add: same_shape_def)
  show "dep_ok js' k c'"
    unfolding dep_ok_def f keys
  proof (intro conjI ballI impI)
    fix d assume d: "d \<in> set (deps c)"
    show "position (dkeys js) d < position (dkeys js) k" using ok d by (simp add: dep_ok_def)
    obtain p where p: "dget js d = Some p" "job_workflow p = job_workflow c"
      using dep_parent [OF inv c(1) d] by blast
    obtain p' where p': "dget js' d = Some p'" "job_shape p' = job_shape p"
      using same_shapeE [OF sh p(1)] by blast
    show "\<exists>p. dget js' d = Some p \<and> job_workflow p = job_workflow c"
      using p p' job_shape_fields(4) [OF p'(2)] by auto
  next
    fix d assume d: "d \<in> set (deps c)" and s: "fj_status c' \<noteq> BLOCKED \<and> fj_status c' \<noteq> CANCELLED"
    show "succeeded js' d"
      using left [OF c(1) c'] s d ok succ unfolding dep_ok_def keeps_success_def by blast
  next
    assume s: "fj_status c' = BLOCKED"
    show "\<exists>d \<in> set (deps c). \<not> succeeded js' d" using blocked [OF c(1) c' s] by blast
    fix d assume "d \<in> set (deps c)"
    then show "\<not> dead js' d" using blocked [OF c(1) c' s] by blast
  qed
qed

lemma blockedD:
  assumes "dag_inv js" and "dget js k = Some c" and "fj_status c = BLOCKED"
  shows "\<exists>d \<in> set (deps c). \<not> succeeded js d" and "\<forall>d \<in> set (deps c). \<not> dead js d"
  using dag_invD [OF assms(1,2)] assms(3) by (simp_all add: dep_ok_def)

text \<open>A running job becomes queued again, or leaves without anything depending on it.\<close>

lemma dag_requeue:
  assumes inv: "dag_inv js" and job: "dget js i = Some job" "fj_status job = RUNNING"
    and sh: "job_shape j = job_shape job"
    and s: "fj_status j = QUEUED \<or> fj_status j \<noteq> BLOCKED \<and> (\<forall>k c. dget js k = Some c \<longrightarrow> i \<notin> set (deps c))"
  shows "dag_inv (dset i j js)"
proof (rule dag_inv_update [OF inv same_shape_put [OF job(1) sh]])
  show "keeps_success js (dset i j js)"
    using job by (auto simp: keeps_success_def succeeded_def)
  have nb: "fj_status j \<noteq> BLOCKED" using s by auto
  fix k c c' assume c: "dget js k = Some c" "dget (dset i j js) k = Some c'"
  show "fj_status c \<noteq> BLOCKED \<and> fj_status c \<noteq> CANCELLED \<or> (\<forall>d \<in> set (deps c). succeeded (dset i j js) d)"
    if "fj_status c' \<noteq> BLOCKED" "fj_status c' \<noteq> CANCELLED"
    using c job that by (auto split: if_splits)
  show "(\<exists>d \<in> set (deps c). \<not> succeeded (dset i j js) d) \<and> (\<forall>d \<in> set (deps c). \<not> dead (dset i j js) d)"
    if b: "fj_status c' = BLOCKED"
  proof -
    have cb: "fj_status c = BLOCKED" using c b nb by (auto split: if_splits)
    note bl = blockedD [OF inv c(1) cb]
    show ?thesis
    proof (cases "i \<in> set (deps c)")
      case True
      then have q: "fj_status j = QUEUED" using s c(1) by blast
      then have "succeeded (dset i j js) d = succeeded js d" "dead (dset i j js) d = dead js d" for d
        using job by (auto simp: succeeded_def dead_def)
      then show ?thesis using bl by auto
    next
      case False
      then have "succeeded (dset i j js) d = succeeded js d" "dead (dset i j js) d = dead js d"
        if "d \<in> set (deps c)" for d
        using that by (auto simp: succeeded_def dead_def)
      then show ?thesis using bl by auto
    qed
  qed
qed


lemma dag_same_status:
  assumes inv: "dag_inv js" and job: "dget js i = Some job"
    and sh: "job_shape j = job_shape job" and s: "fj_status j = fj_status job"
  shows "dag_inv (dset i j js)"
proof (rule dag_inv_update [OF inv same_shape_put [OF job sh]])
  have eq: "succeeded (dset i j js) d = succeeded js d" "dead (dset i j js) d = dead js d" for d
    using job s by (auto simp: succeeded_def dead_def)
  show "keeps_success js (dset i j js)" using eq by (simp add: keeps_success_def)
  fix k c c' assume c: "dget js k = Some c" "dget (dset i j js) k = Some c'"
  then have "fj_status c' = fj_status c" using job s by (auto split: if_splits)
  then show "fj_status c' \<noteq> BLOCKED \<Longrightarrow> fj_status c' \<noteq> CANCELLED \<Longrightarrow>
      fj_status c \<noteq> BLOCKED \<and> fj_status c \<noteq> CANCELLED \<or> (\<forall>d \<in> set (deps c). succeeded (dset i j js) d)"
    and "fj_status c' = BLOCKED \<Longrightarrow> (\<exists>d \<in> set (deps c). \<not> succeeded (dset i j js) d) \<and>
      (\<forall>d \<in> set (deps c). \<not> dead (dset i j js) d)"
    using blockedD [OF inv c(1)] eq by simp_all
qed

section \<open>Promotion and cascade\<close>

text \<open>The dictionary after promotion, and after the cascade, stated pointwise.\<close>

definition promoted_jobs :: "uuid \<Rightarrow> uuid \<Rightarrow> jobs \<Rightarrow> jobs \<Rightarrow> bool" where
  "promoted_jobs wid pid js js' \<longleftrightarrow> dkeys js' = dkeys js \<and>
     (\<forall>k. dget js' k = map_option (promoted wid pid js) (dget js k))"

lemma promote_pointwise:
  assumes "distinct (dkeys js)" and "deps_exist js"
  shows "\<exists>js'. promote wid pid (dkeys js) js = (Inr (), js') \<and> promoted_jobs wid pid js js'"
proof -
  obtain r js' where r: "promote wid pid (dkeys js) js = (r, js')" by (cases rule: prod.exhaust)
  have sp: "r = Inr () \<and> dkeys js' = dkeys js \<and> (\<forall>k. dget js' k =
      (if k \<in> set (dkeys js) then map_option (promoted wid pid js) (dget js k) else dget js k))"
    using promote_spec [OF assms, of wid pid] r by simp
  have "dget js' k = map_option (promoted wid pid js) (dget js k)" for k
    using sp dget_Some_key [of js k] by (cases "dget js k") auto
  with sp r show ?thesis unfolding promoted_jobs_def by blast
qed

lemma promoted_shape [simp]: "job_shape (promoted wid pid js c) = job_shape c"
  by (simp add: promoted_def)

lemma promoted_status:
  "fj_status (promoted wid pid js c) = fj_status c \<or>
   fj_status c = BLOCKED \<and> fj_status (promoted wid pid js c) = QUEUED \<and>
     list_all (succeeded js) (deps c)"
  by (auto simp: promoted_def)

lemma promoted_jobs_facts:
  assumes "promoted_jobs wid pid js js'"
  shows "same_shape js js'" "succeeded js' = succeeded js" "dead js' = dead js"
proof -
  have g: "dget js' k = map_option (promoted wid pid js) (dget js k)" for k
    using assms by (simp add: promoted_jobs_def)
  show "same_shape js js'"
    using assms g unfolding same_shape_def promoted_jobs_def by (simp add: option.map_comp o_def)
  have "succeeded js' k = succeeded js k \<and> dead js' k = dead js k" for k
  proof (cases "dget js k")
    case None
    then show ?thesis using g [of k] by (simp add: succeeded_def dead_def)
  next
    case (Some c)
    then show ?thesis
      using g [of k] promoted_status [of wid pid js c] by (auto simp: succeeded_def dead_def)
  qed
  then show "succeeded js' = succeeded js" "dead js' = dead js" by auto
qed

lemma dag_promote:
  assumes inv: "dag_inv js" and job: "dget js i = Some job" "fj_status job = RUNNING"
    and sh: "job_shape j = job_shape job" and s: "fj_status j = SUCCEEDED"
    and wid: "job_workflow j = Some wid"
    and p: "promoted_jobs wid i (dset i j js) js'"
  shows "dag_inv js'"
proof -
  let ?m = "dset i j js"
  note pf = promoted_jobs_facts [OF p]
  have succ: "succeeded ?m d = (d = i \<or> succeeded js d)" "dead ?m d = dead js d" for d
    using s job by (auto simp: succeeded_def dead_def)
  have jw: "job_workflow job = Some wid" using job_shape_fields(4) [OF sh] wid by simp
  have g: "dget js' k = map_option (promoted wid i ?m) (dget ?m k)" for k
    using p by (simp add: promoted_jobs_def)
  show ?thesis
  proof (rule dag_inv_update [OF inv same_shape_trans [OF same_shape_put [OF job(1) sh] pf(1)]])
    show "keeps_success js js'" using pf succ by (simp add: keeps_success_def)
    fix k c c' assume c: "dget js k = Some c" "dget js' k = Some c'"
    have nk: "k \<noteq> i \<Longrightarrow> c' = promoted wid i ?m c" using g [of k] c by auto
    show "fj_status c \<noteq> BLOCKED \<and> fj_status c \<noteq> CANCELLED \<or> (\<forall>d \<in> set (deps c). succeeded js' d)"
      if "fj_status c' \<noteq> BLOCKED" "fj_status c' \<noteq> CANCELLED"
    proof (cases "k = i")
      case True
      then show ?thesis using c job by simp
    next
      case False
      then show ?thesis
        using nk promoted_status [of wid i ?m c] that pf(2) by (auto simp: list_all_iff)
    qed
    show "(\<exists>d \<in> set (deps c). \<not> succeeded js' d) \<and> (\<forall>d \<in> set (deps c). \<not> dead js' d)"
      if b: "fj_status c' = BLOCKED"
    proof -
      have "k \<noteq> i" using g [of k] c b s by (auto simp: promoted_def)
      then have c': "c' = promoted wid i ?m c" by (rule nk)
      then have cb: "fj_status c = BLOCKED" "c' = c"
        using b promoted_status [of wid i ?m c] by (auto simp: promoted_def split: if_splits)
      note bl = blockedD [OF inv c(1) cb(1)]
      have "\<exists>d \<in> set (deps c). \<not> succeeded ?m d"
      proof (cases "i \<in> set (deps c)")
        case True
        then have "job_workflow c = Some wid" using dep_parent [OF inv c(1) True] job jw by auto
        then have "\<not> list_all (succeeded ?m) (deps c)"
          using c' cb True by (auto simp: promoted_def split: if_splits dest: arg_cong [of _ _ fj_status])
        then show ?thesis by (auto simp: list_all_iff)
      next
        case False
        then show ?thesis using bl(1) succ by metis
      qed
      then show ?thesis using bl(2) succ pf by simp
    qed
  qed
qed

definition cancelled_jobs :: "uuid \<Rightarrow> uuid \<Rightarrow> jobs \<Rightarrow> jobs \<Rightarrow> bool" where
  "cancelled_jobs wid i js js' \<longleftrightarrow> dkeys js' = dkeys js \<and>
     (\<forall>k. dget js' k = (if descends js wid i k
        then map_option (fj_status_update (\<lambda>_. CANCELLED)) (dget js k) else dget js k))"

lemma cascade_pointwise:
  "ids_match js \<Longrightarrow> distinct (dkeys js) \<Longrightarrow> cancelled_jobs wid i js (cascade wid [i] {} js)"
  using cascade_spec unfolding cancelled_jobs_def by blast

lemma descends_pending:
  "descends js wid i k \<Longrightarrow>
   \<exists>c. dget js k = Some c \<and> pending_status (fj_status c) \<and> job_workflow c = Some wid"
  by (erule descends.cases) (auto simp: dependent_def)

lemma cancelled_jobs_facts:
  assumes "cancelled_jobs wid i js js'"
  shows "same_shape js js'" "succeeded js' = succeeded js"
    "dead js' = (\<lambda>k. dead js k \<or> descends js wid i k)"
proof -
  have g: "dget js' k = (if descends js wid i k
      then map_option (fj_status_update (\<lambda>_. CANCELLED)) (dget js k) else dget js k)" for k
    using assms by (simp add: cancelled_jobs_def)
  show "same_shape js js'"
    using assms g unfolding same_shape_def cancelled_jobs_def by (simp add: option.map_comp o_def)
  have "succeeded js' k = succeeded js k \<and> dead js' k = (dead js k \<or> descends js wid i k)" for k
  proof (cases "descends js wid i k")
    case True
    then obtain c where "dget js k = Some c" "pending_status (fj_status c)"
      using descends_pending by blast
    then show ?thesis using True g [of k] by (auto simp: succeeded_def dead_def pending_status_def)
  next
    case False
    then show ?thesis using g [of k] by (simp add: succeeded_def dead_def)
  qed
  then show "succeeded js' = succeeded js" "dead js' = (\<lambda>k. dead js k \<or> descends js wid i k)"
    by auto
qed

lemma dag_cascade:
  assumes inv: "dag_inv js" and job: "dget js i = Some job" "fj_status job = RUNNING"
    and sh: "job_shape j = job_shape job" and s: "fj_status j = FAILED \<or> fj_status j = CANCELLED"
    and wid: "job_workflow j = Some wid"
    and p: "cancelled_jobs wid i (dset i j js) js'"
  shows "dag_inv js'"
proof -
  let ?m = "dset i j js"
  note pf = cancelled_jobs_facts [OF p]
  have succ: "succeeded ?m d = succeeded js d" "dead ?m d = (d = i \<or> dead js d)" for d
    using s job by (auto simp: succeeded_def dead_def)
  have jw: "job_workflow job = Some wid" using job_shape_fields(4) [OF sh] wid by simp
  have g: "dget js' k = (if descends ?m wid i k
      then map_option (fj_status_update (\<lambda>_. CANCELLED)) (dget ?m k) else dget ?m k)" for k
    using p by (simp add: cancelled_jobs_def)
  show ?thesis
  proof (rule dag_inv_update [OF inv same_shape_trans [OF same_shape_put [OF job(1) sh] pf(1)]])
    show "keeps_success js js'" using pf succ by (simp add: keeps_success_def)
    fix k c c' assume c: "dget js k = Some c" "dget js' k = Some c'"
    show "fj_status c \<noteq> BLOCKED \<and> fj_status c \<noteq> CANCELLED \<or> (\<forall>d \<in> set (deps c). succeeded js' d)"
      if "fj_status c' \<noteq> BLOCKED" "fj_status c' \<noteq> CANCELLED"
      using g [of k] c job that by (auto split: if_splits)
    show "(\<exists>d \<in> set (deps c). \<not> succeeded js' d) \<and> (\<forall>d \<in> set (deps c). \<not> dead js' d)"
      if b: "fj_status c' = BLOCKED"
    proof -
      have k: "k \<noteq> i" "\<not> descends ?m wid i k" "c' = c"
        using g [of k] c b s by (auto split: if_splits)
      then have cb: "fj_status c = BLOCKED" using b by simp
      note bl = blockedD [OF inv c(1) cb]
      have mk: "dget ?m k = Some c" using c(1) k(1) by simp
      have "\<not> dead js' d" if d: "d \<in> set (deps c)" for d
      proof
        assume "dead js' d"
        then have "d = i \<or> descends ?m wid i d" using pf(3) succ(2) bl(2) d by auto
        moreover have "job_workflow c = Some wid" if "d = i \<or> descends ?m wid i d"
        proof -
          obtain q where q: "dget js d = Some q" "job_workflow q = job_workflow c"
            using dep_parent [OF inv c(1) d] by blast
          from that show ?thesis
          proof
            assume "d = i"
            then show ?thesis using q job jw by simp
          next
            assume "descends ?m wid i d"
            then obtain q' where "dget ?m d = Some q'" "job_workflow q' = Some wid"
              using descends_pending by blast
            then show ?thesis using q jw job by (auto split: if_splits simp: wid)
          qed
        qed
        ultimately have "descends ?m wid i k"
          using mk d cb by (auto simp: dependent_def pending_status_def intro: descends.intros)
        then show False using k(2) by simp
      qed
      then show ?thesis using bl(1) pf(2) succ(1) by simp
    qed
  qed
qed


section \<open>The net effect of a settlement on the jobs\<close>

text \<open>One running job takes its new status; others only leave the pending statuses.\<close>

definition settled_update :: "jobs \<Rightarrow> uuid \<Rightarrow> fake_job \<Rightarrow> jobs \<Rightarrow> bool" where
  "settled_update js i j js' \<longleftrightarrow> dkeys js' = dkeys js \<and> dget js' i = Some j \<and>
     (\<forall>k. k \<noteq> i \<longrightarrow> dget js' k = dget js k \<or>
        (\<exists>c. dget js k = Some c \<and> pending_status (fj_status c) \<and>
           (dget js' k = Some (c\<lparr>fj_status := CANCELLED\<rparr>) \<or>
            fj_status c = BLOCKED \<and> dget js' k = Some (c\<lparr>fj_status := QUEUED\<rparr>))))"

lemma settled_update_put:
  "dget js i = Some job \<Longrightarrow> settled_update js i j (dset i j js)"
  by (simp add: settled_update_def)

lemma settled_update_promote:
  assumes "dget js i = Some job" and "fj_status j \<noteq> BLOCKED" and "promoted_jobs wid i (dset i j js) js'"
  shows "settled_update js i j js'"
proof -
  have g: "dget js' k = map_option (promoted wid i (dset i j js)) (dget (dset i j js) k)" for k
    using assms(3) by (simp add: promoted_jobs_def)
  have "dget js' k = dget js k \<or> (\<exists>c. dget js k = Some c \<and> fj_status c = BLOCKED \<and>
      dget js' k = Some (c\<lparr>fj_status := QUEUED\<rparr>))" if "k \<noteq> i" for k
    using g [of k] that by (cases "dget js k") (auto simp: promoted_def)
  moreover have "dget js' i = Some j" using g [of i] assms(2) by (simp add: promoted_def)
  moreover have "dkeys js' = dkeys js" using assms(1,3) by (simp add: promoted_jobs_def)
  ultimately show ?thesis unfolding settled_update_def pending_status_def by blast
qed

lemma settled_update_cascade:
  assumes "dget js i = Some job" and "\<not> pending_status (fj_status j)"
    and "cancelled_jobs wid i (dset i j js) js'"
  shows "settled_update js i j js'"
proof -
  have g: "dget js' k = (if descends (dset i j js) wid i k
      then map_option (fj_status_update (\<lambda>_. CANCELLED)) (dget (dset i j js) k)
      else dget (dset i j js) k)" for k
    using assms(3) by (simp add: cancelled_jobs_def)
  have p: "descends (dset i j js) wid i k \<Longrightarrow>
      \<exists>c. dget (dset i j js) k = Some c \<and> pending_status (fj_status c)" for k
    using descends_pending by blast
  have "dget js' k = dget js k \<or> (\<exists>c. dget js k = Some c \<and> pending_status (fj_status c) \<and>
      dget js' k = Some (c\<lparr>fj_status := CANCELLED\<rparr>))" if "k \<noteq> i" for k
    using g [of k] p [of k] that by (cases "descends (dset i j js) wid i k") auto
  moreover have "dget js' i = Some j" using g [of i] p [of i] assms(2) by auto
  moreover have "dkeys js' = dkeys js" using assms(1,3) by (simp add: cancelled_jobs_def)
  ultimately show ?thesis unfolding settled_update_def by blast
qed

lemma settled_update_cases:
  assumes "settled_update js i j js'" and "dget js' k = Some c'"
  obtains (settled) "k = i" "c' = j"
  | (same) "k \<noteq> i" "dget js k = Some c'"
  | (cancelled) c where "k \<noteq> i" "dget js k = Some c" "pending_status (fj_status c)"
      "c' = c\<lparr>fj_status := CANCELLED\<rparr>"
  | (unblocked) c where "k \<noteq> i" "dget js k = Some c" "fj_status c = BLOCKED"
      "c' = c\<lparr>fj_status := QUEUED\<rparr>"
  using assms unfolding settled_update_def by (metis option.inject)

lemma settled_update_facts:
  assumes u: "settled_update js i j js'" and job: "dget js i = Some job" "fj_status job = RUNNING"
    and sh: "job_shape j = job_shape job"
  shows "same_shape js js'" "keeps_success js js'"
proof -
  have o: "k \<noteq> i \<Longrightarrow> dget js' k = dget js k \<or> (\<exists>c. dget js k = Some c \<and>
      pending_status (fj_status c) \<and> (\<exists>s. dget js' k = Some (c\<lparr>fj_status := s\<rparr>)))" for k
    using u unfolding settled_update_def by blast
  have i: "dget js' i = Some j" using u by (simp add: settled_update_def)
  have "map_option job_shape (dget js' k) = map_option job_shape (dget js k)" for k
    using o [of k] i job sh by (cases "k = i") auto
  then show "same_shape js js'" using u by (simp add: same_shape_def settled_update_def)
  have "succeeded js' k" if "succeeded js k" for k
    using o [of k] that job by (cases "k = i") (auto simp: succeeded_def pending_status_def)
  then show "keeps_success js js'" by (simp add: keeps_success_def)
qed

lemma settled_update_jobs_ok:
  assumes u: "settled_update js i j js'" and "jobs_ok js" and "job_ok j"
  shows "jobs_ok js'"
  unfolding jobs_ok_def
proof (intro allI impI)
  fix k c' assume c': "dget js' k = Some c'"
  show "job_ok c'"
    using u c'
  proof (cases rule: settled_update_cases)
    case (cancelled c)
    then have "job_ok c" using assms(2) by (simp add: jobs_ok_def)
    then show ?thesis using cancelled by (simp add: job_ok_def)
  next
    case (unblocked c)
    then have "job_ok c" using assms(2) by (simp add: jobs_ok_def)
    then show ?thesis using unblocked by (auto simp: job_ok_def)
  qed (use assms in \<open>auto simp: jobs_ok_def\<close>)
qed

lemma settled_update_evolves:
  assumes u: "settled_update js i j js'" and job: "dget js i = Some job"
    and ev: "job_evolves us n m job j"
  shows "jobs_evolve us n m js js'"
  unfolding jobs_evolve_def
proof (intro allI impI)
  fix k c assume c: "dget js k = Some c"
  show "\<exists>c'. dget js' k = Some c' \<and> job_evolves us n m c c'"
  proof (cases "k = i")
    case True
    then show ?thesis using u c job ev by (auto simp: settled_update_def)
  next
    case False
    have "job_evolves us n m c (c\<lparr>fj_status := s\<rparr>)"
      if "pending_status (fj_status c)" "s = CANCELLED \<or> fj_status c = BLOCKED \<and> s = QUEUED" for s
      using that by (auto simp: job_evolves_def attempt_evolves_def status_leads_def terminal_status_def pending_status_def)
    moreover have "dget js' k = Some c \<or> pending_status (fj_status c) \<and>
        (dget js' k = Some (c\<lparr>fj_status := CANCELLED\<rparr>) \<or>
         fj_status c = BLOCKED \<and> dget js' k = Some (c\<lparr>fj_status := QUEUED\<rparr>))"
      using u c False unfolding settled_update_def by auto
    ultimately show ?thesis using job_evolves_refl by metis
  qed
qed

end
