(* ===== verification/FakeSettle.thy ===== *)
theory FakeSettle
  imports FakeAdvance
begin

text \<open>
  Heartbeat and the settlement verbs of the fake except \<open>complete\<close>: the fence of \<open>_attempt\<close> and
  \<open>_replay_or_lost\<close>, the common tail \<open>_finish\<close>, and \<open>fail\<close>, \<open>snooze\<close>, \<open>release\<close> and
  \<open>cancel_running\<close>.
\<close>

section \<open>The fence\<close>

definition attempt :: "fake \<Rightarrow> uuid \<Rightarrow> uuid \<Rightarrow> string \<Rightarrow> fake_job option" where
  "attempt st job_id attempt_id worker_id = (case dget (jobs st) job_id of
      None \<Rightarrow> None
    | Some job \<Rightarrow>
        if fj_attempt_id job \<noteq> Some attempt_id \<or> fj_worker_id job \<noteq> Some worker_id \<or>
           fj_status job \<noteq> RUNNING
        then None else Some job)"

definition heartbeat ::
  "clock \<Rightarrow> uuid \<Rightarrow> uuid \<Rightarrow> string \<Rightarrow> int option \<Rightarrow> fake \<Rightarrow> heartbeat_result res" where
  "heartbeat clk job_id attempt_id worker_id lease_seconds st = ensure_open st (
     let duration = or_int lease_seconds 60;
         flag = (case dget (jobs st) job_id of
             None \<Rightarrow> Inr False
           | Some job \<Rightarrow> (case job_workflow job of
               None \<Rightarrow> Inr False
             | Some wid \<Rightarrow> (case dget (workflows st) wid of
                 None \<Rightarrow> Inl PyKeyError | Some w \<Rightarrow> Inr (fw_cancel_requested w))))
     in case flag of
         Inl e \<Rightarrow> (Inl e, st)
       | Inr cancel \<Rightarrow> with_now clk st (\<lambda>now.
           (Inr \<lparr>hb_ok = (attempt st job_id attempt_id worker_id \<noteq> None),
              hb_cancel_requested = cancel,
              hb_lease_expires_at = Some (plus_seconds now duration)\<rparr>, st)))"

definition settle_lost :: "job_status option \<Rightarrow> settle_result" where
  "settle_lost s = \<lparr>sr_result = LOST, sr_job_status = s, sr_scheduled_at = None\<rparr>"

text \<open>\<open>_replay_or_lost\<close>: the job to settle, or the result that answers without settling.\<close>

definition replay_or_lost ::
  "fake \<Rightarrow> uuid \<Rightarrow> uuid \<Rightarrow> string \<Rightarrow> settle_verb \<Rightarrow> fake_job + settle_result" where
  "replay_or_lost st job_id attempt_id worker_id verb = (case dget (jobs st) job_id of
      None \<Rightarrow> Inr (settle_lost None)
    | Some job \<Rightarrow>
        if fj_attempt_id job \<noteq> Some attempt_id \<or> fj_worker_id job \<noteq> Some worker_id
        then Inr (settle_lost None)
        else (case fj_settled_command job of
            Some v \<Rightarrow> Inr
              \<lparr>sr_result = (if v = verb then ALREADY_SETTLED else SETTLE_CONFLICT),
               sr_job_status = Some (fj_status job),
               sr_scheduled_at = ec_scheduled_at (fj_command job)\<rparr>
          | None \<Rightarrow>
              if fj_status job \<noteq> RUNNING then Inr (settle_lost (Some (fj_status job)))
              else Inl job))"

section \<open>Finishing\<close>

definition log_settlement ::
  "fake_job \<Rightarrow> settle_verb \<Rightarrow> handler_result option \<Rightarrow> settle_outcome \<Rightarrow> string option \<Rightarrow> fake \<Rightarrow> fake" where
  "log_settlement j verb intent outcome cause st = st\<lparr>settlements := settlements st @
     [\<lparr>rs_job_id = fj_job_id j, rs_queue = ec_queue (fj_command j),
       rs_job_type = ec_job_type (fj_command j), rs_command = verb, rs_intent = intent,
       rs_outcome = outcome, rs_cause = cause\<rparr>]\<rparr>"

definition finished_job :: "fake_job \<Rightarrow> settle_verb \<Rightarrow> job_status \<Rightarrow> instant option \<Rightarrow> fake_job" where
  "finished_job job verb status scheduled_at =
     job\<lparr>fj_status := status, fj_settled_command := Some verb,
         fj_command := (case scheduled_at of
             None \<Rightarrow> fj_command job
           | Some t \<Rightarrow> (fj_command job)\<lparr>ec_scheduled_at := Some t\<rparr>)\<rparr>"

definition pop_key :: "fake_job \<Rightarrow> fake \<Rightarrow> fake" where
  "pop_key j st = (case ec_idempotency_key (fj_command j) of
      None \<Rightarrow> st
    | Some k \<Rightarrow> st\<lparr>active_keys := ddel (ec_queue (fj_command j), k) (active_keys st)\<rparr>)"

definition finish ::
  "fake_job \<Rightarrow> settle_verb \<Rightarrow> job_status \<Rightarrow> handler_result option \<Rightarrow> settle_outcome \<Rightarrow>
   string option \<Rightarrow> instant option \<Rightarrow> fake \<Rightarrow> unit res" where
  "finish job verb status intent outcome cause scheduled_at st =
     (let j = finished_job job verb status scheduled_at;
          st1 = put_job j st;
          st2 = (if terminal_status status then pop_key j st1 else st1);
          st3 = log_settlement j verb intent outcome cause st2
      in if job_workflow j \<noteq> None \<and> terminal_status status then advance_workflow j st3
         else (Inr (), st3))"

section \<open>The verbs\<close>

definition fail ::
  "clock \<Rightarrow> uuid \<Rightarrow> uuid \<Rightarrow> string \<Rightarrow> string \<Rightarrow> bool \<Rightarrow> int option \<Rightarrow> jobj option \<Rightarrow> fake \<Rightarrow>
   settle_result res" where
  "fail clk job_id attempt_id worker_id error retryable retry_after progress st = ensure_open st (
     case replay_or_lost st job_id attempt_id worker_id V_FAIL of
       Inr replay \<Rightarrow> (Inr replay, st)
     | Inl job0 \<Rightarrow>
         let job = job0\<lparr>fj_failure_count := fj_failure_count job0 + 1\<rparr>;
             st1 = put_job job st;
             retry = (retryable \<and>
               fj_failure_count job < or_int (ec_max_attempts (fj_command job)) 10)
         in if retry then
              with_now clk st1 (\<lambda>now.
                let scheduled = plus_seconds now (or_int retry_after 0) in
                case handler_result_init (Retry retry_after (Some error) (some_object progress)) of
                  Inl e \<Rightarrow> (Inl e, st1)
                | Inr intent \<Rightarrow>
                    rbind (finish job V_FAIL QUEUED (Some intent) RETRY_SCHEDULED None
                        (Some scheduled) st1)
                      (\<lambda>_ st2. (Inr \<lparr>sr_result = RETRY_SCHEDULED, sr_job_status = Some QUEUED,
                         sr_scheduled_at = Some scheduled\<rparr>, st2)))
            else case handler_result_init (NonRetryable error (some_object progress)) of
                Inl e \<Rightarrow> (Inl e, st1)
              | Inr intent \<Rightarrow>
                  rbind (finish job V_FAIL FAILED (Some intent) DEAD None None st1)
                    (\<lambda>_ st2. (Inr \<lparr>sr_result = DEAD, sr_job_status = Some FAILED,
                       sr_scheduled_at = None\<rparr>, st2)))"

definition snooze ::
  "clock \<Rightarrow> uuid \<Rightarrow> uuid \<Rightarrow> string \<Rightarrow> int \<Rightarrow> string option \<Rightarrow> jobj option \<Rightarrow> fake \<Rightarrow>
   settle_result res" where
  "snooze clk job_id attempt_id worker_id delay_seconds reason progress st = ensure_open st (
     case replay_or_lost st job_id attempt_id worker_id V_SNOOZE of
       Inr replay \<Rightarrow> (Inr replay, st)
     | Inl job \<Rightarrow> with_now clk st (\<lambda>now.
         let scheduled = plus_seconds now delay_seconds in
         case handler_result_init (Snooze delay_seconds (some_object progress) reason) of
           Inl e \<Rightarrow> (Inl e, st)
         | Inr intent \<Rightarrow>
             rbind (finish job V_SNOOZE QUEUED (Some intent) OK None (Some scheduled) st)
               (\<lambda>_ st1. (Inr \<lparr>sr_result = OK, sr_job_status = Some QUEUED,
                  sr_scheduled_at = Some scheduled\<rparr>, st1))))"

definition release ::
  "clock \<Rightarrow> uuid \<Rightarrow> uuid \<Rightarrow> string \<Rightarrow> string \<Rightarrow> int \<Rightarrow> fake \<Rightarrow> settle_result res" where
  "release clk job_id attempt_id worker_id cause delay_seconds st = ensure_open st (
     case replay_or_lost st job_id attempt_id worker_id V_RELEASE of
       Inr replay \<Rightarrow> (Inr replay, st)
     | Inl job \<Rightarrow> with_now clk st (\<lambda>now.
         let scheduled = plus_seconds now delay_seconds in
         rbind (finish job V_RELEASE QUEUED None OK (Some cause) (Some scheduled) st)
           (\<lambda>_ st1. (Inr \<lparr>sr_result = OK, sr_job_status = Some QUEUED,
              sr_scheduled_at = Some scheduled\<rparr>, st1))))"

definition cancel_running ::
  "uuid \<Rightarrow> uuid \<Rightarrow> string \<Rightarrow> string \<Rightarrow> fake \<Rightarrow> settle_result res" where
  "cancel_running job_id attempt_id worker_id reason st = ensure_open st (
     case replay_or_lost st job_id attempt_id worker_id V_CANCEL_RUNNING of
       Inr replay \<Rightarrow> (Inr replay, st)
     | Inl job \<Rightarrow>
         (case handler_result_init (Cancel reason) of
           Inl e \<Rightarrow> (Inl e, st)
         | Inr intent \<Rightarrow>
             rbind (finish job V_CANCEL_RUNNING CANCELLED (Some intent) OK None None st)
               (\<lambda>_ st1. (Inr \<lparr>sr_result = OK, sr_job_status = Some CANCELLED,
                  sr_scheduled_at = None\<rparr>, st1))))"

section \<open>The invariant through a settlement\<close>

lemma replay_Inl:
  "replay_or_lost st i a w v = Inl job \<longleftrightarrow>
     dget (jobs st) i = Some job \<and> fj_attempt_id job = Some a \<and> fj_worker_id job = Some w \<and>
     fj_settled_command job = None \<and> fj_status job = RUNNING"
  by (auto simp: replay_or_lost_def split: option.splits if_splits)

lemma finished_shape [simp]: "job_shape (finished_job job v s t) = job_shape job"
  by (simp add: finished_job_def job_shape_def split: option.splits)

lemma finished_fields [simp]:
  "fj_status (finished_job job v s t) = s" "fj_settled_command (finished_job job v s t) = Some v"
  "fj_attempt_id (finished_job job v s t) = fj_attempt_id job"
  "fj_attempt_number (finished_job job v s t) = fj_attempt_number job"
  "fj_failure_count (finished_job job v s t) = fj_failure_count job"
  "fj_worker_id (finished_job job v s t) = fj_worker_id job"
  "fj_job_id (finished_job job v s t) = fj_job_id job"
  by (simp_all add: finished_job_def)

text \<open>What the ledgers and the key table do not touch.\<close>

lemma log_settlement_fields [simp]:
  "jobs (log_settlement j v i oc ca st) = jobs st" "order (log_settlement j v i oc ca st) = order st"
  "active_keys (log_settlement j v i oc ca st) = active_keys st"
  "workflows (log_settlement j v i oc ca st) = workflows st"
  "workflow_keys (log_settlement j v i oc ca st) = workflow_keys st"
  "drawn (log_settlement j v i oc ca st) = drawn st"
  "known_queues (log_settlement j v i oc ca st) = known_queues st"
  by (simp_all add: log_settlement_def)

lemma pop_key_fields [simp]:
  "jobs (pop_key j st) = jobs st" "order (pop_key j st) = order st"
  "workflows (pop_key j st) = workflows st" "workflow_keys (pop_key j st) = workflow_keys st"
  "drawn (pop_key j st) = drawn st" "known_queues (pop_key j st) = known_queues st"
  by (simp_all add: pop_key_def split: option.splits)

lemma pop_key_dget:
  "dget (active_keys (pop_key j st)) q =
     (if job_key j = Some q then None else dget (active_keys st) q)"
  by (cases q) (auto simp: pop_key_def job_key_def split: option.splits)

lemma put_job_fields [simp]:
  "jobs (put_job j st) = dset (fj_job_id j) j (jobs st)" "order (put_job j st) = order st"
  "active_keys (put_job j st) = active_keys st" "workflows (put_job j st) = workflows st"
  "workflow_keys (put_job j st) = workflow_keys st" "drawn (put_job j st) = drawn st"
  "known_queues (put_job j st) = known_queues st"
  by (simp_all add: put_job_def)


text \<open>Settling one running job, given the dependency invariant of the result.\<close>

lemma settle_inv:
  assumes inv: "fake_inv us st" and job: "dget (jobs st) i = Some job" "fj_status job = RUNNING"
    and j: "job_shape j = job_shape job" "job_ok j" "job_evolves us (drawn st) (drawn st) job j"
      "fj_attempt_id j = fj_attempt_id job"
    and u: "settled_update (jobs st) i j js'" and dag: "dag_inv js'"
    and keys: "\<And>q. dget keys' q = dget (active_keys st) q \<or>
      dget keys' q = None \<and> job_key j = Some q \<and> \<not> live_status (fj_status j)"
    and st': "jobs st' = js'" "active_keys st' = keys'" "order st' = order st"
      "workflows st' = workflows st" "workflow_keys st' = workflow_keys st" "drawn st' = drawn st"
      "known_queues st' = known_queues st"
  shows "fake_inv us st' \<and> evolves us st st'"
proof -
  note sh = settled_update_facts [OF u job j(1)]
  have parts: "ids_inv us (drawn st) (jobs st) (order st) (workflows st)" "jobs_ok (jobs st)"
    "keys_inv (jobs st) (active_keys st)"
    "workflows_inv (jobs st) (workflows st) (workflow_keys st)"
    using inv by (simp_all add: fake_inv_def)
  have ids: "ids_inv us (drawn st) js' (order st) (workflows st)"
  proof (rule ids_inv_shape [OF parts(1) sh(1)])
    show "drawn st \<le> drawn st" by simp
    show "inj_on us {..<drawn st}" using parts(1) by (simp add: ids_inv_def)
    fix k c' a assume c': "dget js' k = Some c'" "fj_attempt_id c' = Some a"
    have "\<exists>c. dget (jobs st) k = Some c \<and> fj_attempt_id c = Some a"
      using u c'(1)
      by (cases rule: settled_update_cases) (use c'(2) job(1) j(4) in auto)
    then show "a \<in> us ` {..<drawn st}" using parts(1) unfolding ids_inv_def by blast
  qed
  have live: "live_status (fj_status c)"
    if "dget (jobs st) k = Some c" "dget js' k = Some c'" "live_status (fj_status c')" for k c c'
    using u that(2)
    by (cases rule: settled_update_cases)
      (use that job in \<open>auto simp: live_status_def pending_status_def\<close>)
  have k1: "keys_inv js' (active_keys st)" by (rule keys_inv_shape [OF parts(3) sh(1) live])
  have "dget (active_keys st) q = Some k"
    if "dget js' k = Some c'" "live_status (fj_status c')" "job_key c' = Some q" for k c' q
    by (rule keys_inv_live [OF k1 that])
  moreover have "dget (active_keys st) q = Some i" if "job_key j = Some q" for q
    by (rule keys_inv_live [OF parts(3) job(1)])
      (use job(2) that job_key_shape [OF j(1)] in \<open>simp_all add: live_status_def\<close>)
  moreover have "dget js' i = Some j" using u by (simp add: settled_update_def)
  ultimately have "keys_inv js' keys'"
    by (intro keys_inv_drop [OF k1]) (use keys in \<open>metis option.inject\<close>)
  moreover have "jobs_ok js'" by (rule settled_update_jobs_ok [OF u parts(2) j(2)])
  moreover have "workflows_inv js' (workflows st) (workflow_keys st)"
    by (rule workflows_inv_shape [OF parts(4) sh])
  moreover have "jobs_evolve us (drawn st) (drawn st) (jobs st) js'"
    by (rule settled_update_evolves [OF u job(1) j(3)])
  ultimately show ?thesis
    using ids dag st' by (simp add: fake_inv_def evolves_def)
qed

lemma finished_job_evolves:
  assumes "fj_status job = RUNNING" and "s \<noteq> BLOCKED"
  shows "job_evolves us n m job (finished_job job v s t)"
  using assms by (auto simp: job_evolves_def attempt_evolves_def status_leads_def terminal_status_def)

lemma finished_job_ok:
  assumes "job_ok job" and "fj_status job = RUNNING" and "s \<noteq> BLOCKED" and "s \<noteq> RUNNING"
  shows "job_ok (finished_job job v s t)"
  using assms job_shape_fields(4,6) [OF finished_shape, of job v s t] by (simp add: job_ok_def)

text \<open>
  \<open>_finish\<close> on a running job never raises, keeps the invariant, writes the job and leaves the
  members and the keys of other jobs as they were.
\<close>

definition finish_frame :: "fake \<Rightarrow> fake \<Rightarrow> bool" where
  "finish_frame st st' \<longleftrightarrow> drawn st' = drawn st \<and> known_queues st' = known_queues st \<and>
     order st' = order st \<and> workflow_keys st' = workflow_keys st \<and> enqueues st' = enqueues st \<and>
     closed st' = closed st \<and> schedules st' = schedules st \<and> admissions st' = admissions st \<and>
     workers st' = workers st \<and>
     (\<forall>q. dget (active_keys st') q = dget (active_keys st) q \<or> dget (active_keys st') q = None) \<and>
     (\<forall>wid w. dget (workflows st) wid = Some w \<longrightarrow>
        (\<exists>s. dget (workflows st') wid = Some (w\<lparr>fw_status := s\<rparr>)))"

lemma advance_inv:
  assumes inv: "fake_inv us st" and job: "dget (jobs st) i = Some job" "fj_status job = RUNNING"
    and s: "terminal_status s" and wid: "job_workflow job = Some wid"
    and j: "j = finished_job job v s t"
    and st1: "st1 = log_settlement j v intent outcome cause (pop_key j (put_job j st))"
  shows "\<exists>js' x. advance_workflow j st1 = (Inr (), (if x = None then st1\<lparr>jobs := js'\<rparr>
        else put_workflow (the x) (st1\<lparr>jobs := js'\<rparr>))) \<and>
      fake_inv us (st1\<lparr>jobs := js'\<rparr>) \<and> evolves us st (st1\<lparr>jobs := js'\<rparr>) \<and>
      dget js' i = Some j \<and>
      (\<forall>w'. x = Some w' \<longrightarrow> (\<exists>w s. dget (workflows st) wid = Some w \<and> fw_sealed w \<and>
         w' = w\<lparr>fw_status := s\<rparr>))"
proof -
  have dag: "dag_inv (jobs st)" and ids: "ids_inv us (drawn st) (jobs st) (order st) (workflows st)"
    and ok: "job_ok job"
    using inv job unfolding fake_inv_def jobs_ok_def by blast+
  have id: "fj_job_id job = i" using ids job by (simp add: ids_inv_def ids_match_def)
  have sh: "job_shape j = job_shape job" and sj: "fj_status j = s" and ij: "fj_job_id j = i"
    using j id by simp_all
  have wj: "job_workflow j = Some wid" using job_shape_fields(4) [OF sh] wid by simp
  have nb: "s \<noteq> BLOCKED" "s \<noteq> RUNNING" "\<not> live_status s" "\<not> pending_status s"
    using s by (auto simp: terminal_status_def live_status_def pending_status_def)
  let ?m = "dset i j (jobs st)"
  have jobs1: "jobs st1 = ?m" and wf1: "workflows st1 = workflows st" using st1 ij by simp_all
  have "member_ok (workflows st) job" "\<And>w. dget (workflows st) wid = Some w \<Longrightarrow> fw_workflow_id w = wid"
    using inv job(1) unfolding fake_inv_def workflows_inv_def workflow_ok_def by blast+
  then obtain w where w: "dget (workflows st) wid = Some w" using wid by (auto simp: member_ok_def)
  have dm: "distinct (dkeys ?m)" "ids_match ?m" "deps_exist ?m"
  proof -
    show "distinct (dkeys ?m)" using ids job by (simp add: ids_inv_def)
    show "ids_match ?m" using ids ij by (simp add: ids_inv_def)
    have "deps_exist (jobs st)" using dag by (rule dag_deps_exist)
    then show "deps_exist ?m"
      using job(1) job_shape_fields(6) [OF sh] unfolding deps_exist_def by auto
  qed
  obtain js' where js': "settled_update (jobs st) i j js'" "dag_inv js'"
    "advance_workflow j st1 = refresh_workflow w (st1\<lparr>jobs := js'\<rparr>)"
  proof (cases "s = SUCCEEDED")
    case True
    obtain js' where p: "promote wid i (dkeys ?m) ?m = (Inr (), js')" "promoted_jobs wid i ?m js'"
      using promote_pointwise [OF dm(1,3)] by blast
    show thesis
    proof (rule that)
      show "settled_update (jobs st) i j js'"
        by (rule settled_update_promote [OF job(1) _ p(2)]) (use sj nb in simp)
      show "dag_inv js'" by (rule dag_promote [OF dag job sh _ wj p(2)]) (use sj True in simp)
      show "advance_workflow j st1 = refresh_workflow w (st1\<lparr>jobs := js'\<rparr>)"
        using p(1) True w by (simp add: advance_workflow_def wj wf1 sj ij jobs1)
    qed
  next
    case False
    then have d: "fj_status j = FAILED \<or> fj_status j = CANCELLED" using s sj by (auto simp: terminal_status_def)
    let ?c = "cascade wid [i] {} ?m"
    have p: "cancelled_jobs wid i ?m ?c" by (rule cascade_pointwise [OF dm(2,1)])
    show thesis
    proof (rule that)
      show "settled_update (jobs st) i j ?c"
        by (rule settled_update_cascade [OF job(1) _ p]) (use sj nb in simp)
      show "dag_inv ?c" by (rule dag_cascade [OF dag job sh d wj p])
      show "advance_workflow j st1 = refresh_workflow w (st1\<lparr>jobs := ?c\<rparr>)"
        using False w by (simp add: advance_workflow_def wj wf1 sj ij jobs1)
    qed
  qed
  let ?s = "st1\<lparr>jobs := js'\<rparr>"
  have fin: "fake_inv us ?s \<and> evolves us st ?s"
  proof (rule settle_inv [OF inv job sh _ _ _ js'(1,2)])
    show "job_ok j" using finished_job_ok [OF ok job(2) nb(1,2)] j by simp
    show "job_evolves us (drawn st) (drawn st) job j"
      using finished_job_evolves [OF job(2) nb(1)] j by simp
    show "fj_attempt_id j = fj_attempt_id job" using j by simp
    fix q show "dget (active_keys ?s) q = dget (active_keys st) q \<or>
        dget (active_keys ?s) q = None \<and> job_key j = Some q \<and> \<not> live_status (fj_status j)"
      using nb(3) sj by (simp add: st1 pop_key_dget)
  qed (simp_all add: st1)
  have ws: "dget (workflows ?s) wid = Some w" using w wf1 by simp
  obtain st2 sw where r: "refresh_workflow w ?s = (Inr (), st2)"
      "st2 = (if fw_sealed w then put_workflow (w\<lparr>fw_status := sw\<rparr>) ?s else ?s)"
    using refresh_inv [OF conjunct1 [OF fin] ws] by blast
  have "dget js' i = Some j" using js'(1) by (simp add: settled_update_def)
  then show ?thesis
    using fin r js'(3) w
    by (intro exI [of _ js'] exI [of _ "if fw_sealed w then Some (w\<lparr>fw_status := sw\<rparr>) else None"]) auto
qed


lemma workflow_status_self [simp]: "\<exists>s. (w::fake_workflow) = w\<lparr>fw_status := s\<rparr>"
  by (rule exI [of _ "fw_status w"]) simp

lemma finish_inv:
  assumes inv: "fake_inv us st" and job: "dget (jobs st) i = Some job" "fj_status job = RUNNING"
    and s: "s \<noteq> BLOCKED" "s \<noteq> RUNNING"
  shows "\<exists>st'. finish job v s intent outcome cause t st = (Inr (), st') \<and> fake_inv us st' \<and>
    evolves us st st' \<and> finish_frame st st' \<and> dget (jobs st') i = Some (finished_job job v s t)"
proof (cases "job_workflow job \<noteq> None \<and> terminal_status s")
  case True
  let ?j = "finished_job job v s t"
  let ?st1 = "log_settlement ?j v intent outcome cause (pop_key ?j (put_job ?j st))"
  obtain wid where wid: "job_workflow job = Some wid" using True by auto
  have wj: "job_workflow ?j = Some wid" using job_shape_fields(4) [OF finished_shape] wid by simp
  obtain js' x where r: "advance_workflow ?j ?st1 = (Inr (), (if x = None then ?st1\<lparr>jobs := js'\<rparr>
        else put_workflow (the x) (?st1\<lparr>jobs := js'\<rparr>)))"
      "fake_inv us (?st1\<lparr>jobs := js'\<rparr>)" "evolves us st (?st1\<lparr>jobs := js'\<rparr>)" "dget js' i = Some ?j"
      "\<And>w'. x = Some w' \<Longrightarrow>
        \<exists>w s. dget (workflows st) wid = Some w \<and> fw_sealed w \<and> w' = w\<lparr>fw_status := s\<rparr>"
    using advance_inv [OF inv job _ wid refl refl, of s v t intent outcome cause] True by blast
  have fin: "finish job v s intent outcome cause t st = advance_workflow ?j ?st1"
    using True wj by (simp add: finish_def Let_def)
  have frame: "finish_frame st (?st1\<lparr>jobs := js'\<rparr>)"
    unfolding finish_frame_def
    by (auto simp: log_settlement_def put_job_def pop_key_def split: option.splits)
  show ?thesis
  proof (cases x)
    case None
    then show ?thesis using r fin frame by auto
  next
    case (Some w')
    obtain w sw where w: "dget (workflows st) wid = Some w" "fw_sealed w" "w' = w\<lparr>fw_status := sw\<rparr>"
      using r(5) [OF Some] by blast
    have id: "fw_workflow_id w = wid"
      using inv w(1) unfolding fake_inv_def workflows_inv_def workflow_ok_def by blast
    let ?s = "?st1\<lparr>jobs := js'\<rparr>"
    have ws: "dget (workflows ?s) wid = Some w" using w by simp
    have p: "fake_inv us (put_workflow w' ?s) \<and> evolves us ?s (put_workflow w' ?s)"
      by (rule put_workflow_inv [OF r(2) ws]) (simp_all add: w same_members_def workflow_evolves_def)
    have "finish_frame st (put_workflow w' ?s)"
      using frame w id unfolding finish_frame_def by (auto simp: put_workflow_def)
    then show ?thesis using p r fin Some evolves_trans [OF r(3)] by (auto simp: put_workflow_def)
  qed
next
  case False
  let ?j = "finished_job job v s t"
  let ?st1 = "log_settlement ?j v intent outcome cause
    (if terminal_status s then pop_key ?j (put_job ?j st) else put_job ?j st)"
  have sh: "job_shape ?j = job_shape job" by simp
  have ids: "ids_inv us (drawn st) (jobs st) (order st) (workflows st)" and ok: "job_ok job"
    and dag: "dag_inv (jobs st)"
    using inv job unfolding fake_inv_def jobs_ok_def by blast+
  have id: "fj_job_id ?j = i" using ids job by (simp add: ids_inv_def ids_match_def)
  have fin: "finish job v s intent outcome cause t st = (Inr (), ?st1)"
    using False job_shape_fields(4) [OF sh] by (auto simp: finish_def Let_def)
  have free: "fj_status ?j = QUEUED \<or> fj_status ?j \<noteq> BLOCKED \<and>
      (\<forall>k c. dget (jobs st) k = Some c \<longrightarrow> i \<notin> set (deps c))"
  proof (cases "s = QUEUED")
    case nq: False
    then have none: "job_workflow job = None"
      using False s by (cases s) (auto simp: terminal_status_def)
    have "i \<notin> set (deps c)" if c: "dget (jobs st) k = Some c" for k c
    proof
      assume d: "i \<in> set (deps c)"
      then have "job_workflow c = None" using dep_parent [OF dag c d] job none by auto
      moreover have "job_ok c" using inv c unfolding fake_inv_def jobs_ok_def by blast
      ultimately show False using d by (simp add: job_ok_def)
    qed
    then show ?thesis using s by simp
  qed simp
  have "fake_inv us ?st1 \<and> evolves us st ?st1"
  proof (rule settle_inv [OF inv job sh _ _ _ settled_update_put [OF job(1)]])
    show "job_ok ?j" by (rule finished_job_ok [OF ok job(2) s])
    show "job_evolves us (drawn st) (drawn st) job ?j" by (rule finished_job_evolves [OF job(2) s(1)])
    show "dag_inv (dset i ?j (jobs st))" by (rule dag_requeue [OF dag job sh free])
    fix q show "dget (active_keys ?st1) q = dget (active_keys st) q \<or>
        dget (active_keys ?st1) q = None \<and> job_key ?j = Some q \<and> \<not> live_status (fj_status ?j)"
      by (auto simp: pop_key_dget terminal_status_def live_status_def)
  qed (use id in simp_all)
  moreover have "finish_frame st ?st1"
    unfolding finish_frame_def
    by (auto simp: log_settlement_def put_job_def pop_key_def split: option.splits)
  moreover have "dget (jobs ?st1) i = Some ?j" using id by simp
  ultimately show ?thesis using fin by blast
qed


section \<open>The verbs keep the invariant\<close>

text \<open>What an operation owes: the invariant, and a legal evolution of every job and workflow.\<close>

definition sound :: "uuid_source \<Rightarrow> fake \<Rightarrow> 'a res \<Rightarrow> bool" where
  "sound us st r \<longleftrightarrow> fake_inv us (snd r) \<and> evolves us st (snd r)"

lemma sound_same [simp, intro]: "fake_inv us st \<Longrightarrow> sound us st (r, st)"
  by (simp add: sound_def)

lemma sound_step: "evolves us st st' \<Longrightarrow> sound us st' r \<Longrightarrow> sound us st r"
  unfolding sound_def by (auto intro: evolves_trans)

lemma sound_open: "fake_inv us st \<Longrightarrow> sound us st body \<Longrightarrow> sound us st (ensure_open st body)"
  by (simp add: ensure_open_def sound_def)

lemma sound_now:
  "fake_inv us st \<Longrightarrow> evolves us st0 st \<Longrightarrow> (\<And>t. sound us st0 (body t)) \<Longrightarrow>
   sound us st0 (with_now clk st body)"
  by (cases clk) (simp_all add: sound_def)

lemma finish_sound:
  assumes "fake_inv us st" and "dget (jobs st) i = Some job" and "fj_status job = RUNNING"
    and "s \<noteq> BLOCKED" and "s \<noteq> RUNNING"
  shows "sound us st (rbind (finish job v s intent outcome cause t st) (\<lambda>_ st1. (Inr r, st1)))"
  using finish_inv [OF assms, of v intent outcome cause t] by (auto simp: sound_def)

lemma put_running_inv:
  assumes inv: "fake_inv us st" and job: "dget (jobs st) i = Some job" "fj_status job = RUNNING"
    and j: "j = job\<lparr>fj_failure_count := n\<rparr>" and n: "fj_failure_count job \<le> n"
  shows "fake_inv us (put_job j st) \<and> evolves us st (put_job j st)"
proof -
  have ids: "ids_inv us (drawn st) (jobs st) (order st) (workflows st)" and ok: "job_ok job"
    and dag: "dag_inv (jobs st)"
    using inv job unfolding fake_inv_def jobs_ok_def by blast+
  have id: "fj_job_id j = i" using ids job j by (simp add: ids_inv_def ids_match_def)
  have sh: "job_shape j = job_shape job" using j by (simp add: job_shape_def)
  show ?thesis
  proof (rule settle_inv [OF inv job sh _ _ _ settled_update_put [OF job(1)]])
    show "job_ok j" using ok j n job_shape_fields(4,6) [OF sh] by (auto simp: job_ok_def)
    show "job_evolves us (drawn st) (drawn st) job j"
      using j n job sh by (simp add: job_evolves_def attempt_evolves_def status_leads_def terminal_status_def)
    show "dag_inv (dset i j (jobs st))" by (rule dag_same_status [OF dag job(1) sh]) (simp add: j)
    show "dget (active_keys (put_job j st)) q = dget (active_keys st) q \<or>
      dget (active_keys (put_job j st)) q = None \<and> job_key j = Some q \<and> \<not> live_status (fj_status j)" for q
      by simp
  qed (use id j in simp_all)
qed

lemma heartbeat_sound [wf_rules]: "fake_inv us st \<Longrightarrow> sound us st (heartbeat clk i a w l st)"
  unfolding heartbeat_def Let_def
  by (intro sound_open) (auto split: option.splits sum.splits intro!: sound_now)

lemma snooze_sound [wf_rules]: "fake_inv us st \<Longrightarrow> sound us st (snooze clk i a w d r p st)"
  unfolding snooze_def Let_def
  by (intro sound_open)
    (auto split: sum.splits intro!: sound_now finish_sound simp: replay_Inl)

lemma release_sound [wf_rules]: "fake_inv us st \<Longrightarrow> sound us st (release clk i a w c d st)"
  unfolding release_def Let_def
  by (intro sound_open)
    (auto split: sum.splits intro!: sound_now finish_sound simp: replay_Inl)

lemma cancel_running_sound [wf_rules]: "fake_inv us st \<Longrightarrow> sound us st (cancel_running i a w r st)"
  unfolding cancel_running_def
  by (intro sound_open)
    (auto split: sum.splits intro!: finish_sound simp: replay_Inl)

lemma fail_sound [wf_rules]:
  assumes inv: "fake_inv us st"
  shows "sound us st (fail clk i a w e rt ra p st)"
proof (cases "replay_or_lost st i a w V_FAIL")
  case (Inr r)
  then show ?thesis using inv by (simp add: fail_def ensure_open_def)
next
  case (Inl job0)
  let ?job = "job0\<lparr>fj_failure_count := fj_failure_count job0 + 1\<rparr>"
  let ?st = "put_job ?job st"
  have job0: "dget (jobs st) i = Some job0" "fj_status job0 = RUNNING"
    using Inl by (simp_all add: replay_Inl)
  have id: "fj_job_id ?job = i"
    using inv job0 by (simp add: fake_inv_def ids_inv_def ids_match_def)
  have st1: "fake_inv us ?st" "evolves us st ?st"
    using put_running_inv [OF inv job0 refl, of "fj_failure_count job0 + 1"] by simp_all
  have job: "dget (jobs ?st) i = Some ?job" "fj_status ?job = RUNNING" using id job0 by simp_all
  have fin: "sound us st (rbind (finish ?job V_FAIL s intent oc None t ?st) (\<lambda>_ st1. (Inr r, st1)))"
    if "s \<noteq> BLOCKED" "s \<noteq> RUNNING" for s intent oc t r
    by (rule sound_step [OF st1(2) finish_sound [OF st1(1) job that]])
  show ?thesis
    unfolding fail_def Inl sum.case Let_def
    by (intro sound_open inv)
      (auto split: sum.splits intro!: sound_now fin st1 simp: sound_def [where r = "(_, ?st)"] st1)
qed

end
