(* ===== verification/FakeEnqueue.thy ===== *)
theory FakeEnqueue
  imports FakeSettle
begin

text \<open>
  The producer paths of the fake: \<open>enqueue\<close>, \<open>_enqueue_workflow_member\<close>, \<open>_record_enqueue\<close> and
  \<open>enqueue_many\<close>, and the insertion of a job, which completion shares.
\<close>

section \<open>Operations\<close>

definition record_enqueue ::
  "fake_job \<Rightarrow> enqueue_command \<Rightarrow> enqueue_status \<Rightarrow> fake \<Rightarrow> enqueue_result res" where
  "record_enqueue job c status st =
     (Inr \<lparr>er_status = status, er_job_id = fj_job_id job, er_queue = ec_queue c,
        er_job_type = ec_job_type c, er_idempotency_key = ec_idempotency_key c,
        er_scheduled_at = ec_scheduled_at (fj_command job)\<rparr>, log_enqueue job c status st)"

definition command_key :: "enqueue_command \<Rightarrow> (string \<times> string) option" where
  "command_key c = map_option (Pair (ec_queue c)) (ec_idempotency_key c)"

definition set_key :: "(string \<times> string) option \<Rightarrow> uuid \<Rightarrow> fake \<Rightarrow> fake" where
  "set_key key i st = (case key of None \<Rightarrow> st | Some k \<Rightarrow> st\<lparr>active_keys := dset k i (active_keys st)\<rparr>)"

definition add_queue :: "string \<Rightarrow> fake \<Rightarrow> fake" where
  "add_queue q st = st\<lparr>known_queues := insert q (known_queues st)\<rparr>"

definition draw :: "fake \<Rightarrow> fake" where
  "draw st = st\<lparr>drawn := Suc (drawn st)\<rparr>"

text \<open>The branch of \<open>enqueue\<close> without a workflow.\<close>

definition enqueue_plain :: "uuid_source \<Rightarrow> enqueue_command \<Rightarrow> fake \<Rightarrow> enqueue_result res" where
  "enqueue_plain us c st =
     (case Option.bind (command_key c) (dget (active_keys st)) of
       Some existing \<Rightarrow> (case dget (jobs st) existing of
           None \<Rightarrow> (Inl PyKeyError, st)
         | Some job \<Rightarrow> record_enqueue job c EXISTED st)
     | None \<Rightarrow>
         let job = new_fake_job (us (drawn st)) c QUEUED
         in record_enqueue job c CREATED
              (set_key (command_key c) (fj_job_id job)
                (add_queue (ec_queue c) (insert_job job (draw st)))))"

text \<open>\<open>_workflow_command_identity\<close>: the command with its dependencies as a sorted list of strings.\<close>

definition workflow_command_identity :: "enqueue_command \<Rightarrow> enqueue_command \<times> string list option" where
  "workflow_command_identity c =
     (c\<lparr>ec_depends_on := None\<rparr>, map_option (\<lambda>d. sort (map uuid_str d)) (ec_depends_on c))"

definition identity_eq :: "enqueue_command \<Rightarrow> enqueue_command \<Rightarrow> bool" where
  "identity_eq a b \<longleftrightarrow> (case (workflow_command_identity a, workflow_command_identity b) of
     ((c, d), (c', d')) \<Rightarrow> enqueue_command_eq c c' \<and> d = d')"

definition check_parent :: "jobs \<Rightarrow> uuid \<Rightarrow> uuid \<Rightarrow> exc + fake_job" where
  "check_parent js wid i = (case dget js i of
      None \<Rightarrow> Inl (raise_code NOT_FOUND)
    | Some p \<Rightarrow>
        if job_workflow p \<noteq> Some wid then Inl (raise_code NOT_FOUND)
        else if fj_status p = FAILED \<or> fj_status p = CANCELLED
        then Inl (raise_reason CONFLICT ''dependency_terminal'')
        else Inr p)"

definition set_step :: "string \<Rightarrow> uuid \<Rightarrow> fake_workflow \<Rightarrow> fake_workflow" where
  "set_step s i w = w\<lparr>fw_steps := dset s i (fw_steps w), fw_admitted_total := fw_admitted_total w + 1\<rparr>"

text \<open>
  The insertion at the end of \<open>_enqueue_workflow_member\<close>.  On a collision of idempotency keys the
  job and its step are taken back, the admitted total and the queue are not.
\<close>

definition insert_member ::
  "uuid \<Rightarrow> enqueue_command \<Rightarrow> string \<Rightarrow> fake_workflow \<Rightarrow> job_status \<Rightarrow> fake \<Rightarrow> enqueue_result res" where
  "insert_member i c s w status st =
     (let job = (new_fake_job i c status)\<lparr>fj_policy_hash := fw_policy_hash w\<rparr>;
          w' = set_step s i w;
          st1 = add_queue (ec_queue c) (put_workflow w' (insert_job job st))
      in case command_key c of
          None \<Rightarrow> record_enqueue job c CREATED st1
        | Some identity \<Rightarrow>
            if dget (active_keys st1) identity \<noteq> None \<and> dget (active_keys st1) identity \<noteq> Some i
            then (Inl (raise_reason CONFLICT ''workflow_step_mismatch''),
                  put_workflow (w'\<lparr>fw_steps := ddel s (fw_steps w')\<rparr>)
                    (st1\<lparr>jobs := ddel i (jobs st1), order := remove1 i (order st1)\<rparr>))
            else record_enqueue job c CREATED (set_key (Some identity) i st1))"

definition enqueue_member :: "uuid_source \<Rightarrow> enqueue_command \<Rightarrow> fake \<Rightarrow> enqueue_result res" where
  "enqueue_member us c st = (case (ec_workflow_id c, ec_step_key c) of
      (Some wid, Some s) \<Rightarrow> (case dget (workflows st) wid of
          None \<Rightarrow> (Inl (raise_code NOT_FOUND), st)
        | Some w \<Rightarrow>
            if ec_queue c \<notin> set (fw_queues w)
            then (Inl (raise_reason VALIDATION ''workflow_queue_not_declared''), st)
            else case dget (fw_steps w) s of
              Some existing_id \<Rightarrow> (case dget (jobs st) existing_id of
                  None \<Rightarrow> (Inl PyKeyError, st)
                | Some existing \<Rightarrow>
                    if \<not> identity_eq (fj_command existing) c
                    then (Inl (raise_reason CONFLICT ''workflow_step_mismatch''), st)
                    else record_enqueue existing c EXISTED st)
            | None \<Rightarrow>
                if fw_sealed w \<or> fw_cancel_requested w
                then (Inl (raise_reason CONFLICT ''workflow_sealed''), st)
                else if (case fw_member_limit w of None \<Rightarrow> False | Some l \<Rightarrow> fw_admitted_total w \<ge> l)
                then (Inl (raise_reason CONFLICT ''workflow_member_limit_exceeded''), st)
                else case traverse (check_parent (jobs st) wid)
                    (case ec_depends_on c of None \<Rightarrow> [] | Some d \<Rightarrow> d) of
                  Inl e \<Rightarrow> (Inl e, st)
                | Inr parents \<Rightarrow>
                    insert_member (us (drawn st)) c s w
                      (if list_ex (\<lambda>p. fj_status p \<noteq> SUCCEEDED) parents then BLOCKED else QUEUED)
                      (draw st))
    | _ \<Rightarrow> (Inl (PyAssertionError ''workflow_id and step_key are not None''), st))"

definition enqueue :: "uuid_source \<Rightarrow> enqueue_command \<Rightarrow> fake \<Rightarrow> enqueue_result res" where
  "enqueue us c st = ensure_open st
     (if ec_workflow_id c \<noteq> None then enqueue_member us c st else enqueue_plain us c st)"

fun enqueue_many ::
  "uuid_source \<Rightarrow> string \<Rightarrow> enqueue_many_item list \<Rightarrow> fake \<Rightarrow> enqueue_result list res" where
  "enqueue_many us queue [] st = (Inr [], st)"
| "enqueue_many us queue (item # items) st =
     (case enqueue_command_init (command_of_item queue item) of
       Inl e \<Rightarrow> (Inl e, st)
     | Inr c \<Rightarrow> rbind (enqueue us c st) (\<lambda>r st1.
         rbind (enqueue_many us queue items st1) (\<lambda>rs st2. (Inr (r # rs), st2))))"


section \<open>Adding a job\<close>

text \<open>
  A new queued or blocked job: fresh id, no attempt, parents of its own workflow that can still
  succeed, a free idempotency key, and a free step when it is a member.
\<close>

definition addable :: "fake \<Rightarrow> fake_job \<Rightarrow> bool" where
  "addable st j \<longleftrightarrow>
     dget (jobs st) (fj_job_id j) = None \<and> job_ok j \<and> fj_attempt_id j = None \<and>
     parent_ok (jobs st) j \<and>
     (\<forall>d \<in> set (deps j). \<exists>p. dget (jobs st) d = Some p \<and> job_workflow p = job_workflow j) \<and>
     (fj_status j = QUEUED \<and> (\<forall>d \<in> set (deps j). succeeded (jobs st) d) \<or>
      fj_status j = BLOCKED \<and> (\<exists>d \<in> set (deps j). \<not> succeeded (jobs st) d) \<and>
        (\<forall>d \<in> set (deps j). \<not> dead (jobs st) d)) \<and>
     (\<forall>q. job_key j = Some q \<longrightarrow> dget (active_keys st) q = None)"

definition add_member :: "fake_job \<Rightarrow> (uuid, fake_workflow) dict \<Rightarrow> (uuid, fake_workflow) dict" where
  "add_member j ws = (case (job_workflow j, ec_step_key (fj_command j)) of
      (Some wid, Some s) \<Rightarrow> (case dget ws wid of
          None \<Rightarrow> ws | Some w \<Rightarrow> dset wid (set_step s (fj_job_id j) w) ws)
    | _ \<Rightarrow> ws)"

definition member_room :: "(uuid, fake_workflow) dict \<Rightarrow> fake_job \<Rightarrow> bool" where
  "member_room ws j \<longleftrightarrow> (case job_workflow j of
      None \<Rightarrow> ec_step_key (fj_command j) = None
    | Some wid \<Rightarrow> (\<exists>w s. dget ws wid = Some w \<and> ec_step_key (fj_command j) = Some s \<and>
        dget (fw_steps w) s = None \<and>
        (\<forall>l. fw_member_limit w = Some l \<longrightarrow> fw_admitted_total w < l)))"

lemma add_job_ids:
  assumes ids: "ids_inv us n js ord ws" and i: "dget js i = None" "fj_job_id j = i" "fj_attempt_id j = None"
    and m: "n \<le> m" "inj_on us {..<m}" "i \<in> us ` {..<m}" and ws: "dkeys ws' = dkeys ws"
  shows "ids_inv us m (dset i j js) (ord @ [i]) ws'"
proof -
  have sub: "us ` {..<n} \<subseteq> us ` {..<m}" using m(1) by auto
  have new: "i \<notin> set (dkeys js)" using i(1) by (simp add: map_of_eq_None_iff)
  have k: "dkeys (dset i j js) = dkeys js @ [i]" using i(1) by simp
  have "ids_match (dset i j js)" using ids i(2) by (simp add: ids_inv_def)
  moreover have "a \<in> us ` {..<m}" if "dget (dset i j js) k = Some c" "fj_attempt_id c = Some a" for k c a
    using ids that i(3) sub unfolding ids_inv_def by (auto split: if_splits)
  ultimately show ?thesis
    using ids m sub new unfolding ids_inv_def k ws by auto
qed

lemma add_job_dag:
  assumes dag: "dag_inv js" and i: "dget js i = None"
    and par: "\<forall>d \<in> set (deps j). \<exists>p. dget js d = Some p \<and> job_workflow p = job_workflow j"
    and s: "fj_status j = QUEUED \<and> (\<forall>d \<in> set (deps j). succeeded js d) \<or>
      fj_status j = BLOCKED \<and> (\<exists>d \<in> set (deps j). \<not> succeeded js d) \<and>
        (\<forall>d \<in> set (deps j). \<not> dead js d)"
  shows "dag_inv (dset i j js)"
  unfolding dag_inv_def
proof (intro allI impI)
  let ?js = "dset i j js"
  have k: "dkeys ?js = dkeys js @ [i]" using i by simp
  have same: "succeeded ?js d = succeeded js d" "dead ?js d = dead js d" "d \<noteq> i" "d \<in> set (dkeys js)"
    if "dget js d = Some p" for d p
    using that i dget_Some_key [OF that] by (auto simp: succeeded_def dead_def)
  fix a c assume c: "dget ?js a = Some c"
  have par': "\<exists>p. dget js d = Some p \<and> job_workflow p = job_workflow c" if "d \<in> set (deps c)" for d
    using c par dep_parent [OF dag] that by (cases "a = i") auto
  have pos: "position (dkeys ?js) d < position (dkeys ?js) a" if d: "d \<in> set (deps c)" for d
  proof -
    obtain p where p: "dget js d = Some p" using par' [OF d] by blast
    then have dk: "d \<in> set (dkeys js)" by (rule dget_Some_key)
    show ?thesis
    proof (cases "a = i")
      case True
      have "i \<notin> set (dkeys js)" using i by (simp add: map_of_eq_None_iff)
      then show ?thesis
        using True k dk position_less [OF dk] by (simp add: position_append position_new)
    next
      case False
      then have a: "dget js a = Some c" using c by simp
      have "position (dkeys js) d < position (dkeys js) a"
        using dag_invD [OF dag a] d by (simp add: dep_ok_def)
      then show ?thesis using dk dget_Some_key [OF a] unfolding k by (simp add: position_append)
    qed
  qed
  have eq: "succeeded ?js d = succeeded js d \<and> dead ?js d = dead js d" if d: "d \<in> set (deps c)" for d
    using par' [OF d] same by blast
  have ex: "\<exists>p. dget ?js d = Some p \<and> job_workflow p = job_workflow c" if d: "d \<in> set (deps c)" for d
    using par' [OF d] same(3) by auto
  have st: "(fj_status c \<noteq> BLOCKED \<and> fj_status c \<noteq> CANCELLED \<longrightarrow> (\<forall>d \<in> set (deps c). succeeded js d)) \<and>
      (fj_status c = BLOCKED \<longrightarrow>
        (\<exists>d \<in> set (deps c). \<not> succeeded js d) \<and> (\<forall>d \<in> set (deps c). \<not> dead js d))"
    using c s dag_invD [OF dag, of a c] by (cases "a = i") (auto simp: dep_ok_def)
  show "dep_ok ?js a c" using pos ex st eq unfolding dep_ok_def by blast
qed

lemma add_job_keys:
  assumes keys: "keys_inv js ks" and i: "dget js i = None"
    and free: "\<And>q. job_key j = Some q \<Longrightarrow> dget ks q = None"
    and ks': "\<And>q. dget ks' q = (if job_key j = Some q then Some i else dget ks q)"
  shows "keys_inv (dset i j js) ks'"
proof -
  have "dget ks q \<noteq> Some i" for q using keys_inv_owner [OF keys] i by fastforce
  moreover have "dget ks' q = Some a" if a: "a \<noteq> i" "dget js a = Some c" "live_status (fj_status c)"
      "job_key c = Some q" for a c q
    using keys_inv_live [OF keys a(2-4)] free [of q] ks' [of q] by auto
  ultimately show ?thesis
    using keys ks' unfolding keys_inv_def by (auto split: if_splits)
qed

lemma add_job_workflows:
  assumes inv: "workflows_inv js ws names" and i: "dget js i = None" "fj_job_id j = i"
    and room: "member_room ws j" and par: "parent_ok js j"
    and js: "js' = dset i j js"
  shows "workflows_inv js' (add_member j ws) names" and "workflows_evolve ws (add_member j ws)"
    and "dkeys (add_member j ws) = dkeys ws"
proof -
  have wok: "\<And>wid w. dget ws wid = Some w \<Longrightarrow> workflow_ok js wid w"
    and mok: "\<And>k c. dget js k = Some c \<Longrightarrow> member_ok ws c \<and> parent_ok js c"
    and nok: "\<And>key wid. dget names key = Some wid \<Longrightarrow>
        \<exists>w. dget ws wid = Some w \<and> fw_workflow_key w = key"
    using inv unfolding workflows_inv_def by blast+
  have succ: "succeeded js' d" if "succeeded js d" for d
    using that i(1) by (auto simp: succeeded_def js split: option.splits)
  have par': "parent_ok js' c" if "parent_ok js c" for c
    using that succ unfolding parent_ok_def by (auto split: option.splits)
  have wok': "workflow_ok js' wid w" if ok: "workflow_ok js wid w" for wid w
  proof -
    have "dget js' k = Some c" if "dget js k = Some c" for k c using that i(1) by (auto simp: js)
    then show ?thesis using ok unfolding workflow_ok_def by blast
  qed
  show "workflows_evolve ws (add_member j ws)" "dkeys (add_member j ws) = dkeys ws"
    "workflows_inv js' (add_member j ws) names"
  proof (atomize (full), cases "job_workflow j")
    case None
    then have ws: "add_member j ws = ws" and "member_ok ws j"
      using room by (auto simp: add_member_def member_room_def member_ok_def)
    moreover have "workflows_inv js' ws names"
      unfolding workflows_inv_def
      using wok wok' mok par' nok par \<open>member_ok ws j\<close> by (auto simp: js split: if_splits)
    ultimately show "workflows_evolve ws (add_member j ws) \<and> dkeys (add_member j ws) = dkeys ws \<and>
        workflows_inv js' (add_member j ws) names" by simp
  next
    case (Some wid)
    obtain w s where w: "dget ws wid = Some w" "ec_step_key (fj_command j) = Some s"
        "dget (fw_steps w) s = None" "\<And>l. fw_member_limit w = Some l \<Longrightarrow> fw_admitted_total w < l"
      using room Some by (auto simp: member_room_def)
    let ?w = "set_step s i w"
    have ws: "add_member j ws = dset wid ?w ws" using Some w i by (simp add: add_member_def)
    note ok = wok [OF w(1)]
    have steps: "fw_steps ?w = fw_steps w @ [(s, i)]"
      using dset_absent [OF w(3)] by (simp add: set_step_def)
    have "workflow_ok js' wid ?w"
      unfolding workflow_ok_def
    proof (intro conjI allI impI)
      show "fw_workflow_id ?w = wid" using ok by (simp add: workflow_ok_def set_step_def)
      show "distinct (dkeys (fw_steps ?w))"
        using ok w(3) unfolding steps by (auto simp: workflow_ok_def map_of_eq_None_iff)
      show "int (length (fw_steps ?w)) \<le> fw_admitted_total ?w"
        using ok unfolding steps by (simp add: workflow_ok_def set_step_def)
      show "fw_admitted_total ?w \<le> l" if "fw_member_limit ?w = Some l" for l
        using w(4) [of l] that by (simp add: set_step_def)
      show "fw_cancel_requested ?w \<Longrightarrow> fw_sealed ?w" using ok by (simp add: workflow_ok_def set_step_def)
      fix t k assume "dget (fw_steps ?w) t = Some k"
      then have "t = s \<and> k = i \<or> dget (fw_steps w) t = Some k" by (auto simp: set_step_def split: if_splits)
      moreover have "\<exists>c. dget js' k = Some c \<and> job_workflow c = Some wid \<and>
          ec_step_key (fj_command c) = Some t" if "dget (fw_steps w) t = Some k"
        using wok' [OF ok] that unfolding workflow_ok_def by blast
      moreover have "dget js' i = Some j" by (simp add: js)
      ultimately show "\<exists>c. dget js' k = Some c \<and> job_workflow c = Some wid \<and>
          ec_step_key (fj_command c) = Some t"
        using Some w(2) by blast
    qed
    moreover have "member_ok (dset wid ?w ws) c" if "member_ok ws c" for c
      using that w unfolding member_ok_def by (auto simp: set_step_def split: option.splits)
    moreover have "member_ok (dset wid ?w ws) j"
      using Some w i by (simp add: member_ok_def set_step_def)
    moreover have "\<exists>v. dget (dset wid ?w ws) k = Some v \<and> fw_workflow_key v = key"
      if "dget names key = Some k" for key k
      using nok [OF that] w(1) by (auto simp: set_step_def)
    ultimately have inv': "workflows_inv js' (dset wid ?w ws) names"
      unfolding workflows_inv_def
      using wok wok' mok par' par by (auto simp: js split: if_splits)
    have "workflow_evolves w ?w" using w by (simp add: workflow_evolves_def set_step_def)
    then have "workflows_evolve ws (dset wid ?w ws)" by (rule workflows_evolve_put [OF w(1)])
    then show "workflows_evolve ws (add_member j ws) \<and> dkeys (add_member j ws) = dkeys ws \<and>
        workflows_inv js' (add_member j ws) names"
      using inv' w(1) unfolding ws by simp
  qed
qed


lemma add_job_inv:
  assumes inv: "fake_inv us st" and add: "addable st j" and room: "member_room (workflows st) j"
    and m: "drawn st \<le> drawn st'" "inj_on us {..<drawn st'}" "fj_job_id j \<in> us ` {..<drawn st'}"
    and st': "jobs st' = dset (fj_job_id j) j (jobs st)" "order st' = order st @ [fj_job_id j]"
      "workflows st' = add_member j (workflows st)" "workflow_keys st' = workflow_keys st"
      "known_queues st \<subseteq> known_queues st'"
      "\<And>q. dget (active_keys st') q =
         (if job_key j = Some q then Some (fj_job_id j) else dget (active_keys st) q)"
  shows "fake_inv us st' \<and> evolves us st st'"
proof -
  have parts: "ids_inv us (drawn st) (jobs st) (order st) (workflows st)" "jobs_ok (jobs st)"
    "dag_inv (jobs st)" "keys_inv (jobs st) (active_keys st)"
    "workflows_inv (jobs st) (workflows st) (workflow_keys st)"
    using inv by (simp_all add: fake_inv_def)
  have a: "dget (jobs st) (fj_job_id j) = None" "job_ok j" "fj_attempt_id j = None"
    "parent_ok (jobs st) j" "\<And>q. job_key j = Some q \<Longrightarrow> dget (active_keys st) q = None"
    using add by (simp_all add: addable_def)
  note wf = add_job_workflows [OF parts(5) a(1) refl room a(4) st'(1)]
  have "ids_inv us (drawn st') (jobs st') (order st') (workflows st')"
    unfolding st' by (rule add_job_ids [OF parts(1) a(1) refl a(3) m wf(3)])
  moreover have "jobs_ok (jobs st')"
    using parts(2) a(2) by (auto simp: jobs_ok_def st')
  moreover have "dag_inv (jobs st')"
    unfolding st'(1) by (rule add_job_dag [OF parts(3) a(1)]) (use add in \<open>simp_all add: addable_def\<close>)
  moreover have "keys_inv (jobs st') (active_keys st')"
    unfolding st'(1) by (rule add_job_keys [OF parts(4) a(1) a(5) st'(6)])
  ultimately have "fake_inv us st'" using wf(1) by (simp add: fake_inv_def st'(3,4))
  moreover have "jobs_evolve us (drawn st) (drawn st') (jobs st) (jobs st')"
    unfolding st'(1) by (rule jobs_evolve_add [OF a(1)])
  ultimately show ?thesis using wf(2) m(1) st'(3,5) by (simp add: evolves_def)
qed

section \<open>The producer paths keep the invariant\<close>

lemma log_enqueue_fields [simp]:
  "jobs (log_enqueue j c s st) = jobs st" "order (log_enqueue j c s st) = order st"
  "active_keys (log_enqueue j c s st) = active_keys st"
  "workflows (log_enqueue j c s st) = workflows st"
  "workflow_keys (log_enqueue j c s st) = workflow_keys st" "drawn (log_enqueue j c s st) = drawn st"
  "known_queues (log_enqueue j c s st) = known_queues st" "closed (log_enqueue j c s st) = closed st"
  by (simp_all add: log_enqueue_def)

lemma set_key_fields [simp]:
  "jobs (set_key k i st) = jobs st" "order (set_key k i st) = order st"
  "workflows (set_key k i st) = workflows st" "workflow_keys (set_key k i st) = workflow_keys st"
  "drawn (set_key k i st) = drawn st" "known_queues (set_key k i st) = known_queues st"
  "closed (set_key k i st) = closed st"
  by (simp_all add: set_key_def split: option.splits)

lemma set_key_dget:
  "dget (active_keys (set_key k i st)) q = (if k = Some q then Some i else dget (active_keys st) q)"
  by (auto simp: set_key_def split: option.splits)

lemma fake_inv_log [simp]: "fake_inv us (log_enqueue j c s st) = fake_inv us st"
  by (simp add: fake_inv_def)

lemma record_enqueue_sound:
  "fake_inv us st' \<Longrightarrow> evolves us st st' \<Longrightarrow> sound us st (record_enqueue j c s st')"
  by (simp add: record_enqueue_def sound_def evolves_def)

lemma fake_inv_fields:
  assumes "fake_inv us st" and "jobs st' = jobs st" "order st' = order st"
    "active_keys st' = active_keys st" "workflows st' = workflows st"
    "workflow_keys st' = workflow_keys st" "drawn st' = drawn st"
  shows "fake_inv us st'"
  using assms by (simp add: fake_inv_def)

lemma deps_new [simp]: "deps (new_fake_job i c s) = (case ec_depends_on c of None \<Rightarrow> [] | Some d \<Rightarrow> d)"
  and job_workflow_new [simp]: "job_workflow (new_fake_job i c s) = ec_workflow_id c"
  and job_key_new [simp]: "job_key (new_fake_job i c s) = command_key c"
  by (simp_all add: new_fake_job_def deps_def job_workflow_def job_key_def command_key_def)

lemma new_job_fields [simp]:
  "fj_job_id (new_fake_job i c s) = i" "fj_status (new_fake_job i c s) = s"
  "fj_command (new_fake_job i c s) = c" "fj_attempt_id (new_fake_job i c s) = None"
  "fj_parent_job_id (new_fake_job i c s) = None"
  by (simp_all add: new_fake_job_def)

lemma valid_no_workflow:
  "enqueue_command_valid c \<Longrightarrow> ec_workflow_id c = None \<Longrightarrow>
   ec_step_key c = None \<and> (ec_depends_on c = None \<or> ec_depends_on c = Some [])"
  by (auto simp: enqueue_command_valid_def)

lemma enqueue_plain_sound:
  assumes inv: "fake_inv us st" and c: "enqueue_command_valid c" "ec_workflow_id c = None"
    and dr: "inj_on us {..<drawn (snd (enqueue_plain us c st))}"
  shows "sound us st (enqueue_plain us c st)"
proof (cases "Option.bind (command_key c) (dget (active_keys st))")
  case (Some existing)
  then show ?thesis
    using inv by (auto simp: enqueue_plain_def split: option.splits intro!: record_enqueue_sound)
next
  case None
  let ?i = "us (drawn st)"
  let ?job = "new_fake_job ?i c QUEUED"
  let ?st' = "set_key (command_key c) ?i (add_queue (ec_queue c) (insert_job ?job (draw st)))"
  have r: "enqueue_plain us c st = record_enqueue ?job c CREATED ?st'"
    using None by (simp add: enqueue_plain_def Let_def)
  have dr': "inj_on us {..<Suc (drawn st)}"
    using dr unfolding r
    by (simp add: record_enqueue_def add_queue_def insert_job_def draw_def)
  have ids: "ids_inv us (drawn st) (jobs st) (order st) (workflows st)"
    using inv by (simp add: fake_inv_def)
  note v = valid_no_workflow [OF c]
  have add: "addable st ?job"
    using fresh_draw(1) [OF ids dr'] v None c(2)
    by (auto simp: addable_def job_ok_def parent_ok_def new_fake_job_def job_workflow_def deps_def
        job_key_def command_key_def)
  have room: "member_room (workflows st) ?job" using v c(2) by (simp add: member_room_def)
  have "fake_inv us ?st' \<and> evolves us st ?st'"
    by (rule add_job_inv [OF inv add room])
      (auto simp: dr' insert_job_def draw_def add_queue_def add_member_def c(2) set_key_dget)
  then show ?thesis unfolding r by (simp add: record_enqueue_sound)
qed


lemma check_parent_Inr:
  "check_parent js wid d = Inr p \<Longrightarrow>
   dget js d = Some p \<and> job_workflow p = Some wid \<and> \<not> dead js d \<and>
   succeeded js d = (fj_status p = SUCCEEDED)"
  by (auto simp: check_parent_def dead_def succeeded_def split: option.splits if_splits)

lemma check_parents:
  "traverse (check_parent js wid) ds = Inr ps \<Longrightarrow>
   (\<forall>d \<in> set ds. \<exists>p. dget js d = Some p \<and> job_workflow p = Some wid \<and> \<not> dead js d) \<and>
   list_ex (\<lambda>p. fj_status p \<noteq> SUCCEEDED) ps = (\<exists>d \<in> set ds. \<not> succeeded js d)"
proof (induction ds arbitrary: ps)
  case (Cons d ds)
  then obtain p qs where p: "check_parent js wid d = Inr p" "traverse (check_parent js wid) ds = Inr qs"
    "ps = p # qs" by (auto simp: ebind_Inr_iff)
  then show ?case using Cons.IH [OF p(2)] check_parent_Inr [OF p(1)] by auto
qed simp

lemma put_workflow_fields:
  "jobs (put_workflow w st) = jobs st" "order (put_workflow w st) = order st"
  "active_keys (put_workflow w st) = active_keys st"
  "workflows (put_workflow w st) = dset (fw_workflow_id w) w (workflows st)"
  "workflow_keys (put_workflow w st) = workflow_keys st" "drawn (put_workflow w st) = drawn st"
  "known_queues (put_workflow w st) = known_queues st"
  by (simp_all add: put_workflow_def)

text \<open>The collision branch: the member is taken back, but it stays counted.\<close>

lemma uncounted_inv:
  assumes inv: "fake_inv us st" and w: "dget (workflows st) wid = Some w"
    and room: "\<And>l. fw_member_limit w = Some l \<Longrightarrow> fw_admitted_total w < l"
    and st': "jobs st' = jobs st" "order st' = order st" "active_keys st' = active_keys st"
      "workflow_keys st' = workflow_keys st" "known_queues st \<subseteq> known_queues st'"
      "drawn st' = Suc (drawn st)"
      "workflows st' = dset wid (w\<lparr>fw_admitted_total := fw_admitted_total w + 1\<rparr>) (workflows st)"
    and dr: "inj_on us {..<Suc (drawn st)}"
  shows "fake_inv us st' \<and> evolves us st st'"
proof -
  let ?w = "w\<lparr>fw_admitted_total := fw_admitted_total w + 1\<rparr>"
  have parts: "ids_inv us (drawn st) (jobs st) (order st) (workflows st)"
    "workflows_inv (jobs st) (workflows st) (workflow_keys st)"
    using inv by (simp_all add: fake_inv_def)
  have sub: "us ` {..<drawn st} \<subseteq> us ` {..<Suc (drawn st)}" by auto
  have keys: "dkeys (dset wid ?w (workflows st)) = dkeys (workflows st)" using w by simp
  have ids: "ids_inv us (Suc (drawn st)) (jobs st) (order st) (dset wid ?w (workflows st))"
    using parts(1) sub dr unfolding ids_inv_def keys by blast
  have "workflow_ok (jobs st) wid w" using parts(2) w unfolding workflows_inv_def by blast
  then have ok: "workflow_ok (jobs st) wid ?w" using room by (fastforce simp: workflow_ok_def)
  have "workflows_inv (jobs st) (dset wid ?w (workflows st)) (workflow_keys st)"
    by (rule workflows_inv_write [OF parts(2) w ok]) simp_all
  moreover have "workflows_evolve (workflows st) (dset wid ?w (workflows st))"
    by (rule workflows_evolve_put [OF w]) (simp add: workflow_evolves_def)
  ultimately show ?thesis using inv ids st' by (simp add: fake_inv_def evolves_def)
qed

lemma insert_member_sound:
  assumes inv: "fake_inv us st" and c: "enqueue_command_valid c" "ec_workflow_id c = Some wid"
      "ec_step_key c = Some s"
    and w: "dget (workflows st) wid = Some w" "dget (fw_steps w) s = None"
      "\<And>l. fw_member_limit w = Some l \<Longrightarrow> fw_admitted_total w < l"
    and par: "\<forall>d \<in> set (case ec_depends_on c of None \<Rightarrow> [] | Some d \<Rightarrow> d).
      \<exists>p. dget (jobs st) d = Some p \<and> job_workflow p = Some wid \<and> \<not> dead (jobs st) d"
    and status: "status = (if \<exists>d \<in> set (case ec_depends_on c of None \<Rightarrow> [] | Some d \<Rightarrow> d).
      \<not> succeeded (jobs st) d then BLOCKED else QUEUED)"
    and dr: "inj_on us {..<Suc (drawn st)}"
  shows "sound us st (insert_member (us (drawn st)) c s w status (draw st))"
proof -
  let ?i = "us (drawn st)"
  let ?job = "(new_fake_job ?i c status)\<lparr>fj_policy_hash := fw_policy_hash w\<rparr>"
  let ?w = "set_step s ?i w"
  let ?st1 = "add_queue (ec_queue c) (put_workflow ?w (insert_job ?job (draw st)))"
  have ids: "ids_inv us (drawn st) (jobs st) (order st) (workflows st)"
    using inv by (simp add: fake_inv_def)
  note fr = fresh_draw [OF ids dr]
  have jf: "fj_job_id ?job = ?i" "job_workflow ?job = Some wid" "job_key ?job = command_key c"
      "deps ?job = (case ec_depends_on c of None \<Rightarrow> [] | Some d \<Rightarrow> d)" "fj_status ?job = status"
      "fj_command ?job = c" "fj_attempt_id ?job = None" "fj_parent_job_id ?job = None"
    using c by (simp_all add: new_fake_job_def job_workflow_def deps_def job_key_def command_key_def)
  have wid: "fw_workflow_id ?w = wid"
    using inv w(1) unfolding fake_inv_def workflows_inv_def workflow_ok_def set_step_def by auto
  have f1: "jobs ?st1 = dset ?i ?job (jobs st)" "order ?st1 = order st @ [?i]"
      "workflows ?st1 = dset wid ?w (workflows st)" "workflow_keys ?st1 = workflow_keys st"
      "active_keys ?st1 = active_keys st" "drawn ?st1 = Suc (drawn st)"
      "known_queues ?st1 = insert (ec_queue c) (known_queues st)"
    using wid by (simp_all add: add_queue_def put_workflow_def insert_job_def draw_def jf)
  have member: "add_member ?job (workflows st) = dset wid ?w (workflows st)"
    using c w by (simp add: add_member_def jf)
  have room: "member_room (workflows st) ?job" using c w by (simp add: member_room_def jf)
  have step: "step_name s" using c by (simp add: enqueue_command_valid_def)
  have ok: "job_ok ?job" unfolding job_ok_def jf by (simp add: new_fake_job_def status)
  have status': "status = QUEUED \<and> (\<forall>d \<in> set (deps ?job). succeeded (jobs st) d) \<or>
      status = BLOCKED \<and> (\<exists>d \<in> set (deps ?job). \<not> succeeded (jobs st) d) \<and>
        (\<forall>d \<in> set (deps ?job). \<not> dead (jobs st) d)"
    using par unfolding jf by (auto simp: status)
  have base: "fake_inv us st' \<and> evolves us st st'"
    if free: "\<And>q. command_key c = Some q \<Longrightarrow> dget (active_keys st) q = None"
      and st': "st' = set_key (command_key c) ?i ?st1" for st'
  proof (rule add_job_inv [OF inv _ room])
    show "addable st ?job"
      unfolding addable_def jf using fr(1) ok par free status' step c(3) unfolding jf
      by (auto simp: parent_ok_def jf)
    show "dget (active_keys st') q = (if job_key ?job = Some q then Some (fj_job_id ?job)
        else dget (active_keys st) q)" for q
      unfolding st' set_key_dget jf f1 by simp
  qed (use dr member in \<open>auto simp: st' f1 jf\<close>)
  show ?thesis
  proof (cases "command_key c")
    case None
    have "fake_inv us ?st1 \<and> evolves us st ?st1" using base [of ?st1] None by (simp add: set_key_def)
    then show ?thesis
      using None by (simp add: insert_member_def Let_def record_enqueue_sound jf)
  next
    case (Some q)
    show ?thesis
    proof (cases "dget (active_keys st) q")
      case None
      then have "fake_inv us (set_key (Some q) ?i ?st1) \<and> evolves us st (set_key (Some q) ?i ?st1)"
        using base [of "set_key (Some q) ?i ?st1"] Some by simp
      then show ?thesis
        using Some None f1(5) by (simp add: insert_member_def Let_def record_enqueue_sound jf)
    next
      case coll: (Some k)
      have "k \<noteq> ?i"
        using keys_inv_owner [of "jobs st" "active_keys st" q k] inv coll fr(1)
        by (auto simp: fake_inv_def)
      let ?u = "w\<lparr>fw_admitted_total := fw_admitted_total w + 1\<rparr>"
      let ?st2 = "put_workflow (?w\<lparr>fw_steps := ddel s (fw_steps ?w)\<rparr>)
        (?st1\<lparr>jobs := ddel ?i (jobs ?st1), order := remove1 ?i (order ?st1)\<rparr>)"
      have r: "insert_member ?i c s w status (draw st) =
          (Inl (raise_reason CONFLICT ''workflow_step_mismatch''), ?st2)"
        using Some coll \<open>k \<noteq> ?i\<close> f1(5) by (simp add: insert_member_def Let_def)
      have undo: "?w\<lparr>fw_steps := ddel s (fw_steps ?w)\<rparr> = ?u"
        using ddel_dset_fresh [OF w(2)] by (simp add: set_step_def)
      have ni: "?i \<notin> set (order st)" using ids fr(1) by (auto simp: ids_inv_def map_of_eq_None_iff)
      have wid': "fw_workflow_id ?u = wid" using wid by (simp add: set_step_def)
      have dd: "dset wid ?u (dset wid ?w (workflows st)) = dset wid ?u (workflows st)"
        by simp
      have "fake_inv us ?st2 \<and> evolves us st ?st2"
        by (rule uncounted_inv [OF inv w(1,3) _ _ _ _ _ _ _ dr])
          (use wid' ddel_dset_fresh [OF fr(1)] ni dd
            in \<open>auto simp: undo put_workflow_fields f1 remove1_append\<close>)
      then show ?thesis unfolding r by (simp add: sound_def)
    qed
  qed
qed


lemma draw_fields [simp]:
  "jobs (draw st) = jobs st" "order (draw st) = order st" "active_keys (draw st) = active_keys st"
  "workflows (draw st) = workflows st" "workflow_keys (draw st) = workflow_keys st"
  "drawn (draw st) = Suc (drawn st)" "known_queues (draw st) = known_queues st"
  by (simp_all add: draw_def)

lemma insert_member_drawn [simp]: "drawn (snd (insert_member i c s w status st)) = drawn st"
  by (simp add: insert_member_def Let_def record_enqueue_def add_queue_def put_workflow_def
      insert_job_def split: option.splits)

text \<open>An enqueue draws at most once, and exactly when it has decided to create a job.\<close>

lemma enqueue_drawn:
  "drawn (snd (enqueue us c st)) = drawn st \<or> drawn (snd (enqueue us c st)) = Suc (drawn st)"
  by (auto simp: enqueue_def ensure_open_def enqueue_member_def enqueue_plain_def Let_def
      record_enqueue_def add_queue_def insert_job_def split: option.splits sum.splits)

lemma enqueue_drawn_mono: "drawn st \<le> drawn (snd (enqueue us c st))"
  using enqueue_drawn [of us c st] by auto

lemma enqueue_member_sound:
  assumes inv: "fake_inv us st" and c: "enqueue_command_valid c"
    and dr: "inj_on us {..<drawn (snd (enqueue_member us c st))}"
  shows "sound us st (enqueue_member us c st)"
proof (cases "ec_workflow_id c")
  case None
  then show ?thesis using inv by (simp add: enqueue_member_def)
next
  case (Some wid)
  obtain s where s: "ec_step_key c = Some s" using c Some by (auto simp: enqueue_command_valid_def)
  show ?thesis
  proof (cases "\<exists>w ps. dget (workflows st) wid = Some w \<and> ec_queue c \<in> set (fw_queues w) \<and>
      dget (fw_steps w) s = None \<and> \<not> (fw_sealed w \<or> fw_cancel_requested w) \<and>
      \<not> (case fw_member_limit w of None \<Rightarrow> False | Some l \<Rightarrow> fw_admitted_total w \<ge> l) \<and>
      traverse (check_parent (jobs st) wid) (case ec_depends_on c of None \<Rightarrow> [] | Some d \<Rightarrow> d) = Inr ps")
    case True
    then obtain w ps where w: "dget (workflows st) wid = Some w" "dget (fw_steps w) s = None"
        "\<not> (case fw_member_limit w of None \<Rightarrow> False | Some l \<Rightarrow> fw_admitted_total w \<ge> l)"
      and p: "traverse (check_parent (jobs st) wid)
        (case ec_depends_on c of None \<Rightarrow> [] | Some d \<Rightarrow> d) = Inr ps"
      and g: "ec_queue c \<in> set (fw_queues w)" "\<not> (fw_sealed w \<or> fw_cancel_requested w)"
      by blast
    note pars = check_parents [OF p]
    let ?status = "if list_ex (\<lambda>p. fj_status p \<noteq> SUCCEEDED) ps then BLOCKED else QUEUED"
    have r: "enqueue_member us c st = insert_member (us (drawn st)) c s w ?status (draw st)"
      using Some s w p g by (simp add: enqueue_member_def)
    have "inj_on us {..<Suc (drawn st)}" using dr unfolding r by simp
    then have "sound us st (insert_member (us (drawn st)) c s w ?status (draw st))"
      by (intro insert_member_sound [OF inv c Some s w(1,2) _ conjunct1 [OF pars]])
        (use w(3) conjunct2 [OF pars] in \<open>auto simp: not_le\<close>)
    then show ?thesis unfolding r .
  next
    case False
    then show ?thesis
      using inv Some s unfolding enqueue_member_def
      by (auto split: option.splits sum.splits intro!: record_enqueue_sound)
  qed
qed

lemma enqueue_sound [wf_rules]:
  assumes inv: "fake_inv us st" and c: "enqueue_command_valid c"
    and dr: "inj_on us {..<drawn (snd (enqueue us c st))}"
  shows "sound us st (enqueue us c st)"
  using enqueue_member_sound [OF inv c] enqueue_plain_sound [OF inv c] dr inv
  by (auto simp: enqueue_def ensure_open_def)

lemma enqueue_many_drawn_mono: "drawn st \<le> drawn (snd (enqueue_many us q items st))"
proof (induction items arbitrary: st)
  case (Cons i items)
  show ?case
  proof (cases "enqueue_command_init (command_of_item q i)")
    case (Inr c)
    obtain r st1 where r: "enqueue us c st = (r, st1)" by (cases rule: prod.exhaust)
    have m: "drawn st \<le> drawn st1" using enqueue_drawn_mono [of st us c] r by simp
    show ?thesis
    proof (cases r)
      case (Inr x)
      obtain rs st2 where rs: "enqueue_many us q items st1 = (rs, st2)" by (cases rule: prod.exhaust)
      have "drawn st1 \<le> drawn st2" using Cons [of st1] rs by simp
      then show ?thesis using m r rs Inr \<open>enqueue_command_init (command_of_item q i) = Inr c\<close>
        by (cases rs) simp_all
    qed (use m r Inr in simp)
  qed simp
qed simp

lemma enqueue_many_sound [wf_rules]:
  assumes "fake_inv us st" and "inj_on us {..<drawn (snd (enqueue_many us q items st))}"
  shows "sound us st (enqueue_many us q items st)"
  using assms
proof (induction items arbitrary: st)
  case (Cons i items)
  show ?case
  proof (cases "enqueue_command_init (command_of_item q i)")
    case c: (Inr c)
    have valid: "enqueue_command_valid c" using c by (auto simp: enqueue_command_init_def split: if_splits)
    obtain r st1 where r: "enqueue us c st = (r, st1)" by (cases rule: prod.exhaust)
    obtain rs st2 where rs: "enqueue_many us q items st1 = (rs, st2)" by (cases rule: prod.exhaust)
    have m: "drawn st1 \<le> drawn st2" using enqueue_many_drawn_mono [of st1 us q items] rs by simp
    have all: "enqueue_many us q (i # items) st = (case r of Inl e \<Rightarrow> (Inl e, st1)
        | Inr x \<Rightarrow> (case rs of Inl e \<Rightarrow> (Inl e, st2) | Inr xs \<Rightarrow> (Inr (x # xs), st2)))"
      using c r rs by (cases r; cases rs) simp_all
    have dr: "inj_on us {..<drawn (case r of Inl _ \<Rightarrow> st1 | Inr _ \<Rightarrow> st2)}"
      using Cons.prems(2) unfolding all by (cases r; cases rs) simp_all
    then have "inj_on us {..<drawn st1}"
      using m by (cases r) (auto intro: inj_on_subset)
    then have s1: "sound us st (r, st1)" using enqueue_sound [OF Cons.prems(1) valid] r by simp
    show ?thesis
    proof (cases r)
      case (Inl e)
      then show ?thesis using s1 unfolding all by (simp add: sound_def)
    next
      case (Inr x)
      have "sound us st1 (rs, st2)"
        using Cons.IH [of st1] s1 dr Inr rs by (simp add: sound_def)
      then have "sound us st (rs, st2)" using s1 by (auto simp: sound_def intro: evolves_trans)
      then show ?thesis unfolding all Inr by (cases rs) (simp_all add: sound_def)
    qed
  qed (use Cons.prems in simp)
qed simp

end
