(* ===== verification/FakeClaim.thy ===== *)
theory FakeClaim
  imports FakeEnqueue
begin

text \<open>
  \<open>FakeTaskQClient.claim\<close>: the scan of the jobs in creation order, the eligibility of a candidate,
  and what a claim gives the worker.
\<close>

section \<open>Operations\<close>

record claim_request =
  clm_queue :: string
  clm_worker_id :: string
  clm_batch :: int
  clm_job_types :: "string list option"
  clm_lease_seconds :: "int option"
  clm_affinity_key :: "string option"
  clm_job_id :: "uuid option"
  clm_policy_hashes :: "string list option"

text \<open>The candidate passes every \<open>continue\<close> of the loop.\<close>

definition claim_eligible ::
  "claim_request \<Rightarrow> string list option \<Rightarrow> instant \<Rightarrow> fake_job \<Rightarrow> bool" where
  "claim_eligible r supported now job \<longleftrightarrow> (let c = fj_command job in
     fj_status job = QUEUED \<and> ec_queue c = clm_queue r \<and>
     (case clm_job_id r of None \<Rightarrow> True | Some i \<Rightarrow> fj_job_id job = i) \<and>
     (case clm_job_types r of None \<Rightarrow> True | Some ts \<Rightarrow> ec_job_type c \<in> set ts) \<and>
     (case clm_affinity_key r of None \<Rightarrow> True | Some k \<Rightarrow> ec_affinity_key c = Some k) \<and>
     (case fj_policy_hash job of None \<Rightarrow> True
      | Some h \<Rightarrow> (case supported of None \<Rightarrow> False | Some hs \<Rightarrow> h \<in> set hs)) \<and>
     (case ec_scheduled_at c of None \<Rightarrow> True | Some t \<Rightarrow> t \<le> now))"

definition started_job :: "uuid \<Rightarrow> string \<Rightarrow> fake_job \<Rightarrow> fake_job" where
  "started_job attempt_id worker_id job =
     job\<lparr>fj_status := RUNNING, fj_attempt_id := Some attempt_id, fj_worker_id := Some worker_id,
         fj_attempt_number := fj_attempt_number job + 1, fj_settled_command := None\<rparr>"

definition claimed_of :: "fake_job \<Rightarrow> uuid \<Rightarrow> int \<Rightarrow> instant \<Rightarrow> claimed_job" where
  "claimed_of job attempt_id duration now = (let c = fj_command job in
     \<lparr>cj_job_id = fj_job_id job, cj_queue = ec_queue c, cj_job_type = ec_job_type c,
      cj_priority = or_int (ec_priority c) 0, cj_payload = ec_payload c,
      cj_headers = headers_of c, cj_progress = None, cj_attempt_id = attempt_id,
      cj_attempt_number = fj_attempt_number job, cj_failure_count = fj_failure_count job,
      cj_max_attempts = or_int (ec_max_attempts c) 10,
      cj_lease_expires_at = plus_seconds now duration, cj_lease_seconds = duration,
      cj_workflow_id = ec_workflow_id c, cj_step_key = ec_step_key c,
      cj_policy_hash = fj_policy_hash job\<rparr>)"

text \<open>\<open>lease_seconds or command.lease_seconds or 60\<close>\<close>

definition claim_duration :: "claim_request \<Rightarrow> fake_job \<Rightarrow> int" where
  "claim_duration r job = or_int (clm_lease_seconds r) (or_int (ec_lease_seconds (fj_command job)) 60)"

text \<open>A candidate is written before its \<open>ClaimedJob\<close> is validated.\<close>

fun claim_scan ::
  "uuid_source \<Rightarrow> claim_request \<Rightarrow> string list option \<Rightarrow> instant \<Rightarrow> uuid list \<Rightarrow> claimed_job list \<Rightarrow>
   fake \<Rightarrow> claimed_job list res" where
  "claim_scan us r supported now [] selected st = (Inr selected, st)"
| "claim_scan us r supported now (i # ids) selected st = (case dget (jobs st) i of
      None \<Rightarrow> (Inl PyKeyError, st)
    | Some candidate \<Rightarrow>
        if \<not> claim_eligible r supported now candidate
        then claim_scan us r supported now ids selected st
        else
          let attempt_id = us (drawn st);
              job = started_job attempt_id (clm_worker_id r) candidate;
              st1 = put_job job (draw st);
              claimed = claimed_of job attempt_id (claim_duration r candidate) now;
              selected1 = selected @ [claimed]
          in if \<not> claimed_job_valid claimed then (Inl (ValidationError ''ClaimedJob''), st1)
             else if int (length selected1) \<ge> clm_batch r then (Inr selected1, st1)
             else claim_scan us r supported now ids selected1 st1)"

definition claim_result_init :: "claim_state \<Rightarrow> claimed_job list \<Rightarrow> exc + claim_result" where
  "claim_result_init s js = (let r = \<lparr>cr_state = s, cr_jobs = js, cr_retry_after = None\<rparr> in
     if claim_result_valid r then Inr r else Inl (ValidationError ''ClaimResult''))"

definition claim :: "uuid_source \<Rightarrow> clock \<Rightarrow> claim_request \<Rightarrow> fake \<Rightarrow> claim_result res" where
  "claim us clk r st = ensure_open st (
     if clm_queue r \<notin> known_queues st then (claim_result_init UNKNOWN_QUEUE [], st)
     else with_now clk st (\<lambda>now.
       case (case clm_policy_hashes r of
           None \<Rightarrow> Inr None
         | Some hs \<Rightarrow> ebind (continuation_claim_options hs) (\<lambda>s. Inr (Some s))) of
         Inl e \<Rightarrow> (Inl e, st)
       | Inr supported \<Rightarrow>
           rbind (claim_scan us r supported now (order st) [] st) (\<lambda>selected st1.
             (claim_result_init (if selected \<noteq> [] then CLAIMED else CLAIM_EMPTY) selected, st1))))"

section \<open>Starting a job\<close>

lemma started_shape [simp]: "job_shape (started_job a w job) = job_shape job"
  by (simp add: started_job_def job_shape_def)

lemma started_fields [simp]:
  "fj_job_id (started_job a w job) = fj_job_id job" "fj_status (started_job a w job) = RUNNING"
  "fj_attempt_id (started_job a w job) = Some a" "fj_worker_id (started_job a w job) = Some w"
  "fj_command (started_job a w job) = fj_command job"
  "fj_failure_count (started_job a w job) = fj_failure_count job"
  "fj_policy_hash (started_job a w job) = fj_policy_hash job"
  by (simp_all add: started_job_def)

lemma start_inv:
  assumes inv: "fake_inv us st" and job: "dget (jobs st) i = Some job" "fj_status job = QUEUED"
    and dr: "inj_on us {..<Suc (drawn st)}"
    and j: "j = started_job (us (drawn st)) w job"
  shows "fake_inv us (put_job j (draw st)) \<and> evolves us st (put_job j (draw st))"
proof -
  have parts: "ids_inv us (drawn st) (jobs st) (order st) (workflows st)" "jobs_ok (jobs st)"
    "dag_inv (jobs st)" "keys_inv (jobs st) (active_keys st)"
    "workflows_inv (jobs st) (workflows st) (workflow_keys st)"
    using inv by (simp_all add: fake_inv_def)
  have id: "fj_job_id j = i" using parts(1) job j by (simp add: ids_inv_def ids_match_def)
  have sh: "job_shape j = job_shape job" using j by simp
  let ?js = "dset i j (jobs st)"
  have same: "same_shape (jobs st) ?js" by (rule same_shape_put [OF job(1) sh])
  have eq: "succeeded ?js d = succeeded (jobs st) d" "dead ?js d = dead (jobs st) d" for d
    using job j by (auto simp: succeeded_def dead_def)
  have ok: "job_ok job" using parts(2) job by (simp add: jobs_ok_def)
  have "ids_inv us (Suc (drawn st)) ?js (order st) (workflows st)"
  proof (rule ids_inv_shape [OF parts(1) same _ dr])
    fix k c a assume c: "dget ?js k = Some c" "fj_attempt_id c = Some a"
    show "a \<in> us ` {..<Suc (drawn st)}"
    proof (cases "k = i")
      case True
      then show ?thesis using c j by (auto simp: lessThan_Suc)
    next
      case False
      then have "a \<in> us ` {..<drawn st}" using c parts(1) unfolding ids_inv_def by auto
      then show ?thesis by (auto simp: lessThan_Suc)
    qed
  qed simp
  moreover have "jobs_ok ?js"
    using parts(2) ok job_shape_fields(4,6) [OF sh] j
    by (auto simp: jobs_ok_def job_ok_def started_job_def)
  moreover have "dag_inv ?js"
  proof (rule dag_inv_update [OF parts(3) same])
    show "keeps_success (jobs st) ?js" using eq by (simp add: keeps_success_def)
    fix k c c' assume c: "dget (jobs st) k = Some c" "dget ?js k = Some c'"
    show "fj_status c' \<noteq> BLOCKED \<Longrightarrow> fj_status c' \<noteq> CANCELLED \<Longrightarrow>
        fj_status c \<noteq> BLOCKED \<and> fj_status c \<noteq> CANCELLED \<or> (\<forall>d \<in> set (deps c). succeeded ?js d)"
      using c job by (cases "k = i") auto
    show "(\<exists>d \<in> set (deps c). \<not> succeeded ?js d) \<and> (\<forall>d \<in> set (deps c). \<not> dead ?js d)"
      if "fj_status c' = BLOCKED"
      using c that j blockedD [OF parts(3) c(1)] eq by (cases "k = i") auto
  qed
  moreover have "keys_inv ?js (active_keys st)"
    by (rule keys_inv_shape [OF parts(4) same])
      (use job in \<open>auto simp: live_status_def split: if_splits\<close>)
  moreover have "workflows_inv ?js (workflows st) (workflow_keys st)"
    by (rule workflows_inv_shape [OF parts(5) same]) (simp add: keeps_success_def eq)
  moreover have "jobs_evolve us (drawn st) (Suc (drawn st)) (jobs st) ?js"
  proof (rule jobs_evolve_put [OF job(1)])
    show "job_evolves us (drawn st) (Suc (drawn st)) job j"
      using job sh unfolding job_evolves_def j
      by (auto simp: attempt_evolves_def status_leads_def terminal_status_def started_job_def)
  qed
  ultimately show ?thesis by (simp add: fake_inv_def evolves_def id)
qed

lemma claim_scan_drawn: "drawn st \<le> drawn (snd (claim_scan us r s now ids sel st))"
proof (induction ids arbitrary: sel st)
  case (Cons i ids)
  have "drawn st \<le> drawn (snd (claim_scan us r s now ids sel' (put_job j (draw st))))" for sel' j
    using Cons [of "put_job j (draw st)" sel'] by simp
  then show ?case using Cons by (auto simp: Let_def split: option.splits)
qed simp

lemma claim_scan_sound:
  assumes "fake_inv us st" and "inj_on us {..<drawn (snd (claim_scan us r s now ids sel st))}"
  shows "sound us st (claim_scan us r s now ids sel st)"
  using assms
proof (induction ids arbitrary: sel st)
  case (Cons i ids)
  show ?case
  proof (cases "dget (jobs st) i")
    case None
    then show ?thesis using Cons.prems by simp
  next
    case (Some job)
    show ?thesis
    proof (cases "claim_eligible r s now job")
      case False
      then show ?thesis using Cons Some by simp
    next
      case True
      let ?j = "started_job (us (drawn st)) (clm_worker_id r) job"
      let ?st = "put_job ?j (draw st)"
      let ?c = "claimed_of ?j (us (drawn st)) (claim_duration r job) now"
      let ?rest = "claim_scan us r s now ids (sel @ [?c]) ?st"
      have scan: "claim_scan us r s now (i # ids) sel st =
          (if \<not> claimed_job_valid ?c then (Inl (ValidationError ''ClaimedJob''), ?st)
           else if int (length (sel @ [?c])) \<ge> clm_batch r then (Inr (sel @ [?c]), ?st) else ?rest)"
        using Some True by (simp add: Let_def)
      have d: "Suc (drawn st) \<le> drawn (snd (claim_scan us r s now (i # ids) sel st))"
        unfolding scan using claim_scan_drawn [of ?st us r s now ids] by auto
      then have dr: "inj_on us {..<Suc (drawn st)}"
        using Cons.prems(2) by (meson inj_on_subset lessThan_subset_iff)
      have q: "fj_status job = QUEUED" using True by (simp add: claim_eligible_def Let_def)
      note st = start_inv [OF Cons.prems(1) Some q dr refl, of "clm_worker_id r"]
      have "sound us st ?rest" if "inj_on us {..<drawn (snd ?rest)}"
        using Cons.IH [of ?st] st that sound_step by blast
      then show ?thesis using st Cons.prems(2) unfolding scan by (auto simp: sound_def)
    qed
  qed
qed simp

lemma sound_rbind_result:
  "sound us st r \<Longrightarrow> sound us st (rbind r (\<lambda>x st1. (f x, st1)))"
  by (cases r; cases "fst r") (auto simp: sound_def)

lemma rbind_result_state [simp]: "snd (rbind r (\<lambda>x st1. (f x, st1))) = snd r"
  by (cases r; cases "fst r") auto

lemma claim_sound [wf_rules]:
  assumes "fake_inv us st" and "inj_on us {..<drawn (snd (claim us clk r st))}"
  shows "sound us st (claim us clk r st)"
  using assms unfolding claim_def
  by (cases clk)
    (auto simp: ensure_open_def split: sum.splits intro!: sound_rbind_result claim_scan_sound)

end
