(* ===== verification/FakeComplete.thy ===== *)
theory FakeComplete
  imports FakeClaim
begin

text \<open>
  \<open>FakeTaskQClient.complete\<close>: the checks of the continuation policy, the plan of the follow-up
  children, the settlement itself and the insertion of the children.
\<close>

section \<open>Operations\<close>

definition followup_queue :: "fake_job \<Rightarrow> followup \<Rightarrow> string" where
  "followup_queue job f = (case fu_queue f of
      None \<Rightarrow> ec_queue (fj_command job)
    | Some q \<Rightarrow> if q = [] then ec_queue (fj_command job) else q)"

text \<open>
  The command of a child.  The public model is validated with a placeholder step before the derived
  identity is installed.
\<close>

definition followup_command ::
  "fake_job \<Rightarrow> followup \<Rightarrow> string \<Rightarrow> string option \<Rightarrow> exc + enqueue_command" where
  "followup_command job f key member_step =
     (let member = fu_workflow_member f;
          base = \<lparr>ec_queue = followup_queue job f, ec_job_type = fu_job_type f,
            ec_payload = fu_payload f, ec_priority = fu_priority f,
            ec_scheduled_at = fu_scheduled_at f, ec_idempotency_key = Some key,
            ec_concurrency_key = None, ec_affinity_key = None,
            ec_max_attempts = fu_max_attempts f, ec_lease_seconds = fu_lease_seconds f,
            ec_backoff_mode = None, ec_backoff_base = None, ec_backoff_cap = None,
            ec_workflow_id = (if member then ec_workflow_id (fj_command job) else None),
            ec_step_key = (if member_step \<noteq> None then Some ''internal'' else None),
            ec_depends_on = None, ec_headers = Some (fu_headers f), ec_ttl_seconds = None,
            ec_flow_key = (if member then ec_flow_key (fj_command job) else None)\<rparr>
      in ebind (enqueue_command_init base) (\<lambda>c.
           Inr (if member_step \<noteq> None then c\<lparr>ec_step_key := member_step\<rparr> else c)))"

definition child_job :: "fake_job \<Rightarrow> followup \<Rightarrow> uuid \<Rightarrow> enqueue_command \<Rightarrow> fake_job" where
  "child_job job f i c = (new_fake_job i c QUEUED)
     \<lparr>fj_parent_job_id := Some (fj_job_id job),
      fj_policy_hash := (if fu_workflow_member f then fj_policy_hash job else None)\<rparr>"

text \<open>One turn of the loop over the follow-ups, after the check of the seen steps.\<close>

definition plan_child ::
  "uuid_source \<Rightarrow> fake_job \<Rightarrow> fake_workflow option \<Rightarrow> followup \<Rightarrow> fake \<Rightarrow>
   (fake_job \<times> enqueue_status) res" where
  "plan_child us job workflow f st =
     (let queue = followup_queue job f in
      if queue \<notin> known_queues st then (Inl (raise_code NOT_FOUND), st)
      else case ebind (derive_continuation_idempotency_key (fj_job_id job) (fu_step f)) (\<lambda>key.
          ebind (if fu_workflow_member f
                 then ebind (derive_continuation_workflow_step (fj_job_id job) (fu_step f)) (\<lambda>s. Inr (Some s))
                 else Inr None) (\<lambda>member_step.
          ebind (followup_command job f key member_step) (\<lambda>c. Inr (key, c)))) of
        Inl e \<Rightarrow> (Inl e, st)
      | Inr (key, c) \<Rightarrow>
          if fu_workflow_member f \<and>
             (case workflow of None \<Rightarrow> False | Some w \<Rightarrow> queue \<notin> set (fw_queues w))
          then (Inl (raise_reason VALIDATION ''continuation_queue_undeclared''), st)
          else case dget (active_keys st) (queue, key) of
            None \<Rightarrow> (Inr (child_job job f (us (drawn st)) c, CREATED), draw st)
          | Some existing_id \<Rightarrow> (case dget (jobs st) existing_id of
              None \<Rightarrow> (Inl PyKeyError, st)
            | Some child \<Rightarrow>
                if fj_parent_job_id child \<noteq> Some (fj_job_id job) \<or>
                   \<not> enqueue_command_eq (fj_command child) c
                then (Inl (raise_code INTERNAL), st)
                else (Inr (child, EXISTED), st)))"

fun plan_children ::
  "uuid_source \<Rightarrow> fake_job \<Rightarrow> fake_workflow option \<Rightarrow> followup list \<Rightarrow> string set \<Rightarrow> fake \<Rightarrow>
   (fake_job \<times> enqueue_status) list res" where
  "plan_children us job workflow [] seen st = (Inr [], st)"
| "plan_children us job workflow (f # fs) seen st =
     (if fu_step f \<in> seen then (Inl (ConfigError ''followup steps must be distinct''), st)
      else rbind (plan_child us job workflow f st) (\<lambda>child st1.
        rbind (plan_children us job workflow fs (insert (fu_step f) seen) st1) (\<lambda>children st2.
          (Inr (child # children), st2))))"

text \<open>The job of a created child with its key and, for a member, its step.\<close>

definition add_job :: "fake_job \<Rightarrow> fake \<Rightarrow> fake" where
  "add_job child st = (set_key (job_key child) (fj_job_id child) (insert_job child st))
     \<lparr>workflows := add_member child (workflows st)\<rparr>"

fun insert_children :: "(fake_job \<times> enqueue_status) list \<Rightarrow> fake \<Rightarrow> fake" where
  "insert_children [] st = st"
| "insert_children ((child, status) # children) st =
     insert_children children
       (log_enqueue child (fj_command child) status
         (if status = CREATED then add_job child st else st))"

definition check_policy :: "fake_job \<Rightarrow> string option \<Rightarrow> exc + unit" where
  "check_policy job h = (case fj_policy_hash job of
      Some p \<Rightarrow> (case h of
          None \<Rightarrow> Inl (raise_reason VALIDATION ''continuation_policy_required'')
        | Some h' \<Rightarrow>
            if h' \<noteq> p then Inl (raise_reason CONFLICT ''continuation_policy_mismatch'') else Inr ())
    | None \<Rightarrow>
        if h \<noteq> None then Inl (raise_reason CONFLICT ''continuation_policy_mismatch'') else Inr ())"

definition new_members :: "(fake_job \<times> enqueue_status) list \<Rightarrow> nat" where
  "new_members cs = length (filter (\<lambda>(c, s). s = CREATED \<and> job_workflow c \<noteq> None) cs)"

definition check_members :: "fake_workflow option \<Rightarrow> (fake_job \<times> enqueue_status) list \<Rightarrow> exc + unit" where
  "check_members workflow cs =
     (if new_members cs = 0 then Inr ()
      else case workflow of
        None \<Rightarrow> Inl (PyAssertionError ''workflow is not None'')
      | Some w \<Rightarrow> (case fw_member_limit w of
            None \<Rightarrow> Inl (raise_reason CONFLICT ''workflow_member_limit_exceeded'')
          | Some l \<Rightarrow>
              if fw_admitted_total w + int (new_members cs) > l
              then Inl (raise_reason CONFLICT ''workflow_member_limit_exceeded'') else Inr ()))"

definition complete ::
  "uuid_source \<Rightarrow> uuid \<Rightarrow> uuid \<Rightarrow> string \<Rightarrow> jobj option \<Rightarrow> followup list \<Rightarrow> string option \<Rightarrow> fake \<Rightarrow>
   settle_result res" where
  "complete us job_id attempt_id worker_id result followups policy st = ensure_open st (
     case replay_or_lost st job_id attempt_id worker_id V_COMPLETE of
       Inr replay \<Rightarrow> (Inr replay, st)
     | Inl job \<Rightarrow>
         case ebind (check_policy job policy) (\<lambda>_.
             case job_workflow job of
               None \<Rightarrow> Inr None
             | Some wid \<Rightarrow> (case dget (workflows st) wid of
                 None \<Rightarrow> Inl PyKeyError | Some w \<Rightarrow> Inr (Some w))) of
           Inl e \<Rightarrow> (Inl e, st)
         | Inr workflow \<Rightarrow>
             if list_ex fu_workflow_member followups \<and> (workflow = None \<or> fj_policy_hash job = None)
             then (Inl (raise_reason VALIDATION ''continuation_parent_not_member''), st)
             else rbind (plan_children us job workflow followups {} st) (\<lambda>children st1.
               case ebind (check_members workflow children) (\<lambda>_.
                   handler_result_init (Complete (case result of None \<Rightarrow> [] | Some r \<Rightarrow> r) followups)) of
                 Inl e \<Rightarrow> (Inl e, st1)
               | Inr intent \<Rightarrow>
                   rbind (finish job V_COMPLETE SUCCEEDED (Some intent) OK None None st1) (\<lambda>_ st2.
                     (Inr \<lparr>sr_result = OK, sr_job_status = Some SUCCEEDED, sr_scheduled_at = None\<rparr>,
                      insert_children children st2))))"


section \<open>Inserting children\<close>

lemma add_job_fields [simp]:
  "jobs (add_job c st) = dset (fj_job_id c) c (jobs st)" "order (add_job c st) = order st @ [fj_job_id c]"
  "workflows (add_job c st) = add_member c (workflows st)"
  "workflow_keys (add_job c st) = workflow_keys st" "drawn (add_job c st) = drawn st"
  "known_queues (add_job c st) = known_queues st"
  by (simp_all add: add_job_def insert_job_def set_key_def split: option.splits)

lemma add_job_keys_dget:
  "dget (active_keys (add_job c st)) q =
     (if job_key c = Some q then Some (fj_job_id c) else dget (active_keys st) q)"
  by (simp add: add_job_def set_key_def insert_job_def split: option.splits)

definition members_of :: "uuid \<Rightarrow> fake_job list \<Rightarrow> fake_job list" where
  "members_of wid cs = filter (\<lambda>c. job_workflow c = Some wid) cs"

definition step_of :: "fake_job \<Rightarrow> string option" where
  "step_of c = ec_step_key (fj_command c)"

definition insertable :: "uuid_source \<Rightarrow> fake_job list \<Rightarrow> fake \<Rightarrow> bool" where
  "insertable us cs st \<longleftrightarrow>
     (\<forall>c \<in> set cs. addable st c \<and> deps c = [] \<and> job_key c \<noteq> None \<and>
        fj_job_id c \<in> us ` {..<drawn st} \<and>
        (job_workflow c = None \<longrightarrow> step_of c = None) \<and>
        (\<forall>wid. job_workflow c = Some wid \<longrightarrow> (\<exists>w s. dget (workflows st) wid = Some w \<and>
           step_of c = Some s \<and> dget (fw_steps w) s = None \<and>
           (\<forall>l. fw_member_limit w = Some l \<longrightarrow>
              fw_admitted_total w + int (length (members_of wid cs)) \<le> l)))) \<and>
     distinct (map fj_job_id cs) \<and> distinct (map job_key cs) \<and>
     (\<forall>wid. distinct (map step_of (members_of wid cs)))"

lemma insertable_head:
  assumes inv: "fake_inv us st" and ins: "insertable us (c # cs) st"
  shows "fake_inv us (add_job c st) \<and> evolves us st (add_job c st)"
proof (rule add_job_inv [OF inv])
  show "addable st c" using ins by (simp add: insertable_def)
  show "member_room (workflows st) c"
  proof (cases "job_workflow c")
    case None
    then show ?thesis using ins by (simp add: insertable_def member_room_def step_of_def)
  next
    case (Some wid)
    obtain w s where w: "dget (workflows st) wid = Some w" "step_of c = Some s"
        "dget (fw_steps w) s = None"
        "\<And>l. fw_member_limit w = Some l \<Longrightarrow>
          fw_admitted_total w + int (length (members_of wid (c # cs))) \<le> l"
      using ins Some unfolding insertable_def by (metis list.set_intros(1))
    have "fw_admitted_total w < l" if "fw_member_limit w = Some l" for l
      using w(4) [OF that] Some by (simp add: members_of_def)
    then show ?thesis using Some w by (auto simp: member_room_def step_of_def)
  qed
  show "inj_on us {..<drawn (add_job c st)}" using inv by (simp add: fake_inv_def ids_inv_def)
  show "fj_job_id c \<in> us ` {..<drawn (add_job c st)}" using ins by (simp add: insertable_def)
qed (simp_all add: add_job_keys_dget)

lemma insertable_tail:
  assumes ins: "insertable us (c # cs) st"
  shows "insertable us cs (add_job c st)"
  unfolding insertable_def
proof (intro conjI ballI allI impI)
  have "addable st c" and kc: "job_key c \<noteq> None" using ins by (simp_all add: insertable_def)
  then have c: "dget (jobs st) (fj_job_id c) = None" by (simp add: addable_def)
  have dist: "fj_job_id c \<notin> fj_job_id ` set cs" "job_key c \<notin> job_key ` set cs"
    using ins by (simp_all add: insertable_def)
  have succ: "succeeded (jobs (add_job c st)) d" if "succeeded (jobs st) d" for d
    using that c by (auto simp: succeeded_def split: option.splits)
  fix e assume e: "e \<in> set cs"
  have ne: "fj_job_id e \<noteq> fj_job_id c" "job_key e \<noteq> job_key c"
    using dist e by (metis imageI)+
  have ok: "addable st e" "deps e = []" "job_key e \<noteq> None" "fj_job_id e \<in> us ` {..<drawn st}"
      "job_workflow e = None \<Longrightarrow> step_of e = None"
    using ins e unfolding insertable_def by (simp_all del: not_None_eq)
  have "parent_ok (jobs (add_job c st)) e"
    using ok(1) succ unfolding addable_def parent_ok_def by (auto split: option.splits)
  moreover have "fj_status e = QUEUED" using ok(1,2) by (auto simp: addable_def)
  ultimately show "addable (add_job c st) e"
    using ok(1,2) ne kc unfolding addable_def
    by (auto simp: add_job_keys_dget)
  show "deps e = []" "job_key e \<noteq> None" "fj_job_id e \<in> us ` {..<drawn (add_job c st)}"
    "job_workflow e = None \<Longrightarrow> step_of e = None"
    using ok by simp_all
  fix wid assume wid: "job_workflow e = Some wid"
  obtain w s where w: "dget (workflows st) wid = Some w" "step_of e = Some s" "dget (fw_steps w) s = None"
      "\<And>l. fw_member_limit w = Some l \<Longrightarrow>
        fw_admitted_total w + int (length (members_of wid (c # cs))) \<le> l"
    using ins e wid unfolding insertable_def by (metis list.set_intros(2))
  show "\<exists>w s. dget (workflows (add_job c st)) wid = Some w \<and> step_of e = Some s \<and>
      dget (fw_steps w) s = None \<and> (\<forall>l. fw_member_limit w = Some l \<longrightarrow>
        fw_admitted_total w + int (length (members_of wid cs)) \<le> l)"
  proof (cases "job_workflow c")
    case None
    then show ?thesis using w by (simp add: add_member_def members_of_def)
  next
    case (Some v)
    obtain x t where x: "dget (workflows st) v = Some x" "step_of c = Some t"
      using ins Some unfolding insertable_def by (metis list.set_intros(1))
    have am: "add_member c (workflows st) = dset v (set_step t (fj_job_id c) x) (workflows st)"
      using Some x by (simp add: add_member_def step_of_def)
    show ?thesis
    proof (cases "v = wid")
      case True
      have "distinct (map step_of (members_of wid (c # cs)))" using ins by (simp add: insertable_def)
      moreover have "e \<in> set (members_of wid cs)" using e wid by (simp add: members_of_def)
      ultimately have "s \<noteq> t" using Some True x w(2) by (force simp: members_of_def)
      then show ?thesis
        using w x(1) Some True by (auto simp: am set_step_def members_of_def)
    next
      case False
      then show ?thesis using w Some by (simp add: am members_of_def)
    qed
  qed
next
  show "distinct (map fj_job_id cs)" "distinct (map job_key cs)"
    using ins by (simp_all add: insertable_def)
  fix wid
  have "distinct (map step_of (members_of wid (c # cs)))" using ins by (simp add: insertable_def)
  then show "distinct (map step_of (members_of wid cs))"
    by (simp add: members_of_def split: if_splits)
qed

lemma insertable_log [simp]: "insertable us cs (log_enqueue j c s st) = insertable us cs st"
  by (simp add: insertable_def addable_def)

lemma evolves_log [simp]: "evolves us st (log_enqueue j c s st') = evolves us st st'"
  by (simp add: evolves_def)

lemma insert_children_inv:
  assumes "fake_inv us st" and "insertable us (map fst cs) st" and "\<forall>x \<in> set cs. snd x = CREATED"
  shows "fake_inv us (insert_children cs st) \<and> evolves us st (insert_children cs st)"
  using assms
proof (induction cs arbitrary: st)
  case (Cons x cs)
  obtain c where x: "x = (c, CREATED)" using Cons.prems(3) by (cases x) auto
  have ins: "insertable us (c # map fst cs) st" using Cons.prems(2) x by simp
  note h = insertable_head [OF Cons.prems(1) ins]
  let ?st = "log_enqueue c (fj_command c) CREATED (add_job c st)"
  have "fake_inv us ?st" "insertable us (map fst cs) ?st" "\<forall>x \<in> set cs. snd x = CREATED"
    using h insertable_tail [OF ins] Cons.prems(3) by simp_all
  from Cons.IH [OF this] have "fake_inv us (insert_children cs ?st) \<and> evolves us ?st (insert_children cs ?st)" .
  moreover have "evolves us st ?st" using h by simp
  ultimately show ?case using x evolves_trans by (auto simp del: evolves_log)
qed simp


section \<open>The plan of the children\<close>

text \<open>What the plan promises of the child of one follow-up, apart from its identifier.\<close>

definition planned :: "fake \<Rightarrow> fake_job \<Rightarrow> followup \<Rightarrow> fake_job \<Rightarrow> bool" where
  "planned st job f c \<longleftrightarrow>
     fj_status c = QUEUED \<and> fj_attempt_id c = None \<and> deps c = [] \<and> job_ok c \<and>
     fj_parent_job_id c = Some (fj_job_id job) \<and> step_name (fu_step f) \<and>
     job_key c = Some (followup_queue job f, engine_key (fj_job_id job) (fu_step f)) \<and>
     dget (active_keys st) (followup_queue job f, engine_key (fj_job_id job) (fu_step f)) = None \<and>
     followup_queue job f \<in> known_queues st \<and>
     (if fu_workflow_member f
      then job_workflow c = job_workflow job \<and> job_workflow job \<noteq> None \<and>
        step_of c = Some (engine_step (fj_job_id job) (fu_step f)) \<and>
        fj_policy_hash c = fj_policy_hash job
      else job_workflow c = None \<and> step_of c = None \<and> fj_policy_hash c = None)"

lemma plan_child_spec:
  assumes inv: "fake_inv us st" and job: "dget (jobs st) i = Some job" "fj_status job = RUNNING"
    and p: "plan_child us job w f st = (Inr x, st1)"
  shows "st1 = draw st \<and> snd x = CREATED \<and> fj_job_id (fst x) = us (drawn st) \<and> planned st job f (fst x)"
proof -
  have id: "fj_job_id job = i" using inv job by (simp add: fake_inv_def ids_inv_def ids_match_def)
  let ?q = "followup_queue job f"
  obtain key c where known: "?q \<in> known_queues st"
    and key: "derive_continuation_idempotency_key (fj_job_id job) (fu_step f) = Inr key"
    and c: "ebind (if fu_workflow_member f
                 then ebind (derive_continuation_workflow_step (fj_job_id job) (fu_step f)) (\<lambda>s. Inr (Some s))
                 else Inr None) (\<lambda>member_step. followup_command job f key member_step) = Inr c"
    and rest: "(case dget (active_keys st) (?q, key) of
            None \<Rightarrow> (Inr (child_job job f (us (drawn st)) c, CREATED), draw st)
          | Some existing_id \<Rightarrow> (case dget (jobs st) existing_id of
              None \<Rightarrow> (Inl PyKeyError, st)
            | Some child \<Rightarrow>
                if fj_parent_job_id child \<noteq> Some (fj_job_id job) \<or>
                   \<not> enqueue_command_eq (fj_command child) c
                then (Inl (raise_code INTERNAL), st)
                else (Inr (child, EXISTED), st))) = (Inr x, st1)"
    using p unfolding plan_child_def Let_def
    by (auto simp: result_simps split: if_splits sum.splits option.splits)
  have k: "key = engine_key i (fu_step f)" "step_name (fu_step f)" "i \<noteq> 0"
    using key id by (simp_all add: result_simps)
  have cf: "ec_queue c = ?q" "ec_idempotency_key c = Some key" "ec_depends_on c = None"
    "ec_workflow_id c = (if fu_workflow_member f then job_workflow job else None)"
    "ec_step_key c = (if fu_workflow_member f then Some (engine_step i (fu_step f)) else None)"
    "fu_workflow_member f \<longrightarrow> job_workflow job \<noteq> None"
    using c id unfolding followup_command_def Let_def
    by (auto simp: result_simps enqueue_command_init_def enqueue_command_valid_def job_workflow_def
        split: if_splits)
  have none: "dget (active_keys st) (?q, key) = None"
  proof (rule ccontr)
    assume "dget (active_keys st) (?q, key) \<noteq> None"
    then obtain e child where "dget (jobs st) e = Some child" "fj_parent_job_id child = Some i"
      using rest id by (auto split: option.splits if_splits)
    then have "succeeded (jobs st) i"
      using inv unfolding fake_inv_def workflows_inv_def parent_ok_def by fastforce
    then show False using job by (simp add: succeeded_def)
  qed
  then have x: "x = (child_job job f (us (drawn st)) c, CREATED)" "st1 = draw st" using rest by simp_all
  have "planned st job f (child_job job f (us (drawn st)) c)"
    unfolding planned_def child_job_def step_of_def
    using cf k id none known
    by (auto simp: job_ok_def new_fake_job_def deps_def job_workflow_def job_key_def)
  then show ?thesis using x by (simp add: child_job_def)
qed

lemma fake_inv_draw:
  assumes "fake_inv us st" and "inj_on us {..<n}" and "drawn st \<le> n"
  shows "fake_inv us (st\<lparr>drawn := n\<rparr>) \<and> evolves us st (st\<lparr>drawn := n\<rparr>)"
proof -
  have ids: "ids_inv us (drawn st) (jobs st) (order st) (workflows st)"
    using assms(1) by (simp add: fake_inv_def)
  have "us ` {..<drawn st} \<subseteq> us ` {..<n}" using assms(3) by auto
  then have "ids_inv us n (jobs st) (order st) (workflows st)"
    using ids assms(2) unfolding ids_inv_def by blast
  then show ?thesis using assms by (simp add: fake_inv_def evolves_def)
qed

lemma plan_child_drawn: "drawn st \<le> drawn (snd (plan_child us job w f st))"
  unfolding plan_child_def Let_def by (auto split: sum.splits option.splits)

lemma plan_child_state:
  "snd (plan_child us job w f st) = st\<lparr>drawn := drawn (snd (plan_child us job w f st))\<rparr>"
  unfolding plan_child_def Let_def draw_def by (auto split: sum.splits option.splits)

lemma plan_children_drawn: "drawn st \<le> drawn (snd (plan_children us job w fs seen st))"
proof (induction fs arbitrary: seen st)
  case (Cons f fs)
  obtain r st1 where r: "plan_child us job w f st = (r, st1)" by (cases rule: prod.exhaust)
  have m: "drawn st \<le> drawn st1" using plan_child_drawn [of st us job w f] r by simp
  obtain q st2 where q: "plan_children us job w fs (insert (fu_step f) seen) st1 = (q, st2)"
    by (cases rule: prod.exhaust)
  have "drawn st1 \<le> drawn st2" using Cons [of st1 "insert (fu_step f) seen"] q by simp
  then show ?case using m r q by (cases r; cases q) auto
qed simp

lemma plan_children_state:
  "snd (plan_children us job w fs seen st) = st\<lparr>drawn := drawn (snd (plan_children us job w fs seen st))\<rparr>"
proof (induction fs arbitrary: seen st)
  case (Cons f fs)
  obtain r st1 where r: "plan_child us job w f st = (r, st1)" by (cases rule: prod.exhaust)
  have n: "st1 = st\<lparr>drawn := drawn st1\<rparr>" using plan_child_state [of us job w f st] r by simp
  obtain q st2 where q: "plan_children us job w fs (insert (fu_step f) seen) st1 = (q, st2)"
    by (cases rule: prod.exhaust)
  have m: "st2 = st1\<lparr>drawn := drawn st2\<rparr>"
    using Cons [of "insert (fu_step f) seen" st1] q by simp
  have nm: "st2 = st\<lparr>drawn := drawn st2\<rparr>" by (subst m, subst n) simp
  have "snd (plan_children us job w (f # fs) seen st) \<in> {st, st1, st2}"
    using r q by (cases r; cases q) auto
  then show ?case using n nm by fastforce
qed simp

lemma plan_children_spec:
  assumes "fake_inv us st" and "dget (jobs st) i = Some job" "fj_status job = RUNNING"
    and "inj_on us {..<drawn st1}" and "plan_children us job w fs seen st = (Inr cs, st1)"
  shows "st1 = st\<lparr>drawn := drawn st + length fs\<rparr> \<and>
    list_all2 (\<lambda>f x. snd x = CREATED \<and> planned st job f (fst x)) fs cs \<and>
    map (fj_job_id \<circ> fst) cs = map us [drawn st ..< drawn st + length fs] \<and>
    distinct (map fu_step fs) \<and> set (map fu_step fs) \<inter> seen = {}"
  using assms
proof (induction fs arbitrary: st seen cs)
  case Nil
  then show ?case by simp
next
  case (Cons f fs)
  have new: "fu_step f \<notin> seen" using Cons.prems(5) by (auto split: if_splits)
  obtain x st' xs where p: "plan_child us job w f st = (Inr x, st')"
      "plan_children us job w fs (insert (fu_step f) seen) st' = (Inr xs, st1)" "cs = x # xs"
    using Cons.prems(5) new by (auto simp: rbind_Inr_iff)
  note sp = plan_child_spec [OF Cons.prems(1-3) p(1)]
  have st': "st' = st\<lparr>drawn := Suc (drawn st)\<rparr>" using sp by (simp add: draw_def)
  have "drawn st' \<le> drawn st1"
    using plan_children_drawn [of st' us job w fs "insert (fu_step f) seen"] p(2) by simp
  then have "inj_on us {..<Suc (drawn st)}"
    using Cons.prems(4) st' by (auto intro: inj_on_subset)
  then have inv': "fake_inv us st'" using fake_inv_draw [OF Cons.prems(1)] st' by simp
  have same: "planned st' job g c = planned st job g c" for g c by (simp add: planned_def st')
  have job': "dget (jobs st') i = Some job" using Cons.prems(2) st' by simp
  have "[drawn st ..< drawn st + length (f # fs)] = drawn st # [Suc (drawn st) ..< Suc (drawn st) + length fs]"
    by (simp add: upt_rec)
  then show ?case
    using Cons.IH [OF inv' job' Cons.prems(3,4) p(2)] sp p(3) new same by (auto simp: st')
qed


section \<open>Completion keeps the invariant\<close>

lemma distinct_map_via:
  assumes "distinct (map h xs)" and "\<And>x y. g x = g y \<Longrightarrow> h x = h y"
  shows "distinct (map g xs)"
  using assms(1) assms(2) unfolding distinct_map inj_on_def by metis

lemma planned_fields:
  assumes "planned st job f c"
  shows "job_key c = Some (followup_queue job f, engine_key (fj_job_id job) (fu_step f))"
    and "job_workflow c = (if fu_workflow_member f then job_workflow job else None)"
    and "fu_workflow_member f \<Longrightarrow> job_workflow job \<noteq> None"
    and "fu_workflow_member f \<Longrightarrow> step_of c = Some (engine_step (fj_job_id job) (fu_step f))"
  using assms by (simp_all add: planned_def split: if_splits)

lemma planned_lists:
  assumes "list_all2 (\<lambda>f x. snd x = CREATED \<and> planned st job f (fst x)) fs cs"
  shows "map job_key (map fst cs) =
      map (\<lambda>f. Some (followup_queue job f, engine_key (fj_job_id job) (fu_step f))) fs" (is ?keys)
    and "map step_of (members_of wid (map fst cs)) = (if job_workflow job = Some wid then
      map (\<lambda>f. Some (engine_step (fj_job_id job) (fu_step f))) (filter fu_workflow_member fs) else [])"
      (is ?steps)
    and "job_workflow job = Some wid \<Longrightarrow> new_members cs = length (members_of wid (map fst cs))"
    and "\<forall>x \<in> set cs. snd x = CREATED"
    and "\<forall>c \<in> set (map fst cs). \<exists>f \<in> set fs. planned st job f c"
proof -
  show ?keys using assms by (induction rule: list_all2_induct) (auto dest: planned_fields(1))
  show ?steps
    using assms
  proof (induction rule: list_all2_induct)
    case (Cons f fs x cs)
    then have p: "planned st job f (fst x)" by simp
    show ?case
      using Cons.IH planned_fields(2) [OF p] planned_fields(3,4) [OF p]
      by (cases "fu_workflow_member f") (auto simp: members_of_def)
  qed (simp add: members_of_def)
  show "new_members cs = length (members_of wid (map fst cs))" if wid: "job_workflow job = Some wid"
    using assms
  proof (induction rule: list_all2_induct)
    case (Cons f fs x cs)
    then have p: "planned st job f (fst x)" "snd x = CREATED" by simp_all
    show ?case
      using Cons.IH planned_fields(2) [OF p(1)] p(2) wid
      by (cases "fu_workflow_member f") (auto simp: members_of_def new_members_def split_beta)
  qed (simp add: members_of_def new_members_def)
  show "\<forall>x \<in> set cs. snd x = CREATED" using assms by (induction rule: list_all2_induct) auto
  show "\<forall>c \<in> set (map fst cs). \<exists>f \<in> set fs. planned st job f c"
    using assms by (induction rule: list_all2_induct) auto
qed

lemma engine_step_free:
  assumes inv: "fake_inv us st" and job: "dget (jobs st) i = Some job" "fj_status job = RUNNING"
    and w: "dget (workflows st) wid = Some w"
  shows "dget (fw_steps w) (engine_step i s) = None"
proof (rule ccontr)
  assume "dget (fw_steps w) (engine_step i s) \<noteq> None"
  then obtain e where e: "dget (fw_steps w) (engine_step i s) = Some e" by blast
  have "workflow_ok (jobs st) wid w" using inv w unfolding fake_inv_def workflows_inv_def by blast
  then obtain j where j: "dget (jobs st) e = Some j" "ec_step_key (fj_command j) = Some (engine_step i s)"
    using e unfolding workflow_ok_def by blast
  have "parent_ok (jobs st) j" using inv j(1) unfolding fake_inv_def workflows_inv_def by blast
  then have "succeeded (jobs st) i"
    using j(2) engine_step_not_producer by (auto simp: parent_ok_def engine_step_inj split: option.splits)
  then show False using job by (simp add: succeeded_def)
qed

lemma children_insertable:
  assumes inv: "fake_inv us st" and job: "dget (jobs st) i = Some job" "fj_status job = RUNNING"
    and plan: "list_all2 (\<lambda>f x. snd x = CREATED \<and> planned st job f (fst x)) fs cs"
      "map (fj_job_id \<circ> fst) cs = map us [drawn st ..< drawn st + length fs]"
      "distinct (map fu_step fs)"
    and dr: "inj_on us {..<drawn st + length fs}"
    and room: "check_members (case job_workflow job of None \<Rightarrow> None | Some wid \<Rightarrow> dget (workflows st) wid) cs = Inr ()"
    and st2: "succeeded (jobs st2) i" "order st2 = order st" "dkeys (jobs st2) = order st2"
      "drawn st2 = drawn st + length fs"
      "\<And>q. dget (active_keys st2) q = dget (active_keys st) q \<or> dget (active_keys st2) q = None"
      "\<And>wid w. dget (workflows st) wid = Some w \<Longrightarrow>
        \<exists>s. dget (workflows st2) wid = Some (w\<lparr>fw_status := s\<rparr>)"
  shows "insertable us (map fst cs) st2"
proof -
  have ids: "ids_inv us (drawn st) (jobs st) (order st) (workflows st)"
    using inv by (simp add: fake_inv_def)
  have id: "fj_job_id job = i" using ids job by (simp add: ids_inv_def ids_match_def)
  note pl = planned_lists [OF plan(1)]
  have idset: "fj_job_id c \<in> us ` {drawn st ..< drawn st + length fs}" if "c \<in> set (map fst cs)" for c
  proof -
    have "fj_job_id c \<in> set (map (fj_job_id \<circ> fst) cs)" using that by auto
    then show ?thesis unfolding plan(2) by simp
  qed
  have fresh: "dget (jobs st2) (fj_job_id c) = None" if c: "c \<in> set (map fst cs)" for c
  proof -
    obtain k where k: "fj_job_id c = us k" "drawn st \<le> k" "k < drawn st + length fs"
      using idset [OF c] by auto
    have "us k \<notin> us ` {..<drawn st}"
    proof
      assume "us k \<in> us ` {..<drawn st}"
      then obtain m where "m < drawn st" "us k = us m" by auto
      then have "k = m" using dr k by (intro inj_onD [OF dr]) auto
      then show False using k \<open>m < drawn st\<close> by simp
    qed
    then have "us k \<notin> set (dkeys (jobs st2))"
      using ids st2(2,3) unfolding ids_inv_def by (metis subsetD)
    then show ?thesis using k(1) by (simp add: map_of_eq_None_iff)
  qed
  have each: "addable st2 c \<and> deps c = [] \<and> job_key c \<noteq> None \<and> fj_job_id c \<in> us ` {..<drawn st2} \<and>
      (job_workflow c = None \<longrightarrow> step_of c = None) \<and>
      (\<forall>wid. job_workflow c = Some wid \<longrightarrow> (\<exists>w s. dget (workflows st2) wid = Some w \<and>
         step_of c = Some s \<and> dget (fw_steps w) s = None \<and>
         (\<forall>l. fw_member_limit w = Some l \<longrightarrow>
            fw_admitted_total w + int (length (members_of wid (map fst cs))) \<le> l)))"
    if c: "c \<in> set (map fst cs)" for c
  proof -
    obtain f where p: "planned st job f c" using pl(5) c by blast
    have key: "job_key c = Some (followup_queue job f, engine_key i (fu_step f))"
      "dget (active_keys st2) (followup_queue job f, engine_key i (fu_step f)) = None"
      using p id st2(5) [of "(followup_queue job f, engine_key i (fu_step f))"] by (auto simp: planned_def)
    have "parent_ok (jobs st2) c"
      using p id st2(1) key(1) unfolding parent_ok_def planned_def step_of_def job_key_def
      by (auto split: if_splits)
    then have add: "addable st2 c"
      using p fresh [OF c] key unfolding addable_def planned_def by auto
    have "\<exists>w s. dget (workflows st2) wid = Some w \<and> step_of c = Some s \<and> dget (fw_steps w) s = None \<and>
         (\<forall>l. fw_member_limit w = Some l \<longrightarrow>
            fw_admitted_total w + int (length (members_of wid (map fst cs))) \<le> l)"
      if wid: "job_workflow c = Some wid" for wid
    proof -
      have jw: "job_workflow job = Some wid" "step_of c = Some (engine_step i (fu_step f))"
        using p wid id by (auto simp: planned_def split: if_splits)
      have "member_ok (workflows st) job"
        using inv job(1) unfolding fake_inv_def workflows_inv_def by blast
      then obtain w where w: "dget (workflows st) wid = Some w" using jw by (auto simp: member_ok_def)
      obtain s where w2: "dget (workflows st2) wid = Some (w\<lparr>fw_status := s\<rparr>)" using st2(6) [OF w] by blast
      have "c \<in> set (members_of wid (map fst cs))" using c wid by (simp add: members_of_def)
      then have "new_members cs \<noteq> 0" using pl(3) [OF jw(1)] by auto
      then have "fw_admitted_total w + int (length (members_of wid (map fst cs))) \<le> l"
        if "fw_member_limit w = Some l" for l
        using room jw(1) w that pl(3) [OF jw(1)] by (auto simp: check_members_def split: if_splits)
      then show ?thesis using w2 jw(2) engine_step_free [OF inv job w] by auto
    qed
    then show ?thesis
      using add p key(1) idset [OF c] st2(4) by (auto simp: planned_def split: if_splits)
  qed
  have "distinct (map us [drawn st ..< drawn st + length fs])"
    using dr by (auto simp: distinct_map intro: inj_on_subset)
  then have "distinct (map fj_job_id (map fst cs))" using plan(2) by simp
  moreover have "distinct (map job_key (map fst cs))"
    unfolding pl(1) by (rule distinct_map_via [OF plan(3)]) (simp add: engine_key_inj)
  moreover have "distinct (map step_of (members_of wid (map fst cs)))" for wid
  proof (cases "job_workflow job = Some wid")
    case True
    have "distinct (map fu_step (filter fu_workflow_member fs))"
      using plan(3) by (simp add: distinct_map_filter)
    then have "distinct (map (\<lambda>f. Some (engine_step (fj_job_id job) (fu_step f)))
        (filter fu_workflow_member fs))"
      by (rule distinct_map_via) (simp add: engine_step_inj)
    then show ?thesis using pl(2) [of wid] True by simp
  next
    case False
    then show ?thesis using pl(2) [of wid] by simp
  qed
  ultimately show ?thesis using each unfolding insertable_def by blast
qed

lemma insert_children_drawn [simp]: "drawn (insert_children cs st) = drawn st"
  by (induction cs arbitrary: st) auto

lemma refresh_drawn [simp]: "drawn (snd (refresh_workflow w st)) = drawn st"
  by (simp add: refresh_workflow_def put_workflow_def split: sum.splits)

lemma advance_drawn [simp]: "drawn (snd (advance_workflow j st)) = drawn st"
  by (auto simp: advance_workflow_def split: option.splits sum.splits prod.splits)

lemma finish_drawn [simp]: "drawn (snd (finish job v s intent oc cause t st)) = drawn st"
  by (simp add: finish_def Let_def)

text \<open>The settlement and the insertion once every check has passed.\<close>

lemma complete_applied:
  assumes inv: "fake_inv us st" and job: "dget (jobs st) i = Some job" "fj_status job = RUNNING"
    and plan: "plan_children us job workflow fs {} st = (Inr cs, st1)"
    and cm: "check_members (case job_workflow job of None \<Rightarrow> None
      | Some wid \<Rightarrow> dget (workflows st) wid) cs = Inr ()"
    and dr1: "inj_on us {..<drawn st1}"
  shows "\<exists>st2. finish job V_COMPLETE SUCCEEDED (Some intent) OK None None st1 = (Inr (), st2) \<and>
    dget (jobs st2) i = Some (finished_job job V_COMPLETE SUCCEEDED None) \<and>
    closed st2 = closed st \<and> insertable us (map fst cs) st2 \<and>
    fake_inv us (insert_children cs st2) \<and> evolves us st st2 \<and> evolves us st2 (insert_children cs st2)"
proof -
  have st1: "st1 = st\<lparr>drawn := drawn st1\<rparr>" using plan_children_state [of us job workflow fs "{}" st] plan by simp
  have mono: "drawn st \<le> drawn st1" using plan_children_drawn [of st us job workflow fs "{}"] plan by simp
  have inv1: "fake_inv us st1" "evolves us st st1" using fake_inv_draw [OF inv dr1 mono] st1 by simp_all
  have job1: "dget (jobs st1) i = Some job" by (subst st1) (simp add: job)
  obtain st2 where st2: "finish job V_COMPLETE SUCCEEDED (Some intent) OK None None st1 = (Inr (), st2)"
      "fake_inv us st2" "evolves us st1 st2" "finish_frame st1 st2"
      "dget (jobs st2) i = Some (finished_job job V_COMPLETE SUCCEEDED None)"
    using finish_inv [OF inv1(1) job1 job(2), of SUCCEEDED V_COMPLETE "Some intent" OK None None] by auto
  note pl = plan_children_spec [OF inv job dr1 plan]
  have n1: "drawn st1 = drawn st + length fs" using conjunct1 [OF pl] by simp
  have same: "active_keys st1 = active_keys st" "workflows st1 = workflows st" "order st1 = order st"
      "closed st1 = closed st"
    by (subst st1, simp)+
  have ins: "insertable us (map fst cs) st2"
  proof (rule children_insertable [OF inv job])
    show "list_all2 (\<lambda>f x. snd x = CREATED \<and> planned st job f (fst x)) fs cs"
      "map (fj_job_id \<circ> fst) cs = map us [drawn st ..< drawn st + length fs]"
      "distinct (map fu_step fs)" using pl by simp_all
    show "inj_on us {..<drawn st + length fs}" using dr1 n1 by simp
    show "check_members (case job_workflow job of None \<Rightarrow> None
        | Some wid \<Rightarrow> dget (workflows st) wid) cs = Inr ()" by (rule cm)
    show "succeeded (jobs st2) i" using st2(5) by (simp add: succeeded_def)
    show "order st2 = order st" "drawn st2 = drawn st + length fs"
      using st2(4) same n1 by (simp_all add: finish_frame_def)
    show "dkeys (jobs st2) = order st2" using st2(2) by (simp add: fake_inv_def ids_inv_def)
    show "dget (active_keys st2) q = dget (active_keys st) q \<or> dget (active_keys st2) q = None" for q
      using st2(4) same by (cases q) (simp add: finish_frame_def)
    show "\<exists>s. dget (workflows st2) wid = Some (w\<lparr>fw_status := s\<rparr>)"
      if "dget (workflows st) wid = Some w" for wid w
      using st2(4) same that by (simp add: finish_frame_def)
  qed
  moreover have "\<forall>x \<in> set cs. snd x = CREATED" using pl planned_lists(4) by blast
  ultimately have "fake_inv us (insert_children cs st2) \<and> evolves us st2 (insert_children cs st2)"
    using insert_children_inv st2(2) by blast
  moreover have "closed st2 = closed st" using st2(4) same by (simp add: finish_frame_def)
  ultimately show ?thesis using st2 ins inv1(2) evolves_trans by blast
qed

lemma complete_sound [wf_rules]:
  assumes inv: "fake_inv us st" and dr: "inj_on us {..<drawn (snd (complete us i a w res fs pol st))}"
  shows "sound us st (complete us i a w res fs pol st)"
proof (cases "replay_or_lost st i a w V_COMPLETE")
  case (Inr r)
  then show ?thesis using inv by (simp add: complete_def ensure_open_def)
next
  case (Inl job)
  have job: "dget (jobs st) i = Some job" "fj_status job = RUNNING"
    using Inl by (simp_all add: replay_Inl)
  have "member_ok (workflows st) job" using inv job(1) unfolding fake_inv_def workflows_inv_def by blast
  define workflow where "workflow = (case job_workflow job of
      None \<Rightarrow> None | Some wid \<Rightarrow> dget (workflows st) wid)"
  have wf: "(case job_workflow job of None \<Rightarrow> Inr None
      | Some wid \<Rightarrow> (case dget (workflows st) wid of None \<Rightarrow> Inl PyKeyError | Some w \<Rightarrow> Inr (Some w)))
      = Inr workflow"
    using \<open>member_ok (workflows st) job\<close> by (auto simp: workflow_def member_ok_def split: option.splits)
  obtain pr st1 where plan: "plan_children us job workflow fs {} st = (pr, st1)"
    by (cases rule: prod.exhaust)
  let ?bad = "closed st \<or> (\<exists>e. check_policy job pol = Inl e) \<or>
    list_ex fu_workflow_member fs \<and> (workflow = None \<or> fj_policy_hash job = None)"
  let ?st1 = "st\<lparr>drawn := drawn st1\<rparr>"
  have st1: "st1 = ?st1" using plan_children_state [of us job workflow fs "{}" st] plan by simp
  have mono: "drawn st \<le> drawn st1" using plan_children_drawn [of st us job workflow fs "{}"] plan by simp
  show ?thesis
  proof (cases ?bad)
    case True
    then show ?thesis
      using inv Inl wf by (cases "check_policy job pol") (auto simp: complete_def ensure_open_def)
  next
    case ok: False
    then have pol: "check_policy job pol = Inr ()" by (cases "check_policy job pol") auto
    let ?tail = "rbind (pr, st1) (\<lambda>children st1.
        case ebind (check_members workflow children) (\<lambda>_.
            handler_result_init (Complete (case res of None \<Rightarrow> [] | Some r \<Rightarrow> r) fs)) of
          Inl e \<Rightarrow> (Inl e, st1)
        | Inr intent \<Rightarrow>
            rbind (finish job V_COMPLETE SUCCEEDED (Some intent) OK None None st1) (\<lambda>_ st2.
              (Inr \<lparr>sr_result = OK, sr_job_status = Some SUCCEEDED, sr_scheduled_at = None\<rparr>,
               insert_children children st2)))"
    have r: "complete us i a w res fs pol st = ?tail"
      using ok Inl wf pol plan by (auto simp: complete_def ensure_open_def)
    have job1: "dget (jobs st1) i = Some job" by (subst st1) (simp add: job)
    have err: "sound us st (e, st1)" if "inj_on us {..<drawn st1}" for e :: "exc + settle_result"
      using fake_inv_draw [OF inv that mono] st1 by (simp add: sound_def)
    show ?thesis
    proof (cases pr)
      case (Inl e)
      then show ?thesis using err dr unfolding r by simp
    next
      case pr: (Inr cs)
      show ?thesis
      proof (cases "ebind (check_members workflow cs) (\<lambda>_.
            handler_result_init (Complete (case res of None \<Rightarrow> [] | Some r \<Rightarrow> r) fs))")
        case (Inl e)
        then show ?thesis using err dr pr unfolding r by simp
      next
        case intent: (Inr intent)
        have cm: "check_members workflow cs = Inr ()" using intent by (auto simp: result_simps)
        let ?fin = "finish job V_COMPLETE SUCCEEDED (Some intent) OK None None st1"
        have tail: "?tail = rbind ?fin (\<lambda>_ st2.
            (Inr \<lparr>sr_result = OK, sr_job_status = Some SUCCEEDED, sr_scheduled_at = None\<rparr>,
             insert_children cs st2))"
          using intent pr by simp
        have "drawn (snd ?tail) = drawn st1"
          using finish_drawn [of job V_COMPLETE SUCCEEDED "Some intent" OK None None st1]
          unfolding tail by (cases ?fin; cases "fst ?fin") simp_all
        then have dr1: "inj_on us {..<drawn st1}" using dr unfolding r by simp
        obtain st2 where st2: "?fin = (Inr (), st2)" "fake_inv us (insert_children cs st2)"
            "evolves us st st2" "evolves us st2 (insert_children cs st2)"
          using complete_applied [OF inv job plan [unfolded pr] _ dr1, of intent] cm
          unfolding workflow_def by blast
        have "sound us st ?tail"
          unfolding tail st2(1) using st2(2,3,4) evolves_trans by (fastforce simp: sound_def)
        then show ?thesis unfolding r .
      qed
    qed
  qed
qed

end
