(* ===== verification/FakeWorkflow.thy ===== *)
theory FakeWorkflow
  imports FakeComplete
begin

text \<open>
  The workflow operations of the fake: \<open>create_workflow\<close>, \<open>seal_workflow\<close>, \<open>cancel_workflow\<close> and the
  authorization projection.
\<close>

section \<open>Operations\<close>

datatype workflow_outcome =
    WO_CREATED | WO_EXISTED | WO_SEALED | WO_ALREADY_SEALED
  | WO_CANCEL_REQUESTED | WO_ALREADY_REQUESTED | WO_ALREADY_TERMINAL

record workflow_result =
  wr_outcome :: workflow_outcome
  wr_workflow_id :: uuid
  wr_status :: workflow_status

definition workflow_result_of :: "workflow_outcome \<Rightarrow> fake_workflow \<Rightarrow> workflow_result" where
  "workflow_result_of oc w =
     \<lparr>wr_outcome = oc, wr_workflow_id = fw_workflow_id w, wr_status = fw_status w\<rparr>"

definition create_workflow_init :: "create_workflow_request \<Rightarrow> exc + create_workflow_request" where
  "create_workflow_init r =
     (if create_workflow_valid r then Inr r else Inl (ValidationError ''CreateWorkflowWireRequest''))"

text \<open>No options when neither the limit nor the policy is given; the limit then defaults.\<close>

definition continuation_options ::
  "int option \<Rightarrow> string option \<Rightarrow> exc + continuation_workflow_options option" where
  "continuation_options member_limit h =
     (if member_limit = None \<and> h = None then Inr None
      else ebind (continuation_workflow_options_init member_limit h) (\<lambda>o'. Inr (Some o')))"

definition workflow_matches ::
  "fake_workflow \<Rightarrow> create_workflow_request \<Rightarrow> string list \<Rightarrow> continuation_workflow_options option \<Rightarrow> bool" where
  "workflow_matches w r queues options \<longleftrightarrow>
     fw_kind w = cw_kind r \<and> jobj_eq (fw_params w) (cw_params r) \<and> fw_queues w = queues \<and>
     fw_member_limit w = map_option cwo_member_limit options \<and>
     fw_policy_hash w = Option.bind options cwo_policy_hash"

definition new_workflow ::
  "uuid \<Rightarrow> create_workflow_request \<Rightarrow> string list \<Rightarrow> continuation_workflow_options option \<Rightarrow> fake_workflow" where
  "new_workflow i r queues options =
     \<lparr>fw_workflow_id = i, fw_workflow_key = cw_workflow_key r, fw_kind = cw_kind r,
      fw_params = cw_params r, fw_queues = queues, fw_sealed = False, fw_cancel_requested = False,
      fw_status = WF_RUNNING, fw_steps = [], fw_member_limit = map_option cwo_member_limit options,
      fw_admitted_total = 0, fw_policy_hash = Option.bind options cwo_policy_hash\<rparr>"

definition create_workflow ::
  "uuid_source \<Rightarrow> create_workflow_request \<Rightarrow> fake \<Rightarrow> workflow_result res" where
  "create_workflow us r st = ensure_open st (
     case ebind (create_workflow_init r) (\<lambda>r.
         ebind (continuation_options (cw_member_limit r) (cw_policy_hash r)) (\<lambda>o'. Inr (r, o'))) of
       Inl e \<Rightarrow> (Inl e, st)
     | Inr (request, options) \<Rightarrow>
         let queues = sort (cw_declared_queues request) in
         case dget (workflow_keys st) (cw_workflow_key request) of
           Some existing_id \<Rightarrow> (case dget (workflows st) existing_id of
               None \<Rightarrow> (Inl PyKeyError, st)
             | Some w \<Rightarrow>
                 if \<not> workflow_matches w request queues options
                 then (Inl (raise_reason CONFLICT ''workflow_mismatch''), st)
                 else (Inr (workflow_result_of WO_EXISTED w), st))
         | None \<Rightarrow>
             if queues = [] \<or> list_ex (\<lambda>q. q \<notin> known_queues st) queues
             then (Inl (raise_code NOT_FOUND), st)
             else
               let w = new_workflow (us (drawn st)) request queues options in
               (Inr (workflow_result_of WO_CREATED w),
                (put_workflow w (draw st))
                  \<lparr>workflow_keys := dset (cw_workflow_key request) (fw_workflow_id w) (workflow_keys st)\<rparr>))"

text \<open>The workflow object after a refresh: the one the dictionary holds.\<close>

definition current_workflow :: "uuid \<Rightarrow> fake_workflow \<Rightarrow> fake \<Rightarrow> fake_workflow" where
  "current_workflow wid w st = (case dget (workflows st) wid of None \<Rightarrow> w | Some w' \<Rightarrow> w')"

definition seal_workflow :: "uuid \<Rightarrow> fake \<Rightarrow> workflow_result res" where
  "seal_workflow workflow_id st = ensure_open st (
     case dget (workflows st) workflow_id of
       None \<Rightarrow> (Inl (raise_code NOT_FOUND), st)
     | Some w \<Rightarrow>
         let outcome = (if fw_sealed w then WO_ALREADY_SEALED else WO_SEALED);
             w' = w\<lparr>fw_sealed := True\<rparr>
         in rbind (refresh_workflow w' (put_workflow w' st)) (\<lambda>_ st1.
              (Inr (workflow_result_of outcome (current_workflow workflow_id w' st1)), st1)))"

text \<open>The loop over the members, in the order of their steps.\<close>

fun cancel_members :: "uuid list \<Rightarrow> jobs \<Rightarrow> (exc + unit) \<times> jobs" where
  "cancel_members [] js = (Inr (), js)"
| "cancel_members (i # ids) js = (case dget js i of
      None \<Rightarrow> (Inl PyKeyError, js)
    | Some job \<Rightarrow>
        cancel_members ids
          (if fj_status job = BLOCKED \<or> fj_status job = QUEUED
           then dset i (job\<lparr>fj_status := CANCELLED\<rparr>) js else js))"

definition cancel_workflow :: "uuid \<Rightarrow> string option \<Rightarrow> fake \<Rightarrow> workflow_result res" where
  "cancel_workflow workflow_id reason st = ensure_open st (
     if \<not> workflow_cancel_valid reason then (Inl (ValidationError ''WorkflowCancelWireRequest''), st)
     else case dget (workflows st) workflow_id of
       None \<Rightarrow> (Inl (raise_code NOT_FOUND), st)
     | Some w \<Rightarrow>
         if fw_status w \<noteq> WF_RUNNING then (Inr (workflow_result_of WO_ALREADY_TERMINAL w), st)
         else if fw_cancel_requested w then (Inr (workflow_result_of WO_ALREADY_REQUESTED w), st)
         else
           let w' = w\<lparr>fw_cancel_requested := True, fw_sealed := True\<rparr>;
               st1 = put_workflow w' st
           in case cancel_members (dvalues (fw_steps w')) (jobs st1) of
                (Inl e, js) \<Rightarrow> (Inl e, st1\<lparr>jobs := js\<rparr>)
              | (Inr _, js) \<Rightarrow>
                  rbind (refresh_workflow w' (st1\<lparr>jobs := js\<rparr>)) (\<lambda>_ st2.
                    (Inr (workflow_result_of WO_CANCEL_REQUESTED (current_workflow workflow_id w' st2)),
                     st2)))"

definition get_workflow_authorization_projection ::
  "uuid \<Rightarrow> fake \<Rightarrow> (uuid \<times> string list) res" where
  "get_workflow_authorization_projection workflow_id st = (case dget (workflows st) workflow_id of
      None \<Rightarrow> (Inl (raise_code NOT_FOUND), st)
    | Some w \<Rightarrow> (Inr (fw_workflow_id w, fw_queues w), st))"

section \<open>Creation and sealing\<close>

lemma new_workflow_inv:
  assumes inv: "fake_inv us st" and dr: "inj_on us {..<Suc (drawn st)}"
    and key: "dget (workflow_keys st) key = None"
    and w: "fw_workflow_id w = us (drawn st)" "fw_workflow_key w = key" "fw_steps w = []"
      "fw_admitted_total w = 0" "\<not> fw_cancel_requested w" "\<And>l. fw_member_limit w = Some l \<Longrightarrow> 0 \<le> l"
    and st': "st' = (put_workflow w (draw st))
      \<lparr>workflow_keys := dset key (fw_workflow_id w) (workflow_keys st)\<rparr>"
  shows "fake_inv us st' \<and> evolves us st st'"
proof -
  let ?i = "us (drawn st)"
  let ?ws = "dset ?i w (workflows st)"
  have parts: "ids_inv us (drawn st) (jobs st) (order st) (workflows st)"
    "workflows_inv (jobs st) (workflows st) (workflow_keys st)"
    using inv by (simp_all add: fake_inv_def)
  note fr = fresh_draw [OF parts(1) dr]
  have sub: "us ` {..<drawn st} \<subseteq> us ` {..<Suc (drawn st)}" "?i \<in> us ` {..<Suc (drawn st)}" by auto
  have keys: "set (dkeys ?ws) = insert ?i (set (dkeys (workflows st)))" using fr(2) by simp
  have ids: "ids_inv us (Suc (drawn st)) (jobs st) (order st) ?ws"
    using parts(1) sub dr unfolding ids_inv_def keys by blast
  have "workflow_ok (jobs st) ?i w" using w by (simp add: workflow_ok_def)
  moreover have "member_ok ?ws j" if "member_ok (workflows st) j" for j
    using that fr(2) unfolding member_ok_def by (auto split: option.splits)
  moreover have "\<exists>v. dget ?ws wid = Some v \<and> fw_workflow_key v = k"
    if "dget (dset key ?i (workflow_keys st)) k = Some wid" for k wid
  proof (cases "k = key")
    case True
    then show ?thesis using that w by simp
  next
    case False
    then have "dget (workflow_keys st) k = Some wid" using that by simp
    then obtain v where "dget (workflows st) wid = Some v" "fw_workflow_key v = k"
      using parts(2) unfolding workflows_inv_def by blast
    then show ?thesis using fr(2) by auto
  qed
  ultimately have "workflows_inv (jobs st) ?ws (dset key ?i (workflow_keys st))"
    using parts(2) unfolding workflows_inv_def by simp
  then have "fake_inv us st'" using inv ids st' w(1) by (simp add: fake_inv_def put_workflow_def)
  moreover have "workflows_evolve (workflows st) ?ws" by (rule workflows_evolve_add [OF fr(2)])
  ultimately show ?thesis using st' w(1) by (simp add: evolves_def put_workflow_def)
qed

lemma create_workflow_sound [wf_rules]:
  assumes inv: "fake_inv us st" and dr: "inj_on us {..<drawn (snd (create_workflow us r st))}"
  shows "sound us st (create_workflow us r st)"
proof (cases "\<exists>x. snd (create_workflow us r st) = st")
  case True
  then show ?thesis using inv by (simp add: sound_def)
next
  case False
  obtain options where o: "\<not> closed st" "create_workflow_valid r"
      "continuation_options (cw_member_limit r) (cw_policy_hash r) = Inr options"
      "dget (workflow_keys st) (cw_workflow_key r) = None"
    using False unfolding create_workflow_def ensure_open_def create_workflow_init_def Let_def
    by (auto simp: result_simps split: if_splits sum.splits option.splits)
  let ?w = "new_workflow (us (drawn st)) r (sort (cw_declared_queues r)) options"
  let ?st = "(put_workflow ?w (draw st))
    \<lparr>workflow_keys := dset (cw_workflow_key r) (fw_workflow_id ?w) (workflow_keys st)\<rparr>"
  have snd: "snd (create_workflow us r st) = ?st"
    using False o unfolding create_workflow_def ensure_open_def create_workflow_init_def Let_def
    by (auto split: if_splits)
  have lim: "0 \<le> l" if "map_option cwo_member_limit options = Some l" for l
    using o(3) that
    by (auto simp: continuation_options_def continuation_workflow_options_init_def result_simps
        between_def Let_def split: if_splits)
  have "inj_on us {..<Suc (drawn st)}" using dr unfolding snd by (simp add: put_workflow_def)
  then have "fake_inv us ?st \<and> evolves us st ?st"
    by (rule new_workflow_inv [OF inv _ o(4), where w = ?w])
      (use lim in \<open>auto simp: new_workflow_def\<close>)
  then show ?thesis unfolding sound_def snd by simp
qed

lemma seal_workflow_sound [wf_rules]:
  assumes inv: "fake_inv us st"
  shows "sound us st (seal_workflow wid st)"
proof (cases "dget (workflows st) wid")
  case None
  then show ?thesis using inv by (simp add: seal_workflow_def ensure_open_def)
next
  case (Some w)
  let ?w = "w\<lparr>fw_sealed := True\<rparr>"
  have id: "fw_workflow_id w = wid"
    using inv Some unfolding fake_inv_def workflows_inv_def workflow_ok_def by blast
  have p: "fake_inv us (put_workflow ?w st) \<and> evolves us st (put_workflow ?w st)"
    by (rule put_workflow_inv [OF inv Some]) (simp_all add: same_members_def workflow_evolves_def)
  have w': "dget (workflows (put_workflow ?w st)) wid = Some ?w" using id by (simp add: put_workflow_def)
  obtain st1 where "refresh_workflow ?w (put_workflow ?w st) = (Inr (), st1)" "fake_inv us st1"
      "evolves us (put_workflow ?w st) st1"
    using refresh_inv [OF conjunct1 [OF p] w'] by blast
  then show ?thesis
    using p inv Some evolves_trans by (auto simp: seal_workflow_def ensure_open_def Let_def sound_def)
qed


section \<open>Cancellation\<close>

text \<open>What the loop over the members does, pointwise.\<close>

definition cancelled_members :: "uuid set \<Rightarrow> jobs \<Rightarrow> jobs \<Rightarrow> bool" where
  "cancelled_members ids js js' \<longleftrightarrow> dkeys js' = dkeys js \<and>
     (\<forall>k. dget js' k = (case dget js k of
         None \<Rightarrow> None
       | Some j \<Rightarrow> Some (if k \<in> ids \<and> pending_status (fj_status j)
                       then j\<lparr>fj_status := CANCELLED\<rparr> else j)))"

lemma cancel_members_spec:
  "\<forall>i \<in> set ids. dget js i \<noteq> None \<Longrightarrow>
   \<exists>js'. cancel_members ids js = (Inr (), js') \<and> cancelled_members (set ids) js js'"
proof (induction ids arbitrary: js)
  case Nil
  then show ?case by (auto simp: cancelled_members_def split: option.splits)
next
  case (Cons i ids)
  obtain j where j: "dget js i = Some j" using Cons.prems by auto
  let ?js = "if pending_status (fj_status j) then dset i (j\<lparr>fj_status := CANCELLED\<rparr>) js else js"
  have keys: "dkeys ?js = dkeys js" using j by simp
  have "\<forall>k \<in> set ids. dget ?js k \<noteq> None" using Cons.prems by auto
  then obtain js' where js': "cancel_members ids ?js = (Inr (), js')" "cancelled_members (set ids) ?js js'"
    using Cons.IH by blast
  have "dget js' k = (case dget js k of None \<Rightarrow> None
      | Some c \<Rightarrow> Some (if k \<in> set (i # ids) \<and> pending_status (fj_status c)
          then c\<lparr>fj_status := CANCELLED\<rparr> else c))" for k
    using js'(2) j unfolding cancelled_members_def
    by (cases "k = i") (auto simp: pending_status_def split: option.splits)
  then have "cancelled_members (set (i # ids)) js js'"
    using js'(2) keys unfolding cancelled_members_def by simp
  then show ?case using js'(1) j by (auto simp: pending_status_def)
qed

lemma cancel_members_inv:
  assumes inv: "fake_inv us st" and w: "dget (workflows st) wid = Some w"
    and js': "cancelled_members (set (dvalues (fw_steps w))) (jobs st) js'"
  shows "fake_inv us (st\<lparr>jobs := js'\<rparr>) \<and> evolves us st (st\<lparr>jobs := js'\<rparr>)"
proof -
  let ?ids = "set (dvalues (fw_steps w))"
  have parts: "ids_inv us (drawn st) (jobs st) (order st) (workflows st)" "jobs_ok (jobs st)"
    "dag_inv (jobs st)" "keys_inv (jobs st) (active_keys st)"
    "workflows_inv (jobs st) (workflows st) (workflow_keys st)"
    using inv by (simp_all add: fake_inv_def)
  have g: "dget js' k = (case dget (jobs st) k of None \<Rightarrow> None
      | Some j \<Rightarrow> Some (if k \<in> ?ids \<and> pending_status (fj_status j)
          then j\<lparr>fj_status := CANCELLED\<rparr> else j))" for k
    using js' unfolding cancelled_members_def by blast
  have sh: "same_shape (jobs st) js'"
    using js' g unfolding same_shape_def cancelled_members_def by (auto split: option.splits)
  have succ: "succeeded js' k = succeeded (jobs st) k" for k
    using g [of k] by (auto simp: succeeded_def pending_status_def split: option.splits)
  have member: "k \<in> ?ids" if k: "dget (jobs st) k = Some c" "job_workflow c = Some wid" for k c
  proof -
    have "member_ok (workflows st) c" "fj_job_id c = k"
      using parts(1,5) k(1) unfolding workflows_inv_def ids_inv_def ids_match_def by blast+
    then obtain s where "dget (fw_steps w) s = Some k" using w k(2) by (auto simp: member_ok_def)
    then show ?thesis by (force dest: map_of_SomeD)
  qed
  have wid: "job_workflow c = Some wid" if k: "dget (jobs st) k = Some c" "k \<in> ?ids" for k c
  proof -
    have ok: "workflow_ok (jobs st) wid w" using parts(5) w unfolding workflows_inv_def by blast
    then have "distinct (dkeys (fw_steps w))" by (simp add: workflow_ok_def)
    then obtain s where "dget (fw_steps w) s = Some k" using dvalues_dget k(2) by fast
    then show ?thesis using ok k(1) unfolding workflow_ok_def by fastforce
  qed
  have old: "\<exists>c. dget (jobs st) k = Some c \<and> (c' = c \<or>
      k \<in> ?ids \<and> pending_status (fj_status c) \<and> c' = c\<lparr>fj_status := CANCELLED\<rparr>)"
    if "dget js' k = Some c'" for k c'
    using g [of k] that by (auto split: option.splits if_splits)
  have "ids_inv us (drawn st) js' (order st) (workflows st)"
  proof (rule ids_inv_shape [OF parts(1) sh order_refl])
    show "inj_on us {..<drawn st}" using parts(1) by (simp add: ids_inv_def)
    fix k c' a assume "dget js' k = Some c'" "fj_attempt_id c' = Some a"
    then obtain c where "dget (jobs st) k = Some c" "fj_attempt_id c = Some a" using old by fastforce
    then show "a \<in> us ` {..<drawn st}" using parts(1) unfolding ids_inv_def by blast
  qed
  moreover have "jobs_ok js'"
    using parts(2) old unfolding jobs_ok_def
    by (fastforce simp: job_ok_def pending_status_def)
  moreover have "dag_inv js'"
  proof (rule dag_inv_update [OF parts(3) sh])
    show "keeps_success (jobs st) js'" by (simp add: keeps_success_def succ)
    fix k c c' assume c: "dget (jobs st) k = Some c" "dget js' k = Some c'"
    show "fj_status c' \<noteq> BLOCKED \<Longrightarrow> fj_status c' \<noteq> CANCELLED \<Longrightarrow>
        fj_status c \<noteq> BLOCKED \<and> fj_status c \<noteq> CANCELLED \<or> (\<forall>d \<in> set (deps c). succeeded js' d)"
      using old [OF c(2)] c(1) by auto
    show "(\<exists>d \<in> set (deps c). \<not> succeeded js' d) \<and> (\<forall>d \<in> set (deps c). \<not> dead js' d)"
      if b: "fj_status c' = BLOCKED"
    proof -
      have cb: "c' = c" "fj_status c = BLOCKED" using old [OF c(2)] c(1) b by auto
      have "k \<notin> ?ids"
      proof
        assume "k \<in> ?ids"
        then have "dget js' k = Some (c\<lparr>fj_status := CANCELLED\<rparr>)"
          using g [of k] c(1) cb(2) by (simp add: pending_status_def)
        then show False using c(2) b by auto
      qed
      then have nw: "job_workflow c \<noteq> Some wid" using member [OF c(1)] by blast
      note bl = blockedD [OF parts(3) c(1) cb(2)]
      have "\<not> dead js' d" if d: "d \<in> set (deps c)" for d
      proof -
        obtain p where p: "dget (jobs st) d = Some p" "job_workflow p = job_workflow c"
          using dep_parent [OF parts(3) c(1) d] by blast
        then have "d \<notin> ?ids" using wid [OF p(1)] nw by auto
        then have "dget js' d = Some p" using g [of d] p(1) by simp
        then show ?thesis using bspec [OF bl(2) d] p(1) by (simp add: dead_def)
      qed
      then show ?thesis using bl(1) succ by simp
    qed
  qed
  moreover have "keys_inv js' (active_keys st)"
  proof (rule keys_inv_shape [OF parts(4) sh])
    fix k c c' assume "dget (jobs st) k = Some c" "dget js' k = Some c'" "live_status (fj_status c')"
    then show "live_status (fj_status c)" using old [of k c'] by (auto simp: live_status_def)
  qed
  moreover have "workflows_inv js' (workflows st) (workflow_keys st)"
    by (rule workflows_inv_shape [OF parts(5) sh]) (simp add: keeps_success_def succ)
  moreover have "jobs_evolve us (drawn st) (drawn st) (jobs st) js'"
    unfolding jobs_evolve_def
    using g by (auto simp: job_evolves_def attempt_evolves_def status_leads_def pending_status_def terminal_status_def)
  ultimately show ?thesis by (simp add: fake_inv_def evolves_def)
qed

lemma cancel_workflow_sound [wf_rules]:
  assumes inv: "fake_inv us st"
  shows "sound us st (cancel_workflow wid reason st)"
proof (cases "\<exists>w. dget (workflows st) wid = Some w \<and> \<not> closed st \<and> workflow_cancel_valid reason \<and>
    fw_status w = WF_RUNNING \<and> \<not> fw_cancel_requested w")
  case False
  then show ?thesis
    using inv by (auto simp: cancel_workflow_def ensure_open_def split: option.splits)
next
  case True
  then obtain w where w: "dget (workflows st) wid = Some w" "\<not> closed st" "workflow_cancel_valid reason"
      "fw_status w = WF_RUNNING" "\<not> fw_cancel_requested w" by blast
  let ?w = "w\<lparr>fw_cancel_requested := True, fw_sealed := True\<rparr>"
  let ?st = "put_workflow ?w st"
  have ok: "workflow_ok (jobs st) wid w" and id: "fw_workflow_id w = wid"
    using inv w(1) unfolding fake_inv_def workflows_inv_def workflow_ok_def by blast+
  have p: "fake_inv us ?st" "evolves us st ?st"
    using put_workflow_inv [OF inv w(1), of ?w] by (simp_all add: same_members_def workflow_evolves_def)
  have w': "dget (workflows ?st) wid = Some ?w" and j: "jobs ?st = jobs st"
    using id by (simp_all add: put_workflow_def)
  have "\<forall>i \<in> set (dvalues (fw_steps ?w)). dget (jobs ?st) i \<noteq> None"
  proof
    fix i assume i: "i \<in> set (dvalues (fw_steps ?w))"
    have "distinct (dkeys (fw_steps w))" using ok by (simp add: workflow_ok_def)
    then obtain s where "dget (fw_steps w) s = Some i" using dvalues_dget i by fastforce
    then show "dget (jobs ?st) i \<noteq> None" using ok j unfolding workflow_ok_def by fastforce
  qed
  then obtain js' where js': "cancel_members (dvalues (fw_steps ?w)) (jobs ?st) = (Inr (), js')"
      "cancelled_members (set (dvalues (fw_steps ?w))) (jobs ?st) js'"
    using cancel_members_spec by blast
  note c = cancel_members_inv [OF p(1) w' js'(2)]
  have w2: "dget (workflows (?st\<lparr>jobs := js'\<rparr>)) wid = Some ?w" using w' by simp
  obtain st2 where r: "refresh_workflow ?w (?st\<lparr>jobs := js'\<rparr>) = (Inr (), st2)" "fake_inv us st2"
      "evolves us (?st\<lparr>jobs := js'\<rparr>) st2"
    using refresh_inv [OF conjunct1 [OF c] w2] by blast
  have "cancel_workflow wid reason st = (Inr (workflow_result_of WO_CANCEL_REQUESTED
      (current_workflow wid ?w st2)), st2)"
    using w js'(1) r(1) by (simp add: cancel_workflow_def ensure_open_def Let_def)
  then show ?thesis
    using r c p evolves_trans by (simp add: sound_def) blast
qed

lemma projection_sound [wf_rules]:
  "fake_inv us st \<Longrightarrow> sound us st (get_workflow_authorization_projection wid st)"
  by (auto simp: get_workflow_authorization_projection_def split: option.splits)

end
