(* ===== verification/FakeAdmission.thy ===== *)
theory FakeAdmission
  imports FakeEnqueue
begin

text \<open>
  Two-phase admission in the fake: \<open>reserve_admission\<close>, \<open>finish_admission\<close> and \<open>cancel_admission\<close>.
  \<open>sha\<close> is the hexadecimal SHA-256 digest of a text and \<open>isofmt\<close> the JSON form pydantic gives a
  datetime; both are parameters, of which only equality of results is used.
\<close>

section \<open>The digest of a finish\<close>

text \<open>\<open>json.dumps\<close> with its default \<open>ensure_ascii\<close>: the other code points appear inside strings only.\<close>

definition ascii_escape :: "char \<Rightarrow> string" where
  "ascii_escape c = (let n = ord_c c in
     if n < 128 then [c] else [CHR 0x5C] @ ''u00'' @ [hex_digit (n div 16), hex_digit n])"

definition json_dumps_ascii :: "json \<Rightarrow> string" where
  "json_dumps_ascii j = concat (map ascii_escape (json_dumps j))"

definition json_field :: "string \<Rightarrow> ('a \<Rightarrow> json) \<Rightarrow> 'a option \<Rightarrow> (string \<times> json) option" where
  "json_field k f x = map_option (\<lambda>v. (k, f v)) x"

definition backoff_json :: "backoff_mode \<Rightarrow> json" where
  "backoff_json m = JStr (case m of FIXED \<Rightarrow> ''fixed'' | EXPONENTIAL \<Rightarrow> ''exponential'')"

text \<open>\<open>model_dump(mode="json", exclude_none=True)\<close>\<close>

definition admission_job_json :: "(instant \<Rightarrow> string) \<Rightarrow> admission_job_command \<Rightarrow> json" where
  "admission_job_json isofmt j = JObj (List.map_filter id
     [Some (''job_type'', JStr (aj_job_type j)), Some (''payload'', JObj (aj_payload j)),
      json_field ''priority'' JInt (aj_priority j),
      json_field ''scheduled_at'' (\<lambda>t. JStr (isofmt t)) (aj_scheduled_at j),
      json_field ''concurrency_key'' JStr (aj_concurrency_key j),
      json_field ''affinity_key'' JStr (aj_affinity_key j),
      json_field ''max_attempts'' JInt (aj_max_attempts j),
      json_field ''lease_seconds'' JInt (aj_lease_seconds j),
      json_field ''backoff_mode'' backoff_json (aj_backoff_mode j),
      json_field ''backoff_base'' JInt (aj_backoff_base j),
      json_field ''backoff_cap'' JInt (aj_backoff_cap j),
      json_field ''headers'' JObj (aj_headers j)])"

definition finish_body :: "(instant \<Rightarrow> string) \<Rightarrow> admission_job_command \<Rightarrow> jobj \<Rightarrow> string" where
  "finish_body isofmt j receipt =
     json_dumps_ascii (json_sorted
       (JObj [(''job'', admission_job_json isofmt j), (''receipt'', JObj receipt)]))"

definition command_of_admission :: "string \<Rightarrow> admission_job_command \<Rightarrow> enqueue_command" where
  "command_of_admission q j =
     \<lparr>ec_queue = q, ec_job_type = aj_job_type j, ec_payload = aj_payload j,
      ec_priority = aj_priority j, ec_scheduled_at = aj_scheduled_at j, ec_idempotency_key = None,
      ec_concurrency_key = aj_concurrency_key j, ec_affinity_key = aj_affinity_key j,
      ec_max_attempts = aj_max_attempts j, ec_lease_seconds = aj_lease_seconds j,
      ec_backoff_mode = aj_backoff_mode j, ec_backoff_base = aj_backoff_base j,
      ec_backoff_cap = aj_backoff_cap j, ec_workflow_id = None, ec_step_key = None,
      ec_depends_on = None, ec_headers = aj_headers j, ec_ttl_seconds = None, ec_flow_key = None\<rparr>"

section \<open>Operations\<close>

datatype admission_reservation =
  AdmReserved uuid instant | AdmPending instant int | AdmAdmitted uuid jobj instant

definition admission_put :: "string \<times> string \<Rightarrow> fake_admission \<Rightarrow> fake \<Rightarrow> fake" where
  "admission_put identity a st = st\<lparr>admissions := dset identity a (admissions st)\<rparr>"

text \<open>The admitted data a stored admission carries; an absent part fails the model.\<close>

definition admitted_data :: "fake_admission \<Rightarrow> exc + uuid \<times> jobj \<times> instant" where
  "admitted_data a = (case (fa_job_id a, fa_receipt a, fa_receipt_expires_at a) of
      (Some i, Some r, Some t) \<Rightarrow> Inr (i, r, t)
    | _ \<Rightarrow> Inl (ValidationError ''Admission''))"

text \<open>\<open>max(1, int(seconds + 0.999))\<close> on a positive number of microseconds.\<close>

definition pending_seconds :: "instant \<Rightarrow> instant \<Rightarrow> int" where
  "pending_seconds expires now = max 1 ((expires - now + 999000) div 1000000)"

definition new_admission :: "admission_reserve_request \<Rightarrow> instant \<Rightarrow> fake_admission" where
  "new_admission r now =
     \<lparr>fa_intent_hash = ar_intent_hash r, fa_handle = ar_handle r,
      fa_expires_at = plus_seconds now (ar_reservation_ttl r), fa_receipt_ttl = ar_receipt_ttl r,
      fa_state = RESERVED, fa_finish_hash = None, fa_job_id = None, fa_receipt = None,
      fa_receipt_expires_at = None\<rparr>"

text \<open>An admission that no longer stands in the way of a new reservation.\<close>

definition admission_free :: "instant \<Rightarrow> fake_admission option \<Rightarrow> bool" where
  "admission_free now a = (case a of
      None \<Rightarrow> True
    | Some a \<Rightarrow> fa_state a = ADM_CANCELLED \<or> fa_state a = RESERVED \<and> fa_expires_at a \<le> now)"

definition reserve_admission ::
  "uuid_source \<Rightarrow> clock \<Rightarrow> string \<Rightarrow> string \<Rightarrow> string \<Rightarrow> uuid option \<Rightarrow> int \<Rightarrow> int \<Rightarrow> fake \<Rightarrow>
   admission_reservation res" where
  "reserve_admission us clk queue key intent_hash handle ttl receipt_ttl st0 = ensure_open st0 (
     let st = (if handle = None then draw st0 else st0);
         r = \<lparr>ar_idempotency_key = key, ar_intent_hash = intent_hash,
              ar_handle = (case handle of None \<Rightarrow> us (drawn st0) | Some h \<Rightarrow> h),
              ar_reservation_ttl = ttl, ar_receipt_ttl = receipt_ttl\<rparr>
     in if \<not> admission_reserve_valid r then (Inl (ValidationError ''AdmissionReserveRequest''), st)
        else if queue \<notin> known_queues st then (Inl (raise_code NOT_FOUND), st)
        else with_now clk st (\<lambda>now.
          let identity = (queue, ar_idempotency_key r);
              admission = dget (admissions st) identity
          in if admission_free now admission
             then let a = new_admission r now in
               (Inr (AdmReserved (fa_handle a) (fa_expires_at a)), admission_put identity a st)
             else case admission of
               None \<Rightarrow> (Inl PyKeyError, st)
             | Some a \<Rightarrow>
                 if fa_intent_hash a \<noteq> ar_intent_hash r
                 then (Inl (raise_reason CONFLICT ''idempotency_mismatch''), st)
                 else if fa_state a = ADMITTED
                 then (ebind (admitted_data a) (\<lambda>(i, rc, t). Inr (AdmAdmitted i rc t)), st)
                 else if fa_handle a = ar_handle r
                 then (Inr (AdmReserved (fa_handle a) (fa_expires_at a)), st)
                 else let n = pending_seconds (fa_expires_at a) now in
                   (if between 1 3600 n then Inr (AdmPending (fa_expires_at a) n)
                    else Inl (ValidationError ''AdmissionPendingResult''), st)))"

record admission_finish_result =
  afr_outcome :: enqueue_status
  afr_job_id :: uuid
  afr_receipt :: jobj
  afr_receipt_expires_at :: instant

definition finish_admission ::
  "(string \<Rightarrow> string) \<Rightarrow> (instant \<Rightarrow> string) \<Rightarrow> uuid_source \<Rightarrow> clock \<Rightarrow> string \<Rightarrow>
   admission_finish_request \<Rightarrow> fake \<Rightarrow> admission_finish_result res" where
  "finish_admission sha isofmt us clk queue r st = ensure_open st (
     if \<not> admission_finish_valid r then (Inl (ValidationError ''AdmissionFinishRequest''), st)
     else let identity = (queue, af_idempotency_key r) in
       case dget (admissions st) identity of
         None \<Rightarrow> (Inl (raise_code NOT_FOUND), st)
       | Some a \<Rightarrow>
           if fa_handle a \<noteq> af_handle r
           then (Inl (raise_reason CONFLICT ''reservation_conflict''), st)
           else let finish_hash = sha (finish_body isofmt (af_job r) (af_receipt r)) in
             (case fa_state a of
               ADMITTED \<Rightarrow>
                 if fa_finish_hash a \<noteq> Some finish_hash
                 then (Inl (raise_reason CONFLICT ''finish_mismatch''), st)
                 else (ebind (admitted_data a) (\<lambda>(i, rc, t). Inr
                   \<lparr>afr_outcome = EXISTED, afr_job_id = i, afr_receipt = rc,
                    afr_receipt_expires_at = t\<rparr>), st)
             | ADM_CANCELLED \<Rightarrow> (Inl (raise_reason CONFLICT ''reservation_cancelled''), st)
             | RESERVED \<Rightarrow> with_now clk st (\<lambda>now.
                 if fa_expires_at a \<le> now
                 then (Inl (raise_reason CONFLICT ''reservation_expired''), st)
                 else case enqueue_command_init (command_of_admission queue (af_job r)) of
                   Inl e \<Rightarrow> (Inl e, st)
                 | Inr c \<Rightarrow> rbind (enqueue us c st) (\<lambda>enqueued st1.
                     let expires = plus_seconds now (fa_receipt_ttl a) in
                     (Inr \<lparr>afr_outcome = CREATED, afr_job_id = er_job_id enqueued,
                        afr_receipt = af_receipt r, afr_receipt_expires_at = expires\<rparr>,
                      admission_put identity
                        (a\<lparr>fa_state := ADMITTED, fa_finish_hash := Some finish_hash,
                           fa_job_id := Some (er_job_id enqueued), fa_receipt := Some (af_receipt r),
                           fa_receipt_expires_at := Some expires\<rparr>) st1)))))"

datatype admission_cancel_result =
  AdmCancelled | AdmAlreadyCancelled | AdmExpired | AdmAlreadyAdmitted uuid jobj instant

definition cancel_admission ::
  "clock \<Rightarrow> string \<Rightarrow> string \<Rightarrow> uuid \<Rightarrow> fake \<Rightarrow> admission_cancel_result res" where
  "cancel_admission clk queue key handle st = ensure_open st (
     if \<not> admission_cancel_valid key handle then (Inl (ValidationError ''AdmissionCancelRequest''), st)
     else case dget (admissions st) (queue, key) of
       None \<Rightarrow> (Inl (raise_code NOT_FOUND), st)
     | Some a \<Rightarrow>
         if fa_handle a \<noteq> handle then (Inl (raise_reason CONFLICT ''reservation_conflict''), st)
         else (case fa_state a of
             ADMITTED \<Rightarrow> (ebind (admitted_data a) (\<lambda>(i, rc, t). Inr (AdmAlreadyAdmitted i rc t)), st)
           | ADM_CANCELLED \<Rightarrow> (Inr AdmAlreadyCancelled, st)
           | RESERVED \<Rightarrow> with_now clk st (\<lambda>now.
               if fa_expires_at a \<le> now then (Inr AdmExpired, st)
               else (Inr AdmCancelled,
                     admission_put (queue, key) (a\<lparr>fa_state := ADM_CANCELLED\<rparr>) st))))"

section \<open>The queue invariant\<close>

lemma admission_put_fields [simp]:
  "jobs (admission_put k a st) = jobs st" "order (admission_put k a st) = order st"
  "active_keys (admission_put k a st) = active_keys st" "workflows (admission_put k a st) = workflows st"
  "workflow_keys (admission_put k a st) = workflow_keys st" "drawn (admission_put k a st) = drawn st"
  "known_queues (admission_put k a st) = known_queues st"
  "dget (admissions (admission_put k a st)) k' = (if k' = k then Some a else dget (admissions st) k')"
  by (simp_all add: admission_put_def)

lemma sound_admission_put: "sound us st (r', st') \<Longrightarrow> sound us st (r, admission_put k a st')"
  by (simp add: sound_def fake_inv_def evolves_def)

lemma sound_draw:
  assumes "fake_inv us st" and "inj_on us {..<Suc (drawn st)}"
  shows "sound us st (r, draw st)"
proof -
  have ids: "ids_inv us (drawn st) (jobs st) (order st) (workflows st)"
    using assms(1) by (simp add: fake_inv_def)
  have "us ` {..<drawn st} \<subseteq> us ` {..<Suc (drawn st)}" by auto
  then have "ids_inv us (Suc (drawn st)) (jobs st) (order st) (workflows st)"
    using ids assms(2) unfolding ids_inv_def by blast
  then show ?thesis using assms(1) by (simp add: sound_def fake_inv_def evolves_def)
qed

lemma reserve_admission_sound [wf_rules]:
  assumes inv: "fake_inv us st"
    and dr: "inj_on us {..<drawn (snd (reserve_admission us clk q k h hdl ttl rttl st))}"
  shows "sound us st (reserve_admission us clk q k h hdl ttl rttl st)"
proof (cases "closed st")
  case True
  then show ?thesis using inv by (simp add: reserve_admission_def ensure_open_def)
next
  case False
  let ?st = "if hdl = None then draw st else st"
  let ?r = "reserve_admission us clk q k h hdl ttl rttl st"
  have state: "snd ?r = ?st \<or> (\<exists>i a. snd ?r = admission_put i a ?st)"
    using False unfolding reserve_admission_def ensure_open_def Let_def
    by (cases clk) (auto split: option.splits)
  then have "drawn (snd ?r) = drawn ?st" by auto
  then have "sound us st (Inl PyKeyError :: exc + unit, ?st)"
    using sound_draw [OF inv] dr inv by (cases hdl) auto
  then show ?thesis
    using state unfolding sound_def by (auto simp: fake_inv_def evolves_def)
qed

lemma command_of_admission_valid [simp]: "enqueue_command_valid (command_of_admission q j)"
  by (simp add: enqueue_command_valid_def command_of_admission_def)

lemma finish_admission_sound [wf_rules]:
  assumes inv: "fake_inv us st"
    and dr: "inj_on us {..<drawn (snd (finish_admission sha isofmt us clk q r st))}"
  shows "sound us st (finish_admission sha isofmt us clk q r st)"
proof -
  let ?c = "command_of_admission q (af_job r)"
  let ?f = "finish_admission sha isofmt us clk q r st"
  obtain e st1 where e: "enqueue us ?c st = (e, st1)" by (cases rule: prod.exhaust)
  have state: "snd ?f = st \<or> snd ?f = st1 \<or> (\<exists>i a. snd ?f = admission_put i a st1)"
    using e unfolding finish_admission_def ensure_open_def Let_def
    by (cases clk; cases e)
      (auto simp: enqueue_command_init_def split: option.splits admission_state.splits)
  show ?thesis
  proof (cases "snd ?f = st")
    case True
    then show ?thesis using inv by (simp add: sound_def)
  next
    case False
    then have "drawn (snd ?f) = drawn st1" using state by auto
    then have "sound us st (e, st1)" using enqueue_sound [OF inv, of ?c] dr e by simp
    then show ?thesis using state False unfolding sound_def by (auto simp: fake_inv_def evolves_def)
  qed
qed

lemma cancel_admission_sound [wf_rules]:
  "fake_inv us st \<Longrightarrow> sound us st (cancel_admission clk q k h st)"
  unfolding cancel_admission_def ensure_open_def
  by (cases clk)
    (auto split: option.splits admission_state.splits intro!: sound_admission_put [OF sound_same])


section \<open>What a reservation promises\<close>

lemma enqueue_plain_fresh:
  "command_key c = None \<Longrightarrow> ec_workflow_id c = None \<Longrightarrow> \<not> closed st \<Longrightarrow>
   enqueue us c st = record_enqueue (new_fake_job (us (drawn st)) c QUEUED) c CREATED
     (add_queue (ec_queue c) (insert_job (new_fake_job (us (drawn st)) c QUEUED) (draw st)))"
  by (simp add: enqueue_def enqueue_plain_def ensure_open_def set_key_def Let_def)

lemma finish_created:
  assumes "finish_admission sha isofmt us clk q r st = (Inr res, st1)" and "afr_outcome res = CREATED"
  shows "\<exists>a now. dget (admissions st) (q, af_idempotency_key r) = Some a \<and> fa_state a = RESERVED \<and>
    fa_handle a = af_handle r \<and> clk = Aware now \<and> now < fa_expires_at a \<and> admission_finish_valid r \<and>
    \<not> closed st \<and> afr_job_id res = us (drawn st) \<and> afr_receipt res = af_receipt r \<and>
    jobs st1 = dset (us (drawn st)) (new_fake_job (us (drawn st))
      (command_of_admission q (af_job r)) QUEUED) (jobs st) \<and> \<not> closed st1 \<and>
    dget (admissions st1) (q, af_idempotency_key r) = Some (a\<lparr>fa_state := ADMITTED,
      fa_finish_hash := Some (sha (finish_body isofmt (af_job r) (af_receipt r))),
      fa_job_id := Some (afr_job_id res), fa_receipt := Some (afr_receipt res),
      fa_receipt_expires_at := Some (afr_receipt_expires_at res)\<rparr>)"
proof -
  have k: "command_key (command_of_admission q j) = None" "ec_workflow_id (command_of_admission q j) = None" for j
    by (simp_all add: command_key_def command_of_admission_def)
  show ?thesis
    using assms unfolding finish_admission_def ensure_open_def Let_def
    by (cases clk)
      (auto simp: result_simps enqueue_command_init_def record_enqueue_def enqueue_plain_fresh [OF k]
        add_queue_def insert_job_def draw_def admission_put_def log_enqueue_def
        split: if_splits option.splits admission_state.splits)
qed

section \<open>A concrete reservation\<close>

definition sample_job :: admission_job_command where
  "sample_job = \<lparr>aj_job_type = ''t'', aj_payload = [], aj_priority = None, aj_scheduled_at = None,
     aj_concurrency_key = None, aj_affinity_key = None, aj_max_attempts = None,
     aj_lease_seconds = None, aj_backoff_mode = None, aj_backoff_base = None,
     aj_backoff_cap = None, aj_headers = None\<rparr>"

definition sample_finish :: "uuid \<Rightarrow> admission_finish_request" where
  "sample_finish h = \<lparr>af_idempotency_key = ''k'', af_handle = h, af_job = sample_job, af_receipt = []\<rparr>"

definition sample_reserved :: fake where
  "sample_reserved = admission_put (''q'', ''k'')
     (new_admission \<lparr>ar_idempotency_key = ''k'', ar_intent_hash = replicate 64 CHR ''a'',
        ar_handle = 7, ar_reservation_ttl = 300, ar_receipt_ttl = 3600\<rparr> 0) (new_fake [''q''])"

lemma sample_finish_valid: "h \<noteq> 0 \<Longrightarrow> admission_finish_valid (sample_finish h)"
  by (simp add: admission_finish_valid_def sample_finish_def sample_job_def admission_job_valid_def
      str_len_def bounded_json_def json_size_def)

lemma sample_reserved_fields:
  "dget (admissions sample_reserved) (''q'', ''k'') = Some
     (new_admission \<lparr>ar_idempotency_key = ''k'', ar_intent_hash = replicate 64 CHR ''a'',
        ar_handle = 7, ar_reservation_ttl = 300, ar_receipt_ttl = 3600\<rparr> 0)"
  "\<not> closed sample_reserved" "''q'' \<in> known_queues sample_reserved"
  by (simp_all add: sample_reserved_def admission_put_def new_fake_def)

definition sample_result :: admission_finish_result where
  "sample_result = \<lparr>afr_outcome = CREATED, afr_job_id = sample_ids 0, afr_receipt = [],
     afr_receipt_expires_at = plus_seconds 5 3600\<rparr>"

definition sample_admitted :: fake where
  "sample_admitted = snd (finish_admission (\<lambda>s. s) (\<lambda>_. []) sample_ids (Aware 5) ''q'' (sample_finish 7)
     sample_reserved)"

lemma sample_finish_result:
  "finish_admission (\<lambda>s. s) (\<lambda>_. []) sample_ids (Aware 5) ''q'' (sample_finish 7) sample_reserved =
     (Inr sample_result, sample_admitted)"
proof -
  have k: "command_key (command_of_admission q j) = None" "ec_workflow_id (command_of_admission q j) = None" for q j
    by (simp_all add: command_key_def command_of_admission_def)
  have v: "admission_finish_valid (sample_finish 7)" by (rule sample_finish_valid) simp
  have "drawn sample_reserved = 0" by (simp add: sample_reserved_def new_fake_def)
  then show ?thesis
    using v sample_reserved_fields unfolding sample_admitted_def
    by (simp add: finish_admission_def sample_result_def ensure_open_def enqueue_command_init_def
        new_admission_def sample_finish_def plus_seconds_def seconds_def Let_def
        enqueue_plain_fresh [OF k] record_enqueue_def)
qed

section \<open>Properties\<close>

text \<open>
  Finishing an admission is idempotent: once a finish has created its job, the same request,
  whatever the clock shows, answers \<open>existed\<close> with the same job, receipt and expiry, and changes
  nothing.
\<close>

theorem finish_admission_replay:
  assumes "finish_admission sha isofmt us clk q r st = (Inr res, st1)" and "afr_outcome res = CREATED"
  shows "finish_admission sha isofmt us clk' q r st1 = (Inr (res\<lparr>afr_outcome := EXISTED\<rparr>), st1) \<and>
    dget (jobs st1) (afr_job_id res) = Some (new_fake_job (afr_job_id res)
      (command_of_admission q (af_job r)) QUEUED)"
proof -
  obtain a now where a: "dget (admissions st) (q, af_idempotency_key r) = Some a"
      "fa_handle a = af_handle r" "admission_finish_valid r" "\<not> closed st1"
      "afr_job_id res = us (drawn st)"
      "jobs st1 = dset (us (drawn st)) (new_fake_job (us (drawn st))
        (command_of_admission q (af_job r)) QUEUED) (jobs st)"
      "dget (admissions st1) (q, af_idempotency_key r) = Some (a\<lparr>fa_state := ADMITTED,
        fa_finish_hash := Some (sha (finish_body isofmt (af_job r) (af_receipt r))),
        fa_job_id := Some (afr_job_id res), fa_receipt := Some (afr_receipt res),
        fa_receipt_expires_at := Some (afr_receipt_expires_at res)\<rparr>)"
    using finish_created [OF assms] by blast
  then show ?thesis
    by (simp add: finish_admission_def ensure_open_def Let_def admitted_data_def)
qed

lemma finish_admission_replay_witness:
  "finish_admission (\<lambda>s. s) (\<lambda>_. []) sample_ids Naive ''q'' (sample_finish 7) sample_admitted =
     (Inr (sample_result\<lparr>afr_outcome := EXISTED\<rparr>), sample_admitted)"
  using finish_admission_replay [OF sample_finish_result, of Naive] by (simp add: sample_result_def)

lemma pending_seconds_bounds:
  assumes "now < expires" and "expires \<le> now + seconds 3600"
  shows "between 1 3600 (pending_seconds expires now)"
    and "expires < now + seconds (pending_seconds expires now) + 1000"
proof -
  define x where "x = expires - now + 999000"
  have x: "999000 < x" "x \<le> 3600999000" using assms by (simp_all add: x_def seconds_def)
  have d: "x div 1000000 * 1000000 + x mod 1000000 = x" by (rule div_mult_mod_eq)
  have m: "0 \<le> x mod 1000000" "x mod 1000000 < 1000000" by simp_all
  have le: "x div 1000000 \<le> 3600" using x d m by linarith
  show "between 1 3600 (pending_seconds expires now)"
    using le by (simp add: pending_seconds_def between_def x_def [symmetric])
  have "x div 1000000 \<le> pending_seconds expires now" by (simp add: pending_seconds_def x_def)
  then show "expires < now + seconds (pending_seconds expires now) + 1000"
    using d m by (simp add: seconds_def x_def)
qed

text \<open>
  A reservation excludes every other handle until it expires: another caller with the same
  intent is told to wait, a positive number of seconds that ends less than a millisecond before the
  reservation does at the earliest, one with another intent is refused, another handle can neither
  finish nor cancel, and none of the calls changes the state.
\<close>

theorem reservation_exclusive:
  assumes a: "dget (admissions st) (q, key) = Some a" "fa_state a = RESERVED"
    and live: "now < fa_expires_at a" "fa_expires_at a \<le> now + seconds 3600"
    and open_: "\<not> closed st" "q \<in> known_queues st"
    and other: "handle \<noteq> fa_handle a"
    and valid: "admission_reserve_valid \<lparr>ar_idempotency_key = key, ar_intent_hash = h,
      ar_handle = handle, ar_reservation_ttl = ttl, ar_receipt_ttl = rttl\<rparr>"
    and r: "af_handle r = handle" "af_idempotency_key r = key" "admission_finish_valid r"
  shows "(\<exists>n. reserve_admission us (Aware now) q key h (Some handle) ttl rttl st =
      (if h = fa_intent_hash a then Inr (AdmPending (fa_expires_at a) n)
       else Inl (raise_reason CONFLICT ''idempotency_mismatch''), st) \<and>
      1 \<le> n \<and> fa_expires_at a < now + seconds n + 1000) \<and>
    finish_admission sha isofmt us clk q r st =
      (Inl (raise_reason CONFLICT ''reservation_conflict''), st) \<and>
    cancel_admission clk q key handle st = (Inl (raise_reason CONFLICT ''reservation_conflict''), st)"
proof (intro conjI)
  let ?n = "pending_seconds (fa_expires_at a) now"
  note n = pending_seconds_bounds [OF live]
  have "reserve_admission us (Aware now) q key h (Some handle) ttl rttl st =
      (if h = fa_intent_hash a then Inr (AdmPending (fa_expires_at a) ?n)
       else Inl (raise_reason CONFLICT ''idempotency_mismatch''), st)"
    using a live open_ other valid n
    by (simp add: reserve_admission_def ensure_open_def admission_free_def Let_def)
  then show "\<exists>n. reserve_admission us (Aware now) q key h (Some handle) ttl rttl st =
      (if h = fa_intent_hash a then Inr (AdmPending (fa_expires_at a) n)
       else Inl (raise_reason CONFLICT ''idempotency_mismatch''), st) \<and>
      1 \<le> n \<and> fa_expires_at a < now + seconds n + 1000"
    using n by (auto simp: between_def)
  show "finish_admission sha isofmt us clk q r st =
      (Inl (raise_reason CONFLICT ''reservation_conflict''), st)"
    using r a open_ other by (simp add: finish_admission_def ensure_open_def Let_def)
  have "admission_cancel_valid key handle"
    using valid by (simp add: admission_reserve_valid_def admission_cancel_valid_def)
  then show "cancel_admission clk q key handle st =
      (Inl (raise_reason CONFLICT ''reservation_conflict''), st)"
    using a open_ other by (simp add: cancel_admission_def ensure_open_def)
qed

lemma reservation_exclusive_witness:
  "\<exists>n. reserve_admission (\<lambda>i. of_nat i) (Aware 5) ''q'' ''k'' (replicate 64 CHR ''a'') (Some 8) 300 3600
      sample_reserved = (Inr (AdmPending 300000000 n), sample_reserved) \<and> 1 \<le> n"
proof -
  have "admission_reserve_valid \<lparr>ar_idempotency_key = ''k'', ar_intent_hash = replicate 64 CHR ''a'',
      ar_handle = 8, ar_reservation_ttl = 300, ar_receipt_ttl = 3600\<rparr>"
    by (simp add: admission_reserve_valid_def str_len_def policy_hash_def hex_char_def between_def
        list_all_iff)
  moreover have "admission_finish_valid (sample_finish 8)" by (rule sample_finish_valid) simp
  ultimately show ?thesis
    using reservation_exclusive [OF sample_reserved_fields(1) _ _ _ sample_reserved_fields(2,3),
        of 5 8 "replicate 64 CHR ''a''" 300 3600 "sample_finish 8" "\<lambda>i. of_nat i" "\<lambda>s. s" "\<lambda>_. []" Naive]
    by (auto simp: new_admission_def plus_seconds_def seconds_def sample_finish_def)
qed

end
