(* ===== verification/FakeSchedule.thy ===== *)
theory FakeSchedule
  imports FakeEnqueue "HOL-Library.Multiset"
begin

text \<open>
  The schedule operations of the fake: definitions with optimistic versions, claims with leases and
  tokens, firing, and error reports.  \<open>stamp\<close> is \<open>int(due.timestamp() * 1_000_000)\<close>, computed in
  floating point by the code and therefore a parameter.
\<close>

section \<open>Definitions\<close>

record schedule_profile =
  sp_schedule_id :: uuid
  sp_name :: string
  sp_target :: schedule_job_target
  sp_recurrence :: recurrence
  sp_catchup_policy :: catchup_policy
  sp_max_catchup :: int
  sp_state :: schedule_state
  sp_next_fire_at :: instant
  sp_last_fire_at :: "instant option"
  sp_version :: int

definition schedule_profile_of :: "fake_schedule \<Rightarrow> schedule_profile" where
  "schedule_profile_of s = (let d = fs_definition s in
     \<lparr>sp_schedule_id = fs_schedule_id s, sp_name = fs_name s, sp_target = sd_target d,
      sp_recurrence = sd_recurrence d, sp_catchup_policy = sd_catchup_policy d,
      sp_max_catchup = sd_max_catchup d, sp_state = fs_state s, sp_next_fire_at = fs_next_fire_at s,
      sp_last_fire_at = fs_last_fire_at s, sp_version = fs_version s\<rparr>)"

datatype schedule_write_outcome = SW_CREATED | SW_UNCHANGED | SW_UPDATED | SW_RETIRED | SW_ALREADY_RETIRED

type_synonym schedule_write = "schedule_write_outcome \<times> schedule_profile"

definition put_sched :: "fake_schedule \<Rightarrow> fake \<Rightarrow> fake" where
  "put_sched s st = st\<lparr>schedules := dset (fs_name s) s (schedules st)\<rparr>"

definition schedule_conflict :: "string \<Rightarrow> fake_schedule \<Rightarrow> exc" where
  "schedule_conflict reason s =
     raise_with CONFLICT [(''reason'', JStr reason), (''current_version'', JInt (fs_version s))]"

definition target_state :: "schedule_definition \<Rightarrow> schedule_state" where
  "target_state d = (if sd_paused d then SCHED_PAUSED else SCHED_ACTIVE)"

text \<open>The claim and the last action are dropped by every change of a definition.\<close>

definition reset_claim :: "fake_schedule \<Rightarrow> fake_schedule" where
  "reset_claim s = s\<lparr>fs_token := None, fs_claim_as_of := None, fs_claim_expires_at := None,
     fs_last_action_token := None, fs_last_action := None\<rparr>"

definition new_schedule :: "uuid \<Rightarrow> string \<Rightarrow> schedule_definition \<Rightarrow> instant \<Rightarrow> fake_schedule" where
  "new_schedule i name d now =
     \<lparr>fs_schedule_id = i, fs_name = name, fs_definition = d, fs_state = target_state d,
      fs_next_fire_at = now, fs_version = 1, fs_initialized = False, fs_last_fire_at = None,
      fs_token = None, fs_claim_as_of = None, fs_claim_expires_at = None, fs_retry_not_before = None,
      fs_last_action_token = None, fs_last_action = None\<rparr>"

definition pause_only :: "fake_schedule \<Rightarrow> schedule_definition \<Rightarrow> bool" where
  "pause_only s d \<longleftrightarrow> fs_state s = SCHED_ACTIVE \<and> target_state d = SCHED_PAUSED \<and>
     schedule_definition_eq ((fs_definition s)\<lparr>sd_paused := True\<rparr>) d"

definition updated_schedule :: "fake_schedule \<Rightarrow> schedule_definition \<Rightarrow> fake_schedule" where
  "updated_schedule s d = reset_claim
     (s\<lparr>fs_definition := d, fs_state := target_state d, fs_version := fs_version s + 1\<rparr>)"

text \<open>An update is written field by field; the clock is read last.\<close>

definition put_schedule ::
  "uuid_source \<Rightarrow> clock \<Rightarrow> string \<Rightarrow> schedule_definition \<Rightarrow> int option \<Rightarrow> fake \<Rightarrow> schedule_write res" where
  "put_schedule us clk name request expected_version st = ensure_open st (
     if st_queue (sd_target request) \<notin> known_queues st then (Inl (raise_code NOT_FOUND), st)
     else case dget (schedules st) name of
       None \<Rightarrow>
         if expected_version \<noteq> None then (Inl (raise_code NOT_FOUND), st)
         else with_now clk (draw st) (\<lambda>now.
           let s = new_schedule (us (drawn st)) name request now in
           (Inr (SW_CREATED, schedule_profile_of s), put_sched s (draw st)))
     | Some s \<Rightarrow> (case expected_version of
         None \<Rightarrow>
           if \<not> schedule_definition_eq (fs_definition s) request
           then (Inl (schedule_conflict ''schedule_mismatch'' s), st)
           else (Inr (SW_UNCHANGED, schedule_profile_of s), st)
       | Some v \<Rightarrow>
           if v \<noteq> fs_version s then (Inl (schedule_conflict ''schedule_version_conflict'' s), st)
           else if fs_state s = SCHED_RETIRED
           then (Inl (schedule_conflict ''schedule_retired'' s), st)
           else if schedule_definition_eq (fs_definition s) request \<and> fs_state s = target_state request
           then (Inr (SW_UNCHANGED, schedule_profile_of s), st)
           else
             let s1 = updated_schedule s request in
             if pause_only s request then (Inr (SW_UPDATED, schedule_profile_of s1), put_sched s1 st)
             else
               let s2 = s1\<lparr>fs_initialized := False\<rparr> in
               with_now clk (put_sched s2 st) (\<lambda>now.
                 let s3 = s2\<lparr>fs_next_fire_at := now\<rparr> in
                 (Inr (SW_UPDATED, schedule_profile_of s3), put_sched s3 st))))"

definition get_schedule :: "string \<Rightarrow> fake \<Rightarrow> schedule_profile res" where
  "get_schedule name st = ensure_open st (case dget (schedules st) name of
      None \<Rightarrow> (Inl (raise_code NOT_FOUND), st)
    | Some s \<Rightarrow> (Inr (schedule_profile_of s), st))"

definition retire_schedule :: "string \<Rightarrow> int \<Rightarrow> fake \<Rightarrow> schedule_write res" where
  "retire_schedule name expected_version st = ensure_open st (case dget (schedules st) name of
      None \<Rightarrow> (Inl (raise_code NOT_FOUND), st)
    | Some s \<Rightarrow>
        if expected_version \<noteq> fs_version s
        then (Inl (schedule_conflict ''schedule_version_conflict'' s), st)
        else if fs_state s = SCHED_RETIRED then (Inr (SW_ALREADY_RETIRED, schedule_profile_of s), st)
        else let s1 = reset_claim (s\<lparr>fs_state := SCHED_RETIRED, fs_version := fs_version s + 1\<rparr>) in
          (Inr (SW_RETIRED, schedule_profile_of s1), put_sched s1 st))"

definition get_schedule_authorization_projection :: "string \<Rightarrow> fake \<Rightarrow> (string \<times> string option) res" where
  "get_schedule_authorization_projection name st = ensure_open st
     (Inr (name, map_option (\<lambda>s. st_queue (sd_target (fs_definition s))) (dget (schedules st) name)), st)"

section \<open>Claims\<close>

record schedule_claim =
  sc_schedule_id :: uuid
  sc_name :: string
  sc_version :: int
  sc_as_of :: instant
  sc_target :: schedule_job_target
  sc_recurrence :: recurrence
  sc_catchup_policy :: catchup_policy
  sc_max_catchup :: int
  sc_initialized :: bool
  sc_next_fire_at :: instant
  sc_token :: uuid
  sc_lease_seconds :: int

definition schedule_claimable :: "instant \<Rightarrow> fake_schedule \<Rightarrow> bool" where
  "schedule_claimable now s \<longleftrightarrow>
     \<not> (fs_state s \<noteq> SCHED_ACTIVE \<or> fs_next_fire_at s > now \<or>
        (case fs_retry_not_before s of None \<Rightarrow> False | Some t \<Rightarrow> t > now) \<or>
        fs_token s \<noteq> None \<and> (case fs_claim_expires_at s of None \<Rightarrow> False | Some t \<Rightarrow> t > now))"

definition claimed_schedule :: "uuid \<Rightarrow> instant \<Rightarrow> int \<Rightarrow> fake_schedule \<Rightarrow> fake_schedule" where
  "claimed_schedule token now lease s = s\<lparr>fs_token := Some token, fs_claim_as_of := Some now,
     fs_claim_expires_at := Some (plus_seconds now lease)\<rparr>"

definition schedule_claim_of :: "uuid \<Rightarrow> instant \<Rightarrow> int \<Rightarrow> fake_schedule \<Rightarrow> schedule_claim" where
  "schedule_claim_of token now lease s = (let d = fs_definition s in
     \<lparr>sc_schedule_id = fs_schedule_id s, sc_name = fs_name s, sc_version = fs_version s,
      sc_as_of = now, sc_target = sd_target d, sc_recurrence = sd_recurrence d,
      sc_catchup_policy = sd_catchup_policy d, sc_max_catchup = sd_max_catchup d,
      sc_initialized = fs_initialized s, sc_next_fire_at = fs_next_fire_at s, sc_token = token,
      sc_lease_seconds = lease\<rparr>)"

fun claim_schedule_scan ::
  "uuid_source \<Rightarrow> instant \<Rightarrow> int \<Rightarrow> int \<Rightarrow> fake_schedule list \<Rightarrow> schedule_claim list \<Rightarrow> fake \<Rightarrow>
   schedule_claim list \<times> fake" where
  "claim_schedule_scan us now limit lease [] claims st = (claims, st)"
| "claim_schedule_scan us now limit lease (s # ss) claims st =
     (if \<not> schedule_claimable now s then claim_schedule_scan us now limit lease ss claims st
      else
        let token = us (drawn st);
            st1 = put_sched (claimed_schedule token now lease s) (draw st);
            claims1 = claims @ [schedule_claim_of token now lease s]
        in if int (length claims1) = limit then (claims1, st1)
           else claim_schedule_scan us now limit lease ss claims1 st1)"

text \<open>\<open>sorted(.., key=(next_fire_at, name))\<close>\<close>

definition schedule_candidates :: "fake \<Rightarrow> fake_schedule list" where
  "schedule_candidates st = sort_key (\<lambda>s. (fs_next_fire_at s, fs_name s)) (dvalues (schedules st))"

definition claim_schedules ::
  "uuid_source \<Rightarrow> clock \<Rightarrow> int \<Rightarrow> int \<Rightarrow> fake \<Rightarrow> schedule_claim list res" where
  "claim_schedules us clk limit lease st = ensure_open st (
     if \<not> (1 \<le> limit \<and> limit \<le> 100) \<or> \<not> (5 \<le> lease \<and> lease \<le> 300)
     then (Inl (raise_code VALIDATION), st)
     else with_now clk st (\<lambda>now.
       case claim_schedule_scan us now limit lease (schedule_candidates st) [] st of
         (claims, st1) \<Rightarrow> (Inr claims, st1)))"

section \<open>Firing\<close>

definition schedule_by_id :: "fake \<Rightarrow> uuid \<Rightarrow> exc + fake_schedule" where
  "schedule_by_id st i = (case find (\<lambda>s. fs_schedule_id s = i) (dvalues (schedules st)) of
      None \<Rightarrow> Inl (raise_code NOT_FOUND) | Some s \<Rightarrow> Inr s)"

definition action_result ::
  "schedule_outcome \<Rightarrow> int \<Rightarrow> fake_schedule \<Rightarrow> schedule_action_result" where
  "action_result oc n s =
     \<lparr>sa_outcome = oc, sa_replayed = False, sa_schedule_id = fs_schedule_id s, sa_jobs_enqueued = n,
      sa_next_fire_at = fs_next_fire_at s, sa_state = fs_state s, sa_version = fs_version s\<rparr>"

definition occurrence_key :: "(instant \<Rightarrow> int) \<Rightarrow> uuid \<Rightarrow> instant \<Rightarrow> string" where
  "occurrence_key stamp i due = ''schedule:'' @ uuid_str i @ '':'' @ int_str (stamp due)"

definition occurrence_command :: "(instant \<Rightarrow> int) \<Rightarrow> fake_schedule \<Rightarrow> instant \<Rightarrow> enqueue_command" where
  "occurrence_command stamp s due = (let t = sd_target (fs_definition s) in
     \<lparr>ec_queue = st_queue t, ec_job_type = st_job_type t, ec_payload = st_payload t,
      ec_priority = st_priority t, ec_scheduled_at = Some due,
      ec_idempotency_key = Some (occurrence_key stamp (fs_schedule_id s) due),
      ec_concurrency_key = st_concurrency_key t, ec_affinity_key = st_affinity_key t,
      ec_max_attempts = st_max_attempts t, ec_lease_seconds = st_lease_seconds t,
      ec_backoff_mode = st_backoff_mode t, ec_backoff_base = st_backoff_base t,
      ec_backoff_cap = st_backoff_cap t, ec_workflow_id = None, ec_step_key = None,
      ec_depends_on = None, ec_headers = Some (st_headers t), ec_ttl_seconds = None,
      ec_flow_key = None\<rparr>)"

fun fire_occurrences ::
  "(instant \<Rightarrow> int) \<Rightarrow> uuid_source \<Rightarrow> fake_schedule \<Rightarrow> instant list \<Rightarrow> int \<Rightarrow> fake \<Rightarrow> int res" where
  "fire_occurrences stamp us s [] n st = (Inr n, st)"
| "fire_occurrences stamp us s (due # dues) n st =
     (case enqueue_command_init (occurrence_command stamp s due) of
       Inl e \<Rightarrow> (Inl e, st)
     | Inr c \<Rightarrow> rbind (enqueue us c st) (\<lambda>r st1.
         fire_occurrences stamp us s dues (if er_created r then n + 1 else n) st1))"

definition fired_schedule ::
  "fake_schedule \<Rightarrow> uuid \<Rightarrow> instant list \<Rightarrow> instant \<Rightarrow> int \<Rightarrow> fake_schedule \<times> schedule_action_result" where
  "fired_schedule s token occurrences next n =
     (let oc = (if \<not> fs_initialized s then SO_INITIALIZED
                else if sd_catchup_policy (fs_definition s) = SKIP then SO_SKIPPED else SO_FIRED);
          s1 = s\<lparr>fs_initialized := True, fs_next_fire_at := next,
                 fs_last_fire_at := (if occurrences = [] then fs_last_fire_at s else Some (last occurrences)),
                 fs_token := None, fs_claim_as_of := None, fs_claim_expires_at := None,
                 fs_retry_not_before := None\<rparr>;
          r = action_result oc n s1
      in (s1\<lparr>fs_last_action_token := Some token, fs_last_action := Some r\<rparr>, r))"

text \<open>The clock is read only when everything else matches and the claim has an expiry.\<close>

definition fire_schedule ::
  "(instant \<Rightarrow> int) \<Rightarrow> uuid_source \<Rightarrow> clock \<Rightarrow> uuid \<Rightarrow> uuid \<Rightarrow> int \<Rightarrow> instant list \<Rightarrow> instant \<Rightarrow> fake \<Rightarrow>
   schedule_action_result res" where
  "fire_schedule stamp us clk schedule_id token version occurrences next st = ensure_open st (
     case schedule_by_id st schedule_id of
       Inl e \<Rightarrow> (Inl e, st)
     | Inr s \<Rightarrow>
         let stale = (Inr (action_result SO_STALE 0 s), st);
             fire = rbind (fire_occurrences stamp us s occurrences 0 st) (\<lambda>n st1.
               case fired_schedule s token occurrences next n of
                 (s1, r) \<Rightarrow> (Inr r, put_sched s1 st1))
         in case (if fs_last_action_token s = Some token then fs_last_action s else None) of
              Some a \<Rightarrow> (Inr (a\<lparr>sa_replayed := True\<rparr>), st)
            | None \<Rightarrow>
                if fs_state s \<noteq> SCHED_ACTIVE \<or> fs_version s \<noteq> version \<or> fs_token s \<noteq> Some token
                then stale
                else (case fs_claim_expires_at s of
                    None \<Rightarrow> fire
                  | Some t \<Rightarrow> with_now clk st (\<lambda>now. if t < now then stale else fire)))"

definition schedule_error ::
  "clock \<Rightarrow> uuid \<Rightarrow> uuid \<Rightarrow> int \<Rightarrow> int \<Rightarrow> fake \<Rightarrow> schedule_action_result res" where
  "schedule_error clk schedule_id token version retry_seconds st = ensure_open st (
     case schedule_by_id st schedule_id of
       Inl e \<Rightarrow> (Inl e, st)
     | Inr s \<Rightarrow>
         if fs_version s \<noteq> version \<or> fs_token s \<noteq> Some token \<or> fs_state s \<noteq> SCHED_ACTIVE
         then (Inr (action_result SO_STALE 0 s), st)
         else
           let s1 = s\<lparr>fs_token := None, fs_claim_as_of := None, fs_claim_expires_at := None\<rparr> in
           with_now clk (put_sched s1 st) (\<lambda>now.
             let s2 = s1\<lparr>fs_retry_not_before := Some (plus_seconds now retry_seconds)\<rparr> in
             (Inr (action_result SO_ERROR_RECORDED 0 s2), put_sched s2 st)))"


section \<open>The queue invariant\<close>

text \<open>The parts of the state the queue invariant reads.\<close>

definition same_queue :: "fake \<Rightarrow> fake \<Rightarrow> bool" where
  "same_queue st st' \<longleftrightarrow> jobs st' = jobs st \<and> order st' = order st \<and>
     active_keys st' = active_keys st \<and> workflows st' = workflows st \<and>
     workflow_keys st' = workflow_keys st \<and> known_queues st \<subseteq> known_queues st' \<and>
     drawn st \<le> drawn st'"

lemma same_queue_refl [simp]: "same_queue st st"
  by (simp add: same_queue_def)

lemma same_queue_trans: "same_queue st st' \<Longrightarrow> same_queue st' st'' \<Longrightarrow> same_queue st st''"
  by (auto simp: same_queue_def)

lemma same_queue_put_sched [simp]: "same_queue st (put_sched s st') = same_queue st st'"
  by (simp add: same_queue_def put_sched_def)

lemma same_queue_draw [simp]: "same_queue st st' \<Longrightarrow> same_queue st (draw st')"
  by (simp add: same_queue_def)

lemma same_queue_sound:
  assumes inv: "fake_inv us st" and q: "same_queue st st'" and dr: "inj_on us {..<drawn st'}"
  shows "sound us st (r, st')"
proof -
  have ids: "ids_inv us (drawn st) (jobs st) (order st) (workflows st)"
    using inv by (simp add: fake_inv_def)
  have "us ` {..<drawn st} \<subseteq> us ` {..<drawn st'}" using q by (auto simp: same_queue_def)
  then have "ids_inv us (drawn st') (jobs st) (order st) (workflows st)"
    using ids dr unfolding ids_inv_def by blast
  then show ?thesis using inv q by (simp add: sound_def fake_inv_def evolves_def same_queue_def)
qed

lemma claim_scan_same_queue: "same_queue st (snd (claim_schedule_scan us now lm l ss cs st))"
proof (induction ss arbitrary: cs st)
  case (Cons s ss)
  let ?st = "put_sched (claimed_schedule (us (drawn st)) now l s) (draw st)"
  let ?c = "cs @ [schedule_claim_of (us (drawn st)) now l s]"
  have a: "same_queue st ?st" by simp
  have b: "same_queue ?st (snd (claim_schedule_scan us now lm l ss ?c ?st))" by (rule Cons)
  have "same_queue st (snd (claim_schedule_scan us now lm l ss ?c ?st))"
    by (rule same_queue_trans [OF a b])
  then show ?case using Cons a by (simp add: Let_def)
qed simp

lemma sound_of_same_queue:
  "fake_inv us st \<Longrightarrow> same_queue st (snd r) \<Longrightarrow> inj_on us {..<drawn (snd r)} \<Longrightarrow> sound us st r"
  using same_queue_sound [of us st "snd r" "fst r"] by simp

lemma put_schedule_sound [wf_rules]:
  assumes "fake_inv us st" and "inj_on us {..<drawn (snd (put_schedule us clk nm d v st))}"
  shows "sound us st (put_schedule us clk nm d v st)"
  by (rule sound_of_same_queue [OF assms(1) _ assms(2)], cases clk)
    (auto simp: put_schedule_def ensure_open_def Let_def split: option.splits)

lemma retire_schedule_sound [wf_rules]:
  "fake_inv us st \<Longrightarrow> inj_on us {..<drawn (snd (retire_schedule nm v st))} \<Longrightarrow>
   sound us st (retire_schedule nm v st)"
  by (rule sound_of_same_queue)
    (auto simp: retire_schedule_def ensure_open_def Let_def split: option.splits)

lemma claim_schedules_sound [wf_rules]:
  assumes "fake_inv us st" and "inj_on us {..<drawn (snd (claim_schedules us clk lm l st))}"
  shows "sound us st (claim_schedules us clk lm l st)"
proof (rule sound_of_same_queue [OF assms(1) _ assms(2)])
  show "same_queue st (snd (claim_schedules us clk lm l st))"
    using claim_scan_same_queue [of st us _ lm l "schedule_candidates st" "[]"]
    by (cases clk) (auto simp: claim_schedules_def ensure_open_def split_beta)
qed

lemma schedule_error_sound [wf_rules]:
  assumes "fake_inv us st" and "inj_on us {..<drawn (snd (schedule_error clk i t v n st))}"
  shows "sound us st (schedule_error clk i t v n st)"
  by (rule sound_of_same_queue [OF assms(1) _ assms(2)], cases clk)
    (auto simp: schedule_error_def ensure_open_def Let_def split: sum.splits)

lemma occurrence_command_valid [simp]: "enqueue_command_valid (occurrence_command stamp s due)"
  by (simp add: enqueue_command_valid_def occurrence_command_def Let_def)

lemma fire_occurrences_step:
  "fire_occurrences stamp us s (due # dues) n st = rbind (enqueue us (occurrence_command stamp s due) st)
     (\<lambda>r st1. fire_occurrences stamp us s dues (if er_created r then n + 1 else n) st1)"
  by (simp add: enqueue_command_init_def)

lemma fire_occurrences_drawn: "drawn st \<le> drawn (snd (fire_occurrences stamp us s dues n st))"
proof (induction dues arbitrary: n st)
  case (Cons due dues)
  obtain r st1 where r: "enqueue us (occurrence_command stamp s due) st = (r, st1)"
    by (cases rule: prod.exhaust)
  have "drawn st \<le> drawn st1" using enqueue_drawn_mono [of st us "occurrence_command stamp s due"] r by simp
  then have "drawn st \<le> drawn (snd (fire_occurrences stamp us s dues m st1))" for m
    using Cons [of st1 m] by linarith
  then show ?case
    using r \<open>drawn st \<le> drawn st1\<close>
    by (cases r) (simp_all add: fire_occurrences_step del: fire_occurrences.simps)
qed simp

lemma fire_occurrences_sound:
  assumes "fake_inv us st" and "inj_on us {..<drawn (snd (fire_occurrences stamp us s dues n st))}"
  shows "sound us st (fire_occurrences stamp us s dues n st)"
  using assms
proof (induction dues arbitrary: n st)
  case (Cons due dues)
  let ?c = "occurrence_command stamp s due"
  obtain r st1 where r: "enqueue us ?c st = (r, st1)" by (cases rule: prod.exhaust)
  let ?rest = "\<lambda>x. fire_occurrences stamp us s dues (if er_created x then n + 1 else n) st1"
  have all: "fire_occurrences stamp us s (due # dues) n st = (case r of Inl e \<Rightarrow> (Inl e, st1) | Inr x \<Rightarrow> ?rest x)"
    unfolding fire_occurrences_step r by (cases r) simp_all
  have "drawn st1 \<le> drawn (snd (fire_occurrences stamp us s (due # dues) n st))"
    unfolding all using fire_occurrences_drawn by (cases r) simp_all
  then have "inj_on us {..<drawn st1}"
    using Cons.prems(2) by (meson inj_on_subset lessThan_subset_iff)
  then have s1: "sound us st (r, st1)" using enqueue_sound [OF Cons.prems(1), of ?c] r by simp
  show ?case
  proof (cases r)
    case (Inl e)
    then show ?thesis using s1 unfolding all by (simp add: sound_def)
  next
    case (Inr x)
    then have dr: "inj_on us {..<drawn (snd (?rest x))}" using Cons.prems(2) unfolding all by simp
    have i1: "fake_inv us st1" "evolves us st st1" using s1 by (simp_all add: sound_def)
    have "sound us st1 (?rest x)" by (rule Cons.IH [OF i1(1) dr])
    from sound_step [OF i1(2) this] show ?thesis unfolding all Inr by simp
  qed
qed simp

lemma fire_schedule_sound [wf_rules]:
  assumes inv: "fake_inv us st" and dr: "inj_on us {..<drawn (snd (fire_schedule stamp us clk i t v oc nx st))}"
  shows "sound us st (fire_schedule stamp us clk i t v oc nx st)"
proof (cases "schedule_by_id st i")
  case (Inl e)
  then show ?thesis using inv by (simp add: fire_schedule_def ensure_open_def)
next
  case (Inr s)
  obtain r st1 where r: "fire_occurrences stamp us s oc 0 st = (r, st1)" by (cases rule: prod.exhaust)
  let ?f = "fire_schedule stamp us clk i t v oc nx st"
  have state: "snd ?f = st \<or> snd ?f = st1 \<or> (\<exists>s. snd ?f = put_sched s st1)"
    using Inr r unfolding fire_schedule_def ensure_open_def Let_def
    by (cases clk; cases r) (auto simp: split_beta split: option.splits)
  show ?thesis
  proof (cases "snd ?f = st")
    case True
    then show ?thesis using inv by (simp add: sound_def)
  next
    case False
    then have "drawn (snd ?f) = drawn st1" using state by (auto simp: put_sched_def)
    then have "sound us st (r, st1)" using fire_occurrences_sound [OF inv, of stamp s oc 0] dr r by simp
    then show ?thesis
      using state False unfolding sound_def by (auto simp: fake_inv_def evolves_def put_sched_def)
  qed
qed


section \<open>Well-formed schedule tables\<close>

text \<open>A schedule is stored under its name, and no two share an identifier.\<close>

definition schedules_ok :: "(string, fake_schedule) dict \<Rightarrow> bool" where
  "schedules_ok d \<longleftrightarrow> distinct (dkeys d) \<and> list_all (\<lambda>(k, s). fs_name s = k) d \<and>
     distinct (map fs_schedule_id (dvalues d))"

lemma find_distinct: "distinct (map f xs) \<Longrightarrow> x \<in> set xs \<Longrightarrow> find (\<lambda>y. f y = f x) xs = Some x"
  by (induction xs) auto

lemma schedules_ok_id:
  assumes "schedules_ok (schedules st)" and "dget (schedules st) name = Some s"
  shows "schedule_by_id st (fs_schedule_id s) = Inr s"
proof -
  have "s \<in> set (dvalues (schedules st))" using map_of_SomeD [OF assms(2)] by force
  then have "find (\<lambda>y. fs_schedule_id y = fs_schedule_id s) (dvalues (schedules st)) = Some s"
    by (rule find_distinct [rotated]) (use assms(1) in \<open>simp add: schedules_ok_def\<close>)
  then show ?thesis by (simp add: schedule_by_id_def)
qed

lemma find_after_put:
  "distinct (dkeys d) \<Longrightarrow> list_all (\<lambda>(k, s). fs_name s = k) d \<Longrightarrow>
   find (\<lambda>s. fs_schedule_id s = i) (dvalues d) = Some s \<Longrightarrow>
   fs_name s' = fs_name s \<Longrightarrow> fs_schedule_id s' = i \<Longrightarrow>
   find (\<lambda>s. fs_schedule_id s = i) (dvalues (dset (fs_name s') s' d)) = Some s'"
proof (induction d)
  case (Cons p d)
  obtain k b where p: "p = (k, b)" by (cases p)
  show ?case
  proof (cases "fs_schedule_id b = i")
    case True
    then show ?thesis using Cons.prems p by auto
  next
    case False
    then have f: "find (\<lambda>s. fs_schedule_id s = i) (dvalues d) = Some s" using Cons.prems(3) p by simp
    then have "s \<in> set (dvalues d)" by (auto simp: find_Some_iff)
    then obtain k' where "(k', s) \<in> set d" by auto
    then have "fs_name s \<in> set (dkeys d)" using Cons.prems(2) by (force simp: list_all_iff)
    then have "k \<noteq> fs_name s'" using Cons.prems(1,4) p by auto
    then show ?thesis using Cons.IH [OF _ _ f Cons.prems(4,5)] Cons.prems(1,2) False p by simp
  qed
qed simp

lemma schedule_by_id_put:
  assumes "schedules_ok (schedules st)" and "schedule_by_id st i = Inr s" and "schedules st1 = schedules st"
    and "fs_name s' = fs_name s" and "fs_schedule_id s' = fs_schedule_id s"
  shows "schedule_by_id (put_sched s' st1) i = Inr s'"
proof -
  have f: "find (\<lambda>s. fs_schedule_id s = i) (dvalues (schedules st)) = Some s"
    using assms(2) by (auto simp: schedule_by_id_def split: option.splits)
  then have "fs_schedule_id s = i" by (auto simp: find_Some_iff)
  then show ?thesis
    using find_after_put [OF _ _ f assms(4)] assms(1,3,5)
    by (simp add: schedule_by_id_def put_sched_def schedules_ok_def)
qed

section \<open>A concrete schedule\<close>

definition sample_target :: schedule_job_target where
  "sample_target = \<lparr>st_queue = ''q'', st_job_type = ''t'', st_payload = [], st_headers = [],
     st_priority = None, st_max_attempts = None, st_lease_seconds = None, st_backoff_mode = None,
     st_backoff_base = None, st_backoff_cap = None, st_concurrency_key = None, st_affinity_key = None\<rparr>"

definition sample_definition :: schedule_definition where
  "sample_definition = \<lparr>sd_target = sample_target, sd_recurrence = Interval 60,
     sd_catchup_policy = FIRE_ONCE, sd_max_catchup = 10, sd_paused = False\<rparr>"

definition sample_scheduled :: fake where
  "sample_scheduled = put_sched (new_schedule 1 ''n'' sample_definition 0) (draw (new_fake [''q'']))"

definition sample_claimed :: fake where
  "sample_claimed = put_sched (claimed_schedule 2 5 60 (new_schedule 1 ''n'' sample_definition 0))
     (draw sample_scheduled)"

lemma sample_scheduled_put:
  "put_schedule sample_ids (Aware 0) ''n'' sample_definition None (new_fake [''q'']) =
     (Inr (SW_CREATED, schedule_profile_of (new_schedule 1 ''n'' sample_definition 0)), sample_scheduled)"
  by (simp add: put_schedule_def ensure_open_def new_fake_def sample_definition_def sample_target_def
      sample_scheduled_def draw_def sample_ids_def Let_def)

lemma sample_schedules:
  "schedules sample_scheduled = [(''n'', new_schedule 1 ''n'' sample_definition 0)]"
  "schedules sample_claimed = [(''n'', claimed_schedule 2 5 60 (new_schedule 1 ''n'' sample_definition 0))]"
  by (simp_all add: sample_claimed_def sample_scheduled_def put_sched_def draw_def new_fake_def
      new_schedule_def claimed_schedule_def)

lemma sample_schedules_ok: "schedules_ok (schedules sample_scheduled)" "schedules_ok (schedules sample_claimed)"
  by (simp_all add: schedules_ok_def sample_schedules new_schedule_def claimed_schedule_def)

lemma sample_claim:
  "claim_schedules sample_ids (Aware 5) 1 60 sample_scheduled =
     (Inr [schedule_claim_of 2 5 60 (new_schedule 1 ''n'' sample_definition 0)], sample_claimed)"
proof -
  have "\<not> closed sample_scheduled" "drawn sample_scheduled = 1"
    by (simp_all add: sample_scheduled_def put_sched_def draw_def new_fake_def)
  then show ?thesis
    by (simp add: claim_schedules_def ensure_open_def schedule_candidates_def sample_schedules
        schedule_claimable_def new_schedule_def target_state_def sample_definition_def sample_ids_def
        sample_claimed_def)
qed

lemma sample_fire:
  "\<exists>r st1. fire_schedule (\<lambda>_. 0) sample_ids (Aware 6) 1 2 1 [0] 60 sample_claimed = (Inr r, st1) \<and>
     sa_outcome r \<noteq> SO_STALE \<and> sa_jobs_enqueued r = 1"
proof -
  let ?s = "claimed_schedule 2 5 60 (new_schedule 1 ''n'' sample_definition 0)"
  have f: "\<not> closed sample_claimed" "active_keys sample_claimed = []" "known_queues sample_claimed = {''q''}"
    by (simp_all add: sample_claimed_def sample_scheduled_def put_sched_def draw_def new_fake_def)
  have k: "ec_workflow_id (occurrence_command (\<lambda>_. 0) ?s 0) = None"
    "command_key (occurrence_command (\<lambda>_. 0) ?s 0) = Some (''q'', occurrence_key (\<lambda>_. 0) 1 0)"
    by (simp_all add: occurrence_command_def command_key_def claimed_schedule_def new_schedule_def
        sample_definition_def sample_target_def Let_def)
  have e: "\<exists>st1. fire_occurrences (\<lambda>_. 0) sample_ids ?s [0] 0 sample_claimed = (Inr 1, st1)"
    using f k by (simp add: fire_occurrences_step enqueue_def ensure_open_def enqueue_plain_def
        record_enqueue_def er_created_def Let_def del: fire_occurrences.simps(2))
  have g: "fs_schedule_id ?s = 1" "fs_last_action_token ?s = None" "fs_state ?s = SCHED_ACTIVE"
      "fs_version ?s = 1" "fs_token ?s = Some 2" "fs_claim_expires_at ?s = Some (plus_seconds 5 60)"
      "\<not> fs_initialized ?s"
    by (simp_all add: claimed_schedule_def new_schedule_def sample_definition_def target_state_def)
  show ?thesis
    using e g f
    by (auto simp: fire_schedule_def ensure_open_def schedule_by_id_def sample_schedules
        action_result_def fired_schedule_def plus_seconds_def seconds_def Let_def
        simp del: fire_occurrences.simps)
qed

section \<open>Firing is fenced and replayable\<close>

lemma record_enqueue_schedules [simp]:
  "schedules (snd (record_enqueue j c s st)) = schedules st"
  "closed (snd (record_enqueue j c s st)) = closed st"
  by (simp_all add: record_enqueue_def log_enqueue_def)

lemma enqueue_schedules:
  "schedules (snd (enqueue us c st)) = schedules st \<and> closed (snd (enqueue us c st)) = closed st"
  by (auto simp: enqueue_def ensure_open_def enqueue_member_def enqueue_plain_def insert_member_def
      Let_def add_queue_def insert_job_def draw_def set_key_def put_workflow_def
      split: option.splits sum.splits)

lemma fire_occurrences_schedules:
  "schedules (snd (fire_occurrences stamp us s dues n st)) = schedules st \<and>
   closed (snd (fire_occurrences stamp us s dues n st)) = closed st"
proof (induction dues arbitrary: n st)
  case (Cons due dues)
  obtain r st1 where r: "enqueue us (occurrence_command stamp s due) st = (r, st1)"
    by (cases rule: prod.exhaust)
  have "schedules st1 = schedules st" "closed st1 = closed st"
    using enqueue_schedules [of us "occurrence_command stamp s due" st] r by simp_all
  then show ?case
    using Cons r by (cases r) (simp_all add: fire_occurrences_step del: fire_occurrences.simps)
qed simp

lemma fired_schedule_fields:
  assumes "fired_schedule s t oc nx n = (s1, r)"
  shows "fs_name s1 = fs_name s" "fs_schedule_id s1 = fs_schedule_id s"
    "fs_last_action_token s1 = Some t" "fs_last_action s1 = Some r"
  using assms by (auto simp: fired_schedule_def Let_def)

text \<open>
  Firing a claim is idempotent: once \<open>fire_schedule\<close> has answered a token with anything but
  \<open>stale\<close>, the same token gets the same answer again, marked as replayed, whatever version,
  occurrences, next time or clock come with it, and nothing changes, so no occurrence is enqueued
  twice.
\<close>

theorem fire_schedule_replay:
  assumes ok: "schedules_ok (schedules st)"
    and fire: "fire_schedule stamp us clk i t v oc nx st = (Inr r, st1)" and "sa_outcome r \<noteq> SO_STALE"
  shows "fire_schedule stamp' us' clk' i t v' oc' nx' st1 = (Inr (r\<lparr>sa_replayed := True\<rparr>), st1)"
proof -
  have op: "\<not> closed st" using fire by (auto simp: fire_schedule_def ensure_open_def split: if_splits)
  obtain s where s: "schedule_by_id st i = Inr s"
    using fire op by (cases "schedule_by_id st i") (auto simp: fire_schedule_def ensure_open_def)
  show ?thesis
  proof (cases "if fs_last_action_token s = Some t then fs_last_action s else None")
    case (Some a)
    then have "r = a\<lparr>sa_replayed := True\<rparr>" "st1 = st"
      using fire op s by (simp_all add: fire_schedule_def ensure_open_def Let_def)
    then show ?thesis using Some op s by (simp add: fire_schedule_def ensure_open_def Let_def)
  next
    case None
    obtain q st2 where q: "fire_occurrences stamp us s oc 0 st = (q, st2)" by (cases rule: prod.exhaust)
    have same: "schedules st2 = schedules st" "closed st2 = closed st"
      using fire_occurrences_schedules [of stamp us s oc 0 st] q by simp_all
    obtain n where n: "q = Inr n" "fired_schedule s t oc nx n = (fst (fired_schedule s t oc nx n), r)"
        "st1 = put_sched (fst (fired_schedule s t oc nx n)) st2"
      using fire op s None q assms(3) unfolding fire_schedule_def ensure_open_def Let_def
      by (cases clk; cases q)
        (auto simp: action_result_def split_beta split: if_splits option.splits)
    note f = fired_schedule_fields [OF n(2)]
    have "schedule_by_id st1 i = Inr (fst (fired_schedule s t oc nx n))"
      unfolding n(3) by (rule schedule_by_id_put [OF ok s same(1) f(1,2)])
    moreover have "\<not> closed st1" using n(3) op same by (simp add: put_sched_def)
    ultimately show ?thesis using f(3,4) by (simp add: fire_schedule_def ensure_open_def Let_def)
  qed
qed

theorem fire_schedule_replay_witness:
  "\<exists>r st1. fire_schedule (\<lambda>_. 0) sample_ids (Aware 6) 1 2 1 [0] 60 sample_claimed = (Inr r, st1) \<and>
     fire_schedule (\<lambda>_. 0) sample_ids Naive 1 2 7 [] 0 st1 = (Inr (r\<lparr>sa_replayed := True\<rparr>), st1)"
  using sample_fire fire_schedule_replay [OF sample_schedules_ok(2)] by blast

text \<open>
  Changing or retiring a schedule fences the claims taken before: after a \<open>put_schedule\<close> that
  answers \<open>updated\<close> or a \<open>retire_schedule\<close> that answers \<open>retired\<close>, firing or reporting an error for
  that schedule with any token is \<open>stale\<close> and changes nothing, and a second writer holding the same
  expected version is refused.
\<close>

theorem schedule_change_fences:
  assumes ok: "schedules_ok (schedules st)"
    and change: "put_schedule us clk name d (Some v) st = (Inr (SW_UPDATED, p), st1) \<or>
      retire_schedule name v st = (Inr (SW_RETIRED, p), st1)"
  shows "\<exists>s. dget (schedules st1) name = Some s \<and> fs_schedule_id s = sp_schedule_id p \<and>
    fs_version s = v + 1 \<and>
    (\<forall>stamp us' clk' t v' oc nx. fire_schedule stamp us' clk' (sp_schedule_id p) t v' oc nx st1 =
       (Inr (action_result SO_STALE 0 s), st1)) \<and>
    (\<forall>clk' t v' n. schedule_error clk' (sp_schedule_id p) t v' n st1 =
       (Inr (action_result SO_STALE 0 s), st1)) \<and>
    (\<forall>us' clk' d'. st_queue (sd_target d') \<in> known_queues st1 \<longrightarrow>
       put_schedule us' clk' name d' (Some v) st1 =
         (Inl (schedule_conflict ''schedule_version_conflict'' s), st1)) \<and>
    retire_schedule name v st1 = (Inl (schedule_conflict ''schedule_version_conflict'' s), st1)"
proof -
  have op: "\<not> closed st" using change
    by (auto simp: put_schedule_def retire_schedule_def ensure_open_def split: if_splits)
  obtain s0 where s0: "dget (schedules st) name = Some s0"
    using change op by (cases "dget (schedules st) name")
      (auto simp: put_schedule_def retire_schedule_def ensure_open_def Let_def with_now_def
        split: if_splits clock.splits)
  have nm: "fs_name s0 = name"
    using ok s0 map_of_SomeD [OF s0] by (auto simp: schedules_ok_def list_all_iff)
  have "\<exists>s. st1 = put_sched s st \<and> p = schedule_profile_of s \<and> fs_name s = name \<and>
      fs_schedule_id s = fs_schedule_id s0 \<and>
      fs_version s = v + 1 \<and> fs_token s = None \<and> fs_last_action_token s = None"
    using change op s0 nm
    by (intro exI [of _ "the (dget (schedules st1) name)"], cases clk)
      (auto simp: put_schedule_def retire_schedule_def ensure_open_def Let_def updated_schedule_def
        reset_claim_def put_sched_def split: if_splits)
  then obtain s where s: "st1 = put_sched s st" "p = schedule_profile_of s" "fs_name s = name"
      "fs_schedule_id s = fs_schedule_id s0" "fs_version s = v + 1" "fs_token s = None" "fs_last_action_token s = None" by blast
  have g: "dget (schedules st1) name = Some s" "\<not> closed st1" "sp_schedule_id p = fs_schedule_id s"
    using s op by (simp_all add: put_sched_def schedule_profile_of_def Let_def)
  have "schedule_by_id st1 (sp_schedule_id p) = Inr s"
    unfolding s(1) g(3) s(4)
    by (rule schedule_by_id_put [OF ok schedules_ok_id [OF ok s0] refl]) (simp_all add: s nm)
  then show ?thesis
    using s g
    by (intro exI [of _ s])
      (auto simp: fire_schedule_def schedule_error_def put_schedule_def retire_schedule_def
        ensure_open_def Let_def)
qed

theorem schedule_change_fences_witness:
  "\<exists>s st1. retire_schedule ''n'' 1 sample_claimed = (Inr (SW_RETIRED, schedule_profile_of s), st1) \<and>
     fire_schedule (\<lambda>_. 0) sample_ids (Aware 6) 1 2 1 [0] 60 st1 = (Inr (action_result SO_STALE 0 s), st1)"
proof -
  let ?s = "reset_claim ((claimed_schedule 2 5 60 (new_schedule 1 ''n'' sample_definition 0))
      \<lparr>fs_state := SCHED_RETIRED, fs_version := 2\<rparr>)"
  let ?c = "claimed_schedule 2 5 60 (new_schedule 1 ''n'' sample_definition 0)"
  have c: "fs_version ?c = 1" "fs_state ?c = SCHED_ACTIVE"
    by (simp_all add: claimed_schedule_def new_schedule_def target_state_def sample_definition_def)
  have "\<not> closed sample_claimed"
    by (simp add: sample_claimed_def sample_scheduled_def put_sched_def draw_def new_fake_def)
  then have r: "retire_schedule ''n'' 1 sample_claimed =
      (Inr (SW_RETIRED, schedule_profile_of ?s), put_sched ?s sample_claimed)"
    using c by (simp add: retire_schedule_def ensure_open_def sample_schedules Let_def)
  have p: "sp_schedule_id (schedule_profile_of ?s) = 1" "fs_name ?s = ''n''"
    by (simp_all add: schedule_profile_of_def reset_claim_def claimed_schedule_def new_schedule_def Let_def)
  show ?thesis
    using schedule_change_fences [OF sample_schedules_ok(2) disjI2 [OF r], unfolded p] r
    by (auto simp: p put_sched_def)
qed


section \<open>Claims are the first due schedules, and exclusive\<close>

lemma claim_scan_names:
  "int (length cs) < lm \<Longrightarrow>
   map sc_name (fst (claim_schedule_scan us now lm l ss cs st)) =
     map sc_name cs @ take (nat lm - length cs) (map fs_name (filter (schedule_claimable now) ss))"
proof (induction ss arbitrary: cs st)
  case (Cons s ss)
  let ?st = "put_sched (claimed_schedule (us (drawn st)) now l s) (draw st)"
  let ?c = "schedule_claim_of (us (drawn st)) now l s"
  have n: "nat lm - length cs = Suc (nat lm - Suc (length cs))" using Cons.prems by linarith
  have nm: "sc_name ?c = fs_name s" by (simp add: schedule_claim_of_def Let_def)
  show ?case
  proof (cases "schedule_claimable now s")
    case True
    show ?thesis
    proof (cases "int (length (cs @ [?c])) = lm")
      case eq: True
      then have "nat lm - Suc (length cs) = 0" by simp
      then show ?thesis using True eq n nm by (simp add: Let_def)
    next
      case False
      then have "int (length (cs @ [?c])) < lm" using Cons.prems by simp
      then show ?thesis using Cons.IH [of "cs @ [?c]" ?st] True False n nm by (simp add: Let_def)
    qed
  qed (use Cons in simp)
qed simp

lemma claim_scan_written:
  assumes "distinct (map fs_name ss)"
  shows "(\<forall>k. k \<notin> fs_name ` set ss \<longrightarrow>
      dget (schedules (snd (claim_schedule_scan us now lm l ss cs st))) k = dget (schedules st) k) \<and>
    (\<forall>c \<in> set (fst (claim_schedule_scan us now lm l ss cs st)). c \<in> set cs \<or>
      (\<exists>s \<in> set ss. schedule_claimable now s \<and> sc_name c = fs_name s \<and>
        c = schedule_claim_of (sc_token c) now l s \<and>
        dget (schedules (snd (claim_schedule_scan us now lm l ss cs st))) (fs_name s) =
          Some (claimed_schedule (sc_token c) now l s)))"
  using assms
proof (induction ss arbitrary: cs st)
  case (Cons s ss)
  let ?t = "us (drawn st)"
  let ?st = "put_sched (claimed_schedule ?t now l s) (draw st)"
  let ?c = "schedule_claim_of ?t now l s"
  let ?r = "claim_schedule_scan us now lm l (s # ss) cs st"
  have d: "distinct (map fs_name ss)" "fs_name s \<notin> fs_name ` set ss" using Cons.prems by simp_all
  have c: "sc_token ?c = ?t" "sc_name ?c = fs_name s"
    by (simp_all add: schedule_claim_of_def Let_def)
  have w: "dget (schedules ?st) k = (if k = fs_name s then Some (claimed_schedule ?t now l s)
      else dget (schedules st) k)" for k
    by (simp add: put_sched_def claimed_schedule_def draw_def)
  consider (skip) "\<not> schedule_claimable now s" "?r = claim_schedule_scan us now lm l ss cs st"
    | (stop) "schedule_claimable now s" "?r = (cs @ [?c], ?st)"
    | (go) "schedule_claimable now s" "?r = claim_schedule_scan us now lm l ss (cs @ [?c]) ?st"
    by (cases "1 + int (length cs) = lm") (auto simp: Let_def)
  then show ?case
  proof cases
    case skip
    show ?thesis
      unfolding skip(2) using Cons.IH [OF d(1), of cs st] by auto
  next
    case stop
    show ?thesis unfolding stop(2) using stop(1) w c by auto
  next
    case go
    have ih: "\<And>k. k \<notin> fs_name ` set ss \<Longrightarrow>
        dget (schedules (snd ?r)) k = dget (schedules ?st) k"
      using Cons.IH [OF d(1), of "cs @ [?c]" ?st] unfolding go(2) by blast
    have ih2: "\<And>e. e \<in> set (fst ?r) \<Longrightarrow> e \<in> set (cs @ [?c]) \<or>
        (\<exists>s \<in> set ss. schedule_claimable now s \<and> sc_name e = fs_name s \<and>
          e = schedule_claim_of (sc_token e) now l s \<and>
          dget (schedules (snd ?r)) (fs_name s) = Some (claimed_schedule (sc_token e) now l s))"
      using Cons.IH [OF d(1), of "cs @ [?c]" ?st] unfolding go(2) by blast
    show ?thesis
    proof (intro conjI allI impI ballI)
      fix k assume "k \<notin> fs_name ` set (s # ss)"
      then show "dget (schedules (snd ?r)) k = dget (schedules st) k" using ih [of k] w by simp
    next
      fix e assume "e \<in> set (fst ?r)"
      then show "e \<in> set cs \<or> (\<exists>x \<in> set (s # ss). schedule_claimable now x \<and> sc_name e = fs_name x \<and>
          e = schedule_claim_of (sc_token e) now l x \<and>
          dget (schedules (snd ?r)) (fs_name x) = Some (claimed_schedule (sc_token e) now l x))"
        using ih2 [of e] ih [OF d(2)] w [of "fs_name s"] go(1) c by auto
    qed
  qed
qed simp

lemma candidates_names:
  assumes "schedules_ok (schedules st)"
  shows "distinct (map fs_name (schedule_candidates st))"
    and "set (schedule_candidates st) = set (dvalues (schedules st))"
proof -
  have names: "map fs_name (dvalues (schedules st)) = dkeys (schedules st)"
    using assms by (auto simp: schedules_ok_def list_all_iff)
  have d: "distinct (map fs_name (dvalues (schedules st)))"
    unfolding names using assms unfolding schedules_ok_def by blast
  have m: "mset (schedule_candidates st) = mset (dvalues (schedules st))"
    by (simp add: schedule_candidates_def del: mset_map)
  then show "set (schedule_candidates st) = set (dvalues (schedules st))" by (rule mset_eq_setD)
  have "mset (map fs_name (schedule_candidates st)) = mset (map fs_name (dvalues (schedules st)))"
    using m by (simp only: mset_map)
  then show "distinct (map fs_name (schedule_candidates st))"
    using d mset_eq_imp_distinct_iff by blast
qed

text \<open>
  \<open>claim_schedules\<close> hands out exactly the first \<open>limit\<close> claimable schedules in the order of their
  due time and name; each claim states the schedule it was taken from and holds its lease: at any
  time before the lease ends the schedule is not claimable again.
\<close>

theorem claim_schedules_first_due:
  assumes ok: "schedules_ok (schedules st)"
    and claim: "claim_schedules us (Aware now) lm l st = (Inr cs, st1)"
  shows "map sc_name cs =
      take (nat lm) (map fs_name (filter (schedule_claimable now) (schedule_candidates st))) \<and>
    (\<forall>c \<in> set cs. \<exists>s s1. dget (schedules st) (sc_name c) = Some s \<and> schedule_claimable now s \<and>
       c = schedule_claim_of (sc_token c) now l s \<and>
       dget (schedules st1) (sc_name c) = Some s1 \<and> fs_token s1 = Some (sc_token c) \<and>
       (\<forall>t < plus_seconds now l. \<not> schedule_claimable t s1))"
proof -
  have lm: "1 \<le> lm" and r: "claim_schedule_scan us now lm l (schedule_candidates st) [] st = (cs, st1)"
    using claim by (auto simp: claim_schedules_def ensure_open_def split_beta split: if_splits)
  have names: "map sc_name cs =
      take (nat lm) (map fs_name (filter (schedule_claimable now) (schedule_candidates st)))"
    using claim_scan_names [of "[]" lm us now l "schedule_candidates st" st] lm r by simp
  have "\<exists>s s1. dget (schedules st) (sc_name c) = Some s \<and> schedule_claimable now s \<and>
       c = schedule_claim_of (sc_token c) now l s \<and>
       dget (schedules st1) (sc_name c) = Some s1 \<and> fs_token s1 = Some (sc_token c) \<and>
       (\<forall>t < plus_seconds now l. \<not> schedule_claimable t s1)" if c: "c \<in> set cs" for c
  proof -
    obtain s where s: "s \<in> set (schedule_candidates st)" "schedule_claimable now s" "sc_name c = fs_name s"
        "c = schedule_claim_of (sc_token c) now l s"
        "dget (schedules st1) (fs_name s) = Some (claimed_schedule (sc_token c) now l s)"
      using claim_scan_written [OF candidates_names(1) [OF ok], of us now lm l "[]" st] c r by auto
    then obtain k where "(k, s) \<in> set (schedules st)" using candidates_names(2) [OF ok] by auto
    then have "dget (schedules st) (fs_name s) = Some s"
      using ok by (auto simp: schedules_ok_def list_all_iff)
    then show ?thesis using s by (auto simp: claimed_schedule_def schedule_claimable_def)
  qed
  with names show ?thesis by blast
qed

theorem claim_schedules_first_due_witness:
  "claim_schedules sample_ids (Aware 5) 1 60 sample_scheduled =
     (Inr [schedule_claim_of 2 5 60 (new_schedule 1 ''n'' sample_definition 0)], sample_claimed) \<and>
   (\<exists>s1. dget (schedules sample_claimed) ''n'' = Some s1 \<and>
     (\<forall>t < plus_seconds 5 60. \<not> schedule_claimable t s1))"
  using claim_schedules_first_due [OF sample_schedules_ok(1) sample_claim] sample_claim
  by (auto simp: schedule_claim_of_def new_schedule_def Let_def)

end
