(* ===== verification/FakeWorkers.thy ===== *)
theory FakeWorkers
  imports FakeSettle "HOL-Library.Multiset"
begin

text \<open>
  Worker presence in the fake: \<open>worker_heartbeat\<close> writes the presence row of a worker and
  \<open>list_worker_presence\<close> pages through the rows, newest first, with a keyset cursor.
\<close>

section \<open>Definitions\<close>

text \<open>
  The field named by the first error of the request model, in the order of its declarations.
\<close>

definition presence_error_field :: "worker_presence_request \<Rightarrow> string option" where
  "presence_error_field r =
     (if \<not> str_len 1 200 (wp_worker_id r) then Some ''worker_id''
      else if \<not> (1 \<le> length (wp_queues r) \<and> length (wp_queues r) \<le> 32 \<and>
        distinct (wp_queues r) \<and> list_all queue_name (wp_queues r)) then Some ''queues''
      else if \<not> opt_ok (str_len 0 200) (wp_hostname r) then Some ''hostname''
      else if \<not> opt_ok (between 1 2147483647) (wp_pid r) then Some ''pid''
      else if \<not> opt_ok (str_len 0 200) (wp_version r) then Some ''version''
      else if \<not> bounded_json (map_option JObj (wp_meta r)) 8192 then Some ''meta''
      else None)"

lemma presence_error_field_None [simp]: "presence_error_field r = None \<longleftrightarrow> worker_presence_valid r"
  by (auto simp: presence_error_field_def worker_presence_valid_def)

definition presence_row :: "worker_presence_request \<Rightarrow> instant \<Rightarrow> fake_worker option \<Rightarrow> fake_worker" where
  "presence_row r now existing =
     \<lparr>fp_worker_id = wp_worker_id r, fp_queues = wp_queues r, fp_version = wp_version r,
      fp_started_at = (case existing of None \<Rightarrow> now | Some w \<Rightarrow> fp_started_at w),
      fp_last_seen_at = now,
      fp_shutdown_requested = (case existing of None \<Rightarrow> False | Some w \<Rightarrow> fp_shutdown_requested w)\<rparr>"

definition worker_heartbeat :: "clock \<Rightarrow> worker_presence_request \<Rightarrow> fake \<Rightarrow> bool res" where
  "worker_heartbeat clk r st = ensure_open st (case presence_error_field r of
      Some f \<Rightarrow> (Inl (raise_with VALIDATION [(''field'', JStr f)]), st)
    | None \<Rightarrow> with_now clk st (\<lambda>now.
        (Inr False, st\<lparr>workers := dset (wp_worker_id r)
           (presence_row r now (dget (workers st) (wp_worker_id r))) (workers st)\<rparr>)))"

record presence_item =
  pi_worker_id :: string
  pi_declared_queues :: "string list"
  pi_version :: "string option"
  pi_started_at :: instant
  pi_last_seen_at :: instant
  pi_online :: bool
  pi_running_jobs :: int
  pi_shutdown_requested :: bool

record presence_page =
  pp_as_of :: instant
  pp_items :: "presence_item list"
  pp_next_last_seen_at :: "instant option"
  pp_next_worker_id :: "string option"

definition seen_key :: "fake_worker \<Rightarrow> instant \<times> string" where
  "seen_key w = (fp_last_seen_at w, fp_worker_id w)"

text \<open>\<open>sorted(.., reverse=True)\<close> keeps equal elements in their order.\<close>

definition presence_order :: "fake \<Rightarrow> fake_worker list" where
  "presence_order st = rev (sort_key seen_key (rev (dvalues (workers st))))"

definition running_jobs :: "fake \<Rightarrow> string \<Rightarrow> int" where
  "running_jobs st w = int (length (filter (\<lambda>j. fj_worker_id j = Some w \<and> fj_status j = RUNNING)
     (dvalues (jobs st))))"

definition presence_item_of :: "fake \<Rightarrow> instant \<Rightarrow> fake_worker \<Rightarrow> presence_item" where
  "presence_item_of st now w =
     \<lparr>pi_worker_id = fp_worker_id w, pi_declared_queues = fp_queues w, pi_version = fp_version w,
      pi_started_at = fp_started_at w, pi_last_seen_at = fp_last_seen_at w,
      pi_online = (fp_last_seen_at w > plus_seconds now (- 180)),
      pi_running_jobs = running_jobs st (fp_worker_id w),
      pi_shutdown_requested = fp_shutdown_requested w\<rparr>"

definition list_worker_presence ::
  "clock \<Rightarrow> int \<Rightarrow> instant option \<Rightarrow> string option \<Rightarrow> fake \<Rightarrow> presence_page res" where
  "list_worker_presence clk limit after_last_seen_at after_worker_id st = ensure_open st (
     if \<not> (1 \<le> limit \<and> limit \<le> 100) then (Inl (raise_with VALIDATION [(''field'', JStr ''limit'')]), st)
     else if (after_last_seen_at = None) \<noteq> (after_worker_id = None)
     then (Inl (raise_with VALIDATION [(''field'', JStr ''cursor'')]), st)
     else with_now clk st (\<lambda>now.
       let ordered = (case (after_last_seen_at, after_worker_id) of
              (Some t, Some w) \<Rightarrow> filter (\<lambda>x. seen_key x < (t, w)) (presence_order st)
            | _ \<Rightarrow> presence_order st);
           selected = take (nat limit + 1) ordered;
           next_item = (if length selected > nat limit then Some (selected ! (nat limit - 1)) else None)
       in (Inr \<lparr>pp_as_of = now,
                pp_items = map (presence_item_of st now) (take (nat limit) selected),
                pp_next_last_seen_at = map_option fp_last_seen_at next_item,
                pp_next_worker_id = map_option fp_worker_id next_item\<rparr>, st)))"

section \<open>Well-formed presence tables\<close>

text \<open>Every row is stored under its worker and passed the validation of the request model.\<close>

definition workers_ok :: "(string, fake_worker) dict \<Rightarrow> bool" where
  "workers_ok d \<longleftrightarrow> distinct (dkeys d) \<and>
     list_all (\<lambda>(k, w). fp_worker_id w = k \<and> str_len 1 200 k \<and> distinct (fp_queues w) \<and>
       1 \<le> length (fp_queues w) \<and> length (fp_queues w) \<le> 32 \<and> list_all queue_name (fp_queues w) \<and>
       opt_ok (str_len 0 200) (fp_version w)) d"

lemma workers_ok_Nil [simp]: "workers_ok []"
  by (simp add: workers_ok_def)

lemma update_in: "p \<in> set (AList.update k v d) \<Longrightarrow> p = (k, v) \<or> p \<in> set d"
  by (induction d) (auto split: if_splits)

lemma workers_ok_row:
  assumes "workers_ok d" and "worker_presence_valid r"
  shows "workers_ok (dset (wp_worker_id r) (presence_row r now old) d)"
  using assms unfolding workers_ok_def
  by (auto simp: list_all_iff distinct_update presence_row_def worker_presence_valid_def
      dest!: update_in)

lemma worker_heartbeat_workers:
  "workers_ok (workers st) \<Longrightarrow> workers_ok (workers (snd (worker_heartbeat clk r st)))"
  by (cases clk) (auto simp: worker_heartbeat_def ensure_open_def workers_ok_row split: option.split)

lemma worker_heartbeat_queue:
  "jobs (snd (worker_heartbeat clk r st)) = jobs st \<and> schedules (snd (worker_heartbeat clk r st)) = schedules st"
  by (cases clk) (auto simp: worker_heartbeat_def ensure_open_def split: option.split)

lemma worker_heartbeat_sound [wf_rules]: "fake_inv us st \<Longrightarrow> sound us st (worker_heartbeat clk r st)"
  by (cases clk)
    (auto simp: worker_heartbeat_def ensure_open_def sound_def fake_inv_def evolves_def
      split: option.split)

lemma list_worker_presence_state [simp]:
  "snd (list_worker_presence clk l t w st) = st"
  by (cases clk) (auto simp: list_worker_presence_def ensure_open_def Let_def)

section \<open>Paging\<close>

text \<open>A reader that follows the cursors until a page has none, at most \<open>n\<close> pages.\<close>

fun presence_walk ::
  "(nat \<Rightarrow> instant) \<Rightarrow> int \<Rightarrow> nat \<Rightarrow> (instant \<times> string) option \<Rightarrow> fake \<Rightarrow> string list option" where
  "presence_walk clocks l 0 c st = None"
| "presence_walk clocks l (Suc n) c st =
     (case list_worker_presence (Aware (clocks n)) l (map_option fst c) (map_option snd c) st of
       (Inl e, st1) \<Rightarrow> None
     | (Inr p, st1) \<Rightarrow>
         let ids = map pi_worker_id (pp_items p) in
         case (pp_next_last_seen_at p, pp_next_worker_id p) of
           (Some t, Some w) \<Rightarrow> map_option ((@) ids) (presence_walk clocks l n (Some (t, w)) st1)
         | _ \<Rightarrow> Some ids)"

lemma sorted_rev_sort_key: "sorted_wrt (\<lambda>a b. f b \<le> f a) (rev (sort_key f (xs :: 'a list)))"
  for f :: "'a \<Rightarrow> 'b :: linorder"
  using sorted_sort_key [of f xs] by (simp add: sorted_wrt_rev sorted_map)

lemma presence_order_set: "mset (presence_order st) = mset (dvalues (workers st))"
  by (simp add: presence_order_def)

lemma presence_order_ids:
  assumes "workers_ok (workers st)"
  shows "mset (map fp_worker_id (presence_order st)) = mset (dkeys (workers st))"
proof -
  have "map fp_worker_id (dvalues (workers st)) = dkeys (workers st)"
    using assms by (auto simp: workers_ok_def list_all_iff)
  then show ?thesis using presence_order_set [of st] by (metis mset_map)
qed

lemma sorted_wrt_strict:
  assumes "sorted_wrt (\<lambda>a b. f b \<le> f a) xs" and "distinct (map f xs)"
  shows "sorted_wrt (\<lambda>a b. f b < (f a :: 'b :: linorder)) xs"
  using assms
proof (induction xs)
  case (Cons a xs)
  have "f x < f a" if "x \<in> set xs" for x
  proof -
    have "f a \<notin> f ` set xs" using Cons.prems(2) by simp
    then have "f x \<noteq> f a" using that by (metis imageI)
    moreover have "f x \<le> f a" using Cons.prems(1) that by simp
    ultimately show ?thesis by simp
  qed
  with Cons show ?case by simp
qed simp

lemma presence_order_sorted:
  assumes "workers_ok (workers st)"
  shows "sorted_wrt (\<lambda>a b. seen_key b < seen_key a) (presence_order st)"
proof (rule sorted_wrt_strict)
  show "sorted_wrt (\<lambda>a b. seen_key b \<le> seen_key a) (presence_order st)"
    unfolding presence_order_def by (rule sorted_rev_sort_key)
  have "distinct (dkeys (workers st))" using assms by (simp add: workers_ok_def)
  then have "distinct (map fp_worker_id (presence_order st))"
    using presence_order_ids [OF assms] mset_eq_imp_distinct_iff by blast
  then show "distinct (map seen_key (presence_order st))"
    by (auto simp: distinct_map seen_key_def inj_on_def)
qed

lemma filter_after:
  "sorted_wrt (\<lambda>a b. f b < (f a :: 'b :: linorder)) (ys @ x # zs) \<Longrightarrow>
   filter (\<lambda>w. f w < f x) (ys @ x # zs) = zs"
  by (auto simp: sorted_wrt_append filter_empty_conv filter_id_conv dest: less_asym)

definition cursor_after :: "fake_worker list \<Rightarrow> (instant \<times> string) option" where
  "cursor_after ys = (if ys = [] then None else Some (seen_key (last ys)))"

lemma ordered_after:
  assumes ok: "workers_ok (workers st)" and split: "presence_order st = ys @ zs"
  shows "(case (map_option fst (cursor_after ys), map_option snd (cursor_after ys)) of
       (Some t, Some w) \<Rightarrow> filter (\<lambda>x. seen_key x < (t, w)) (presence_order st)
     | _ \<Rightarrow> presence_order st) = zs"
proof (cases ys rule: rev_cases)
  case Nil
  then show ?thesis using split by (simp add: cursor_after_def)
next
  case (snoc xs x)
  then show ?thesis
    using filter_after [of seen_key xs x zs] presence_order_sorted [OF ok] split
    by (simp add: cursor_after_def)
qed

lemma page_at:
  assumes ok: "workers_ok (workers st)" and split: "presence_order st = ys @ zs"
    and l: "1 \<le> l" "l \<le> 100" and op: "\<not> closed st"
  shows "list_worker_presence (Aware t) l (map_option fst (cursor_after ys))
      (map_option snd (cursor_after ys)) st =
    (Inr \<lparr>pp_as_of = t, pp_items = map (presence_item_of st t) (take (nat l) zs),
       pp_next_last_seen_at = (if nat l < length zs then Some (fp_last_seen_at (zs ! (nat l - 1))) else None),
       pp_next_worker_id = (if nat l < length zs then Some (fp_worker_id (zs ! (nat l - 1))) else None)\<rparr>, st)"
proof -
  have c: "(map_option fst (cursor_after ys) = None) = (map_option snd (cursor_after ys) = None)" by simp
  have n: "take (nat l + 1) zs ! (nat l - 1) = zs ! (nat l - 1)" using l by simp
  have m: "nat l < length (take (nat l + 1) zs) \<longleftrightarrow> nat l < length zs" by auto
  show ?thesis
    unfolding list_worker_presence_def ensure_open_def Let_def ordered_after [OF ok split] c m n
    using l op by simp
qed

lemma walk_from:
  assumes ok: "workers_ok (workers st)" and l: "1 \<le> l" "l \<le> 100" and op: "\<not> closed st"
  shows "presence_order st = ys @ zs \<Longrightarrow> length zs < n \<Longrightarrow>
    presence_walk clocks l n (cursor_after ys) st = Some (map fp_worker_id zs)"
proof (induction n arbitrary: ys zs)
  case (Suc n)
  note page = page_at [OF ok Suc.prems(1) l op, of "clocks n"]
  have ids: "pi_worker_id \<circ> presence_item_of st t = fp_worker_id" for t
    by (simp add: presence_item_of_def fun_eq_iff)
  have td: "map fp_worker_id (take k zs) @ map fp_worker_id (drop k zs) = map fp_worker_id zs" for k
    by (metis map_append append_take_drop_id)
  show ?case
  proof (cases "nat l < length zs")
    case True
    let ?ys = "ys @ take (nat l) zs" and ?zs = "drop (nat l) zs"
    have lp: "0 < nat l" using l by simp
    have "last (take (nat l) zs) = zs ! (nat l - 1)"
      using True lp by (subst last_conv_nth) (auto simp: min_def)
    then have c: "cursor_after ?ys =
        Some (fp_last_seen_at (zs ! (nat l - 1)), fp_worker_id (zs ! (nat l - 1)))"
      using True lp by (auto simp: cursor_after_def seen_key_def last_append)
    have "presence_walk clocks l n (cursor_after ?ys) st = Some (map fp_worker_id ?zs)"
      by (rule Suc.IH) (use Suc.prems True lp in auto)
    then show ?thesis
      using True page td unfolding c by (simp add: Let_def ids)
  next
    case False
    then show ?thesis using page by (simp add: Let_def ids)
  qed
qed simp

text \<open>
  A reader that starts without a cursor and follows the cursor of every page, with any page size
  from 1 to 100, stops after at most one page more than there are workers and has then read every
  worker exactly once, the most recently seen first; nothing is skipped or repeated at a page
  boundary, not even between workers seen at the same instant.
\<close>

theorem presence_pages_complete:
  assumes "workers_ok (workers st)" and "1 \<le> l" and "l \<le> 100" and "\<not> closed st"
    and "length (workers st) < n"
  shows "\<exists>ws. presence_walk clocks l n None st = Some (map fp_worker_id ws) \<and>
    mset (map fp_worker_id ws) = mset (dkeys (workers st)) \<and>
    sorted_wrt (\<lambda>a b. seen_key b < seen_key a) ws"
proof (intro exI conjI)
  have len: "length (presence_order st) < n"
    using assms(5) by (simp add: presence_order_def)
  show "presence_walk clocks l n None st = Some (map fp_worker_id (presence_order st))"
    using walk_from [OF assms(1-4), of "[]" "presence_order st" n clocks] len by (simp add: cursor_after_def)
  show "mset (map fp_worker_id (presence_order st)) = mset (dkeys (workers st))"
    by (rule presence_order_ids [OF assms(1)])
  show "sorted_wrt (\<lambda>a b. seen_key b < seen_key a) (presence_order st)"
    by (rule presence_order_sorted [OF assms(1)])
qed

definition sample_worker :: "string \<Rightarrow> instant \<Rightarrow> fake_worker" where
  "sample_worker i t = \<lparr>fp_worker_id = i, fp_queues = [''q''], fp_version = None, fp_started_at = 0,
     fp_last_seen_at = t, fp_shutdown_requested = False\<rparr>"

definition sample_workers :: fake where
  "sample_workers = (new_fake [''q''])\<lparr>workers := [(''a'', sample_worker ''a'' 5),
     (''b'', sample_worker ''b'' 9), (''c'', sample_worker ''c'' 5)]\<rparr>"

theorem presence_pages_complete_witness:
  "\<exists>ws. presence_walk (\<lambda>_. 10) 2 4 None sample_workers = Some (map fp_worker_id ws) \<and>
    mset (map fp_worker_id ws) = mset [''a'', ''b'', ''c''] \<and>
    sorted_wrt (\<lambda>a b. seen_key b < seen_key a) ws"
proof -
  have "workers_ok (workers sample_workers)" "\<not> closed sample_workers" "length (workers sample_workers) < 4"
    by (simp_all add: workers_ok_def sample_workers_def sample_worker_def str_len_def queue_name_def
        new_fake_def queue_char_def char_class_defs)
  then show ?thesis
    using presence_pages_complete [of sample_workers 2 4 "\<lambda>_. 10"] by (simp add: sample_workers_def)
qed

end
