(* ===== verification/FakeRun.thy ===== *)
theory FakeRun
  imports FakeWorkflow FakeAdmission FakeSchedule FakeWorkers
begin

text \<open>
  The fake client as a state machine: the calls a program can make on one client, in any order and
  with any arguments, and the states they reach.  What every reachable state satisfies is proved
  once here by rule induction, from the lemmas of the operations; the properties of the theories
  that follow are read off it.
\<close>

section \<open>What the queue operations leave alone\<close>

definition side_frame :: "fake \<Rightarrow> fake \<Rightarrow> bool" where
  "side_frame st st' \<longleftrightarrow> schedules st' = schedules st \<and> workers st' = workers st"

lemma side_frame_refl [simp]: "side_frame st st"
  by (simp add: side_frame_def)

lemma side_frame_trans: "side_frame st st' \<Longrightarrow> side_frame st' st'' \<Longrightarrow> side_frame st st''"
  by (simp add: side_frame_def)

lemma side_frame_write [simp]:
  "side_frame st (put_job j st') = side_frame st st'"
  "side_frame st (insert_job j st') = side_frame st st'"
  "side_frame st (draw st') = side_frame st st'"
  "side_frame st (add_queue q st') = side_frame st st'"
  "side_frame st (put_workflow w st') = side_frame st st'"
  "side_frame st (set_key k i st') = side_frame st st'"
  "side_frame st (log_enqueue j c s st') = side_frame st st'"
  "side_frame st (log_settlement j v it oc ca st') = side_frame st st'"
  "side_frame st (pop_key j st') = side_frame st st'"
  "side_frame st (add_job j st') = side_frame st st'"
  "side_frame st (admission_put x a st') = side_frame st st'"
  "side_frame st (st'\<lparr>jobs := js\<rparr>) = side_frame st st'"
  "side_frame st (st'\<lparr>workflow_keys := ks\<rparr>) = side_frame st st'"
  "side_frame st (st'\<lparr>jobs := js, order := os\<rparr>) = side_frame st st'"
  by (simp_all add: side_frame_def put_job_def insert_job_def draw_def add_queue_def put_workflow_def
      set_key_def log_enqueue_def log_settlement_def pop_key_def add_job_def admission_put_def
      split: option.split)

named_theorems frame_rules "operations that leave schedules and workers alone"

lemma rbind_frame [frame_rules]:
  assumes "side_frame st (snd r)" and "\<And>x st1. side_frame st st1 \<Longrightarrow> side_frame st (snd (f x st1))"
  shows "side_frame st (snd (rbind r f))"
  using assms by (cases r; cases "fst r") auto

lemma ensure_open_frame [frame_rules]: "side_frame st (snd r) \<Longrightarrow> side_frame st (snd (ensure_open st r))"
  by (simp add: ensure_open_def)

lemma with_now_frame [frame_rules]:
  "side_frame st st1 \<Longrightarrow> (\<And>t. side_frame st (snd (body t))) \<Longrightarrow> side_frame st (snd (with_now clk st1 body))"
  by (cases clk) auto

lemma record_enqueue_frame [simp]:
  "side_frame st (snd (record_enqueue j c s st1)) = side_frame st st1"
  by (simp add: record_enqueue_def)

lemma enqueue_plain_frame [simp]: "side_frame st (snd (enqueue_plain us c st))"
  by (simp add: enqueue_plain_def Let_def split: option.split)

lemma insert_member_frame [simp]:
  "side_frame st (snd (insert_member i c s w x st1)) = side_frame st st1"
  by (simp add: insert_member_def Let_def split: option.split)

lemma enqueue_member_frame [simp]: "side_frame st (snd (enqueue_member us c st))"
  by (simp add: enqueue_member_def split: option.split sum.split)

lemma enqueue_frame [frame_rules]:
  assumes "side_frame st st1" shows "side_frame st (snd (enqueue us c st1))"
  using assms side_frame_trans by (simp add: enqueue_def ensure_open_def)

lemma enqueue_many_frame [frame_rules]:
  "side_frame st st1 \<Longrightarrow> side_frame st (snd (enqueue_many us q items st1))"
proof (induction items arbitrary: st1)
  case (Cons item items)
  show ?case
  proof (cases "enqueue_command_init (command_of_item q item)")
    case (Inl e)
    then show ?thesis using Cons.prems by simp
  next
    case (Inr c)
    have "side_frame st (snd (rbind (enqueue us c st1) (\<lambda>r st1.
        rbind (enqueue_many us q items st1) (\<lambda>rs st2. (Inr (r # rs), st2)))))"
      by (intro rbind_frame enqueue_frame Cons.IH Cons.prems) simp_all
    then show ?thesis using Inr by simp
  qed
qed simp

lemma refresh_frame [frame_rules]:
  "side_frame st st1 \<Longrightarrow> side_frame st (snd (refresh_workflow w st1))"
  by (auto simp: refresh_workflow_def split: sum.split)

lemma advance_frame [frame_rules]:
  "side_frame st st1 \<Longrightarrow> side_frame st (snd (advance_workflow j st1))"
  by (auto simp: advance_workflow_def intro!: frame_rules split: option.split prod.split sum.split)

lemma finish_frame' [frame_rules]:
  "side_frame st st1 \<Longrightarrow> side_frame st (snd (finish j v s it oc ca t st1))"
  by (auto simp: finish_def Let_def intro!: frame_rules)

lemma settle_frames [frame_rules]:
  "side_frame st (snd (heartbeat clk i a w l st))"
  "side_frame st (snd (fail clk i a w e rt ra p st))"
  "side_frame st (snd (snooze clk i a w d r p st))"
  "side_frame st (snd (release clk i a w ca d st))"
  "side_frame st (snd (cancel_running i a w rs st))"
  by (auto simp: heartbeat_def fail_def snooze_def release_def cancel_running_def Let_def
      intro!: frame_rules split: option.split sum.split)

lemma claim_scan_frame [frame_rules]:
  "side_frame st st1 \<Longrightarrow> side_frame st (snd (claim_scan us r s now ids sel st1))"
  by (induction ids arbitrary: sel st1) (auto simp: Let_def split: option.split)

lemma claim_frame [frame_rules]: "side_frame st (snd (claim us clk r st))"
  by (auto simp: claim_def intro!: frame_rules split: sum.split option.split)

lemma plan_children_frame [frame_rules]:
  "side_frame st st1 \<Longrightarrow> side_frame st (snd (plan_children us job w fs seen st1))"
proof (induction fs arbitrary: seen st1)
  case (Cons f fs)
  have "side_frame st (snd (plan_child us job w f st1))"
    using Cons.prems by (auto simp: plan_child_def Let_def split: sum.split option.split)
  then show ?case using Cons by (auto intro!: rbind_frame)
qed simp

lemma insert_children_frame [simp]: "side_frame st (insert_children cs st1) = side_frame st st1"
  by (induction cs st1 rule: insert_children.induct) auto

lemma complete_frame [frame_rules]: "side_frame st (snd (complete us i a w res fs pol st))"
  by (auto simp: complete_def Let_def intro!: frame_rules split: sum.split option.split)

lemma workflow_frames [frame_rules]:
  "side_frame st (snd (create_workflow us r st))"
  "side_frame st (snd (seal_workflow wid st))"
  "side_frame st (snd (cancel_workflow wid rs st))"
  by (auto simp: create_workflow_def seal_workflow_def cancel_workflow_def Let_def
      intro!: frame_rules split: sum.split option.split prod.split)

lemma admission_frames [frame_rules]:
  "side_frame st (snd (reserve_admission us clk q k h hdl ttl rttl st))"
  "side_frame st (snd (finish_admission sha isofmt us clk q r st))"
  "side_frame st (snd (cancel_admission clk q k hn st))"
  by (auto simp: reserve_admission_def finish_admission_def cancel_admission_def Let_def
      intro!: frame_rules split: sum.split option.split admission_state.split)

section \<open>Schedule tables through the schedule operations\<close>

definition schedules_inv :: "uuid_source \<Rightarrow> fake \<Rightarrow> bool" where
  "schedules_inv us st \<longleftrightarrow> schedules_ok (schedules st) \<and>
     set (map fs_schedule_id (dvalues (schedules st))) \<subseteq> us ` {..<drawn st}"

lemma schedules_inv_frame:
  "side_frame st st' \<Longrightarrow> drawn st \<le> drawn st' \<Longrightarrow> schedules_inv us st \<Longrightarrow> schedules_inv us st'"
  unfolding schedules_inv_def side_frame_def by (auto dest!: subsetD)

lemma ids_update:
  "dget d k = Some s \<Longrightarrow> fs_schedule_id s' = fs_schedule_id s \<Longrightarrow>
   map fs_schedule_id (dvalues (dset k s' d)) = map fs_schedule_id (dvalues d)"
  by (induction d) (auto split: if_splits)

lemma schedules_ok_put:
  assumes "schedules_ok d" and "dget d (fs_name s') = Some s" and "fs_schedule_id s' = fs_schedule_id s"
  shows "schedules_ok (dset (fs_name s') s' d)"
  unfolding schedules_ok_def
proof (intro conjI)
  show "distinct (dkeys (dset (fs_name s') s' d))" using assms by (simp add: schedules_ok_def)
  show "list_all (\<lambda>(k, s). fs_name s = k) (dset (fs_name s') s' d)"
    using assms(1) unfolding schedules_ok_def list_all_iff by (auto dest!: update_in)
  show "distinct (map fs_schedule_id (dvalues (dset (fs_name s') s' d)))"
    unfolding ids_update [OF assms(2,3)] using assms(1) by (simp add: schedules_ok_def)
qed

lemma schedules_inv_put:
  assumes "schedules_inv us st" and "dget (schedules st) (fs_name s') = Some s"
    and "fs_schedule_id s' = fs_schedule_id s"
  shows "schedules_inv us (put_sched s' st)"
proof -
  have "map fs_schedule_id (dvalues (schedules (put_sched s' st))) =
      map fs_schedule_id (dvalues (schedules st))"
    unfolding put_sched_def using ids_update [OF assms(2,3)] by simp
  moreover have "schedules_ok (schedules (put_sched s' st))"
    using schedules_ok_put [OF _ assms(2,3)] assms(1) by (simp add: put_sched_def schedules_inv_def)
  moreover have "drawn (put_sched s' st) = drawn st" by (simp add: put_sched_def)
  ultimately show ?thesis using assms(1) by (simp add: schedules_inv_def)
qed

lemma schedules_inv_draw: "schedules_inv us st \<Longrightarrow> schedules_inv us (draw st)"
  by (rule schedules_inv_frame [of st]) (simp_all add: draw_def side_frame_def)

lemma schedules_inv_new:
  assumes inv: "schedules_inv us st" and n: "dget (schedules st) (fs_name s) = None"
    and i: "fs_schedule_id s = us (drawn st)" and inj: "inj_on us {..<Suc (drawn st)}"
  shows "schedules_inv us (put_sched s (draw st))"
proof -
  have "us (drawn st) \<notin> us ` {..<drawn st}" using inj by (auto simp: lessThan_Suc)
  then have "fs_schedule_id s \<notin> set (map fs_schedule_id (dvalues (schedules st)))"
    using inv i by (auto simp: schedules_inv_def)
  moreover have "fs_name s \<notin> set (dkeys (schedules st))" using n by (simp add: map_of_eq_None_iff)
  moreover have "schedules (put_sched s (draw st)) = schedules st @ [(fs_name s, s)]"
      "drawn (put_sched s (draw st)) = Suc (drawn st)"
    using dset_absent [OF n] by (simp_all add: put_sched_def draw_def)
  ultimately show ?thesis
    using inv i by (auto simp: schedules_inv_def schedules_ok_def lessThan_Suc image_subset_iff)
qed

lemma schedules_name: "schedules_inv us st \<Longrightarrow> dget (schedules st) k = Some s \<Longrightarrow> fs_name s = k"
  unfolding schedules_inv_def schedules_ok_def list_all_iff by (auto dest: map_of_SomeD)

lemma schedules_by_id:
  assumes "schedules_inv us st" and "schedule_by_id st i = Inr s"
  shows "dget (schedules st) (fs_name s) = Some s" "fs_schedule_id s = i"
proof -
  have f: "find (\<lambda>s. fs_schedule_id s = i) (dvalues (schedules st)) = Some s"
    using assms(2) by (auto simp: schedule_by_id_def split: option.splits)
  then show "fs_schedule_id s = i" by (auto simp: find_Some_iff)
  have "s \<in> set (dvalues (schedules st))" using f by (auto simp: find_Some_iff)
  then obtain k where "(k, s) \<in> set (schedules st)" by auto
  then show "dget (schedules st) (fs_name s) = Some s"
    using assms(1) by (auto simp: schedules_inv_def schedules_ok_def list_all_iff)
qed

lemma put_schedule_inv:
  assumes inv: "schedules_inv us st" and dr: "inj_on us {..<drawn (snd (put_schedule us clk nm d v st))}"
  shows "schedules_inv us (snd (put_schedule us clk nm d v st))"
proof (cases "dget (schedules st) nm")
  case None
  then show ?thesis
    using inv dr schedules_inv_draw [OF inv] schedules_inv_new [OF inv, of "new_schedule (us (drawn st)) nm d t" for t]
    by (cases clk)
      (auto simp: put_schedule_def ensure_open_def new_schedule_def Let_def draw_def put_sched_def)
next
  case (Some s)
  have nm: "fs_name s = nm" by (rule schedules_name [OF inv Some])
  note put = schedules_inv_put [OF inv, of _ s]
  have p: "schedules_inv us (put_sched (updated_schedule s d) st)"
      "schedules_inv us (put_sched ((updated_schedule s d)\<lparr>fs_initialized := False\<rparr>) st)"
      "schedules_inv us (put_sched ((updated_schedule s d)\<lparr>fs_initialized := False, fs_next_fire_at := t\<rparr>) st)" for t
    by (rule put; use Some nm in \<open>simp add: updated_schedule_def reset_claim_def\<close>)+
  then show ?thesis
    using inv Some by (cases clk; cases v) (auto simp: put_schedule_def ensure_open_def Let_def)
qed

lemma retire_schedule_inv:
  assumes inv: "schedules_inv us st" shows "schedules_inv us (snd (retire_schedule nm v st))"
proof (cases "dget (schedules st) nm")
  case (Some s)
  have "schedules_inv us (put_sched (reset_claim (s\<lparr>fs_state := SCHED_RETIRED, fs_version := n\<rparr>)) st)" for n
    by (rule schedules_inv_put [OF inv, of _ s])
      (use Some schedules_name [OF inv Some] in \<open>simp_all add: reset_claim_def\<close>)
  then show ?thesis using inv Some by (auto simp: retire_schedule_def ensure_open_def Let_def)
qed (use inv in \<open>simp add: retire_schedule_def ensure_open_def\<close>)

lemma claim_schedule_scan_inv:
  "schedules_inv us st \<Longrightarrow>
   \<forall>s \<in> set ss. \<exists>s0. dget (schedules st) (fs_name s) = Some s0 \<and> fs_schedule_id s0 = fs_schedule_id s \<Longrightarrow>
   schedules_inv us (snd (claim_schedule_scan us now l le ss cs st))"
proof (induction ss arbitrary: cs st)
  case (Cons s ss)
  let ?st = "put_sched (claimed_schedule (us (drawn st)) now le s) (draw st)"
  obtain s0 where s0: "dget (schedules st) (fs_name s) = Some s0" "fs_schedule_id s0 = fs_schedule_id s"
    using Cons.prems(2) by auto
  have f: "fs_name (claimed_schedule t now le s) = fs_name s"
      "fs_schedule_id (claimed_schedule t now le s) = fs_schedule_id s" for t
    by (simp_all add: claimed_schedule_def)
  have i: "schedules_inv us ?st"
    by (rule schedules_inv_put [OF schedules_inv_draw [OF Cons.prems(1)], of _ s0])
      (use s0 f in \<open>simp_all add: draw_def\<close>)
  have "\<forall>x \<in> set ss. \<exists>s0. dget (schedules ?st) (fs_name x) = Some s0 \<and> fs_schedule_id s0 = fs_schedule_id x"
  proof
    fix x assume "x \<in> set ss"
    then obtain x0 where "dget (schedules st) (fs_name x) = Some x0" "fs_schedule_id x0 = fs_schedule_id x"
      using Cons.prems(2) by auto
    then show "\<exists>s0. dget (schedules ?st) (fs_name x) = Some s0 \<and> fs_schedule_id s0 = fs_schedule_id x"
      using s0 f by (auto simp: put_sched_def draw_def)
  qed
  from Cons.IH [OF i this] i Cons show ?case by (simp add: Let_def)
qed simp

lemma claim_schedules_inv:
  assumes inv: "schedules_inv us st" shows "schedules_inv us (snd (claim_schedules us clk l le st))"
proof -
  have "\<forall>s \<in> set (schedule_candidates st). \<exists>s0. dget (schedules st) (fs_name s) = Some s0 \<and>
      fs_schedule_id s0 = fs_schedule_id s"
  proof
    fix s assume "s \<in> set (schedule_candidates st)"
    then obtain k where "(k, s) \<in> set (schedules st)" by (auto simp: schedule_candidates_def)
    then show "\<exists>s0. dget (schedules st) (fs_name s) = Some s0 \<and> fs_schedule_id s0 = fs_schedule_id s"
      using inv by (auto simp: schedules_inv_def schedules_ok_def list_all_iff)
  qed
  note scan = claim_schedule_scan_inv [OF inv this]
  show ?thesis
    using inv scan [of _ l le "[]"]
    by (cases clk) (auto simp: claim_schedules_def ensure_open_def split_beta)
qed

lemma fire_schedule_inv:
  assumes inv: "schedules_inv us st" shows "schedules_inv us (snd (fire_schedule stamp us clk i t v oc nx st))"
proof (cases "schedule_by_id st i")
  case (Inr s)
  obtain q st1 where q: "fire_occurrences stamp us s oc 0 st = (q, st1)" by (cases rule: prod.exhaust)
  have same: "schedules st1 = schedules st"
    using fire_occurrences_schedules [of stamp us s oc 0 st] q by simp
  have d: "drawn st \<le> drawn st1" using fire_occurrences_drawn [of st stamp us s oc 0] q by simp
  have i1: "schedules_inv us st1"
    using inv same d by (auto simp: schedules_inv_def)
  have p: "schedules_inv us (put_sched (fst (fired_schedule s t oc nx n)) st1)" for n
  proof -
    obtain s1 r where f: "fired_schedule s t oc nx n = (s1, r)" by (cases rule: prod.exhaust)
    show ?thesis
      using schedules_inv_put [OF i1, of s1 s] schedules_by_id [OF inv Inr] same
        fired_schedule_fields [OF f] f by simp
  qed
  have "schedules_inv us (snd (rbind (q, st1) (\<lambda>n st1. case fired_schedule s t oc nx n of
      (s1, r) \<Rightarrow> (Inr r, put_sched s1 st1))))"
    using p i1 by (cases q) (simp_all add: split_beta)
  then show ?thesis
    using inv Inr q unfolding fire_schedule_def ensure_open_def Let_def
    by (cases clk) (auto split: option.split)
qed (use inv in \<open>simp add: fire_schedule_def ensure_open_def\<close>)

lemma schedule_error_inv:
  assumes inv: "schedules_inv us st" shows "schedules_inv us (snd (schedule_error clk i t v n st))"
proof (cases "schedule_by_id st i")
  case (Inr s)
  let ?s1 = "s\<lparr>fs_token := None, fs_claim_as_of := None, fs_claim_expires_at := None\<rparr>"
  have "schedules_inv us (put_sched ?s1 st)"
      "schedules_inv us (put_sched (?s1\<lparr>fs_retry_not_before := x\<rparr>) st)" for x
    by (rule schedules_inv_put [OF inv, of _ s]; use schedules_by_id [OF inv Inr] in simp)+
  then show ?thesis
    using inv Inr by (cases clk) (auto simp: schedule_error_def ensure_open_def Let_def)
qed (use inv in \<open>simp add: schedule_error_def ensure_open_def\<close>)

section \<open>Calls\<close>

text \<open>
  What the model takes from outside: the values of \<open>uuid4()\<close>, SHA-256, the text form of a datetime and
  the microsecond stamp of an occurrence.
\<close>

record world =
  w_ids :: uuid_source
  w_sha :: "string \<Rightarrow> string"
  w_iso :: "instant \<Rightarrow> string"
  w_stamp :: "instant \<Rightarrow> int"

datatype call =
    Enqueue enqueue_command
  | EnqueueMany string "enqueue_many_item list"
  | ReserveAdmission clock string string string "uuid option" int int
  | FinishAdmission clock string admission_finish_request
  | CancelAdmission clock string string uuid
  | CreateWorkflow create_workflow_request
  | SealWorkflow uuid
  | CancelWorkflow uuid "string option"
  | ClaimJobs clock claim_request
  | HeartbeatJob clock uuid uuid string "int option"
  | CompleteJob uuid uuid string "jobj option" "followup list" "string option"
  | FailJob clock uuid uuid string string bool "int option" "jobj option"
  | SnoozeJob clock uuid uuid string int "string option" "jobj option"
  | ReleaseJob clock uuid uuid string string int
  | CancelRunning uuid uuid string string
  | PutSchedule clock string schedule_definition "int option"
  | RetireSchedule string int
  | ClaimSchedules clock int int
  | FireSchedule clock uuid uuid int "instant list" instant
  | ScheduleError clock uuid uuid int int
  | WorkerHeartbeat clock worker_presence_request
  | Close

fun perform :: "world \<Rightarrow> call \<Rightarrow> fake \<Rightarrow> fake" where
  "perform w (Enqueue c) st = snd (enqueue (w_ids w) c st)"
| "perform w (EnqueueMany q items) st = snd (enqueue_many (w_ids w) q items st)"
| "perform w (ReserveAdmission clk q k h hn ttl rttl) st =
     snd (reserve_admission (w_ids w) clk q k h hn ttl rttl st)"
| "perform w (FinishAdmission clk q r) st = snd (finish_admission (w_sha w) (w_iso w) (w_ids w) clk q r st)"
| "perform w (CancelAdmission clk q k h) st = snd (cancel_admission clk q k h st)"
| "perform w (CreateWorkflow r) st = snd (create_workflow (w_ids w) r st)"
| "perform w (SealWorkflow wid) st = snd (seal_workflow wid st)"
| "perform w (CancelWorkflow wid r) st = snd (cancel_workflow wid r st)"
| "perform w (ClaimJobs clk r) st = snd (claim (w_ids w) clk r st)"
| "perform w (HeartbeatJob clk i a wk l) st = snd (heartbeat clk i a wk l st)"
| "perform w (CompleteJob i a wk r fs pol) st = snd (complete (w_ids w) i a wk r fs pol st)"
| "perform w (FailJob clk i a wk e rt ra p) st = snd (fail clk i a wk e rt ra p st)"
| "perform w (SnoozeJob clk i a wk d r p) st = snd (snooze clk i a wk d r p st)"
| "perform w (ReleaseJob clk i a wk c d) st = snd (release clk i a wk c d st)"
| "perform w (CancelRunning i a wk r) st = snd (cancel_running i a wk r st)"
| "perform w (PutSchedule clk n d v) st = snd (put_schedule (w_ids w) clk n d v st)"
| "perform w (RetireSchedule n v) st = snd (retire_schedule n v st)"
| "perform w (ClaimSchedules clk l le) st = snd (claim_schedules (w_ids w) clk l le st)"
| "perform w (FireSchedule clk i t v oc nx) st = snd (fire_schedule (w_stamp w) (w_ids w) clk i t v oc nx st)"
| "perform w (ScheduleError clk i t v n) st = snd (schedule_error clk i t v n st)"
| "perform w (WorkerHeartbeat clk r) st = snd (worker_heartbeat clk r st)"
| "perform w Close st = st\<lparr>closed := True\<rparr>"

text \<open>An \<open>EnqueueCommand\<close> has passed its validators; every other argument is checked by the call itself.\<close>

fun call_ok :: "call \<Rightarrow> bool" where
  "call_ok (Enqueue c) = enqueue_command_valid c"
| "call_ok c = True"

text \<open>One call, as long as \<open>uuid4()\<close> has not repeated a value.\<close>

inductive call_step :: "world \<Rightarrow> fake \<Rightarrow> call \<Rightarrow> fake \<Rightarrow> bool" for w where
  call_step: "call_ok c \<Longrightarrow> st' = perform w c st \<Longrightarrow> inj_on (w_ids w) {..<drawn st'} \<Longrightarrow>
    call_step w st c st'"

inductive_simps call_step_iff: "call_step w st c st'"

inductive leads :: "world \<Rightarrow> fake \<Rightarrow> fake \<Rightarrow> bool" for w where
  leads_refl: "leads w st st"
| leads_step: "leads w st st' \<Longrightarrow> call_step w st' c st'' \<Longrightarrow> leads w st st''"

definition reachable :: "world \<Rightarrow> fake \<Rightarrow> bool" where
  "reachable w st \<longleftrightarrow> (\<exists>queues. leads w (new_fake queues) st)"

definition client_inv :: "world \<Rightarrow> fake \<Rightarrow> bool" where
  "client_inv w st \<longleftrightarrow> fake_inv (w_ids w) st \<and> schedules_inv (w_ids w) st \<and> workers_ok (workers st)"

section \<open>Every call respects the invariant\<close>

lemma close_sound: "fake_inv us st \<Longrightarrow> fake_inv us (st\<lparr>closed := True\<rparr>) \<and> evolves us st (st\<lparr>closed := True\<rparr>)"
  by (simp add: fake_inv_def evolves_def)

text \<open>The queue part of the invariant, for any call.\<close>

lemma perform_sound:
  assumes "fake_inv (w_ids w) st" and "call_ok c" and "inj_on (w_ids w) {..<drawn (perform w c st)}"
  shows "fake_inv (w_ids w) (perform w c st) \<and> evolves (w_ids w) st (perform w c st)"
  using assms
  by (cases c) (simp_all add: sound_def [symmetric] close_sound wf_rules)

lemma put_sched_workers [simp]: "workers (put_sched s st) = workers st"
  by (simp add: put_sched_def)

lemma draw_workers [simp]: "workers (draw st) = workers st"
  by (simp add: draw_def)

lemma claim_schedule_scan_workers [simp]:
  "workers (snd (claim_schedule_scan us now l le ss cs st)) = workers st"
  by (induction ss arbitrary: cs st) (simp_all add: Let_def)

lemma fire_occurrences_workers: "workers (snd (fire_occurrences stamp us s dues n st)) = workers st"
proof (induction dues arbitrary: n st)
  case (Cons due dues)
  obtain r st1 where r: "enqueue us (occurrence_command stamp s due) st = (r, st1)"
    by (cases rule: prod.exhaust)
  have "side_frame st (snd (enqueue us (occurrence_command stamp s due) st))"
    by (rule enqueue_frame) simp
  then have "workers st1 = workers st" using r by (simp add: side_frame_def)
  then show ?case
    using Cons r by (cases r) (simp_all add: fire_occurrences_step del: fire_occurrences.simps)
qed simp

lemma fire_schedule_workers: "workers (snd (fire_schedule stamp us clk i t v oc nx st)) = workers st"
proof -
  have "workers (snd (rbind (fire_occurrences stamp us s oc 0 st) (\<lambda>n st1.
      case fired_schedule s t oc nx n of (s1, r) \<Rightarrow> (Inr r, put_sched s1 st1)))) = workers st" for s
    using fire_occurrences_workers [of stamp us s oc 0 st]
    by (cases "fire_occurrences stamp us s oc 0 st"; cases "fst (fire_occurrences stamp us s oc 0 st)")
      (simp_all add: split_beta)
  then show ?thesis
    unfolding fire_schedule_def ensure_open_def Let_def by (cases clk) (simp_all split: sum.split option.split)
qed

lemma schedule_workers:
  "workers (snd (put_schedule us clk nm d v st)) = workers st"
  "workers (snd (retire_schedule nm n st)) = workers st"
  "workers (snd (claim_schedules us clk l le st)) = workers st"
  "workers (snd (schedule_error clk i t n m st)) = workers st"
  by (simp_all add: put_schedule_def retire_schedule_def claim_schedules_def schedule_error_def
      ensure_open_def with_now_def Let_def split_beta split: option.split sum.split clock.split)

lemma worker_heartbeat_schedules:
  "schedules_inv us (snd (worker_heartbeat clk r st)) = schedules_inv us st"
  by (cases clk) (auto simp: schedules_inv_def worker_heartbeat_def ensure_open_def split: option.split)

lemma perform_side:
  assumes inv: "schedules_inv (w_ids w) st" "workers_ok (workers st)"
    and dr: "inj_on (w_ids w) {..<drawn (perform w c st)}" and mono: "drawn st \<le> drawn (perform w c st)"
  shows "schedules_inv (w_ids w) (perform w c st) \<and> workers_ok (workers (perform w c st))"
proof (cases "side_frame st (perform w c st)")
  case True
  then show ?thesis using inv mono schedules_inv_frame [OF True mono] by (simp add: side_frame_def)
next
  case False
  then have "(\<exists>clk n d v. c = PutSchedule clk n d v) \<or> (\<exists>n v. c = RetireSchedule n v) \<or>
      (\<exists>clk l le. c = ClaimSchedules clk l le) \<or> (\<exists>clk i t v oc nx. c = FireSchedule clk i t v oc nx) \<or>
      (\<exists>clk i t v n. c = ScheduleError clk i t v n) \<or> (\<exists>clk r. c = WorkerHeartbeat clk r)"
  proof (cases c)
    case Close
    then show ?thesis using False by (simp add: side_frame_def)
  qed (simp_all add: frame_rules)
  then show ?thesis
    using inv dr
    by (elim disjE exE)
      (simp_all add: schedule_workers fire_schedule_workers put_schedule_inv retire_schedule_inv
        claim_schedules_inv fire_schedule_inv schedule_error_inv worker_heartbeat_workers
        worker_heartbeat_schedules)
qed

lemma call_step_inv:
  assumes "client_inv w st" and "call_step w st c st'"
  shows "client_inv w st' \<and> evolves (w_ids w) st st'"
proof -
  have c: "call_ok c" "st' = perform w c st" "inj_on (w_ids w) {..<drawn (perform w c st)}"
    using assms(2) by (auto simp: call_step_iff)
  have "fake_inv (w_ids w) st' \<and> evolves (w_ids w) st st'"
    using perform_sound [OF _ c(1,3)] assms(1) c(2) by (simp add: client_inv_def)
  moreover have "drawn st \<le> drawn st'" using calculation by (simp add: evolves_def)
  ultimately show ?thesis
    using perform_side [OF _ _ c(3)] assms(1) c(2) by (auto simp: client_inv_def)
qed

lemma client_inv_new: "client_inv w (new_fake qs)"
  by (simp add: client_inv_def fake_inv_new)
    (simp add: schedules_inv_def schedules_ok_def new_fake_def)

lemma leads_inv:
  "leads w st st' \<Longrightarrow> client_inv w st \<Longrightarrow> client_inv w st' \<and> evolves (w_ids w) st st'"
proof (induction rule: leads.induct)
  case (leads_step st st' c st'')
  then show ?case using call_step_inv evolves_trans by blast
qed simp

lemma reachable_inv: "reachable w st \<Longrightarrow> client_inv w st"
  using leads_inv client_inv_new by (auto simp: reachable_def)

lemma leads_trans: "leads w st' st'' \<Longrightarrow> leads w st st' \<Longrightarrow> leads w st st''"
  by (induction rule: leads.induct) (auto intro: leads_step)

lemma reachable_leads: "reachable w st \<Longrightarrow> leads w st st' \<Longrightarrow> reachable w st'"
  unfolding reachable_def using leads_trans by blast

end
