(* ===== verification/FakeProps.thy ===== *)
theory FakeProps
  imports FakeRun
begin

text \<open>
  What holds of the fake client in every reachable state: the order of dependencies, progress of
  blocked jobs, uniqueness of keys and limits of workflows, finality of settled jobs and of
  attempts.  A concrete run of a workflow with two steps is the witness of each.
\<close>

section \<open>A concrete run\<close>

definition sample_world :: world where
  "sample_world = \<lparr>w_ids = sample_ids, w_sha = (\<lambda>s. s), w_iso = (\<lambda>_. []), w_stamp = (\<lambda>_. 0)\<rparr>"

definition sample_request :: create_workflow_request where
  "sample_request = \<lparr>cw_workflow_key = ''w'', cw_kind = DAG, cw_params = [],
     cw_declared_queues = [''q''], cw_member_limit = Some 2, cw_policy_hash = None\<rparr>"

definition sample_command :: "string \<Rightarrow> uuid list \<Rightarrow> enqueue_command" where
  "sample_command s ds = \<lparr>ec_queue = ''q'', ec_job_type = ''t'', ec_payload = [], ec_priority = None,
      ec_scheduled_at = None, ec_idempotency_key = Some s, ec_concurrency_key = None,
      ec_affinity_key = None, ec_max_attempts = None, ec_lease_seconds = None, ec_backoff_mode = None,
      ec_backoff_base = None, ec_backoff_cap = None, ec_workflow_id = Some 1, ec_step_key = Some s,
      ec_depends_on = Some ds, ec_headers = None, ec_ttl_seconds = None, ec_flow_key = None\<rparr>"

definition sample_claim :: claim_request where
  "sample_claim = \<lparr>clm_queue = ''q'', clm_worker_id = ''x'', clm_batch = 1, clm_job_types = None,
     clm_lease_seconds = None, clm_affinity_key = None, clm_job_id = None, clm_policy_hashes = None\<rparr>"

definition sample_workflow :: "(string, uuid) dict \<Rightarrow> fake_workflow" where
  "sample_workflow steps = \<lparr>fw_workflow_id = 1, fw_workflow_key = ''w'', fw_kind = DAG, fw_params = [],
     fw_queues = [''q''], fw_sealed = False, fw_cancel_requested = False, fw_status = WF_RUNNING,
     fw_steps = steps, fw_member_limit = Some 2, fw_admitted_total = int (length steps),
     fw_policy_hash = None\<rparr>"

definition sample_member :: "uuid \<Rightarrow> string \<Rightarrow> uuid list \<Rightarrow> job_status \<Rightarrow> fake_job" where
  "sample_member i s ds status = new_fake_job i (sample_command s ds) status"

definition sample_entry :: "uuid \<Rightarrow> string \<Rightarrow> recorded_enqueue" where
  "sample_entry i s = \<lparr>re_job_id = i, re_queue = ''q'', re_job_type = ''t'', re_payload = [],
     re_headers = [], re_idempotency_key = Some s, re_status = CREATED, re_parent_job_id = None\<rparr>"

text \<open>After the workflow is created, after each step is added, and after the first is claimed.\<close>

definition sample_created :: fake where
  "sample_created = (new_fake [''q''])
     \<lparr>workflows := [(1, sample_workflow [])], workflow_keys := [(''w'', 1)], drawn := 1\<rparr>"

definition sample_one :: fake where
  "sample_one = sample_created
     \<lparr>jobs := [(2, sample_member 2 ''a'' [] QUEUED)], order := [2],
      active_keys := [((''q'', ''a''), 2)], workflows := [(1, sample_workflow [(''a'', 2)])],
      enqueues := [sample_entry 2 ''a''], drawn := 2\<rparr>"

definition sample_two :: fake where
  "sample_two = sample_created
     \<lparr>jobs := [(2, sample_member 2 ''a'' [] QUEUED), (3, sample_member 3 ''b'' [2] BLOCKED)],
      order := [2, 3], active_keys := [((''q'', ''a''), 2), ((''q'', ''b''), 3)],
      workflows := [(1, sample_workflow [(''a'', 2), (''b'', 3)])],
      enqueues := [sample_entry 2 ''a'', sample_entry 3 ''b''], drawn := 3\<rparr>"

definition sample_running :: fake_job where
  "sample_running = started_job 4 ''x'' (sample_member 2 ''a'' [] QUEUED)"

definition sample_started :: fake where
  "sample_started = sample_two
     \<lparr>jobs := [(2, sample_running), (3, sample_member 3 ''b'' [2] BLOCKED)], drawn := 4\<rparr>"

lemmas sample_defs = sample_world_def sample_request_def sample_command_def sample_claim_def
  sample_workflow_def sample_member_def sample_entry_def sample_created_def sample_one_def
  sample_two_def sample_running_def sample_started_def sample_ids_def

lemma sample_create: "perform sample_world (CreateWorkflow sample_request) (new_fake [''q'']) = sample_created"
  by (simp add: create_workflow_def ensure_open_def create_workflow_init_def create_workflow_valid_def
      str_len_def bounded_json_def json_size_def queue_name_def queue_char_def char_class_defs
      continuation_options_def continuation_workflow_options_init_def between_def
      max_member_limit_def new_fake_def new_workflow_def
      put_workflow_def draw_def sample_defs Let_def)

lemmas sample_enqueue_defs = enqueue_def enqueue_member_def ensure_open_def new_fake_def Let_def
  insert_member_def command_key_def record_enqueue_def log_enqueue_def set_key_def add_queue_def
  put_workflow_def insert_job_def draw_def set_step_def new_fake_job_def headers_of_def

lemma sample_first: "perform sample_world (Enqueue (sample_command ''a'' [])) sample_created = sample_one"
  by (simp add: sample_enqueue_defs sample_defs)

lemma sample_second: "perform sample_world (Enqueue (sample_command ''b'' [2])) sample_one = sample_two"
  by (simp add: sample_enqueue_defs check_parent_def job_workflow_def sample_defs)

lemma sample_claimed: "perform sample_world (ClaimJobs (Aware 0) sample_claim) sample_two = sample_started"
  by (simp add: claim_def ensure_open_def claim_eligible_def put_job_def draw_def claimed_job_valid_def
      claimed_of_def claim_duration_def started_job_def new_fake_job_def new_fake_def headers_of_def
      str_len_def or_int_def claim_result_init_def sample_defs Let_def)

lemma sample_step:
  assumes "reachable sample_world st" and "call_ok c" and "perform sample_world c st = st'" and "drawn st' < 1000"
  shows "reachable sample_world st'"
proof -
  have "inj_on (w_ids sample_world) {..<drawn st'}"
    using sample_ids_inj [OF assms(4)] by (simp add: sample_world_def)
  then have "call_step sample_world st c st'" using assms(2,3) by (auto simp: call_step_iff)
  then show ?thesis
    using assms(1) reachable_leads leads_step [OF leads_refl] by blast
qed

lemma sample_command_ok:
  "call_ok (Enqueue (sample_command ''a'' []))" "call_ok (Enqueue (sample_command ''b'' [2]))"
  by (simp_all add: sample_command_def enqueue_command_valid_def step_name_def step_char_def char_class_defs)

lemma sample_reachable:
  "reachable sample_world sample_two" "reachable sample_world sample_started"
proof -
  have "leads sample_world (new_fake [''q'']) (new_fake [''q''])" by (rule leads_refl)
  then have "reachable sample_world (new_fake [''q''])" unfolding reachable_def by blast
  from sample_step [OF this _ sample_create] have "reachable sample_world sample_created"
    by (simp add: sample_created_def)
  from sample_step [OF this sample_command_ok(1) sample_first] have "reachable sample_world sample_one"
    by (simp add: sample_one_def)
  from sample_step [OF this sample_command_ok(2) sample_second] show two: "reachable sample_world sample_two"
    by (simp add: sample_two_def)
  from sample_step [OF two _ sample_claimed] show "reachable sample_world sample_started"
    by (simp add: sample_started_def)
qed

lemma sample_started_leads: "leads sample_world sample_two sample_started"
proof -
  have "inj_on (w_ids sample_world) {..<drawn sample_started}"
    using sample_ids_inj [of 4] by (simp add: sample_world_def sample_started_def)
  then have "call_step sample_world sample_two (ClaimJobs (Aware 0) sample_claim) sample_started"
    using sample_claimed by (auto simp: call_step_iff)
  then show ?thesis by (rule leads_step [OF leads_refl])
qed

lemma sample_jobs:
  "dget (jobs sample_two) 2 = Some (sample_member 2 ''a'' [] QUEUED)"
  "dget (jobs sample_two) 3 = Some (sample_member 3 ''b'' [2] BLOCKED)"
  "dget (jobs sample_started) 2 = Some sample_running"
  "dget (jobs sample_started) 3 = Some (sample_member 3 ''b'' [2] BLOCKED)"
  "order sample_started = [2, 3]"
  "dget (workflows sample_started) 1 = Some (sample_workflow [(''a'', 2), (''b'', 3)])"
  by (simp_all add: sample_two_def sample_started_def)

section \<open>Invariants of reachable states\<close>

text \<open>
  C1: Whatever calls a program makes, in whatever order and with whatever arguments, every state of
  the client satisfies its invariant: identifiers are distinct draws and the creation order is the
  order of the jobs, dependencies are acyclic and statuses agree with them, live jobs own their
  idempotency keys, workflow steps and limits match the members, schedule names and identifiers are
  unique, and presence rows are valid.
\<close>

theorem reachable_client_inv:
  assumes "reachable w st"
  shows "client_inv w st"
  using assms by (rule reachable_inv)

theorem reachable_client_inv_witness: "client_inv sample_world sample_started"
  by (rule reachable_client_inv [OF sample_reachable(2)])

lemma reachable_parts:
  assumes "reachable w st"
  shows "dag_inv (jobs st)" "jobs_ok (jobs st)" "keys_inv (jobs st) (active_keys st)"
    "ids_inv (w_ids w) (drawn st) (jobs st) (order st) (workflows st)"
    "workflows_inv (jobs st) (workflows st) (workflow_keys st)" "fake_inv (w_ids w) st"
  using reachable_inv [OF assms] unfolding client_inv_def fake_inv_def by blast+

text \<open>
  C2: In every reachable state the jobs a job depends on exist, belong to the same workflow and were
  created before it; and a job is only ever queued, running, succeeded or failed after every job it
  depends on has succeeded.
\<close>

theorem dependencies_first:
  assumes "reachable w st" and "dget (jobs st) k = Some c" and "d \<in> set (deps c)"
  shows "\<exists>p. dget (jobs st) d = Some p \<and> job_workflow p = job_workflow c \<and>
    position (order st) d < position (order st) k \<and>
    (fj_status c \<in> {QUEUED, RUNNING, SUCCEEDED, FAILED} \<longrightarrow> fj_status p = SUCCEEDED)"
proof -
  have dep: "dep_ok (jobs st) k c"
    using reachable_parts(1) [OF assms(1)] assms(2) by (simp add: dag_inv_def)
  have ord: "order st = dkeys (jobs st)"
    using reachable_parts(4) [OF assms(1)] by (simp add: ids_inv_def)
  obtain p where p: "dget (jobs st) d = Some p" "job_workflow p = job_workflow c"
      "position (order st) d < position (order st) k"
    using dep assms(3) unfolding dep_ok_def ord by blast
  have "succeeded (jobs st) d" if "fj_status c \<in> {QUEUED, RUNNING, SUCCEEDED, FAILED}"
    using dep assms(3) that unfolding dep_ok_def by auto
  then show ?thesis using p by (auto simp: succeeded_def)
qed

theorem dependencies_first_witness:
  "\<exists>p. dget (jobs sample_started) 2 = Some p \<and> position (order sample_started) 2 < position (order sample_started) 3"
proof -
  have "2 \<in> set (deps (sample_member 3 ''b'' [2] BLOCKED))"
    by (simp add: deps_def sample_member_def new_fake_job_def sample_command_def)
  from dependencies_first [OF sample_reachable(2) sample_jobs(4) this] show ?thesis by blast
qed

text \<open>The jobs a job waits for, directly or through others.\<close>

inductive waits_for :: "jobs \<Rightarrow> uuid \<Rightarrow> uuid \<Rightarrow> bool" for js where
  waits_dep: "dget js k = Some c \<Longrightarrow> d \<in> set (deps c) \<Longrightarrow> waits_for js k d"
| waits_step: "dget js k = Some c \<Longrightarrow> d \<in> set (deps c) \<Longrightarrow> waits_for js d e \<Longrightarrow> waits_for js k e"

lemma blocked_waits:
  assumes dag: "dag_inv js"
  shows "dget js k = Some c \<Longrightarrow> fj_status c = BLOCKED \<Longrightarrow>
    \<exists>a p. waits_for js k a \<and> dget js a = Some p \<and> (fj_status p = QUEUED \<or> fj_status p = RUNNING)"
proof (induction "position (dkeys js) k" arbitrary: k c rule: less_induct)
  case less
  have dep: "dep_ok js k c" using dag less.prems(1) by (simp add: dag_inv_def)
  then obtain d where d: "d \<in> set (deps c)" "\<not> succeeded js d" "\<not> dead js d"
    using less.prems(2) unfolding dep_ok_def by blast
  then obtain p where p: "dget js d = Some p" "position (dkeys js) d < position (dkeys js) k"
    using dep unfolding dep_ok_def by blast
  note w = waits_dep [OF less.prems(1) d(1)] waits_step [OF less.prems(1) d(1)]
  show ?case
  proof (cases "fj_status p = BLOCKED")
    case True
    then show ?thesis using less.hyps [OF p(2) p(1)] w(2) by blast
  next
    case False
    then have "fj_status p = QUEUED \<or> fj_status p = RUNNING"
      using d(2,3) p(1) by (cases "fj_status p") (auto simp: succeeded_def dead_def)
    then show ?thesis using w(1) p(1) by blast
  qed
qed

text \<open>
  C18: A blocked job is never stranded: in every reachable state some job it waits for, directly or
  through other jobs, is queued or running, so there is always work whose completion moves it.
\<close>

theorem blocked_job_has_live_ancestor:
  assumes "reachable w st" and "dget (jobs st) k = Some c" and "fj_status c = BLOCKED"
  shows "\<exists>a p. waits_for (jobs st) k a \<and> dget (jobs st) a = Some p \<and>
    (fj_status p = QUEUED \<or> fj_status p = RUNNING)"
  using blocked_waits [OF reachable_parts(1) [OF assms(1)] assms(2,3)] .

theorem blocked_job_has_live_ancestor_witness:
  "\<exists>a p. waits_for (jobs sample_started) 3 a \<and> dget (jobs sample_started) a = Some p \<and>
    (fj_status p = QUEUED \<or> fj_status p = RUNNING)"
  by (rule blocked_job_has_live_ancestor [OF sample_reachable(2) sample_jobs(4)])
    (simp add: sample_member_def new_fake_job_def)

text \<open>
  C15: In every reachable state at most one job per queue and idempotency key is blocked, queued or
  running.
\<close>

theorem one_live_job_per_key:
  assumes "reachable w st"
    and "dget (jobs st) i = Some a" "live_status (fj_status a)" "job_key a = Some q"
    and "dget (jobs st) j = Some b" "live_status (fj_status b)" "job_key b = Some q"
  shows "i = j"
proof -
  have "keys_inv (jobs st) (active_keys st)" using reachable_parts(3) [OF assms(1)] .
  then have "dget (active_keys st) q = Some i" "dget (active_keys st) q = Some j"
    using assms(2-) unfolding keys_inv_def by blast+
  then show ?thesis by simp
qed

theorem one_live_job_per_key_witness:
  "{j. \<exists>b. dget (jobs sample_started) j = Some b \<and> live_status (fj_status b) \<and>
     job_key b = Some (''q'', ''a'')} = {2}"
proof -
  have a: "live_status (fj_status sample_running)" "job_key sample_running = Some (''q'', ''a'')"
    by (simp_all add: sample_running_def sample_member_def live_status_def job_key_def new_fake_job_def
        sample_command_def)
  note one = one_live_job_per_key [OF sample_reachable(2) sample_jobs(3) a]
  show ?thesis using one a sample_jobs(3) by blast
qed

text \<open>The members of a workflow are jobs at its steps.\<close>

lemma members_le_steps:
  assumes ids: "ids_inv us n (jobs st) ord (workflows st)"
    and inv: "workflows_inv (jobs st) (workflows st) names" and w: "dget (workflows st) wid = Some fw"
  shows "length (filter (\<lambda>j. job_workflow j = Some wid) (dvalues (jobs st))) \<le> length (fw_steps fw)"
proof -
  let ?ms = "filter (\<lambda>j. job_workflow j = Some wid) (dvalues (jobs st))"
  have key: "dget (jobs st) (fj_job_id j) = Some j" if jin: "j \<in> set (dvalues (jobs st))" for j
  proof -
    have "distinct (dkeys (jobs st))" using ids unfolding ids_inv_def by blast
    from dvalues_dget [OF this jin] obtain k where "dget (jobs st) k = Some j" ..
    moreover have "fj_job_id j = k" using ids calculation unfolding ids_inv_def ids_match_def by blast
    ultimately show ?thesis by simp
  qed
  have "map fj_job_id (dvalues (jobs st)) = dkeys (jobs st)"
  proof -
    have "fj_job_id j = k" if "(k, j) \<in> set (jobs st)" for k j
      using ids map_of_is_SomeI [OF _ that] that unfolding ids_inv_def ids_match_def by blast
    then show ?thesis by auto
  qed
  then have "distinct (map fj_job_id (dvalues (jobs st)))"
    by (simp only:) (use ids in \<open>simp add: ids_inv_def\<close>)
  then have d: "distinct (map fj_job_id ?ms)" by (simp add: distinct_map_filter)
  have "set (map fj_job_id ?ms) \<subseteq> set (dvalues (fw_steps fw))"
  proof
    fix i assume "i \<in> set (map fj_job_id ?ms)"
    then obtain j where j: "j \<in> set (dvalues (jobs st))" "job_workflow j = Some wid" "i = fj_job_id j"
      by auto
    have "member_ok (workflows st) j" using inv key [OF j(1)] unfolding workflows_inv_def by blast
    then obtain s where "dget (fw_steps fw) s = Some i" using j w by (auto simp: member_ok_def)
    then show "i \<in> set (dvalues (fw_steps fw))" by (force dest: map_of_SomeD)
  qed
  then have "card (set (map fj_job_id ?ms)) \<le> card (set (dvalues (fw_steps fw)))"
    by (intro card_mono) simp_all
  then show ?thesis
    using distinct_card [OF d] card_length [of "dvalues (fw_steps fw)"] by simp
qed

text \<open>
  C16: A workflow with a member limit never holds more jobs than the limit, however producers and
  continuations add them; the count the client keeps is an upper bound of the members.
\<close>

theorem member_limit_respected:
  assumes "reachable w st" and "dget (workflows st) wid = Some fw" and "fw_member_limit fw = Some l"
  shows "int (length (filter (\<lambda>j. job_workflow j = Some wid) (dvalues (jobs st)))) \<le> fw_admitted_total fw \<and>
    fw_admitted_total fw \<le> l"
proof -
  have "workflow_ok (jobs st) wid fw"
    using reachable_parts(5) [OF assms(1)] assms(2) unfolding workflows_inv_def by blast
  then have "int (length (fw_steps fw)) \<le> fw_admitted_total fw" "fw_admitted_total fw \<le> l"
    using assms(3) unfolding workflow_ok_def by blast+
  moreover note members_le_steps [OF reachable_parts(4,5) [OF assms(1)] assms(2)]
  ultimately show ?thesis by linarith
qed

theorem member_limit_respected_witness:
  "int (length (filter (\<lambda>j. job_workflow j = Some 1) (dvalues (jobs sample_started)))) \<le> 2"
  using member_limit_respected [OF sample_reachable(2) sample_jobs(6)] by (simp add: sample_workflow_def)

section \<open>Finality\<close>

text \<open>
  C7: A succeeded, failed or cancelled job is final: no later call, by any worker or producer, changes
  anything about it.
\<close>

theorem finished_jobs_are_final:
  assumes "reachable w st" and "leads w st st'"
    and "dget (jobs st) k = Some j" and "terminal_status (fj_status j)"
  shows "dget (jobs st') k = Some j"
proof -
  have "evolves (w_ids w) st st'" using leads_inv [OF assms(2) reachable_inv [OF assms(1)]] ..
  then obtain j' where "dget (jobs st') k = Some j'" "job_evolves (w_ids w) (drawn st) (drawn st') j j'"
    using assms(3) unfolding evolves_def jobs_evolve_def by blast
  then show ?thesis using assms(4) by (simp add: job_evolves_def)
qed

text \<open>
  C6: The attempt of a job is a fencing token: once a later claim has replaced it, no sequence of calls
  brings it back, so a worker that lost its attempt can never match the job again.
\<close>

theorem attempts_never_return:
  assumes "reachable w st" and "leads w st st1" and "leads w st1 st2"
    and "dget (jobs st) k = Some j" and "fj_attempt_id j = Some a"
    and "dget (jobs st1) k = Some j1" and "fj_attempt_id j1 \<noteq> Some a"
    and "dget (jobs st2) k = Some j2"
  shows "fj_attempt_id j2 \<noteq> Some a"
proof -
  let ?us = "w_ids w"
  note i0 = reachable_inv [OF assms(1)]
  note s1 = leads_inv [OF assms(2) i0]
  have i1: "client_inv w st1" using s1 ..
  note s2 = leads_inv [OF assms(3) i1]
  have e1: "job_evolves ?us (drawn st) (drawn st1) j j1"
    using s1 assms(4,6) unfolding evolves_def jobs_evolve_def by fastforce
  have e2: "job_evolves ?us (drawn st1) (drawn st2) j1 j2"
    using s2 assms(6,8) unfolding evolves_def jobs_evolve_def by fastforce
  have inj: "inj_on ?us {..<drawn st2}"
    using s2 unfolding client_inv_def fake_inv_def ids_inv_def by blast
  have "ids_inv ?us (drawn st) (jobs st) (order st) (workflows st)"
    using i0 unfolding client_inv_def fake_inv_def by blast
  then have "a \<in> ?us ` {..<drawn st}" using assms(4,5) unfolding ids_inv_def by blast
  then obtain m where m: "m < drawn st" "a = ?us m" by auto
  have mono: "drawn st \<le> drawn st1" "drawn st1 \<le> drawn st2"
    using s1 s2 by (auto simp: evolves_def)
  show ?thesis
  proof
    assume "fj_attempt_id j2 = Some a"
    then obtain i where i: "drawn st1 \<le> i" "i < drawn st2" "?us i = a"
      using job_evolves_attempt [OF e2] assms(7) by auto
    then have "i = m" using inj m mono by (auto dest!: inj_onD)
    then show False using i m mono by simp
  qed
qed

text \<open>The running job is snoozed and claimed again.\<close>

definition sample_snoozed :: fake where
  "sample_snoozed = snd (snooze (Aware 0) 2 4 ''x'' 0 None None sample_started)"

definition sample_again :: fake where
  "sample_again = perform sample_world (ClaimJobs (Aware 0) sample_claim) sample_snoozed"

lemma sample_snooze:
  "dget (jobs sample_snoozed) 2 = Some (finished_job sample_running V_SNOOZE QUEUED (Some 0))"
  "drawn sample_snoozed = 4" "closed sample_snoozed = False" "known_queues sample_snoozed = {''q''}"
  "order sample_snoozed = [2, 3]"
  by (simp_all add: sample_snoozed_def snooze_def ensure_open_def replay_or_lost_def finish_def
      handler_result_init_def between_def bounded_json_def some_object_def
      json_size_def plus_seconds_def seconds_def finished_job_def put_job_def log_settlement_def
      started_job_def new_fake_job_def new_fake_def terminal_status_def sample_defs Let_def)

lemma sample_reclaim:
  "dget (jobs sample_again) 2 =
     Some (started_job 5 ''x'' (finished_job sample_running V_SNOOZE QUEUED (Some 0)))"
  "drawn sample_again = 5"
proof -
  have e: "claim_eligible sample_claim None 0 (finished_job sample_running V_SNOOZE QUEUED (Some 0))"
    by (simp add: claim_eligible_def finished_job_def started_job_def new_fake_job_def sample_defs)
  have v: "claimed_job_valid (claimed_of (started_job 5 ''x'' j) 5 (claim_duration sample_claim
      (finished_job sample_running V_SNOOZE QUEUED (Some 0))) 0)"
    if "j = finished_job sample_running V_SNOOZE QUEUED (Some 0)" for j
    by (simp add: that claimed_job_valid_def claimed_of_def claim_duration_def or_int_def between_def
        finished_job_def started_job_def new_fake_job_def sample_defs Let_def)
  have i: "sample_ids 4 = 5" by (simp add: sample_ids_def)
  have q: "clm_queue sample_claim = ''q''" "clm_policy_hashes sample_claim = None"
      "clm_batch sample_claim = 1" "clm_worker_id sample_claim = ''x''" by (simp_all add: sample_claim_def)
  show "dget (jobs sample_again) 2 =
     Some (started_job 5 ''x'' (finished_job sample_running V_SNOOZE QUEUED (Some 0)))"
    "drawn sample_again = 5"
    using sample_snooze e v
    by (simp_all add: sample_again_def claim_def ensure_open_def q i sample_world_def put_job_def draw_def
        sample_running_def sample_member_def new_fake_job_def finished_job_def started_job_def Let_def)
qed

lemma sample_leads:
  assumes "call_ok c" and "perform sample_world c st = st'" and "drawn st' < 1000"
  shows "leads sample_world st st'"
proof -
  have "inj_on (w_ids sample_world) {..<drawn st'}"
    using sample_ids_inj [OF assms(3)] by (simp add: sample_world_def)
  then have "call_step sample_world st c st'" using assms(1,2) by (auto simp: call_step_iff)
  then show ?thesis by (rule leads_step [OF leads_refl])
qed

lemma sample_again_leads: "leads sample_world sample_started sample_again"
proof -
  have "leads sample_world sample_started sample_snoozed"
    by (rule sample_leads [of "SnoozeJob (Aware 0) 2 4 ''x'' 0 None None"])
      (simp_all add: sample_snooze sample_snoozed_def [symmetric])
  moreover have "leads sample_world sample_snoozed sample_again"
    by (rule sample_leads [of "ClaimJobs (Aware 0) sample_claim"])
      (simp_all add: sample_reclaim sample_again_def [symmetric] del: perform.simps)
  ultimately show ?thesis using leads_trans by blast
qed

theorem attempts_never_return_witness:
  "\<exists>j j2. dget (jobs sample_started) 2 = Some j \<and> fj_attempt_id j = Some 4 \<and>
    dget (jobs sample_again) 2 = Some j2 \<and> fj_attempt_id j2 \<noteq> Some 4"
proof -
  have a: "fj_attempt_id sample_running = Some 4" by (simp add: sample_running_def)
  have b: "fj_attempt_id (started_job 5 ''x'' (finished_job sample_running V_SNOOZE QUEUED (Some 0))) \<noteq> Some 4"
    by simp
  show ?thesis
    using attempts_never_return [OF sample_reachable(2) sample_again_leads leads_refl sample_jobs(3) a
        sample_reclaim(1) b sample_reclaim(1)] sample_jobs(3) a sample_reclaim(1) by blast
qed

text \<open>The workflow is cancelled while its first step runs; the step is snoozed afterwards.\<close>

definition sample_cancelled :: fake where
  "sample_cancelled = perform sample_world (CancelWorkflow 1 None) sample_started"

lemma sample_cancel:
  "dget (jobs sample_cancelled) 2 = Some sample_running"
  "dget (jobs sample_cancelled) 3 = Some (sample_member 3 ''b'' [2] CANCELLED)"
  "drawn sample_cancelled = 4" "closed sample_cancelled = False"
  by (simp_all add: sample_cancelled_def cancel_workflow_def ensure_open_def workflow_cancel_valid_def
      refresh_workflow_def get_job_def put_workflow_def started_job_def new_fake_job_def new_fake_def
      sample_defs Let_def)

lemma sample_cancelled_reachable: "reachable sample_world sample_cancelled"
  by (rule sample_step [OF sample_reachable(2), of "CancelWorkflow 1 None"])
    (simp_all add: sample_cancel sample_cancelled_def [symmetric] del: perform.simps)

theorem finished_jobs_are_final_witness:
  "dget (jobs (perform sample_world (SnoozeJob (Aware 0) 2 4 ''x'' 0 None None) sample_cancelled)) 3 =
     Some (sample_member 3 ''b'' [2] CANCELLED)"
proof -
  have d: "drawn (perform sample_world (SnoozeJob (Aware 0) 2 4 ''x'' 0 None None) sample_cancelled) = 4"
    using sample_cancel(1,3,4)
    by (simp add: snooze_def ensure_open_def replay_or_lost_def finish_def
      handler_result_init_def between_def some_object_def finished_job_def put_job_def
      log_settlement_def started_job_def new_fake_job_def terminal_status_def sample_running_def Let_def)
  show ?thesis
    by (rule finished_jobs_are_final [OF sample_cancelled_reachable _ sample_cancel(2)])
      (rule sample_leads [of "SnoozeJob (Aware 0) 2 4 ''x'' 0 None None"],
        simp_all add: d sample_member_def new_fake_job_def terminal_status_def del: perform.simps)
qed

end
