(* ===== verification/FakeFence.thy ===== *)
theory FakeFence
  imports FakeProps
begin

text \<open>
  The fence of the settlement verbs as an interface: a command of a worker for one attempt is either
  answered without effect or applied, and once one has been applied every later command for the same
  attempt is answered.  The five verbs of the fake provide it; what a worker relies on when it
  retries a settlement after a lost reply is proved from the interface alone.
\<close>

section \<open>The interface\<close>

locale fenced_settlement =
  fixes fence :: "'st \<Rightarrow> 'key \<Rightarrow> 'verb \<Rightarrow> 'ans option"
    and settle :: "'key \<Rightarrow> 'cmd \<Rightarrow> 'st \<Rightarrow> 'ans option \<times> 'st"
    and verb :: "'cmd \<Rightarrow> 'verb"
    and good :: "'st \<Rightarrow> bool"
    and fits :: "'st \<Rightarrow> bool"
    and replays :: "'ans \<Rightarrow> bool"
    and conflicts :: "'ans \<Rightarrow> bool"
  assumes answered: "good st \<Longrightarrow> fence st k (verb c) = Some r \<Longrightarrow> settle k c st = (Some r, st)"
    and applied_good: "good st \<Longrightarrow> fits st' \<Longrightarrow> fence st k (verb c) = None \<Longrightarrow>
      settle k c st = (Some r, st') \<Longrightarrow> good st'"
    and applied_fence: "good st \<Longrightarrow> fits st' \<Longrightarrow> fence st k (verb c) = None \<Longrightarrow>
      settle k c st = (Some r, st') \<Longrightarrow>
      \<exists>a. fence st' k v = Some a \<and> (if v = verb c then replays a else conflicts a)"
begin

text \<open>Once a command has been applied, any further commands for its attempt change nothing.\<close>

lemma settled_for_good:
  assumes "good st" and "fits st'" and "fence st k (verb c) = None" and "settle k c st = (Some r, st')"
  shows "fold (\<lambda>c. snd \<circ> settle k c) cs st' = st'"
proof (induction cs)
  case (Cons d cs)
  obtain a where "fence st' k (verb d) = Some a" using applied_fence [OF assms] by blast
  then have "settle k d st' = (Some a, st')" by (rule answered [OF applied_good [OF assms]])
  then show ?case using Cons by simp
qed simp

lemma retry_replays:
  assumes "good st" and "fits st'" and "fence st k (verb c) = None" and "settle k c st = (Some r, st')"
  shows "\<exists>a. settle k d st' = (Some a, st') \<and> (if verb d = verb c then replays a else conflicts a)"
  using applied_fence [OF assms, of "verb d"] answered [OF applied_good [OF assms]] by blast

end

section \<open>The verbs of the fake\<close>

datatype settlement =
    Completing "jobj option" "followup list" "string option"
  | Failing clock string bool "int option" "jobj option"
  | Snoozing clock int "string option" "jobj option"
  | Releasing clock string int
  | CancellingRun string

fun verb_of :: "settlement \<Rightarrow> settle_verb" where
  "verb_of (Completing r fs pol) = V_COMPLETE"
| "verb_of (Failing clk e rt ra p) = V_FAIL"
| "verb_of (Snoozing clk d rs p) = V_SNOOZE"
| "verb_of (Releasing clk ca d) = V_RELEASE"
| "verb_of (CancellingRun rs) = V_CANCEL_RUNNING"

fun settle :: "uuid_source \<Rightarrow> uuid \<Rightarrow> uuid \<Rightarrow> string \<Rightarrow> settlement \<Rightarrow> fake \<Rightarrow> settle_result res" where
  "settle us i a wk (Completing r fs pol) st = complete us i a wk r fs pol st"
| "settle us i a wk (Failing clk e rt ra p) st = fail clk i a wk e rt ra p st"
| "settle us i a wk (Snoozing clk d rs p) st = snooze clk i a wk d rs p st"
| "settle us i a wk (Releasing clk ca d) st = release clk i a wk ca d st"
| "settle us i a wk (CancellingRun rs) st = cancel_running i a wk rs st"

lemma settle_answered:
  "\<not> closed st \<Longrightarrow> replay_or_lost st i a wk (verb_of c) = Inr r \<Longrightarrow> settle us i a wk c st = (Inr r, st)"
  by (cases c) (simp_all add: complete_def fail_def snooze_def release_def cancel_running_def ensure_open_def)

lemma finish_drawn_eq: "finish j v s it oc ca t st = (r, st') \<Longrightarrow> drawn st' = drawn st"
  using finish_drawn [of j v s it oc ca t st] by simp

text \<open>A settlement that is applied leaves the job settled by its verb, under the same attempt.\<close>

definition settled_by :: "settle_verb \<Rightarrow> fake_job \<Rightarrow> fake_job \<Rightarrow> bool" where
  "settled_by v job j \<longleftrightarrow> fj_attempt_id j = fj_attempt_id job \<and> fj_worker_id j = fj_worker_id job \<and>
     fj_settled_command j = Some v"

lemma finish_settles:
  assumes inv: "fake_inv us st" and job: "dget (jobs st) i = Some job" "fj_status job = RUNNING"
    and s: "s \<noteq> BLOCKED" "s \<noteq> RUNNING"
    and r: "rbind (finish job v s it oc ca t st) (\<lambda>_ st1. (Inr x, st1)) = (Inr r, st')"
  shows "r = x \<and> fake_inv us st' \<and> closed st' = closed st \<and>
    (\<exists>j. dget (jobs st') i = Some j \<and> settled_by v job j)"
proof -
  obtain st1 where st1: "finish job v s it oc ca t st = (Inr (), st1)" "fake_inv us st1"
      "finish_frame st st1" "dget (jobs st1) i = Some (finished_job job v s t)"
    using finish_inv [OF inv job s, of v it oc ca t] by blast
  then show ?thesis using r by (auto simp: settled_by_def finish_frame_def)
qed

lemma complete_Inr:
  assumes c: "complete us i a wk res fs pol st = (Inr r, st')"
    and job: "replay_or_lost st i a wk V_COMPLETE = Inl job"
  obtains cs st1 st2 intent where
    "\<not> closed st" "check_policy job pol = Inr ()"
    "plan_children us job (case job_workflow job of None \<Rightarrow> None | Some wid \<Rightarrow> dget (workflows st) wid) fs {} st
      = (Inr cs, st1)"
    "check_members (case job_workflow job of None \<Rightarrow> None | Some wid \<Rightarrow> dget (workflows st) wid) cs = Inr ()"
    "finish job V_COMPLETE SUCCEEDED (Some intent) OK None None st1 = (Inr (), st2)"
    "st' = insert_children cs st2"
    "r = \<lparr>sr_result = OK, sr_job_status = Some SUCCEEDED, sr_scheduled_at = None\<rparr>"
proof -
  have op: "\<not> closed st" using c by (auto simp: complete_def ensure_open_def split: if_splits)
  let ?plan = "\<lambda>workflow. rbind (plan_children us job workflow fs {} st) (\<lambda>children st1.
         case ebind (check_members workflow children) (\<lambda>_.
             handler_result_init (Complete (case res of None \<Rightarrow> [] | Some r \<Rightarrow> r) fs)) of
           Inl e \<Rightarrow> (Inl e, st1)
         | Inr intent \<Rightarrow>
             rbind (finish job V_COMPLETE SUCCEEDED (Some intent) OK None None st1) (\<lambda>_ st2.
               (Inr \<lparr>sr_result = OK, sr_job_status = Some SUCCEEDED, sr_scheduled_at = None\<rparr>,
                insert_children children st2)))"
  let ?E = "ebind (check_policy job pol) (\<lambda>_. case job_workflow job of
               None \<Rightarrow> Inr None
             | Some wid \<Rightarrow> (case dget (workflows st) wid of
                 None \<Rightarrow> Inl PyKeyError | Some w \<Rightarrow> Inr (Some w)))"
  obtain workflow where e: "?E = Inr workflow" and w3: "?plan workflow = (Inr r, st')"
    using c op unfolding complete_def ensure_open_def job sum.case
    by (cases ?E) (simp_all split: if_splits)
  have w: "check_policy job pol = Inr ()"
      "workflow = (case job_workflow job of None \<Rightarrow> None | Some wid \<Rightarrow> dget (workflows st) wid)"
    using e by (auto simp: result_simps split: option.splits)
  obtain cs st1 intent where p: "plan_children us job workflow fs {} st = (Inr cs, st1)"
      "check_members workflow cs = Inr ()"
      "rbind (finish job V_COMPLETE SUCCEEDED (Some intent) OK None None st1) (\<lambda>_ st2.
               (Inr \<lparr>sr_result = OK, sr_job_status = Some SUCCEEDED, sr_scheduled_at = None\<rparr>,
                insert_children cs st2)) = (Inr r, st')"
  proof -
    obtain cs st1 where q: "plan_children us job workflow fs {} st = (Inr cs, st1)"
      "(case ebind (check_members workflow cs) (\<lambda>_.
             handler_result_init (Complete (case res of None \<Rightarrow> [] | Some r \<Rightarrow> r) fs)) of
           Inl e \<Rightarrow> (Inl e, st1)
         | Inr intent \<Rightarrow>
             rbind (finish job V_COMPLETE SUCCEEDED (Some intent) OK None None st1) (\<lambda>_ st2.
               (Inr \<lparr>sr_result = OK, sr_job_status = Some SUCCEEDED, sr_scheduled_at = None\<rparr>,
                insert_children cs st2))) = (Inr r, st')"
      using w3 unfolding rbind_Inr_iff by blast
    show ?thesis
    proof (cases "ebind (check_members workflow cs) (\<lambda>_.
        handler_result_init (Complete (case res of None \<Rightarrow> [] | Some r \<Rightarrow> r) fs))")
      case (Inl e)
      then show ?thesis using q(2) by simp
    next
      case (Inr intent)
      have "check_members workflow cs = Inr ()" using Inr by (auto simp: ebind_Inr_iff)
      then show ?thesis using that [OF q(1)] q(2) Inr by simp
    qed
  qed
  then obtain st2 where
      "finish job V_COMPLETE SUCCEEDED (Some intent) OK None None st1 = (Inr (), st2)"
      "st' = insert_children cs st2"
      "r = \<lparr>sr_result = OK, sr_job_status = Some SUCCEEDED, sr_scheduled_at = None\<rparr>"
    by (auto simp: result_simps)
  then show ?thesis using that op w(1) p(1,2) unfolding w(2) by blast
qed

lemma write_closed [simp]:
  "closed (log_enqueue j c s st) = closed st" "closed (add_job j st) = closed st"
  by (simp_all add: log_enqueue_def add_job_def set_key_def insert_job_def split: option.split)

lemma insert_children_closed [simp]: "closed (insert_children cs st) = closed st"
  by (induction cs st rule: insert_children.induct) simp_all

lemma complete_settles:
  assumes inv: "fake_inv us st" and dr: "inj_on us {..<drawn st'}"
    and c: "complete us i a wk res fs pol st = (Inr r, st')"
    and job: "replay_or_lost st i a wk V_COMPLETE = Inl job"
  shows "sr_result r = OK \<and> fake_inv us st' \<and> closed st' = closed st \<and>
    (\<exists>j. dget (jobs st') i = Some j \<and> settled_by V_COMPLETE job j)"
proof -
  have j: "dget (jobs st) i = Some job" "fj_status job = RUNNING" using job by (simp_all add: replay_Inl)
  obtain cs st1 st2 intent where q0: "\<not> closed st" "check_policy job pol = Inr ()"
    and p: "plan_children us job (case job_workflow job of None \<Rightarrow> None | Some wid \<Rightarrow> dget (workflows st) wid) fs {} st
      = (Inr cs, st1)"
    "check_members (case job_workflow job of None \<Rightarrow> None | Some wid \<Rightarrow> dget (workflows st) wid) cs = Inr ()"
    "finish job V_COMPLETE SUCCEEDED (Some intent) OK None None st1 = (Inr (), st2)"
    "st' = insert_children cs st2"
    "r = \<lparr>sr_result = OK, sr_job_status = Some SUCCEEDED, sr_scheduled_at = None\<rparr>"
    by (rule complete_Inr [OF c job])
  have "drawn st1 = drawn st'" using finish_drawn_eq [OF p(3)] p(4) by simp
  then obtain st2' where q: "finish job V_COMPLETE SUCCEEDED (Some intent) OK None None st1 = (Inr (), st2')"
      "dget (jobs st2') i = Some (finished_job job V_COMPLETE SUCCEEDED None)" "closed st2' = closed st"
      "fake_inv us (insert_children cs st2')" "evolves us st2' (insert_children cs st2')"
    using complete_applied [OF inv j p(1,2), of intent] dr by auto
  have e: "st2' = st2" using q(1) p(3) by simp
  let ?f = "finished_job job V_COMPLETE SUCCEEDED None"
  obtain j' where "dget (jobs st') i = Some j'" "job_evolves us (drawn st2) (drawn st') ?f j'"
    using q(2,5) p(4) unfolding e evolves_def jobs_evolve_def by blast
  then have "dget (jobs st') i = Some ?f" by (simp add: job_evolves_def terminal_status_def)
  then show ?thesis using p q unfolding e by (auto simp: settled_by_def)
qed

lemma fail_settles:
  assumes inv: "fake_inv us st" and c: "fail clk i a wk e rt ra p st = (Inr r, st')"
    and job: "replay_or_lost st i a wk V_FAIL = Inl job"
  shows "sr_result r \<in> {RETRY_SCHEDULED, DEAD} \<and> fake_inv us st' \<and> closed st' = closed st \<and>
    (\<exists>j. dget (jobs st') i = Some j \<and> settled_by V_FAIL job j)"
proof -
  have j: "dget (jobs st) i = Some job" "fj_status job = RUNNING" using job by (simp_all add: replay_Inl)
  let ?job = "job\<lparr>fj_failure_count := fj_failure_count job + 1\<rparr>"
  let ?st = "put_job ?job st"
  have id: "fj_job_id ?job = i"
    using inv j by (simp add: fake_inv_def ids_inv_def ids_match_def)
  have inv1: "fake_inv us ?st" using put_running_inv [OF inv j refl, of "fj_failure_count job + 1"] by simp
  have j1: "dget (jobs ?st) i = Some ?job" "fj_status ?job = RUNNING" "closed ?st = closed st"
    using id j by (simp_all add: put_job_def)
  obtain s it oc t x where f: "s \<noteq> BLOCKED" "s \<noteq> RUNNING" "sr_result x \<in> {RETRY_SCHEDULED, DEAD}"
      "rbind (finish ?job V_FAIL s it oc None t ?st) (\<lambda>_ st1. (Inr x, st1)) = (Inr r, st')"
  proof -
    note u = c [unfolded fail_def ensure_open_def job sum.case Let_def]
    show thesis
    proof (cases "rt \<and> fj_failure_count ?job < or_int (ec_max_attempts (fj_command ?job)) 10")
      case True
      obtain now where now: "clk = Aware now" using u True by (cases clk) (auto split: if_splits)
      then show thesis
        using u True by (cases "handler_result_init (Retry ra (Some e) (some_object p))")
          (auto split: if_splits intro!: that [of QUEUED "\<lparr>sr_result = RETRY_SCHEDULED,
             sr_job_status = Some QUEUED, sr_scheduled_at = Some (plus_seconds now (or_int ra 0))\<rparr>"])
    next
      case False
      then show thesis
        using u by (cases "handler_result_init (NonRetryable e (some_object p))")
          (auto split: if_splits intro!: that [of FAILED "\<lparr>sr_result = DEAD,
             sr_job_status = Some FAILED, sr_scheduled_at = None\<rparr>"])
    qed
  qed
  show ?thesis
    using finish_settles [OF inv1 j1(1,2) f(1,2,4)] f(3) j1(3) by (auto simp: settled_by_def)
qed

lemma settle_applied:
  assumes inv: "fake_inv us st" "\<not> closed st" and dr: "inj_on us {..<drawn st'}"
    and job: "replay_or_lost st i a wk (verb_of c) = Inl job"
    and r: "settle us i a wk c st = (Inr r, st')"
  shows "sr_result r \<in> {OK, RETRY_SCHEDULED, DEAD} \<and> fake_inv us st' \<and> \<not> closed st' \<and>
    (\<exists>j. dget (jobs st') i = Some j \<and> settled_by (verb_of c) job j)"
proof (cases c)
  case (Completing rs fs pol)
  then show ?thesis using complete_settles [OF inv(1) dr] job r inv(2) by auto
next
  case (Failing clk e rt ra p)
  then show ?thesis using fail_settles [OF inv(1)] job r inv(2) by auto
next
  case (Snoozing clk d rs p)
  have j: "dget (jobs st) i = Some job" "fj_status job = RUNNING" using job by (simp_all add: replay_Inl)
  obtain it t where "rbind (finish job V_SNOOZE QUEUED it OK None t st)
      (\<lambda>_ st1. (Inr \<lparr>sr_result = OK, sr_job_status = Some QUEUED, sr_scheduled_at = t\<rparr>, st1)) = (Inr r, st')"
    using r job inv(2) unfolding Snoozing settle.simps verb_of.simps snooze_def ensure_open_def Let_def
    by (cases clk) (auto split: sum.splits)
  from finish_settles [OF inv(1) j _ _ this] show ?thesis using inv(2) Snoozing by auto
next
  case (Releasing clk ca d)
  have j: "dget (jobs st) i = Some job" "fj_status job = RUNNING" using job by (simp_all add: replay_Inl)
  obtain t where "rbind (finish job V_RELEASE QUEUED None OK (Some ca) t st)
      (\<lambda>_ st1. (Inr \<lparr>sr_result = OK, sr_job_status = Some QUEUED, sr_scheduled_at = t\<rparr>, st1)) = (Inr r, st')"
    using r job inv(2) unfolding Releasing settle.simps verb_of.simps release_def ensure_open_def Let_def
    by (cases clk) auto
  from finish_settles [OF inv(1) j _ _ this] show ?thesis using inv(2) Releasing by auto
next
  case (CancellingRun rs)
  have j: "dget (jobs st) i = Some job" "fj_status job = RUNNING" using job by (simp_all add: replay_Inl)
  obtain it where "rbind (finish job V_CANCEL_RUNNING CANCELLED it OK None None st)
      (\<lambda>_ st1. (Inr \<lparr>sr_result = OK, sr_job_status = Some CANCELLED, sr_scheduled_at = None\<rparr>, st1)) = (Inr r, st')"
    using r job inv(2) unfolding CancellingRun settle.simps verb_of.simps cancel_running_def ensure_open_def
    by (auto split: sum.splits)
  from finish_settles [OF inv(1) j _ _ this] show ?thesis using inv(2) CancellingRun by auto
qed

definition fake_fence :: "fake \<Rightarrow> uuid \<times> uuid \<times> string \<Rightarrow> settle_verb \<Rightarrow> settle_result option" where
  "fake_fence st k v = (case k of (i, a, wk) \<Rightarrow>
     (case replay_or_lost st i a wk v of Inl job \<Rightarrow> None | Inr r \<Rightarrow> Some r))"

definition fake_settle ::
  "uuid_source \<Rightarrow> uuid \<times> uuid \<times> string \<Rightarrow> settlement \<Rightarrow> fake \<Rightarrow> settle_result option \<times> fake" where
  "fake_settle us k c st = (case k of (i, a, wk) \<Rightarrow>
     (case settle us i a wk c st of (Inl e, st') \<Rightarrow> (None, st') | (Inr r, st') \<Rightarrow> (Some r, st')))"

lemma fake_settle_Some:
  "fake_settle us (i, a, wk) c st = (Some r, st') \<longleftrightarrow> settle us i a wk c st = (Inr r, st')"
  by (auto simp: fake_settle_def split: prod.splits sum.splits)

lemma snd_fake_settle: "snd (fake_settle us (i, a, wk) c st) = snd (settle us i a wk c st)"
  by (simp add: fake_settle_def split: prod.splits sum.splits)

lemma fake_applied:
  assumes good: "fake_inv us st \<and> \<not> closed st" and dr: "inj_on us {..<drawn st'}"
    and f: "fake_fence st k (verb_of c) = None" and s: "fake_settle us k c st = (Some r, st')"
  shows "(fake_inv us st' \<and> \<not> closed st') \<and>
    (\<exists>x. fake_fence st' k v = Some x \<and>
      (if v = verb_of c then sr_result x = ALREADY_SETTLED else sr_result x = SETTLE_CONFLICT))"
proof -
  obtain i a wk where k: "k = (i, a, wk)" by (cases k)
  obtain job where job: "replay_or_lost st i a wk (verb_of c) = Inl job"
    using f k by (auto simp: fake_fence_def split: sum.splits)
  have r: "settle us i a wk c st = (Inr r, st')" using s k by (simp add: fake_settle_Some)
  obtain j where j: "fake_inv us st'" "\<not> closed st'" "dget (jobs st') i = Some j"
      "settled_by (verb_of c) job j"
    using settle_applied [OF _ _ dr job r] good by auto
  have "fj_attempt_id j = Some a" "fj_worker_id j = Some wk"
    using j(4) job by (simp_all add: replay_Inl settled_by_def)
  then show ?thesis using j k by (auto simp: fake_fence_def replay_or_lost_def settled_by_def)
qed

interpretation fence: fenced_settlement fake_fence "fake_settle us" verb_of
  "\<lambda>st. fake_inv us st \<and> \<not> closed st" "\<lambda>st. inj_on us {..<drawn st}"
  "\<lambda>x. sr_result x = ALREADY_SETTLED" "\<lambda>x. sr_result x = SETTLE_CONFLICT" for us
proof (unfold_locales, goal_cases)
  case (1 st k c r)
  obtain i a wk where k: "k = (i, a, wk)" by (cases k)
  have "replay_or_lost st i a wk (verb_of c) = Inr r"
    using 1(2) k by (auto simp: fake_fence_def split: sum.splits)
  then show ?case using settle_answered 1(1) k by (simp add: fake_settle_Some)
next
  case (2 st st' k c r)
  then show ?case using fake_applied by blast
next
  case (3 st st' k c r v)
  then show ?case using fake_applied by blast
qed

lemma claim_scan_closed [simp]: "closed (snd (claim_scan us r s now ids sel st)) = closed st"
  by (induction ids arbitrary: sel st) (simp_all add: Let_def put_job_def draw_def split: option.split)

lemma claim_closed: "closed (snd (claim us clk r st)) = closed st"
proof -
  have "closed (snd (rbind (claim_scan us r s now ids [] st) (\<lambda>selected st1.
      (claim_result_init (f selected) selected, st1)))) = closed st" for s now ids f
    using claim_scan_closed [of us r s now ids "[]" st]
    by (cases "claim_scan us r s now ids [] st"; cases "fst (claim_scan us r s now ids [] st)") simp_all
  then show ?thesis
    by (simp add: claim_def ensure_open_def with_now_def split: clock.split option.split sum.split)
qed

section \<open>What a worker relies on\<close>

text \<open>
  C3: A stale worker cannot settle: for a job it does not hold, because the job is unknown, the attempt
  has been replaced or it belongs to another worker, each of the five settlement verbs answers
  \<open>lost\<close> and changes nothing, whatever its arguments.
\<close>

theorem stale_settlement_is_lost:
  assumes "\<not> closed st"
    and "\<And>j. dget (jobs st) i = Some j \<Longrightarrow> fj_attempt_id j \<noteq> Some a \<or> fj_worker_id j \<noteq> Some wk"
  shows "settle us i a wk c st = (Inr (settle_lost None), st)"
proof -
  have "replay_or_lost st i a wk v = Inr (settle_lost None)" for v
    using assms(2) by (auto simp: replay_or_lost_def split: option.split)
  then show ?thesis using settle_answered assms(1) by blast
qed

theorem stale_settlement_is_lost_witness:
  "settle sample_ids 2 4 ''x'' (Completing None [] None) sample_again = (Inr (settle_lost None), sample_again) \<and>
   (\<exists>j. dget (jobs sample_again) 2 = Some j \<and> fj_status j = RUNNING)"
proof -
  have "\<not> closed sample_again"
    using sample_snooze sample_again_def claim_closed [of sample_ids "Aware 0" sample_claim sample_snoozed]
    by (simp add: sample_world_def)
  then show ?thesis
    using stale_settlement_is_lost [of sample_again 2 4 "''x''"] sample_reclaim(1)
    by (auto simp del: settle.simps)
qed

text \<open>
  C4: A settlement takes effect once: after one has been applied, the worker's retry of the same verb
  is answered \<open>already_settled\<close>, any other verb \<open>conflict\<close>, and no sequence of further
  settlements for the attempt changes the state, so a reply lost on the way can be retried safely.
\<close>

theorem settlement_applied_once:
  assumes "reachable w st" and "\<not> closed st"
    and "replay_or_lost st i a wk (verb_of c) = Inl job"
    and "settle (w_ids w) i a wk c st = (Inr r, st')" and "inj_on (w_ids w) {..<drawn st'}"
  shows "(\<forall>d. \<exists>x. settle (w_ids w) i a wk d st' = (Inr x, st') \<and>
      sr_result x = (if verb_of d = verb_of c then ALREADY_SETTLED else SETTLE_CONFLICT)) \<and>
    (\<forall>ds. fold (\<lambda>d. snd \<circ> settle (w_ids w) i a wk d) ds st' = st')"
proof -
  have good: "fake_inv (w_ids w) st \<and> \<not> closed st" using reachable_parts(6) [OF assms(1)] assms(2) ..
  have f: "fake_fence st (i, a, wk) (verb_of c) = None" using assms(3) by (simp add: fake_fence_def)
  have s: "fake_settle (w_ids w) (i, a, wk) c st = (Some r, st')" using assms(4) by (simp add: fake_settle_Some)
  have "\<exists>x. settle (w_ids w) i a wk d st' = (Inr x, st') \<and>
      sr_result x = (if verb_of d = verb_of c then ALREADY_SETTLED else SETTLE_CONFLICT)" for d
    using fence.retry_replays [OF good assms(5) f s, of d] by (auto simp: fake_settle_Some split: if_splits)
  moreover have "fold (\<lambda>d. snd \<circ> settle (w_ids w) i a wk d) ds st' = st'" for ds
    using fence.settled_for_good [OF good assms(5) f s, of ds] by (simp add: comp_def snd_fake_settle)
  ultimately show ?thesis by blast
qed

lemma sample_snooze_result:
  "settle sample_ids 2 4 ''x'' (Snoozing (Aware 0) 0 None None) sample_started =
     (Inr \<lparr>sr_result = OK, sr_job_status = Some QUEUED, sr_scheduled_at = Some 0\<rparr>, sample_snoozed)"
  unfolding sample_snoozed_def
  by (simp add: snooze_def ensure_open_def replay_or_lost_def finish_def handler_result_init_def
      between_def bounded_json_def some_object_def plus_seconds_def seconds_def terminal_status_def
      started_job_def new_fake_job_def new_fake_def sample_defs Let_def)

theorem settlement_applied_once_witness:
  "\<exists>x y. settle sample_ids 2 4 ''x'' (Snoozing (Aware 7) 5 None None) sample_snoozed = (Inr x, sample_snoozed) \<and>
     sr_result x = ALREADY_SETTLED \<and>
     settle sample_ids 2 4 ''x'' (Completing None [] None) sample_snoozed = (Inr y, sample_snoozed) \<and>
     sr_result y = SETTLE_CONFLICT"
proof -
  have op: "\<not> closed sample_started" by (simp add: sample_started_def sample_two_def sample_created_def new_fake_def)
  have job: "replay_or_lost sample_started 2 4 ''x'' (verb_of (Snoozing (Aware 0) 0 None None)) = Inl sample_running"
    unfolding replay_Inl using sample_jobs(3)
    by (simp add: sample_running_def sample_member_def started_job_def new_fake_job_def)
  have dr: "inj_on (w_ids sample_world) {..<drawn sample_snoozed}"
    using sample_ids_inj [of 4] by (simp add: sample_snooze sample_world_def)
  note t = settlement_applied_once [OF sample_reachable(2) op job, of _ sample_snoozed,
      unfolded sample_world_def world.select_convs, OF sample_snooze_result dr [unfolded sample_world_def world.select_convs]]
  show ?thesis
    using conjunct1 [OF t, rule_format, of "Snoozing (Aware 7) 5 None None"]
      conjunct1 [OF t, rule_format, of "Completing None [] None"]
    by (auto simp del: settle.simps)
qed

section \<open>The retry budget\<close>

text \<open>
  The budget a handler sees is the one the queue applies: for the context a claim hands to the
  handler, a retryable failure is dead exactly when \<open>failure_would_exhaust_retry_budget\<close>, and
  otherwise the job is queued again with one more failure; a failure that is not retryable is
  always dead.
\<close>

theorem failure_budget_agrees:
  assumes inv: "reachable w st" and "\<not> closed st"
    and job: "replay_or_lost st i a wk V_FAIL = Inl job"
    and ctx: "job_context_init (cj_failure_count (claimed_of job a d t)) (cj_max_attempts (claimed_of job a d t))
      progress rq rs = Inr c"
    and r: "fail (Aware now) i a wk e rt ra p st = (Inr r, st')"
  shows "(sr_result r = DEAD \<longleftrightarrow> \<not> rt \<or> failure_would_exhaust_retry_budget c) \<and>
    (\<exists>j. dget (jobs st') i = Some j \<and> fj_failure_count j = fj_failure_count job + 1 \<and>
      fj_status j = (if sr_result r = DEAD then FAILED else QUEUED))"
proof -
  have j: "dget (jobs st) i = Some job" "fj_status job = RUNNING" using job by (simp_all add: replay_Inl)
  have finv: "fake_inv (w_ids w) st" by (rule reachable_parts(6) [OF inv])
  let ?job = "job\<lparr>fj_failure_count := fj_failure_count job + 1\<rparr>"
  let ?st = "put_job ?job st"
  have id: "fj_job_id job = i" using finv j by (simp add: fake_inv_def ids_inv_def ids_match_def)
  have inv1: "fake_inv (w_ids w) ?st"
    using put_running_inv [OF finv j refl, of "fj_failure_count job + 1"] by simp
  have j1: "dget (jobs ?st) i = Some ?job" "fj_status ?job = RUNNING" using id j by (simp_all add: put_job_def)
  have fields: "ctx_failure_count c = fj_failure_count job"
      "ctx_max_attempts c = or_int (ec_max_attempts (fj_command job)) 10"
    using ctx by (auto simp: job_context_init_def claimed_of_def Let_def result_simps)
  have fin: "\<exists>st1. finish ?job V_FAIL s it oc None x ?st = (Inr (), st1) \<and>
      dget (jobs st1) i = Some (finished_job ?job V_FAIL s x)" if "s \<noteq> BLOCKED" "s \<noteq> RUNNING" for s it oc x
    using finish_inv [OF inv1 j1 that, of V_FAIL it oc None x] by blast
  note u = r [unfolded fail_def ensure_open_def job sum.case Let_def with_now_simps]
  show ?thesis
  proof (cases "rt \<and> fj_failure_count job + 1 < or_int (ec_max_attempts (fj_command job)) 10")
    case True
    obtain intent where "handler_result_init (Retry ra (Some e) (some_object p)) = Inr intent"
      using u True assms(2) by (cases "handler_result_init (Retry ra (Some e) (some_object p))") auto
    then show ?thesis
      using u True assms(2) fin [of QUEUED "Some intent" RETRY_SCHEDULED "Some (plus_seconds now (or_int ra 0))"]
      by (auto simp: failure_would_exhaust_retry_budget_def fields)
  next
    case False
    obtain intent where "handler_result_init (NonRetryable e (some_object p)) = Inr intent"
      using u False assms(2) by (cases "handler_result_init (NonRetryable e (some_object p))") auto
    then show ?thesis
      using u False assms(2) fin [of FAILED "Some intent" DEAD None]
      by (auto simp: failure_would_exhaust_retry_budget_def fields)
  qed
qed

theorem failure_budget_agrees_witness:
  "\<exists>r st' j. fail (Aware 0) 2 4 ''x'' ''e'' True None None sample_started = (Inr r, st') \<and>
     sr_result r \<noteq> DEAD \<and> dget (jobs st') 2 = Some j \<and> fj_failure_count j = 1 \<and> fj_status j = QUEUED"
proof -
  have op: "\<not> closed sample_started" by (simp add: sample_started_def sample_two_def sample_created_def new_fake_def)
  have job: "replay_or_lost sample_started 2 4 ''x'' V_FAIL = Inl sample_running"
    unfolding replay_Inl using sample_jobs(3)
    by (simp add: sample_running_def sample_member_def started_job_def new_fake_job_def)
  have n: "fj_failure_count sample_running = 0" "ec_max_attempts (fj_command sample_running) = None"
    by (simp_all add: sample_running_def sample_member_def new_fake_job_def sample_command_def started_job_def)
  then have ctx: "job_context_init (cj_failure_count (claimed_of sample_running 4 60 0))
      (cj_max_attempts (claimed_of sample_running 4 60 0)) None 1024 1024 =
    Inr \<lparr>ctx_failure_count = 0, ctx_max_attempts = 10, ctx_progress = None, ctx_generation = 0, ctx_pending = None\<rparr>"
    by (simp add: job_context_init_def claimed_of_def or_int_def between_def Let_def)
  obtain r st' where r: "fail (Aware 0) 2 4 ''x'' ''e'' True None None sample_started = (Inr r, st')"
    using op job sample_jobs(3) n
    by (simp add: fail_def ensure_open_def or_int_def handler_result_init_def some_object_def finish_def
        terminal_status_def Let_def)
  show ?thesis
    using failure_budget_agrees [OF sample_reachable(2) op job ctx r] n
    by (auto simp: failure_would_exhaust_retry_budget_def r split: if_splits)
qed

end
