(* ===== verification/FakeEffects.thy ===== *)
theory FakeEffects
  imports FakeFence
begin

text \<open>
  What the operations of the fake do, stated without their loops: which jobs a claim hands out, what
  an enqueue with a key that is taken answers, what a completion, a failure and a cancellation write.
\<close>

section \<open>Claims\<close>

definition eligible_in :: "claim_request \<Rightarrow> string list option \<Rightarrow> instant \<Rightarrow> jobs \<Rightarrow> uuid \<Rightarrow> bool" where
  "eligible_in r supported now js i \<longleftrightarrow>
     (case dget js i of None \<Rightarrow> False | Some j \<Rightarrow> claim_eligible r supported now j)"

definition supported_of :: "claim_request \<Rightarrow> string list option" where
  "supported_of r = (case clm_policy_hashes r of None \<Rightarrow> None
     | Some hs \<Rightarrow> (case continuation_claim_options hs of Inl e \<Rightarrow> None | Inr s \<Rightarrow> Some s))"

text \<open>What a scan has handed out, relative to the state it started from.\<close>

definition handed_out ::
  "uuid_source \<Rightarrow> string \<Rightarrow> claimed_job list \<Rightarrow> fake \<Rightarrow> fake \<Rightarrow> bool" where
  "handed_out us wk new st st' \<longleftrightarrow>
     map cj_attempt_id new = map us [drawn st ..< drawn st + length new] \<and>
     (\<forall>c \<in> set new. \<exists>j. dget (jobs st) (cj_job_id c) = Some j \<and>
        dget (jobs st') (cj_job_id c) = Some (started_job (cj_attempt_id c) wk j)) \<and>
     (\<forall>k. k \<notin> cj_job_id ` set new \<longrightarrow> dget (jobs st') k = dget (jobs st) k)"

lemma upt_Cons: "[n ..< n + Suc m] = n # [Suc n ..< Suc n + m]"
  by (simp add: upt_conv_Cons)

lemma claim_scan_spec:
  "distinct ids \<Longrightarrow> ids_match (jobs st) \<Longrightarrow> int (length sel) < max 1 (clm_batch r) \<Longrightarrow>
   claim_scan us r s now ids sel st = (Inr out, st') \<Longrightarrow>
   \<exists>new. out = sel @ new \<and> handed_out us (clm_worker_id r) new st st' \<and>
     map cj_job_id new = take (nat (max 1 (clm_batch r)) - length sel)
       (filter (eligible_in r s now (jobs st)) ids)"
proof (induction ids arbitrary: sel st)
  case Nil
  then show ?case by (simp add: handed_out_def)
next
  case (Cons i ids)
  obtain j where j: "dget (jobs st) i = Some j" using Cons.prems(4) by (auto split: option.splits)
  have id: "fj_job_id j = i" using Cons.prems(2) j by (simp add: ids_match_def)
  show ?case
  proof (cases "claim_eligible r s now j")
    case False
    then show ?thesis using Cons j by (auto simp: eligible_in_def)
  next
    case True
    define a where "a = us (drawn st)"
    define st1 where "st1 = put_job (started_job a (clm_worker_id r) j) (draw st)"
    define c where "c = claimed_of (started_job a (clm_worker_id r) j) a (claim_duration r j) now"
    have cf: "cj_job_id c = i" "cj_attempt_id c = a"
      using id by (simp_all add: c_def claimed_of_def Let_def)
    have step: "claim_scan us r s now (i # ids) sel st =
        (if \<not> claimed_job_valid c then (Inl (ValidationError ''ClaimedJob''), st1)
         else if int (length (sel @ [c])) \<ge> clm_batch r then (Inr (sel @ [c]), st1)
         else claim_scan us r s now ids (sel @ [c]) st1)"
      using j True by (simp add: a_def st1_def c_def Let_def)
    have js: "dget (jobs st1) k = (if k = i then Some (started_job a (clm_worker_id r) j) else dget (jobs st) k)" for k
      using id by (simp add: st1_def put_job_def draw_def)
    have dr: "drawn st1 = Suc (drawn st)" by (simp add: st1_def put_job_def draw_def)
    have el: "eligible_in r s now (jobs st) i" using j True by (simp add: eligible_in_def)
    show ?thesis
    proof (cases "int (length (sel @ [c])) \<ge> clm_batch r")
      case full: True
      then have out: "out = sel @ [c]" "st' = st1"
        using Cons.prems(4) unfolding step by (simp_all split: if_splits)
      have "nat (max 1 (clm_batch r)) - length sel = 1" using full Cons.prems(3) by simp
      then have "map cj_job_id [c] = take (nat (max 1 (clm_batch r)) - length sel)
          (filter (eligible_in r s now (jobs st)) (i # ids))"
        using el cf by simp
      moreover have "handed_out us (clm_worker_id r) [c] st st'"
        using js j cf unfolding handed_out_def out(2) by (auto simp: a_def)
      ultimately show ?thesis using out(1) by blast
    next
      case False
      then have rest: "claim_scan us r s now ids (sel @ [c]) st1 = (Inr out, st')"
        using Cons.prems(4) unfolding step by (simp split: if_splits)
      have m: "ids_match (jobs st1)"
        using Cons.prems(2) id by (simp add: st1_def put_job_def draw_def)
      have b: "int (length (sel @ [c])) < max 1 (clm_batch r)" using False by simp
      obtain new where new: "out = (sel @ [c]) @ new" "handed_out us (clm_worker_id r) new st1 st'"
          "map cj_job_id new = take (nat (max 1 (clm_batch r)) - length (sel @ [c]))
            (filter (eligible_in r s now (jobs st1)) ids)"
        using Cons.IH [OF _ m b rest] Cons.prems(1) by auto
      have f: "filter (eligible_in r s now (jobs st1)) ids = filter (eligible_in r s now (jobs st)) ids"
        using Cons.prems(1) js by (intro filter_cong) (auto simp: eligible_in_def)
      have sub: "cj_job_id ` set new \<subseteq> set ids"
      proof -
        have "set (map cj_job_id new) \<subseteq> set ids" unfolding new(3) by (auto dest: in_set_takeD)
        then show ?thesis by simp
      qed
      have i: "i \<notin> cj_job_id ` set new" using sub Cons.prems(1) by auto
      have n: "nat (max 1 (clm_batch r)) - length sel = Suc (nat (max 1 (clm_batch r)) - length (sel @ [c]))"
        using b by simp
      have "map cj_job_id (c # new) = take (nat (max 1 (clm_batch r)) - length sel)
          (filter (eligible_in r s now (jobs st)) (i # ids))"
        unfolding n using new(3) el cf f by simp
      moreover have "handed_out us (clm_worker_id r) (c # new) st st'"
        unfolding handed_out_def
      proof (intro conjI ballI allI impI)
        show "map cj_attempt_id (c # new) = map us [drawn st ..< drawn st + length (c # new)]"
          using new(2) dr cf unfolding handed_out_def length_Cons upt_Cons by (simp add: a_def)
        show "dget (jobs st') k = dget (jobs st) k" if "k \<notin> cj_job_id ` set (c # new)" for k
          using new(2) that cf js unfolding handed_out_def by auto
        show "\<exists>j. dget (jobs st) (cj_job_id x) = Some j \<and>
            dget (jobs st') (cj_job_id x) = Some (started_job (cj_attempt_id x) (clm_worker_id r) j)"
          if "x \<in> set (c # new)" for x
        proof (cases "cj_job_id x = i")
          case True
          then have "x = c" using that i by auto
          then show ?thesis using new(2) i cf js j unfolding handed_out_def by auto
        next
          case False
          then have "x \<in> set new" using that cf by auto
          then show ?thesis using new(2) js False unfolding handed_out_def by auto
        qed
      qed
      ultimately show ?thesis using new(1) by auto
    qed
  qed
qed

lemma claim_Inr:
  assumes "claim us (Aware now) r st = (Inr res, st')" and "clm_queue r \<in> known_queues st"
  shows "\<not> closed st \<and> claim_scan us r (supported_of r) now (order st) [] st = (Inr (cr_jobs res), st')"
proof -
  have op: "\<not> closed st" using assms(1) by (auto simp: claim_def ensure_open_def split: if_splits)
  let ?o = "case clm_policy_hashes r of None \<Rightarrow> Inr None
    | Some hs \<Rightarrow> ebind (continuation_claim_options hs) (\<lambda>s. Inr (Some s))"
  let ?f = "\<lambda>s. rbind (claim_scan us r s now (order st) [] st) (\<lambda>selected st1.
      (claim_result_init (if selected \<noteq> [] then CLAIMED else CLAIM_EMPTY) selected, st1))"
  have e: "(case ?o of Inl e \<Rightarrow> (Inl e, st) | Inr s \<Rightarrow> ?f s) = (Inr res, st')"
    using assms op by (simp add: claim_def ensure_open_def)
  obtain s where s: "?o = Inr s" "?f s = (Inr res, st')" using e by (cases ?o) auto
  have "s = supported_of r"
    using s(1) by (auto simp: supported_of_def result_simps split: option.splits)
  then show ?thesis using op s(2) by (auto simp: result_simps claim_result_init_def Let_def split: if_splits)
qed

text \<open>
  C11: A claim hands out exactly the first jobs, in order of creation, that are queued on its queue, due
  and match its filters, at most \<open>batch\<close> of them and at least one when \<open>batch\<close> is not positive;
  each is running afterwards under a fresh attempt of this worker, no two claims share an attempt,
  and every other job is as before.
\<close>

theorem claim_hands_out_first_eligible:
  assumes "reachable w st" and "clm_queue r \<in> known_queues st"
    and c: "claim (w_ids w) (Aware now) r st = (Inr res, st')"
  shows "map cj_job_id (cr_jobs res) = take (nat (max 1 (clm_batch r)))
      (filter (eligible_in r (supported_of r) now (jobs st)) (order st)) \<and>
    map cj_attempt_id (cr_jobs res) = map (w_ids w) [drawn st ..< drawn st + length (cr_jobs res)] \<and>
    (\<forall>x \<in> set (cr_jobs res). \<exists>j. dget (jobs st) (cj_job_id x) = Some j \<and>
       dget (jobs st') (cj_job_id x) = Some (started_job (cj_attempt_id x) (clm_worker_id r) j)) \<and>
    (\<forall>k. k \<notin> cj_job_id ` set (cr_jobs res) \<longrightarrow> dget (jobs st') k = dget (jobs st) k)"
proof -
  have scan: "claim_scan (w_ids w) r (supported_of r) now (order st) [] st = (Inr (cr_jobs res), st')"
    using claim_Inr [OF c assms(2)] ..
  have ids: "distinct (order st)" "ids_match (jobs st)"
    using reachable_parts(4) [OF assms(1)] by (simp_all add: ids_inv_def)
  from claim_scan_spec [OF ids _ scan] show ?thesis by (auto simp: handed_out_def)
qed

theorem claim_hands_out_first_eligible_witness:
  "\<exists>res. claim sample_ids (Aware 0) sample_claim sample_two = (Inr res, sample_started) \<and>
     map cj_job_id (cr_jobs res) = [2] \<and> dget (jobs sample_started) 3 = dget (jobs sample_two) 3"
proof -
  have q: "clm_queue sample_claim \<in> known_queues sample_two"
    by (simp add: sample_claim_def sample_two_def sample_created_def new_fake_def)
  have "\<exists>res. claim sample_ids (Aware 0) sample_claim sample_two = (Inr res, sample_started)"
    by (simp add: claim_def ensure_open_def claim_eligible_def put_job_def draw_def claimed_job_valid_def
      claimed_of_def claim_duration_def started_job_def new_fake_job_def new_fake_def headers_of_def
      str_len_def or_int_def between_def claim_result_init_def claim_result_valid_def sample_defs Let_def)
  then obtain res where res: "claim sample_ids (Aware 0) sample_claim sample_two = (Inr res, sample_started)" ..
  then have c: "claim (w_ids sample_world) (Aware 0) sample_claim sample_two = (Inr res, sample_started)"
    by (simp add: sample_world_def)
  have e: "eligible_in sample_claim (supported_of sample_claim) 0 (jobs sample_two) 2"
    using sample_jobs(1) by (simp add: eligible_in_def claim_eligible_def sample_claim_def sample_member_def
        new_fake_job_def sample_command_def)
  have o2: "order sample_two = [2, 3]" and b: "clm_batch sample_claim = 1"
    by (simp_all add: sample_two_def sample_claim_def)
  note t = claim_hands_out_first_eligible [OF sample_reachable(1) q c]
  have m: "map cj_job_id (cr_jobs res) = [2]" using conjunct1 [OF t] e o2 b by simp
  have n: "3 \<notin> cj_job_id ` set (cr_jobs res)" using arg_cong [OF m, of set] by simp
  note other = conjunct2 [OF conjunct2 [OF conjunct2 [OF t]], THEN spec, THEN mp, OF n]
  show ?thesis by (intro exI [of _ res] conjI res m other)
qed

section \<open>Idempotent enqueues\<close>

lemma enqueue_plain_again:
  assumes inv: "fake_inv us st" and c: "ec_workflow_id c = None" "command_key c \<noteq> None"
    and r: "enqueue_plain us c st = (Inr r, st1)"
  shows "\<exists>r' st2. enqueue_plain us' c st1 = (Inr r', st2) \<and> er_status r' = EXISTED \<and>
    er_job_id r' = er_job_id r \<and> jobs st2 = jobs st1 \<and> order st2 = order st1 \<and> drawn st2 = drawn st1"
proof -
  obtain k where k: "command_key c = Some k" using c(2) by blast
  have ids: "ids_match (jobs st)" using inv by (simp add: fake_inv_def ids_inv_def)
  show ?thesis
  proof (cases "dget (active_keys st) k")
    case (Some i)
    then obtain j where j: "dget (jobs st) i = Some j" using r k by (auto simp: enqueue_plain_def split: option.splits)
    then show ?thesis
      using r k Some by (auto simp: enqueue_plain_def record_enqueue_def log_enqueue_def)
  next
    case None
    then show ?thesis
      using r k by (auto simp: enqueue_plain_def record_enqueue_def log_enqueue_def set_key_def
          add_queue_def insert_job_def draw_def new_fake_job_def Let_def)
  qed
qed

lemma identity_eq_refl:
  "jobj_ok (ec_payload c) \<Longrightarrow> opt_ok jobj_ok (ec_headers c) \<Longrightarrow> identity_eq c c"
  by (cases "ec_headers c")
    (auto simp: identity_eq_def workflow_command_identity_def enqueue_command_eq_def opt_jobj_eq_def)

lemma enqueue_member_again:
  assumes inv: "fake_inv us st" and c: "ec_workflow_id c = Some wid"
    and ok: "jobj_ok (ec_payload c)" "opt_ok jobj_ok (ec_headers c)"
    and dr: "inj_on us {..<drawn st1}"
    and r: "enqueue_member us c st = (Inr r, st1)"
  shows "\<exists>r' st2. enqueue_member us' c st1 = (Inr r', st2) \<and> er_status r' = EXISTED \<and>
    er_job_id r' = er_job_id r \<and> jobs st2 = jobs st1 \<and> order st2 = order st1 \<and> drawn st2 = drawn st1"
proof -
  obtain s where s: "ec_step_key c = Some s" using r c by (cases "ec_step_key c") (auto simp: enqueue_member_def)
  obtain w where w: "dget (workflows st) wid = Some w"
    using r c s by (cases "dget (workflows st) wid") (auto simp: enqueue_member_def)
  have q: "ec_queue c \<in> set (fw_queues w)" using r c s w by (auto simp: enqueue_member_def split: if_splits)
  have wid: "fw_workflow_id w = wid"
    using inv w unfolding fake_inv_def workflows_inv_def workflow_ok_def by blast
  show ?thesis
  proof (cases "dget (fw_steps w) s")
    case (Some i)
    then show ?thesis
      using r c s w q by (auto simp: enqueue_member_def record_enqueue_def log_enqueue_def
          split: option.splits if_splits)
  next
    case None
    obtain ps where ps: "traverse (check_parent (jobs st) wid)
        (case ec_depends_on c of None \<Rightarrow> [] | Some d \<Rightarrow> d) = Inr ps"
      using r c s w q None
      by (cases "traverse (check_parent (jobs st) wid) (case ec_depends_on c of None \<Rightarrow> [] | Some d \<Rightarrow> d)")
        (auto simp: enqueue_member_def split: if_splits)
    obtain x where ins: "insert_member (us (drawn st)) c s w x (draw st) = (Inr r, st1)"
      using r c s w q None ps by (auto simp: enqueue_member_def split: if_splits)
    let ?i = "us (drawn st)"
    have "er_job_id r = ?i \<and> (\<exists>w'. dget (workflows st1) wid = Some w' \<and> fw_queues w' = fw_queues w \<and>
        dget (fw_steps w') s = Some ?i) \<and> (\<exists>j. dget (jobs st1) ?i = Some j \<and> fj_command j = c \<and> fj_job_id j = ?i)"
      using ins wid by (auto simp: insert_member_def record_enqueue_def log_enqueue_def set_key_def
          add_queue_def insert_job_def put_workflow_def set_step_def new_fake_job_def Let_def
          split: option.splits if_splits)
    then show ?thesis
      using c s q identity_eq_refl [OF ok] by (auto simp: enqueue_member_def record_enqueue_def log_enqueue_def)
  qed
qed

text \<open>
  C17: Enqueueing is idempotent: repeating a command that has an idempotency key or names a workflow step,
  right after it succeeded, answers \<open>existed\<close> with the same job and neither adds nor changes a
  job, even when the first call had itself found the job.
\<close>

theorem enqueue_idempotent:
  assumes "reachable w st" and "enqueue (w_ids w) c st = (Inr r, st1)" and "inj_on (w_ids w) {..<drawn st1}"
    and "ec_workflow_id c \<noteq> None \<or> ec_idempotency_key c \<noteq> None"
    and "jobj_ok (ec_payload c)" and "opt_ok jobj_ok (ec_headers c)"
  shows "\<exists>r' st2. enqueue us' c st1 = (Inr r', st2) \<and> er_status r' = EXISTED \<and>
    er_job_id r' = er_job_id r \<and> jobs st2 = jobs st1 \<and> order st2 = order st1 \<and> drawn st2 = drawn st1"
proof -
  have inv: "fake_inv (w_ids w) st" by (rule reachable_parts(6) [OF assms(1)])
  have op: "\<not> closed st" using assms(2) by (auto simp: enqueue_def ensure_open_def split: if_splits)
  then have op1: "\<not> closed st1" using enqueue_schedules [of "w_ids w" c st] assms(2) by simp
  show ?thesis
  proof (cases "ec_workflow_id c")
    case None
    then have "command_key c \<noteq> None" using assms(4) by (simp add: command_key_def)
    then show ?thesis
      using enqueue_plain_again [OF inv None] assms(2) op op1 None by (simp add: enqueue_def ensure_open_def)
  next
    case (Some wid)
    then show ?thesis
      using enqueue_member_again [OF inv Some assms(5,6,3)] assms(2) op op1
      by (simp add: enqueue_def ensure_open_def)
  qed
qed

lemma sample_second_result:
  "\<exists>r. enqueue sample_ids (sample_command ''b'' [2]) sample_one = (Inr r, sample_two) \<and> er_job_id r = 3"
  by (simp add: sample_enqueue_defs check_parent_def job_workflow_def sample_defs)

lemma sample_one_reachable: "reachable sample_world sample_one"
proof -
  have "leads sample_world (new_fake [''q'']) (new_fake [''q''])" by (rule leads_refl)
  then have "reachable sample_world (new_fake [''q''])" unfolding reachable_def by blast
  from sample_step [OF this _ sample_create] have "reachable sample_world sample_created"
    by (simp add: sample_created_def)
  from sample_step [OF this sample_command_ok(1) sample_first] show ?thesis
    by (simp add: sample_one_def)
qed

theorem enqueue_idempotent_witness:
  "\<exists>r st2. enqueue sample_ids (sample_command ''b'' [2]) sample_two = (Inr r, st2) \<and>
     er_status r = EXISTED \<and> er_job_id r = 3 \<and> jobs st2 = jobs sample_two"
proof -
  obtain r where r: "enqueue (w_ids sample_world) (sample_command ''b'' [2]) sample_one = (Inr r, sample_two)"
      "er_job_id r = 3"
    using sample_second_result by (auto simp: sample_world_def)
  have dr: "inj_on (w_ids sample_world) {..<drawn sample_two}"
    using sample_ids_inj [of 3] by (simp add: sample_world_def sample_two_def)
  have ok: "jobj_ok (ec_payload (sample_command ''b'' [2]))" "opt_ok jobj_ok (ec_headers (sample_command ''b'' [2]))"
    by (simp_all add: sample_command_def jobj_ok_def)
  have wid: "ec_workflow_id (sample_command ''b'' [2]) \<noteq> None \<or> ec_idempotency_key (sample_command ''b'' [2]) \<noteq> None"
    by (simp add: sample_command_def)
  show ?thesis
    using enqueue_idempotent [OF sample_one_reachable r(1) dr wid ok, of sample_ids] r(2) by auto
qed

section \<open>Completion, failure and cancellation in a workflow\<close>

text \<open>A job that is not pending neither descends from another nor passes a descent on.\<close>

lemma descends_put:
  assumes "dget js i = Some a" and "\<not> pending_status (fj_status a)" and "\<not> pending_status (fj_status b)"
  shows "descends (dset i b js) wid f k = descends js wid f k"
proof
  have np: "\<not> dependent wid g a" "\<not> dependent wid g b" for g using assms(2,3) by (simp_all add: dependent_def)
  show "descends (dset i b js) wid f k \<Longrightarrow> descends js wid f k"
    by (induction rule: descends.induct) (auto simp: np intro: descends.intros split: if_splits)
  show "descends js wid f k \<Longrightarrow> descends (dset i b js) wid f k"
  proof (induction rule: descends.induct)
    case (desc_child k c)
    then have "dget (dset i b js) k = Some c" using np assms(1) by auto
    then show ?case using desc_child(2) by (rule descends.desc_child)
  next
    case (desc_step d k c)
    then have "dget (dset i b js) k = Some c" using np assms(1) by auto
    then show ?case using desc_step by (blast intro: descends.desc_step)
  qed
qed

lemma refresh_jobs [simp]: "jobs (snd (refresh_workflow w st)) = jobs st"
  by (simp add: refresh_workflow_def put_workflow_def split: sum.split)

text \<open>What \<open>_finish\<close> with a final status writes to the jobs.\<close>

lemma finish_jobs:
  assumes id: "fj_job_id job = i" and job: "dget (jobs st) i = Some job" "fj_status job = RUNNING"
    and wid: "job_workflow job = Some wid" and s: "terminal_status s"
    and r: "finish job v s it oc ca t st = (Inr (), st')"
    and j: "j = finished_job job v s t"
  shows "jobs st' = (if s = SUCCEEDED
      then snd (promote wid i (dkeys (jobs st)) (dset i j (jobs st)))
      else cascade wid [i] {} (dset i j (jobs st)))"
proof -
  have wj: "job_workflow j = Some wid" using job_shape_fields(4) [OF finished_shape] wid j by simp
  let ?st1 = "log_settlement j v it oc ca (pop_key j (put_job j st))"
  have js: "jobs ?st1 = dset i j (jobs st)" using id j by (simp add: put_job_def)
  have k: "dkeys (dset i j (jobs st)) = dkeys (jobs st)" using job(1) by simp
  have "advance_workflow j ?st1 = (Inr (), st')"
    using r s wj by (simp add: finish_def Let_def j)
  then obtain w where "dget (workflows ?st1) wid = Some w"
    using wj by (cases "dget (workflows ?st1) wid") (auto simp: advance_workflow_def)
  then show ?thesis
    using \<open>advance_workflow j ?st1 = (Inr (), st')\<close> wj js k id j refresh_jobs
    by (auto simp: advance_workflow_def split: prod.splits sum.splits dest: arg_cong [of _ _ "jobs \<circ> snd"])
qed

text \<open>Inserting children with new identifiers.\<close>

lemma log_enqueue_jobs [simp]:
  "jobs (log_enqueue j c s st) = jobs st" "order (log_enqueue j c s st) = order st"
  by (simp_all add: log_enqueue_def)

lemma insert_children_jobs:
  "distinct (map (fj_job_id \<circ> fst) cs) \<Longrightarrow> \<forall>x \<in> set cs. snd x = CREATED \<Longrightarrow>
   order (insert_children cs st) = order st @ map (fj_job_id \<circ> fst) cs \<and>
   (\<forall>x \<in> set cs. dget (jobs (insert_children cs st)) (fj_job_id (fst x)) = Some (fst x)) \<and>
   (\<forall>k. k \<notin> (fj_job_id \<circ> fst) ` set cs \<longrightarrow> dget (jobs (insert_children cs st)) k = dget (jobs st) k)"
proof (induction cs arbitrary: st)
  case (Cons x cs)
  obtain c where x: "x = (c, CREATED)" using Cons.prems(2) by (cases x) auto
  let ?st = "log_enqueue c (fj_command c) CREATED (add_job c st)"
  have new: "fj_job_id c \<notin> (fj_job_id \<circ> fst) ` set cs" using Cons.prems(1) x by simp
  have ih: "order (insert_children cs ?st) = order ?st @ map (fj_job_id \<circ> fst) cs"
      "\<And>y. y \<in> set cs \<Longrightarrow> dget (jobs (insert_children cs ?st)) (fj_job_id (fst y)) = Some (fst y)"
      "\<And>k. k \<notin> (fj_job_id \<circ> fst) ` set cs \<Longrightarrow> dget (jobs (insert_children cs ?st)) k = dget (jobs ?st) k"
    using Cons.IH [of ?st] Cons.prems by simp_all
  have e: "insert_children (x # cs) st = insert_children cs ?st" using x by simp
  show ?case
    unfolding e using ih new x by auto
qed simp

text \<open>The states and children of a completion that is applied.\<close>

lemma complete_effect:
  assumes inv: "fake_inv us st" and dr: "inj_on us {..<drawn st'}"
    and c: "complete us i a wk res fs pol st = (Inr r, st')"
    and job: "replay_or_lost st i a wk V_COMPLETE = Inl job"
  obtains cs st1 st2 intent where
    "st1 = st\<lparr>drawn := drawn st + length fs\<rparr>" "drawn st' = drawn st + length fs"
    "finish job V_COMPLETE SUCCEEDED (Some intent) OK None None st1 = (Inr (), st2)"
    "list_all2 (\<lambda>f x. snd x = CREATED \<and> planned st job f (fst x)) fs cs"
    "map (fj_job_id \<circ> fst) cs = map us [drawn st ..< drawn st + length fs]"
    "order st2 = order st" "fake_inv us st1" "dget (jobs st1) i = Some job" "fake_inv us st'"
    "order st' = order st @ map us [drawn st ..< drawn st + length fs]"
    "\<forall>x \<in> set cs. dget (jobs st') (fj_job_id (fst x)) = Some (fst x)"
    "\<forall>k \<in> set (order st). dget (jobs st') k = dget (jobs st2) k"
proof -
  have j: "dget (jobs st) i = Some job" "fj_status job = RUNNING" using job by (simp_all add: replay_Inl)
  obtain cs st1 st2 intent where q0: "\<not> closed st" "check_policy job pol = Inr ()"
    and p: "plan_children us job (case job_workflow job of None \<Rightarrow> None | Some wid \<Rightarrow> dget (workflows st) wid) fs {} st
      = (Inr cs, st1)"
    "check_members (case job_workflow job of None \<Rightarrow> None | Some wid \<Rightarrow> dget (workflows st) wid) cs = Inr ()"
    "finish job V_COMPLETE SUCCEEDED (Some intent) OK None None st1 = (Inr (), st2)"
    "st' = insert_children cs st2"
    "r = \<lparr>sr_result = OK, sr_job_status = Some SUCCEEDED, sr_scheduled_at = None\<rparr>"
    by (rule complete_Inr [OF c job])
  have d1: "drawn st' = drawn st1" using finish_drawn_eq [OF p(3)] p(4) by simp
  have dr1: "inj_on us {..<drawn st1}" using dr d1 by simp
  note pl = plan_children_spec [OF inv j dr1 p(1)]
  have st1: "st1 = st\<lparr>drawn := drawn st + length fs\<rparr>" using pl by blast
  have inv1: "fake_inv us st1"
    using fake_inv_draw [OF inv dr1, of] st1 by simp
  have j1: "dget (jobs st1) i = Some job" using j st1 by simp
  obtain st2' where "finish job V_COMPLETE SUCCEEDED (Some intent) OK None None st1 = (Inr (), st2')"
      "finish_frame st1 st2'" using finish_inv [OF inv1 j1 j(2), of SUCCEEDED V_COMPLETE "Some intent" OK None None] by auto
  then have o2: "order st2 = order st" using p(3) st1 by (simp add: finish_frame_def)
  have created: "\<forall>x \<in> set cs. snd x = CREATED" using pl planned_lists(4) by blast
  have ids: "map (fj_job_id \<circ> fst) cs = map us [drawn st ..< drawn st + length fs]" using pl by blast
  have "distinct (map us [drawn st ..< drawn st + length fs])"
    using dr1 st1 by (auto simp: distinct_map intro: inj_on_subset)
  then have dist: "distinct (map (fj_job_id \<circ> fst) cs)" unfolding ids .
  note ins = insert_children_jobs [OF dist created, of st2]
  have "k \<notin> (fj_job_id \<circ> fst) ` set cs" if kin: "k \<in> set (order st)" for k
  proof
    assume "k \<in> (fj_job_id \<circ> fst) ` set cs"
    then have "k \<in> set (map us [drawn st ..< drawn st + length fs])" unfolding ids [symmetric] by simp
    then obtain n where n: "drawn st \<le> n" "n < drawn st1" "k = us n" using st1 by auto
    have "set (order st) \<subseteq> us ` {..<drawn st}" using inv unfolding fake_inv_def ids_inv_def by simp
    then obtain m where m: "m < drawn st" "k = us m" using kin by auto
    then have "m = n" using dr1 n by (auto dest: inj_onD)
    then show False using n m by simp
  qed
  then have keep: "\<forall>k \<in> set (order st). dget (jobs st') k = dget (jobs st2) k"
    using ins unfolding p(4) by blast
  have "fake_inv us st'"
    using complete_settles [OF inv dr c job] by blast
  show ?thesis
  proof (rule that [OF st1 _ p(3) _ ids o2 inv1 j1 \<open>fake_inv us st'\<close> _ _ keep])
    show "drawn st' = drawn st + length fs" using d1 st1 by simp
    show "list_all2 (\<lambda>f x. snd x = CREATED \<and> planned st job f (fst x)) fs cs" using pl by blast
    show "order st' = order st @ map us [drawn st..<drawn st + length fs]" using ins ids o2 p(4) by simp
    show "\<forall>x \<in> set cs. dget (jobs st') (fj_job_id (fst x)) = Some (fst x)" using ins p(4) by blast
  qed
qed

text \<open>
  C13: A completion creates its follow-ups, each exactly once and together with the settlement: the jobs
  added are one per follow-up, in their order and at the end of the creation order, queued, children
  of the completed job, under the key derived from it and the step, and members of its workflow
  when the follow-up says so.
\<close>

theorem completion_creates_followups:
  assumes "reachable w st" and "inj_on (w_ids w) {..<drawn st'}"
    and "replay_or_lost st i a wk V_COMPLETE = Inl job"
    and "complete (w_ids w) i a wk res fs pol st = (Inr r, st')"
  shows "\<exists>new. order st' = order st @ new \<and>
    list_all2 (\<lambda>f k. \<exists>c. dget (jobs st') k = Some c \<and> fj_status c = QUEUED \<and>
      fj_parent_job_id c = Some i \<and> deps c = [] \<and>
      job_key c = Some (followup_queue job f, engine_key i (fu_step f)) \<and>
      job_workflow c = (if fu_workflow_member f then job_workflow job else None)) fs new"
proof -
  have inv: "fake_inv (w_ids w) st" by (rule reachable_parts(6) [OF assms(1)])
  have j: "dget (jobs st) i = Some job" using assms(3) by (simp add: replay_Inl)
  have id: "fj_job_id job = i" using inv j by (simp add: fake_inv_def ids_inv_def ids_match_def)
  obtain cs st1 st2 intent where e: "st1 = st\<lparr>drawn := drawn st + length fs\<rparr>" "drawn st' = drawn st + length fs"
    "finish job V_COMPLETE SUCCEEDED (Some intent) OK None None st1 = (Inr (), st2)"
    "list_all2 (\<lambda>f x. snd x = CREATED \<and> planned st job f (fst x)) fs cs"
    "map (fj_job_id \<circ> fst) cs = map (w_ids w) [drawn st ..< drawn st + length fs]"
    "order st2 = order st" "fake_inv (w_ids w) st1" "dget (jobs st1) i = Some job" "fake_inv (w_ids w) st'"
    "order st' = order st @ map (w_ids w) [drawn st ..< drawn st + length fs]"
    "\<forall>x \<in> set cs. dget (jobs st') (fj_job_id (fst x)) = Some (fst x)"
    "\<forall>k \<in> set (order st). dget (jobs st') k = dget (jobs st2) k"
    by (rule complete_effect [OF inv assms(2,4,3)])
  have "list_all2 (\<lambda>f k. \<exists>c. dget (jobs st') k = Some c \<and> fj_status c = QUEUED \<and>
      fj_parent_job_id c = Some i \<and> deps c = [] \<and>
      job_key c = Some (followup_queue job f, engine_key i (fu_step f)) \<and>
      job_workflow c = (if fu_workflow_member f then job_workflow job else None))
      fs (map (fj_job_id \<circ> fst) cs)"
    unfolding list_all2_map2
  proof (rule list_all2_all_nthI)
    show "length fs = length cs" using e(4) by (rule list_all2_lengthD)
    fix n assume n: "n < length fs"
    define f where "f = fs ! n"
    define x where "x = cs ! n"
    have p: "planned st job f (fst x)" and x: "x \<in> set cs"
      using n list_all2_nthD [OF e(4) n] list_all2_lengthD [OF e(4)] by (auto simp: f_def x_def)
    have a: "fj_status (fst x) = QUEUED" "fj_parent_job_id (fst x) = Some i" "deps (fst x) = []"
        "job_key (fst x) = Some (followup_queue job f, engine_key i (fu_step f))"
        "job_workflow (fst x) = (if fu_workflow_member f then job_workflow job else None)"
      using p id unfolding planned_def by simp_all
    have b: "dget (jobs st') ((fj_job_id \<circ> fst) x) = Some (fst x)" using e(11) x by simp
    show "\<exists>c. dget (jobs st') ((fj_job_id \<circ> fst) (cs ! n)) = Some c \<and> fj_status c = QUEUED \<and>
      fj_parent_job_id c = Some i \<and> deps c = [] \<and>
      job_key c = Some (followup_queue job (fs ! n), engine_key i (fu_step (fs ! n))) \<and>
      job_workflow c = (if fu_workflow_member (fs ! n) then job_workflow job else None)"
      unfolding f_def [symmetric] x_def [symmetric]
      by (rule exI [of _ "fst x"], intro conjI) (rule b a)+
  qed
  then show ?thesis unfolding e(5) e(10) by (intro exI conjI) (rule refl)
qed

text \<open>
  C12: A completion unblocks exactly the jobs it should: of the jobs that existed before, the completed
  one is succeeded, each blocked member of its workflow that depends on it and whose dependencies
  have now all succeeded is queued, and no other job changes.
\<close>

theorem completion_unblocks_exactly:
  assumes "reachable w st" and "inj_on (w_ids w) {..<drawn st'}"
    and "replay_or_lost st i a wk V_COMPLETE = Inl job" and "job_workflow job = Some wid"
    and "complete (w_ids w) i a wk res fs pol st = (Inr r, st')"
    and "js = dset i (finished_job job V_COMPLETE SUCCEEDED None) (jobs st)" and "k \<in> set (order st)"
  shows "dget (jobs st') k = map_option (promoted wid i js) (dget js k)"
proof -
  have inv: "fake_inv (w_ids w) st" by (rule reachable_parts(6) [OF assms(1)])
  have j: "dget (jobs st) i = Some job" "fj_status job = RUNNING" using assms(3) by (simp_all add: replay_Inl)
  have id: "fj_job_id job = i" using inv j by (simp add: fake_inv_def ids_inv_def ids_match_def)
  obtain cs st1 st2 intent where e: "st1 = st\<lparr>drawn := drawn st + length fs\<rparr>" "drawn st' = drawn st + length fs"
    "finish job V_COMPLETE SUCCEEDED (Some intent) OK None None st1 = (Inr (), st2)"
    "list_all2 (\<lambda>f x. snd x = CREATED \<and> planned st job f (fst x)) fs cs"
    "map (fj_job_id \<circ> fst) cs = map (w_ids w) [drawn st ..< drawn st + length fs]"
    "order st2 = order st" "fake_inv (w_ids w) st1" "dget (jobs st1) i = Some job" "fake_inv (w_ids w) st'"
    "order st' = order st @ map (w_ids w) [drawn st ..< drawn st + length fs]"
    "\<forall>x \<in> set cs. dget (jobs st') (fj_job_id (fst x)) = Some (fst x)"
    "\<forall>k \<in> set (order st). dget (jobs st') k = dget (jobs st2) k"
    by (rule complete_effect [OF inv assms(2,5,3)])
  have js1: "jobs st1 = jobs st" using e(1) by simp
  have js2: "jobs st2 = snd (promote wid i (dkeys (jobs st)) js)"
    using finish_jobs [OF id e(8) j(2) assms(4) _ e(3) refl] assms(6) js1 by (simp add: terminal_status_def)
  have ids: "distinct (dkeys (jobs st))" "order st = dkeys (jobs st)"
    using reachable_parts(4) [OF assms(1)] by (simp_all add: ids_inv_def)
  have "deps_exist (jobs st)" by (rule dag_deps_exist [OF reachable_parts(1) [OF assms(1)]])
  then have "deps_exist js"
    using j(1) job_shape_fields(6) [OF finished_shape, of job V_COMPLETE SUCCEEDED None] assms(6)
    by (auto simp: deps_exist_def)
  then show ?thesis
    using promote_spec [OF ids(1), of js wid i] e(12) assms(7) js2 ids(2) by auto
qed

text \<open>The completions of the first step of the sample, with and without a follow-up.\<close>

definition sample_followup :: followup where
  "sample_followup = \<lparr>fu_step = ''s'', fu_job_type = ''t'', fu_queue = None, fu_payload = [], fu_headers = [],
     fu_priority = None, fu_max_attempts = None, fu_lease_seconds = None, fu_scheduled_at = None,
     fu_workflow_member = False\<rparr>"

lemma sample_held: "replay_or_lost sample_started 2 4 ''x'' V_COMPLETE = Inl sample_running"
  unfolding replay_Inl using sample_jobs(3)
  by (simp add: sample_running_def sample_member_def started_job_def new_fake_job_def)

lemma sample_open: "closed sample_started = False" "known_queues sample_started = {''q''}"
    "drawn sample_started = 4" "active_keys sample_started = [((''q'', ''a''), 2), ((''q'', ''b''), 3)]"
  by (simp_all add: sample_started_def sample_two_def sample_created_def new_fake_def)

lemma sample_running_fields:
  "job_workflow sample_running = Some 1" "fj_policy_hash sample_running = None"
  "fj_command sample_running = sample_command ''a'' []" "fj_job_id sample_running = 2"
  "fj_attempt_id sample_running = Some 4" "fj_worker_id sample_running = Some ''x''"
  by (simp_all add: sample_running_def sample_member_def started_job_def new_fake_job_def job_workflow_def
      sample_command_def)

lemma sample_key: "derive_continuation_idempotency_key 2 ''s'' = Inr (engine_key 2 ''s'')"
  by (simp add: result_simps step_name_def step_char_def char_class_defs)
lemma sample_key_new: "engine_key 2 s \<noteq> ''a''" "engine_key 2 s \<noteq> ''b''" 
  by (simp_all add: engine_key_def)
lemma sample_child:
  "\<exists>c. plan_child sample_ids sample_running w sample_followup sample_started =
    (Inr (child_job sample_running sample_followup 5 c, CREATED), draw sample_started) \<and> ec_workflow_id c = None"
  by (rule exI [of _ "(sample_command ''s'' [])\<lparr>ec_idempotency_key := Some (engine_key 2 ''s''), ec_workflow_id := None,
      ec_step_key := None, ec_depends_on := None, ec_headers := Some []\<rparr>"])
    (simp add: plan_child_def followup_queue_def sample_followup_def sample_running_fields sample_open
    followup_command_def enqueue_command_init_def sample_key sample_key_new sample_command_def sample_ids_def
    enqueue_command_valid_def Let_def)

lemma sample_completed:
  assumes "fs = [] \<or> fs = [sample_followup]"
  shows "\<exists>r st'. complete sample_ids 2 4 ''x'' None fs None sample_started = (Inr r, st') \<and>
    drawn st' = 4 + length fs"
proof -
  obtain c where c: "plan_child sample_ids sample_running (Some (sample_workflow [(''a'', 2), (''b'', 3)]))
      sample_followup sample_started = (Inr (child_job sample_running sample_followup 5 c, CREATED), draw sample_started)"
      "ec_workflow_id c = None"
    using sample_child by blast
  have nm: "fu_workflow_member sample_followup = False" by (simp add: sample_followup_def)
  obtain cs where cs: "plan_children sample_ids sample_running (Some (sample_workflow [(''a'', 2), (''b'', 3)]))
      fs {} sample_started = (Inr cs, sample_started\<lparr>drawn := 4 + length fs\<rparr>)" "new_members cs = 0"
    using assms c by (auto simp: draw_def sample_open new_members_def child_job_def job_workflow_def new_fake_job_def)
  have "inj_on sample_ids {..<drawn (sample_started\<lparr>drawn := 4 + length fs\<rparr>)}"
    using assms sample_ids_inj [of "4 + length fs"] by auto
  moreover have "fake_inv sample_ids sample_started"
    using reachable_parts(6) [OF sample_reachable(2)] by (simp add: sample_world_def)
  ultimately have inv: "fake_inv sample_ids (sample_started\<lparr>drawn := 4 + length fs\<rparr>)"
    using fake_inv_draw [of sample_ids sample_started "4 + length fs"] by (simp add: sample_open)
  have "fj_status sample_running = RUNNING" "dget (jobs (sample_started\<lparr>drawn := 4 + length fs\<rparr>)) 2 = Some sample_running"
    using sample_jobs(3) by (simp_all add: sample_running_def started_job_def)
  then obtain st2 where st2: "finish sample_running V_COMPLETE SUCCEEDED (Some (Complete [] fs)) OK None None
      (sample_started\<lparr>drawn := 4 + length fs\<rparr>) = (Inr (), st2)"
    using finish_inv [OF inv] by blast
  have "complete sample_ids 2 4 ''x'' None fs None sample_started =
     (Inr \<lparr>sr_result = OK, sr_job_status = Some SUCCEEDED, sr_scheduled_at = None\<rparr>, insert_children cs st2)"
    using assms cs nm st2 
    by (auto simp: complete_def ensure_open_def sample_open sample_held check_policy_def sample_running_fields
       sample_jobs check_members_def handler_result_init_def simp del: plan_children.simps)
  then show ?thesis using finish_drawn_eq [OF st2] by simp
qed

theorem completion_creates_followups_witness:
  "\<exists>r st' k c. complete sample_ids 2 4 ''x'' None [sample_followup] None sample_started = (Inr r, st') \<and>
     order st' = [2, 3, k] \<and> dget (jobs st') k = Some c \<and> fj_status c = QUEUED \<and> fj_parent_job_id c = Some 2"
proof -
  obtain r st' where r: "complete (w_ids sample_world) 2 4 ''x'' None [sample_followup] None sample_started = (Inr r, st')"
      "drawn st' = 5"
    using sample_completed [of "[sample_followup]"] by (auto simp: sample_world_def)
  have dr: "inj_on (w_ids sample_world) {..<drawn st'}"
    using sample_ids_inj [of 5] r(2) by (simp add: sample_world_def)
  obtain new where new: "order st' = order sample_started @ new"
    "list_all2 (\<lambda>f k. \<exists>c. dget (jobs st') k = Some c \<and> fj_status c = QUEUED \<and>
      fj_parent_job_id c = Some 2 \<and> deps c = [] \<and>
      job_key c = Some (followup_queue sample_running f, engine_key 2 (fu_step f)) \<and>
      job_workflow c = (if fu_workflow_member f then job_workflow sample_running else None)) [sample_followup] new"
    using completion_creates_followups [OF sample_reachable(2) dr sample_held r(1)] by blast
  then obtain k c where "new = [k]" "dget (jobs st') k = Some c" "fj_status c = QUEUED" "fj_parent_job_id c = Some 2"
    by (auto simp: list_all2_Cons1)
  then show ?thesis using r(1) new(1) sample_jobs(5) by (auto simp: sample_world_def)
qed

theorem completion_unblocks_exactly_witness:
  "\<exists>r st' c. complete sample_ids 2 4 ''x'' None [] None sample_started = (Inr r, st') \<and>
     dget (jobs st') 3 = Some c \<and> fj_status c = QUEUED"
proof -
  obtain r st' where r: "complete (w_ids sample_world) 2 4 ''x'' None [] None sample_started = (Inr r, st')"
      "drawn st' = 4"
    using sample_completed [of "[]"] by (auto simp: sample_world_def)
  have dr: "inj_on (w_ids sample_world) {..<drawn st'}"
    using sample_ids_inj [of 4] r(2) by (simp add: sample_world_def)
  have o3: "3 \<in> set (order sample_started)" by (simp add: sample_jobs(5))
  have d: "deps (sample_member 3 ''b'' [2] BLOCKED) = [2]" "job_workflow (sample_member 3 ''b'' [2] BLOCKED) = Some 1"
    "fj_status (sample_member 3 ''b'' [2] BLOCKED) = BLOCKED"
    by (simp_all add: sample_member_def new_fake_job_def sample_command_def job_workflow_def deps_def)
  have "dget (jobs st') 3 = Some (sample_member 3 ''b'' [2] BLOCKED\<lparr>fj_status := QUEUED\<rparr>)"
    using completion_unblocks_exactly [OF sample_reachable(2) dr sample_held sample_running_fields(1) r(1) refl o3]
      sample_jobs(4) d by (simp add: promoted_def succeeded_def finished_job_def)
  then show ?thesis using r(1) by (auto simp: sample_world_def)
qed

text \<open>A settlement that ends a job otherwise cancels its descendants.\<close>

lemma finish_cascade:
  assumes inv: "fake_inv us st" and job: "dget (jobs st) i = Some job" "fj_status job = RUNNING"
    and st1: "dget (jobs st1) i = Some job1" "fj_status job1 = RUNNING" "fj_job_id job1 = i" "job_workflow job1 = Some wid"
      "jobs st1 = dset i job1 (jobs st)"
    and s: "terminal_status s" "s \<noteq> SUCCEEDED"
    and r: "finish job1 v s it oc ca None st1 = (Inr (), st')"
  shows "dget (jobs st') k = (if descends (jobs st) wid i k
      then map_option (fj_status_update (\<lambda>_. CANCELLED)) (dget (jobs st) k)
      else if k = i then Some (finished_job job1 v s None) else dget (jobs st) k)"
proof -
  let ?js = "dset i (finished_job job1 v s None) (jobs st)"
  have ids: "ids_match (jobs st)" "distinct (dkeys (jobs st))"
    using inv by (simp_all add: fake_inv_def ids_inv_def)
  have f: "fj_status (finished_job job1 v s None) = s" "fj_job_id (finished_job job1 v s None) = i"
    using st1(3) by (simp_all add: finished_job_def)
  have d: "descends ?js wid i k = descends (jobs st) wid i k" for k
    by (rule descends_put [OF job(1)]) (use job s f in \<open>auto simp: pending_status_def terminal_status_def\<close>)
  have n: "\<not> descends (jobs st) wid i i"
    using descends_pending [of "jobs st" wid i i] job by (auto simp: pending_status_def)
  have "jobs st' = cascade wid [i] {} ?js"
    using finish_jobs [OF st1(3,1,2,4) s(1) r refl] s(2) st1(5) by (simp add: update_last)
  moreover have "cancelled_jobs wid i ?js (cascade wid [i] {} ?js)"
    by (rule cascade_pointwise) (use ids f job(1) in simp_all)
  ultimately show ?thesis using d n by (auto simp: cancelled_jobs_def)
qed

text \<open>
  C14: A failure without a retry left ends the job and cancels exactly the jobs that can no longer run:
  the blocked and queued members of its workflow that depend on it directly or through others.
  Everything else is untouched.
\<close>

theorem failure_cancels_descendants:
  assumes "reachable w st" and "replay_or_lost st i a wk V_FAIL = Inl job" and "job_workflow job = Some wid"
    and "fail clk i a wk err retryable retry_after pr st = (Inr r, st')" and "sr_result r = DEAD"
  shows "dget (jobs st') k = (if descends (jobs st) wid i k
      then map_option (fj_status_update (\<lambda>_. CANCELLED)) (dget (jobs st) k)
      else if k = i
      then Some (finished_job (job\<lparr>fj_failure_count := fj_failure_count job + 1\<rparr>) V_FAIL FAILED None)
      else dget (jobs st) k)"
proof -
  let ?job = "job\<lparr>fj_failure_count := fj_failure_count job + 1\<rparr>"
  have inv: "fake_inv (w_ids w) st" by (rule reachable_parts(6) [OF assms(1)])
  have j: "dget (jobs st) i = Some job" "fj_status job = RUNNING" using assms(2) by (simp_all add: replay_Inl)
  have id: "fj_job_id job = i" using inv j by (simp add: fake_inv_def ids_inv_def ids_match_def)
  have op: "\<not> closed st" using assms(4) by (auto simp: fail_def ensure_open_def split: if_splits)
  obtain it where f: "finish ?job V_FAIL FAILED (Some it) DEAD None None (put_job ?job st) = (Inr (), st')"
    using assms(4,5) assms(2) op
    by (cases clk) (auto simp: fail_def ensure_open_def Let_def rbind_def split: if_splits sum.splits prod.splits)
  show ?thesis
    by (rule finish_cascade [OF inv j _ _ _ _ _ _ _ f])
      (use j id assms(3) in \<open>simp_all add: put_job_def terminal_status_def job_workflow_def\<close>)
qed

text \<open>
  Cancelling a running job ends it in the same way: its descendants in the workflow are cancelled
  with it, and nothing else changes.
\<close>

theorem cancellation_cancels_descendants:
  assumes "reachable w st" and "replay_or_lost st i a wk V_CANCEL_RUNNING = Inl job" and "job_workflow job = Some wid"
    and "cancel_running i a wk reason st = (Inr r, st')"
  shows "dget (jobs st') k = (if descends (jobs st) wid i k
      then map_option (fj_status_update (\<lambda>_. CANCELLED)) (dget (jobs st) k)
      else if k = i then Some (finished_job job V_CANCEL_RUNNING CANCELLED None) else dget (jobs st) k)"
proof -
  have inv: "fake_inv (w_ids w) st" by (rule reachable_parts(6) [OF assms(1)])
  have j: "dget (jobs st) i = Some job" "fj_status job = RUNNING" using assms(2) by (simp_all add: replay_Inl)
  have id: "fj_job_id job = i" using inv j by (simp add: fake_inv_def ids_inv_def ids_match_def)
  have op: "\<not> closed st" using assms(4) by (auto simp: cancel_running_def ensure_open_def split: if_splits)
  obtain it oc ca where f: "finish job V_CANCEL_RUNNING CANCELLED it oc ca None st = (Inr (), st')"
    using assms(4) assms(2) op
    by (auto simp: cancel_running_def ensure_open_def Let_def rbind_def split: if_splits sum.splits prod.splits)
  show ?thesis
    by (rule finish_cascade [OF inv j _ _ _ _ _ _ _ f])
      (use j id assms(3) in \<open>simp_all add: terminal_status_def update_triv\<close>)
qed

lemma sample_descends: "descends (jobs sample_started) 1 2 3"
  by (rule descends.desc_child [OF sample_jobs(4)])
    (simp add: dependent_def sample_member_def new_fake_job_def sample_command_def job_workflow_def deps_def
      pending_status_def)

lemma sample_finish:
  assumes "s \<noteq> BLOCKED" and "s \<noteq> RUNNING"
  shows "\<exists>st'. finish sample_running v s it oc ca t sample_started = (Inr (), st')"
    and "fj_failure_count sample_running \<le> n \<Longrightarrow>
      \<exists>st'. finish (sample_running\<lparr>fj_failure_count := n\<rparr>) v s it oc ca t
      (put_job (sample_running\<lparr>fj_failure_count := n\<rparr>) sample_started) = (Inr (), st')"
proof -
  have inv: "fake_inv sample_ids sample_started"
    using reachable_parts(6) [OF sample_reachable(2)] by (simp add: sample_world_def)
  have run: "fj_status sample_running = RUNNING" by (simp add: sample_running_def started_job_def)
  show "\<exists>st'. finish sample_running v s it oc ca t sample_started = (Inr (), st')"
    using finish_inv [OF inv sample_jobs(3) run assms] by blast
  let ?j = "sample_running\<lparr>fj_failure_count := n\<rparr>"
  assume le: "fj_failure_count sample_running \<le> n"
  have inv2: "fake_inv sample_ids (put_job ?j sample_started)"
    using put_running_inv [OF inv sample_jobs(3) run refl le] by simp
  have job: "dget (jobs (put_job ?j sample_started)) 2 = Some ?j" "fj_status ?j = RUNNING"
    using run by (simp_all add: put_job_def sample_running_fields)
  show "\<exists>st'. finish ?j v s it oc ca t (put_job ?j sample_started) = (Inr (), st')"
    using finish_inv [OF inv2 job assms] by blast
qed

theorem failure_cancels_descendants_witness:
  "\<exists>r st'. fail (Aware 0) 2 4 ''x'' ''e'' False None None sample_started = (Inr r, st') \<and> sr_result r = DEAD \<and>
     dget (jobs st') 3 = Some (sample_member 3 ''b'' [2] CANCELLED)"
proof -
  have job: "replay_or_lost sample_started 2 4 ''x'' V_FAIL = Inl sample_running"
    unfolding replay_Inl using sample_jobs(3)
    by (simp add: sample_running_def sample_member_def started_job_def new_fake_job_def)
  obtain r st' where r: "fail (Aware 0) 2 4 ''x'' ''e'' False None None sample_started = (Inr r, st')"
      "sr_result r = DEAD"
    using sample_finish(2) [of FAILED "fj_failure_count sample_running + 1" V_FAIL
        "Some (NonRetryable ''e'' None)" DEAD None None] job
    by (auto simp: fail_def ensure_open_def sample_open handler_result_init_def some_object_def Let_def)
  have "dget (jobs st') 3 = Some (sample_member 3 ''b'' [2] CANCELLED)"
    using failure_cancels_descendants [OF sample_reachable(2) job sample_running_fields(1) r] sample_descends
      sample_jobs(4) by (simp add: sample_member_def new_fake_job_def)
  then show ?thesis using r by blast
qed

theorem cancellation_cancels_descendants_witness:
  "\<exists>r st'. cancel_running 2 4 ''x'' ''e'' sample_started = (Inr r, st') \<and>
     dget (jobs st') 3 = Some (sample_member 3 ''b'' [2] CANCELLED)"
proof -
  have job: "replay_or_lost sample_started 2 4 ''x'' V_CANCEL_RUNNING = Inl sample_running"
    unfolding replay_Inl using sample_jobs(3)
    by (simp add: sample_running_def sample_member_def started_job_def new_fake_job_def)
  obtain r st' where r: "cancel_running 2 4 ''x'' ''e'' sample_started = (Inr r, st')"
    using sample_finish(1) [of CANCELLED V_CANCEL_RUNNING "Some (Cancel ''e'')" OK None None] job
    by (auto simp: cancel_running_def ensure_open_def sample_open handler_result_init_def Let_def)
  have "dget (jobs st') 3 = Some (sample_member 3 ''b'' [2] CANCELLED)"
    using cancellation_cancels_descendants [OF sample_reachable(2) job sample_running_fields(1) r] sample_descends
      sample_jobs(4) by (simp add: sample_member_def new_fake_job_def)
  then show ?thesis using r by blast
qed

text \<open>The steps of a workflow name exactly its members.\<close>

lemma steps_are_members:
  assumes inv: "fake_inv us st" and w: "dget (workflows st) wid = Some w" and c: "dget (jobs st) k = Some c"
  shows "k \<in> set (dvalues (fw_steps w)) \<longleftrightarrow> job_workflow c = Some wid"
proof
  have parts: "ids_inv us (drawn st) (jobs st) (order st) (workflows st)"
    "workflows_inv (jobs st) (workflows st) (workflow_keys st)"
    using inv by (simp_all add: fake_inv_def)
  have ok: "workflow_ok (jobs st) wid w" using parts(2) w unfolding workflows_inv_def by blast
  show "job_workflow c = Some wid" if kin: "k \<in> set (dvalues (fw_steps w))"
  proof -
    have "distinct (dkeys (fw_steps w))" using ok by (simp add: workflow_ok_def)
    then obtain s where "dget (fw_steps w) s = Some k" using dvalues_dget kin by fast
    then show ?thesis using ok c unfolding workflow_ok_def by fastforce
  qed
  show "k \<in> set (dvalues (fw_steps w))" if wid: "job_workflow c = Some wid"
  proof -
    have "member_ok (workflows st) c" "fj_job_id c = k"
      using parts c unfolding workflows_inv_def ids_inv_def ids_match_def by blast+
    then obtain s where "dget (fw_steps w) s = Some k" using w wid by (auto simp: member_ok_def)
    then show ?thesis by (force dest: map_of_SomeD)
  qed
qed

lemma steps_exist:
  assumes inv: "fake_inv us st" and w: "dget (workflows st) wid = Some w" and i: "i \<in> set (dvalues (fw_steps w))"
  shows "\<exists>j. dget (jobs st) i = Some j"
proof -
  have ok: "workflow_ok (jobs st) wid w" using inv w unfolding fake_inv_def workflows_inv_def by blast
  then have "distinct (dkeys (fw_steps w))" by (simp add: workflow_ok_def)
  then obtain s where "dget (fw_steps w) s = Some i" using dvalues_dget i by fast
  then show ?thesis using ok unfolding workflow_ok_def by blast
qed

lemma list_all_running:
  "\<forall>i \<in> set ids. dget js i \<noteq> None \<Longrightarrow>
   list_all (\<lambda>s. s \<noteq> RUNNING) (map fj_status (map (\<lambda>d. the (dget js d)) ids)) \<longleftrightarrow>
   (\<forall>i c. i \<in> set ids \<longrightarrow> dget js i = Some c \<longrightarrow> fj_status c \<noteq> RUNNING)"
  by (induction ids) auto

text \<open>
  C19: Cancelling a running workflow cancels exactly its members that have not started, leaves the running
  ones to their workers, and seals it; the workflow itself is cancelled at once exactly when no
  member is running.
\<close>

theorem cancel_workflow_cancels_members:
  assumes "reachable w st" and "dget (workflows st) wid = Some fw" and "fw_status fw = WF_RUNNING"
    and "\<not> fw_cancel_requested fw" and "\<not> closed st" and "workflow_cancel_valid reason"
  shows "\<exists>r st' fw'. cancel_workflow wid reason st = (Inr r, st') \<and> wr_outcome r = WO_CANCEL_REQUESTED \<and>
    (\<forall>k. dget (jobs st') k = map_option (\<lambda>c. if job_workflow c = Some wid \<and> pending_status (fj_status c)
       then c\<lparr>fj_status := CANCELLED\<rparr> else c) (dget (jobs st) k)) \<and>
    dget (workflows st') wid = Some fw' \<and> fw_sealed fw' \<and> fw_cancel_requested fw' \<and>
    (fw_status fw' = WF_CANCELLED \<longleftrightarrow>
      (\<forall>k c. dget (jobs st) k = Some c \<longrightarrow> job_workflow c = Some wid \<longrightarrow> fj_status c \<noteq> RUNNING))"
proof -
  have inv: "fake_inv (w_ids w) st" by (rule reachable_parts(6) [OF assms(1)])
  have id: "fw_workflow_id fw = wid"
    using inv assms(2) unfolding fake_inv_def workflows_inv_def workflow_ok_def by blast
  let ?ids = "dvalues (fw_steps fw)"
  let ?w = "fw\<lparr>fw_cancel_requested := True, fw_sealed := True\<rparr>"
  have ex: "\<forall>i \<in> set ?ids. dget (jobs st) i \<noteq> None" using steps_exist [OF inv assms(2)] by fastforce
  obtain js' where js': "cancel_members ?ids (jobs st) = (Inr (), js')" "cancelled_members (set ?ids) (jobs st) js'"
    using cancel_members_spec [OF ex] by blast
  have g: "dget js' k = map_option (\<lambda>c. if job_workflow c = Some wid \<and> pending_status (fj_status c)
       then c\<lparr>fj_status := CANCELLED\<rparr> else c) (dget (jobs st) k)" for k
    using js'(2) steps_are_members [OF inv assms(2), of k]
    unfolding cancelled_members_def by (cases "dget (jobs st) k") auto
  have ex': "\<forall>i \<in> set ?ids. dget js' i \<noteq> None" using g ex by simp
  define st1 where "st1 = (put_workflow ?w st)\<lparr>jobs := js'\<rparr>"
  define ps where "ps = map (\<lambda>d. the (dget js' d)) ?ids"
  define fw' where "fw' = ?w\<lparr>fw_status := refreshed_status ?w (map fj_status ps)\<rparr>"
  have j1: "jobs st1 = js'" by (simp add: st1_def)
  have ref: "refresh_workflow ?w st1 = (Inr (), put_workflow fw' st1)"
    using traverse_get_job [OF ex'] by (simp add: refresh_workflow_def j1 fw'_def ps_def)
  have w': "dget (workflows (put_workflow fw' st1)) wid = Some fw'"
    by (simp add: put_workflow_def fw'_def id)
  have res: "cancel_workflow wid reason st = (Inr (workflow_result_of WO_CANCEL_REQUESTED fw'), put_workflow fw' st1)"
    using assms(2-6) js'(1) ref w'
    by (simp add: cancel_workflow_def ensure_open_def current_workflow_def st1_def put_workflow_def Let_def)
  have run: "(\<forall>i c. i \<in> set ?ids \<longrightarrow> dget js' i = Some c \<longrightarrow> fj_status c \<noteq> RUNNING) \<longleftrightarrow>
      (\<forall>k c. dget (jobs st) k = Some c \<longrightarrow> job_workflow c = Some wid \<longrightarrow> fj_status c \<noteq> RUNNING)" (is "?a \<longleftrightarrow> ?b")
  proof
    assume a: ?a
    show ?b
    proof (intro allI impI)
      fix k c assume c: "dget (jobs st) k = Some c" "job_workflow c = Some wid"
      then have "k \<in> set ?ids" using steps_are_members [OF inv assms(2)] by blast
      then show "fj_status c \<noteq> RUNNING" using a g [of k] c by (auto simp: pending_status_def)
    qed
  next
    assume b: ?b
    show ?a
    proof (intro allI impI)
      fix i c assume i: "i \<in> set ?ids" "dget js' i = Some c"
      then obtain d where d: "dget (jobs st) i = Some d" using ex by auto
      then have "fj_status d \<noteq> RUNNING" using b steps_are_members [OF inv assms(2)] i(1) by blast
      then show "fj_status c \<noteq> RUNNING" using g [of i] d i(2) by (auto split: if_splits)
    qed
  qed
  have st: "fw_status fw' = WF_CANCELLED \<longleftrightarrow> ?b"
    using list_all_running [OF ex'] run assms(3) by (simp add: fw'_def refreshed_status_def ps_def)
  have flags: "fw_sealed fw'" "fw_cancel_requested fw'" by (simp_all add: fw'_def)
  have jobs: "jobs (put_workflow fw' st1) = js'" by (simp add: put_workflow_def j1)
  show ?thesis
    by (intro exI [of _ "workflow_result_of WO_CANCEL_REQUESTED fw'"] exI [of _ "put_workflow fw' st1"]
        exI [of _ fw'] conjI allI res w' flags st)
      (simp_all add: jobs g workflow_result_of_def)
qed

theorem cancel_workflow_cancels_members_witness:
  "\<exists>r st'. cancel_workflow 1 None sample_started = (Inr r, st') \<and> wr_outcome r = WO_CANCEL_REQUESTED \<and>
     dget (jobs st') 2 = Some sample_running \<and>
     dget (jobs st') 3 = Some (sample_member 3 ''b'' [2] CANCELLED)"
proof -
  have w: "fw_status (sample_workflow s) = WF_RUNNING" "\<not> fw_cancel_requested (sample_workflow s)" for s
    by (simp_all add: sample_workflow_def)
  have op: "\<not> closed sample_started" "workflow_cancel_valid None"
    by (simp_all add: sample_open workflow_cancel_valid_def)
  obtain r st' where r: "cancel_workflow 1 None sample_started = (Inr r, st')" "wr_outcome r = WO_CANCEL_REQUESTED"
    "\<forall>k. dget (jobs st') k = map_option (\<lambda>c. if job_workflow c = Some 1 \<and> pending_status (fj_status c)
       then c\<lparr>fj_status := CANCELLED\<rparr> else c) (dget (jobs sample_started) k)"
    using cancel_workflow_cancels_members [OF sample_reachable(2) sample_jobs(6) w op] by blast
  have "fj_status sample_running = RUNNING" by (simp add: sample_running_def started_job_def)
  then have "dget (jobs st') 2 = Some sample_running" "dget (jobs st') 3 = Some (sample_member 3 ''b'' [2] CANCELLED)"
    using r(3) [rule_format, of 2] r(3) [rule_format, of 3] sample_jobs(3,4)
    by (simp_all add: pending_status_def sample_member_def new_fake_job_def job_workflow_def sample_command_def)
  then show ?thesis using r(1,2) by blast
qed

end
