(* ===== verification/Registry.thy ===== *)
theory Registry
  imports Execution
begin

text \<open>
  \<open>registry.py\<close>: retry strategies, follow-up targets, the validation of a task and of its handler's
  signature, collision-safe registration, and the canonicalisation of a handler's follow-ups.  A
  pydantic model class is named by a string; its \<open>model_validate(..).model_dump(mode="json")\<close> is a
  parameter.  A task object carries its identity, which \<open>require\<close> compares with \<open>is\<close>.
\<close>

section \<open>Data\<close>

record retry_strategy =
  rs_max_attempts :: "int option"
  rs_mode :: string
  rs_base_seconds :: int
  rs_cap_seconds :: int
  rs_retry_exceptions :: "string list option"

definition retry_strategy_valid :: "retry_strategy \<Rightarrow> bool" where
  "retry_strategy_valid s \<longleftrightarrow>
     opt_ok (between 1 100) (rs_max_attempts s) \<and> (rs_mode s = ''fixed'' \<or> rs_mode s = ''exponential'') \<and>
     between 1 86400 (rs_base_seconds s) \<and> 1 \<le> rs_cap_seconds s \<and> rs_cap_seconds s \<le> 2147483647 \<and>
     rs_base_seconds s \<le> rs_cap_seconds s"

definition retry_strategy_init :: "retry_strategy \<Rightarrow> exc + retry_strategy" where
  "retry_strategy_init s =
     (if retry_strategy_valid s then Inr s else Inl (ValidationError ''RetryStrategy''))"

datatype retry_value = RetryBool bool | RetryInt int | RetryPolicy retry_strategy

record followup_target =
  ft_queue :: string
  ft_job_type :: string
  ft_workflow_member :: bool
  ft_revision :: "string option"

text \<open>The patterns of the fields and \<open>_member_revision_pair\<close>.\<close>

definition followup_target_valid :: "followup_target \<Rightarrow> bool" where
  "followup_target_valid t \<longleftrightarrow>
     queue_name (ft_queue t) \<and> wire_name (ft_job_type t) \<and> opt_ok step_name (ft_revision t) \<and>
     (ft_workflow_member t \<longleftrightarrow> ft_revision t \<noteq> None)"

definition followup_target_init :: "followup_target \<Rightarrow> exc + followup_target" where
  "followup_target_init t =
     (if followup_target_valid t then Inr t else Inl (ValidationError ''FollowupTarget''))"

type_synonym model = string

text \<open>What \<open>inspect.signature\<close> and \<open>get_type_hints\<close> report of a handler.\<close>

datatype param_kind =
  POSITIONAL_ONLY | POSITIONAL_OR_KEYWORD | VAR_POSITIONAL | KEYWORD_ONLY | VAR_KEYWORD

datatype annotation =
    ModelType model
  | JobContextType
  | NoneType
  | CompleteType | SnoozeType | CancelType | RetryType | NonRetryableType
  | OtherType string

datatype hint = Plain annotation | UnionOf "annotation list"

record handler =
  hd_params :: "(string \<times> param_kind) list"
  hd_hints :: "(string, hint) dict option"
  hd_async :: bool

record task =
  tk_object :: nat
  tk_name :: string
  tk_queue :: string
  tk_input :: model
  tk_output :: model
  tk_aliases :: "string list"
  tk_retry :: retry_value
  tk_priority :: "int option"
  tk_lease_seconds :: "int option"
  tk_targets :: "followup_target list"
  tk_handler :: "handler option"
  tk_arity :: nat

section \<open>Validation of a task\<close>

definition handler_result_types :: "annotation list" where
  "handler_result_types = [CompleteType, SnoozeType, CancelType, RetryType, NonRetryableType]"

definition validate_wire_name :: "string \<Rightarrow> string \<Rightarrow> exc + unit" where
  "validate_wire_name v fld =
     guard (wire_name v) (ConfigError (fld @ '' must match the durable wire-name grammar''))"

definition positional :: "(string \<times> param_kind) list \<Rightarrow> (string \<times> param_kind) list" where
  "positional ps = filter (\<lambda>(n, k). k = POSITIONAL_ONLY \<or> k = POSITIONAL_OR_KEYWORD) ps"

text \<open>The members of the return annotation; a missing annotation is \<open>None\<close>.\<close>

definition result_types :: "hint option \<Rightarrow> annotation option list" where
  "result_types h = (case h of
      None \<Rightarrow> [None] | Some (Plain a) \<Rightarrow> [Some a] | Some (UnionOf as) \<Rightarrow> map Some as)"

definition validate_handler :: "handler \<Rightarrow> model \<Rightarrow> model \<Rightarrow> exc + nat" where
  "validate_handler h input output = (case hd_hints h of
      None \<Rightarrow> Inl (ConfigError ''handler annotations could not be resolved'')
    | Some hints \<Rightarrow>
        if list_ex (\<lambda>(n, k). k = VAR_POSITIONAL) (hd_params h)
        then Inl (ConfigError ''handler cannot declare variadic positional parameters'')
        else
          let ps = positional (hd_params h) in
          if length ps \<noteq> 1 \<and> length ps \<noteq> 2
          then Inl (ConfigError ''handler must declare payload or context plus payload'')
          else if dget hints (fst (last ps)) \<noteq> Some (Plain (ModelType input))
          then Inl (ConfigError ''handler input annotation must match the task input model'')
          else if length ps = 2 \<and> dget hints (fst (hd ps)) \<noteq> Some (Plain JobContextType)
          then Inl (ConfigError ''two-argument handler context must be annotated as JobContext'')
          else
            let types = result_types (dget hints ''return'');
                allowed = map Some (ModelType output # NoneType # handler_result_types)
            in if None \<in> set types \<or> types = [] \<or> \<not> list_all (\<lambda>t. t \<in> set allowed) types
               then Inl (ConfigError ''handler return annotation must use the task output or result types'')
               else Inr (length ps))"

definition target_key :: "followup_target \<Rightarrow> string \<times> string" where
  "target_key t = (ft_queue t, ft_job_type t)"

definition member_targets :: "task \<Rightarrow> followup_target list" where
  "member_targets t = filter ft_workflow_member (tk_targets t)"

definition retry_error :: "retry_value \<Rightarrow> bool" where
  "retry_error r = (case r of RetryInt n \<Rightarrow> \<not> between 1 100 n | _ \<Rightarrow> False)"

text \<open>
  \<open>Task.__post_init__\<close>: the checks in their order; the type checks on the models, the retry value
  and the targets hold of every value of the record.
\<close>

definition task_init :: "task \<Rightarrow> exc + task" where
  "task_init t =
     ebind (validate_wire_name (tk_name t) ''name'') (\<lambda>_.
     ebind (guard (queue_name (tk_queue t)) (ConfigError ''queue must match [a-z0-9_]{1,57}'')) (\<lambda>_.
     ebind (traverse (\<lambda>a. validate_wire_name a ''alias'') (tk_aliases t)) (\<lambda>_.
     ebind (guard (distinct (tk_aliases t) \<and> tk_name t \<notin> set (tk_aliases t))
       (ConfigError ''aliases must be distinct and cannot repeat the canonical name'')) (\<lambda>_.
     ebind (guard (\<not> retry_error (tk_retry t)) (ConfigError ''integer retry must be between 1 and 100'')) (\<lambda>_.
     ebind (guard (opt_ok (between 0 1000) (tk_priority t))
       (ConfigError ''priority must be between 0 and 1000'')) (\<lambda>_.
     ebind (guard (opt_ok (between 15 86400) (tk_lease_seconds t))
       (ConfigError ''lease_seconds must be between 15 and 86400'')) (\<lambda>_.
     ebind (guard (distinct (map target_key (tk_targets t)))
       (ConfigError ''followup_targets must be distinct'')) (\<lambda>_.
     ebind (guard (length (remdups (map ft_revision (member_targets t))) \<le> 1)
       (ConfigError ''member-enabled followup_targets must share one continuation revision'')) (\<lambda>_.
     ebind (case tk_handler t of None \<Rightarrow> Inr 0 | Some h \<Rightarrow> validate_handler h (tk_input t) (tk_output t))
       (\<lambda>arity. Inr (t\<lparr>tk_arity := arity\<rparr>)))))))))))"

text \<open>\<open>validate_payload\<close>: the input model validates and dumps, and the dump must be an object.\<close>

type_synonym payload_validator = "model \<Rightarrow> jobj \<Rightarrow> exc + json"

definition validate_payload :: "payload_validator \<Rightarrow> task \<Rightarrow> jobj \<Rightarrow> exc + jobj" where
  "validate_payload vp t v = ebind (vp (tk_input t) v) (\<lambda>j. case j of
      JObj p \<Rightarrow> Inr p | _ \<Rightarrow> Inl (ConfigError ''task input must serialize to a JSON object''))"

definition handler_is_async :: "task \<Rightarrow> bool" where
  "handler_is_async t = (case tk_handler t of None \<Rightarrow> False | Some h \<Rightarrow> hd_async h)"

section \<open>The registry\<close>

record registry =
  rg_canonical :: "(string, task) dict"
  rg_lookup :: "(string, task) dict"

definition empty_registry :: registry where
  "empty_registry = \<lparr>rg_canonical = [], rg_lookup = []\<rparr>"

definition task_keys :: "task \<Rightarrow> string list" where
  "task_keys t = tk_name t # tk_aliases t"

text \<open>\<open>repr\<close> of a string without quotes or backslashes, and of a pair of such strings.\<close>

definition py_repr :: "string \<Rightarrow> string" where
  "py_repr s = [CHR 0x27] @ s @ [CHR 0x27]"

definition pair_repr :: "string \<times> string \<Rightarrow> string" where
  "pair_repr p = ''('' @ py_repr (fst p) @ '', '' @ py_repr (snd p) @ '')''"

text \<open>The loop of \<open>register_many\<close> over copies of both dictionaries; they replace the old ones at the end.\<close>

fun register_all ::
  "task list \<Rightarrow> (string, task) dict \<Rightarrow> (string, task) dict \<Rightarrow> exc + registry" where
  "register_all [] canonical lookup = Inr \<lparr>rg_canonical = canonical, rg_lookup = lookup\<rparr>"
| "register_all (t # ts) canonical lookup =
     (let collisions = sort (filter (\<lambda>k. k \<in> set (dkeys lookup)) (remdups (task_keys t))) in
      if collisions \<noteq> [] then Inl (ConfigError (''task name collision: '' @ py_repr (hd collisions)))
      else register_all ts (dset (tk_name t) t canonical)
             (fold (\<lambda>k d. dset k t d) (task_keys t) lookup))"

definition register_many :: "task list \<Rightarrow> registry \<Rightarrow> (exc + unit) \<times> registry" where
  "register_many ts r = (case register_all ts (rg_canonical r) (rg_lookup r) of
      Inl e \<Rightarrow> (Inl e, r) | Inr r' \<Rightarrow> (Inr (), r'))"

definition register :: "task \<Rightarrow> registry \<Rightarrow> (exc + task) \<times> registry" where
  "register t r = (case register_many [t] r of (Inl e, r') \<Rightarrow> (Inl e, r') | (Inr _, r') \<Rightarrow> (Inr t, r'))"

definition registry_init :: "task list \<Rightarrow> exc + registry" where
  "registry_init ts = register_all ts [] []"

definition registered :: "registry \<Rightarrow> task list" where
  "registered r = dvalues (rg_canonical r)"

definition resolve :: "registry \<Rightarrow> string \<Rightarrow> task option" where
  "resolve r n = dget (rg_lookup r) n"

definition canonical_name :: "registry \<Rightarrow> string \<Rightarrow> exc + string" where
  "canonical_name r n = (case resolve r n of
      None \<Rightarrow> Inl (UnknownTaskError n) | Some t \<Rightarrow> Inr (tk_name t))"

definition require_name :: "registry \<Rightarrow> string \<Rightarrow> exc + task" where
  "require_name r n = (case resolve r n of None \<Rightarrow> Inl (UnknownTaskError n) | Some t \<Rightarrow> Inr t)"

definition require_task :: "registry \<Rightarrow> task \<Rightarrow> exc + task" where
  "require_task r t = (case dget (rg_canonical r) (tk_name t) of
      None \<Rightarrow> Inl (UnknownTaskError (tk_name t))
    | Some u \<Rightarrow> if tk_object u = tk_object t then Inr u else Inl (UnknownTaskError (tk_name t)))"

datatype task_ref = TaskObject task | TaskName string

fun require :: "registry \<Rightarrow> task_ref \<Rightarrow> exc + task" where
  "require r (TaskName n) = require_name r n"
| "require r (TaskObject t) = require_task r t"

text \<open>The inner loop of \<open>validate_followup_graph\<close> over the targets of one parent.\<close>

fun check_targets :: "registry \<Rightarrow> task \<Rightarrow> followup_target list \<Rightarrow> (string \<times> string) set \<Rightarrow> exc + unit" where
  "check_targets r parent [] identities = Inr ()"
| "check_targets r parent (d # ds) identities = (case resolve r (ft_job_type d) of
      None \<Rightarrow> Inl (ConfigError (''followup target is not registered: '' @ py_repr (ft_job_type d)))
    | Some child \<Rightarrow>
        if tk_queue child \<noteq> ft_queue d
        then Inl (ConfigError (''followup target queue does not match registered task: '' @
               py_repr (ft_job_type d)))
        else if (ft_queue d, tk_name child) \<in> identities
        then Inl (ConfigError (''followup targets are not canonically distinct for parent: '' @
               py_repr (tk_name parent)))
        else check_targets r parent ds (insert (ft_queue d, tk_name child) identities))"

definition validate_followup_graph :: "registry \<Rightarrow> exc + unit" where
  "validate_followup_graph r =
     ebind (traverse (\<lambda>p. check_targets r p (tk_targets p) {}) (registered r)) (\<lambda>_. Inr ())"

section \<open>Canonical follow-ups\<close>

text \<open>The dictionary of the declared targets of a parent, by queue and canonical name.\<close>

fun declared_targets ::
  "registry \<Rightarrow> task \<Rightarrow> followup_target list \<Rightarrow> (string \<times> string, followup_target) dict \<Rightarrow>
   exc + (string \<times> string, followup_target) dict" where
  "declared_targets r parent [] declared = Inr declared"
| "declared_targets r parent (d # ds) declared = (case resolve r (ft_job_type d) of
      None \<Rightarrow> Inl (ConfigError (''followup target is not registered: '' @ py_repr (ft_job_type d)))
    | Some target \<Rightarrow>
        let identity = (ft_queue d, tk_name target) in
        if dget declared identity \<noteq> None
        then Inl (ConfigError (''followup targets are not canonically distinct for parent: '' @
               py_repr (tk_name parent)))
        else declared_targets r parent ds (dset identity d declared))"

text \<open>\<open>followup.queue or parent.queue\<close>\<close>

definition followup_queue_in :: "task \<Rightarrow> followup \<Rightarrow> string" where
  "followup_queue_in parent f = (case fu_queue f of
      None \<Rightarrow> tk_queue parent | Some q \<Rightarrow> if q = [] then tk_queue parent else q)"

definition normalize_followup ::
  "payload_validator \<Rightarrow> registry \<Rightarrow> task \<Rightarrow> (string \<times> string, followup_target) dict \<Rightarrow> followup \<Rightarrow>
   exc + followup" where
  "normalize_followup vp r parent declared f = (case resolve r (fu_job_type f) of
      None \<Rightarrow> Inl (InvalidFollowupError (''followup task is not registered: '' @ py_repr (fu_job_type f)))
    | Some target \<Rightarrow>
        let queue = followup_queue_in parent f; identity = (queue, tk_name target) in
        case dget declared identity of
          None \<Rightarrow> Inl (InvalidFollowupError (''followup target is not declared for parent: '' @
            pair_repr identity))
        | Some declaration \<Rightarrow>
            if tk_queue target \<noteq> queue
            then Inl (InvalidFollowupError (''followup target is not declared for parent: '' @
              pair_repr identity))
            else if fu_workflow_member f \<and> \<not> ft_workflow_member declaration
            then Inl (InvalidFollowupError (''followup target is not member-enabled for parent: '' @
              pair_repr identity))
            else case validate_payload vp target (fu_payload f) of
              Inl e \<Rightarrow> Inl (InvalidFollowupError (''followup payload is invalid for target: '' @
                py_repr (tk_name target)))
            | Inr payload \<Rightarrow> Inr (f\<lparr>fu_job_type := tk_name target,
                fu_queue := (if queue \<noteq> tk_queue parent then Some queue else None),
                fu_payload := payload\<rparr>))"

definition normalize_followups ::
  "payload_validator \<Rightarrow> registry \<Rightarrow> task \<Rightarrow> followup list \<Rightarrow> exc + followup list" where
  "normalize_followups vp r parent fs =
     ebind (declared_targets r parent (tk_targets parent) []) (\<lambda>declared.
       traverse (normalize_followup vp r parent declared) fs)"

end
