(* ===== verification/RegistryProps.thy ===== *)
theory RegistryProps
  imports Registry
begin

text \<open>
  Lemmas and properties of the task registry: which lists of tasks can be registered together, what a
  name resolves to afterwards, and what the canonicalisation of follow-ups returns.
\<close>

section \<open>Registration\<close>

lemma dget_fold_dset: "dget (fold (\<lambda>k d. dset k t d) ks l) x = (if x \<in> set ks then Some t else dget l x)"
  by (induction ks arbitrary: l) auto

text \<open>Both dictionaries describe the same tasks.\<close>

definition registry_ok :: "(string, task) dict \<Rightarrow> (string, task) dict \<Rightarrow> bool" where
  "registry_ok c l \<longleftrightarrow>
     (\<forall>n t. dget c n = Some t \<longrightarrow> tk_name t = n \<and> dget l n = Some t) \<and>
     (\<forall>k t. dget l k = Some t \<longrightarrow> k \<in> set (task_keys t) \<and> dget c (tk_name t) = Some t)"

definition disjoint_keys :: "task \<Rightarrow> task \<Rightarrow> bool" where
  "disjoint_keys t u \<longleftrightarrow> set (task_keys t) \<inter> set (task_keys u) = {}"

lemma dget_None_keys: "dget l k = None \<longleftrightarrow> k \<notin> set (dkeys l)"
  by (simp add: map_of_eq_None_iff)

lemma registry_ok_add:
  assumes ok: "registry_ok c l" and new: "\<forall>k \<in> set (task_keys t). dget l k = None"
  shows "registry_ok (dset (tk_name t) t c) (fold (\<lambda>k d. dset k t d) (task_keys t) l)"
    and "dget c (tk_name t) = None"
proof -
  have name: "tk_name t \<in> set (task_keys t)" by (simp add: task_keys_def)
  show fresh: "dget c (tk_name t) = None"
    using ok new name unfolding registry_ok_def by (metis option.exhaust option.distinct(1))
  show "registry_ok (dset (tk_name t) t c) (fold (\<lambda>k d. dset k t d) (task_keys t) l)"
    unfolding registry_ok_def dget_fold_dset dget_dset
  proof (intro conjI allI impI)
    fix n u assume u: "(if n = tk_name t then Some t else dget c n) = Some u"
    show "tk_name u = n" using u ok by (auto simp: registry_ok_def split: if_splits)
    show "(if n \<in> set (task_keys t) then Some t else dget l n) = Some u"
    proof (cases "n = tk_name t")
      case True
      then show ?thesis using u name by simp
    next
      case False
      then have "dget l n = Some u" using u ok by (simp add: registry_ok_def)
      then show ?thesis using new by fastforce
    qed
  next
    fix k u assume u: "(if k \<in> set (task_keys t) then Some t else dget l k) = Some u"
    show "k \<in> set (task_keys u)" using u ok by (auto simp: registry_ok_def split: if_splits)
    show "(if tk_name u = tk_name t then Some t else dget c (tk_name u)) = Some u"
    proof (cases "k \<in> set (task_keys t)")
      case True
      then show ?thesis using u by simp
    next
      case False
      then have "dget c (tk_name u) = Some u" using u ok by (simp add: registry_ok_def)
      then show ?thesis using fresh by auto
    qed
  qed
qed

lemma collisions_Nil:
  "sort (filter (\<lambda>k. k \<in> set (dkeys l)) (remdups ks)) = [] \<longleftrightarrow> (\<forall>k \<in> set ks. dget l k = None)"
proof -
  have "sort (filter (\<lambda>k. k \<in> set (dkeys l)) (remdups ks)) = [] \<longleftrightarrow>
      set (sort (filter (\<lambda>k. k \<in> set (dkeys l)) (remdups ks))) = {}" by (simp only: set_empty)
  then show ?thesis by (auto simp: dget_None_keys)
qed

lemma register_all_spec:
  "registry_ok c l \<Longrightarrow>
   (case register_all ts c l of
      Inl e \<Rightarrow> \<not> (sorted_wrt disjoint_keys ts \<and> (\<forall>t \<in> set ts. \<forall>k \<in> set (task_keys t). dget l k = None))
    | Inr r \<Rightarrow> sorted_wrt disjoint_keys ts \<and> (\<forall>t \<in> set ts. \<forall>k \<in> set (task_keys t). dget l k = None) \<and>
        registry_ok (rg_canonical r) (rg_lookup r) \<and>
        rg_canonical r = c @ map (\<lambda>t. (tk_name t, t)) ts \<and>
        (\<forall>k t. dget (rg_lookup r) k = Some t \<longleftrightarrow> dget l k = Some t \<or> t \<in> set ts \<and> k \<in> set (task_keys t)))"
proof (induction ts arbitrary: c l)
  case Nil
  then show ?case by simp
next
  case (Cons t ts)
  show ?case
  proof (cases "\<forall>k \<in> set (task_keys t). dget l k = None")
    case False
    then obtain x where x: "register_all (t # ts) c l = Inl x"
      unfolding register_all.simps Let_def collisions_Nil by simp
    show ?thesis unfolding x sum.case using False by auto
  next
    case True
    let ?c = "dset (tk_name t) t c" and ?l = "fold (\<lambda>k d. dset k t d) (task_keys t) l"
    note add = registry_ok_add [OF Cons.prems True]
    have e: "register_all (t # ts) c l = register_all ts ?c ?l"
      using True unfolding register_all.simps Let_def collisions_Nil by simp
    have c: "?c = c @ [(tk_name t, t)]" by (rule dset_absent [OF add(2)])
    have rest: "(\<forall>u \<in> set ts. \<forall>k \<in> set (task_keys u). dget ?l k = None) \<longleftrightarrow>
        (\<forall>u \<in> set ts. disjoint_keys t u \<and> (\<forall>k \<in> set (task_keys u). dget l k = None))"
      by (auto simp: dget_fold_dset disjoint_keys_def)
    show ?thesis
    proof (cases "register_all ts ?c ?l")
      case (Inl x)
      note ih = Cons.IH [OF add(1), unfolded Inl sum.case rest]
      then show ?thesis using True unfolding e Inl sum.case by auto
    next
      case (Inr r)
      note ih = Cons.IH [OF add(1), unfolded Inr sum.case rest, unfolded c]
      have "dget (rg_lookup r) k = Some u \<longleftrightarrow> dget l k = Some u \<or> u \<in> set (t # ts) \<and> k \<in> set (task_keys u)" for k u
        using ih True unfolding dget_fold_dset by (auto split: if_splits)
      then show ?thesis using ih True unfolding e Inr sum.case by auto
    qed
  qed
qed

text \<open>
  Tasks can be registered together exactly when no two of them share a name or alias.  The registry
  then iterates over them in the order of registration, and a name resolves to the one task that
  has it as its name or alias.
\<close>

theorem registry_init_spec:
  "((\<exists>r. registry_init ts = Inr r) \<longleftrightarrow> sorted_wrt disjoint_keys ts) \<and>
   (case registry_init ts of Inl e \<Rightarrow> True | Inr r \<Rightarrow>
      registered r = ts \<and> (\<forall>k t. resolve r k = Some t \<longleftrightarrow> t \<in> set ts \<and> k \<in> set (task_keys t)))"
proof -
  have ok: "registry_ok [] []" by (simp add: registry_ok_def)
  note spec = register_all_spec [OF ok, of ts]
  show ?thesis
  proof (cases "register_all ts [] []")
    case (Inl e)
    then show ?thesis using spec unfolding registry_init_def Inl sum.case by simp
  next
    case (Inr r)
    then show ?thesis
      using spec unfolding registry_init_def registered_def resolve_def Inr sum.case by (simp add: comp_def)
  qed
qed

text \<open>Registrations compose, and a failed one changes nothing.\<close>

lemma register_all_append:
  "register_all (ts @ us) c l = ebind (register_all ts c l)
     (\<lambda>r. register_all us (rg_canonical r) (rg_lookup r))"
  by (induction ts arbitrary: c l) (simp_all add: Let_def)

text \<open>
  Registration is atomic and can be done in any number of steps: adding tasks to a registry gives the
  registry of all the tasks together, or an error that leaves the registry as it was when one of
  the new names is taken.
\<close>

theorem register_many_atomic:
  assumes "registry_init ts = Inr r"
  shows "register_many us r = (case registry_init (ts @ us) of Inl e \<Rightarrow> (Inl e, r) | Inr r' \<Rightarrow> (Inr (), r'))"
  using assms by (simp add: register_many_def registry_init_def register_all_append)
section \<open>A sample registry\<close>

definition demo_task :: "nat \<Rightarrow> string \<Rightarrow> followup_target list \<Rightarrow> task" where
  "demo_task i n ts = \<lparr>tk_object = i, tk_name = n, tk_queue = ''q'', tk_input = ''In'', tk_output = ''Out'',
     tk_aliases = [], tk_retry = RetryBool True, tk_priority = None, tk_lease_seconds = None,
     tk_targets = ts, tk_handler = None, tk_arity = 0\<rparr>"

definition demo_target :: followup_target where
  "demo_target = \<lparr>ft_queue = ''q'', ft_job_type = ''b'', ft_workflow_member = True, ft_revision = Some ''r1''\<rparr>"

definition demo_root :: task where
  "demo_root = demo_task 1 ''a'' [demo_target]"

definition demo_child_task :: task where
  "demo_child_task = demo_task 2 ''b'' []"

definition demo_registry :: registry where
  "demo_registry = \<lparr>rg_canonical = [(''a'', demo_root), (''b'', demo_child_task)],
     rg_lookup = [(''a'', demo_root), (''b'', demo_child_task)]\<rparr>"

lemmas demo_task_defs = demo_root_def demo_child_task_def demo_task_def demo_target_def

lemma demo_registered: "registry_init [demo_root, demo_child_task] = Inr demo_registry"
  by (simp add: registry_init_def demo_registry_def task_keys_def demo_task_defs Let_def)

lemma demo_resolves:
  "resolve demo_registry ''a'' = Some demo_root" "resolve demo_registry ''b'' = Some demo_child_task"
  by (simp_all add: resolve_def demo_registry_def)

theorem register_many_atomic_witness:
  "register_many [demo_child_task] \<lparr>rg_canonical = [(''a'', demo_root)], rg_lookup = [(''a'', demo_root)]\<rparr> =
     (Inr (), demo_registry)"
proof -
  have one: "registry_init [demo_root] = Inr \<lparr>rg_canonical = [(''a'', demo_root)], rg_lookup = [(''a'', demo_root)]\<rparr>"
    by (simp add: registry_init_def task_keys_def demo_task_defs Let_def)
  show ?thesis using register_many_atomic [OF one, of "[demo_child_task]"] demo_registered by simp
qed

end
