(* ===== verification/Continuations.thy ===== *)
theory Continuations
  imports RegistryProps ContinuationIds
begin

text \<open>
  The continuation policy of \<open>continuations.py\<close>: the compiler of a registry's member-enabled graph
  into a manifest with its canonical bytes, hash and queues, the validation of a retained policy
  against a live registry, and the enforcement of a policy on a handler's follow-ups.
  \<open>sha256(..).hexdigest()\<close> is a parameter.
\<close>

section \<open>Data\<close>

record policy_node =
  pn_job_type :: string
  pn_queue :: string

record policy_parent =
  pp_job_type :: string
  pp_queue :: string
  pp_revision :: string
  pp_targets :: "policy_node list"

text \<open>\<open>format\<close> is the literal 1.\<close>

record policy_manifest =
  pm_roots :: "policy_node list"
  pm_parents :: "policy_parent list"

record compiled_policy =
  cp_manifest :: policy_manifest
  cp_bytes :: string
  cp_hash :: string
  cp_queues :: "string list"

definition node_key :: "policy_node \<Rightarrow> string \<times> string" where
  "node_key n = (pn_queue n, pn_job_type n)"

definition parent_key :: "policy_parent \<Rightarrow> string \<times> string" where
  "parent_key p = (pp_queue p, pp_job_type p)"

definition task_key :: "task \<Rightarrow> string \<times> string" where
  "task_key t = (tk_queue t, tk_name t)"

definition policy_node_init :: "string \<Rightarrow> string \<Rightarrow> exc + policy_node" where
  "policy_node_init job_type queue =
     (if wire_name job_type \<and> queue_name queue then Inr \<lparr>pn_job_type = job_type, pn_queue = queue\<rparr>
      else Inl (ValidationError ''ContinuationPolicyNode''))"

definition policy_parent_init ::
  "string \<Rightarrow> string \<Rightarrow> string \<Rightarrow> policy_node list \<Rightarrow> exc + policy_parent" where
  "policy_parent_init job_type queue revision targets =
     (if wire_name job_type \<and> queue_name queue \<and> step_name revision \<and> targets \<noteq> []
      then Inr \<lparr>pp_job_type = job_type, pp_queue = queue, pp_revision = revision, pp_targets = targets\<rparr>
      else Inl (ValidationError ''ContinuationPolicyParent''))"

definition policy_manifest_init :: "policy_node list \<Rightarrow> policy_parent list \<Rightarrow> exc + policy_manifest" where
  "policy_manifest_init roots parents =
     (if roots \<noteq> [] then Inr \<lparr>pm_roots = roots, pm_parents = parents\<rparr>
      else Inl (ValidationError ''ContinuationPolicyManifest''))"

text \<open>\<open>model_dump(mode="json")\<close>, then \<open>json.dumps\<close> with sorted keys; every string in it is ASCII.\<close>

definition node_json :: "policy_node \<Rightarrow> json" where
  "node_json n = JObj [(''job_type'', JStr (pn_job_type n)), (''queue'', JStr (pn_queue n))]"

definition parent_json :: "policy_parent \<Rightarrow> json" where
  "parent_json p = JObj [(''job_type'', JStr (pp_job_type p)), (''queue'', JStr (pp_queue p)),
     (''revision'', JStr (pp_revision p)), (''targets'', JArr (map node_json (pp_targets p)))]"

definition manifest_json :: "policy_manifest \<Rightarrow> json" where
  "manifest_json m = JObj [(''format'', JInt 1), (''roots'', JArr (map node_json (pm_roots m))),
     (''parents'', JArr (map parent_json (pm_parents m)))]"

definition canonical_bytes :: "policy_manifest \<Rightarrow> string" where
  "canonical_bytes m = json_dumps (json_sorted (manifest_json m))"

section \<open>The compiler\<close>

text \<open>One parent with member targets: its children in the order of declaration, and its policy.\<close>

definition compile_target :: "registry \<Rightarrow> followup_target \<Rightarrow> exc + (task \<times> policy_node)" where
  "compile_target r d = ebind (require_name r (ft_job_type d)) (\<lambda>child.
     ebind (policy_node_init (tk_name child) (tk_queue child)) (\<lambda>n. Inr (child, n)))"

definition compile_parent ::
  "registry \<Rightarrow> task \<Rightarrow> followup_target list \<Rightarrow> exc + (task list \<times> policy_parent)" where
  "compile_parent r parent ms =
     (let revisions = remdups (map ft_revision ms) in
      if length revisions \<noteq> 1
      then Inl (ConfigError (''member-enabled targets for '' @ py_repr (tk_name parent) @
             '' must share one continuation revision''))
      else case hd revisions of
        None \<Rightarrow> Inl (ConfigError (''member-enabled targets for '' @ py_repr (tk_name parent) @
             '' require a continuation revision''))
      | Some revision \<Rightarrow> ebind (traverse (compile_target r) ms) (\<lambda>compiled.
          let nodes = map snd compiled in
          if \<not> distinct (map node_key nodes)
          then Inl (ConfigError (''member-enabled targets for '' @ py_repr (tk_name parent) @
                 '' must be canonically distinct''))
          else ebind (policy_parent_init (tk_name parent) (tk_queue parent) revision
                 (sort_key node_key nodes)) (\<lambda>p. Inr (map fst compiled, p))))"

lemma require_name_Inr: "require_name r n = Inr t \<longleftrightarrow> resolve r n = Some t"
  by (simp add: require_name_def split: option.splits)

lemma resolve_value: "resolve r n = Some t \<Longrightarrow> t \<in> set (dvalues (rg_lookup r))"
  unfolding resolve_def by (force dest: map_of_SomeD)

lemma resolve_children:
  "list_all2 (\<lambda>d c. resolve r (f d) = Some c) ms cs \<Longrightarrow> set cs \<subseteq> set (dvalues (rg_lookup r))"
  by (induction rule: list_all2_induct) (use resolve_value in auto)

lemma compile_target_Inr:
  "compile_target r d = Inr x \<longleftrightarrow> (\<exists>c. resolve r (ft_job_type d) = Some c \<and> wire_name (tk_name c) \<and>
     queue_name (tk_queue c) \<and> x = (c, \<lparr>pn_job_type = tk_name c, pn_queue = tk_queue c\<rparr>))"
  by (auto simp: compile_target_def require_name_Inr policy_node_init_def result_simps split: if_splits)

lemma compile_parent_children:
  assumes "compile_parent r parent ms = Inr (children, p)"
  shows "list_all2 (\<lambda>d c. resolve r (ft_job_type d) = Some c) ms children"
proof -
  obtain compiled where c: "traverse (compile_target r) ms = Inr compiled" "children = map fst compiled"
    using assms by (auto simp: compile_parent_def Let_def result_simps split: if_splits option.splits)
  then have "list_all2 (\<lambda>d x. compile_target r d = Inr x) ms compiled" by (simp add: traverse_Inr_iff)
  then show ?thesis
    unfolding c(2) list_all2_map2 by (rule list_all2_mono) (auto simp: compile_target_Inr)
qed

text \<open>The worklist loop; \<open>pending.pop()\<close> takes the last task.\<close>

definition names_left :: "registry \<Rightarrow> task list \<Rightarrow> string set \<Rightarrow> string set" where
  "names_left r pending visited =
     (tk_name ` set (dvalues (rg_lookup r)) \<union> tk_name ` set pending) - visited"

lemma names_left_less:
  assumes "pending \<noteq> []" and "tk_name (last pending) \<notin> visited"
    and "set cs \<subseteq> set (dvalues (rg_lookup r))"
  shows "card (names_left r (butlast pending @ cs) (insert (tk_name (last pending)) visited))
    < card (names_left r pending visited)"
proof (rule psubset_card_mono)
  show "finite (names_left r pending visited)" by (simp add: names_left_def)
  have "last pending \<in> set pending" "set (butlast pending) \<subseteq> set pending"
    using assms(1) by (auto dest: in_set_butlastD)
  then show "names_left r (butlast pending @ cs) (insert (tk_name (last pending)) visited)
      \<subset> names_left r pending visited"
    using assms(2,3) unfolding names_left_def by auto
qed

lemma names_left_skip:
  assumes "pending \<noteq> []"
  shows "card (names_left r (butlast pending) visited) \<le> card (names_left r pending visited)"
  by (rule card_mono) (auto simp: names_left_def dest: in_set_butlastD)

function compile_loop ::
  "registry \<Rightarrow> task list \<Rightarrow> string set \<Rightarrow> string set \<Rightarrow> policy_parent list \<Rightarrow>
   exc + (string set \<times> policy_parent list)" where
  "compile_loop r pending visited queues parents =
     (if pending = [] then Inr (queues, parents)
      else let parent = last pending; rest = butlast pending in
        if tk_name parent \<in> visited then compile_loop r rest visited queues parents
        else let ms = member_targets parent in
          if ms = [] then compile_loop r rest (insert (tk_name parent) visited) queues parents
          else case compile_parent r parent ms of
            Inl e \<Rightarrow> Inl e
          | Inr cp \<Rightarrow>
              compile_loop r (rest @ fst cp) (insert (tk_name parent) visited)
                (queues \<union> tk_queue ` set (fst cp)) (parents @ [snd cp]))"
  by pat_completeness auto

termination
proof (relation "measures [\<lambda>(r, pending, visited, queues, parents). card (names_left r pending visited),
    \<lambda>(r, pending, visited, queues, parents). length pending]")
  fix r :: registry and pending :: "task list" and visited queues :: "string set" and parents :: "policy_parent list" and parent :: task and rest
  assume a: "pending \<noteq> []" "parent = last pending" "rest = butlast pending"
  show "((r, rest, visited, queues, parents), r, pending, visited, queues, parents)
      \<in> measures [\<lambda>(r, pending, visited, queues, parents). card (names_left r pending visited),
        \<lambda>(r, pending, visited, queues, parents). length pending]"
    if "tk_name parent \<in> visited"
    using names_left_skip [OF a(1), of r visited] a by (auto simp: le_less)
  assume new: "tk_name parent \<notin> visited"
  show "((r, rest, insert (tk_name parent) visited, queues, parents), r, pending, visited, queues, parents)
      \<in> measures [\<lambda>(r, pending, visited, queues, parents). card (names_left r pending visited),
        \<lambda>(r, pending, visited, queues, parents). length pending]"
    using names_left_less [OF a(1), of visited "[]" r] new a by simp
  fix ms cp assume cp: "compile_parent r parent ms = Inr cp"
  have "set (fst cp) \<subseteq> set (dvalues (rg_lookup r))"
    using compile_parent_children [of r parent ms "fst cp" "snd cp"] cp resolve_children by simp
  then show "((r, rest @ fst cp, insert (tk_name parent) visited, queues \<union> tk_queue ` set (fst cp),
      parents @ [snd cp]), r, pending, visited, queues, parents)
      \<in> measures [\<lambda>(r, pending, visited, queues, parents). card (names_left r pending visited),
        \<lambda>(r, pending, visited, queues, parents). length pending]"
    using names_left_less [OF a(1), of visited "fst cp" r] new a by simp
qed simp

declare compile_loop.simps [simp del]

definition max_policy_queues :: nat where
  "max_policy_queues = 32"

definition compile_continuation_policy ::
  "(string \<Rightarrow> string) \<Rightarrow> registry \<Rightarrow> task_ref list \<Rightarrow> exc + compiled_policy" where
  "compile_continuation_policy sha r roots =
     ebind (validate_followup_graph r) (\<lambda>_.
     ebind (traverse (require r) roots) (\<lambda>resolved.
       if resolved = [] then Inl (ConfigError ''continuation policy requires at least one root task'')
       else if \<not> distinct (map task_key resolved)
       then Inl (ConfigError ''continuation policy roots must be canonically distinct'')
       else ebind (compile_loop r resolved {} (tk_queue ` set resolved) []) (\<lambda>(queues, parents).
         if card queues > max_policy_queues
         then Inl (ConfigError ''continuation policy reaches more than 32 queues'')
         else ebind (traverse (\<lambda>t. policy_node_init (tk_name t) (tk_queue t)) (sort_key task_key resolved))
           (\<lambda>nodes. ebind (policy_manifest_init nodes (sort_key parent_key parents)) (\<lambda>m.
             Inr \<lparr>cp_manifest = m, cp_bytes = canonical_bytes m, cp_hash = sha (canonical_bytes m),
               cp_queues = sorted_list_of_set queues\<rparr>)))))"

section \<open>Validation of a retained policy\<close>

definition require_policy_node :: "registry \<Rightarrow> string \<Rightarrow> string \<Rightarrow> exc + task" where
  "require_policy_node r queue job_type = (case resolve r job_type of
      Some t \<Rightarrow> if tk_name t = job_type \<and> tk_queue t = queue then Inr t
        else Inl (ConfigError (''continuation policy node is not runnable in the worker registry: '' @
               pair_repr (queue, job_type)))
    | None \<Rightarrow> Inl (ConfigError (''continuation policy node is not runnable in the worker registry: '' @
        pair_repr (queue, job_type))))"

definition canonical_keys :: "(string \<times> string) list \<Rightarrow> bool" where
  "canonical_keys ks \<longleftrightarrow> ks = sort ks \<and> distinct ks"

text \<open>The live member edges of a parent; every declared target must be registered.\<close>

definition live_member_edges :: "registry \<Rightarrow> task \<Rightarrow> exc + (string \<times> string) list" where
  "live_member_edges r parent =
     ebind (traverse (\<lambda>d. ebind (require_name r (ft_job_type d)) (\<lambda>child. Inr (d, child))) (tk_targets parent))
       (\<lambda>ds. Inr (map (\<lambda>(d, child). (ft_queue d, tk_name child)) (filter (\<lambda>(d, _). ft_workflow_member d) ds)))"

definition validate_parent :: "registry \<Rightarrow> policy_parent \<Rightarrow> exc + unit" where
  "validate_parent r p =
     ebind (require_policy_node r (pp_queue p) (pp_job_type p)) (\<lambda>parent.
       if \<not> canonical_keys (map node_key (pp_targets p))
       then Inl (ConfigError (''continuation policy targets are not canonical for parent: '' @
              py_repr (pp_job_type p)))
       else ebind (live_member_edges r parent) (\<lambda>live.
         ebind (traverse (\<lambda>(queue, job_type). ebind (require_policy_node r queue job_type) (\<lambda>child.
             if (queue, tk_name child) \<notin> set live
             then Inl (ConfigError (''retained continuation edge is not runnable for parent: '' @
                    py_repr (tk_name parent) @ '' -> '' @ pair_repr (queue, tk_name child)))
             else Inr ())) (map node_key (pp_targets p)))
           (\<lambda>_. Inr ())))"

definition policy_queues :: "policy_manifest \<Rightarrow> string set" where
  "policy_queues m = pn_queue ` set (pm_roots m) \<union> (\<Union>p \<in> set (pm_parents m). pn_queue ` set (pp_targets p))"

definition validate_compiled_continuation_policy ::
  "(string \<Rightarrow> string) \<Rightarrow> registry \<Rightarrow> compiled_policy \<Rightarrow> exc + unit" where
  "validate_compiled_continuation_policy sha r pol =
     (let m = cp_manifest pol; bytes = canonical_bytes m in
      if cp_bytes pol \<noteq> bytes
      then Inl (ConfigError ''continuation policy canonical bytes do not match its manifest'')
      else if \<not> policy_hash (cp_hash pol) \<or> sha bytes \<noteq> cp_hash pol
      then Inl (ConfigError ''continuation policy hash does not match its manifest'')
      else if \<not> canonical_keys (map node_key (pm_roots m))
      then Inl (ConfigError ''continuation policy roots are not canonical and distinct'')
      else if \<not> canonical_keys (map parent_key (pm_parents m))
      then Inl (ConfigError ''continuation policy parents are not canonical and distinct'')
      else ebind (traverse (\<lambda>n. require_policy_node r (pn_queue n) (pn_job_type n)) (pm_roots m)) (\<lambda>_.
        ebind (traverse (validate_parent r) (pm_parents m)) (\<lambda>_.
          if cp_queues pol \<noteq> sorted_list_of_set (policy_queues m)
          then Inl (ConfigError ''continuation policy reachable queues do not match its manifest'')
          else Inr ())))"

section \<open>Enforcement\<close>

definition allowed_targets :: "task \<Rightarrow> policy_manifest \<Rightarrow> (string \<times> string) list" where
  "allowed_targets parent m =
     (case find (\<lambda>p. pp_queue p = tk_queue parent \<and> pp_job_type p = tk_name parent) (pm_parents m) of
        None \<Rightarrow> [] | Some p \<Rightarrow> map node_key (pp_targets p))"

fun check_members_allowed :: "task \<Rightarrow> (string \<times> string) list \<Rightarrow> followup list \<Rightarrow> exc + unit" where
  "check_members_allowed parent allowed [] = Inr ()"
| "check_members_allowed parent allowed (f # fs) =
     (let identity = (followup_queue_in parent f, fu_job_type f) in
      if identity \<notin> set allowed
      then Inl (InvalidFollowupError
             (''followup target is absent from the claimed continuation policy: '' @ pair_repr identity))
      else check_members_allowed parent allowed fs)"

definition enforce_continuation_policy ::
  "task \<Rightarrow> followup list \<Rightarrow> compiled_policy option \<Rightarrow> exc + followup list" where
  "enforce_continuation_policy parent fs policy =
     (let members = filter fu_workflow_member fs in
      if members = [] then Inr fs
      else case policy of
        None \<Rightarrow> Inl (InvalidFollowupError ''workflow member followups require a continuation policy'')
      | Some pol \<Rightarrow> ebind (check_members_allowed parent (allowed_targets parent (cp_manifest pol)) members)
          (\<lambda>_. Inr fs))"

end
