(* ===== verification/ContinuationProps.thy ===== *)
theory ContinuationProps
  imports Continuations
begin

text \<open>
  Properties of the continuation policy: the compiler covers exactly the member-reachable tasks, its
  result passes the validation of a retained policy, and enforcement accepts what the registry it
  was compiled from allows.
\<close>

section \<open>Registries and graphs\<close>

lemma registry_init_ok:
  assumes r: "registry_init ts = Inr r"
  shows "registry_ok (rg_canonical r) (rg_lookup r)"
proof -
  have "registry_ok [] []" by (simp add: registry_ok_def)
  from register_all_spec [OF this, of ts, folded registry_init_def, unfolded r sum.case]
  show ?thesis by blast
qed

lemma resolve_canonical:
  assumes "registry_ok (rg_canonical r) (rg_lookup r)" and "resolve r n = Some t"
  shows "resolve r (tk_name t) = Some t" and "dget (rg_canonical r) (tk_name t) = Some t"
  using assms unfolding registry_ok_def resolve_def by blast+

lemma resolve_registered:
  assumes "registry_ok (rg_canonical r) (rg_lookup r)" and "resolve r n = Some t"
  shows "t \<in> set (registered r)"
  using resolve_canonical(2) [OF assms] unfolding registered_def by (force dest: map_of_SomeD)

lemma require_Inr:
  assumes "registry_ok (rg_canonical r) (rg_lookup r)" and "require r x = Inr t"
  shows "resolve r (tk_name t) = Some t"
proof (cases x)
  case (TaskName n)
  then show ?thesis using assms resolve_canonical(1) by (simp add: require_name_Inr)
next
  case (TaskObject u)
  then have "dget (rg_canonical r) (tk_name u) = Some t"
    using assms(2) by (simp add: require_task_def split: option.splits if_splits)
  then show ?thesis using assms(1) unfolding registry_ok_def resolve_def by blast
qed

lemma check_targets_Inr:
  "check_targets r p ds ids = Inr () \<Longrightarrow>
   \<forall>d \<in> set ds. \<exists>c. resolve r (ft_job_type d) = Some c \<and> tk_queue c = ft_queue d"
  by (induction ds arbitrary: ids) (auto split: option.splits if_splits)

lemma graph_targets:
  assumes "validate_followup_graph r = Inr ()" and "p \<in> set (registered r)" and "d \<in> set (tk_targets p)"
  shows "\<exists>c. resolve r (ft_job_type d) = Some c \<and> tk_queue c = ft_queue d"
proof -
  obtain us where "traverse (\<lambda>p. check_targets r p (tk_targets p) {}) (registered r) = Inr us"
    using assms(1) by (auto simp: validate_followup_graph_def result_simps)
  then have "check_targets r p (tk_targets p) {} = Inr ()"
    using assms(2) by (auto simp: traverse_Inr_iff list_all2_conv_all_nth in_set_conv_nth)
  then show ?thesis using check_targets_Inr assms(3) by blast
qed

text \<open>The tasks a policy with these roots reaches through member edges.\<close>

inductive member_reach :: "registry \<Rightarrow> task list \<Rightarrow> task \<Rightarrow> bool" for r roots where
  reach_root: "t \<in> set roots \<Longrightarrow> member_reach r roots t"
| reach_step: "member_reach r roots p \<Longrightarrow> d \<in> set (member_targets p) \<Longrightarrow>
    resolve r (ft_job_type d) = Some c \<Longrightarrow> member_reach r roots c"

lemma resolved_origin:
  "list_all2 (\<lambda>d c. resolve r (f d) = Some c) ds cs \<Longrightarrow> c \<in> set cs \<Longrightarrow> \<exists>d \<in> set ds. resolve r (f d) = Some c"
  by (induction rule: list_all2_induct) auto

lemma resolved_child:
  "list_all2 (\<lambda>d c. resolve r (f d) = Some c) ds cs \<Longrightarrow> d \<in> set ds \<Longrightarrow> resolve r (f d) = Some c \<Longrightarrow> c \<in> set cs"
  by (induction rule: list_all2_induct) auto

section \<open>One parent\<close>

definition node_of :: "task \<Rightarrow> policy_node" where
  "node_of c = \<lparr>pn_job_type = tk_name c, pn_queue = tk_queue c\<rparr>"

lemma node_key_of [simp]: "node_key (node_of c) = task_key c"
  by (simp add: node_key_def node_of_def task_key_def)

lemma compile_parent_Inr:
  assumes "compile_parent r t ms = Inr (cs, p)"
  shows "pp_job_type p = tk_name t \<and> pp_queue p = tk_queue t \<and>
    pp_targets p = sort_key node_key (map node_of cs) \<and> distinct (map task_key cs) \<and>
    list_all2 (\<lambda>d c. resolve r (ft_job_type d) = Some c) ms cs"
proof -
  obtain rev compiled where c: "traverse (compile_target r) ms = Inr compiled" "cs = map fst compiled"
      "distinct (map node_key (map snd compiled))"
      "policy_parent_init (tk_name t) (tk_queue t) rev (sort_key node_key (map snd compiled)) = Inr p"
    using assms unfolding compile_parent_def Let_def
    by (auto simp: result_simps split: if_splits option.splits)
  have "list_all2 (\<lambda>d x. compile_target r d = Inr x) ms compiled" using c(1) by (simp add: traverse_Inr_iff)
  then have "\<forall>x \<in> set compiled. snd x = node_of (fst x)"
    by (induction rule: list_all2_induct) (auto simp: compile_target_Inr node_of_def)
  then have "map snd compiled = map node_of cs" unfolding c(2) by simp
  then show ?thesis
    using c(3,4) compile_parent_children [OF assms]
    by (auto simp: policy_parent_init_def comp_def split: if_splits)
qed

lemma parent_targets:
  assumes "compile_parent r t ms = Inr (cs, p)"
  shows "set (pp_targets p) = node_of ` set cs" "pn_queue ` set (pp_targets p) = tk_queue ` set cs"
  using compile_parent_Inr [OF assms] by (auto simp: node_of_def image_image)

section \<open>The worklist\<close>

definition compiled_in :: "registry \<Rightarrow> policy_parent list \<Rightarrow> (task \<Rightarrow> bool) \<Rightarrow> task \<Rightarrow> bool" where
  "compiled_in r parents ready t \<longleftrightarrow> member_targets t \<noteq> [] \<longrightarrow>
     (\<exists>cs p. compile_parent r t (member_targets t) = Inr (cs, p) \<and> p \<in> set parents \<and> (\<forall>c \<in> set cs. ready c))"

definition worklist_ok :: "registry \<Rightarrow> task list \<Rightarrow> task list \<Rightarrow> string set \<Rightarrow> bool" where
  "worklist_ok r roots pending visited \<longleftrightarrow>
     (\<forall>t \<in> set pending. resolve r (tk_name t) = Some t \<and> member_reach r roots t) \<and>
     (\<forall>t \<in> set roots. tk_name t \<in> visited \<or> t \<in> set pending)"

definition visited_ok ::
  "registry \<Rightarrow> task list \<Rightarrow> task list \<Rightarrow> string set \<Rightarrow> policy_parent list \<Rightarrow> bool" where
  "visited_ok r roots pending visited parents \<longleftrightarrow>
     (\<forall>n \<in> visited. \<exists>t. tk_name t = n \<and> resolve r n = Some t \<and> member_reach r roots t \<and>
        compiled_in r parents (\<lambda>c. tk_name c \<in> visited \<or> c \<in> set pending) t)"

definition parents_ok :: "registry \<Rightarrow> string set \<Rightarrow> policy_parent list \<Rightarrow> bool" where
  "parents_ok r visited parents \<longleftrightarrow> distinct (map pp_job_type parents) \<and>
     (\<forall>p \<in> set parents. \<exists>t cs. tk_name t \<in> visited \<and> resolve r (tk_name t) = Some t \<and>
        member_targets t \<noteq> [] \<and> compile_parent r t (member_targets t) = Inr (cs, p))"

lemma parents_okD:
  assumes "parents_ok r visited parents" and "p \<in> set parents"
  shows "\<exists>t cs. tk_name t \<in> visited \<and> resolve r (tk_name t) = Some t \<and>
     member_targets t \<noteq> [] \<and> compile_parent r t (member_targets t) = Inr (cs, p)"
  using assms unfolding parents_ok_def by simp

definition queues_ok :: "task list \<Rightarrow> string set \<Rightarrow> policy_parent list \<Rightarrow> bool" where
  "queues_ok roots queues parents \<longleftrightarrow>
     queues = tk_queue ` set roots \<union> (\<Union>p \<in> set parents. pn_queue ` set (pp_targets p))"

definition loop_inv ::
  "registry \<Rightarrow> task list \<Rightarrow> task list \<Rightarrow> string set \<Rightarrow> string set \<Rightarrow> policy_parent list \<Rightarrow> bool" where
  "loop_inv r roots pending visited queues parents \<longleftrightarrow>
     worklist_ok r roots pending visited \<and> visited_ok r roots pending visited parents \<and>
     parents_ok r visited parents \<and> queues_ok roots queues parents"

lemma compiled_in_mono:
  assumes "compiled_in r ps ready t" and "set ps \<subseteq> set ps'" and "\<And>c. ready c \<Longrightarrow> ready' c"
  shows "compiled_in r ps' ready' t"
  using assms unfolding compiled_in_def by blast

lemma visited_ok_mono:
  assumes "visited_ok r roots pending visited ps" and "set ps \<subseteq> set ps'"
    and "\<And>c. tk_name c \<in> visited \<or> c \<in> set pending \<Longrightarrow> tk_name c \<in> visited' \<or> c \<in> set pending'"
    and "n \<in> visited"
  shows "\<exists>t. tk_name t = n \<and> resolve r n = Some t \<and> member_reach r roots t \<and>
    compiled_in r ps' (\<lambda>c. tk_name c \<in> visited' \<or> c \<in> set pending') t"
proof -
  obtain t where t: "tk_name t = n" "resolve r n = Some t" "member_reach r roots t"
      "compiled_in r ps (\<lambda>c. tk_name c \<in> visited \<or> c \<in> set pending) t"
    using assms(1,4) unfolding visited_ok_def by blast
  have "compiled_in r ps' (\<lambda>c. tk_name c \<in> visited' \<or> c \<in> set pending') t"
    by (rule compiled_in_mono [OF t(4) assms(2)]) (rule assms(3))
  then show ?thesis using t(1-3) by blast
qed

lemma loop_inv_skip:
  assumes "loop_inv r roots (rest @ [t]) visited queues parents" and "tk_name t \<in> visited"
  shows "loop_inv r roots rest visited queues parents"
proof -
  have ready: "tk_name c \<in> visited \<or> c \<in> set rest" if "tk_name c \<in> visited \<or> c \<in> set (rest @ [t])" for c
    using that assms(2) by auto
  have parts: "worklist_ok r roots (rest @ [t]) visited" "visited_ok r roots (rest @ [t]) visited parents"
    using assms(1) unfolding loop_inv_def by blast+
  have "worklist_ok r roots rest visited"
    using parts(1) ready unfolding worklist_ok_def by auto
  moreover have "visited_ok r roots rest visited parents"
    unfolding visited_ok_def
    by (intro ballI) (rule visited_ok_mono [OF parts(2) order_refl ready])
  ultimately show ?thesis using assms(1) unfolding loop_inv_def by blast
qed

lemma loop_inv_step:
  assumes ok: "registry_ok (rg_canonical r) (rg_lookup r)"
    and inv: "loop_inv r roots (rest @ [t]) visited queues parents" and new: "tk_name t \<notin> visited"
    and cs: "member_targets t = [] \<and> cs = [] \<and> ps = [] \<or>
      member_targets t \<noteq> [] \<and> compile_parent r t (member_targets t) = Inr (cs, p) \<and> ps = [p]"
  shows "loop_inv r roots (rest @ cs) (insert (tk_name t) visited) (queues \<union> tk_queue ` set cs) (parents @ ps)"
proof -
  let ?v = "insert (tk_name t) visited"
  have parts: "worklist_ok r roots (rest @ [t]) visited" "visited_ok r roots (rest @ [t]) visited parents"
      "parents_ok r visited parents" "queues_ok roots queues parents"
    using inv unfolding loop_inv_def by blast+
  have t: "resolve r (tk_name t) = Some t" "member_reach r roots t"
    using parts(1) unfolding worklist_ok_def by simp_all
  have child: "\<exists>d \<in> set (member_targets t). resolve r (ft_job_type d) = Some c" if cin: "c \<in> set cs" for c
  proof -
    have "compile_parent r t (member_targets t) = Inr (cs, p)" using cs cin by auto
    from compile_parent_Inr [OF this]
    have "list_all2 (\<lambda>d c. resolve r (ft_job_type d) = Some c) (member_targets t) cs" by blast
    then show ?thesis by (rule resolved_origin) (rule cin)
  qed
  have q: "tk_queue ` set cs = (\<Union>p \<in> set ps. pn_queue ` set (pp_targets p))"
  proof (cases "member_targets t = []")
    case False
    then have "compile_parent r t (member_targets t) = Inr (cs, p)" "ps = [p]" using cs by simp_all
    then show ?thesis using parent_targets(2) [of r t "member_targets t" cs p] by simp
  qed (use cs in simp)
  have fresh: "pp_job_type p' \<noteq> tk_name t" if pin: "p' \<in> set parents" for p'
  proof -
    obtain u cs' where u: "tk_name u \<in> visited" "compile_parent r u (member_targets u) = Inr (cs', p')"
      using parents_okD [OF parts(3) pin] by blast
    then show ?thesis using compile_parent_Inr [OF u(2)] new by auto
  qed
  have ready: "tk_name c \<in> ?v \<or> c \<in> set (rest @ cs)" if "tk_name c \<in> visited \<or> c \<in> set (rest @ [t])" for c
    using that by auto
  have reach: "resolve r (tk_name u) = Some u \<and> member_reach r roots u" if "u \<in> set cs" for u
    using child [OF that] t(2) ok by (blast intro: resolve_canonical reach_step)
  have "worklist_ok r roots (rest @ cs) ?v"
    using parts(1) ready reach unfolding worklist_ok_def by auto
  moreover have "visited_ok r roots (rest @ cs) ?v (parents @ ps)"
    unfolding visited_ok_def
  proof
    fix n assume n: "n \<in> ?v"
    show "\<exists>u. tk_name u = n \<and> resolve r n = Some u \<and> member_reach r roots u \<and>
        compiled_in r (parents @ ps) (\<lambda>c. tk_name c \<in> ?v \<or> c \<in> set (rest @ cs)) u"
    proof (cases "n = tk_name t")
      case True
      have "compiled_in r (parents @ ps) (\<lambda>c. tk_name c \<in> ?v \<or> c \<in> set (rest @ cs)) t"
        using cs unfolding compiled_in_def by auto
      then show ?thesis using True t by blast
    next
      case False
      then have "n \<in> visited" using n by simp
      then show ?thesis by (intro visited_ok_mono [OF parts(2) _ ready]) auto
    qed
  qed
  moreover have "parents_ok r ?v (parents @ ps)"
  proof -
    have "ps = [] \<or> ps = [p] \<and> pp_job_type p = tk_name t"
      using cs compile_parent_Inr [of r t "member_targets t" cs p] by blast
    then have "distinct (map pp_job_type (parents @ ps))"
      using parts(3) fresh unfolding parents_ok_def by auto
    moreover have "\<exists>u cs'. tk_name u \<in> ?v \<and> resolve r (tk_name u) = Some u \<and> member_targets u \<noteq> [] \<and>
        compile_parent r u (member_targets u) = Inr (cs', p')" if pin: "p' \<in> set (parents @ ps)" for p'
    proof (cases "p' \<in> set parents")
      case True
      then show ?thesis using parents_okD [OF parts(3)] by blast
    next
      case False
      then have "member_targets t \<noteq> []" "compile_parent r t (member_targets t) = Inr (cs, p')"
        using pin cs by auto
      then show ?thesis using t(1) by blast
    qed
    ultimately show ?thesis unfolding parents_ok_def by blast
  qed
  moreover have "queues_ok roots (queues \<union> tk_queue ` set cs) (parents @ ps)"
    using parts(4) q unfolding queues_ok_def by auto
  ultimately show ?thesis unfolding loop_inv_def by blast
qed

lemma compile_loop_inv:
  "compile_loop r pending visited queues parents = Inr (qs, ps) \<Longrightarrow>
   registry_ok (rg_canonical r) (rg_lookup r) \<Longrightarrow> loop_inv r roots pending visited queues parents \<Longrightarrow>
   \<exists>v. loop_inv r roots [] v qs ps"
proof (induction r pending visited queues parents rule: compile_loop.induct)
  case (1 r pending visited queues parents)
  show ?case
  proof (cases "pending = []")
    case True
    then show ?thesis using 1(4,6) by (auto simp: compile_loop.simps [of r "[]"])
  next
    case ne: False
    let ?t = "last pending" and ?rest = "butlast pending"
    have inv: "loop_inv r roots (?rest @ [?t]) visited queues parents" using 1(6) ne by simp
    note run = 1(4) [unfolded compile_loop.simps [of r pending] Let_def if_not_P [OF ne]]
    show ?thesis
    proof (cases "tk_name ?t \<in> visited")
      case True
      note run1 = run [unfolded if_P [OF True]]
      show ?thesis by (rule 1(1) [OF ne refl refl True run1 1(5) loop_inv_skip [OF inv True]])
    next
      case new: False
      note run1 = run [unfolded if_not_P [OF new]]
      show ?thesis
      proof (cases "member_targets ?t = []")
        case True
        note run2 = run1 [unfolded if_P [OF True]]
        have "loop_inv r roots (?rest @ []) (insert (tk_name ?t) visited) (queues \<union> tk_queue ` set ([] :: task list)) (parents @ [])"
          by (rule loop_inv_step [OF 1(5) inv new]) (use True in simp)
        then have i: "loop_inv r roots ?rest (insert (tk_name ?t) visited) queues parents" by simp
        show ?thesis by (rule 1(2) [OF ne refl refl new refl True run2 1(5) i])
      next
        case ms: False
        note run2 = run1 [unfolded if_not_P [OF ms]]
        show ?thesis
        proof (cases "compile_parent r ?t (member_targets ?t)")
          case (Inl e)
          then show ?thesis using run2 by simp
        next
          case (Inr cp)
          note run3 = run2 [unfolded Inr sum.case]
          have "loop_inv r roots (?rest @ fst cp) (insert (tk_name ?t) visited)
              (queues \<union> tk_queue ` set (fst cp)) (parents @ [snd cp])"
            by (rule loop_inv_step [OF 1(5) inv new, of _ _ "snd cp"]) (use ms Inr in simp)
          then show ?thesis by (rule 1(3) [OF ne refl refl new refl ms Inr run3 1(5)])
        qed
      qed
    qed
  qed
qed


section \<open>What a compiled policy is\<close>

lemma insort_key_map: "insort_key f (g x) (map g xs) = map g (insort_key (\<lambda>y. f (g y)) x xs)"
  by (induction xs) simp_all

lemma sort_key_map: "sort_key f (map g xs) = map g (sort_key (\<lambda>y. f (g y)) xs)"
  by (induction xs) (simp_all add: insort_key_map)

lemma compile_Inr:
  assumes "compile_continuation_policy sha r roots = Inr pol"
  obtains resolved queues parents m where
    "validate_followup_graph r = Inr ()" "traverse (require r) roots = Inr resolved" "resolved \<noteq> []"
    "distinct (map task_key resolved)"
    "compile_loop r resolved {} (tk_queue ` set resolved) [] = Inr (queues, parents)"
    "m = \<lparr>pm_roots = sort_key node_key (map node_of resolved), pm_parents = sort_key parent_key parents\<rparr>"
    "pol = \<lparr>cp_manifest = m, cp_bytes = canonical_bytes m, cp_hash = sha (canonical_bytes m),
       cp_queues = sorted_list_of_set queues\<rparr>"
    "card queues \<le> max_policy_queues"
proof -
  obtain resolved queues parents nodes m where c: "validate_followup_graph r = Inr ()"
      "traverse (require r) roots = Inr resolved" "resolved \<noteq> []" "distinct (map task_key resolved)"
      "compile_loop r resolved {} (tk_queue ` set resolved) [] = Inr (queues, parents)"
      "traverse (\<lambda>t. policy_node_init (tk_name t) (tk_queue t)) (sort_key task_key resolved) = Inr nodes"
      "policy_manifest_init nodes (sort_key parent_key parents) = Inr m"
      "pol = \<lparr>cp_manifest = m, cp_bytes = canonical_bytes m, cp_hash = sha (canonical_bytes m),
         cp_queues = sorted_list_of_set queues\<rparr>" "card queues \<le> max_policy_queues"
    using assms unfolding compile_continuation_policy_def
    by (auto simp: ebind_Inr_iff split: if_splits)
  have "list_all2 (\<lambda>t n. policy_node_init (tk_name t) (tk_queue t) = Inr n) (sort_key task_key resolved) nodes"
    using c(6) by (simp only: traverse_Inr_iff)
  then have n: "nodes = map node_of (sort_key task_key resolved)"
    by (induction rule: list_all2_induct) (auto simp: policy_node_init_def node_of_def split: if_splits)
  have "map node_of (sort_key task_key resolved) = sort_key node_key (map node_of resolved)"
    by (simp add: sort_key_map)
  then have m: "m = \<lparr>pm_roots = sort_key node_key (map node_of resolved), pm_parents = sort_key parent_key parents\<rparr>"
    using c(7) n by (simp add: policy_manifest_init_def split: if_splits)
  show ?thesis by (rule that [OF c(1-5) m c(8,9)])
qed

lemma compile_result:
  assumes "registry_init ts = Inr r" and "compile_continuation_policy sha r roots = Inr pol"
  obtains resolved queues parents m v where
    "validate_followup_graph r = Inr ()" "traverse (require r) roots = Inr resolved"
    "distinct (map task_key resolved)" "loop_inv r resolved [] v queues parents"
    "m = \<lparr>pm_roots = sort_key node_key (map node_of resolved), pm_parents = sort_key parent_key parents\<rparr>"
    "pol = \<lparr>cp_manifest = m, cp_bytes = canonical_bytes m, cp_hash = sha (canonical_bytes m),
       cp_queues = sorted_list_of_set queues\<rparr>"
    "\<forall>t \<in> set resolved. resolve r (tk_name t) = Some t"
proof -
  note ok = registry_init_ok [OF assms(1)]
  obtain resolved queues parents m where c: "validate_followup_graph r = Inr ()"
      "traverse (require r) roots = Inr resolved" "resolved \<noteq> []" "distinct (map task_key resolved)"
      "compile_loop r resolved {} (tk_queue ` set resolved) [] = Inr (queues, parents)"
      "m = \<lparr>pm_roots = sort_key node_key (map node_of resolved), pm_parents = sort_key parent_key parents\<rparr>"
      "pol = \<lparr>cp_manifest = m, cp_bytes = canonical_bytes m, cp_hash = sha (canonical_bytes m),
         cp_queues = sorted_list_of_set queues\<rparr>"
    using compile_Inr [OF assms(2)] by metis
  have "list_all2 (\<lambda>x t. require r x = Inr t) roots resolved" using c(2) by (simp only: traverse_Inr_iff)
  then have canon: "\<forall>t \<in> set resolved. resolve r (tk_name t) = Some t"
    by (induction rule: list_all2_induct) (use require_Inr [OF ok] in auto)
  have "worklist_ok r resolved resolved {}"
    using canon by (simp add: worklist_ok_def reach_root)
  then have start: "loop_inv r resolved resolved {} (tk_queue ` set resolved) []"
    by (simp add: loop_inv_def visited_ok_def parents_ok_def queues_ok_def)
  obtain v where "loop_inv r resolved [] v queues parents"
    using compile_loop_inv [OF c(5) ok start] by blast
  then show ?thesis by (rule that [OF c(1,2,4) _ c(6,7) canon])
qed

lemma compile_resolved:
  assumes "registry_init ts = Inr r" and "compile_continuation_policy sha r roots = Inr pol"
    and "traverse (require r) roots = Inr resolved"
  obtains queues parents m v where "validate_followup_graph r = Inr ()"
    "loop_inv r resolved [] v queues parents"
    "m = \<lparr>pm_roots = sort_key node_key (map node_of resolved), pm_parents = sort_key parent_key parents\<rparr>"
    "cp_manifest pol = m" "\<forall>t \<in> set resolved. resolve r (tk_name t) = Some t"
    "distinct (map task_key resolved)" "cp_queues pol = sorted_list_of_set queues"
    "cp_bytes pol = canonical_bytes m" "cp_hash pol = sha (canonical_bytes m)"
proof -
  obtain R queues parents m v where c: "validate_followup_graph r = Inr ()" "traverse (require r) roots = Inr R"
    "distinct (map task_key R)" "loop_inv r R [] v queues parents"
    "m = \<lparr>pm_roots = sort_key node_key (map node_of R), pm_parents = sort_key parent_key parents\<rparr>"
    "pol = \<lparr>cp_manifest = m, cp_bytes = canonical_bytes m, cp_hash = sha (canonical_bytes m),
       cp_queues = sorted_list_of_set queues\<rparr>"
    "\<forall>t \<in> set R. resolve r (tk_name t) = Some t"
    by (rule compile_result [OF assms(1,2)])
  have R: "R = resolved" using trans [OF c(2) [symmetric] assms(3)] by simp
  show ?thesis
    by (rule that [OF c(1,4) [unfolded R] c(5) [unfolded R] _ c(7) [unfolded R] c(3) [unfolded R]])
      (simp_all add: c(6))
qed

text \<open>At the end of the loop everything reachable has been visited, and compiled when it has members.\<close>

lemma reach_visited:
  assumes inv: "loop_inv r roots [] v queues parents" and reach: "member_reach r roots t"
    and canon: "\<forall>t \<in> set roots. resolve r (tk_name t) = Some t"
    and ok: "registry_ok (rg_canonical r) (rg_lookup r)"
  shows "tk_name t \<in> v \<and> resolve r (tk_name t) = Some t \<and> compiled_in r parents (\<lambda>c. tk_name c \<in> v) t"
proof -
  have parts: "worklist_ok r roots [] v" "visited_ok r roots [] v parents"
    using inv unfolding loop_inv_def by blast+
  have whole: "compiled_in r parents (\<lambda>c. tk_name c \<in> v) t"
    if t: "tk_name t \<in> v" "resolve r (tk_name t) = Some t" for t
  proof -
    obtain u where u: "resolve r (tk_name t) = Some u"
        "compiled_in r parents (\<lambda>c. tk_name c \<in> v \<or> c \<in> set []) u"
      using bspec [OF parts(2) [unfolded visited_ok_def] t(1)] by blast
    have "u = t" using trans [OF u(1) [symmetric] t(2)] by simp
    then show ?thesis using u(2) by simp
  qed
  show ?thesis
    using reach
  proof (induction rule: member_reach.induct)
    case (reach_root t)
    then have "tk_name t \<in> v" "resolve r (tk_name t) = Some t"
      using parts(1) canon unfolding worklist_ok_def by auto
    then show ?case using whole by blast
  next
    case (reach_step p d c)
    have "member_targets p \<noteq> []" using reach_step(2) by auto
    then obtain cs q where q: "compile_parent r p (member_targets p) = Inr (cs, q)" "\<forall>c \<in> set cs. tk_name c \<in> v"
      using reach_step.IH unfolding compiled_in_def by blast
    have "list_all2 (\<lambda>d c. resolve r (ft_job_type d) = Some c) (member_targets p) cs"
      using compile_parent_Inr [OF q(1)] by blast
    then have "c \<in> set cs" by (rule resolved_child) (rule reach_step)+
    then have "tk_name c \<in> v" "resolve r (tk_name c) = Some c"
      using q(2) resolve_canonical(1) [OF ok reach_step(3)] by blast+
    then show ?case using whole by blast
  qed
qed


lemma find_unique:
  assumes "distinct (map f xs)" and "x \<in> set xs" and "P x" and "\<And>y. y \<in> set xs \<Longrightarrow> P y \<Longrightarrow> f y = f x"
  shows "find P xs = Some x"
proof -
  have "find P xs \<noteq> None" using assms(2,3) by (auto simp: find_None_iff)
  then obtain y where y: "find P xs = Some y" by blast
  then have "y \<in> set xs" "P y" by (auto simp: find_Some_iff)
  then have "f y = f x" using assms(4) by blast
  then have "y = x" using assms(1,2) \<open>y \<in> set xs\<close> by (auto simp: distinct_map dest: inj_onD)
  then show ?thesis using y by simp
qed

lemma loop_parents:
  assumes inv: "loop_inv r roots [] v queues parents" and p: "p \<in> set parents"
  obtains t cs where "tk_name t = pp_job_type p" "resolve r (tk_name t) = Some t" "member_reach r roots t"
    "member_targets t \<noteq> []" "compile_parent r t (member_targets t) = Inr (cs, p)"
proof -
  obtain t cs where t: "tk_name t \<in> v" "resolve r (tk_name t) = Some t" "member_targets t \<noteq> []"
      "compile_parent r t (member_targets t) = Inr (cs, p)"
    using inv p unfolding loop_inv_def parents_ok_def by blast
  moreover obtain u where "resolve r (tk_name t) = Some u" "member_reach r roots u"
    using inv t(1) unfolding loop_inv_def visited_ok_def by blast
  ultimately have "member_reach r roots t" by simp
  then show ?thesis using that [of t cs] t compile_parent_Inr [OF t(4)] by simp
qed

lemma child_keys:
  assumes "list_all2 (\<lambda>d c. resolve r (ft_job_type d) = Some c) ds cs"
    and "\<forall>d \<in> set ds. \<exists>c. resolve r (ft_job_type d) = Some c \<and> tk_queue c = ft_queue d"
  shows "task_key ` set cs = {(ft_queue d, tk_name c) | d c. d \<in> set ds \<and> resolve r (ft_job_type d) = Some c}"
  using assms by (induction rule: list_all2_induct) (auto simp: task_key_def)

text \<open>
  C39: A compiled policy pins exactly the member edges the registry declares: for every task the roots
  reach through member edges it allows precisely the declared member targets, each under its
  canonical name and queue, and it names no other parent.
\<close>

theorem compiled_policy_covers_reachable:
  assumes "registry_init ts = Inr r" and "compile_continuation_policy sha r roots = Inr pol"
    and "traverse (require r) roots = Inr resolved"
  shows "(member_reach r resolved t \<longrightarrow> set (allowed_targets t (cp_manifest pol)) =
      {(ft_queue d, tk_name c) | d c. d \<in> set (member_targets t) \<and> resolve r (ft_job_type d) = Some c}) \<and>
    parent_key ` set (pm_parents (cp_manifest pol)) =
      task_key ` {t. member_reach r resolved t \<and> member_targets t \<noteq> []}"
proof -
  note ok = registry_init_ok [OF assms(1)]
  obtain queues parents m v where c: "validate_followup_graph r = Inr ()"
      "loop_inv r resolved [] v queues parents"
      "m = \<lparr>pm_roots = sort_key node_key (map node_of resolved), pm_parents = sort_key parent_key parents\<rparr>"
      "cp_manifest pol = m" "\<forall>t \<in> set resolved. resolve r (tk_name t) = Some t"
      "distinct (map task_key resolved)" "cp_queues pol = sorted_list_of_set queues"
      "cp_bytes pol = canonical_bytes m" "cp_hash pol = sha (canonical_bytes m)"
    by (rule compile_resolved [OF assms])
  note visited = reach_visited [OF c(2) _ c(5) ok]
  have dist: "distinct (map pp_job_type parents)" using c(2) unfolding loop_inv_def parents_ok_def by blast
  have compiled: "\<exists>cs p. compile_parent r t (member_targets t) = Inr (cs, p) \<and> p \<in> set parents"
    if "member_reach r resolved t" "member_targets t \<noteq> []" for t
    using visited [OF that(1)] that(2) unfolding compiled_in_def by blast
  have "set (allowed_targets t m) =
      {(ft_queue d, tk_name c) | d c. d \<in> set (member_targets t) \<and> resolve r (ft_job_type d) = Some c}"
    if reach: "member_reach r resolved t" for t
  proof (cases "member_targets t = []")
    case True
    have "find (\<lambda>p. pp_queue p = tk_queue t \<and> pp_job_type p = tk_name t) (sort_key parent_key parents) = None"
      unfolding find_None_iff
    proof
      assume "\<exists>p. p \<in> set (sort_key parent_key parents) \<and> pp_queue p = tk_queue t \<and> pp_job_type p = tk_name t"
      then obtain p where p: "p \<in> set parents" "pp_job_type p = tk_name t" by auto
      obtain u cs where u: "tk_name u = pp_job_type p" "resolve r (tk_name u) = Some u" "member_targets u \<noteq> []"
        by (rule loop_parents [OF c(2) p(1)])
      have "resolve r (tk_name t) = Some u" using u(2) unfolding u(1) p(2) .
      then have "u = t" using visited [OF reach] by simp
      then show False using u(3) True by simp
    qed
    then show ?thesis using True by (simp add: allowed_targets_def c(3))
  next
    case False
    obtain cs p where p: "compile_parent r t (member_targets t) = Inr (cs, p)" "p \<in> set parents"
      using compiled [OF reach False] by blast
    note cp = compile_parent_Inr [OF p(1)]
    have "distinct (map pp_job_type (sort_key parent_key parents))"
      using dist by (simp add: distinct_map)
    then have "find (\<lambda>p. pp_queue p = tk_queue t \<and> pp_job_type p = tk_name t) (sort_key parent_key parents) = Some p"
      by (rule find_unique) (use p(2) cp in simp_all)
    then have "set (allowed_targets t m) = task_key ` set cs"
      using cp by (simp add: allowed_targets_def c(3) image_image)
    moreover have l2: "list_all2 (\<lambda>d c. resolve r (ft_job_type d) = Some c) (member_targets t) cs"
      using cp by blast
    have "t \<in> set (registered r)" using visited [OF reach] resolve_registered [OF ok] by blast
    then have "\<forall>d \<in> set (member_targets t). \<exists>c. resolve r (ft_job_type d) = Some c \<and> tk_queue c = ft_queue d"
      using graph_targets [OF c(1)] by (auto simp: member_targets_def)
    ultimately show ?thesis using child_keys [OF l2] by simp
  qed
  moreover have "parent_key ` set parents = task_key ` {t. member_reach r resolved t \<and> member_targets t \<noteq> []}"
  proof (intro set_eqI iffI)
    fix k assume "k \<in> parent_key ` set parents"
    then obtain p where p: "p \<in> set parents" "k = parent_key p" by blast
    obtain u cs where u: "member_reach r resolved u" "member_targets u \<noteq> []"
        "compile_parent r u (member_targets u) = Inr (cs, p)"
      by (rule loop_parents [OF c(2) p(1)])
    have "k = task_key u" using compile_parent_Inr [OF u(3)] p(2) by (simp add: parent_key_def task_key_def)
    then show "k \<in> task_key ` {t. member_reach r resolved t \<and> member_targets t \<noteq> []}" using u by blast
  next
    fix k assume "k \<in> task_key ` {t. member_reach r resolved t \<and> member_targets t \<noteq> []}"
    then obtain u where u: "member_reach r resolved u" "member_targets u \<noteq> []" "k = task_key u" by blast
    obtain cs p where p: "compile_parent r u (member_targets u) = Inr (cs, p)" "p \<in> set parents"
      using compiled [OF u(1,2)] by blast
    have "k = parent_key p" using compile_parent_Inr [OF p(1)] u(3) by (simp add: parent_key_def task_key_def)
    then show "k \<in> parent_key ` set parents" using p(2) by blast
  qed
  ultimately show ?thesis by (simp add: c(3,4))
qed


lemma canonical_sorted:
  assumes "distinct (map f xs)"
  shows "canonical_keys (map f (sort_key f xs))"
proof -
  have "sort (map f (sort_key f xs)) = map f (sort_key f xs)" by (rule sort_key_id_if_sorted) simp
  moreover have "distinct (map f (sort_key f xs))" using assms by (simp add: distinct_map)
  ultimately show ?thesis by (simp add: canonical_keys_def)
qed

lemma traverse_unit: "traverse f xs = Inr us \<Longrightarrow> ebind (traverse f xs) (\<lambda>_. m) = m"
  by simp

lemma traverse_ok: "(\<And>x. x \<in> set xs \<Longrightarrow> \<exists>y. f x = Inr y) \<Longrightarrow> \<exists>ys. traverse f xs = Inr ys"
  by (induction xs) fastforce+

lemma require_canonical:
  "resolve r (tk_name t) = Some t \<Longrightarrow> require_policy_node r (tk_queue t) (tk_name t) = Inr t"
  by (simp add: require_policy_node_def)

lemma live_edges:
  assumes "\<forall>d \<in> set (tk_targets t). \<exists>c. resolve r (ft_job_type d) = Some c \<and> tk_queue c = ft_queue d"
  shows "\<exists>live. live_member_edges r t = Inr live \<and> set live = {(ft_queue d, tk_name c) | d c.
    d \<in> set (member_targets t) \<and> resolve r (ft_job_type d) = Some c}"
proof -
  let ?f = "\<lambda>d. ebind (require_name r (ft_job_type d)) (\<lambda>child. Inr (d, child))"
  have "\<exists>y. ?f d = Inr y" if "d \<in> set (tk_targets t)" for d
    using assms that by (force simp: require_name_def)
  from traverse_ok [OF this] obtain ds where ds: "traverse ?f (tk_targets t) = Inr ds" ..
  then have "list_all2 (\<lambda>d x. ?f d = Inr x) (tk_targets t) ds" by (simp only: traverse_Inr_iff)
  then have "set ds = {(d, c). d \<in> set (tk_targets t) \<and> resolve r (ft_job_type d) = Some c}"
    by (induction rule: list_all2_induct) (auto simp: ebind_Inr_iff require_name_Inr)
  then have "(\<lambda>(d, child). (ft_queue d, tk_name child)) ` set (filter (\<lambda>(d, _). ft_workflow_member d) ds) =
      {(ft_queue d, tk_name c) | d c. d \<in> set (member_targets t) \<and> resolve r (ft_job_type d) = Some c}"
    by (auto simp: member_targets_def image_iff)
  then show ?thesis using ds by (simp add: live_member_edges_def)
qed

lemma validate_compiled_parent:
  assumes ok: "registry_ok (rg_canonical r) (rg_lookup r)" and graph: "validate_followup_graph r = Inr ()"
    and t: "resolve r (tk_name t) = Some t" and p: "compile_parent r t (member_targets t) = Inr (cs, p)"
  shows "validate_parent r p = Inr ()"
proof -
  have cp: "pp_job_type p = tk_name t" "pp_queue p = tk_queue t"
      "pp_targets p = sort_key node_key (map node_of cs)" "distinct (map task_key cs)"
      "list_all2 (\<lambda>d c. resolve r (ft_job_type d) = Some c) (member_targets t) cs"
    using compile_parent_Inr [OF p] by blast+
  have targets: "\<forall>d \<in> set (tk_targets t). \<exists>c. resolve r (ft_job_type d) = Some c \<and> tk_queue c = ft_queue d"
    using graph_targets [OF graph resolve_registered [OF ok t]] by blast
  obtain live where live: "live_member_edges r t = Inr live" "set live = {(ft_queue d, tk_name c) | d c.
      d \<in> set (member_targets t) \<and> resolve r (ft_job_type d) = Some c}"
    using live_edges [OF targets] by blast
  have "\<forall>d \<in> set (member_targets t). \<exists>c. resolve r (ft_job_type d) = Some c \<and> tk_queue c = ft_queue d"
    using targets by (auto simp: member_targets_def)
  then have keys: "task_key ` set cs = set live" using child_keys [OF cp(5)] live(2) by simp
  have canon: "canonical_keys (map node_key (pp_targets p))"
    unfolding cp(3) by (rule canonical_sorted) (simp add: comp_def cp(4))
  let ?g = "\<lambda>(queue, job_type). ebind (require_policy_node r queue job_type) (\<lambda>child.
      if (queue, tk_name child) \<notin> set live
      then Inl (ConfigError (''retained continuation edge is not runnable for parent: '' @
             py_repr (tk_name t) @ '' -> '' @ pair_repr (queue, tk_name child)))
      else Inr ())"
  have "\<exists>u. ?g k = Inr u" if kin: "k \<in> set (map node_key (pp_targets p))" for k
  proof -
    obtain c where c: "c \<in> set cs" "k = task_key c" using kin cp(3) by auto
    obtain d where "d \<in> set (member_targets t)" "resolve r (ft_job_type d) = Some c" using resolved_origin [OF cp(5) c(1)] by blast
    then have "resolve r (tk_name c) = Some c" by (intro resolve_canonical(1) [OF ok])
    then show ?thesis using require_canonical c keys by (auto simp: task_key_def)
  qed
  from traverse_ok [OF this] obtain us where "traverse ?g (map node_key (pp_targets p)) = Inr us" ..
  then show ?thesis
    unfolding validate_parent_def cp(1,2) require_canonical [OF t] using canon live(1) by simp
qed

text \<open>
  C40: What the compiler returns is a valid retained policy of the registry it was compiled from: its
  bytes, hash, order, nodes, edges and queues all pass the validation.
\<close>

theorem compiled_policy_validates:
  assumes "registry_init ts = Inr r" and "compile_continuation_policy sha r roots = Inr pol"
    and "\<And>s. policy_hash (sha s)"
  shows "validate_compiled_continuation_policy sha r pol = Inr ()"
proof -
  note ok = registry_init_ok [OF assms(1)]
  obtain R queues parents m v where c: "validate_followup_graph r = Inr ()" "traverse (require r) roots = Inr R"
    "distinct (map task_key R)" "loop_inv r R [] v queues parents"
    "m = \<lparr>pm_roots = sort_key node_key (map node_of R), pm_parents = sort_key parent_key parents\<rparr>"
    "pol = \<lparr>cp_manifest = m, cp_bytes = canonical_bytes m, cp_hash = sha (canonical_bytes m),
       cp_queues = sorted_list_of_set queues\<rparr>"
    "\<forall>t \<in> set R. resolve r (tk_name t) = Some t"
    by (rule compile_result [OF assms(1,2)])
  have roots: "canonical_keys (map node_key (pm_roots m))"
    unfolding c(5) policy_manifest.select_convs by (rule canonical_sorted) (simp add: comp_def c(3))
  have "distinct (map pp_job_type parents)" using c(4) unfolding loop_inv_def parents_ok_def by blast
  then have "distinct (map parent_key parents)"
    by (auto simp: distinct_map inj_on_def parent_key_def)
  then have parents: "canonical_keys (map parent_key (pm_parents m))"
    unfolding c(5) policy_manifest.select_convs by (rule canonical_sorted)
  have "\<exists>t. require_policy_node r (pn_queue n) (pn_job_type n) = Inr t" if nin: "n \<in> set (pm_roots m)" for n
    using nin c(5,7) require_canonical by (auto simp: node_of_def)
  from traverse_ok [OF this] obtain ns
    where ns: "traverse (\<lambda>n. require_policy_node r (pn_queue n) (pn_job_type n)) (pm_roots m) = Inr ns" ..
  have "\<exists>u. validate_parent r p = Inr u" if pin: "p \<in> set (pm_parents m)" for p
  proof -
    have "p \<in> set parents" using pin c(5) by simp
    then obtain t cs where "resolve r (tk_name t) = Some t" "compile_parent r t (member_targets t) = Inr (cs, p)"
      by (rule loop_parents [OF c(4)])
    then show ?thesis using validate_compiled_parent [OF ok c(1)] by blast
  qed
  from traverse_ok [OF this] obtain us where us: "traverse (validate_parent r) (pm_parents m) = Inr us" ..
  have "queues_ok R queues parents" using c(4) unfolding loop_inv_def by blast
  then have queues: "policy_queues m = queues"
    by (simp add: policy_queues_def c(5) queues_ok_def image_image node_of_def)
  show ?thesis
    unfolding validate_compiled_continuation_policy_def Let_def
    using assms(3) roots parents ns us queues by (simp add: c(6))
qed


section \<open>Follow-ups under a policy\<close>

lemma declared_targets_Inr:
  "declared_targets r p ds acc = Inr D \<Longrightarrow> dget D k = Some d \<Longrightarrow>
   dget acc k = Some d \<or> d \<in> set ds \<and> (\<exists>t. resolve r (ft_job_type d) = Some t \<and> k = (ft_queue d, tk_name t))"
proof (induction ds arbitrary: acc)
  case (Cons e ds)
  obtain t where t: "resolve r (ft_job_type e) = Some t"
      "declared_targets r p ds (dset (ft_queue e, tk_name t) e acc) = Inr D"
    using Cons.prems(1) by (auto simp: Let_def split: option.splits if_splits)
  show ?case using Cons.IH [OF t(2) Cons.prems(2)] t(1) by (auto split: if_splits)
qed simp

text \<open>What a normalised follow-up is.\<close>

definition declared_followup :: "registry \<Rightarrow> task \<Rightarrow> followup \<Rightarrow> bool" where
  "declared_followup r parent g \<longleftrightarrow> (\<exists>t d. resolve r (fu_job_type g) = Some t \<and> tk_name t = fu_job_type g \<and>
     followup_queue_in parent g = tk_queue t \<and> d \<in> set (tk_targets parent) \<and>
     resolve r (ft_job_type d) = Some t \<and> ft_queue d = tk_queue t \<and>
     (fu_workflow_member g \<longrightarrow> ft_workflow_member d))"

lemma normalize_followup_Inr:
  assumes ok: "registry_ok (rg_canonical r) (rg_lookup r)"
    and d: "declared_targets r parent (tk_targets parent) [] = Inr declared"
    and n: "normalize_followup vp r parent declared f = Inr g"
  shows "declared_followup r parent g \<and> (\<exists>t p. resolve r (fu_job_type f) = Some t \<and>
    validate_payload vp t (fu_payload f) = Inr p \<and> followup_queue_in parent f = tk_queue t \<and>
    g = f\<lparr>fu_job_type := tk_name t,
      fu_queue := (if tk_queue t \<noteq> tk_queue parent then Some (tk_queue t) else None), fu_payload := p\<rparr>)"
proof -
  let ?q = "followup_queue_in parent f"
  obtain t decl p where t: "resolve r (fu_job_type f) = Some t" "dget declared (?q, tk_name t) = Some decl"
      "tk_queue t = ?q" "fu_workflow_member f \<longrightarrow> ft_workflow_member decl"
      "validate_payload vp t (fu_payload f) = Inr p"
      "g = f\<lparr>fu_job_type := tk_name t, fu_queue := (if ?q \<noteq> tk_queue parent then Some ?q else None), fu_payload := p\<rparr>"
    using n unfolding normalize_followup_def Let_def by (auto split: option.splits if_splits sum.splits)
  obtain u where u: "decl \<in> set (tk_targets parent)" "resolve r (ft_job_type decl) = Some u"
      "?q = ft_queue decl" "tk_name t = tk_name u"
    using declared_targets_Inr [OF d t(2)] by auto
  have "resolve r (tk_name u) = Some t"
    using resolve_canonical(1) [OF ok t(1)] unfolding u(4) .
  then have ut: "u = t" using resolve_canonical(1) [OF ok u(2)] by simp
  have q: "followup_queue_in parent g = tk_queue t"
    unfolding t(6) using t(3) by (auto simp: followup_queue_in_def split: option.splits)
  have "resolve r (fu_job_type g) = Some t" "tk_name t = fu_job_type g"
      "fu_workflow_member g \<longrightarrow> ft_workflow_member decl"
    using t(4,6) resolve_canonical(1) [OF ok t(1)] by simp_all
  then have "declared_followup r parent g"
    unfolding declared_followup_def using q u(1,2,3) ut t(3) by auto
  then show ?thesis using t by auto
qed

text \<open>
  A handler's follow-ups come out canonical or not at all: each keeps its step and options, names a
  registered task by its canonical name on that task's queue, matches a target its parent declares,
  is a workflow member only when that target is member-enabled, and carries the payload its task's
  input model returned.
\<close>

theorem normalized_followups_declared:
  assumes "registry_init ts = Inr r" and "normalize_followups vp r parent fs = Inr gs"
  shows "list_all2 (\<lambda>f g. declared_followup r parent g \<and> (\<exists>t p. resolve r (fu_job_type f) = Some t \<and>
    validate_payload vp t (fu_payload f) = Inr p \<and> followup_queue_in parent f = tk_queue t \<and>
    g = f\<lparr>fu_job_type := tk_name t,
      fu_queue := (if tk_queue t \<noteq> tk_queue parent then Some (tk_queue t) else None), fu_payload := p\<rparr>)) fs gs"
proof -
  obtain declared where d: "declared_targets r parent (tk_targets parent) [] = Inr declared"
      "traverse (normalize_followup vp r parent declared) fs = Inr gs"
    using assms(2) by (auto simp: normalize_followups_def ebind_Inr_iff)
  have "list_all2 (\<lambda>f g. normalize_followup vp r parent declared f = Inr g) fs gs"
    using d(2) by (simp only: traverse_Inr_iff)
  then show ?thesis
    by (rule list_all2_mono) (rule normalize_followup_Inr [OF registry_init_ok [OF assms(1)] d(1)])
qed

lemma members_allowed:
  "(\<And>f. f \<in> set fs \<Longrightarrow> (followup_queue_in parent f, fu_job_type f) \<in> set allowed) \<Longrightarrow>
   check_members_allowed parent allowed fs = Inr ()"
  by (induction fs) (auto simp: Let_def)

text \<open>
  A policy never refuses work of the registry it was compiled from: when a task the policy reaches
  returns follow-ups that the registry accepts, enforcing the policy on them returns them as they
  are, members of the workflow included.
\<close>

theorem policy_accepts_normalized:
  assumes "registry_init ts = Inr r" and "compile_continuation_policy sha r roots = Inr pol"
    and "traverse (require r) roots = Inr resolved" and "member_reach r resolved parent"
    and "normalize_followups vp r parent fs = Inr gs"
  shows "enforce_continuation_policy parent gs (Some pol) = Inr gs"
proof -
  have allowed: "set (allowed_targets parent (cp_manifest pol)) =
      {(ft_queue d, tk_name c) | d c. d \<in> set (member_targets parent) \<and> resolve r (ft_job_type d) = Some c}"
    using compiled_policy_covers_reachable [OF assms(1-3), of parent] assms(4) by blast
  have "(followup_queue_in parent g, fu_job_type g) \<in> set (allowed_targets parent (cp_manifest pol))"
    if g: "g \<in> set (filter fu_workflow_member gs)" for g
  proof -
    have "declared_followup r parent g"
      using normalized_followups_declared [OF assms(1,5)] g
      unfolding list_all2_conv_all_nth by (auto simp: in_set_conv_nth)
    then obtain t d where td: "tk_name t = fu_job_type g" "followup_queue_in parent g = tk_queue t"
        "d \<in> set (tk_targets parent)" "resolve r (ft_job_type d) = Some t" "ft_queue d = tk_queue t"
        "fu_workflow_member g \<longrightarrow> ft_workflow_member d"
      unfolding declared_followup_def by blast
    then have "d \<in> set (member_targets parent)" using g by (simp add: member_targets_def)
    then have "(ft_queue d, tk_name t) \<in> set (allowed_targets parent (cp_manifest pol))"
      unfolding allowed using td(4) by blast
    then show ?thesis using td(1,2,5) by simp
  qed
  then have "check_members_allowed parent (allowed_targets parent (cp_manifest pol))
      (filter fu_workflow_member gs) = Inr ()" by (rule members_allowed)
  then show ?thesis by (simp add: enforce_continuation_policy_def Let_def)
qed


section \<open>The compiler succeeds\<close>

lemma check_targets_distinct:
  "check_targets r p ds ids = Inr () \<Longrightarrow> list_all2 (\<lambda>d c. resolve r (ft_job_type d) = Some c) ds cs \<Longrightarrow>
   distinct (map task_key cs) \<and> set (map task_key cs) \<inter> ids = {}"
proof (induction ds arbitrary: ids cs)
  case (Cons d ds)
  obtain c cs' where c: "cs = c # cs'" "resolve r (ft_job_type d) = Some c"
      "list_all2 (\<lambda>d c. resolve r (ft_job_type d) = Some c) ds cs'"
    using Cons.prems(2) by (auto simp: list_all2_Cons1)
  have k: "task_key c \<notin> ids" "check_targets r p ds (insert (task_key c) ids) = Inr ()"
    using Cons.prems(1) c(2) by (auto simp: task_key_def split: if_splits)
  show ?case using Cons.IH [OF k(2) c(3)] k(1) c(1) by auto
qed simp

definition well_formed_tasks :: "task list \<Rightarrow> bool" where
  "well_formed_tasks ts \<longleftrightarrow> (\<forall>t \<in> set ts. task_init t = Inr t \<and> (\<forall>d \<in> set (tk_targets t). followup_target_valid d))"

lemma task_init_facts:
  assumes "task_init t = Inr t"
  shows "wire_name (tk_name t)" "queue_name (tk_queue t)"
    "length (remdups (map ft_revision (member_targets t))) \<le> 1"
  using assms by (auto simp: task_init_def ebind_Inr_iff guard_Inr_iff validate_wire_name_def)

lemma registered_tasks:
  assumes "registry_init ts = Inr r"
  shows "registered r = ts"
  using registry_init_spec [of ts] unfolding assms sum.case by blast

lemma compile_parent_ok:
  assumes init: "registry_init ts = Inr r" and wft: "well_formed_tasks ts"
    and graph: "validate_followup_graph r = Inr ()" and t: "resolve r (tk_name t) = Some t"
    and ne: "member_targets t \<noteq> []"
  shows "\<exists>cp. compile_parent r t (member_targets t) = Inr cp"
proof -
  let ?ms = "member_targets t"
  note ok = registry_init_ok [OF init]
  have valid: "task_init c = Inr c" "\<forall>d \<in> set (tk_targets c). followup_target_valid d"
    if "resolve r n = Some c" for n c
    using resolve_registered [OF ok that] registered_tasks [OF init] wft
    unfolding well_formed_tasks_def by auto
  have reg: "t \<in> set (registered r)" using resolve_registered [OF ok t] .
  have res: "\<exists>c. resolve r (ft_job_type d) = Some c \<and> tk_queue c = ft_queue d" if "d \<in> set (tk_targets t)" for d
    using graph_targets [OF graph reg that] .
  have "\<exists>x. compile_target r d = Inr x" if "d \<in> set ?ms" for d
    using res [of d] that valid(1) task_init_facts(1,2)
    by (fastforce simp: member_targets_def compile_target_def require_name_def policy_node_init_def)
  from traverse_ok [OF this] obtain compiled where compiled: "traverse (compile_target r) ?ms = Inr compiled" ..
  have l2: "list_all2 (\<lambda>d x. compile_target r d = Inr x) ?ms compiled" using compiled by (simp only: traverse_Inr_iff)
  have nodes: "map snd compiled = map node_of (map fst compiled)"
    using l2 by (induction rule: list_all2_induct) (auto simp: compile_target_Inr node_of_def)
  have res2: "list_all2 (\<lambda>d c. resolve r (ft_job_type d) = Some c) ?ms (map fst compiled)"
    unfolding list_all2_map2 by (rule list_all2_mono [OF l2]) (auto simp: compile_target_Inr)
  have dist: "distinct (map task_key (map fst compiled))"
  proof -
    define cs where "cs = map (\<lambda>d. the (resolve r (ft_job_type d))) (tk_targets t)"
    have all: "list_all2 (\<lambda>d c. resolve r (ft_job_type d) = Some c) (tk_targets t) cs"
      unfolding cs_def list_all2_map2 by (rule list.rel_refl_strong) (use res in force)
    obtain us where "traverse (\<lambda>p. check_targets r p (tk_targets p) {}) (registered r) = Inr us"
      using graph by (auto simp: validate_followup_graph_def ebind_Inr_iff)
    then have "check_targets r t (tk_targets t) {} = Inr ()"
      using reg by (auto simp: traverse_Inr_iff list_all2_conv_all_nth in_set_conv_nth)
    then have "distinct (map task_key cs)" using check_targets_distinct all by blast
    then have d: "distinct (map (\<lambda>d. task_key (the (resolve r (ft_job_type d)))) (tk_targets t))"
      by (simp add: cs_def comp_def)
    have "map fst compiled = map (\<lambda>d. the (resolve r (ft_job_type d))) ?ms"
      using res2 by (induction rule: list_all2_induct) auto
    then show ?thesis using d by (simp add: comp_def member_targets_def distinct_map_filter)
  qed
  have mem: "followup_target_valid d" "ft_workflow_member d" if "d \<in> set ?ms" for d
    using that valid(2) [OF t] by (auto simp: member_targets_def)
  obtain d ds where ms: "?ms = d # ds" using ne by (cases ?ms) auto
  have "remdups (map ft_revision ?ms) \<noteq> []" using ne by simp
  then have len: "length (remdups (map ft_revision ?ms)) = 1"
    using task_init_facts(3) [OF valid(1) [OF t]] by (cases "remdups (map ft_revision ?ms)") auto
  then obtain x where x: "remdups (map ft_revision ?ms) = [x]" by (auto simp: length_Suc_conv)
  then have "x \<in> set (map ft_revision ?ms)" by (metis list.set_intros(1) set_remdups)
  then obtain d' where d': "d' \<in> set ?ms" "x = ft_revision d'" by auto
  then obtain rev where rev: "x = Some rev" "step_name rev"
    using mem [OF d'(1)] by (auto simp: followup_target_valid_def)
  have "sort_key node_key (map snd compiled) \<noteq> []"
  proof -
    have "length compiled = length ?ms" using l2 by (simp add: list_all2_lengthD)
    then have "length (sort_key node_key (map snd compiled)) \<noteq> 0" using ne by simp
    then show ?thesis by (simp only: length_0_conv not_False_eq_True)
  qed
  then have "\<exists>p. policy_parent_init (tk_name t) (tk_queue t) rev (sort_key node_key (map snd compiled)) = Inr p"
    using rev(2) task_init_facts(1,2) [OF valid(1) [OF t]] by (simp add: policy_parent_init_def)
  moreover have "distinct (map node_key (map snd compiled))"
    using dist unfolding nodes by (simp add: comp_def)
  ultimately show ?thesis
    using compiled len x rev(1) unfolding compile_parent_def Let_def by auto
qed

lemma compile_loop_ok:
  assumes "registry_init ts = Inr r" and "well_formed_tasks ts" and "validate_followup_graph r = Inr ()"
  shows "\<forall>t \<in> set pending. resolve r (tk_name t) = Some t \<Longrightarrow>
    \<exists>x. compile_loop r pending visited queues parents = Inr x"
  using assms
proof (induction r pending visited queues parents rule: compile_loop.induct)
  case (1 r pending visited queues parents)
  note ok = registry_init_ok [OF 1(5)]
  show ?case
  proof (cases "pending = []")
    case ne: False
    let ?t = "last pending" and ?rest = "butlast pending"
    have t: "resolve r (tk_name ?t) = Some ?t" using 1(4) ne by simp
    have rest: "\<forall>t \<in> set ?rest. resolve r (tk_name t) = Some t" using 1(4) by (auto dest: in_set_butlastD)
    note unf = compile_loop.simps [of r pending visited queues parents, unfolded Let_def if_not_P [OF ne]]
    show ?thesis
    proof (cases "tk_name ?t \<in> visited")
      case True
      show ?thesis unfolding unf if_P [OF True] by (rule 1(1) [OF ne refl refl True rest 1(5-7)])
    next
      case new: False
      show ?thesis
      proof (cases "member_targets ?t = []")
        case True
        show ?thesis unfolding unf if_not_P [OF new] if_P [OF True]
          by (rule 1(2) [OF ne refl refl new refl True rest 1(5-7)])
      next
        case ms: False
        obtain cp where cp: "compile_parent r ?t (member_targets ?t) = Inr cp"
          using compile_parent_ok [OF 1(5-7) t ms] by blast
        have "resolve r (tk_name c) = Some c" if cin: "c \<in> set (fst cp)" for c
        proof -
          have "list_all2 (\<lambda>d c. resolve r (ft_job_type d) = Some c) (member_targets ?t) (fst cp)"
            using compile_parent_children [of r ?t "member_targets ?t" "fst cp" "snd cp"] cp by simp
          then obtain d where "d \<in> set (member_targets ?t)" "resolve r (ft_job_type d) = Some c"
            using resolved_origin cin by blast
          then show ?thesis by (intro resolve_canonical(1) [OF ok])
        qed
        then have next_ok: "\<forall>t \<in> set (?rest @ fst cp). resolve r (tk_name t) = Some t" using rest by auto
        show ?thesis unfolding unf if_not_P [OF new] if_not_P [OF ms] cp sum.case
          by (rule 1(3) [OF ne refl refl new refl ms cp next_ok 1(5-7)])
      qed
    qed
  qed (simp add: compile_loop.simps)
qed

lemma reach_finite: "finite {t. member_reach r roots t}"
proof (rule finite_subset)
  have "t \<in> set roots \<union> set (dvalues (rg_lookup r))" if "member_reach r roots t" for t
    using that by cases (use resolve_value in blast)+
  then show "{t. member_reach r roots t} \<subseteq> set roots \<union> set (dvalues (rg_lookup r))" by blast
qed simp

text \<open>
  Compiling never fails on a sound registry: when every task is valid and the follow-up graph checks,
  distinct roots that reach at most 32 queues always compile, cycles of follow-ups included.
\<close>

theorem compile_succeeds:
  assumes "registry_init ts = Inr r" and "well_formed_tasks ts" and "validate_followup_graph r = Inr ()"
    and "traverse (require r) roots = Inr resolved" and "resolved \<noteq> []" and "distinct (map task_key resolved)"
    and "card (tk_queue ` {t. member_reach r resolved t}) \<le> 32"
  shows "\<exists>pol. compile_continuation_policy sha r roots = Inr pol"
proof -
  note ok = registry_init_ok [OF assms(1)]
  have "list_all2 (\<lambda>x t. require r x = Inr t) roots resolved" using assms(4) by (simp only: traverse_Inr_iff)
  then have canon: "\<forall>t \<in> set resolved. resolve r (tk_name t) = Some t"
    by (induction rule: list_all2_induct) (use require_Inr [OF ok] in auto)
  obtain queues parents where loop:
      "compile_loop r resolved {} (tk_queue ` set resolved) [] = Inr (queues, parents)"
    using compile_loop_ok [OF assms(1-3) canon] by fast
  have "worklist_ok r resolved resolved {}" using canon by (simp add: worklist_ok_def reach_root)
  then have start: "loop_inv r resolved resolved {} (tk_queue ` set resolved) []"
    by (simp add: loop_inv_def visited_ok_def parents_ok_def queues_ok_def)
  obtain v where inv: "loop_inv r resolved [] v queues parents"
    using compile_loop_inv [OF loop ok start] by blast
  have "queues \<subseteq> tk_queue ` {t. member_reach r resolved t}"
  proof
    fix q assume "q \<in> queues"
    then consider t where "t \<in> set resolved" "q = tk_queue t"
      | p where "p \<in> set parents" "q \<in> pn_queue ` set (pp_targets p)"
      using inv unfolding loop_inv_def queues_ok_def by blast
    then show "q \<in> tk_queue ` {t. member_reach r resolved t}"
    proof cases
      case 1
      then show ?thesis by (auto intro: reach_root)
    next
      case 2
      obtain t cs where t: "member_reach r resolved t" "compile_parent r t (member_targets t) = Inr (cs, p)"
        by (rule loop_parents [OF inv 2(1)])
      obtain c where c: "c \<in> set cs" "q = tk_queue c" using 2(2) parent_targets(2) [OF t(2)] by auto
      have "list_all2 (\<lambda>d c. resolve r (ft_job_type d) = Some c) (member_targets t) cs"
        using compile_parent_Inr [OF t(2)] by blast
      from resolved_origin [OF this c(1)] show ?thesis using t(1) c(2) by (blast intro: reach_step)
    qed
  qed
  then have "card queues \<le> 32"
    using card_mono [OF finite_imageI [OF reach_finite]] assms(7) le_trans by blast
  then have few: "\<not> card queues > max_policy_queues" by (simp add: max_policy_queues_def)
  have "\<exists>n. policy_node_init (tk_name t) (tk_queue t) = Inr n" if tin: "t \<in> set (sort_key task_key resolved)" for t
  proof -
    have "t \<in> set (registered r)" using canon tin resolve_registered [OF ok] by auto
    then have "task_init t = Inr t"
      using registered_tasks [OF assms(1)] assms(2) by (simp add: well_formed_tasks_def)
    then show ?thesis using task_init_facts by (simp add: policy_node_init_def)
  qed
  from traverse_ok [OF this] obtain nodes where nodes:
    "traverse (\<lambda>t. policy_node_init (tk_name t) (tk_queue t)) (sort_key task_key resolved) = Inr nodes" ..
  have "length nodes = length resolved"
    using nodes by (simp add: traverse_Inr_iff list_all2_lengthD [symmetric])
  then have "nodes \<noteq> []" using assms(5) by auto
  then show ?thesis
    using assms(3-6) loop few nodes by (simp add: compile_continuation_policy_def policy_manifest_init_def)
qed

section \<open>A compiled sample\<close>

definition demo_manifest :: policy_manifest where
  "demo_manifest = \<lparr>pm_roots = [\<lparr>pn_job_type = ''a'', pn_queue = ''q''\<rparr>],
     pm_parents = [\<lparr>pp_job_type = ''a'', pp_queue = ''q'', pp_revision = ''r1'',
       pp_targets = [\<lparr>pn_job_type = ''b'', pn_queue = ''q''\<rparr>]\<rparr>]\<rparr>"

definition demo_sha :: "string \<Rightarrow> string" where
  "demo_sha s = replicate 64 CHR ''0''"

definition demo_policy :: compiled_policy where
  "demo_policy = \<lparr>cp_manifest = demo_manifest, cp_bytes = canonical_bytes demo_manifest,
     cp_hash = demo_sha (canonical_bytes demo_manifest), cp_queues = [''q'']\<rparr>"

lemma demo_members: "member_targets demo_root = [demo_target]" "member_targets demo_child_task = []"
  by (simp_all add: member_targets_def demo_task_defs)

lemma demo_graph: "validate_followup_graph demo_registry = Inr ()"
  by (simp add: validate_followup_graph_def registered_def demo_registry_def resolve_def demo_task_defs)

lemma demo_parent_compiled:
  "compile_parent demo_registry demo_root [demo_target] =
     Inr ([demo_child_task], hd (pm_parents demo_manifest))"
  by (simp add: compile_parent_def compile_target_def require_name_def policy_node_init_def policy_parent_init_def
      demo_resolves demo_manifest_def demo_task_defs wire_name_def queue_name_def queue_char_def
      char_class_defs step_name_def step_char_def Let_def)

lemma demo_names: "tk_name demo_root = ''a''" "tk_name demo_child_task = ''b''"
    "tk_queue demo_root = ''q''" "tk_queue demo_child_task = ''q''"
  by (simp_all add: demo_task_defs)

lemma demo_loop:
  "compile_loop demo_registry [demo_root] {} {''q''} [] =
     Inr ({''q''}, pm_parents demo_manifest)"
  by (simp add: compile_loop.simps demo_members demo_names demo_parent_compiled demo_manifest_def)

lemma demo_compiled:
  "compile_continuation_policy demo_sha demo_registry [TaskName ''a''] = Inr demo_policy"
  by (simp add: compile_continuation_policy_def demo_graph require_name_def demo_resolves demo_loop
      demo_names max_policy_queues_def policy_node_init_def policy_manifest_init_def demo_policy_def
      demo_manifest_def wire_name_def queue_name_def queue_char_def char_class_defs)

lemma demo_resolved: "traverse (require demo_registry) [TaskName ''a''] = Inr [demo_root]"
  by (simp add: require_name_def demo_resolves)

theorem compiled_policy_covers_reachable_witness:
  "set (allowed_targets demo_root (cp_manifest demo_policy)) = {(''q'', ''b'')}"
proof -
  have "member_reach demo_registry [demo_root] demo_root" by (simp add: reach_root)
  then show ?thesis
    using compiled_policy_covers_reachable [OF demo_registered demo_compiled demo_resolved, of demo_root]
      demo_resolves(2) demo_names(2) by (auto simp: demo_members demo_target_def)
qed

theorem compiled_policy_validates_witness:
  "validate_compiled_continuation_policy demo_sha demo_registry demo_policy = Inr ()"
  by (rule compiled_policy_validates [OF demo_registered demo_compiled])
    (simp add: demo_sha_def policy_hash_def hex_char_def char_class_defs list_all_length)

definition demo_member_followup :: followup where
  "demo_member_followup = \<lparr>fu_step = ''s'', fu_job_type = ''b'', fu_queue = None, fu_payload = [], fu_headers = [],
     fu_priority = None, fu_max_attempts = None, fu_lease_seconds = None, fu_scheduled_at = None,
     fu_workflow_member = True\<rparr>"

lemma demo_normalized:
  "normalize_followups (\<lambda>m v. Inr (JObj v)) demo_registry demo_root [demo_member_followup] =
     Inr [demo_member_followup]"
  by (simp add: normalize_followups_def normalize_followup_def followup_queue_in_def validate_payload_def
      resolve_def demo_registry_def demo_member_followup_def demo_task_defs Let_def)

theorem normalized_followups_declared_witness:
  "declared_followup demo_registry demo_root demo_member_followup"
  using normalized_followups_declared [OF demo_registered demo_normalized] by simp

theorem policy_accepts_normalized_witness:
  "enforce_continuation_policy demo_root [demo_member_followup] (Some demo_policy) =
     Inr [demo_member_followup]"
  by (rule policy_accepts_normalized [OF demo_registered demo_compiled demo_resolved _ demo_normalized])
    (simp add: reach_root)

theorem compile_succeeds_witness:
  "\<exists>pol. compile_continuation_policy demo_sha demo_registry [TaskName ''a''] = Inr pol"
proof (rule compile_succeeds [OF demo_registered _ demo_graph demo_resolved])
  show "well_formed_tasks [demo_root, demo_child_task]"
    by (simp add: well_formed_tasks_def task_init_def validate_wire_name_def followup_target_valid_def
        member_targets_def wire_name_def queue_name_def queue_char_def char_class_defs step_name_def
        step_char_def retry_error_def demo_task_defs)
  have "member_reach demo_registry [demo_root] t \<Longrightarrow> t = demo_root \<or> t = demo_child_task" for t
    by (induction rule: member_reach.induct) (auto simp: demo_members demo_target_def demo_resolves)
  then have "{t. member_reach demo_registry [demo_root] t} \<subseteq> {demo_root, demo_child_task}" by blast
  then have "tk_queue ` {t. member_reach demo_registry [demo_root] t} \<subseteq> tk_queue ` {demo_root, demo_child_task}"
    by (rule image_mono)
  then have "tk_queue ` {t. member_reach demo_registry [demo_root] t} \<subseteq> {''q''}"
    by (simp add: demo_names)
  then have "card (tk_queue ` {t. member_reach demo_registry [demo_root] t}) \<le> card {''q''}"
    by (intro card_mono) simp_all
  then show "card (tk_queue ` {t. member_reach demo_registry [demo_root] t}) \<le> 32" by simp
qed simp_all

end
