(* ===== verification/Schedules.thy ===== *)
theory Schedules
  imports FakeState
begin

text \<open>
  \<open>schedules.py\<close>: the grammar of cron expressions, the next and the latest instant of a recurrence, the
  smear offset, and the evaluation of one schedule claim.  The IANA time zones and croniter's
  sequence of matching wall times are parameters; instants are unbounded numbers of microseconds.
\<close>

section \<open>Cron expressions\<close>

definition py_space :: "char \<Rightarrow> bool" where
  "py_space c \<longleftrightarrow> (let n = ord_c c in 9 \<le> n \<and> n \<le> 13 \<or> 28 \<le> n \<and> n \<le> 32 \<or> n = 133 \<or> n = 160)"

text \<open>\<open>str.split()\<close>: the maximal runs of characters that are not white space.\<close>

fun split_words :: "string \<Rightarrow> string \<Rightarrow> string list" where
  "split_words w [] = (if w = [] then [] else [rev w])"
| "split_words w (c # cs) =
     (if py_space c then (if w = [] then split_words [] cs else rev w # split_words [] cs)
      else split_words (c # w) cs)"

definition py_split :: "string \<Rightarrow> string list" where
  "py_split s = split_words [] s"

text \<open>\<open>partition\<close>: what precedes the first separator, whether there is one, and the rest.\<close>

definition py_partition :: "char \<Rightarrow> string \<Rightarrow> string \<times> bool \<times> string" where
  "py_partition c s = (case dropWhile (\<lambda>x. x \<noteq> c) s of
      [] \<Rightarrow> (s, False, []) | _ # rest \<Rightarrow> (takeWhile (\<lambda>x. x \<noteq> c) s, True, rest))"

definition digits :: "string \<Rightarrow> bool" where
  "digits s \<longleftrightarrow> s \<noteq> [] \<and> list_all is_digit_c s"

definition digits_value :: "string \<Rightarrow> int" where
  "digits_value s = foldl (\<lambda>n c. 10 * n + (int (ord_c c) - 48)) 0 s"

text \<open>\<open>^(?:\*|[0-9]+)(?:-[0-9]+)?(?:/[1-9][0-9]*)?$\<close>\<close>

definition cron_part :: "string \<Rightarrow> bool" where
  "cron_part s \<longleftrightarrow> (let (base, slash, step) = py_partition CHR ''/'' s;
       (start, dash, end) = py_partition CHR ''-'' base
     in (start = ''*'' \<or> digits start) \<and> (dash \<longrightarrow> digits end) \<and>
        (slash \<longrightarrow> digits step \<and> hd step \<noteq> CHR ''0''))"

definition cron_bounds :: "(int \<times> int) list" where
  "cron_bounds = [(0, 59), (0, 23), (1, 31), (1, 12), (0, 7)]"

text \<open>One part of a field; the left side is the message of the \<open>ValueError\<close>.\<close>

definition check_cron_part :: "int \<Rightarrow> int \<Rightarrow> string \<Rightarrow> string + unit" where
  "check_cron_part minimum maximum part =
     (if \<not> cron_part part then Inl ''cron uses unsupported syntax''
      else
        let (base, _, step) = py_partition CHR ''/'' part in
        if step \<noteq> [] \<and> digits_value step \<le> 0 then Inl ''cron step must be positive''
        else if base = ''*'' then Inr ()
        else
          let (start_text, separator, end_text) = py_partition CHR ''-'' base in
          if \<not> digits start_text then Inl ''invalid literal for int() with base 10''
          else
            let start = digits_value start_text;
                stop = (if separator then digits_value end_text else start)
            in if start < minimum \<or> start > maximum \<or> stop < minimum \<or> stop > maximum
               then Inl ''cron value is outside its field bounds''
               else if separator \<and> start > stop then Inl ''cron ranges must be ascending''
               else Inr ())"

definition check_cron_field :: "string \<times> (int \<times> int) \<Rightarrow> string + unit" where
  "check_cron_field fb = (case fb of (field, minimum, maximum) \<Rightarrow>
     ebind (traverse (check_cron_part minimum maximum) (split_on CHR '','' field)) (\<lambda>_. Inr ()))"

text \<open>
  A time zone converts an instant to its wall time, and a wall time to the instant of its earlier fold.
  \<open>ZoneInfo(name)\<close> is a lookup that fails for a name it does not know.
\<close>

record zone =
  to_wall :: "instant \<Rightarrow> int"
  of_wall :: "int \<Rightarrow> instant"

type_synonym zoneinfo = "string \<Rightarrow> zone option"

definition validate_cron :: "zoneinfo \<Rightarrow> string \<Rightarrow> string \<Rightarrow> string + unit" where
  "validate_cron zi expression timezone =
     (let fields = py_split expression in
      if length fields \<noteq> 5 then Inl ''cron expression must contain exactly five fields''
      else ebind (traverse check_cron_field (zip fields cron_bounds)) (\<lambda>_.
        case zi timezone of None \<Rightarrow> Inl ''unknown IANA timezone'' | Some _ \<Rightarrow> Inr ()))"

section \<open>Instants of a recurrence\<close>

text \<open>A wall time that the zone skips has no instant.\<close>

definition resolved_wall_time :: "zone \<Rightarrow> int \<Rightarrow> instant option" where
  "resolved_wall_time z wall =
     (let candidate = of_wall z wall in if to_wall z candidate \<noteq> wall then None else Some candidate)"

text \<open>
  \<open>croniter(expression, local, day_or=True)\<close>: the \<open>n\<close>-th wall time of \<open>get_next\<close> or of \<open>get_prev\<close>; none
  when croniter raises because it finds no further match.
\<close>

record cron_source =
  walls_after :: "string \<Rightarrow> int \<Rightarrow> nat \<Rightarrow> int option"
  walls_before :: "string \<Rightarrow> int \<Rightarrow> nat \<Rightarrow> int option"

abbreviation field_error :: "string \<Rightarrow> exc" where
  "field_error f \<equiv> raise_with VALIDATION [(''field'', JStr f)]"

text \<open>The loop of 370 tries, here over the numbers of the tries.\<close>

fun cron_scan :: "(nat \<Rightarrow> int option) \<Rightarrow> zone \<Rightarrow> (instant \<Rightarrow> bool) \<Rightarrow> nat list \<Rightarrow> exc + instant" where
  "cron_scan walls z accept [] = Inl (field_error ''recurrence'')"
| "cron_scan walls z accept (n # ns) = (case walls n of
      None \<Rightarrow> Inl (PyException ''CroniterBadDateError'')
    | Some wall \<Rightarrow> (case resolved_wall_time z wall of
          None \<Rightarrow> cron_scan walls z accept ns
        | Some t \<Rightarrow> if accept t then Inr t else cron_scan walls z accept ns))"

definition cron_next :: "cron_source \<Rightarrow> string \<Rightarrow> zone \<Rightarrow> instant \<Rightarrow> exc + instant" where
  "cron_next cs expression z after =
     cron_scan (walls_after cs expression (to_wall z after)) z (\<lambda>t. t > after) [0..<370]"

definition cron_latest :: "cron_source \<Rightarrow> string \<Rightarrow> zone \<Rightarrow> instant \<Rightarrow> exc + instant" where
  "cron_latest cs expression z at_or_before =
     cron_scan (walls_before cs expression (to_wall z at_or_before + 1)) z (\<lambda>t. t \<le> at_or_before) [0..<370]"

text \<open>\<open>recurrence.get(..)\<close>, and the two reads every cron branch makes.\<close>

definition cron_fields :: "zoneinfo \<Rightarrow> jobj \<Rightarrow> exc + (string \<times> zone)" where
  "cron_fields zi recurrence = (case (dget recurrence ''expression'', dget recurrence ''timezone'') of
      (Some (JStr expression), Some (JStr timezone)) \<Rightarrow>
        (case validate_cron zi expression timezone of
           Inl m \<Rightarrow> Inl (field_error ''recurrence'')
         | Inr _ \<Rightarrow> (case zi timezone of
               None \<Rightarrow> Inl (PyException ''ZoneInfoNotFoundError'') | Some z \<Rightarrow> Inr (expression, z)))
    | _ \<Rightarrow> Inl (field_error ''recurrence''))"

definition next_instant :: "zoneinfo \<Rightarrow> cron_source \<Rightarrow> jobj \<Rightarrow> instant \<Rightarrow> exc + instant" where
  "next_instant zi cs recurrence after =
     (if dget recurrence ''kind'' = Some (JStr ''interval'')
      then case dget recurrence ''interval_seconds'' of
          Some (JInt n) \<Rightarrow>
            if between 60 31536000 n then Inr (after + seconds n) else Inl (field_error ''recurrence'')
        | _ \<Rightarrow> Inl (field_error ''recurrence'')
      else if dget recurrence ''kind'' = Some (JStr ''cron'')
      then ebind (cron_fields zi recurrence) (\<lambda>(expression, z). cron_next cs expression z after)
      else Inl (field_error ''recurrence''))"

text \<open>\<open>int.from_bytes(blake2b(schedule_id.bytes, digest_size=8).digest(), "big")\<close> is a parameter.\<close>

definition smear_offset_seconds :: "(uuid \<Rightarrow> nat) \<Rightarrow> uuid \<Rightarrow> int option \<Rightarrow> int" where
  "smear_offset_seconds digest schedule_id smear = (case smear of
      None \<Rightarrow> 0 | Some n \<Rightarrow> if n \<le> 0 then 0 else int (digest schedule_id) mod n)"

section \<open>Evaluation of a claim\<close>

record schedule_evaluation =
  se_occurrences :: "instant list"
  se_next_fire_at :: instant

definition aware_utc :: "clock \<Rightarrow> string \<Rightarrow> exc + instant" where
  "aware_utc c fld = (case c of Aware t \<Rightarrow> Inr t | Naive \<Rightarrow> Inl (field_error fld))"

text \<open>The loop of \<open>fire_all\<close>; \<open>room\<close> is how many occurrences may still be added.\<close>

fun fire_all :: "(instant \<Rightarrow> exc + instant) \<Rightarrow> instant \<Rightarrow> nat \<Rightarrow> instant \<Rightarrow> exc + instant list \<times> instant" where
  "fire_all nxt cutoff 0 cursor = Inr ([], cursor)"
| "fire_all nxt cutoff (Suc room) cursor =
     (if cursor \<le> cutoff
      then ebind (nxt cursor) (\<lambda>c. ebind (fire_all nxt cutoff room c) (\<lambda>(os, e). Inr (cursor # os, e)))
      else Inr ([], cursor))"

text \<open>
  The latest occurrence for \<open>fire_once\<close>.  The floor division of \<open>total_seconds()\<close> is exact for the spans
  below 272 years, where a float keeps the microseconds apart.
\<close>

definition latest_instant :: "zoneinfo \<Rightarrow> cron_source \<Rightarrow> jobj \<Rightarrow> instant \<Rightarrow> instant \<Rightarrow> exc + instant" where
  "latest_instant zi cs recurrence due cutoff =
     (if dget recurrence ''kind'' = Some (JStr ''interval'')
      then case dget recurrence ''interval_seconds'' of
          Some (JInt n) \<Rightarrow>
            if n = 0 then Inl (PyException ''ZeroDivisionError'')
            else let missed = (cutoff - due) div seconds n in Inr (due + seconds (missed * n))
        | _ \<Rightarrow> Inl (field_error ''recurrence'')
      else ebind (cron_fields zi recurrence) (\<lambda>(expression, z). cron_latest cs expression z cutoff))"

definition evaluate_base ::
  "zoneinfo \<Rightarrow> cron_source \<Rightarrow> jobj \<Rightarrow> string \<Rightarrow> int \<Rightarrow> bool \<Rightarrow> clock \<Rightarrow> clock \<Rightarrow> exc + schedule_evaluation" where
  "evaluate_base zi cs recurrence policy max_catchup initialized next_fire_at as_of =
     ebind (aware_utc next_fire_at ''next_fire_at'') (\<lambda>due.
     ebind (aware_utc as_of ''as_of'') (\<lambda>cutoff.
       if due > cutoff \<or> \<not> between 1 100 max_catchup then Inl (field_error ''schedule_claim'')
       else if \<not> initialized \<or> policy = ''skip''
       then ebind (next_instant zi cs recurrence cutoff) (\<lambda>t.
              Inr \<lparr>se_occurrences = [], se_next_fire_at = t\<rparr>)
       else if policy = ''fire_once''
       then ebind (latest_instant zi cs recurrence due cutoff) (\<lambda>latest.
              if latest < due then Inl (field_error ''schedule_claim'')
              else ebind (next_instant zi cs recurrence cutoff) (\<lambda>t.
                Inr \<lparr>se_occurrences = [latest], se_next_fire_at = t\<rparr>))
       else if policy \<noteq> ''fire_all'' then Inl (field_error ''catchup_policy'')
       else ebind (fire_all (next_instant zi cs recurrence) cutoff (nat max_catchup) due) (\<lambda>(os, e).
              Inr \<lparr>se_occurrences = os, se_next_fire_at = e\<rparr>)))"

definition shift_clock :: "instant \<Rightarrow> clock \<Rightarrow> clock" where
  "shift_clock d c = (case c of Aware t \<Rightarrow> Aware (t + d) | Naive \<Rightarrow> Naive)"

definition evaluate_schedule ::
  "zoneinfo \<Rightarrow> cron_source \<Rightarrow> jobj \<Rightarrow> string \<Rightarrow> int \<Rightarrow> bool \<Rightarrow> clock \<Rightarrow> clock \<Rightarrow> int \<Rightarrow> exc + schedule_evaluation" where
  "evaluate_schedule zi cs recurrence policy max_catchup initialized next_fire_at as_of smear =
     (if smear \<noteq> 0
      then let off = seconds smear in
        ebind (evaluate_base zi cs recurrence policy max_catchup initialized
            (shift_clock (- off) next_fire_at) (shift_clock (- off) as_of)) (\<lambda>base.
          Inr \<lparr>se_occurrences = map (\<lambda>t. t + off) (se_occurrences base),
               se_next_fire_at = se_next_fire_at base + off\<rparr>)
      else evaluate_base zi cs recurrence policy max_catchup initialized next_fire_at as_of)"

end
