(* ===== verification/Scheduler.thy ===== *)
theory Scheduler
  imports Schedules FakeSchedule
begin

text \<open>
  \<open>scheduler.py\<close>: the engine that claims due schedules, evaluates them and fires them, the service that
  runs it once within a budget or until it is stopped, its settings, and the readiness report.  The
  queue is a record of operations over a state of its own, since the engine is written against the
  protocol \<open>HousekeeperTransport\<close>; \<open>SchedulerQueue\<close> gives it the fake client.  Time zones, croniter and
  the digest behind the smear offset are the record \<open>calendar\<close>.
\<close>

section \<open>What the engine reads of a claim\<close>

record due_schedule =
  ds_schedule_id :: uuid
  ds_definition_version :: int
  ds_as_of :: clock
  ds_recurrence :: jobj
  ds_catchup_policy :: catchup_policy
  ds_max_catchup :: int
  ds_initialized :: bool
  ds_next_fire_at :: clock
  ds_token :: uuid
  ds_smear_seconds :: "int option"

fun policy_value :: "catchup_policy \<Rightarrow> string" where
  "policy_value SKIP = ''skip''"
| "policy_value FIRE_ONCE = ''fire_once''"
| "policy_value FIRE_ALL = ''fire_all''"

text \<open>\<open>recurrence.model_dump(mode="json", exclude_none=True)\<close>\<close>

fun recurrence_dump :: "recurrence \<Rightarrow> jobj" where
  "recurrence_dump (Interval n) = [(''kind'', JStr ''interval''), (''interval_seconds'', JInt n)]"
| "recurrence_dump (Cron e z) = [(''kind'', JStr ''cron''), (''expression'', JStr e), (''timezone'', JStr z)]"

text \<open>The claim as the fake builds it; it leaves the smear to its default.\<close>

definition due_of_claim :: "schedule_claim \<Rightarrow> due_schedule" where
  "due_of_claim c =
     \<lparr>ds_schedule_id = sc_schedule_id c, ds_definition_version = sc_version c,
      ds_as_of = Aware (sc_as_of c), ds_recurrence = recurrence_dump (sc_recurrence c),
      ds_catchup_policy = sc_catchup_policy c, ds_max_catchup = sc_max_catchup c,
      ds_initialized = sc_initialized c, ds_next_fire_at = Aware (sc_next_fire_at c),
      ds_token = sc_token c, ds_smear_seconds = None\<rparr>"

section \<open>The engine\<close>

text \<open>\<open>type(exc).__name__\<close>\<close>

fun code_class :: "tq_code \<Rightarrow> string" where
  "code_class NOT_FOUND = ''TaskqNotFoundError''"
| "code_class OPERATOR_DENIED = ''TaskqOperatorDeniedError''"
| "code_class CONFLICT = ''TaskqConflictError''"
| "code_class VALIDATION = ''TaskqValidationError''"
| "code_class QUEUE_OWNER_DENIED = ''TaskqQueueOwnerDeniedError''"
| "code_class VERSION = ''TaskqVersionError''"
| "code_class BACKPRESSURE = ''TaskqBackpressureError''"
| "code_class INTERNAL = ''TaskqInternalError''"
| "code_class CAPABILITY = ''TaskqCapabilityError''"
| "code_class UNAVAILABLE = ''TaskqUnavailableError''"

fun exc_class :: "exc \<Rightarrow> string" where
  "exc_class (TaskqError e) = (if err_protocol e then ''TaskqProtocolError'' else code_class (err_code e))"
| "exc_class (ConfigError m) = ''TaskqConfigError''"
| "exc_class (InvalidFollowupError m) = ''InvalidFollowupError''"
| "exc_class (UnknownTaskError n) = ''UnknownTaskError''"
| "exc_class (ValidationError m) = ''ValidationError''"
| "exc_class (PyAssertionError m) = ''AssertionError''"
| "exc_class PyKeyError = ''KeyError''"
| "exc_class (PyException n) = n"

record calendar =
  cal_zones :: zoneinfo
  cal_cron :: cron_source
  cal_digest :: "uuid \<Rightarrow> nat"

record 's housekeeper =
  hk_tick :: "'s \<Rightarrow> (exc + unit) \<times> 's"
  hk_claim :: "string \<Rightarrow> int \<Rightarrow> int \<Rightarrow> 's \<Rightarrow> (exc + due_schedule list) \<times> 's"
  hk_fire :: "uuid \<Rightarrow> uuid \<Rightarrow> int \<Rightarrow> instant list \<Rightarrow> instant \<Rightarrow> 's \<Rightarrow> (exc + schedule_action_result) \<times> 's"
  hk_error :: "uuid \<Rightarrow> uuid \<Rightarrow> int \<Rightarrow> string \<Rightarrow> int \<Rightarrow> 's \<Rightarrow> (exc + schedule_action_result) \<times> 's"

record engine =
  en_worker_id :: string
  en_claim_limit :: int
  en_lease_seconds :: int
  en_error_retry_seconds :: int

definition evaluate_due :: "calendar \<Rightarrow> due_schedule \<Rightarrow> exc + schedule_evaluation" where
  "evaluate_due cal c = evaluate_schedule (cal_zones cal) (cal_cron cal) (ds_recurrence c)
     (policy_value (ds_catchup_policy c)) (ds_max_catchup c) (ds_initialized c) (ds_next_fire_at c)
     (ds_as_of c) (smear_offset_seconds (cal_digest cal) (ds_schedule_id c) (ds_smear_seconds c))"

text \<open>An exception of the queue ends the batch; the schedules not yet fired keep their claims.\<close>

definition on_answer :: "(exc + 'a) \<times> 's \<Rightarrow> ('a \<Rightarrow> 's \<Rightarrow> (exc + 'b) \<times> 's) \<Rightarrow> (exc + 'b) \<times> 's" where
  "on_answer m f = (case m of (Inl e, s) \<Rightarrow> (Inl e, s) | (Inr x, s) \<Rightarrow> f x s)"

lemma on_answer_simps [simp]: "on_answer (Inl e, s) f = (Inl e, s)" "on_answer (Inr x, s) f = f x s"
  by (simp_all add: on_answer_def)

definition handle_due :: "calendar \<Rightarrow> 's housekeeper \<Rightarrow> engine \<Rightarrow> due_schedule \<Rightarrow> 's \<Rightarrow> (exc + int \<times> int) \<times> 's" where
  "handle_due cal hk en c s = (case evaluate_due cal c of
      Inl e \<Rightarrow> on_answer (hk_error hk (ds_schedule_id c) (ds_token c) (ds_definition_version c)
          (''calendar:'' @ exc_class e) (en_error_retry_seconds en) s) (\<lambda>_ s1. (Inr (0, 1), s1))
    | Inr ev \<Rightarrow> on_answer (hk_fire hk (ds_schedule_id c) (ds_token c) (ds_definition_version c)
          (se_occurrences ev) (se_next_fire_at ev) s) (\<lambda>r s1. (Inr (sa_jobs_enqueued r, 0), s1)))"

fun process_claims ::
  "calendar \<Rightarrow> 's housekeeper \<Rightarrow> engine \<Rightarrow> due_schedule list \<Rightarrow> int \<Rightarrow> int \<Rightarrow> 's \<Rightarrow> (exc + int \<times> int) \<times> 's" where
  "process_claims cal hk en [] n m s = (Inr (n, m), s)"
| "process_claims cal hk en (c # cs) n m s = on_answer (handle_due cal hk en c s)
     (\<lambda>(j, e) s1. process_claims cal hk en cs (n + j) (m + e) s1)"

definition process_batch :: "calendar \<Rightarrow> 's housekeeper \<Rightarrow> engine \<Rightarrow> 's \<Rightarrow> (exc + int \<times> int \<times> int) \<times> 's" where
  "process_batch cal hk en s =
     on_answer (hk_claim hk (en_worker_id en) (en_claim_limit en) (en_lease_seconds en) s) (\<lambda>cs s1.
     on_answer (process_claims cal hk en cs 0 0 s1) (\<lambda>(fired, failed) s2.
       (Inr (int (length cs), fired, failed), s2)))"

section \<open>One bounded run\<close>

datatype run_outcome = NOTHING_DUE | FIRED | BUDGET_EXHAUSTED

record run_summary =
  ru_outcome :: run_outcome
  ru_batches :: int
  ru_schedules_claimed :: int
  ru_jobs_enqueued :: int
  ru_errors_recorded :: int

text \<open>What the loop reads before each batch: the time since its start, and the stop event.\<close>

record turn_reading =
  tr_elapsed :: rat
  tr_stopped :: bool

definition empty_summary :: run_summary where
  "empty_summary = \<lparr>ru_outcome = NOTHING_DUE, ru_batches = 0, ru_schedules_claimed = 0,
     ru_jobs_enqueued = 0, ru_errors_recorded = 0\<rparr>"

definition count_batch :: "int \<times> int \<times> int \<Rightarrow> run_summary \<Rightarrow> run_summary" where
  "count_batch b t = (case b of (claimed, fired, failed) \<Rightarrow>
     t\<lparr>ru_batches := ru_batches t + 1, ru_schedules_claimed := ru_schedules_claimed t + claimed,
       ru_jobs_enqueued := ru_jobs_enqueued t + fired,
       ru_errors_recorded := ru_errors_recorded t + failed\<rparr>)"

text \<open>The first argument is how many batches the budget still allows; \<open>t\<close> holds the running totals.\<close>

fun once_loop ::
  "nat \<Rightarrow> calendar \<Rightarrow> 's housekeeper \<Rightarrow> engine \<Rightarrow> rat \<Rightarrow> (nat \<Rightarrow> turn_reading) \<Rightarrow> run_summary \<Rightarrow> 's \<Rightarrow>
   (exc + run_summary) \<times> 's" where
  "once_loop 0 cal hk en budget rd t s = (Inr (t\<lparr>ru_outcome := BUDGET_EXHAUSTED\<rparr>), s)"
| "once_loop (Suc n) cal hk en budget rd t s =
     (let r = rd (nat (ru_batches t)) in
      if \<not> tr_elapsed r < budget \<or> tr_stopped r then (Inr (t\<lparr>ru_outcome := BUDGET_EXHAUSTED\<rparr>), s)
      else on_answer (process_batch cal hk en s) (\<lambda>b s1.
        if fst b = 0
        then (Inr (t\<lparr>ru_outcome := if ru_schedules_claimed t = 0 then NOTHING_DUE else FIRED\<rparr>), s1)
        else once_loop n cal hk en budget rd (count_batch b t) s1))"

definition run_once ::
  "calendar \<Rightarrow> 's housekeeper \<Rightarrow> engine \<Rightarrow> int \<Rightarrow> rat \<Rightarrow> bool \<Rightarrow> (nat \<Rightarrow> turn_reading) \<Rightarrow> 's \<Rightarrow>
   (exc + run_summary) \<times> 's" where
  "run_once cal hk en max_batches budget stopped rd s =
     (if max_batches < 1 \<or> budget \<le> 0 then (Inl (ConfigError ''once budgets must be positive''), s)
      else if stopped then (Inr empty_summary, s)
      else on_answer (hk_tick hk s) (\<lambda>_ s1.
        once_loop (nat max_batches) cal hk en budget rd empty_summary s1))"

section \<open>The service loop\<close>

record scheduler_service =
  ss_poll_interval :: rat
  ss_jitter :: rat
  ss_backoff_cap :: rat

text \<open>
  One cycle: whether it ended without an exception, which is all the loop looks at.  Cancelling the
  task leaves the loop and is not an answer of the queue.
\<close>

definition run_cycle :: "calendar \<Rightarrow> 's housekeeper \<Rightarrow> engine \<Rightarrow> bool \<Rightarrow> 's \<Rightarrow> bool \<times> 's" where
  "run_cycle cal hk en stopped_after_tick s = (case hk_tick hk s of
      (Inl e, s1) \<Rightarrow> (False, s1)
    | (Inr _, s1) \<Rightarrow>
        if stopped_after_tick then (True, s1)
        else (case process_batch cal hk en s1 of (Inl e, s2) \<Rightarrow> (False, s2) | (Inr b, s2) \<Rightarrow> (True, s2)))"

text \<open>The delay after a cycle and the next backoff.\<close>

definition cycle_delay :: "scheduler_service \<Rightarrow> bool \<Rightarrow> rat \<Rightarrow> rat \<times> rat" where
  "cycle_delay sv ok backoff =
     (if ok then (ss_poll_interval sv, ss_poll_interval sv)
      else (backoff, min (ss_backoff_cap sv) (max (ss_poll_interval sv) (backoff * 2))))"

text \<open>\<open>random.uniform(-jitter, jitter)\<close> is \<open>drift\<close>.\<close>

definition cycle_pause :: "rat \<Rightarrow> rat \<Rightarrow> rat" where
  "cycle_pause delay drift = max (1 / 100) (delay * (1 + drift))"

record cycle_reading =
  cy_stopped :: bool
  cy_stopped_after_tick :: bool
  cy_draw :: rat

text \<open>The loop over the readings of its cycles: the pauses it takes, until it finds the stop event set.\<close>

fun run_service ::
  "calendar \<Rightarrow> 's housekeeper \<Rightarrow> engine \<Rightarrow> scheduler_service \<Rightarrow> rat \<Rightarrow> cycle_reading list \<Rightarrow> 's \<Rightarrow> rat list \<times> 's" where
  "run_service cal hk en sv backoff [] s = ([], s)"
| "run_service cal hk en sv backoff (r # rs) s =
     (if cy_stopped r then ([], s)
      else case run_cycle cal hk en (cy_stopped_after_tick r) s of (ok, s1) \<Rightarrow>
        case cycle_delay sv ok backoff of (delay, backoff1) \<Rightarrow>
        case run_service cal hk en sv backoff1 rs s1 of (pauses, s2) \<Rightarrow>
          (cycle_pause delay (cy_draw r) # pauses, s2))"

section \<open>Settings\<close>

record scheduler_settings =
  sg_dsn :: string
  sg_expected_environment :: string
  sg_expected_installation_id :: "uuid option"
  sg_allow_production :: bool
  sg_worker_id :: "string option"
  sg_poll_interval :: rat
  sg_jitter :: rat
  sg_backoff_cap :: rat
  sg_claim_limit :: int
  sg_lease_seconds :: int
  sg_error_retry_seconds :: int
  sg_pool_size :: int

definition production_interlock :: "scheduler_settings \<Rightarrow> bool" where
  "production_interlock g \<longleftrightarrow> (sg_expected_environment g = ''production'' \<longrightarrow>
     sg_allow_production g \<and> sg_expected_installation_id g \<noteq> None)"

definition scheduler_settings_valid :: "scheduler_settings \<Rightarrow> bool" where
  "scheduler_settings_valid g \<longleftrightarrow>
     str_len 1 63 (sg_expected_environment g) \<and> opt_ok (str_len 1 200) (sg_worker_id g) \<and>
     1 / 10 \<le> sg_poll_interval g \<and> sg_poll_interval g \<le> 3600 \<and>
     0 \<le> sg_jitter g \<and> sg_jitter g \<le> 1 / 2 \<and>
     1 / 10 \<le> sg_backoff_cap g \<and> sg_backoff_cap g \<le> 3600 \<and>
     between 1 100 (sg_claim_limit g) \<and> between 5 300 (sg_lease_seconds g) \<and>
     between 1 3600 (sg_error_retry_seconds g) \<and> between 1 100 (sg_pool_size g) \<and>
     production_interlock g"

text \<open>The default worker name is made of the host name and the time.\<close>

definition scheduler_from_settings :: "string \<Rightarrow> scheduler_settings \<Rightarrow> engine \<times> scheduler_service" where
  "scheduler_from_settings default_id g =
     (\<lparr>en_worker_id = (case sg_worker_id g of None \<Rightarrow> default_id | Some w \<Rightarrow> if w = [] then default_id else w),
       en_claim_limit = sg_claim_limit g, en_lease_seconds = sg_lease_seconds g,
       en_error_retry_seconds = sg_error_retry_seconds g\<rparr>,
      \<lparr>ss_poll_interval = sg_poll_interval g, ss_jitter = sg_jitter g, ss_backoff_cap = sg_backoff_cap g\<rparr>)"

section \<open>The doctor\<close>

record target_identity =
  ti_installation_id :: uuid
  ti_environment :: string
  ti_capabilities :: jobj

text \<open>
  \<open>set(capabilities.get("active", []))\<close>: a set of the elements, which must be hashable, of the
  characters of a string, or of the keys of an object; nothing else is iterable.
\<close>

fun hashable :: "json \<Rightarrow> bool" where
  "hashable (JArr xs) = False"
| "hashable (JObj d) = False"
| "hashable j = True"

definition active_capabilities :: "jobj \<Rightarrow> exc + json list" where
  "active_capabilities d = (case dget d ''active'' of
      None \<Rightarrow> Inr []
    | Some (JArr xs) \<Rightarrow> if list_all hashable xs then Inr xs else Inl (PyException ''TypeError'')
    | Some (JStr cs) \<Rightarrow> Inr (map (\<lambda>c. JStr [c]) cs)
    | Some (JObj kvs) \<Rightarrow> Inr (map (\<lambda>(k, v). JStr k) kvs)
    | Some _ \<Rightarrow> Inl (PyException ''TypeError''))"

record 'h doctor_report =
  dr_ready :: bool
  dr_target :: target_identity
  dr_health :: "'h option"
  dr_issues :: "string list"

definition target_issues :: "string option \<Rightarrow> uuid option \<Rightarrow> bool \<Rightarrow> target_identity \<Rightarrow> string list" where
  "target_issues expected_environment expected_installation_id allow_production tg =
     (if ti_environment tg = ''unbound'' then [''target is unbound''] else []) @
     (case expected_environment of
        Some e \<Rightarrow> if e \<noteq> [] \<and> ti_environment tg \<noteq> e
          then [''target environment does not match the expected environment''] else []
      | None \<Rightarrow> []) @
     (case expected_installation_id of
        Some i \<Rightarrow> if ti_installation_id tg \<noteq> i
          then [''target installation does not match the expected installation''] else []
      | None \<Rightarrow> []) @
     (if ti_environment tg = ''production'' \<and> \<not> allow_production
      then [''production is not explicitly allowed''] else [])"

definition scheduler_doctor ::
  "('s \<Rightarrow> (exc + target_identity) \<times> 's) \<Rightarrow> ('s \<Rightarrow> (exc + 'h) \<times> 's) \<Rightarrow> string option \<Rightarrow> uuid option \<Rightarrow> bool \<Rightarrow>
   's \<Rightarrow> (exc + 'h doctor_report) \<times> 's" where
  "scheduler_doctor get_identity get_health expected_environment expected_installation_id allow_production s =
     on_answer (get_identity s) (\<lambda>tg s1. case active_capabilities (ti_capabilities tg) of
       Inl e \<Rightarrow> (Inl e, s1)
     | Inr active \<Rightarrow>
         let found = target_issues expected_environment expected_installation_id allow_production tg @
               (if JStr ''target_attestation'' \<notin> set active
                then [''target_attestation capability is not active''] else [])
         in if JStr ''scheduler_v2'' \<notin> set active
            then (let issues = found @ [''scheduler_v2 capability is not active'']
              in Inr \<lparr>dr_ready = (issues = []), dr_target = tg, dr_health = None, dr_issues = issues\<rparr>, s1)
            else on_answer (get_health s1) (\<lambda>h s2.
                   (Inr \<lparr>dr_ready = (found = []), dr_target = tg, dr_health = Some h, dr_issues = found\<rparr>, s2)))"

end
