(* ===== verification/ScheduleProps.thy ===== *)
theory ScheduleProps
  imports Schedules
begin

text \<open>
  Properties of the evaluation of schedules: what may be fired and when the schedule is next due, that
  catching up over several claims loses nothing, which errors there are, and what smearing does.
\<close>

section \<open>Recurrences that advance\<close>

text \<open>All the loop of \<open>fire_all\<close> relies on: the next instant is later.\<close>

locale advancing =
  fixes nxt :: "instant \<Rightarrow> exc + instant"
  assumes advances: "nxt t = Inr t' \<Longrightarrow> t < t'"
begin

lemma fire_all_sound:
  "fire_all nxt cutoff n c = Inr (os, e) \<Longrightarrow>
   length os \<le> n \<and> sorted_wrt (<) (os @ [e]) \<and> (\<forall>t \<in> set os. c \<le> t \<and> t \<le> cutoff) \<and> c \<le> e \<and>
   (cutoff < e \<or> length os = n)"
proof (induction n arbitrary: c os)
  case 0
  then show ?case by simp
next
  case (Suc n)
  show ?case
  proof (cases "c \<le> cutoff")
    case True
    obtain c' os' where c: "nxt c = Inr c'" "fire_all nxt cutoff n c' = Inr (os', e)" "os = c # os'"
      using Suc.prems True by (auto simp: ebind_Inr_iff)
    note ih = Suc.IH [OF c(2)] and lt = advances [OF c(1)]
    have "\<forall>t \<in> set os'. c < t" using ih lt by auto
    moreover have "c < e" using ih lt by auto
    ultimately show ?thesis using ih lt c(3) True by (auto simp: sorted_wrt_append less_imp_le)
  next
    case False
    then show ?thesis using Suc.prems by auto
  qed
qed

lemma fire_all_nonempty:
  "fire_all nxt cutoff (Suc n) c = Inr (os, e) \<Longrightarrow> c \<le> cutoff \<Longrightarrow> \<exists>rest. os = c # rest"
  by (auto simp: ebind_Inr_iff)

text \<open>Stopping after some occurrences and going on from where the loop stopped changes nothing.\<close>

lemma fire_all_resume:
  "fire_all nxt cutoff (m + n) c = ebind (fire_all nxt cutoff m c) (\<lambda>(os, e).
     ebind (fire_all nxt cutoff n e) (\<lambda>(os', e'). Inr (os @ os', e')))"
proof (induction m arbitrary: c)
  case 0
  then show ?case by (cases "fire_all nxt cutoff n c") auto
next
  case (Suc m)
  show ?case
  proof (cases "c \<le> cutoff")
    case True
    show ?thesis
      using True Suc.IH by (cases "nxt c"; cases "fire_all nxt cutoff m (projr (nxt c))")
        (auto simp: ebind_def split: sum.splits prod.splits)
  next
    case False
    then show ?thesis by (cases n) auto
  qed
qed

end

lemma cron_scan_Inr: "cron_scan walls z accept ns = Inr t \<Longrightarrow> accept t"
  by (induction ns) (auto split: option.splits if_splits)

lemma next_instant_advances: "next_instant zi cs recurrence t = Inr t' \<Longrightarrow> t < t'"
  by (auto simp: next_instant_def seconds_def between_def ebind_Inr_iff cron_next_def dest: cron_scan_Inr
      split: option.splits json.splits if_splits prod.splits)

interpretation recurring: advancing "next_instant zi cs recurrence" for zi cs recurrence
  by unfold_locales (rule next_instant_advances)

section \<open>What an evaluation fires\<close>

definition evaluation_ok :: "string \<Rightarrow> bool \<Rightarrow> int \<Rightarrow> instant \<Rightarrow> instant \<Rightarrow> schedule_evaluation \<Rightarrow> bool" where
  "evaluation_ok policy initialized max_catchup due now ev \<longleftrightarrow>
     int (length (se_occurrences ev)) \<le> max_catchup \<and>
     sorted_wrt (<) (se_occurrences ev @ [se_next_fire_at ev]) \<and>
     (\<forall>t \<in> set (se_occurrences ev). due \<le> t \<and> t \<le> now) \<and>
     (now < se_next_fire_at ev \<or>
        policy = ''fire_all'' \<and> initialized \<and> int (length (se_occurrences ev)) = max_catchup)"

lemma latest_instant_before:
  assumes "latest_instant zi cs recurrence due cutoff = Inr l" and "next_instant zi cs recurrence cutoff = Inr t"
  shows "l \<le> cutoff"
proof (cases "dget recurrence ''kind'' = Some (JStr ''interval'')")
  case True
  obtain n where n: "dget recurrence ''interval_seconds'' = Some (JInt n)" "between 60 31536000 n"
      "l = due + seconds ((cutoff - due) div seconds n * n)"
    using assms True
    by (auto simp: latest_instant_def next_instant_def Let_def split: option.splits json.splits if_splits)
  have "0 < seconds n" using n(2) by (simp add: seconds_def between_def)
  then have "(cutoff - due) div seconds n * seconds n \<le> cutoff - due"
    by (metis div_mult_mod_eq le_add_same_cancel1 pos_mod_sign)
  moreover have "seconds ((cutoff - due) div seconds n * n) = (cutoff - due) div seconds n * seconds n"
    by (simp add: seconds_def)
  ultimately show ?thesis using n(3) by linarith
next
  case False
  then show ?thesis
    using assms(1) by (auto simp: latest_instant_def ebind_Inr_iff cron_latest_def dest: cron_scan_Inr)
qed

lemma evaluate_base_ok:
  assumes "evaluate_base zi cs recurrence policy max_catchup initialized (Aware due) (Aware now) = Inr ev"
  shows "evaluation_ok policy initialized max_catchup due now ev"
proof -
  have pre: "due \<le> now" "between 1 100 max_catchup"
    using assms by (auto simp: evaluate_base_def aware_utc_def split: if_splits)
  note unf = assms [unfolded evaluate_base_def aware_utc_def clock.case ebind_simps]
  consider "\<not> initialized \<or> policy = ''skip''" | "initialized" "policy = ''fire_once''"
    | "initialized" "policy \<noteq> ''skip''" "policy \<noteq> ''fire_once''" by blast
  then show ?thesis
  proof cases
    case 1
    then obtain t where "next_instant zi cs recurrence now = Inr t" "ev = \<lparr>se_occurrences = [], se_next_fire_at = t\<rparr>"
      using unf pre by (auto simp: ebind_Inr_iff)
    then show ?thesis using pre recurring.advances by (simp add: evaluation_ok_def between_def)
  next
    case 2
    then obtain l t where l: "latest_instant zi cs recurrence due now = Inr l" "due \<le> l"
        "next_instant zi cs recurrence now = Inr t" "ev = \<lparr>se_occurrences = [l], se_next_fire_at = t\<rparr>"
      using unf pre by (auto simp: ebind_Inr_iff split: if_splits)
    then show ?thesis
      using pre recurring.advances [OF l(3)] latest_instant_before [OF l(1,3)]
      by (simp add: evaluation_ok_def between_def)
  next
    case 3
    then obtain os e where e: "policy = ''fire_all''"
        "fire_all (next_instant zi cs recurrence) now (nat max_catchup) due = Inr (os, e)"
        "ev = \<lparr>se_occurrences = os, se_next_fire_at = e\<rparr>"
      using unf pre by (auto simp: ebind_Inr_iff split: if_splits)
    then show ?thesis
      using 3(1) pre recurring.fire_all_sound [OF e(2)] by (auto simp: evaluation_ok_def between_def)
  qed
qed

text \<open>
  C38: An evaluation never fires early, twice or without bound: the occurrences are strictly increasing,
  between the due instant and the instant of the claim, at most \<open>max_catchup\<close> of them, and before
  the next due instant, which lies after the claim unless \<open>fire_all\<close> has used up its catch-up.
  This holds for every time zone, cron source and smear offset.
\<close>

theorem evaluation_sound:
  assumes "evaluate_schedule zi cs recurrence policy max_catchup initialized (Aware due) (Aware now) smear = Inr ev"
  shows "evaluation_ok policy initialized max_catchup due now ev"
proof (cases "smear = 0")
  case True
  then show ?thesis using assms evaluate_base_ok by (simp add: evaluate_schedule_def)
next
  case False
  let ?d = "seconds smear"
  obtain base where base: "evaluate_base zi cs recurrence policy max_catchup initialized
      (Aware (due - ?d)) (Aware (now - ?d)) = Inr base"
      "ev = \<lparr>se_occurrences = map (\<lambda>t. t + ?d) (se_occurrences base), se_next_fire_at = se_next_fire_at base + ?d\<rparr>"
    using assms False by (auto simp: evaluate_schedule_def shift_clock_def ebind_Inr_iff Let_def)
  show ?thesis
    using evaluate_base_ok [OF base(1)] unfolding base(2) evaluation_ok_def
    by (auto simp: sorted_wrt_append sorted_wrt_map)
qed

definition hourly :: jobj where
  "hourly = [(''kind'', JStr ''interval''), (''interval_seconds'', JInt 3600)]"

definition no_cron :: cron_source where
  "no_cron = \<lparr>walls_after = (\<lambda>_ _ _. None), walls_before = (\<lambda>_ _ _. None)\<rparr>"

lemma hourly_evaluated:
  "evaluate_schedule (\<lambda>_. None) no_cron hourly ''fire_all'' 2 True (Aware 0) (Aware (seconds 9000)) 90 =
     Inr \<lparr>se_occurrences = [0, seconds 3600], se_next_fire_at = seconds 7200\<rparr>"
  by (simp add: evaluate_schedule_def evaluate_base_def aware_utc_def shift_clock_def next_instant_def hourly_def
      between_def seconds_def numeral_2_eq_2)

theorem evaluation_sound_witness:
  "evaluation_ok ''fire_all'' True 2 0 (seconds 9000)
     \<lparr>se_occurrences = [0, seconds 3600], se_next_fire_at = seconds 7200\<rparr>"
  by (rule evaluation_sound [OF hourly_evaluated])

text \<open>
  Catching up over several claims is the same as catching up at once: when a \<open>fire_all\<close> claim stops
  at its limit, the claim that resumes from the stored next instant yields exactly the remaining
  occurrences, so none is lost or repeated.
\<close>

theorem catchup_resumes:
  assumes "evaluate_schedule zi cs recurrence ''fire_all'' m True (Aware due) (Aware now) smear = Inr ev1"
    and "evaluate_schedule zi cs recurrence ''fire_all'' n True (Aware (se_next_fire_at ev1)) (Aware now) smear = Inr ev2"
    and "m + n \<le> 100"
  shows "evaluate_schedule zi cs recurrence ''fire_all'' (m + n) True (Aware due) (Aware now) smear =
    Inr \<lparr>se_occurrences = se_occurrences ev1 @ se_occurrences ev2, se_next_fire_at = se_next_fire_at ev2\<rparr>"
proof -
  have base: "evaluate_base zi cs recurrence ''fire_all'' (m + n) True (Aware d) (Aware c) =
      Inr \<lparr>se_occurrences = se_occurrences e1 @ se_occurrences e2, se_next_fire_at = se_next_fire_at e2\<rparr>"
    if a: "evaluate_base zi cs recurrence ''fire_all'' m True (Aware d) (Aware c) = Inr e1"
      "evaluate_base zi cs recurrence ''fire_all'' n True (Aware (se_next_fire_at e1)) (Aware c) = Inr e2" for d c e1 e2
  proof -
    obtain os e where e1: "fire_all (next_instant zi cs recurrence) c (nat m) d = Inr (os, e)"
        "e1 = \<lparr>se_occurrences = os, se_next_fire_at = e\<rparr>" "d \<le> c" "between 1 100 m"
      using a(1) by (auto simp: evaluate_base_def aware_utc_def ebind_Inr_iff split: if_splits)
    obtain os' e' where e2: "fire_all (next_instant zi cs recurrence) c (nat n) e = Inr (os', e')"
        "e2 = \<lparr>se_occurrences = os', se_next_fire_at = e'\<rparr>" "between 1 100 n"
      using a(2) e1(2) by (auto simp: evaluate_base_def aware_utc_def ebind_Inr_iff split: if_splits)
    have "nat (m + n) = nat m + nat n" using e1(4) e2(3) by (simp add: between_def nat_add_distrib)
    then have "fire_all (next_instant zi cs recurrence) c (nat (m + n)) d = Inr (os @ os', e')"
      using recurring.fire_all_resume [of zi cs recurrence c "nat m" "nat n" d] e1(1) e2(1) by simp
    moreover have "between 1 100 (m + n)" using assms(3) e1(4) e2(3) by (simp add: between_def)
    ultimately show ?thesis using e1 e2 by (simp add: evaluate_base_def aware_utc_def)
  qed
  show ?thesis
  proof (cases "smear = 0")
    case True
    then show ?thesis using assms(1,2) base by (simp add: evaluate_schedule_def)
  next
    case False
    let ?d = "seconds smear"
    let ?up = "\<lambda>b. \<lparr>se_occurrences = map (\<lambda>t. t + ?d) (se_occurrences b), se_next_fire_at = se_next_fire_at b + ?d\<rparr>"
    obtain b1 where b1: "evaluate_base zi cs recurrence ''fire_all'' m True (Aware (due - ?d)) (Aware (now - ?d)) = Inr b1"
        "ev1 = ?up b1"
      using assms(1) False by (auto simp: evaluate_schedule_def shift_clock_def ebind_Inr_iff Let_def)
    obtain b2 where b2: "evaluate_base zi cs recurrence ''fire_all'' n True (Aware (se_next_fire_at b1)) (Aware (now - ?d)) = Inr b2"
        "ev2 = ?up b2"
      using assms(2) b1(2) False by (auto simp: evaluate_schedule_def shift_clock_def ebind_Inr_iff Let_def)
    show ?thesis
      using base [OF b1(1) b2(1)] False b1(2) b2(2) by (simp add: evaluate_schedule_def shift_clock_def Let_def)
  qed
qed

theorem catchup_resumes_witness:
  "evaluate_schedule (\<lambda>_. None) no_cron hourly ''fire_all'' 3 True (Aware 0) (Aware (seconds 9000)) 90 =
     Inr \<lparr>se_occurrences = [0, seconds 3600, seconds 7200], se_next_fire_at = seconds 10800\<rparr>"
proof -
  have rest: "evaluate_schedule (\<lambda>_. None) no_cron hourly ''fire_all'' 1 True
      (Aware (se_next_fire_at \<lparr>se_occurrences = [0, seconds 3600], se_next_fire_at = seconds 7200\<rparr>))
      (Aware (seconds 9000)) 90 = Inr \<lparr>se_occurrences = [seconds 7200], se_next_fire_at = seconds 10800\<rparr>"
    by (simp add: evaluate_schedule_def evaluate_base_def aware_utc_def shift_clock_def next_instant_def hourly_def
        between_def seconds_def)
  show ?thesis using catchup_resumes [OF hourly_evaluated rest] by simp
qed

section \<open>Errors\<close>

lemma cron_scan_Inl:
  "cron_scan walls z accept ns = Inl e \<Longrightarrow> e = field_error ''recurrence'' \<or> e = PyException ''CroniterBadDateError''"
  by (induction ns) (auto split: option.splits if_splits)

lemma cron_fields_Inl: "cron_fields zi recurrence = Inl e \<Longrightarrow> e = field_error ''recurrence''"
  by (auto simp: cron_fields_def validate_cron_def Let_def ebind_Inl_iff ebind_Inr_iff
      split: option.splits json.splits sum.splits if_splits)

definition calendar_error :: "exc \<Rightarrow> bool" where
  "calendar_error e \<longleftrightarrow> (\<exists>f. e = field_error f) \<or> e = PyException ''CroniterBadDateError''"

lemma next_instant_Inl: "next_instant zi cs recurrence t = Inl e \<Longrightarrow> calendar_error e"
  by (auto simp: next_instant_def ebind_Inl_iff cron_next_def calendar_error_def
      dest!: cron_scan_Inl cron_fields_Inl split: option.splits json.splits if_splits)

lemma latest_instant_Inl:
  "latest_instant zi cs recurrence due now = Inl e \<Longrightarrow> calendar_error e \<or>
    e = PyException ''ZeroDivisionError'' \<and> dget recurrence ''kind'' = Some (JStr ''interval'') \<and>
    dget recurrence ''interval_seconds'' = Some (JInt 0)"
  by (auto simp: latest_instant_def ebind_Inl_iff cron_latest_def calendar_error_def Let_def
      dest!: cron_scan_Inl cron_fields_Inl split: option.splits json.splits if_splits)

lemma fire_all_Inl:
  "fire_all (next_instant zi cs recurrence) now n c = Inl e \<Longrightarrow> calendar_error e"
  by (induction n arbitrary: c) (auto simp: ebind_Inl_iff dest: next_instant_Inl split: if_splits)

text \<open>
  The only errors of an evaluation are a \<open>TaskqValidationError\<close> that names the offending field,
  croniter's own error when an expression never matches, and a division by zero, which needs
  \<open>fire_once\<close> and an interval of zero seconds.
\<close>

theorem evaluation_errors:
  assumes "evaluate_schedule zi cs recurrence policy max_catchup initialized due now smear = Inl e"
  shows "calendar_error e \<or> e = PyException ''ZeroDivisionError'' \<and> initialized \<and> policy = ''fire_once'' \<and>
    dget recurrence ''kind'' = Some (JStr ''interval'') \<and> dget recurrence ''interval_seconds'' = Some (JInt 0)"
proof -
  have base: "calendar_error e \<or> e = PyException ''ZeroDivisionError'' \<and> initialized \<and> policy = ''fire_once'' \<and>
      dget recurrence ''kind'' = Some (JStr ''interval'') \<and> dget recurrence ''interval_seconds'' = Some (JInt 0)"
    if a: "evaluate_base zi cs recurrence policy max_catchup initialized d n = Inl e" for d n
  proof -
    have fld: "calendar_error (field_error f)" for f by (auto simp: calendar_error_def)
    show ?thesis
      using a fld unfolding evaluate_base_def ebind_Inl_iff
      by (auto simp: aware_utc_def ebind_Inl_iff dest: next_instant_Inl latest_instant_Inl fire_all_Inl
          split: clock.splits if_splits)
  qed
  show ?thesis
    using assms base by (auto simp: evaluate_schedule_def Let_def ebind_Inl_iff split: if_splits)
qed

theorem evaluation_errors_witness:
  "evaluate_schedule (\<lambda>_. None) no_cron [(''kind'', JStr ''interval''), (''interval_seconds'', JInt 0)]
     ''fire_once'' 1 True (Aware 0) (Aware 5) 0 = Inl (PyException ''ZeroDivisionError'') \<and>
   \<not> calendar_error (PyException ''ZeroDivisionError'')"
proof -
  have e: "evaluate_schedule (\<lambda>_. None) no_cron [(''kind'', JStr ''interval''), (''interval_seconds'', JInt 0)]
     ''fire_once'' 1 True (Aware 0) (Aware 5) 0 = Inl (PyException ''ZeroDivisionError'')"
    by (simp add: evaluate_schedule_def evaluate_base_def aware_utc_def between_def latest_instant_def)
  show ?thesis using evaluation_errors [OF e] e by (simp add: calendar_error_def)
qed

section \<open>Intervals and smearing\<close>

definition is_interval :: "jobj \<Rightarrow> int \<Rightarrow> bool" where
  "is_interval recurrence n \<longleftrightarrow> dget recurrence ''kind'' = Some (JStr ''interval'') \<and>
     dget recurrence ''interval_seconds'' = Some (JInt n) \<and> between 60 31536000 n"

lemma interval_next: "is_interval recurrence n \<Longrightarrow> next_instant zi cs recurrence = (\<lambda>t. Inr (t + seconds n))"
  by (rule ext) (simp add: is_interval_def next_instant_def)

lemma interval_fire_all:
  "fire_all (\<lambda>t. Inr (t + s)) (cutoff + d) k (c + d) =
    ebind (fire_all (\<lambda>t. Inr (t + s)) cutoff k c) (\<lambda>(os, e). Inr (map (\<lambda>t. t + d) os, e + d))"
proof (induction k arbitrary: c)
  case (Suc k)
  have e: "c + s + d = c + d + s" by simp
  show ?case
    using Suc.IH [of "c + s", unfolded e] by (cases "fire_all (\<lambda>t. Inr (t + s) :: exc + instant) cutoff k (c + s)") auto
qed simp

text \<open>
  An interval schedule that skips or fires once is next due one whole interval after the claim, not
  after the instant that was due, so its cadence moves with the time of the claim; and smearing has
  no effect on any interval schedule.
\<close>

theorem interval_schedules_follow_the_claim:
  assumes "is_interval recurrence n"
    and "evaluate_schedule zi cs recurrence policy max_catchup initialized (Aware due) (Aware now) smear = Inr ev"
  shows "evaluate_schedule zi cs recurrence policy max_catchup initialized (Aware due) (Aware now) 0 = Inr ev \<and>
    (policy = ''fire_all'' \<and> initialized \<or> se_next_fire_at ev = now + seconds n)"
proof -
  have shift: "evaluate_base zi cs recurrence policy max_catchup initialized (Aware (due + d)) (Aware (now + d)) =
      ebind (evaluate_base zi cs recurrence policy max_catchup initialized (Aware due) (Aware now)) (\<lambda>b.
        Inr \<lparr>se_occurrences = map (\<lambda>t. t + d) (se_occurrences b), se_next_fire_at = se_next_fire_at b + d\<rparr>)" for d
  proof -
    have l: "latest_instant zi cs recurrence (due + d) (now + d) =
        ebind (latest_instant zi cs recurrence due now) (\<lambda>t. Inr (t + d))"
      using assms(1) by (auto simp: latest_instant_def is_interval_def Let_def)
    obtain x where x: "latest_instant zi cs recurrence due now = Inr x"
      using assms(1) by (auto simp: latest_instant_def is_interval_def between_def Let_def)
    show ?thesis
      unfolding evaluate_base_def aware_utc_def clock.case ebind_simps interval_next [OF assms(1)] l
        interval_fire_all x
      by (cases "fire_all (\<lambda>t. Inr (t + seconds n) :: exc + instant) now (nat max_catchup) due") auto
  qed
  have ev: "evaluate_base zi cs recurrence policy max_catchup initialized (Aware due) (Aware now) = Inr ev"
  proof (cases "smear = 0")
    case True
    then show ?thesis using assms(2) by (simp add: evaluate_schedule_def)
  next
    case False
    then show ?thesis
      using assms(2) shift [of "- seconds smear"]
      by (auto simp: evaluate_schedule_def shift_clock_def Let_def ebind_Inr_iff comp_def)
  qed
  then have "evaluate_schedule zi cs recurrence policy max_catchup initialized (Aware due) (Aware now) 0 = Inr ev"
    by (simp add: evaluate_schedule_def)
  moreover have "policy = ''fire_all'' \<and> initialized \<or> se_next_fire_at ev = now + seconds n"
    using ev interval_next [OF assms(1)]
    by (auto simp: evaluate_base_def aware_utc_def ebind_Inr_iff split: if_splits)
  ultimately show ?thesis by blast
qed

theorem interval_schedules_follow_the_claim_witness:
  "\<exists>ev. evaluate_schedule (\<lambda>_. None) no_cron hourly ''fire_once'' 1 True (Aware 0) (Aware (seconds 3601)) 90 = Inr ev \<and>
     se_next_fire_at ev = seconds 7201 \<and>
     evaluate_schedule (\<lambda>_. None) no_cron hourly ''fire_once'' 1 True (Aware 0) (Aware (seconds 3601)) 0 = Inr ev"
proof -
  have i: "is_interval hourly 3600" by (simp add: is_interval_def hourly_def between_def)
  have e: "evaluate_schedule (\<lambda>_. None) no_cron hourly ''fire_once'' 1 True (Aware 0) (Aware (seconds 3601)) 90 =
     Inr \<lparr>se_occurrences = [seconds 3600], se_next_fire_at = seconds 7201\<rparr>"
    by (simp add: evaluate_schedule_def evaluate_base_def aware_utc_def shift_clock_def next_instant_def
        latest_instant_def hourly_def between_def seconds_def)
  show ?thesis using interval_schedules_follow_the_claim [OF i e] e by simp
qed

end
