(* ===== verification/FakeDraws.thy ===== *)
theory FakeDraws
  imports FakeFence
begin

text \<open>
  No call of the fake takes a draw back, and so the invariant holds along any sequence of calls whose
  last state has drawn distinct values.
\<close>

section \<open>Draws only grow\<close>

lemma ensure_open_drawn: "drawn st \<le> drawn (snd r) \<Longrightarrow> drawn st \<le> drawn (snd (ensure_open st r))"
  by (simp add: ensure_open_def)

lemma with_now_drawn:
  "drawn st \<le> drawn st' \<Longrightarrow> (\<And>now. drawn st \<le> drawn (snd (f now))) \<Longrightarrow>
   drawn st \<le> drawn (snd (with_now clk st' f))"
  by (cases clk) simp_all

lemma rbind_drawn:
  assumes "drawn st \<le> drawn (snd m)" and "\<And>a st1. drawn st1 \<le> drawn (snd (f a st1))"
  shows "drawn st \<le> drawn (snd (rbind m f))"
proof (cases m)
  case (Pair r st1)
  then show ?thesis using assms(1) order_trans [OF _ assms(2)] by (cases r) simp_all
qed

lemma finish_then_drawn: "drawn st \<le> drawn (snd (rbind (finish j v s it oc ca t st) (\<lambda>_ st1. (r, st1))))"
  by (rule rbind_drawn) simp_all

lemma settle_drawn: "drawn st \<le> drawn (snd (settle us i a wk c st))"
proof (cases c)
  case (Completing res fs pol)
  have m: "drawn st \<le> drawn (snd (rbind (plan_children us job w fs {} st) f))"
    if "\<And>a st1. drawn st1 \<le> drawn (snd (f a st1))" for job w f
    by (rule rbind_drawn [OF plan_children_drawn that])
  show ?thesis
    unfolding Completing settle.simps complete_def
    by (intro ensure_open_drawn)
      (auto split: sum.split intro!: m rbind_drawn)
next
  case (Failing clk e rt ra p)
  have "drawn st \<le> drawn (snd (rbind (finish j v s it oc ca t (put_job k st)) (\<lambda>_ st1. (r, st1))))" for j v s it oc ca t k r
    using finish_then_drawn [of "put_job k st" j v s it oc ca t r] by (simp add: put_job_def)
  then show ?thesis
    unfolding Failing settle.simps fail_def Let_def
    by (intro ensure_open_drawn) (auto split: sum.split intro!: with_now_drawn simp: put_job_def)
next
  case (Snoozing clk d r p)
  then show ?thesis
    unfolding Snoozing settle.simps snooze_def Let_def
    by (intro ensure_open_drawn) (auto split: sum.split intro!: with_now_drawn finish_then_drawn)
next
  case (Releasing clk ca d)
  then show ?thesis
    unfolding Releasing settle.simps release_def Let_def
    by (intro ensure_open_drawn) (auto split: sum.split intro!: with_now_drawn finish_then_drawn)
next
  case (CancellingRun r)
  then show ?thesis
    unfolding CancellingRun settle.simps cancel_running_def Let_def
    by (intro ensure_open_drawn) (auto split: sum.split intro!: finish_then_drawn)
qed

lemma admission_put_drawn [simp]: "drawn (admission_put k a st) = drawn st"
  by (simp add: admission_put_def)

lemma put_sched_drawn [simp]: "drawn (put_sched x st) = drawn st"
  by (simp add: put_sched_def)

lemma put_workflow_drawn [simp]: "drawn (put_workflow x st) = drawn st"
  by (simp add: put_workflow_def)

lemma claim_schedule_scan_drawn:
  "drawn st \<le> drawn (snd (claim_schedule_scan us now l le ss cs st))"
proof (induction ss arbitrary: cs st)
  case (Cons s ss)
  have "drawn st \<le> drawn (snd (claim_schedule_scan us now l le ss cs' (put_sched x (draw st))))" for cs' x
    using Cons [of "put_sched x (draw st)" cs'] by simp
  then show ?case using Cons by (auto simp: Let_def)
qed simp

lemma perform_drawn: "drawn st \<le> drawn (perform w c st)"
proof (cases c)
  case (ReserveAdmission clk q k h hn ttl rttl)
  then show ?thesis
    by (auto simp: reserve_admission_def Let_def intro!: ensure_open_drawn with_now_drawn split: option.split)
next
  case (FinishAdmission clk q r)
  then show ?thesis
    by (auto simp: finish_admission_def Let_def enqueue_drawn_mono split: option.split admission_state.split sum.split
        intro!: ensure_open_drawn with_now_drawn rbind_drawn)
next
  case (CancelAdmission clk q k h)
  then show ?thesis
    by (auto simp: cancel_admission_def Let_def split: option.split admission_state.split
        intro!: ensure_open_drawn with_now_drawn)
next
  case (CreateWorkflow r)
  then show ?thesis
    by (auto simp: create_workflow_def Let_def split: option.split sum.split intro!: ensure_open_drawn)
next
  case (SealWorkflow wid)
  then show ?thesis
    by (auto simp: seal_workflow_def Let_def split: option.split intro!: ensure_open_drawn rbind_drawn)
next
  case (CancelWorkflow wid r)
  then show ?thesis
    by (auto simp: cancel_workflow_def Let_def split: option.split prod.split sum.split
        intro!: ensure_open_drawn rbind_drawn)
next
  case (ClaimJobs clk r)
  then show ?thesis
    by (auto simp: claim_def Let_def claim_scan_drawn split: option.split sum.split
        intro!: ensure_open_drawn with_now_drawn rbind_drawn)
next
  case (HeartbeatJob clk i a wk l)
  then show ?thesis
    by (auto simp: heartbeat_def Let_def split: option.split sum.split intro!: ensure_open_drawn with_now_drawn)
next
  case (CompleteJob i a wk r fs pol)
  then show ?thesis using settle_drawn [of st "w_ids w" i a wk "Completing r fs pol"] by simp
next
  case (FailJob clk i a wk e rt ra p)
  then show ?thesis using settle_drawn [of st "w_ids w" i a wk "Failing clk e rt ra p"] by simp
next
  case (SnoozeJob clk i a wk d r p)
  then show ?thesis using settle_drawn [of st "w_ids w" i a wk "Snoozing clk d r p"] by simp
next
  case (ReleaseJob clk i a wk ca d)
  then show ?thesis using settle_drawn [of st "w_ids w" i a wk "Releasing clk ca d"] by simp
next
  case (CancelRunning i a wk r)
  then show ?thesis using settle_drawn [of st "w_ids w" i a wk "CancellingRun r"] by simp
next
  case (PutSchedule clk n d v)
  then show ?thesis
    by (auto simp: put_schedule_def Let_def split: option.split intro!: ensure_open_drawn with_now_drawn)
next
  case (RetireSchedule n v)
  then show ?thesis
    by (auto simp: retire_schedule_def Let_def split: option.split intro!: ensure_open_drawn)
next
  case (ClaimSchedules clk l le)
  then show ?thesis
    by (auto simp: claim_schedules_def Let_def split_beta claim_schedule_scan_drawn
        intro!: ensure_open_drawn with_now_drawn)
next
  case (FireSchedule clk i t v oc nx)
  then show ?thesis
    by (auto simp: fire_schedule_def Let_def split_beta fire_occurrences_drawn split: sum.split option.split
        intro!: ensure_open_drawn with_now_drawn rbind_drawn)
next
  case (ScheduleError clk i t v n)
  then show ?thesis
    by (auto simp: schedule_error_def Let_def split: sum.split option.split intro!: ensure_open_drawn with_now_drawn)
next
  case (WorkerHeartbeat clk r)
  then show ?thesis
    by (auto simp: worker_heartbeat_def Let_def split: option.split intro!: ensure_open_drawn with_now_drawn)
qed (simp_all add: enqueue_drawn_mono enqueue_many_drawn_mono)

section \<open>Sequences of calls\<close>

definition perform_all :: "world \<Rightarrow> call list \<Rightarrow> fake \<Rightarrow> fake" where
  "perform_all w cs st = fold (perform w) cs st"

lemma perform_all_simps [simp]:
  "perform_all w [] st = st" "perform_all w (c # cs) st = perform_all w cs (perform w c st)"
  "perform_all w (cs @ ds) st = perform_all w ds (perform_all w cs st)"
  by (simp_all add: perform_all_def)

lemma perform_all_drawn: "drawn st \<le> drawn (perform_all w cs st)"
proof (induction cs arbitrary: st)
  case (Cons c cs)
  then show ?case using order_trans [OF perform_drawn [of st w c]] by simp
qed simp

lemma perform_all_sound:
  assumes "fake_inv (w_ids w) st" and "list_all call_ok cs"
    and "inj_on (w_ids w) {..<drawn (perform_all w cs st)}"
  shows "fake_inv (w_ids w) (perform_all w cs st) \<and> evolves (w_ids w) st (perform_all w cs st)"
  using assms
proof (induction cs arbitrary: st)
  case (Cons c cs)
  have "{..<drawn (perform w c st)} \<subseteq> {..<drawn (perform_all w cs (perform w c st))}"
    using perform_all_drawn [of "perform w c st" w cs] by auto
  then have "inj_on (w_ids w) {..<drawn (perform w c st)}"
    using Cons.prems(3) inj_on_subset by fastforce
  then have "fake_inv (w_ids w) (perform w c st) \<and> evolves (w_ids w) st (perform w c st)"
    using perform_sound Cons.prems by simp
  then show ?case using Cons evolves_trans by auto
qed simp

text \<open>The settlement verbs are calls.\<close>

fun call_of_settlement :: "uuid \<Rightarrow> uuid \<Rightarrow> string \<Rightarrow> settlement \<Rightarrow> call" where
  "call_of_settlement i a wk (Completing r fs pol) = CompleteJob i a wk r fs pol"
| "call_of_settlement i a wk (Failing clk e rt ra p) = FailJob clk i a wk e rt ra p"
| "call_of_settlement i a wk (Snoozing clk d rs p) = SnoozeJob clk i a wk d rs p"
| "call_of_settlement i a wk (Releasing clk ca d) = ReleaseJob clk i a wk ca d"
| "call_of_settlement i a wk (CancellingRun rs) = CancelRunning i a wk rs"

lemma settle_perform: "snd (settle (w_ids w) i a wk c st) = perform w (call_of_settlement i a wk c) st"
  by (cases c) simp_all

lemma call_of_settlement_ok [simp]: "call_ok (call_of_settlement i a wk c)"
  by (cases c) simp_all

end
