(* ===== verification/SchedulerQueue.thy ===== *)
theory SchedulerQueue
  imports Scheduler ScheduleProps FakeDraws
begin

text \<open>
  Any number of scheduler engines over one queue: a step relation in which engines claim, fire and
  report errors late, repeatedly or never, while other clients make any other call, and the engine of
  \<open>Scheduler\<close> as one of its runs.  Beside the queue the state keeps the history that the claims refer
  to: the claims handed out and the occurrences the queue accepted.
\<close>

section \<open>The queue with its history\<close>

record scheduling =
  qs_queue :: fake
  qs_claims :: "schedule_claim list"
  qs_fired :: "(uuid \<times> int \<times> instant list) list"

text \<open>An answer to \<open>fire_schedule\<close> that enqueued the occurrences now.\<close>

definition accepted :: "exc + schedule_action_result \<Rightarrow> bool" where
  "accepted r \<longleftrightarrow> (case r of Inl e \<Rightarrow> False | Inr a \<Rightarrow> sa_outcome a \<noteq> SO_STALE \<and> \<not> sa_replayed a)"

definition claim_on ::
  "world \<Rightarrow> clock \<Rightarrow> int \<Rightarrow> int \<Rightarrow> scheduling \<Rightarrow> (exc + schedule_claim list) \<times> scheduling" where
  "claim_on w clk limit lease s = (case claim_schedules (w_ids w) clk limit lease (qs_queue s) of
     (r, st) \<Rightarrow> (r, s\<lparr>qs_queue := st, qs_claims := qs_claims s @ (case r of Inl e \<Rightarrow> [] | Inr cs \<Rightarrow> cs)\<rparr>))"

definition fire_on ::
  "world \<Rightarrow> clock \<Rightarrow> uuid \<Rightarrow> uuid \<Rightarrow> int \<Rightarrow> instant list \<Rightarrow> instant \<Rightarrow> scheduling \<Rightarrow>
   (exc + schedule_action_result) \<times> scheduling" where
  "fire_on w clk i t v oc nx s = (case fire_schedule (w_stamp w) (w_ids w) clk i t v oc nx (qs_queue s) of
     (r, st) \<Rightarrow> (r, s\<lparr>qs_queue := st,
        qs_fired := (if accepted r then qs_fired s @ [(i, v, oc)] else qs_fired s)\<rparr>))"

definition error_on ::
  "clock \<Rightarrow> uuid \<Rightarrow> uuid \<Rightarrow> int \<Rightarrow> int \<Rightarrow> scheduling \<Rightarrow> (exc + schedule_action_result) \<times> scheduling" where
  "error_on clk i t v n s = (case schedule_error clk i t v n (qs_queue s) of
     (r, st) \<Rightarrow> (r, s\<lparr>qs_queue := st\<rparr>))"

fun fires :: "call \<Rightarrow> bool" where
  "fires (FireSchedule clk i t v oc nx) = True"
| "fires c = False"

inductive scheduling_step :: "world \<Rightarrow> calendar \<Rightarrow> scheduling \<Rightarrow> scheduling \<Rightarrow> bool" for w cal where
  claims_due: "scheduling_step w cal s (snd (claim_on w clk limit lease s))"
| fires_claim: "c \<in> set (qs_claims s) \<Longrightarrow> evaluate_due cal (due_of_claim c) = Inr ev \<Longrightarrow>
    scheduling_step w cal s (snd (fire_on w clk (sc_schedule_id c) (sc_token c) (sc_version c)
      (se_occurrences ev) (se_next_fire_at ev) s))"
| reports_error: "scheduling_step w cal s (snd (error_on clk i t v n s))"
| other_call: "call_ok c \<Longrightarrow> \<not> fires c \<Longrightarrow>
    scheduling_step w cal s (s\<lparr>qs_queue := perform w c (qs_queue s)\<rparr>)"

text \<open>Runs in which \<open>uuid4()\<close> has not repeated a value.\<close>

inductive scheduling_leads :: "world \<Rightarrow> calendar \<Rightarrow> scheduling \<Rightarrow> scheduling \<Rightarrow> bool" for w cal where
  stay: "scheduling_leads w cal s s"
| onward: "scheduling_leads w cal s s' \<Longrightarrow> scheduling_step w cal s' s'' \<Longrightarrow>
    inj_on (w_ids w) {..<drawn (qs_queue s'')} \<Longrightarrow> scheduling_leads w cal s s''"

definition scheduling_start :: "string list \<Rightarrow> scheduling" where
  "scheduling_start queues = \<lparr>qs_queue = new_fake queues, qs_claims = [], qs_fired = []\<rparr>"

text \<open>The occurrences accepted for one version of one schedule, in the order in which they were fired.\<close>

definition fired_at :: "uuid \<Rightarrow> int \<Rightarrow> (uuid \<times> int \<times> instant list) list \<Rightarrow> instant list" where
  "fired_at i v L = concat (map (\<lambda>(j, u, os). if j = i \<and> u = v then os else []) L)"

lemma fired_at_simps [simp]:
  "fired_at i v [] = []"
  "fired_at i v (L @ [(j, u, os)]) = fired_at i v L @ (if j = i \<and> u = v then os else [])"
  by (simp_all add: fired_at_def)

section \<open>What a call that does not fire does to the schedules\<close>

definition drawn_between :: "uuid_source \<Rightarrow> fake \<Rightarrow> fake \<Rightarrow> uuid \<Rightarrow> bool" where
  "drawn_between us st st' i \<longleftrightarrow> i \<in> us ` {drawn st..<drawn st'}"

definition entry_kept :: "uuid_source \<Rightarrow> fake \<Rightarrow> fake \<Rightarrow> fake_schedule \<Rightarrow> fake_schedule \<Rightarrow> bool" where
  "entry_kept us st st' s s' \<longleftrightarrow> fs_schedule_id s' = fs_schedule_id s \<and> fs_version s \<le> fs_version s' \<and>
     (fs_version s' = fs_version s \<longrightarrow> fs_next_fire_at s' = fs_next_fire_at s) \<and>
     (\<forall>t. fs_token s' = Some t \<longrightarrow>
        drawn_between us st st' t \<or> fs_token s = Some t \<and> fs_version s' = fs_version s)"

definition calm :: "uuid_source \<Rightarrow> fake \<Rightarrow> fake \<Rightarrow> bool" where
  "calm us st st' \<longleftrightarrow> drawn st \<le> drawn st' \<and>
     (\<forall>name s'. dget (schedules st') name = Some s' \<longrightarrow>
        (\<exists>s. dget (schedules st) name = Some s \<and> entry_kept us st st' s s') \<or>
        drawn_between us st st' (fs_schedule_id s') \<and>
          (\<forall>t. fs_token s' = Some t \<longrightarrow> drawn_between us st st' t))"

lemma entry_kept_refl [simp]: "entry_kept us st st' s s"
  by (simp add: entry_kept_def)

lemma calm_frame: "schedules st' = schedules st \<Longrightarrow> drawn st \<le> drawn st' \<Longrightarrow> calm us st st'"
  by (simp add: calm_def)

lemma calm_put:
  assumes "dget (schedules st) (fs_name s') = Some s" and "entry_kept us st (put_sched s' st1) s s'"
    and "schedules st1 = schedules st" and "drawn st \<le> drawn st1"
  shows "calm us st (put_sched s' st1)"
  using assms by (auto simp: calm_def put_sched_def split: if_splits)

lemma drawn_between_widen:
  "drawn_between us st1 st2 i \<Longrightarrow> drawn st \<le> drawn st1 \<Longrightarrow> drawn st2 \<le> drawn st3 \<Longrightarrow> drawn_between us st st3 i"
  by (force simp: drawn_between_def)

lemma calm_trans:
  assumes "calm us st st1" and "calm us st1 st2"
  shows "calm us st st2"
proof -
  have d: "drawn st \<le> drawn st1" "drawn st1 \<le> drawn st2" using assms by (simp_all add: calm_def)
  have w: "drawn_between us st1 st2 i \<Longrightarrow> drawn_between us st st2 i"
    "drawn_between us st st1 i \<Longrightarrow> drawn_between us st st2 i" for i
    using drawn_between_widen d by blast+
  have "(\<exists>s. dget (schedules st) name = Some s \<and> entry_kept us st st2 s s2) \<or>
      drawn_between us st st2 (fs_schedule_id s2) \<and> (\<forall>t. fs_token s2 = Some t \<longrightarrow> drawn_between us st st2 t)"
    if s2: "dget (schedules st2) name = Some s2" for name s2
  proof (cases "\<exists>s1. dget (schedules st1) name = Some s1 \<and> entry_kept us st1 st2 s1 s2")
    case False
    then show ?thesis using assms(2) s2 w unfolding calm_def by blast
  next
    case True
    then obtain s1 where s1: "dget (schedules st1) name = Some s1" "entry_kept us st1 st2 s1 s2" by blast
    consider s where "dget (schedules st) name = Some s" "entry_kept us st st1 s s1"
      | "drawn_between us st st1 (fs_schedule_id s1)" "\<forall>t. fs_token s1 = Some t \<longrightarrow> drawn_between us st st1 t"
      using assms(1) s1(1) unfolding calm_def by blast
    then show ?thesis
    proof cases
      case 1
      then have "entry_kept us st st2 s s2"
        using s1(2) w by (fastforce simp: entry_kept_def)
      then show ?thesis using 1(1) by blast
    next
      case 2
      then show ?thesis using s1(2) w unfolding entry_kept_def by metis
    qed
  qed
  then show ?thesis using d unfolding calm_def by auto
qed

lemma calm_claim_scan:
  "distinct (map fs_name ss) \<Longrightarrow> \<forall>s \<in> set ss. dget (schedules st) (fs_name s) = Some s \<Longrightarrow>
   calm us st (snd (claim_schedule_scan us now lm l ss cs st))"
proof (induction ss arbitrary: cs st)
  case (Cons s ss)
  let ?s = "claimed_schedule (us (drawn st)) now l s"
  let ?st = "put_sched ?s (draw st)"
  have "entry_kept us st ?st s ?s"
    by (simp add: entry_kept_def claimed_schedule_def drawn_between_def put_sched_def draw_def)
  then have one: "calm us st ?st"
    by (rule calm_put [where s = s, rotated])
      (use Cons.prems in \<open>simp_all add: claimed_schedule_def put_sched_def draw_def\<close>)
  have rest: "\<forall>x \<in> set ss. dget (schedules ?st) (fs_name x) = Some x"
  proof
    fix x assume x: "x \<in> set ss"
    then have "fs_name x \<noteq> fs_name s" using Cons.prems(1) by (metis distinct.simps(2) image_eqI list.simps(9) set_map)
    then show "dget (schedules ?st) (fs_name x) = Some x"
      using x Cons.prems(2) by (simp add: put_sched_def draw_def claimed_schedule_def)
  qed
  have "calm us st (snd (claim_schedule_scan us now lm l ss cs' ?st))" for cs'
    by (rule calm_trans [OF one Cons.IH]) (use Cons.prems(1) rest in simp_all)
  moreover have "calm us st (snd (claim_schedule_scan us now lm l ss cs st))"
    by (rule Cons.IH) (use Cons.prems in simp_all)
  ultimately show ?case using one by (simp add: Let_def)
qed (simp add: calm_frame)

lemma candidates_stored:
  assumes "schedules_inv us st"
  shows "distinct (map fs_name (schedule_candidates st))"
    and "\<forall>s \<in> set (schedule_candidates st). dget (schedules st) (fs_name s) = Some s"
proof -
  have ok: "schedules_ok (schedules st)" using assms by (simp add: schedules_inv_def)
  show "distinct (map fs_name (schedule_candidates st))" by (rule candidates_names(1) [OF ok])
  show "\<forall>s \<in> set (schedule_candidates st). dget (schedules st) (fs_name s) = Some s"
    using ok by (auto simp: candidates_names(2) [OF ok] schedules_ok_def list_all_iff)
qed

lemma calm_claim:
  assumes "schedules_inv us st" shows "calm us st (snd (claim_schedules us clk lm l st))"
  using calm_claim_scan [OF candidates_stored [OF assms]]
  by (cases clk) (simp_all add: claim_schedules_def ensure_open_def calm_frame split_beta)

lemma calm_error:
  assumes "schedules_inv us st" shows "calm us st (snd (schedule_error clk i t v n st))"
proof (cases "schedule_by_id st i")
  case (Inr s)
  note s = schedules_by_id [OF assms Inr]
  have "calm us st (put_sched (s\<lparr>fs_token := None, fs_claim_as_of := None, fs_claim_expires_at := None,
      fs_retry_not_before := r\<rparr>) st)" for r
    by (rule calm_put [where s = s]) (use s(1) in \<open>simp_all add: entry_kept_def put_sched_def\<close>)
  moreover have "calm us st (put_sched (s\<lparr>fs_token := None, fs_claim_as_of := None,
      fs_claim_expires_at := None\<rparr>) st)"
    by (rule calm_put [where s = s]) (use s(1) in \<open>simp_all add: entry_kept_def put_sched_def\<close>)
  ultimately show ?thesis
    using Inr by (cases clk) (simp_all add: schedule_error_def ensure_open_def Let_def calm_frame)
qed (simp add: schedule_error_def ensure_open_def calm_frame)

lemma calm_update:
  assumes "schedules_inv us st" and "dget (schedules st) nm = Some s" and "fs_name s' = fs_name s"
    and "fs_schedule_id s' = fs_schedule_id s" and "fs_version s < fs_version s'" and "fs_token s' = None"
  shows "calm us st (put_sched s' st)"
  by (rule calm_put [where s = s])
    (use assms schedules_name [OF assms(1,2)] in \<open>simp_all add: entry_kept_def put_sched_def\<close>)

lemma updated_schedule_fields [simp]:
  "fs_name (updated_schedule s d) = fs_name s" "fs_schedule_id (updated_schedule s d) = fs_schedule_id s"
  "fs_version (updated_schedule s d) = fs_version s + 1" "fs_token (updated_schedule s d) = None"
  by (simp_all add: updated_schedule_def reset_claim_def)

lemma calm_retire:
  assumes "schedules_inv us st" shows "calm us st (snd (retire_schedule nm v st))"
proof (cases "dget (schedules st) nm")
  case (Some s)
  have "calm us st (put_sched (reset_claim (s\<lparr>fs_state := SCHED_RETIRED, fs_version := fs_version s + 1\<rparr>)) st)"
    by (rule calm_update [OF assms Some]) (simp_all add: reset_claim_def)
  then show ?thesis using Some by (simp add: retire_schedule_def ensure_open_def Let_def calm_frame)
qed (simp add: retire_schedule_def ensure_open_def calm_frame)

lemma calm_put_schedule:
  assumes "schedules_inv us st" shows "calm us st (snd (put_schedule us clk nm d v st))"
proof (cases "dget (schedules st) nm")
  case None
  have d: "calm us st (draw st)" by (rule calm_frame) (simp_all add: draw_def)
  have "calm us st (put_sched (new_schedule (us (drawn st)) nm d t) (draw st))" for t
    by (auto simp: calm_def put_sched_def draw_def new_schedule_def drawn_between_def split: if_splits)
  then show ?thesis
    using None d by (cases clk) (simp_all add: put_schedule_def ensure_open_def Let_def calm_frame)
next
  case (Some s)
  note up = calm_update [OF assms Some]
  have "calm us st (put_sched (updated_schedule s d) st)" by (rule up) simp_all
  moreover have "calm us st (put_sched ((updated_schedule s d)\<lparr>fs_initialized := False\<rparr>) st)"
    by (rule up) simp_all
  moreover have "calm us st (put_sched ((updated_schedule s d)
      \<lparr>fs_initialized := False, fs_next_fire_at := t\<rparr>) st)" for t
    by (rule up) simp_all
  ultimately show ?thesis
    using Some by (cases clk)
      (simp_all add: put_schedule_def ensure_open_def Let_def calm_frame split: option.split)
qed

lemma perform_calm:
  assumes inv: "schedules_inv (w_ids w) st" and mono: "drawn st \<le> drawn (perform w c st)" and "\<not> fires c"
  shows "calm (w_ids w) st (perform w c st)"
proof (cases "side_frame st (perform w c st)")
  case True
  then show ?thesis using calm_frame [OF _ mono] by (simp add: side_frame_def)
next
  case False
  show ?thesis
  proof (cases c)
    case (WorkerHeartbeat clk r)
    have "schedules (perform w c st) = schedules st"
      unfolding WorkerHeartbeat
      by (cases clk) (simp_all add: worker_heartbeat_def ensure_open_def split: option.split)
    then show ?thesis by (rule calm_frame [OF _ mono])
  next
    case Close
    then show ?thesis by (simp add: calm_frame)
  next
    case (PutSchedule clk n d v)
    then show ?thesis using calm_put_schedule [OF inv] by simp
  next
    case (RetireSchedule n v)
    then show ?thesis using calm_retire [OF inv] by simp
  next
    case (ClaimSchedules clk l le)
    then show ?thesis using calm_claim [OF inv] by simp
  next
    case (ScheduleError clk i t v n)
    then show ?thesis using calm_error [OF inv] by simp
  qed (use False assms(3) in \<open>simp_all add: frame_rules\<close>)
qed

section \<open>The invariant of the history\<close>

definition entry_matches ::
  "schedule_claim list \<Rightarrow> (uuid \<times> int \<times> instant list) list \<Rightarrow> fake_schedule \<Rightarrow> bool" where
  "entry_matches H L s \<longleftrightarrow>
     (\<forall>c \<in> set H. sc_schedule_id c = fs_schedule_id s \<and> fs_token s = Some (sc_token c) \<and>
        fs_version s = sc_version c \<longrightarrow> fs_next_fire_at s = sc_next_fire_at c) \<and>
     (\<forall>(i, v, os) \<in> set L. i = fs_schedule_id s \<longrightarrow>
        v \<le> fs_version s \<and> (v = fs_version s \<longrightarrow> (\<forall>t \<in> set os. t < fs_next_fire_at s)))"

definition drawn_ids :: "uuid_source \<Rightarrow> fake \<Rightarrow> uuid set" where
  "drawn_ids us st = us ` {..<drawn st}"

definition history_inv ::
  "uuid_source \<Rightarrow> schedule_claim list \<Rightarrow> (uuid \<times> int \<times> instant list) list \<Rightarrow> fake \<Rightarrow> bool" where
  "history_inv us H L st \<longleftrightarrow>
     (\<forall>name s. dget (schedules st) name = Some s \<longrightarrow> entry_matches H L s \<and>
        (\<forall>t. fs_token s = Some t \<longrightarrow> t \<in> drawn_ids us st)) \<and>
     (\<forall>c \<in> set H. sc_token c \<in> drawn_ids us st) \<and>
     (\<forall>(i, v, os) \<in> set L. i \<in> drawn_ids us st) \<and>
     (\<forall>i v. sorted_wrt (<) (fired_at i v L))"

definition scheduling_inv :: "world \<Rightarrow> scheduling \<Rightarrow> bool" where
  "scheduling_inv w s \<longleftrightarrow> client_inv w (qs_queue s) \<and>
     history_inv (w_ids w) (qs_claims s) (qs_fired s) (qs_queue s)"

lemma drawn_ids_mono: "drawn st \<le> drawn st' \<Longrightarrow> i \<in> drawn_ids us st \<Longrightarrow> i \<in> drawn_ids us st'"
  by (force simp: drawn_ids_def)

lemma drawn_between_ids: "drawn_between us st st' i \<Longrightarrow> i \<in> drawn_ids us st'"
  by (auto simp: drawn_between_def drawn_ids_def)

lemma drawn_between_fresh:
  assumes "inj_on us {..<drawn st'}" and "drawn_between us st st' i" and "drawn st \<le> drawn st'"
  shows "i \<notin> drawn_ids us st"
proof
  assume "i \<in> drawn_ids us st"
  then obtain a where a: "i = us a" "a < drawn st" by (auto simp: drawn_ids_def)
  obtain b where b: "i = us b" "drawn st \<le> b" "b < drawn st'"
    using assms(2) by (auto simp: drawn_between_def)
  note ab = a b
  then have "a = b" using assms(3) by (intro inj_onD [OF assms(1)]) auto
  with ab show False by simp
qed

lemma entry_matches_fresh:
  assumes "fs_schedule_id s \<notin> A" and "\<forall>(i, v, os) \<in> set L. i \<in> A" and "\<forall>c \<in> set H. sc_token c \<in> A"
    and "\<forall>t. fs_token s = Some t \<longrightarrow> t \<notin> A"
  shows "entry_matches H L s"
  using assms by (fastforce simp: entry_matches_def)

lemma entry_matches_kept:
  assumes "entry_matches H L s" and "entry_kept us st st' s s'" and "\<forall>c \<in> set H. sc_token c \<in> drawn_ids us st"
    and "\<And>t. drawn_between us st st' t \<Longrightarrow> t \<notin> drawn_ids us st"
  shows "entry_matches H L s'"
proof -
  have k: "fs_schedule_id s' = fs_schedule_id s" "fs_version s \<le> fs_version s'"
      "fs_version s' = fs_version s \<Longrightarrow> fs_next_fire_at s' = fs_next_fire_at s"
    using assms(2) by (simp_all add: entry_kept_def)
  have h: "fs_token s = Some (sc_token c)" "fs_version s' = fs_version s"
    if "c \<in> set H" "fs_token s' = Some (sc_token c)" for c
    using assms(2-4) that unfolding entry_kept_def by blast+
  have "fs_next_fire_at s' = sc_next_fire_at c"
    if c: "c \<in> set H" "sc_schedule_id c = fs_schedule_id s'" "fs_token s' = Some (sc_token c)"
      "fs_version s' = sc_version c" for c
  proof -
    have "fs_next_fire_at s = sc_next_fire_at c"
      using assms(1) c k(1) h [OF c(1,3)] unfolding entry_matches_def by metis
    then show ?thesis using k(3) h(2) [OF c(1,3)] by simp
  qed
  moreover have "v \<le> fs_version s' \<and> (v = fs_version s' \<longrightarrow> (\<forall>t \<in> set os. t < fs_next_fire_at s'))"
    if i: "(i, v, os) \<in> set L" "i = fs_schedule_id s'" for i v os
  proof -
    have "v \<le> fs_version s" "v = fs_version s \<longrightarrow> (\<forall>t \<in> set os. t < fs_next_fire_at s)"
      using assms(1) i k(1) unfolding entry_matches_def by auto
    then show ?thesis using k(2,3) by auto
  qed
  ultimately show ?thesis by (auto simp: entry_matches_def)
qed

lemma history_calm:
  assumes inv: "history_inv us H L st" and calm: "calm us st st'" and inj: "inj_on us {..<drawn st'}"
  shows "history_inv us H L st'"
proof -
  have mono: "drawn st \<le> drawn st'" using calm by (simp add: calm_def)
  note fresh = drawn_between_fresh [OF inj _ mono]
  have "entry_matches H L s' \<and> (\<forall>t. fs_token s' = Some t \<longrightarrow> t \<in> drawn_ids us st')"
    if s': "dget (schedules st') name = Some s'" for name s'
  proof (cases "\<exists>s. dget (schedules st) name = Some s \<and> entry_kept us st st' s s'")
    case True
    then obtain s where s: "dget (schedules st) name = Some s" "entry_kept us st st' s s'" by blast
    then have "entry_matches H L s'"
      using inv by (intro entry_matches_kept [OF _ s(2) _ fresh]) (auto simp: history_inv_def)
    moreover have "t \<in> drawn_ids us st'" if "fs_token s' = Some t" for t
      using s inv that drawn_ids_mono [OF mono] drawn_between_ids unfolding history_inv_def entry_kept_def
      by blast
    ultimately show ?thesis by blast
  next
    case False
    then have n: "drawn_between us st st' (fs_schedule_id s')"
        "\<forall>t. fs_token s' = Some t \<longrightarrow> drawn_between us st st' t"
      using calm s' unfolding calm_def by blast+
    then have "entry_matches H L s'"
      using inv fresh by (intro entry_matches_fresh [of _ "drawn_ids us st"]) (auto simp: history_inv_def)
    then show ?thesis using n(2) drawn_between_ids by blast
  qed
  then show ?thesis
    using inv drawn_ids_mono [OF mono] by (fastforce simp: history_inv_def)
qed

section \<open>Claiming and firing keep the history in order\<close>

lemma claim_scan_tokens:
  "\<forall>c \<in> set (fst (claim_schedule_scan us now lm l ss cs st)).
     c \<in> set cs \<or> drawn_between us st (snd (claim_schedule_scan us now lm l ss cs st)) (sc_token c)"
proof (induction ss arbitrary: cs st)
  case (Cons s ss)
  let ?st = "put_sched (claimed_schedule (us (drawn st)) now l s) (draw st)"
  let ?c = "schedule_claim_of (us (drawn st)) now l s"
  have d: "drawn ?st = Suc (drawn st)" "sc_token ?c = us (drawn st)"
    by (simp_all add: put_sched_def draw_def schedule_claim_of_def Let_def)
  let ?r = "claim_schedule_scan us now lm l (s # ss) cs st"
  let ?g = "claim_schedule_scan us now lm l ss (cs @ [?c]) ?st"
  consider (skip) "?r = claim_schedule_scan us now lm l ss cs st" | (stop) "?r = (cs @ [?c], ?st)"
    | (go) "?r = ?g"
    by (cases "schedule_claimable now s"; cases "1 + int (length cs) = lm") (auto simp: Let_def)
  then show ?case
  proof cases
    case skip
    then show ?thesis using Cons.IH [of cs st] by (simp only:)
  next
    case stop
    have "drawn_between us st ?st (sc_token ?c)" using d by (auto simp: drawn_between_def)
    then show ?thesis unfolding stop by auto
  next
    case go
    have m: "drawn ?st \<le> drawn (snd ?g)" by (rule claim_schedule_scan_drawn)
    then have "drawn_between us st (snd ?g) (sc_token ?c)" using d by (auto simp: drawn_between_def)
    moreover have "drawn_between us st (snd ?g) i" if i: "drawn_between us ?st (snd ?g) i" for i
      using d(1) by (intro drawn_between_widen [OF i]) simp_all
    ultimately show ?thesis unfolding go using Cons.IH [of "cs @ [?c]" ?st] by fastforce
  qed
qed simp

lemma claims_written:
  assumes inv: "schedules_inv us st" and claim: "claim_schedules us clk lm l st = (Inr cs, st1)" and c: "c \<in> set cs"
  shows "drawn_between us st st1 (sc_token c) \<and>
    (\<exists>s s1. dget (schedules st) (fs_name s) = Some s \<and> dget (schedules st1) (fs_name s) = Some s1 \<and>
      fs_schedule_id s1 = sc_schedule_id c \<and> fs_next_fire_at s1 = sc_next_fire_at c)"
proof -
  obtain now where r: "claim_schedule_scan us now lm l (schedule_candidates st) [] st = (cs, st1)"
    using claim by (cases clk) (auto simp: claim_schedules_def ensure_open_def split_beta split: if_splits)
  note cand = candidates_stored [OF inv]
  obtain s where s: "s \<in> set (schedule_candidates st)" "c = schedule_claim_of (sc_token c) now l s"
      "dget (schedules st1) (fs_name s) = Some (claimed_schedule (sc_token c) now l s)"
    using claim_scan_written [OF cand(1), of us now lm l "[]" st] c r by auto
  have "fs_schedule_id (claimed_schedule t now l s) = sc_schedule_id c"
    "fs_next_fire_at (claimed_schedule t now l s) = sc_next_fire_at c" for t
    by (subst s(2), simp add: claimed_schedule_def schedule_claim_of_def Let_def)+
  then show ?thesis
    using claim_scan_tokens [of us now lm l "schedule_candidates st" "[]" st] c r s(1,3) cand(2) by auto
qed

lemma same_id_same_entry:
  assumes "schedules_inv us st" and "dget (schedules st) a = Some s" and "dget (schedules st) b = Some s'"
    and "fs_schedule_id s = fs_schedule_id s'"
  shows "s = s'"
proof -
  have "schedules_ok (schedules st)" using assms(1) by (simp add: schedules_inv_def)
  then have "schedule_by_id st (fs_schedule_id s) = Inr s" "schedule_by_id st (fs_schedule_id s) = Inr s'"
    using schedules_ok_id assms(2-4) by metis+
  then show ?thesis by simp
qed

lemma entry_matches_claims:
  assumes "entry_matches H L s"
    and "\<forall>c \<in> set cs. sc_schedule_id c = fs_schedule_id s \<longrightarrow> fs_next_fire_at s = sc_next_fire_at c"
  shows "entry_matches (H @ cs) L s"
  using assms by (auto simp: entry_matches_def)

lemma claim_on_inv:
  assumes inv: "scheduling_inv w s" and inj: "inj_on (w_ids w) {..<drawn (qs_queue (snd (claim_on w clk lm l s)))}"
  shows "scheduling_inv w (snd (claim_on w clk lm l s))"
proof -
  let ?st = "qs_queue s"
  obtain r st1 where r: "claim_schedules (w_ids w) clk lm l ?st = (r, st1)" by (cases rule: prod.exhaust)
  have sinv: "schedules_inv (w_ids w) ?st" using inv by (simp add: scheduling_inv_def client_inv_def)
  have st1: "perform w (ClaimSchedules clk lm l) ?st = st1" using r by simp
  have inj1: "inj_on (w_ids w) {..<drawn st1}" using inj r by (simp add: claim_on_def)
  have step: "call_step w ?st (ClaimSchedules clk lm l) st1"
    using st1 inj1 by (intro call_step.intros) simp_all
  have cinv: "client_inv w st1" using call_step_inv [OF _ step] inv by (simp add: scheduling_inv_def)
  have calm: "calm (w_ids w) ?st st1" using calm_claim [OF sinv, of clk lm l] r by simp
  have hist: "history_inv (w_ids w) (qs_claims s) (qs_fired s) st1"
    using history_calm [OF _ calm inj1] inv by (simp add: scheduling_inv_def)
  show ?thesis
  proof (cases r)
    case (Inl e)
    then show ?thesis using cinv hist r by (simp add: claim_on_def scheduling_inv_def)
  next
    case (Inr cs)
    note written = claims_written [OF sinv r [unfolded Inr]]
    have "fs_next_fire_at x = sc_next_fire_at c"
      if x: "dget (schedules st1) name = Some x" "c \<in> set cs" "sc_schedule_id c = fs_schedule_id x" for name x c
    proof -
      obtain k x1 where "dget (schedules st1) k = Some x1" "fs_schedule_id x1 = sc_schedule_id c"
          "fs_next_fire_at x1 = sc_next_fire_at c"
        using written [OF x(2)] by blast
      then show ?thesis
        using same_id_same_entry [of "w_ids w" st1 name x k x1] x cinv by (simp add: client_inv_def)
    qed
    then have "history_inv (w_ids w) (qs_claims s @ cs) (qs_fired s) st1"
      using hist written drawn_between_ids entry_matches_claims unfolding history_inv_def
      by (simp add: ball_Un) blast
    then show ?thesis using cinv Inr r by (simp add: claim_on_def scheduling_inv_def)
  qed
qed

lemma fired_entry:
  "fired_schedule s t oc nx n = (s1, r) \<Longrightarrow> fs_name s1 = fs_name s \<and> fs_schedule_id s1 = fs_schedule_id s \<and>
     fs_version s1 = fs_version s \<and> fs_token s1 = None \<and> fs_next_fire_at s1 = nx \<and>
     sa_outcome r \<noteq> SO_STALE \<and> \<not> sa_replayed r"
  by (auto simp: fired_schedule_def action_result_def Let_def split: if_splits)

lemma fire_schedule_cases:
  assumes "fire_schedule stamp us clk i t v oc nx st = (r, st1)"
  obtains (kept) "\<not> accepted r" "schedules st1 = schedules st"
    | (fired) s s1 where "accepted r" "schedule_by_id st i = Inr s" "fs_token s = Some t" "fs_version s = v"
        "schedules st1 = dset (fs_name s1) s1 (schedules st)" "fs_name s1 = fs_name s"
        "fs_schedule_id s1 = fs_schedule_id s" "fs_version s1 = fs_version s" "fs_token s1 = None"
        "fs_next_fire_at s1 = nx"
proof (cases "schedules st1 = schedules st \<and> \<not> accepted r")
  case True
  then show ?thesis using kept by blast
next
  case False
  then obtain s where s: "schedule_by_id st i = Inr s" "\<not> closed st"
    using assms by (auto simp: fire_schedule_def ensure_open_def accepted_def split: sum.splits if_splits)
  let ?fire = "rbind (fire_occurrences stamp us s oc 0 st) (\<lambda>n st1. case fired_schedule s t oc nx n of
      (s1, r) \<Rightarrow> (Inr r, put_sched s1 st1))"
  have f: "fs_token s = Some t" "fs_version s = v" "?fire = (r, st1)"
    using assms False s
    by (auto simp: fire_schedule_def ensure_open_def accepted_def action_result_def Let_def with_now_def
        split: if_splits option.splits clock.splits)
  obtain q st2 where q: "fire_occurrences stamp us s oc 0 st = (q, st2)" by (cases rule: prod.exhaust)
  have same: "schedules st2 = schedules st" using fire_occurrences_schedules [of stamp us s oc 0 st] q by simp
  obtain n where n: "q = Inr n" using f(3) q same False by (cases q) (auto simp: accepted_def)
  obtain s1 a where p: "fired_schedule s t oc nx n = (s1, a)" by (cases rule: prod.exhaust)
  have "schedules st1 = dset (fs_name s1) s1 (schedules st)"
    using f(3) q n p same by (auto simp: put_sched_def)
  moreover have "accepted r" using f(3) q n p fired_entry [OF p] by (auto simp: accepted_def)
  ultimately show ?thesis using fired [OF _ s(1) f(1,2)] fired_entry [OF p] by blast
qed

lemma evaluate_due_ok:
  assumes "evaluate_due cal (due_of_claim c) = Inr ev"
  shows "sorted_wrt (<) (se_occurrences ev @ [se_next_fire_at ev])"
    and "\<And>t. t \<in> set (se_occurrences ev) \<Longrightarrow> sc_next_fire_at c \<le> t"
    and "sc_next_fire_at c \<le> se_next_fire_at ev"
proof -
  have e: "evaluate_schedule (cal_zones cal) (cal_cron cal) (recurrence_dump (sc_recurrence c))
      (policy_value (sc_catchup_policy c)) (sc_max_catchup c) (sc_initialized c) (Aware (sc_next_fire_at c))
      (Aware (sc_as_of c)) 0 = Inr ev"
    using assms by (simp add: evaluate_due_def due_of_claim_def smear_offset_seconds_def)
  have pre: "sc_next_fire_at c \<le> sc_as_of c" "between 1 100 (sc_max_catchup c)"
    using e by (auto simp: evaluate_schedule_def evaluate_base_def aware_utc_def split: if_splits)
  note ok = evaluate_base_ok [OF e [unfolded evaluate_schedule_def, simplified], unfolded evaluation_ok_def]
  show "sorted_wrt (<) (se_occurrences ev @ [se_next_fire_at ev])"
    and due: "\<And>t. t \<in> set (se_occurrences ev) \<Longrightarrow> sc_next_fire_at c \<le> t"
    using ok by blast+
  show "sc_next_fire_at c \<le> se_next_fire_at ev"
  proof (cases "se_occurrences ev")
    case Nil
    then show ?thesis using ok pre by (auto simp: between_def)
  next
    case (Cons t ts)
    then have "sc_next_fire_at c \<le> t" "t < se_next_fire_at ev" using due ok by simp_all
    then show ?thesis by simp
  qed
qed

lemma fired_at_in: "t \<in> set (fired_at i v L) \<Longrightarrow> \<exists>os. (i, v, os) \<in> set L \<and> t \<in> set os"
  by (auto simp: fired_at_def split: if_splits)

lemma entry_matches_fired:
  assumes m: "entry_matches H L s" and id: "fs_schedule_id s1 = fs_schedule_id s"
    and v: "fs_version s1 = fs_version s" and "fs_token s1 = None" and le: "fs_next_fire_at s \<le> fs_next_fire_at s1"
    and new: "\<forall>t \<in> set os. t < fs_next_fire_at s1"
  shows "entry_matches H (L @ [(fs_schedule_id s, fs_version s, os)]) s1"
  using m le new by (fastforce simp: entry_matches_def id v assms(4))

lemma history_fired:
  assumes inv: "history_inv us H L st" and sinv: "schedules_inv us st"
    and s: "dget (schedules st) (fs_name s) = Some s" "fs_schedule_id s = i" "fs_version s = v"
    and st1: "schedules st1 = dset (fs_name s1) s1 (schedules st)" and mono: "drawn st \<le> drawn st1"
    and s1: "fs_name s1 = fs_name s" "fs_schedule_id s1 = fs_schedule_id s" "fs_version s1 = fs_version s"
      "fs_token s1 = None"
    and os: "sorted_wrt (<) (os @ [fs_next_fire_at s1])" "\<And>t. t \<in> set os \<Longrightarrow> fs_next_fire_at s \<le> t"
      "fs_next_fire_at s \<le> fs_next_fire_at s1"
  shows "history_inv us H (L @ [(i, v, os)]) st1"
proof -
  have m: "entry_matches H L s" using inv s(1) by (simp add: history_inv_def)
  have old: "t < fs_next_fire_at s" if t: "t \<in> set (fired_at i v L)" for t
    using fired_at_in [OF t] m s(2,3) by (auto simp: entry_matches_def)
  have new: "\<forall>t \<in> set os. t < fs_next_fire_at s1" using os(1) by (simp add: sorted_wrt_append)
  have i: "i \<in> drawn_ids us st"
    using sinv s(2) map_of_SomeD [OF s(1)] by (force simp: schedules_inv_def drawn_ids_def)
  have "entry_matches H (L @ [(i, v, os)]) x \<and> (\<forall>t. fs_token x = Some t \<longrightarrow> t \<in> drawn_ids us st1)"
    if x: "dget (schedules st1) name = Some x" for name x
  proof (cases "name = fs_name s")
    case True
    then have "x = s1" using x st1 s1(1) by simp
    then show ?thesis using entry_matches_fired [OF m s1(2-4) os(3) new] s(2,3) s1(4) by simp
  next
    case False
    then have old_x: "dget (schedules st) name = Some x" using x st1 s1(1) by simp
    then have "fs_name x \<noteq> fs_name s" using schedules_name [OF sinv old_x] False by simp
    then have "fs_schedule_id x \<noteq> i"
      using same_id_same_entry [OF sinv old_x s(1)] s(2) by auto
    then show ?thesis
      using old_x inv drawn_ids_mono [OF mono] by (auto simp: history_inv_def entry_matches_def)
  qed
  moreover have "sorted_wrt (<) (fired_at j u (L @ [(i, v, os)]))" for j u
    using inv os(1,2) old by (fastforce simp: history_inv_def sorted_wrt_append)
  moreover have "\<forall>c \<in> set H. sc_token c \<in> drawn_ids us st1" "\<forall>(j, u, os) \<in> set L. j \<in> drawn_ids us st1"
    using inv drawn_ids_mono [OF mono] by (auto simp: history_inv_def)
  ultimately show ?thesis
    unfolding history_inv_def using drawn_ids_mono [OF mono i] by auto
qed

lemma fire_on_inv:
  assumes inv: "scheduling_inv w s" and c: "c \<in> set (qs_claims s)" and ev: "evaluate_due cal (due_of_claim c) = Inr ev"
    and s': "s' = snd (fire_on w clk (sc_schedule_id c) (sc_token c) (sc_version c) (se_occurrences ev)
      (se_next_fire_at ev) s)" and inj: "inj_on (w_ids w) {..<drawn (qs_queue s')}"
  shows "scheduling_inv w s'"
proof -
  let ?st = "qs_queue s"
  let ?f = "fire_schedule (w_stamp w) (w_ids w) clk (sc_schedule_id c) (sc_token c) (sc_version c)
      (se_occurrences ev) (se_next_fire_at ev) ?st"
  obtain r st1 where r: "?f = (r, st1)" by (cases rule: prod.exhaust)
  have st1: "st1 = perform w (FireSchedule clk (sc_schedule_id c) (sc_token c) (sc_version c)
      (se_occurrences ev) (se_next_fire_at ev)) ?st" using r by simp
  have q: "qs_queue s' = st1" using s' r by (simp add: fire_on_def)
  have step: "call_step w ?st (FireSchedule clk (sc_schedule_id c) (sc_token c) (sc_version c)
      (se_occurrences ev) (se_next_fire_at ev)) st1"
    using st1 inj q by (intro call_step.intros) simp_all
  have cinv: "client_inv w st1" and mono: "drawn ?st \<le> drawn st1"
    using call_step_inv [OF _ step] inv by (simp_all add: scheduling_inv_def evolves_def)
  have sinv: "schedules_inv (w_ids w) ?st" and hist: "history_inv (w_ids w) (qs_claims s) (qs_fired s) ?st"
    using inv by (simp_all add: scheduling_inv_def client_inv_def)
  have "history_inv (w_ids w) (qs_claims s) (qs_fired s') st1"
    using r
  proof (cases rule: fire_schedule_cases)
    case kept
    then have "qs_fired s' = qs_fired s" using s' r by (simp add: fire_on_def)
    then show ?thesis
      using history_calm [OF hist calm_frame [OF kept(2) mono]] inj q by simp
  next
    case (fired e e1)
    note e = schedules_by_id [OF sinv fired(2)]
    have "entry_matches (qs_claims s) (qs_fired s) e" using hist e(1) unfolding history_inv_def by blast
    then have due: "fs_next_fire_at e = sc_next_fire_at c"
      using c fired(3,4) e(2) unfolding entry_matches_def by simp
    have "qs_fired s' = qs_fired s @ [(sc_schedule_id c, sc_version c, se_occurrences ev)]"
      using s' r fired(1) by (simp add: fire_on_def)
    moreover have "history_inv (w_ids w) (qs_claims s)
        (qs_fired s @ [(sc_schedule_id c, sc_version c, se_occurrences ev)]) st1"
      by (rule history_fired [OF hist sinv e fired(4,5) mono fired(6-9)])
        (use evaluate_due_ok [OF ev] in \<open>simp_all only: fired(10) due\<close>)
    ultimately show ?thesis by (simp only:)
  qed
  moreover have "qs_claims s' = qs_claims s" using s' r by (simp add: fire_on_def)
  ultimately show ?thesis using cinv q by (simp add: scheduling_inv_def)
qed

lemma calm_call_inv:
  assumes inv: "scheduling_inv w s" and c: "call_ok c" "\<not> fires c"
    and inj: "inj_on (w_ids w) {..<drawn (perform w c (qs_queue s))}"
  shows "scheduling_inv w (s\<lparr>qs_queue := perform w c (qs_queue s)\<rparr>)"
proof -
  have cinv: "client_inv w (perform w c (qs_queue s))" and mono: "drawn (qs_queue s) \<le> drawn (perform w c (qs_queue s))"
    using call_step_inv [of w "qs_queue s" c] inv c(1) inj
    by (simp_all add: scheduling_inv_def call_step_iff evolves_def)
  have calm: "calm (w_ids w) (qs_queue s) (perform w c (qs_queue s))"
    by (rule perform_calm [OF _ mono c(2)]) (use inv in \<open>simp add: scheduling_inv_def client_inv_def\<close>)
  have "history_inv (w_ids w) (qs_claims s) (qs_fired s) (perform w c (qs_queue s))"
    by (rule history_calm [OF _ calm inj]) (use inv in \<open>simp add: scheduling_inv_def\<close>)
  then show ?thesis using cinv by (simp add: scheduling_inv_def)
qed

lemma scheduling_step_inv:
  assumes "scheduling_step w cal s s'" and "scheduling_inv w s" and "inj_on (w_ids w) {..<drawn (qs_queue s')}"
  shows "scheduling_inv w s'"
  using assms(1)
proof (cases rule: scheduling_step.cases)
  case (claims_due clk limit lease)
  then show ?thesis using claim_on_inv assms(2,3) by simp
next
  case (fires_claim c ev clk)
  then show ?thesis using fire_on_inv [OF assms(2) fires_claim(2,3,1) assms(3)] by simp
next
  case (reports_error clk i t v n)
  have "s' = s\<lparr>qs_queue := perform w (ScheduleError clk i t v n) (qs_queue s)\<rparr>"
    using reports_error by (simp add: error_on_def split_beta)
  then show ?thesis using calm_call_inv [OF assms(2), of "ScheduleError clk i t v n"] assms(3) by simp
next
  case (other_call c)
  then show ?thesis using calm_call_inv [OF assms(2), of c] assms(3) by simp
qed

lemma scheduling_leads_inv: "scheduling_leads w cal s s' \<Longrightarrow> scheduling_inv w s \<Longrightarrow> scheduling_inv w s'"
  by (induction rule: scheduling_leads.induct) (auto intro: scheduling_step_inv)

lemma scheduling_start_inv: "scheduling_inv w (scheduling_start queues)"
  using client_inv_new [of w queues]
  by (simp add: scheduling_inv_def scheduling_start_def history_inv_def new_fake_def)

text \<open>
  C32: No occurrence fires twice, whatever the engines do: over all claims, late or repeated fires, error
  reports and calls of other clients, the occurrences the queue accepts for one version of a schedule
  form a strictly increasing sequence, all of them before the next due time while that version lasts.
\<close>

theorem occurrences_fire_once:
  assumes "scheduling_leads w cal (scheduling_start queues) s"
  shows "sorted_wrt (<) (fired_at i v (qs_fired s)) \<and>
    (\<forall>name e. dget (schedules (qs_queue s)) name = Some e \<and> fs_schedule_id e = i \<and> fs_version e = v \<longrightarrow>
      (\<forall>t \<in> set (fired_at i v (qs_fired s)). t < fs_next_fire_at e))"
proof -
  have "scheduling_inv w s" using scheduling_leads_inv [OF assms scheduling_start_inv] .
  then have hist: "history_inv (w_ids w) (qs_claims s) (qs_fired s) (qs_queue s)"
    by (simp add: scheduling_inv_def)
  have "t < fs_next_fire_at e"
    if e: "dget (schedules (qs_queue s)) name = Some e" "fs_schedule_id e = i" "fs_version e = v"
      and t: "t \<in> set (fired_at i v (qs_fired s))" for name e t
    using hist e fired_at_in [OF t] unfolding history_inv_def entry_matches_def by blast
  then show ?thesis using hist by (auto simp: history_inv_def)
qed

text \<open>A schedule that is created, initialised by its first fire, and fired once at its due time.\<close>

definition fired_world :: world where
  "fired_world = \<lparr>w_ids = sample_ids, w_sha = (\<lambda>s. s), w_iso = (\<lambda>_. []), w_stamp = (\<lambda>_. 0)\<rparr>"

definition fired_calendar :: calendar where
  "fired_calendar = \<lparr>cal_zones = (\<lambda>_. None), cal_cron = no_cron, cal_digest = (\<lambda>_. 0)\<rparr>"

definition first_claim :: schedule_claim where
  "first_claim = schedule_claim_of 2 5 60 (new_schedule 1 ''n'' sample_definition 0)"

definition entry_1 :: fake_schedule where
  "entry_1 = fst (fired_schedule (claimed_schedule 2 5 60 (new_schedule 1 ''n'' sample_definition 0)) 2 [] 60000005 0)"

definition second_claim :: schedule_claim where
  "second_claim = schedule_claim_of 3 60000006 60 entry_1"

definition entry_2 :: fake_schedule where
  "entry_2 = claimed_schedule 3 60000006 60 entry_1"

lemma first_evaluation:
  "evaluate_due fired_calendar (due_of_claim first_claim) = Inr \<lparr>se_occurrences = [], se_next_fire_at = 60000005\<rparr>"
  by (simp add: evaluate_due_def due_of_claim_def first_claim_def schedule_claim_of_def new_schedule_def
      sample_definition_def evaluate_schedule_def evaluate_base_def aware_utc_def next_instant_def
      smear_offset_seconds_def between_def seconds_def Let_def)

lemma entry_1_fields:
  "fs_name entry_1 = ''n''" "fs_schedule_id entry_1 = 1" "fs_version entry_1 = 1" "fs_initialized entry_1"
  "fs_definition entry_1 = sample_definition" "fs_next_fire_at entry_1 = 60000005" "fs_token entry_1 = None"
  "fs_state entry_1 = SCHED_ACTIVE" "fs_retry_not_before entry_1 = None" "fs_last_action_token entry_1 = Some 2"
  by (simp_all add: entry_1_def fired_schedule_def claimed_schedule_def new_schedule_def target_state_def
      sample_definition_def Let_def)

lemma second_evaluation:
  "evaluate_due fired_calendar (due_of_claim second_claim) =
     Inr \<lparr>se_occurrences = [60000005], se_next_fire_at = 120000006\<rparr>"
  by (simp add: evaluate_due_def due_of_claim_def second_claim_def schedule_claim_of_def entry_1_fields
      sample_definition_def evaluate_schedule_def evaluate_base_def aware_utc_def next_instant_def
      latest_instant_def smear_offset_seconds_def between_def seconds_def Let_def)

lemma first_fire:
  "fire_schedule (\<lambda>_. 0) sample_ids (Aware 6) 1 2 1 [] 60000005 sample_claimed =
     (Inr (action_result SO_INITIALIZED 0 entry_1), put_sched entry_1 sample_claimed)"
proof -
  let ?s = "claimed_schedule 2 5 60 (new_schedule 1 ''n'' sample_definition 0)"
  have f: "\<not> closed sample_claimed"
    by (simp add: sample_claimed_def sample_scheduled_def put_sched_def draw_def new_fake_def)
  have g: "fs_schedule_id ?s = 1" "fs_last_action_token ?s = None" "fs_state ?s = SCHED_ACTIVE"
      "fs_version ?s = 1" "fs_token ?s = Some 2" "fs_claim_expires_at ?s = Some (plus_seconds 5 60)"
      "\<not> fs_initialized ?s"
    by (simp_all add: claimed_schedule_def new_schedule_def sample_definition_def target_state_def)
  have r: "fired_schedule ?s 2 [] 60000005 0 = (entry_1, action_result SO_INITIALIZED 0 entry_1)"
    using g by (simp add: entry_1_def fired_schedule_def action_result_def Let_def)
  show ?thesis
    using f g r
    by (simp add: fire_schedule_def ensure_open_def schedule_by_id_def sample_schedules plus_seconds_def seconds_def
        Let_def)
qed

lemma sample_drawn: "drawn sample_scheduled = 1" "drawn sample_claimed = 2" "\<not> closed sample_claimed"
  "known_queues sample_claimed = {''q''}" "active_keys sample_claimed = []"
  by (simp_all add: sample_claimed_def sample_scheduled_def put_sched_def draw_def new_fake_def)

lemma second_claimed:
  "claim_schedules sample_ids (Aware 60000006) 1 60 (put_sched entry_1 sample_claimed) =
     (Inr [second_claim], put_sched entry_2 (draw (put_sched entry_1 sample_claimed)))"
  using sample_drawn
  by (simp add: claim_schedules_def ensure_open_def schedule_candidates_def put_sched_def sample_schedules
      schedule_claimable_def entry_1_fields second_claim_def entry_2_def sample_ids_def)

abbreviation fired_before :: fake where
  "fired_before \<equiv> put_sched entry_2 (draw (put_sched entry_1 sample_claimed))"

lemma entry_2_fields:
  "fs_name entry_2 = ''n''" "fs_schedule_id entry_2 = 1" "fs_version entry_2 = 1" "fs_initialized entry_2"
  "fs_definition entry_2 = sample_definition" "fs_token entry_2 = Some 3" "fs_state entry_2 = SCHED_ACTIVE"
  "fs_last_action_token entry_2 = Some 2" "fs_claim_expires_at entry_2 = Some (plus_seconds 60000006 60)"
  by (simp_all add: entry_2_def claimed_schedule_def entry_1_fields)

lemma second_fire:
  "\<exists>r st1 e. fire_schedule (\<lambda>_. 0) sample_ids (Aware 60000007) 1 3 1 [60000005] 120000006 fired_before = (Inr r, st1) \<and>
     accepted (Inr r) \<and> drawn st1 = 4 \<and> dget (schedules st1) ''n'' = Some e \<and> fs_schedule_id e = 1 \<and>
     fs_version e = 1 \<and> fs_next_fire_at e = 120000006"
proof -
  have f: "\<not> closed fired_before" "active_keys fired_before = []" "known_queues fired_before = {''q''}"
    "drawn fired_before = 3" "schedules fired_before = [(''n'', entry_2)]"
    using sample_drawn by (simp_all add: put_sched_def draw_def entry_1_fields entry_2_fields sample_schedules)
  have k: "ec_workflow_id (occurrence_command (\<lambda>_. 0) entry_2 t) = None"
    "ec_queue (occurrence_command (\<lambda>_. 0) entry_2 t) = ''q''"
    "command_key (occurrence_command (\<lambda>_. 0) entry_2 t) = Some (''q'', occurrence_key (\<lambda>_. 0) 1 t)" for t
    by (simp_all add: occurrence_command_def command_key_def entry_2_fields sample_definition_def sample_target_def
        Let_def)
  obtain st1 where e: "fire_occurrences (\<lambda>_. 0) sample_ids entry_2 [60000005] 0 fired_before = (Inr 1, st1)"
      "drawn st1 = 4"
    using f k
    by (auto simp: fire_occurrences_step enqueue_def ensure_open_def enqueue_plain_def insert_job_def log_enqueue_def
        add_queue_def set_key_def draw_def record_enqueue_def er_created_def Let_def simp del: fire_occurrences.simps(2))
  have same: "schedules st1 = [(''n'', entry_2)]"
    using fire_occurrences_schedules [of "\<lambda>_. 0" sample_ids entry_2 "[60000005]" 0 fired_before] e f by simp
  show ?thesis
    using e f same entry_2_fields
    by (auto simp: fire_schedule_def ensure_open_def schedule_by_id_def accepted_def put_sched_def
        action_result_def fired_schedule_def plus_seconds_def seconds_def Let_def
        simp del: fire_occurrences.simps)
qed

lemma fired_run:
  "\<exists>st e. scheduling_leads fired_world fired_calendar (scheduling_start [''q''])
      \<lparr>qs_queue = st, qs_claims = [first_claim, second_claim], qs_fired = [(1, 1, []), (1, 1, [60000005])]\<rparr> \<and>
     dget (schedules st) ''n'' = Some e \<and> fs_schedule_id e = 1 \<and> fs_version e = 1"
proof -
  let ?w = fired_world and ?cal = fired_calendar
  let ?s1 = "\<lparr>qs_queue = sample_scheduled, qs_claims = [], qs_fired = []\<rparr>"
  let ?s2 = "\<lparr>qs_queue = sample_claimed, qs_claims = [first_claim], qs_fired = []\<rparr>"
  let ?s3 = "\<lparr>qs_queue = put_sched entry_1 sample_claimed, qs_claims = [first_claim], qs_fired = [(1, 1, [])]\<rparr>"
  let ?s4 = "\<lparr>qs_queue = fired_before, qs_claims = [first_claim, second_claim], qs_fired = [(1, 1, [])]\<rparr>"
  have ids: "w_ids ?w = sample_ids" "w_stamp ?w = (\<lambda>_. 0)" by (simp_all add: fired_world_def)
  have c1: "sc_schedule_id first_claim = 1" "sc_token first_claim = 2" "sc_version first_claim = 1"
    by (simp_all add: first_claim_def schedule_claim_of_def new_schedule_def Let_def)
  have c2: "sc_schedule_id second_claim = 1" "sc_token second_claim = 3" "sc_version second_claim = 1"
    by (simp_all add: second_claim_def schedule_claim_of_def entry_1_fields Let_def)
  note drawn_facts = sample_drawn put_sched_def draw_def
  have step1: "scheduling_step ?w ?cal (scheduling_start [''q'']) ?s1"
    using scheduling_step.other_call [of "PutSchedule (Aware 0) ''n'' sample_definition None" ?w ?cal "scheduling_start [''q'']"]
      sample_scheduled_put by (simp add: scheduling_start_def ids)
  have s1: "scheduling_leads ?w ?cal (scheduling_start [''q'']) ?s1"
    by (rule scheduling_leads.onward [OF scheduling_leads.stay step1])
      (use sample_ids_inj [of 1] in \<open>simp add: ids drawn_facts\<close>)
  have step2: "scheduling_step ?w ?cal ?s1 ?s2"
    using scheduling_step.claims_due [of ?w ?cal ?s1 "Aware 5" 1 60] sample_claim
    by (simp add: claim_on_def ids first_claim_def)
  have s2: "scheduling_leads ?w ?cal (scheduling_start [''q'']) ?s2"
    by (rule scheduling_leads.onward [OF s1 step2]) (use sample_ids_inj [of 2] in \<open>simp add: ids drawn_facts\<close>)
  have step3: "scheduling_step ?w ?cal ?s2 ?s3"
    using scheduling_step.fires_claim [of first_claim ?s2 ?cal, OF _ first_evaluation, of ?w "Aware 6"] first_fire
    by (simp add: fire_on_def ids c1 accepted_def action_result_def)
  have s3: "scheduling_leads ?w ?cal (scheduling_start [''q'']) ?s3"
    by (rule scheduling_leads.onward [OF s2 step3]) (use sample_ids_inj [of 2] in \<open>simp add: ids drawn_facts\<close>)
  have step4: "scheduling_step ?w ?cal ?s3 ?s4"
    using scheduling_step.claims_due [of ?w ?cal ?s3 "Aware 60000006" 1 60] second_claimed
    by (simp add: claim_on_def ids)
  have s4: "scheduling_leads ?w ?cal (scheduling_start [''q'']) ?s4"
    by (rule scheduling_leads.onward [OF s3 step4]) (use sample_ids_inj [of 3] in \<open>simp add: ids drawn_facts\<close>)
  obtain r st e where f: "fire_schedule (\<lambda>_. 0) sample_ids (Aware 60000007) 1 3 1 [60000005] 120000006 fired_before = (Inr r, st)"
      "accepted (Inr r)" "drawn st = 4" "dget (schedules st) ''n'' = Some e" "fs_schedule_id e = 1" "fs_version e = 1"
    using second_fire by blast
  let ?s5 = "\<lparr>qs_queue = st, qs_claims = [first_claim, second_claim],
      qs_fired = [(1, 1, []), (1, 1, [60000005])]\<rparr>"
  have step5: "scheduling_step ?w ?cal ?s4 ?s5"
    using scheduling_step.fires_claim [of second_claim ?s4 ?cal, OF _ second_evaluation, of ?w "Aware 60000007"] f
    by (simp add: fire_on_def ids c2)
  have "scheduling_leads ?w ?cal (scheduling_start [''q'']) ?s5"
    by (rule scheduling_leads.onward [OF s4 step5]) (use sample_ids_inj [of 4] f(3) in \<open>simp add: ids\<close>)
  then show ?thesis using f(4-6) by blast
qed

theorem occurrences_fire_once_witness:
  "\<exists>s :: scheduling. sorted_wrt (<) (fired_at 1 1 (qs_fired s)) \<and> fired_at 1 1 (qs_fired s) = [60000005] \<and>
     (\<exists>e. dget (schedules (qs_queue s)) ''n'' = Some e \<and> 60000005 < fs_next_fire_at e)"
proof -
  obtain st e where run: "scheduling_leads fired_world fired_calendar (scheduling_start [''q''])
      \<lparr>qs_queue = st, qs_claims = [first_claim, second_claim], qs_fired = [(1, 1, []), (1, 1, [60000005])]\<rparr>"
      and e: "dget (schedules st) ''n'' = Some e" "fs_schedule_id e = 1" "fs_version e = 1"
    using fired_run by blast
  have at: "fired_at 1 1 [(1, 1, []), (1, 1, [60000005])] = [60000005]" by (simp add: fired_at_def)
  let ?s = "\<lparr>qs_queue = st, qs_claims = [first_claim, second_claim],
      qs_fired = [(1, 1, []), (1, 1, [60000005])]\<rparr>"
  have "60000005 < fs_next_fire_at e"
    using occurrences_fire_once [OF run, of 1 1] e by (simp add: at)
  then show ?thesis
    using occurrences_fire_once [OF run, of 1 1] e(1) at by (intro exI [of _ ?s] conjI exI [of _ e]) simp_all
qed

end
