(* ===== verification/SchedulerRun.thy ===== *)
theory SchedulerRun
  imports SchedulerQueue
begin

text \<open>
  What the scheduler does to the queue it runs on.  The locale \<open>housekeeping\<close> states what the engine
  relies on: its calls lead from state to state, and a claim once handed out stays held.  The queue of
  \<open>SchedulerQueue\<close> provides it, with other engines and other clients acting before every call, so that
  every batch, bounded run and service loop is a run of the step relation.
\<close>

section \<open>What the engine relies on\<close>

locale housekeeping =
  fixes hk :: "'s housekeeper"
    and cal :: calendar
    and leads :: "'s \<Rightarrow> 's \<Rightarrow> bool"
    and held :: "due_schedule \<Rightarrow> 's \<Rightarrow> bool"
  assumes refl: "leads s s"
    and trans: "leads s s' \<Longrightarrow> leads s' s'' \<Longrightarrow> leads s s''"
    and stays_held: "leads s s' \<Longrightarrow> held c s \<Longrightarrow> held c s'"
    and tick: "leads s (snd (hk_tick hk s))"
    and claim: "leads s (snd (hk_claim hk wid limit lease s))"
    and claim_held: "hk_claim hk wid limit lease s = (Inr cs, s') \<Longrightarrow> c \<in> set cs \<Longrightarrow> held c s'"
    and fire: "held c s \<Longrightarrow> evaluate_due cal c = Inr ev \<Longrightarrow>
      leads s (snd (hk_fire hk (ds_schedule_id c) (ds_token c) (ds_definition_version c) (se_occurrences ev)
        (se_next_fire_at ev) s))"
    and error: "leads s (snd (hk_error hk i t v m retry s))"
begin

lemma on_answer_leads:
  assumes "leads s (snd m)" and "\<And>x s1. m = (Inr x, s1) \<Longrightarrow> leads s1 (snd (f x s1))"
  shows "leads s (snd (on_answer m f))"
proof (cases m)
  case (Pair r s1)
  then show ?thesis using assms trans by (cases r) auto
qed

lemma handle_due_leads: "held c s \<Longrightarrow> leads s (snd (handle_due cal hk en c s))"
  unfolding handle_due_def by (auto split: sum.split intro!: on_answer_leads error fire refl)

lemma process_claims_leads:
  "\<forall>c \<in> set cs. held c s \<Longrightarrow> leads s (snd (process_claims cal hk en cs n m s))"
proof (induction cs arbitrary: n m s)
  case (Cons c cs)
  have h: "leads s (snd (handle_due cal hk en c s))" using Cons.prems by (simp add: handle_due_leads)
  show ?case
    unfolding process_claims.simps
  proof (rule on_answer_leads [OF h])
    fix x s1 assume "handle_due cal hk en c s = (Inr x, s1)"
    then have "\<forall>c \<in> set cs. held c s1" using h Cons.prems stays_held by auto
    then show "leads s1 (snd ((case x of (j, e) \<Rightarrow> \<lambda>s1. process_claims cal hk en cs (n + j) (m + e) s1) s1))"
      using Cons.IH by (simp add: split_beta)
  qed
qed (simp add: refl)

lemma process_batch_leads: "leads s (snd (process_batch cal hk en s))"
  unfolding process_batch_def
proof (rule on_answer_leads [OF claim])
  fix cs s1 assume c: "hk_claim hk (en_worker_id en) (en_claim_limit en) (en_lease_seconds en) s = (Inr cs, s1)"
  have "\<forall>c \<in> set cs. held c s1" using claim_held [OF c] by blast
  then show "leads s1 (snd (on_answer (process_claims cal hk en cs 0 0 s1)
      (\<lambda>(fired, failed) s2. (Inr (int (length cs), fired, failed), s2))))"
    by (intro on_answer_leads process_claims_leads) (auto simp: refl split_beta)
qed

lemma once_loop_leads: "leads s (snd (once_loop n cal hk en budget rd t s))"
proof (induction n arbitrary: t s)
  case (Suc n)
  have "leads s (snd (on_answer (process_batch cal hk en s) (\<lambda>b s1. if fst b = 0 then (Inr (f b), s1)
      else once_loop n cal hk en budget rd (count_batch b t) s1)))" for f :: "int \<times> int \<times> int \<Rightarrow> run_summary"
    by (rule on_answer_leads [OF process_batch_leads]) (simp add: refl Suc)
  then show ?case by (simp add: Let_def refl)
qed (simp add: refl)

lemma run_once_leads: "leads s (snd (run_once cal hk en max_batches budget stopped rd s))"
  unfolding run_once_def by (auto simp: refl intro!: on_answer_leads tick once_loop_leads)

lemma run_cycle_leads: "leads s (snd (run_cycle cal hk en stopped s))"
proof (cases "hk_tick hk s")
  case (Pair r s1)
  then have t: "leads s s1" using tick [of s] by simp
  moreover have "leads s (snd (process_batch cal hk en s1))"
    using trans [OF t process_batch_leads] .
  ultimately show ?thesis
    using Pair by (auto simp: run_cycle_def split_beta split: sum.split prod.split)
qed

lemma run_service_leads: "leads s (snd (run_service cal hk en sv backoff rs s))"
proof (induction rs arbitrary: backoff s)
  case (Cons r rs)
  show ?case
  proof (cases "cy_stopped r")
    case False
    show ?thesis
      using trans [OF run_cycle_leads [of s en "cy_stopped_after_tick r"] Cons] False
      by (simp add: split_beta)
  qed (simp add: refl)
qed (simp add: refl)

end

section \<open>The queue with others acting on it\<close>

text \<open>
  What other engines and other clients may do between two calls: any call but a fire of their own
  making, and claims, fires and error reports as an engine makes them.
\<close>

datatype deed =
    Calls call
  | Claims clock int int
  | Fires clock nat
  | Reports clock uuid uuid int int

fun do_deed :: "world \<Rightarrow> calendar \<Rightarrow> deed \<Rightarrow> scheduling \<Rightarrow> scheduling" where
  "do_deed w cal (Calls c) s =
     (if call_ok c \<and> \<not> fires c then s\<lparr>qs_queue := perform w c (qs_queue s)\<rparr> else s)"
| "do_deed w cal (Claims clk limit lease) s = snd (claim_on w clk limit lease s)"
| "do_deed w cal (Fires clk k) s =
     (if k < length (qs_claims s)
      then let c = qs_claims s ! k in
        case evaluate_due cal (due_of_claim c) of
          Inl e \<Rightarrow> s
        | Inr ev \<Rightarrow> snd (fire_on w clk (sc_schedule_id c) (sc_token c) (sc_version c) (se_occurrences ev)
            (se_next_fire_at ev) s)
      else s)"
| "do_deed w cal (Reports clk i t v n) s = snd (error_on clk i t v n s)"

text \<open>Before each call of the engine others act, and the clock shows some time.\<close>

record turn =
  tn_clock :: clock
  tn_deeds :: "deed list"

type_synonym turns = "nat \<Rightarrow> turn"

definition arrive :: "world \<Rightarrow> calendar \<Rightarrow> turns \<Rightarrow> nat \<times> scheduling \<Rightarrow> scheduling" where
  "arrive w cal env s = fold (do_deed w cal) (tn_deeds (env (fst s))) (snd s)"

definition queue_housekeeper :: "world \<Rightarrow> calendar \<Rightarrow> turns \<Rightarrow> (nat \<times> scheduling) housekeeper" where
  "queue_housekeeper w cal env =
     \<lparr>hk_tick = (\<lambda>s. (Inr (), (Suc (fst s), arrive w cal env s))),
      hk_claim = (\<lambda>wid limit lease s.
        case claim_on w (tn_clock (env (fst s))) limit lease (arrive w cal env s) of
          (r, s1) \<Rightarrow> (map_sum id (map due_of_claim) r, (Suc (fst s), s1))),
      hk_fire = (\<lambda>i t v oc nx s.
        case fire_on w (tn_clock (env (fst s))) i t v oc nx (arrive w cal env s) of
          (r, s1) \<Rightarrow> (r, (Suc (fst s), s1))),
      hk_error = (\<lambda>i t v m retry s.
        case error_on (tn_clock (env (fst s))) i t v retry (arrive w cal env s) of
          (r, s1) \<Rightarrow> (r, (Suc (fst s), s1)))\<rparr>"

abbreviation steps :: "world \<Rightarrow> calendar \<Rightarrow> scheduling \<Rightarrow> scheduling \<Rightarrow> bool" where
  "steps w cal \<equiv> (scheduling_step w cal)\<^sup>*\<^sup>*"

lemma scheduling_step_drawn: "scheduling_step w cal s s' \<Longrightarrow> drawn (qs_queue s) \<le> drawn (qs_queue s')"
proof (induction rule: scheduling_step.induct)
  case (claims_due s clk limit lease)
  show ?case using perform_drawn [of "qs_queue s" w "ClaimSchedules clk limit lease"]
    by (simp add: claim_on_def split_beta)
next
  case (fires_claim c s ev clk)
  show ?case
    using perform_drawn [of "qs_queue s" w "FireSchedule clk (sc_schedule_id c) (sc_token c) (sc_version c)
        (se_occurrences ev) (se_next_fire_at ev)"]
    by (simp add: fire_on_def split_beta)
next
  case (reports_error s clk i t v n)
  show ?case using perform_drawn [of "qs_queue s" w "ScheduleError clk i t v n"]
    by (simp add: error_on_def split_beta)
qed (simp add: perform_drawn)

lemma scheduling_step_claims: "scheduling_step w cal s s' \<Longrightarrow> set (qs_claims s) \<subseteq> set (qs_claims s')"
  by (induction rule: scheduling_step.induct) (auto simp: claim_on_def fire_on_def error_on_def split_beta)

lemma steps_claims: "steps w cal s s' \<Longrightarrow> set (qs_claims s) \<subseteq> set (qs_claims s')"
  by (induction rule: rtranclp_induct) (auto dest: scheduling_step_claims)

lemma steps_lead:
  "steps w cal s s' \<Longrightarrow> inj_on (w_ids w) {..<drawn (qs_queue s')} \<Longrightarrow> scheduling_leads w cal s s'"
proof (induction rule: rtranclp_induct)
  case (step y z)
  have "{..<drawn (qs_queue y)} \<subseteq> {..<drawn (qs_queue z)}" using scheduling_step_drawn [OF step(2)] by auto
  then have "scheduling_leads w cal s y" using step(3) inj_on_subset [OF step(4)] by blast
  then show ?case using step(2,4) by (rule scheduling_leads.onward)
qed (rule scheduling_leads.stay)

lemma do_deed_steps: "steps w cal s (do_deed w cal d s)"
proof (cases d)
  case (Fires clk k)
  then show ?thesis
    using scheduling_step.fires_claim [of "qs_claims s ! k" s cal _ w clk]
    by (cases "evaluate_due cal (due_of_claim (qs_claims s ! k))") (auto simp: Let_def)
qed (auto intro: scheduling_step.intros)

lemma arrive_steps: "steps w cal (snd s) (arrive w cal env s)"
proof -
  have "steps w cal s0 (fold (do_deed w cal) ds s0)" for s0 ds
  proof (induction ds arbitrary: s0)
    case (Cons d ds)
    show ?case using rtranclp_trans [OF do_deed_steps Cons] by simp
  qed simp
  then show ?thesis by (simp add: arrive_def)
qed

lemma arrive_then: "scheduling_step w cal (arrive w cal env s) s' \<Longrightarrow> steps w cal (snd s) s'"
  by (rule rtranclp.rtrancl_into_rtrancl [OF arrive_steps])

interpretation engine: housekeeping "queue_housekeeper w cal env" cal
    "\<lambda>s s'. steps w cal (snd s) (snd s')" "\<lambda>d s. \<exists>c \<in> set (qs_claims (snd s)). d = due_of_claim c"
  for w cal env
proof (unfold_locales, goal_cases)
  case (2 s s' s'')
  then show ?case by (rule rtranclp_trans)
next
  case (3 s s' c)
  then show ?case using steps_claims by blast
next
  case (4 s)
  then show ?case using arrive_steps by (simp add: queue_housekeeper_def)
next
  case (5 s wid limit lease)
  then show ?case
    using arrive_then [OF scheduling_step.claims_due] by (simp add: queue_housekeeper_def split_beta)
next
  case (6 wid limit lease s cs s' c)
  then obtain r s1 where r: "claim_on w (tn_clock (env (fst s))) limit lease (arrive w cal env s) = (r, s1)"
      "map_sum id (map due_of_claim) r = Inr cs" "snd s' = s1"
    by (cases "claim_on w (tn_clock (env (fst s))) limit lease (arrive w cal env s)")
      (auto simp: queue_housekeeper_def)
  then obtain cl where cl: "r = Inr cl" "cs = map due_of_claim cl" by (cases r) auto
  then have "set cl \<subseteq> set (qs_claims s1)" using r(1) by (auto simp: claim_on_def split: prod.splits)
  then show ?case using 6(2) cl(2) r(3) by auto
next
  case (7 d s ev)
  then obtain c where c: "c \<in> set (qs_claims (snd s))" "d = due_of_claim c" by blast
  have "c \<in> set (qs_claims (arrive w cal env s))" using steps_claims [OF arrive_steps] c(1) by blast
  then show ?case
    using arrive_then [OF scheduling_step.fires_claim] 7(2) c(2)
    by (simp add: queue_housekeeper_def split_beta due_of_claim_def)
next
  case (8 s i t v m retry)
  then show ?case
    using arrive_then [OF scheduling_step.reports_error] by (simp add: queue_housekeeper_def split_beta)
qed simp

text \<open>
  C33: The scheduler is one of the engines of the step relation: whatever other engines and other clients
  do between its calls, a bounded run and the service loop only make steps of
  \<open>scheduling_step\<close>, so what holds of all its runs (no occurrence fires twice) holds of theirs.
\<close>

theorem scheduler_runs_are_runs:
  assumes "s' = snd (run_once cal (queue_housekeeper w cal env) en max_batches budget stopped rd (n, s)) \<or>
      s' = snd (run_service cal (queue_housekeeper w cal env) en sv backoff rs (n, s))"
    and "inj_on (w_ids w) {..<drawn (qs_queue (snd s'))}"
  shows "scheduling_leads w cal s (snd s')"
  using assms(1) engine.run_once_leads [of w cal "(n, s)" env] engine.run_service_leads [of w cal "(n, s)" env]
  by (intro steps_lead [OF _ assms(2)]) auto

section \<open>A run over a concrete queue\<close>

definition run_turns :: turns where
  "run_turns k = \<lparr>tn_clock = Aware (int k + 4), tn_deeds = []\<rparr>"

definition run_engine :: engine where
  "run_engine = \<lparr>en_worker_id = ''w'', en_claim_limit = 1, en_lease_seconds = 60, en_error_retry_seconds = 30\<rparr>"

definition run_queue :: scheduling where
  "run_queue = \<lparr>qs_queue = sample_scheduled, qs_claims = [], qs_fired = []\<rparr>"

definition run_fired :: scheduling where
  "run_fired = \<lparr>qs_queue = put_sched entry_1 sample_claimed, qs_claims = [first_claim], qs_fired = [(1, 1, [])]\<rparr>"

definition run_reading :: "nat \<Rightarrow> turn_reading" where
  "run_reading k = \<lparr>tr_elapsed = of_nat k, tr_stopped = False\<rparr>"

lemma nothing_more:
  "claim_schedules sample_ids (Aware 7) 1 60 (put_sched entry_1 sample_claimed) =
     (Inr [], put_sched entry_1 sample_claimed)"
  using sample_drawn
  by (simp add: claim_schedules_def ensure_open_def schedule_candidates_def put_sched_def sample_schedules
      schedule_claimable_def entry_1_fields)

abbreviation run_keeper :: "(nat \<times> scheduling) housekeeper" where
  "run_keeper \<equiv> queue_housekeeper fired_world fired_calendar run_turns"

lemma first_batch:
  "process_batch fired_calendar run_keeper run_engine (1, run_queue) = (Inr (1, 0, 0), (3, run_fired))"
proof -
  have c1: "ds_schedule_id (due_of_claim first_claim) = 1" "ds_token (due_of_claim first_claim) = 2"
    "ds_definition_version (due_of_claim first_claim) = 1"
    by (simp_all add: due_of_claim_def first_claim_def schedule_claim_of_def new_schedule_def Let_def)
  have claim: "hk_claim run_keeper ''w'' 1 60 (1, run_queue) =
      (Inr [due_of_claim first_claim], (2, \<lparr>qs_queue = sample_claimed, qs_claims = [first_claim], qs_fired = []\<rparr>))"
    using sample_claim
    by (simp add: queue_housekeeper_def claim_on_def arrive_def run_turns_def run_queue_def fired_world_def
        first_claim_def)
  have fire: "hk_fire run_keeper 1 2 1 [] 60000005 (2, \<lparr>qs_queue = sample_claimed, qs_claims = [first_claim], qs_fired = []\<rparr>) =
      (Inr (action_result SO_INITIALIZED 0 entry_1), (3, run_fired))"
    using first_fire
    by (simp add: queue_housekeeper_def fire_on_def arrive_def run_turns_def run_fired_def fired_world_def
        accepted_def action_result_def)
  show ?thesis
    using claim fire first_evaluation c1
    by (simp add: process_batch_def run_engine_def handle_due_def action_result_def)
qed

lemma second_batch:
  "process_batch fired_calendar run_keeper run_engine (3, run_fired) = (Inr (0, 0, 0), (4, run_fired))"
  using nothing_more
  by (simp add: process_batch_def run_engine_def queue_housekeeper_def claim_on_def arrive_def run_turns_def
      run_fired_def fired_world_def)

lemma sample_run_once:
  "run_once fired_calendar run_keeper run_engine 2 10 False run_reading (0, run_queue) =
     (Inr \<lparr>ru_outcome = FIRED, ru_batches = 1, ru_schedules_claimed = 1, ru_jobs_enqueued = 0,
       ru_errors_recorded = 0\<rparr>, (4, run_fired))"
proof -
  have "hk_tick run_keeper (0, run_queue) = (Inr (), (1, run_queue))"
    by (simp add: queue_housekeeper_def arrive_def run_turns_def)
  then show ?thesis
    using first_batch second_batch
    by (simp add: run_once_def run_reading_def empty_summary_def count_batch_def Let_def numeral_2_eq_2)
qed

theorem scheduler_runs_are_runs_witness:
  "scheduling_leads fired_world fired_calendar run_queue run_fired \<and> qs_fired run_fired = [(1, 1, [])]"
proof -
  have "scheduling_leads fired_world fired_calendar run_queue (snd (4 :: nat, run_fired))"
    by (rule scheduler_runs_are_runs [of "(4, run_fired)" fired_calendar fired_world run_turns run_engine 2 10 False
          run_reading 0 run_queue])
      (use sample_run_once sample_ids_inj [of 2] sample_drawn in
        \<open>simp_all add: run_fired_def fired_world_def put_sched_def\<close>)
  then show ?thesis by (simp add: run_fired_def)
qed

section \<open>What a bounded run reports\<close>

definition summary_ok :: "run_summary \<Rightarrow> bool" where
  "summary_ok t \<longleftrightarrow> 0 \<le> ru_batches t \<and> ru_batches t \<le> ru_schedules_claimed t \<and>
     0 \<le> ru_errors_recorded t \<and> ru_errors_recorded t \<le> ru_schedules_claimed t"

lemma process_claims_errors:
  "process_claims cal hk en cs n m s = (Inr (n', m'), s') \<Longrightarrow> m \<le> m' \<and> m' \<le> m + int (length cs)"
proof (induction cs arbitrary: n m s)
  case (Cons c cs)
  obtain r s1 where h: "handle_due cal hk en c s = (r, s1)" by (cases rule: prod.exhaust)
  obtain j e where r: "r = Inr (j, e)" using Cons.prems h by (cases r) auto
  have "e \<in> {0, 1}"
    using h r by (auto simp: handle_due_def on_answer_def split: sum.splits prod.splits)
  then show ?case using Cons.IH [of "n + j" "m + e" s1] Cons.prems h r by auto
qed simp

lemma process_batch_counts:
  assumes "process_batch cal hk en s = (Inr (claimed, fired, failed), s')"
  shows "0 \<le> claimed \<and> 0 \<le> failed \<and> failed \<le> claimed"
proof -
  obtain r s1 where c: "hk_claim hk (en_worker_id en) (en_claim_limit en) (en_lease_seconds en) s = (r, s1)"
    by (cases rule: prod.exhaust)
  obtain cs where cs: "r = Inr cs" using assms c by (cases r) (auto simp: process_batch_def)
  obtain q s2 where p: "process_claims cal hk en cs 0 0 s1 = (q, s2)" by (cases rule: prod.exhaust)
  obtain n m where "q = Inr (n, m)" using assms c cs p by (cases q) (auto simp: process_batch_def)
  then show ?thesis using process_claims_errors [of cal hk en cs 0 0 s1 n m s2] assms c cs p
    by (auto simp: process_batch_def)
qed

lemma once_loop_counts:
  "once_loop n cal hk en budget rd t s = (Inr t', s') \<Longrightarrow> summary_ok t \<Longrightarrow>
   summary_ok t' \<and> ru_batches t \<le> ru_batches t' \<and> ru_batches t' \<le> ru_batches t + int n \<and>
   (ru_outcome t' = NOTHING_DUE \<longrightarrow> ru_schedules_claimed t' = 0) \<and>
   (ru_outcome t' = FIRED \<longrightarrow> 0 < ru_schedules_claimed t') \<and>
   (ru_outcome t' = BUDGET_EXHAUSTED \<longrightarrow> ru_batches t' = ru_batches t + int n \<or>
      \<not> tr_elapsed (rd (nat (ru_batches t'))) < budget \<or> tr_stopped (rd (nat (ru_batches t'))))"
proof (induction n arbitrary: t s)
  case 0
  then show ?case by (auto simp: summary_ok_def)
next
  case (Suc n)
  let ?r = "rd (nat (ru_batches t))"
  show ?case
  proof (cases "\<not> tr_elapsed ?r < budget \<or> tr_stopped ?r")
    case True
    then show ?thesis using Suc.prems by (auto simp: summary_ok_def)
  next
    case False
    obtain q s1 where p: "process_batch cal hk en s = (q, s1)" by (cases rule: prod.exhaust)
    obtain c f e where q: "q = Inr (c, f, e)"
      using Suc.prems(1) False p by (cases q) (auto simp: Let_def)
    note n = process_batch_counts [OF p [unfolded q]]
    show ?thesis
    proof (cases "c = 0")
      case True
      then show ?thesis using Suc.prems False p q by (auto simp: summary_ok_def Let_def split: if_splits)
    next
      case c: False
      have "once_loop n cal hk en budget rd (count_batch (c, f, e) t) s1 = (Inr t', s')"
        using Suc.prems(1) False p q c by (simp add: Let_def)
      moreover have "summary_ok (count_batch (c, f, e) t)"
        using Suc.prems(2) n c by (auto simp: summary_ok_def count_batch_def)
      ultimately show ?thesis
        using Suc.IH [of "count_batch (c, f, e) t" s1] by (simp add: count_batch_def add.assoc)
    qed
  qed
qed

text \<open>
  A bounded run over any queue stays within its budget and reports it truly: at most
  \<open>max_batches\<close> batches, each counted batch claimed a schedule, at most one error per claim;
  \<open>nothing_due\<close> means that nothing was claimed, \<open>fired\<close> that something was, and
  \<open>budget_exhausted\<close> that the batches or the time were used up or a stop was requested.
\<close>

theorem run_once_within_budget:
  assumes "run_once cal hk en max_batches budget stopped rd s = (Inr t, s')"
  shows "summary_ok t \<and> ru_batches t \<le> max_batches \<and>
    (ru_outcome t = NOTHING_DUE \<longrightarrow> ru_schedules_claimed t = 0) \<and>
    (ru_outcome t = FIRED \<longrightarrow> 0 < ru_schedules_claimed t) \<and>
    (ru_outcome t = BUDGET_EXHAUSTED \<longrightarrow> ru_batches t = max_batches \<or>
       \<not> tr_elapsed (rd (nat (ru_batches t))) < budget \<or> tr_stopped (rd (nat (ru_batches t))))"
proof -
  have b: "1 \<le> max_batches" using assms by (auto simp: run_once_def split: if_splits)
  show ?thesis
  proof (cases stopped)
    case True
    then show ?thesis
      using assms b by (auto simp: run_once_def empty_summary_def summary_ok_def split: if_splits)
  next
    case False
    then obtain s1 where "once_loop (nat max_batches) cal hk en budget rd empty_summary s1 = (Inr t, s')"
      using assms by (auto simp: run_once_def on_answer_def split: if_splits sum.splits prod.splits)
    then show ?thesis
      using once_loop_counts [of "nat max_batches" cal hk en budget rd empty_summary s1 t s'] b
      by (simp add: empty_summary_def summary_ok_def)
  qed
qed

theorem run_once_within_budget_witness:
  "\<exists>t s'. run_once fired_calendar run_keeper run_engine 2 10 False run_reading (0, run_queue) = (Inr t, s') \<and>
     summary_ok t \<and> ru_batches t \<le> 2 \<and> ru_outcome t = FIRED"
  using run_once_within_budget [OF sample_run_once] sample_run_once by auto

section \<open>Pauses of the service loop\<close>

definition jitter_ok :: "rat \<Rightarrow> cycle_reading list \<Rightarrow> bool" where
  "jitter_ok j rs \<longleftrightarrow> (\<forall>r \<in> set rs. - j \<le> cy_draw r \<and> cy_draw r \<le> j)"

definition longest_pause :: "scheduler_service \<Rightarrow> rat" where
  "longest_pause sv = max (ss_poll_interval sv) (ss_backoff_cap sv) * (1 + ss_jitter sv)"

lemma cycle_delay_bounds:
  assumes "cycle_delay sv ok backoff = (delay, backoff')" and "0 < ss_poll_interval sv" and "0 < ss_backoff_cap sv"
    and "0 < backoff" and "backoff \<le> max (ss_poll_interval sv) (ss_backoff_cap sv)"
  shows "0 < delay \<and> delay \<le> max (ss_poll_interval sv) (ss_backoff_cap sv) \<and>
    0 < backoff' \<and> backoff' \<le> max (ss_poll_interval sv) (ss_backoff_cap sv)"
  using assms by (auto simp: cycle_delay_def split: if_splits)

lemma cycle_pause_bounds:
  assumes "0 < delay" and "delay \<le> m" and "- j \<le> drift" and "drift \<le> j" and "j \<le> 1"
  shows "1 / 100 \<le> cycle_pause delay drift \<and> cycle_pause delay drift \<le> max (1 / 100) (m * (1 + j))"
proof -
  have "delay * (1 + drift) \<le> m * (1 + j)" using assms by (intro mult_mono) auto
  then show ?thesis by (auto simp: cycle_pause_def)
qed

lemma run_service_pauses:
  assumes "0 < ss_poll_interval sv" and "0 < ss_backoff_cap sv" and "ss_jitter sv \<le> 1"
  shows "0 < backoff \<Longrightarrow> backoff \<le> max (ss_poll_interval sv) (ss_backoff_cap sv) \<Longrightarrow> jitter_ok (ss_jitter sv) rs \<Longrightarrow>
    \<forall>p \<in> set (fst (run_service cal hk en sv backoff rs s)). 1 / 100 \<le> p \<and> p \<le> max (1 / 100) (longest_pause sv)"
proof (induction rs arbitrary: backoff s)
  case (Cons r rs)
  obtain ok s1 where c: "run_cycle cal hk en (cy_stopped_after_tick r) s = (ok, s1)" by (cases rule: prod.exhaust)
  obtain d b where d: "cycle_delay sv ok backoff = (d, b)" by (cases rule: prod.exhaust)
  note bd = cycle_delay_bounds [OF d assms(1,2) Cons.prems(1,2)]
  have j: "jitter_ok (ss_jitter sv) rs" "- ss_jitter sv \<le> cy_draw r" "cy_draw r \<le> ss_jitter sv"
    using Cons.prems(3) by (simp_all add: jitter_ok_def)
  have "\<forall>p \<in> set (fst (run_service cal hk en sv b rs s1)). 1 / 100 \<le> p \<and> p \<le> max (1 / 100) (longest_pause sv)"
    using Cons.IH [of b s1] bd j(1) by blast
  moreover have "1 / 100 \<le> cycle_pause d (cy_draw r) \<and> cycle_pause d (cy_draw r) \<le> max (1 / 100) (longest_pause sv)"
    unfolding longest_pause_def by (rule cycle_pause_bounds) (use bd j assms(3) in auto)
  ultimately show ?case using c d by (simp add: split_beta)
qed simp

text \<open>
  With settings that validate, every pause of the service loop lasts at least a hundredth of a second and
  at most the larger of the poll interval and the backoff cap, stretched by the jitter, however many
  cycles fail in a row.
\<close>

theorem service_pauses_bounded:
  assumes "scheduler_settings_valid g" and "scheduler_from_settings name g = (en, sv)"
    and "jitter_ok (ss_jitter sv) rs"
  shows "\<forall>p \<in> set (fst (run_service cal hk en sv (ss_poll_interval sv) rs s)).
    1 / 100 \<le> p \<and> p \<le> longest_pause sv"
proof -
  have v: "1 / 10 \<le> ss_poll_interval sv" "1 / 10 \<le> ss_backoff_cap sv" "0 \<le> ss_jitter sv" "ss_jitter sv \<le> 1 / 2"
    using assms(1,2) by (auto simp: scheduler_settings_valid_def scheduler_from_settings_def)
  have "max (ss_poll_interval sv) (ss_backoff_cap sv) * 1 \<le> longest_pause sv"
    unfolding longest_pause_def by (rule mult_left_mono) (use v in auto)
  then have "max (1 / 100) (longest_pause sv) = longest_pause sv" using v by simp
  then show ?thesis
    using run_service_pauses [of sv "ss_poll_interval sv" rs cal hk en s] v assms(3) by auto
qed

definition sample_settings :: scheduler_settings where
  "sample_settings = \<lparr>sg_dsn = ''dsn'', sg_expected_environment = ''test'', sg_expected_installation_id = None,
     sg_allow_production = False, sg_worker_id = None, sg_poll_interval = 5, sg_jitter = 1 / 10,
     sg_backoff_cap = 30, sg_claim_limit = 10, sg_lease_seconds = 60, sg_error_retry_seconds = 30,
     sg_pool_size = 2\<rparr>"

text \<open>A queue that never answers.\<close>

definition down :: "unit housekeeper" where
  "down = \<lparr>hk_tick = (\<lambda>s. (Inl (raise_code UNAVAILABLE), s)), hk_claim = (\<lambda>wid lm l s. (Inl (raise_code UNAVAILABLE), s)),
     hk_fire = (\<lambda>i t v oc nx s. (Inl (raise_code UNAVAILABLE), s)),
     hk_error = (\<lambda>i t v m n s. (Inl (raise_code UNAVAILABLE), s))\<rparr>"

theorem service_pauses_bounded_witness:
  "\<exists>en sv. scheduler_from_settings ''h'' sample_settings = (en, sv) \<and>
     fst (run_service fired_calendar down en sv 5
       (replicate 5 \<lparr>cy_stopped = False, cy_stopped_after_tick = False, cy_draw = 0\<rparr>) ()) = [5, 10, 20, 30, 30] \<and>
     list_all (\<lambda>p. 1 / 100 \<le> p \<and> p \<le> longest_pause sv) [5, 10, 20, 30, 30]"
proof -
  let ?sv = "\<lparr>ss_poll_interval = 5, ss_jitter = 1 / 10, ss_backoff_cap = 30\<rparr>"
  let ?rs = "replicate 5 \<lparr>cy_stopped = False, cy_stopped_after_tick = False, cy_draw = 0\<rparr>"
  have v: "scheduler_settings_valid sample_settings"
    by (simp add: scheduler_settings_valid_def sample_settings_def production_interlock_def between_def str_len_def)
  obtain en where en: "scheduler_from_settings ''h'' sample_settings = (en, ?sv)"
    by (simp add: scheduler_from_settings_def sample_settings_def)
  have j: "jitter_ok (ss_jitter ?sv) ?rs" by (simp add: jitter_ok_def)
  have e: "fst (run_service fired_calendar down en ?sv 5 ?rs ()) = [5, 10, 20, 30, 30]"
    by (simp add: numeral_eq_Suc run_cycle_def down_def cycle_delay_def cycle_pause_def)
  have "list_all (\<lambda>p. 1 / 100 \<le> p \<and> p \<le> longest_pause ?sv) [5, 10, 20, 30, 30]"
    using service_pauses_bounded [OF v en j, of fired_calendar down "()"] e
    by (simp only: list_all_iff scheduler_service.simps)
  then show ?thesis using en e by blast
qed

section \<open>The readiness report\<close>

definition target_ready :: "string option \<Rightarrow> uuid option \<Rightarrow> bool \<Rightarrow> target_identity \<Rightarrow> json list \<Rightarrow> bool" where
  "target_ready expected_environment expected_installation_id allow_production tg active \<longleftrightarrow>
     ti_environment tg \<noteq> ''unbound'' \<and>
     (\<forall>e. expected_environment = Some e \<longrightarrow> e = [] \<or> ti_environment tg = e) \<and>
     (\<forall>i. expected_installation_id = Some i \<longrightarrow> ti_installation_id tg = i) \<and>
     (ti_environment tg = ''production'' \<longrightarrow> allow_production) \<and>
     JStr ''target_attestation'' \<in> set active \<and> JStr ''scheduler_v2'' \<in> set active"

text \<open>
  The doctor calls a target ready exactly when it is bound, is the expected environment and
  installation, is not an unconfirmed production, and has both capabilities active; a target that is ready
  comes with its health, and one that is not with an issue.
\<close>

theorem doctor_ready_iff:
  assumes "scheduler_doctor identity health ee ei ap s = (Inr r, s')"
  shows "\<exists>tg s1 active. identity s = (Inr tg, s1) \<and> dr_target r = tg \<and>
    active_capabilities (ti_capabilities tg) = Inr active \<and>
    dr_ready r = target_ready ee ei ap tg active \<and> (dr_ready r \<longleftrightarrow> dr_issues r = []) \<and>
    (dr_ready r \<longrightarrow> dr_health r \<noteq> None)"
proof -
  obtain tg s1 where i: "identity s = (Inr tg, s1)"
    using assms by (cases "identity s"; cases "fst (identity s)") (auto simp: scheduler_doctor_def)
  obtain active where a: "active_capabilities (ti_capabilities tg) = Inr active"
    using assms i by (cases "active_capabilities (ti_capabilities tg)") (auto simp: scheduler_doctor_def)
  have t: "target_issues ee ei ap tg = [] \<longleftrightarrow> ti_environment tg \<noteq> ''unbound'' \<and>
     (\<forall>e. ee = Some e \<longrightarrow> e = [] \<or> ti_environment tg = e) \<and> (\<forall>i. ei = Some i \<longrightarrow> ti_installation_id tg = i) \<and>
     (ti_environment tg = ''production'' \<longrightarrow> ap)"
    by (auto simp: target_issues_def split: option.split)
  show ?thesis
  proof (cases "JStr ''scheduler_v2'' \<in> set active")
    case False
    then show ?thesis using assms i a by (auto simp: scheduler_doctor_def target_ready_def Let_def)
  next
    case True
    obtain h where "health s1 = (Inr h, s')"
        "r = \<lparr>dr_ready = (target_issues ee ei ap tg @ (if JStr ''target_attestation'' \<notin> set active
             then [''target_attestation capability is not active''] else []) = []), dr_target = tg,
           dr_health = Some h, dr_issues = target_issues ee ei ap tg @ (if JStr ''target_attestation'' \<notin> set active
             then [''target_attestation capability is not active''] else [])\<rparr>"
      using assms i a True
      by (cases "health s1"; cases "fst (health s1)") (auto simp: scheduler_doctor_def Let_def)
    then show ?thesis using i a True t by (simp add: target_ready_def)
  qed
qed

theorem doctor_ready_iff_witness:
  "\<exists>r. scheduler_doctor (\<lambda>s. (Inr \<lparr>ti_installation_id = 1, ti_environment = ''test'',
       ti_capabilities = [(''active'', JArr [JStr ''target_attestation'', JStr ''scheduler_v2''])]\<rparr>, s))
     (\<lambda>s. (Inr (), s)) (Some ''test'') None False () = (Inr r, ()) \<and> dr_ready r \<and> dr_issues r = []"
proof -
  let ?id = "\<lambda>s :: unit. (Inr \<lparr>ti_installation_id = 1, ti_environment = ''test'',
       ti_capabilities = [(''active'', JArr [JStr ''target_attestation'', JStr ''scheduler_v2''])]\<rparr>, s)"
  obtain r where r: "scheduler_doctor ?id (\<lambda>s. (Inr (), s)) (Some ''test'') None False () = (Inr r, ())"
    by (simp add: scheduler_doctor_def active_capabilities_def Let_def)
  show ?thesis
    using doctor_ready_iff [OF r] r by (auto simp: target_ready_def active_capabilities_def)
qed

end
