(* ===== verification/ScheduleManifest.thy ===== *)
theory ScheduleManifest
  imports Scheduler "HOL-Library.Multiset"
begin

text \<open>
  The manifests of \<open>scheduler.py\<close>: schedules declared in a file, compiled to definitions with a hash,
  compared with the schedules that the database holds for the same namespace and source, and applied.
  YAML, SHA-256, the parser of a stored definition and the database are parameters; the database is a
  store that lists the owned schedules page by page and puts one.
\<close>

section \<open>The manifest\<close>

datatype overlap_policy = FORBID_OVERLAP | ALLOW_OVERLAP

fun overlap_value :: "overlap_policy \<Rightarrow> string" where
  "overlap_value FORBID_OVERLAP = ''forbid''"
| "overlap_value ALLOW_OVERLAP = ''allow''"

record manifest_schedule =
  ms_task :: string
  ms_queue :: string
  ms_interval_seconds :: "int option"
  ms_cron :: "string option"
  ms_timezone :: string
  ms_catchup :: catchup_policy
  ms_max_catchup :: int
  ms_overlap :: overlap_policy
  ms_max_lateness_seconds :: "int option"
  ms_state :: schedule_state
  ms_display_name :: "string option"
  ms_payload :: jobj
  ms_headers :: jobj
  ms_priority :: "int option"
  ms_max_attempts :: "int option"
  ms_lease_seconds :: "int option"
  ms_backoff_mode :: "backoff_mode option"
  ms_backoff_base :: "int option"
  ms_backoff_cap :: "int option"
  ms_concurrency_key :: "string option"
  ms_affinity_key :: "string option"

text \<open>The constraints of the fields, then \<open>_reserved_header\<close> and \<open>_recurrence_shape\<close>.\<close>

definition manifest_fields_ok :: "manifest_schedule \<Rightarrow> bool" where
  "manifest_fields_ok m \<longleftrightarrow>
     wire_name (ms_task m) \<and> queue_name (ms_queue m) \<and>
     opt_ok (between 60 31536000) (ms_interval_seconds m) \<and> opt_ok (str_len 1 255) (ms_cron m) \<and>
     str_len 1 255 (ms_timezone m) \<and> between 1 100 (ms_max_catchup m) \<and>
     opt_ok (between 0 31536000) (ms_max_lateness_seconds m) \<and> ms_state m \<noteq> SCHED_RETIRED \<and>
     opt_ok (str_len 1 255) (ms_display_name m) \<and>
     opt_ok (between 0 1000) (ms_priority m) \<and> opt_ok (between 1 100) (ms_max_attempts m) \<and>
     opt_ok (between 15 86400) (ms_lease_seconds m) \<and> opt_ok (between 0 86400) (ms_backoff_base m) \<and>
     opt_ok (between 0 604800) (ms_backoff_cap m) \<and> opt_ok (str_len 1 255) (ms_concurrency_key m) \<and>
     opt_ok (str_len 1 255) (ms_affinity_key m)"

definition recurrence_shape :: "manifest_schedule \<Rightarrow> exc + unit" where
  "recurrence_shape m =
     (if (ms_interval_seconds m = None) = (ms_cron m = None)
      then Inl (ValidationError ''configure exactly one of interval_seconds or cron'')
      else if ms_interval_seconds m \<noteq> None \<and> ms_timezone m \<noteq> ''UTC''
      then Inl (ValidationError ''timezone applies only to cron schedules'')
      else if ms_catchup m = SKIP \<and> ms_max_catchup m \<noteq> 1
      then Inl (ValidationError ''skip schedules use max_catchup=1'')
      else Inr ())"

definition manifest_schedule_init :: "manifest_schedule \<Rightarrow> exc + manifest_schedule" where
  "manifest_schedule_init m =
     (if \<not> manifest_fields_ok m then Inl (ValidationError ''manifest schedule'')
      else if ''taskq_schedule'' \<in> set (dkeys (ms_headers m))
      then Inl (ValidationError ''taskq_schedule header is package-owned'')
      else ebind (recurrence_shape m) (\<lambda>_. Inr m))"

text \<open>\<open>definition\<close>: the target's own model bounds payload and headers, which the manifest does not.\<close>

definition manifest_target :: "manifest_schedule \<Rightarrow> schedule_job_target" where
  "manifest_target m = \<lparr>st_queue = ms_queue m, st_job_type = ms_task m, st_payload = ms_payload m,
     st_headers = ms_headers m, st_priority = ms_priority m, st_max_attempts = ms_max_attempts m,
     st_lease_seconds = ms_lease_seconds m, st_backoff_mode = ms_backoff_mode m,
     st_backoff_base = ms_backoff_base m, st_backoff_cap = ms_backoff_cap m,
     st_concurrency_key = ms_concurrency_key m, st_affinity_key = ms_affinity_key m\<rparr>"

definition manifest_recurrence :: "manifest_schedule \<Rightarrow> recurrence" where
  "manifest_recurrence m = (case ms_interval_seconds m of
      Some n \<Rightarrow> Interval n
    | None \<Rightarrow> Cron (the (ms_cron m)) (ms_timezone m))"

definition manifest_definition :: "manifest_schedule \<Rightarrow> exc + schedule_definition" where
  "manifest_definition m =
     (if \<not> schedule_job_target_valid (manifest_target m) then Inl (ValidationError ''schedule target'')
      else Inr \<lparr>sd_target = manifest_target m, sd_recurrence = manifest_recurrence m,
        sd_catchup_policy = ms_catchup m, sd_max_catchup = ms_max_catchup m,
        sd_paused = (ms_state m = SCHED_PAUSED)\<rparr>)"

record schedule_manifest =
  sm_namespace :: string
  sm_source :: string
  sm_schedules :: "(string, manifest_schedule) dict"

text \<open>\<open>_OWNER_PATTERN\<close> and \<open>_NAME_PATTERN\<close>\<close>

definition owner_name :: "string \<Rightarrow> bool" where
  "owner_name s \<longleftrightarrow> (case s of [] \<Rightarrow> False | c # cs \<Rightarrow> (is_lower_c c \<or> is_digit_c c) \<and> length cs \<le> 62 \<and>
     list_all (\<lambda>c. is_lower_c c \<or> is_digit_c c \<or> c = CHR ''_'' \<or> c = CHR ''-'') cs)"

definition manifest_key_name :: "string \<Rightarrow> bool" where
  "manifest_key_name s \<longleftrightarrow> (case s of [] \<Rightarrow> False | c # cs \<Rightarrow> (is_lower_c c \<or> is_digit_c c) \<and>
     list_all (\<lambda>c. is_lower_c c \<or> is_digit_c c \<or> c \<in> {CHR ''_'', CHR ''.'', CHR ''-''}) cs)"

definition scheduled_name :: "string \<Rightarrow> string \<Rightarrow> string" where
  "scheduled_name namespace key = namespace @ ''.'' @ key"

text \<open>\<open>_stable_keys\<close>, over the keys in the order of the file\<close>

fun stable_keys :: "string \<Rightarrow> string list \<Rightarrow> exc + unit" where
  "stable_keys namespace [] = Inr ()"
| "stable_keys namespace (key # keys) =
     (if key = [] \<or> utf8_length key > 120 then Inl (ValidationError ''manifest key must be 1..120 UTF-8 bytes'')
      else if \<not> manifest_key_name key then Inl (ValidationError ''invalid manifest key'')
      else if utf8_length (scheduled_name namespace key) > 120
      then Inl (ValidationError ''combined namespace and manifest key exceed 120 UTF-8 bytes'')
      else stable_keys namespace keys)"

definition schedule_manifest_init :: "schedule_manifest \<Rightarrow> exc + schedule_manifest" where
  "schedule_manifest_init m =
     (if \<not> owner_name (sm_namespace m) \<or> \<not> owner_name (sm_source m) \<or> sm_schedules m = [] \<or>
         length (sm_schedules m) > 500
      then Inl (ValidationError ''schedule manifest'')
      else ebind (traverse (\<lambda>(k, s). manifest_schedule_init s) (sm_schedules m)) (\<lambda>_.
           ebind (stable_keys (sm_namespace m) (dkeys (sm_schedules m))) (\<lambda>_. Inr m)))"

text \<open>\<open>_construct_unique_mapping\<close>, over the pairs of the node\<close>

fun construct_unique_mapping :: "('k \<times> 'v) list \<Rightarrow> ('k, 'v) dict \<Rightarrow> exc + ('k, 'v) dict" where
  "construct_unique_mapping [] result = Inr result"
| "construct_unique_mapping ((k, v) # nodes) result =
     (if k \<in> set (dkeys result) then Inl (PyException ''ValueError'')
      else construct_unique_mapping nodes (dset k v result))"

text \<open>
  \<open>load_manifest\<close>, from the size of the file, its text, \<open>None\<close> when it is not UTF-8, and the YAML parser
  followed by the reader of the model's fields, which raises \<open>ValueError\<close> or \<open>YAMLError\<close>.
\<close>

definition max_manifest_bytes :: nat where
  "max_manifest_bytes = 1048576"

definition load_manifest :: "(string \<Rightarrow> exc + schedule_manifest) \<Rightarrow> nat \<Rightarrow> string option \<Rightarrow> exc + schedule_manifest" where
  "load_manifest parse bytes decoded =
     (if bytes > max_manifest_bytes then Inl (ConfigError ''schedule manifest exceeds 1 MiB'')
      else (case decoded of
          None \<Rightarrow> Inl (ConfigError ''invalid schedule manifest'')
        | Some text \<Rightarrow> (case ebind (parse text) schedule_manifest_init of
              Inl e \<Rightarrow> Inl (ConfigError ''invalid schedule manifest'')
            | Inr m \<Rightarrow> Inr m)))"

section \<open>Compiling\<close>

text \<open>\<open>definition.model_dump(mode="json", exclude_none=True)\<close>\<close>

fun backoff_value :: "backoff_mode \<Rightarrow> string" where
  "backoff_value FIXED = ''fixed''"
| "backoff_value EXPONENTIAL = ''exponential''"

definition opt_field :: "string \<Rightarrow> ('a \<Rightarrow> json) \<Rightarrow> 'a option \<Rightarrow> jobj" where
  "opt_field k f v = (case v of None \<Rightarrow> [] | Some x \<Rightarrow> [(k, f x)])"

definition target_dump :: "schedule_job_target \<Rightarrow> jobj" where
  "target_dump t =
     [(''kind'', JStr ''job''), (''queue'', JStr (st_queue t)), (''job_type'', JStr (st_job_type t)),
      (''payload'', JObj (st_payload t)), (''headers'', JObj (st_headers t))] @
     opt_field ''priority'' JInt (st_priority t) @ opt_field ''max_attempts'' JInt (st_max_attempts t) @
     opt_field ''lease_seconds'' JInt (st_lease_seconds t) @
     opt_field ''backoff_mode'' (\<lambda>m. JStr (backoff_value m)) (st_backoff_mode t) @
     opt_field ''backoff_base'' JInt (st_backoff_base t) @ opt_field ''backoff_cap'' JInt (st_backoff_cap t) @
     opt_field ''concurrency_key'' JStr (st_concurrency_key t) @ opt_field ''affinity_key'' JStr (st_affinity_key t)"

definition definition_dump :: "schedule_definition \<Rightarrow> jobj" where
  "definition_dump d =
     [(''target'', JObj (target_dump (sd_target d))), (''recurrence'', JObj (recurrence_dump (sd_recurrence d))),
      (''catchup_policy'', JStr (policy_value (sd_catchup_policy d))), (''max_catchup'', JInt (sd_max_catchup d)),
      (''paused'', JBool (sd_paused d))]"

text \<open>\<open>json.dumps\<close> with its default \<open>ensure_ascii\<close>: every character outside the printable ASCII is escaped.\<close>

definition json_escape_ascii :: "char \<Rightarrow> string" where
  "json_escape_ascii c = (let n = ord_c c in
     if 127 \<le> n then [CHR 0x5C] @ ''u00'' @ [hex_digit (n div 16), hex_digit (n mod 16)] else json_escape c)"

definition json_quote_ascii :: "string \<Rightarrow> string" where
  "json_quote_ascii s = [CHR 0x22] @ concat (map json_escape_ascii s) @ [CHR 0x22]"

fun json_dumps_ascii :: "json \<Rightarrow> string" where
  "json_dumps_ascii (JStr s) = json_quote_ascii s"
| "json_dumps_ascii (JArr xs) = ''['' @ intersperse_join '','' (map json_dumps_ascii xs) @ '']''"
| "json_dumps_ascii (JObj kvs) =
     [CHR 0x7B] @ intersperse_join '','' (map (\<lambda>(k, v). json_quote_ascii k @ '':'' @ json_dumps_ascii v) kvs)
       @ [CHR 0x7D]"
| "json_dumps_ascii j = json_dumps j"

definition canonical_hash :: "(string \<Rightarrow> string) \<Rightarrow> schedule_definition \<Rightarrow> overlap_policy \<Rightarrow> int option \<Rightarrow> string" where
  "canonical_hash sha d overlap lateness = sha (json_dumps_ascii (json_sorted (JObj (definition_dump d @
     [(''overlap'', JStr (overlap_value overlap)),
      (''max_lateness_seconds'', (case lateness of None \<Rightarrow> JNull | Some n \<Rightarrow> JInt n))]))))"

record compiled_schedule =
  cs_name :: string
  cs_manifest_key :: string
  cs_display_name :: string
  cs_definition :: schedule_definition
  cs_definition_hash :: string
  cs_overlap_policy :: overlap_policy
  cs_max_lateness_seconds :: "int option"

definition compiled_of :: "(string \<Rightarrow> string) \<Rightarrow> string \<Rightarrow> string \<Rightarrow> manifest_schedule \<Rightarrow> schedule_definition \<Rightarrow> compiled_schedule" where
  "compiled_of sha namespace key item d =
     \<lparr>cs_name = scheduled_name namespace key, cs_manifest_key = key,
      cs_display_name = (case ms_display_name item of None \<Rightarrow> key | Some n \<Rightarrow> if n = [] then key else n),
      cs_definition = d,
      cs_definition_hash = canonical_hash sha d (ms_overlap item) (ms_max_lateness_seconds item),
      cs_overlap_policy = ms_overlap item, cs_max_lateness_seconds = ms_max_lateness_seconds item\<rparr>"

definition compile_manifest :: "(string \<Rightarrow> string) \<Rightarrow> schedule_manifest \<Rightarrow> exc + (string, compiled_schedule) dict" where
  "compile_manifest sha m = traverse (\<lambda>(key, item). ebind (manifest_definition item) (\<lambda>d.
     Inr (key, compiled_of sha (sm_namespace m) key item d))) (sort_key fst (sm_schedules m))"

section \<open>The store\<close>

record managed_profile =
  mp_name :: string
  mp_manifest_key :: string
  mp_display_name :: string
  mp_definition_hash :: string
  mp_target :: jobj
  mp_recurrence :: jobj
  mp_catchup_policy :: catchup_policy
  mp_max_catchup :: int
  mp_overlap_policy :: overlap_policy
  mp_max_lateness_seconds :: "int option"
  mp_state :: schedule_state
  mp_version :: int

record managed_put =
  mq_item :: compiled_schedule
  mq_namespace :: string
  mq_source :: string
  mq_actor :: string
  mq_expected_version :: "int option"

text \<open>
  \<open>list_managed_schedules\<close> with a limit of 500 and \<open>put_managed_schedule\<close>; the outcome of a put is a
  string of the database.
\<close>

record 's managed_store =
  st_list :: "string \<Rightarrow> string \<Rightarrow> string option \<Rightarrow> 's \<Rightarrow> exc + managed_profile list"
  st_put :: "managed_put \<Rightarrow> 's \<Rightarrow> (exc + string) \<times> 's"

text \<open>\<open>ScheduleDefinition.model_validate\<close> of a profile, \<open>None\<close> when it raises\<close>

type_synonym definition_parser = "jobj \<Rightarrow> jobj \<Rightarrow> catchup_policy \<Rightarrow> int \<Rightarrow> bool \<Rightarrow> schedule_definition option"

definition profile_actual_hash :: "(string \<Rightarrow> string) \<Rightarrow> definition_parser \<Rightarrow> managed_profile \<Rightarrow> string option" where
  "profile_actual_hash sha parse p = map_option
     (\<lambda>d. canonical_hash sha d (mp_overlap_policy p) (mp_max_lateness_seconds p))
     (parse (mp_target p) (mp_recurrence p) (mp_catchup_policy p) (mp_max_catchup p) (mp_state p = SCHED_PAUSED))"

definition by_manifest_key :: "managed_profile list \<Rightarrow> (string, managed_profile) dict \<Rightarrow> (string, managed_profile) dict" where
  "by_manifest_key page result = fold (\<lambda>p d. dset (mp_manifest_key p) p d) page result"

text \<open>\<open>_current_owned\<close>, one page after the other; \<open>None\<close> when the pages do not end\<close>

partial_function (option) current_pages ::
  "'s managed_store \<Rightarrow> string \<Rightarrow> string \<Rightarrow> 's \<Rightarrow> string option \<Rightarrow> (string, managed_profile) dict \<Rightarrow>
   (exc + (string, managed_profile) dict) option" where
  "current_pages st namespace source s after result = (case st_list st namespace source after s of
      Inl e \<Rightarrow> Some (Inl e)
    | Inr page \<Rightarrow>
        if length page < 500 then Some (Inr (by_manifest_key page result))
        else current_pages st namespace source s (Some (mp_name (last page))) (by_manifest_key page result))"

definition current_owned ::
  "'s managed_store \<Rightarrow> string \<Rightarrow> string \<Rightarrow> 's \<Rightarrow> (exc + (string, managed_profile) dict) option" where
  "current_owned st namespace source s = current_pages st namespace source s None []"

section \<open>Plan and apply\<close>

datatype plan_action = PLAN_CREATE | PLAN_UPDATE | PLAN_UNCHANGED | PLAN_DRIFT

record plan_entry =
  pe_key :: string
  pe_name :: string
  pe_action :: plan_action
  pe_current_version :: "int option"
  pe_reason :: "string option"

record manifest_plan =
  pl_entries :: "plan_entry list"
  pl_warnings :: "string list"

definition plan_changes :: "manifest_plan \<Rightarrow> nat" where
  "plan_changes pl = length (filter (\<lambda>e. pe_action e \<in> {PLAN_CREATE, PLAN_UPDATE}) (pl_entries pl))"

definition compared :: "(string \<Rightarrow> string) \<Rightarrow> definition_parser \<Rightarrow> compiled_schedule \<Rightarrow> managed_profile \<Rightarrow> plan_action \<times> string option" where
  "compared sha parse c p = (case profile_actual_hash sha parse p of
      None \<Rightarrow> (PLAN_UPDATE, Some ''live definition is invalid'')
    | Some actual \<Rightarrow>
        if mp_definition_hash p \<noteq> actual
        then (PLAN_UPDATE, Some ''stored definition hash does not match live definition'')
        else if cs_definition_hash c \<noteq> actual then (PLAN_UPDATE, Some ''desired definition differs'')
        else if cs_display_name c \<noteq> mp_display_name p then (PLAN_UPDATE, Some ''display name differs'')
        else (PLAN_UNCHANGED, None))"

definition desired_entry ::
  "(string \<Rightarrow> string) \<Rightarrow> definition_parser \<Rightarrow> (string, managed_profile) dict \<Rightarrow> string \<times> compiled_schedule \<Rightarrow> plan_entry" where
  "desired_entry sha parse current kc = (case dget current (fst kc) of
      None \<Rightarrow> \<lparr>pe_key = fst kc, pe_name = cs_name (snd kc), pe_action = PLAN_CREATE,
        pe_current_version = None, pe_reason = None\<rparr>
    | Some p \<Rightarrow> \<lparr>pe_key = fst kc, pe_name = cs_name (snd kc), pe_action = fst (compared sha parse (snd kc) p),
        pe_current_version = Some (mp_version p), pe_reason = snd (compared sha parse (snd kc) p)\<rparr>)"

definition missing_by_hash ::
  "(string, compiled_schedule) dict \<Rightarrow> (string, managed_profile) dict \<Rightarrow> (string, string) dict" where
  "missing_by_hash desired current = fold (\<lambda>(k, p) d. dset (mp_definition_hash p) k d)
     (filter (\<lambda>(k, p). k \<notin> set (dkeys desired)) current) []"

definition rename_warnings ::
  "(string, compiled_schedule) dict \<Rightarrow> (string, managed_profile) dict \<Rightarrow> string \<times> compiled_schedule \<Rightarrow> string list" where
  "rename_warnings desired current kc = (case dget current (fst kc) of
      Some p \<Rightarrow> []
    | None \<Rightarrow> (case dget (missing_by_hash desired current) (cs_definition_hash (snd kc)) of
          None \<Rightarrow> []
        | Some previous \<Rightarrow> [fst kc @ '': definition matches missing owned key '' @ previous @ ''; possible rename'']))"

definition drift_entries ::
  "(string, compiled_schedule) dict \<Rightarrow> (string, managed_profile) dict \<Rightarrow> plan_entry list" where
  "drift_entries desired current = map (\<lambda>(key, p). \<lparr>pe_key = key, pe_name = mp_name p, pe_action = PLAN_DRIFT,
      pe_current_version = Some (mp_version p),
      pe_reason = Some ''owned key is absent from the manifest; explicit retirement required''\<rparr>)
     (filter (\<lambda>(key, p). key \<notin> set (dkeys desired) \<and> mp_state p \<noteq> SCHED_RETIRED) (sort_key fst current))"

definition plan_of_current ::
  "(string \<Rightarrow> string) \<Rightarrow> definition_parser \<Rightarrow> (string, compiled_schedule) dict \<Rightarrow> (string, managed_profile) dict \<Rightarrow> manifest_plan" where
  "plan_of_current sha parse desired current =
     \<lparr>pl_entries = map (desired_entry sha parse current) desired @ drift_entries desired current,
      pl_warnings = concat (map (rename_warnings desired current) desired)\<rparr>"

definition plan_manifest ::
  "(string \<Rightarrow> string) \<Rightarrow> definition_parser \<Rightarrow> 's managed_store \<Rightarrow> schedule_manifest \<Rightarrow> 's \<Rightarrow> (exc + manifest_plan) option" where
  "plan_manifest sha parse st m s = (case compile_manifest sha m of
      Inl e \<Rightarrow> Some (Inl e)
    | Inr desired \<Rightarrow> map_option (map_sum id (plan_of_current sha parse desired))
        (current_owned st (sm_namespace m) (sm_source m) s))"

record apply_counts =
  ap_created :: nat
  ap_updated :: nat
  ap_unchanged :: nat
  ap_drift :: nat

definition counted :: "string \<Rightarrow> apply_counts \<Rightarrow> exc + apply_counts" where
  "counted outcome c =
     (if outcome = ''created'' then Inr (c\<lparr>ap_created := ap_created c + 1\<rparr>)
      else if outcome = ''updated'' then Inr (c\<lparr>ap_updated := ap_updated c + 1\<rparr>)
      else if outcome = ''unchanged'' then Inr (c\<lparr>ap_unchanged := ap_unchanged c + 1\<rparr>)
      else Inl PyKeyError)"

fun apply_entries ::
  "'s managed_store \<Rightarrow> schedule_manifest \<Rightarrow> string \<Rightarrow> (string, compiled_schedule) dict \<Rightarrow> plan_entry list \<Rightarrow>
   apply_counts \<Rightarrow> 's \<Rightarrow> (exc + apply_counts) \<times> 's" where
  "apply_entries st m actor compiled [] c s = (Inr c, s)"
| "apply_entries st m actor compiled (e # es) c s =
     (if pe_action e = PLAN_DRIFT then apply_entries st m actor compiled es c s
      else (case dget compiled (pe_key e) of
          None \<Rightarrow> (Inl PyKeyError, s)
        | Some item \<Rightarrow> (case st_put st \<lparr>mq_item = item, mq_namespace = sm_namespace m, mq_source = sm_source m,
                mq_actor = actor, mq_expected_version = pe_current_version e\<rparr> s of
              (Inl x, s') \<Rightarrow> (Inl x, s')
            | (Inr outcome, s') \<Rightarrow> (case counted outcome c of
                  Inl x \<Rightarrow> (Inl x, s')
                | Inr c' \<Rightarrow> apply_entries st m actor compiled es c' s'))))"

definition apply_manifest ::
  "(string \<Rightarrow> string) \<Rightarrow> definition_parser \<Rightarrow> 's managed_store \<Rightarrow> schedule_manifest \<Rightarrow> string \<Rightarrow> 's \<Rightarrow>
   ((exc + apply_counts) \<times> 's) option" where
  "apply_manifest sha parse st m actor s = (case plan_manifest sha parse st m s of
      None \<Rightarrow> None
    | Some (Inl e) \<Rightarrow> Some (Inl e, s)
    | Some (Inr plan) \<Rightarrow> (case compile_manifest sha m of
          Inl e \<Rightarrow> Some (Inl e, s)
        | Inr compiled \<Rightarrow> (case apply_entries st m actor compiled (pl_entries plan)
              \<lparr>ap_created = 0, ap_updated = 0, ap_unchanged = 0, ap_drift = 0\<rparr> s of
            (Inl e, s') \<Rightarrow> Some (Inl e, s')
          | (Inr c, s') \<Rightarrow> Some (Inr (c\<lparr>ap_drift := length (filter (\<lambda>e. pe_action e = PLAN_DRIFT) (pl_entries plan))\<rparr>), s'))))"

section \<open>A database of managed schedules\<close>

text \<open>
  What the package relies on.  The owned rows have a name each, made of the namespace and their key; a
  page holds the next 500 rows after the named one; a put that answers has stored its schedule, in the
  row of its name, and left the others.
\<close>

definition after_name :: "string \<Rightarrow> managed_profile list \<Rightarrow> managed_profile list" where
  "after_name a ps = tl (dropWhile (\<lambda>p. mp_name p \<noteq> a) ps)"

definition owned_rows :: "string \<Rightarrow> managed_profile list \<Rightarrow> bool" where
  "owned_rows namespace ps \<longleftrightarrow> distinct (map mp_name ps) \<and>
     (\<forall>p \<in> set ps. mp_name p = scheduled_name namespace (mp_manifest_key p))"

definition stored_as :: "definition_parser \<Rightarrow> compiled_schedule \<Rightarrow> managed_profile \<Rightarrow> bool" where
  "stored_as parse item p \<longleftrightarrow>
     mp_name p = cs_name item \<and> mp_manifest_key p = cs_manifest_key item \<and> mp_display_name p = cs_display_name item \<and>
     mp_definition_hash p = cs_definition_hash item \<and> mp_overlap_policy p = cs_overlap_policy item \<and>
     mp_max_lateness_seconds p = cs_max_lateness_seconds item \<and>
     parse (mp_target p) (mp_recurrence p) (mp_catchup_policy p) (mp_max_catchup p) (mp_state p = SCHED_PAUSED) =
       Some (cs_definition item)"

definition managed_database ::
  "definition_parser \<Rightarrow> 's managed_store \<Rightarrow> (string \<Rightarrow> string \<Rightarrow> 's \<Rightarrow> managed_profile list) \<Rightarrow> bool" where
  "managed_database parse st rows \<longleftrightarrow>
     (\<forall>ns src s. owned_rows ns (rows ns src s)) \<and>
     (\<forall>ns src s. st_list st ns src None s = Inr (take 500 (rows ns src s))) \<and>
     (\<forall>ns src a s. st_list st ns src (Some a) s = Inr (take 500 (after_name a (rows ns src s)))) \<and>
     (\<forall>rq s outcome s'. st_put st rq s = (Inr outcome, s') \<longrightarrow>
        (\<exists>p. stored_as parse (mq_item rq) p \<and>
             set (rows (mq_namespace rq) (mq_source rq) s') = insert p
               {q \<in> set (rows (mq_namespace rq) (mq_source rq) s). mp_name q \<noteq> cs_name (mq_item rq)}))"

section \<open>All pages\<close>

lemma after_name_split:
  "distinct (map mp_name (xs @ y # ys)) \<Longrightarrow> after_name (mp_name y) (xs @ y # ys) = ys"
  by (induction xs) (auto simp: after_name_def)

lemma by_manifest_key_append: "by_manifest_key (xs @ ys) d = by_manifest_key ys (by_manifest_key xs d)"
  by (simp add: by_manifest_key_def)

lemma current_pages_rest:
  assumes "managed_database parse st rows" and "rows ns src s = before @ rest"
    and "case after of None \<Rightarrow> before = [] | Some a \<Rightarrow> after_name a (rows ns src s) = rest"
  shows "current_pages st ns src s after result = Some (Inr (by_manifest_key rest result))"
  using assms(2,3)
proof (induction "length rest" arbitrary: before rest after result rule: less_induct)
  case less
  have page: "st_list st ns src after s = Inr (take 500 rest)"
    using assms(1) less.prems unfolding managed_database_def by (cases after) simp_all
  show ?case
  proof (cases "length rest < 500")
    case True
    then show ?thesis by (subst current_pages.simps) (simp add: page)
  next
    case False
    then obtain y where y: "take 500 rest = take 499 rest @ [y]" "y = rest ! 499"
      using take_Suc_conv_app_nth [of 499 rest] by simp
    have last: "last (take 500 rest) = y" by (simp add: y(1))
    have split: "rows ns src s = (before @ take 499 rest) @ y # drop 500 rest"
      using less.prems(1) y(1) append_take_drop_id [of 500 rest] by (metis append_Cons append_Nil append_assoc)
    have d: "distinct (map mp_name (rows ns src s))" using assms(1) by (auto simp: managed_database_def owned_rows_def)
    have rest: "after_name (mp_name y) (rows ns src s) = drop 500 rest"
      unfolding split by (rule after_name_split) (use d split in simp)
    have "current_pages st ns src s (Some (mp_name y)) (by_manifest_key (take 500 rest) result) =
        Some (Inr (by_manifest_key (drop 500 rest) (by_manifest_key (take 500 rest) result)))"
      by (rule less.hyps [where before = "before @ take 500 rest"]) (use False less.prems(1) rest in auto)
    then show ?thesis
      using False last by (subst current_pages.simps) (simp add: page by_manifest_key_append [symmetric])
  qed
qed

lemma by_manifest_key_distinct:
  "distinct (map mp_manifest_key ps) \<Longrightarrow> set (map mp_manifest_key ps) \<inter> set (dkeys d) = {} \<Longrightarrow>
   by_manifest_key ps d = d @ map (\<lambda>p. (mp_manifest_key p, p)) ps"
proof (induction ps arbitrary: d)
  case (Cons p ps)
  have "dset (mp_manifest_key p) p d = d @ [(mp_manifest_key p, p)]"
    using Cons.prems(2) by (intro dset_absent) (auto simp: map_of_eq_None_iff)
  then show ?case using Cons.IH [of "d @ [(mp_manifest_key p, p)]"] Cons.prems by (auto simp: by_manifest_key_def)
qed (simp add: by_manifest_key_def)

definition keyed :: "managed_profile list \<Rightarrow> (string, managed_profile) dict" where
  "keyed ps = map (\<lambda>p. (mp_manifest_key p, p)) ps"

lemma owned_keys: "owned_rows ns ps \<Longrightarrow> distinct (map mp_manifest_key ps)"
  by (induction ps) (auto simp: owned_rows_def)

lemma current_owned_all:
  assumes "managed_database parse st rows"
  shows "current_owned st ns src s = Some (Inr (keyed (rows ns src s)))"
proof -
  have "owned_rows ns (rows ns src s)" using assms by (simp add: managed_database_def)
  then show ?thesis
    unfolding current_owned_def keyed_def
    using current_pages_rest [OF assms, of ns src s "[]" _ None] by_manifest_key_distinct [of "rows ns src s" "[]"]
    by (simp add: owned_keys)
qed

lemma keyed_dget: "owned_rows ns ps \<Longrightarrow> dget (keyed ps) k = Some p \<longleftrightarrow> p \<in> set ps \<and> mp_manifest_key p = k"
  using owned_keys [of ns ps] by (auto simp: keyed_def map_of_eq_Some_iff comp_def image_iff)

section \<open>Applying settles\<close>

lemma compile_manifest_keys:
  assumes "compile_manifest sha m = Inr desired"
  shows "dkeys desired = map fst (sort_key fst (sm_schedules m))"
    and "(k, c) \<in> set desired \<Longrightarrow> cs_name c = scheduled_name (sm_namespace m) k \<and> cs_manifest_key c = k"
proof -
  have a: "list_all2 (\<lambda>x y. fst y = fst x \<and> cs_name (snd y) = scheduled_name (sm_namespace m) (fst y) \<and>
      cs_manifest_key (snd y) = fst y) (sort_key fst (sm_schedules m)) desired"
    using assms unfolding compile_manifest_def traverse_Inr_iff
    by (rule list_all2_mono) (auto simp: ebind_Inr_iff compiled_of_def split_beta)
  show "dkeys desired = map fst (sort_key fst (sm_schedules m))"
    using a by (auto simp: list_all2_conv_all_nth intro!: nth_equalityI)
  show "(k, c) \<in> set desired \<Longrightarrow> cs_name c = scheduled_name (sm_namespace m) k \<and> cs_manifest_key c = k"
    using a by (auto simp: list_all2_conv_all_nth in_set_conv_nth)
qed

lemma scheduled_name_inj [simp]: "scheduled_name ns k = scheduled_name ns k' \<longleftrightarrow> k = k'"
  by (simp add: scheduled_name_def)

definition live_entries :: "plan_entry list \<Rightarrow> plan_entry list" where
  "live_entries es = filter (\<lambda>e. pe_action e \<noteq> PLAN_DRIFT) es"

definition counted_puts :: "apply_counts \<Rightarrow> nat" where
  "counted_puts c = ap_created c + ap_updated c + ap_unchanged c"

lemma counted_one: "counted outcome c = Inr c' \<Longrightarrow> counted_puts c' = counted_puts c + 1"
  by (auto simp: counted_def counted_puts_def split: if_splits)

lemma database_put:
  assumes "managed_database parse st rows" and "st_put st rq s = (Inr outcome, s')"
  shows "\<exists>p. stored_as parse (mq_item rq) p \<and> set (rows (mq_namespace rq) (mq_source rq) s') =
     insert p {q \<in> set (rows (mq_namespace rq) (mq_source rq) s). mp_name q \<noteq> cs_name (mq_item rq)}"
proof -
  have "\<forall>rq s outcome s'. st_put st rq s = (Inr outcome, s') \<longrightarrow>
      (\<exists>p. stored_as parse (mq_item rq) p \<and> set (rows (mq_namespace rq) (mq_source rq) s') =
        insert p {q \<in> set (rows (mq_namespace rq) (mq_source rq) s). mp_name q \<noteq> cs_name (mq_item rq)})"
    using assms(1) unfolding managed_database_def by (elim conjE)
  then show ?thesis using assms(2) by blast
qed

lemma apply_entries_store:
  assumes db: "managed_database parse st rows"
    and names: "\<And>k item. dget compiled k = Some item \<Longrightarrow> cs_name item = scheduled_name (sm_namespace m) k"
    and "apply_entries st m actor compiled es c s = (Inr c', s')" and "distinct (map pe_key (live_entries es))"
  shows "counted_puts c' = counted_puts c + length (live_entries es)"
    and "mp_name q \<notin> scheduled_name (sm_namespace m) ` pe_key ` set (live_entries es) \<Longrightarrow>
      q \<in> set (rows (sm_namespace m) (sm_source m) s') \<longleftrightarrow> q \<in> set (rows (sm_namespace m) (sm_source m) s)"
    and "e \<in> set (live_entries es) \<Longrightarrow> \<exists>item. dget compiled (pe_key e) = Some item \<and>
      (\<exists>p \<in> set (rows (sm_namespace m) (sm_source m) s'). stored_as parse item p)"
proof -
  let ?R = "\<lambda>s. set (rows (sm_namespace m) (sm_source m) s)"
  let ?N = "scheduled_name (sm_namespace m)"
  have "counted_puts c' = counted_puts c + length (live_entries es) \<and>
      (\<forall>q. mp_name q \<notin> ?N ` pe_key ` set (live_entries es) \<longrightarrow> (q \<in> ?R s' \<longleftrightarrow> q \<in> ?R s)) \<and>
      (\<forall>e \<in> set (live_entries es). \<exists>item. dget compiled (pe_key e) = Some item \<and> (\<exists>p \<in> ?R s'. stored_as parse item p))"
    using assms(3,4)
  proof (induction es arbitrary: c s)
    case (Cons e es)
    show ?case
    proof (cases "pe_action e = PLAN_DRIFT")
      case True
      then show ?thesis using Cons by (simp add: live_entries_def)
    next
      case False
      then obtain item outcome s1 c1 where i: "dget compiled (pe_key e) = Some item"
          "st_put st \<lparr>mq_item = item, mq_namespace = sm_namespace m, mq_source = sm_source m,
             mq_actor = actor, mq_expected_version = pe_current_version e\<rparr> s = (Inr outcome, s1)"
          "counted outcome c = Inr c1" "apply_entries st m actor compiled es c1 s1 = (Inr c', s')"
        using Cons.prems(1) by (auto split: option.splits prod.splits sum.splits)
      have live: "live_entries (e # es) = e # live_entries es" using False by (simp add: live_entries_def)
      have ih: "counted_puts c' = counted_puts c1 + length (live_entries es)"
          "\<And>q. mp_name q \<notin> ?N ` pe_key ` set (live_entries es) \<Longrightarrow> q \<in> ?R s' \<longleftrightarrow> q \<in> ?R s1"
          "\<And>e. e \<in> set (live_entries es) \<Longrightarrow> \<exists>item. dget compiled (pe_key e) = Some item \<and> (\<exists>p \<in> ?R s'. stored_as parse item p)"
        using Cons.IH [OF i(4)] Cons.prems(2) live by auto
      obtain p where p: "stored_as parse item p" "?R s1 = insert p {q \<in> ?R s. mp_name q \<noteq> cs_name item}"
        using database_put [OF db i(2)] by auto
      have n: "mp_name p = ?N (pe_key e)" "cs_name item = ?N (pe_key e)"
        using p(1) names [OF i(1)] by (simp_all add: stored_as_def)
      have fresh: "mp_name p \<notin> ?N ` pe_key ` set (live_entries es)" using Cons.prems(2) n live by auto
      have "q \<in> ?R s' \<longleftrightarrow> q \<in> ?R s" if "mp_name q \<notin> ?N ` pe_key ` set (live_entries (e # es))" for q
        using that ih(2) [of q] p(2) n live by auto
      moreover have "p \<in> ?R s'" using ih(2) [OF fresh] p(2) by simp
      ultimately show ?thesis
        using ih(1,3) counted_one [OF i(3)] i(1) p(1) by (auto simp: live)
    qed
  qed (simp add: live_entries_def)
  then show "counted_puts c' = counted_puts c + length (live_entries es)"
    and "mp_name q \<notin> ?N ` pe_key ` set (live_entries es) \<Longrightarrow> q \<in> ?R s' \<longleftrightarrow> q \<in> ?R s"
    and "e \<in> set (live_entries es) \<Longrightarrow> \<exists>item. dget compiled (pe_key e) = Some item \<and> (\<exists>p \<in> ?R s'. stored_as parse item p)"
    by blast+
qed

lemma stored_unchanged:
  assumes "stored_as parse c p" and "cs_definition_hash c = canonical_hash sha (cs_definition c) (cs_overlap_policy c) (cs_max_lateness_seconds c)"
  shows "compared sha parse c p = (PLAN_UNCHANGED, None)"
  using assms by (simp add: stored_as_def compared_def profile_actual_hash_def)

lemma compiled_hash:
  assumes "compile_manifest sha m = Inr desired" and "(k, c) \<in> set desired"
  shows "cs_definition_hash c = canonical_hash sha (cs_definition c) (cs_overlap_policy c) (cs_max_lateness_seconds c)"
proof -
  have "list_all2 (\<lambda>x y. cs_definition_hash (snd y) =
      canonical_hash sha (cs_definition (snd y)) (cs_overlap_policy (snd y)) (cs_max_lateness_seconds (snd y)))
      (sort_key fst (sm_schedules m)) desired"
    using assms(1) unfolding compile_manifest_def traverse_Inr_iff
    by (rule list_all2_mono) (auto simp: ebind_Inr_iff compiled_of_def split_beta)
  then show ?thesis using assms(2) by (auto simp: list_all2_conv_all_nth in_set_conv_nth)
qed

lemma sort_key_same_set:
  fixes xs ys :: "('a :: linorder \<times> 'b) list"
  assumes "set xs = set ys" and "distinct (map fst xs)" and "distinct (map fst ys)"
  shows "sort_key fst xs = sort_key fst ys"
proof (rule sort_key_inj_key_eq)
  show "mset xs = mset (sort_key fst ys)"
    using assms by (simp add: set_eq_iff_mset_eq_distinct [symmetric] distinct_map)
  show "inj_on fst (set xs)" using assms(2) by (simp add: distinct_map)
qed simp

lemma drift_same:
  assumes "owned_rows ns ps" and "owned_rows ns qs"
    and "\<And>q. mp_manifest_key q \<notin> set (dkeys desired) \<Longrightarrow> mp_name q = scheduled_name ns (mp_manifest_key q) \<Longrightarrow> q \<in> set ps \<longleftrightarrow> q \<in> set qs"
  shows "drift_entries desired (keyed ps) = drift_entries desired (keyed qs)"
proof -
  let ?P = "\<lambda>(key, p). key \<notin> set (dkeys desired) \<and> mp_state p \<noteq> SCHED_RETIRED"
  have k: "distinct (map fst (filter ?P (keyed xs)))" if "owned_rows ns xs" for xs
    using owned_keys [OF that] by (intro distinct_map_filter) (simp add: keyed_def comp_def)
  have "sort_key fst (filter ?P (keyed ps)) = sort_key fst (filter ?P (keyed qs))"
    using assms k by (intro sort_key_same_set) (auto simp: keyed_def owned_rows_def)
  then show ?thesis by (simp only: drift_entries_def filter_sort)
qed

text \<open>
  C36: Planning and applying a manifest always ends, whatever the number of pages of owned schedules.  When the
  application succeeds, a new plan finds nothing to change and no possible rename, and the same drift as
  before: the schedules that are not of the manifest are the rows they were, and the three counters of
  the result add up to the schedules of the manifest.
\<close>

theorem applied_manifest_settles:
  assumes db: "managed_database parse st rows" and keys: "distinct (dkeys (sm_schedules m))"
  shows "\<exists>r s'. apply_manifest sha parse st m actor s = Some (r, s') \<and>
    (\<forall>c. r = Inr c \<longrightarrow>
       (\<exists>before after. plan_manifest sha parse st m s = Some (Inr before) \<and> plan_manifest sha parse st m s' = Some (Inr after) \<and>
         plan_changes after = 0 \<and> pl_warnings after = [] \<and>
         filter (\<lambda>e. pe_action e = PLAN_DRIFT) (pl_entries after) = filter (\<lambda>e. pe_action e = PLAN_DRIFT) (pl_entries before) \<and>
         counted_puts c = length (sm_schedules m) \<and>
         (\<forall>q. mp_name q \<notin> scheduled_name (sm_namespace m) ` set (dkeys (sm_schedules m)) \<longrightarrow>
            (q \<in> set (rows (sm_namespace m) (sm_source m) s') \<longleftrightarrow> q \<in> set (rows (sm_namespace m) (sm_source m) s)))))"
proof (cases "compile_manifest sha m")
  case (Inl e)
  then show ?thesis by (simp add: apply_manifest_def plan_manifest_def)
next
  case (Inr desired)
  let ?ns = "sm_namespace m" and ?cur = "\<lambda>s. keyed (rows (sm_namespace m) (sm_source m) s)"
  let ?plan = "\<lambda>s. plan_of_current sha parse desired (?cur s)"
  have plan: "plan_manifest sha parse st m s = Some (Inr (?plan s))" for s
    by (simp add: plan_manifest_def Inr current_owned_all [OF db])
  have owned: "owned_rows ?ns (rows ?ns (sm_source m) s)" for s using db by (simp add: managed_database_def)
  have dk: "dkeys desired = map fst (sort_key fst (sm_schedules m))" by (rule compile_manifest_keys(1) [OF Inr])
  have set: "set (dkeys desired) = set (dkeys (sm_schedules m))" "distinct (dkeys desired)"
    using keys by (simp_all add: dk distinct_map)
  have actions: "pe_action (desired_entry sha parse cur kc) \<noteq> PLAN_DRIFT" "pe_key (desired_entry sha parse cur kc) = fst kc" for cur kc
    by (auto simp: desired_entry_def compared_def split: option.splits if_splits)
  have drifts: "\<forall>e \<in> set (drift_entries desired cur). pe_action e = PLAN_DRIFT" for cur
    by (auto simp: drift_entries_def)
  have live: "live_entries (pl_entries (?plan s)) = map (desired_entry sha parse (?cur s)) desired" for s
    using actions(1) drifts by (auto simp: live_entries_def plan_of_current_def filter_id_conv filter_empty_conv)
  have drift: "filter (\<lambda>e. pe_action e = PLAN_DRIFT) (pl_entries (?plan s)) = drift_entries desired (?cur s)" for s
    using actions(1) drifts by (auto simp: plan_of_current_def filter_id_conv filter_empty_conv)
  have livekeys: "map pe_key (live_entries (pl_entries (?plan s))) = dkeys desired"
    by (simp add: live actions(2) comp_def)
  obtain r s' where a: "apply_entries st m actor desired (pl_entries (?plan s))
      \<lparr>ap_created = 0, ap_updated = 0, ap_unchanged = 0, ap_drift = 0\<rparr> s = (r, s')" by fastforce
  show ?thesis
  proof (cases r)
    case (Inl e)
    then show ?thesis using a by (simp add: apply_manifest_def plan Inr)
  next
    case r: (Inr c)
    note a = a [unfolded r]
    have names: "dget desired k = Some item \<Longrightarrow> cs_name item = scheduled_name ?ns k" for k item
      using compile_manifest_keys(2) [OF Inr] map_of_SomeD by metis
    have img: "pe_key ` set (live_entries (pl_entries (?plan s))) = set (dkeys desired)"
      by (metis livekeys set_map)
    note st = apply_entries_store [OF db names a, unfolded livekeys img, OF _ set(2)]
    have stored: "\<exists>p. dget (?cur s') (fst kc) = Some p \<and> compared sha parse (snd kc) p = (PLAN_UNCHANGED, None)"
      if "kc \<in> set desired" for kc
    proof -
      have "fst kc \<in> pe_key ` set (live_entries (pl_entries (?plan s)))" using that by (simp add: img)
      then obtain e where "e \<in> set (live_entries (pl_entries (?plan s)))" "pe_key e = fst kc" by auto
      then obtain item p where i: "dget desired (fst kc) = Some item" "p \<in> set (rows ?ns (sm_source m) s')" "stored_as parse item p"
        using st(3) by metis
      have item: "item = snd kc" using i(1) that set(2) by (metis map_of_is_SomeI option.inject prod.collapse)
      have kc: "(fst kc, snd kc) \<in> set desired" using that by simp
      have "dget (?cur s') (fst kc) = Some p"
        using i(2,3) item compile_manifest_keys(2) [OF Inr kc] by (simp add: keyed_dget [OF owned] stored_as_def)
      then show ?thesis using stored_unchanged [OF i(3)] compiled_hash [OF Inr kc] item by simp
    qed
    have "pe_action (desired_entry sha parse (?cur s') kc) = PLAN_UNCHANGED \<and> rename_warnings desired (?cur s') kc = []"
      if "kc \<in> set desired" for kc
      using stored [OF that] by (auto simp: desired_entry_def rename_warnings_def)
    then have settled: "plan_changes (?plan s') = 0" "pl_warnings (?plan s') = []"
      using drifts by (auto simp: plan_changes_def plan_of_current_def filter_empty_conv)
    have same: "drift_entries desired (?cur s') = drift_entries desired (?cur s)"
      by (rule drift_same [OF owned owned]) (use st(2) in \<open>auto simp: image_iff\<close>)
    have len: "length (live_entries (pl_entries (?plan s))) = length (sm_schedules m)"
      using arg_cong [OF dk, of length] by (simp add: live)
    have count: "counted_puts (c\<lparr>ap_drift := n\<rparr>) = length (sm_schedules m)" for n
      using st(1) len by (simp add: counted_puts_def)
    have others: "q \<in> set (rows ?ns (sm_source m) s') \<longleftrightarrow> q \<in> set (rows ?ns (sm_source m) s)"
      if "mp_name q \<notin> scheduled_name ?ns ` set (dkeys (sm_schedules m))" for q
      using st(2) that set(1) by simp
    show ?thesis
      using a settled same count others by (auto simp: apply_manifest_def plan Inr drift)
  qed
qed

section \<open>A store in memory\<close>

definition profile_of :: "compiled_schedule \<Rightarrow> managed_profile" where
  "profile_of c = (let d = cs_definition c in
     \<lparr>mp_name = cs_name c, mp_manifest_key = cs_manifest_key c, mp_display_name = cs_display_name c,
      mp_definition_hash = cs_definition_hash c, mp_target = target_dump (sd_target d),
      mp_recurrence = recurrence_dump (sd_recurrence d), mp_catchup_policy = sd_catchup_policy d,
      mp_max_catchup = sd_max_catchup d, mp_overlap_policy = cs_overlap_policy c,
      mp_max_lateness_seconds = cs_max_lateness_seconds c,
      mp_state = (if sd_paused d then SCHED_PAUSED else SCHED_ACTIVE), mp_version = 1\<rparr>)"

definition rows_in :: "string \<Rightarrow> managed_profile list \<Rightarrow> managed_profile list" where
  "rows_in ns ps = (if owned_rows ns ps then ps else [])"

definition list_store :: "definition_parser \<Rightarrow> managed_profile list managed_store" where
  "list_store parse =
     \<lparr>st_list = (\<lambda>ns src after ps. Inr (take 500 (case after of None \<Rightarrow> rows_in ns ps | Some a \<Rightarrow> after_name a (rows_in ns ps)))),
      st_put = (\<lambda>rq ps.
        if \<not> owned_rows (mq_namespace rq) ps \<or> \<not> stored_as parse (mq_item rq) (profile_of (mq_item rq)) \<or>
           cs_name (mq_item rq) \<noteq> scheduled_name (mq_namespace rq) (cs_manifest_key (mq_item rq))
        then (Inl (raise_code CONFLICT), ps)
        else (Inr ''created'', filter (\<lambda>q. mp_name q \<noteq> cs_name (mq_item rq)) ps @ [profile_of (mq_item rq)]))\<rparr>"

lemma list_store_database: "managed_database parse (list_store parse) (\<lambda>ns src ps. rows_in ns ps)"
proof -
  have "\<exists>p. stored_as parse (mq_item rq) p \<and> set (rows_in (mq_namespace rq) ps') =
      insert p {q \<in> set (rows_in (mq_namespace rq) ps). mp_name q \<noteq> cs_name (mq_item rq)}"
    if "st_put (list_store parse) rq ps = (Inr outcome, ps')" for rq ps outcome ps'
  proof -
    let ?p = "profile_of (mq_item rq)"
    have p: "owned_rows (mq_namespace rq) ps" "stored_as parse (mq_item rq) ?p"
        "cs_name (mq_item rq) = scheduled_name (mq_namespace rq) (cs_manifest_key (mq_item rq))"
        "ps' = filter (\<lambda>q. mp_name q \<noteq> cs_name (mq_item rq)) ps @ [?p]"
      using that by (auto simp: list_store_def split: if_splits)
    have "owned_rows (mq_namespace rq) ps'"
      using p by (auto simp: owned_rows_def stored_as_def distinct_map_filter)
    then show ?thesis using p by (intro exI [of _ ?p]) (auto simp: rows_in_def)
  qed
  moreover have "owned_rows ns (rows_in ns ps)" for ns ps by (simp add: rows_in_def owned_rows_def)
  ultimately show ?thesis unfolding managed_database_def by (auto simp: list_store_def)
qed

definition nightly_schedule :: manifest_schedule where
  "nightly_schedule = \<lparr>ms_task = ''reports.build'', ms_queue = ''reports'', ms_interval_seconds = Some 3600, ms_cron = None,
     ms_timezone = ''UTC'', ms_catchup = SKIP, ms_max_catchup = 1, ms_overlap = FORBID_OVERLAP,
     ms_max_lateness_seconds = None, ms_state = SCHED_ACTIVE, ms_display_name = None, ms_payload = [(''day'', JInt 1)],
     ms_headers = [], ms_priority = Some 5, ms_max_attempts = None, ms_lease_seconds = None, ms_backoff_mode = None,
     ms_backoff_base = None, ms_backoff_cap = None, ms_concurrency_key = None, ms_affinity_key = None\<rparr>"

definition nightly_manifest :: schedule_manifest where
  "nightly_manifest = \<lparr>sm_namespace = ''app'', sm_source = ''repo'', sm_schedules = [(''nightly'', nightly_schedule)]\<rparr>"

definition nightly_parser :: definition_parser where
  "nightly_parser target recurrence policy maximum paused = (case manifest_definition nightly_schedule of
      Inr d \<Rightarrow> if target = target_dump (sd_target d) then Some d else None
    | Inl e \<Rightarrow> None)"

definition nightly_definition :: schedule_definition where
  "nightly_definition = \<lparr>sd_target = manifest_target nightly_schedule, sd_recurrence = Interval 3600,
     sd_catchup_policy = SKIP, sd_max_catchup = 1, sd_paused = False\<rparr>"

lemma nightly_names:
  "queue_name ''reports''" "wire_name ''reports.build''"
  "utf8_length (json_dumps (JObj [(''day'', JInt 1)])) = 9" "utf8_length (json_dumps (JObj [])) = 2"
  by code_simp+

lemma nightly_valid: "manifest_definition nightly_schedule = Inr nightly_definition"
  by (simp add: manifest_definition_def nightly_schedule_def manifest_target_def manifest_recurrence_def
      nightly_definition_def schedule_job_target_valid_def nightly_names bounded_json_def json_size_def opt_ok_def
      between_def del: json_dumps.simps)

abbreviation nightly_item :: compiled_schedule where
  "nightly_item \<equiv> compiled_of id ''app'' ''nightly'' nightly_schedule nightly_definition"

lemma nightly_compiles: "compile_manifest id nightly_manifest = Inr [(''nightly'', nightly_item)]"
  by (simp add: compile_manifest_def nightly_manifest_def nightly_valid)

lemma nightly_stored: "stored_as nightly_parser nightly_item (profile_of nightly_item)"
  by (simp add: stored_as_def profile_of_def compiled_of_def nightly_parser_def nightly_valid)

lemma nightly_applies:
  "apply_manifest id nightly_parser (list_store nightly_parser) nightly_manifest ''ops'' [] =
     Some (Inr \<lparr>ap_created = 1, ap_updated = 0, ap_unchanged = 0, ap_drift = 0\<rparr>, [profile_of nightly_item])"
proof -
  have "plan_manifest id nightly_parser (list_store nightly_parser) nightly_manifest [] =
      Some (Inr \<lparr>pl_entries = [\<lparr>pe_key = ''nightly'', pe_name = ''app.nightly'', pe_action = PLAN_CREATE,
        pe_current_version = None, pe_reason = None\<rparr>], pl_warnings = []\<rparr>)"
    by (simp add: plan_manifest_def nightly_compiles current_owned_all [OF list_store_database] plan_of_current_def
        rows_in_def keyed_def desired_entry_def drift_entries_def rename_warnings_def missing_by_hash_def
        compiled_of_def scheduled_name_def)
  then show ?thesis
    by (simp add: apply_manifest_def nightly_compiles list_store_def nightly_stored owned_rows_def counted_def)
      (simp add: compiled_of_def nightly_manifest_def)
qed

theorem applied_manifest_settles_witness:
  "\<exists>c s' after. apply_manifest id nightly_parser (list_store nightly_parser) nightly_manifest ''ops'' [] = Some (Inr c, s') \<and>
     ap_created c = 1 \<and> plan_manifest id nightly_parser (list_store nightly_parser) nightly_manifest s' = Some (Inr after) \<and>
     plan_changes after = 0"
proof -
  have k: "distinct (dkeys (sm_schedules nightly_manifest))" by (simp add: nightly_manifest_def)
  obtain r s' where a: "apply_manifest id nightly_parser (list_store nightly_parser) nightly_manifest ''ops'' [] = Some (r, s')"
      "\<And>c. r = Inr c \<Longrightarrow> \<exists>after. plan_manifest id nightly_parser (list_store nightly_parser) nightly_manifest s' = Some (Inr after) \<and>
        plan_changes after = 0"
    using applied_manifest_settles [OF list_store_database k, of id nightly_parser "''ops''" "[]"] by blast
  moreover obtain c where "r = Inr c" "ap_created c = 1"
    using nightly_applies a(1) by simp
  ultimately show ?thesis by blast
qed

end
