(* ===== verification/Worker.thy ===== *)
theory Worker
  imports Continuations Commands
begin

text \<open>
  The vocabulary of \<open>worker.py\<close>: the options of the supervisor and of the polling service, the report
  of one run, the control block a run shares with its heartbeat, and the reactions to the loss of
  ownership, to an operator's cancellation and to the shutdown deadline.  Durations are rationals.
  A \<open>concurrent.futures\<close> future is a number; logging has no effect on the state and is left out.
\<close>

section \<open>Options\<close>

record worker_options =
  wo_concurrency :: int
  wo_sync_workers :: "int option"
  wo_soft_stop_timeout :: "rat option"
  wo_cancel_grace :: rat
  wo_settle_max_attempts :: int
  wo_backoff_base :: rat
  wo_backoff_cap :: rat
  wo_backpressure_max :: rat
  wo_no_handler_delay :: int
  wo_unsupported_delay :: int
  wo_fail_on_deadline :: bool
  wo_effect_request_max :: int
  wo_effect_response_max :: int

definition default_worker_options :: worker_options where
  "default_worker_options =
     \<lparr>wo_concurrency = 1, wo_sync_workers = None, wo_soft_stop_timeout = None, wo_cancel_grace = 30,
      wo_settle_max_attempts = 5, wo_backoff_base = 1 / 4, wo_backoff_cap = 5,
      wo_backpressure_max = 120, wo_no_handler_delay = 60, wo_unsupported_delay = 60,
      wo_fail_on_deadline = False, wo_effect_request_max = 8192, wo_effect_response_max = 8192\<rparr>"

definition worker_options_valid :: "worker_options \<Rightarrow> bool" where
  "worker_options_valid ops \<longleftrightarrow>
     between 1 1000 (wo_concurrency ops) \<and> opt_ok (between 1 1000) (wo_sync_workers ops) \<and>
     opt_ok (\<lambda>t. 0 \<le> t) (wo_soft_stop_timeout ops) \<and> 0 \<le> wo_cancel_grace ops \<and>
     between 1 100 (wo_settle_max_attempts ops) \<and> 0 < wo_backoff_base ops \<and> 0 < wo_backoff_cap ops \<and>
     0 < wo_backpressure_max ops \<and> wo_backpressure_max ops \<le> 3600 \<and>
     between 0 86400 (wo_no_handler_delay ops) \<and> between 0 86400 (wo_unsupported_delay ops) \<and>
     between 1024 8388608 (wo_effect_request_max ops) \<and> between 1024 8388608 (wo_effect_response_max ops) \<and>
     opt_ok (\<lambda>n. n \<le> wo_concurrency ops) (wo_sync_workers ops) \<and> wo_backoff_base ops \<le> wo_backoff_cap ops"

definition worker_options_init :: "worker_options \<Rightarrow> exc + worker_options" where
  "worker_options_init ops =
     (if worker_options_valid ops then Inr ops else Inl (ValidationError ''WorkerOptions''))"

definition effective_sync_workers :: "worker_options \<Rightarrow> int" where
  "effective_sync_workers ops = or_int (wo_sync_workers ops) (wo_concurrency ops)"

record service_options =
  so_queues :: "string list"
  so_batch :: int
  so_poll_interval :: rat
  so_listen :: bool
  so_presence_interval :: rat
  so_listener_backoff_base :: rat
  so_listener_backoff_cap :: rat
  so_cancel_inflight_claim :: bool
  so_poll_jitter :: rat
  so_idle_poll_cap :: rat
  so_claim_backoff_base :: rat
  so_claim_backoff_cap :: rat
  so_claim_fatal_threshold :: int
  so_unavailable_fatal_threshold :: "int option"
  so_paused_poll_interval :: rat
  so_nudge_quiet_base :: rat
  so_nudge_quiet_cap :: rat
  so_adaptive_batch :: bool

definition default_service_options :: "string list \<Rightarrow> service_options" where
  "default_service_options qs =
     \<lparr>so_queues = qs, so_batch = 1, so_poll_interval = 5, so_listen = True, so_presence_interval = 60,
      so_listener_backoff_base = 1 / 4, so_listener_backoff_cap = 30, so_cancel_inflight_claim = False,
      so_poll_jitter = 1 / 5, so_idle_poll_cap = 60, so_claim_backoff_base = 1 / 4,
      so_claim_backoff_cap = 30, so_claim_fatal_threshold = 8, so_unavailable_fatal_threshold = None,
      so_paused_poll_interval = 5, so_nudge_quiet_base = 1 / 20, so_nudge_quiet_cap = 2,
      so_adaptive_batch = True\<rparr>"

definition service_options_valid :: "service_options \<Rightarrow> bool" where
  "service_options_valid ops \<longleftrightarrow>
     between 1 50 (so_batch ops) \<and> 1 / 10 \<le> so_poll_interval ops \<and> so_poll_interval ops \<le> 3600 \<and>
     5 \<le> so_presence_interval ops \<and> so_presence_interval ops \<le> 3600 \<and>
     0 < so_listener_backoff_base ops \<and> 0 < so_listener_backoff_cap ops \<and> so_listener_backoff_cap ops \<le> 3600 \<and>
     0 \<le> so_poll_jitter ops \<and> so_poll_jitter ops \<le> 1 / 2 \<and>
     0 \<le> so_idle_poll_cap ops \<and> so_idle_poll_cap ops \<le> 86400 \<and>
     0 < so_claim_backoff_base ops \<and> 0 < so_claim_backoff_cap ops \<and> so_claim_backoff_cap ops \<le> 3600 \<and>
     between 1 100 (so_claim_fatal_threshold ops) \<and>
     opt_ok (between 1 1000) (so_unavailable_fatal_threshold ops) \<and>
     1 / 10 \<le> so_paused_poll_interval ops \<and> so_paused_poll_interval ops \<le> 3600 \<and>
     0 < so_nudge_quiet_base ops \<and> so_nudge_quiet_base ops \<le> 10 \<and>
     0 < so_nudge_quiet_cap ops \<and> so_nudge_quiet_cap ops \<le> 60 \<and>
     1 \<le> length (so_queues ops) \<and> length (so_queues ops) \<le> 100 \<and> distinct (so_queues ops) \<and>
     list_all queue_name (so_queues ops) \<and>
     so_listener_backoff_base ops \<le> so_listener_backoff_cap ops \<and>
     so_claim_backoff_base ops \<le> so_claim_backoff_cap ops \<and> so_nudge_quiet_base ops \<le> so_nudge_quiet_cap ops"

definition service_options_init :: "service_options \<Rightarrow> exc + service_options" where
  "service_options_init ops =
     (if service_options_valid ops then Inr ops else Inl (ValidationError ''WorkerServiceOptions''))"

section \<open>Reports\<close>

datatype job_run_state =
    RS_ACCEPTED | RS_RUNNING | RS_CANCEL_PENDING | RS_SETTLING | RS_SETTLED | RS_OWNERSHIP_LOST
  | RS_ABANDONED_SYNC | RS_RUNTIME_FAILED

datatype job_run_outcome =
    RO_SETTLED | RO_NO_HANDLER | RO_OWNERSHIP_LOST | RO_SETTLE_CONFLICT | RO_SETTLEMENT_UNKNOWN
  | RO_FOLLOWUP_REJECTED | RO_RUNTIME_ERROR | RO_UNSUPPORTED_CONTINUATION_POLICY

record job_run_report =
  rp_job_id :: uuid
  rp_state :: job_run_state
  rp_outcome :: job_run_outcome
  rp_command :: "command_name option"
  rp_settled_as :: "settle_outcome option"
  rp_error_code :: "string option"
  rp_reason :: "cancellation_reason option"
  rp_exit :: bool
  rp_fatal :: bool

definition report_of :: "uuid \<Rightarrow> job_run_state \<Rightarrow> job_run_outcome \<Rightarrow> job_run_report" where
  "report_of i s oc = \<lparr>rp_job_id = i, rp_state = s, rp_outcome = oc, rp_command = None,
     rp_settled_as = None, rp_error_code = None, rp_reason = None, rp_exit = False, rp_fatal = False\<rparr>"

definition runtime_failure :: "uuid \<Rightarrow> command_name \<Rightarrow> job_run_report" where
  "runtime_failure i c = (report_of i RS_RUNTIME_FAILED RO_RUNTIME_ERROR)
     \<lparr>rp_command := Some c, rp_fatal := True\<rparr>"

definition report_from_settle :: "uuid \<Rightarrow> command_name \<Rightarrow> settle_result \<Rightarrow> job_run_report" where
  "report_from_settle i c r =
     (if sr_result r = LOST
      then (report_of i RS_OWNERSHIP_LOST RO_OWNERSHIP_LOST)
        \<lparr>rp_command := Some c, rp_settled_as := Some (sr_result r)\<rparr>
      else if sr_result r = SETTLE_CONFLICT
      then (report_of i RS_RUNTIME_FAILED RO_SETTLE_CONFLICT)
        \<lparr>rp_command := Some c, rp_settled_as := Some (sr_result r), rp_fatal := True\<rparr>
      else (report_of i RS_SETTLED RO_SETTLED)
        \<lparr>rp_command := Some c, rp_settled_as := Some (sr_result r)\<rparr>)"

section \<open>The control block of a run\<close>

datatype handler_state = NotStarted | Active | HandlerDone

record run_control =
  rc_is_sync :: bool
  rc_claim :: "claimed_job option"
  rc_token :: cancellation_token
  rc_lost :: bool
  rc_terminal :: bool
  rc_runtime_failed :: bool
  rc_handler :: handler_state
  rc_handler_cancelled :: bool
  rc_grace :: bool
  rc_shutdown_deadline :: bool
  rc_external :: bool
  rc_abandoned :: bool
  rc_blocking :: "nat set"
  rc_done :: "nat set"

definition new_control :: "bool \<Rightarrow> claimed_job \<Rightarrow> run_control" where
  "new_control is_sync cl = \<lparr>rc_is_sync = is_sync, rc_claim = Some cl, rc_token = new_token,
     rc_lost = False, rc_terminal = False, rc_runtime_failed = False, rc_handler = NotStarted,
     rc_handler_cancelled = False, rc_grace = False, rc_shutdown_deadline = False, rc_external = False,
     rc_abandoned = False, rc_blocking = {}, rc_done = {}\<rparr>"

definition cancel_control :: "cancellation_reason \<Rightarrow> run_control \<Rightarrow> run_control" where
  "cancel_control r c = c\<lparr>rc_token := snd (token_cancel (rc_token c) r)\<rparr>"

definition pending_blocking :: "run_control \<Rightarrow> nat set" where
  "pending_blocking c = rc_blocking c - rc_done c"

text \<open>The second component is what the supervisor's \<open>_unsafe_blocking\<close> becomes.\<close>

definition mark_blocking_unsafe :: "run_control \<Rightarrow> nat set \<Rightarrow> run_control \<times> nat set" where
  "mark_blocking_unsafe c unsafe =
     (if pending_blocking c = {} then (c, unsafe)
      else (c\<lparr>rc_abandoned := True\<rparr>, unsafe \<union> pending_blocking c))"

definition finish_blocking :: "nat \<Rightarrow> run_control \<Rightarrow> nat set \<Rightarrow> run_control \<times> nat set" where
  "finish_blocking f c unsafe = (c\<lparr>rc_blocking := rc_blocking c - {f}\<rparr>, unsafe - {f})"

definition cancel_handler :: "run_control \<Rightarrow> nat set \<Rightarrow> run_control \<times> nat set" where
  "cancel_handler c unsafe = (case mark_blocking_unsafe c unsafe of
     (c1, u) \<Rightarrow> (c1\<lparr>rc_handler_cancelled := True\<rparr>, u))"

definition lose_ownership :: "run_control \<Rightarrow> nat set \<Rightarrow> run_control \<times> nat set" where
  "lose_ownership c unsafe =
     (let c1 = (cancel_control LEASE_LOST c)\<lparr>rc_lost := True\<rparr>;
          c2 = (if rc_is_sync c1 \<and> rc_handler c1 = Active then c1\<lparr>rc_abandoned := True\<rparr> else c1)
      in if \<not> rc_is_sync c2 \<and> rc_handler c2 \<noteq> NotStarted then cancel_handler c2 unsafe
         else (c2, unsafe))"

definition request_operator_cancel :: "run_control \<Rightarrow> run_control" where
  "request_operator_cancel c = (cancel_control OPERATOR c)\<lparr>rc_grace := True\<rparr>"

text \<open>What \<open>_operator_grace\<close> does when its sleep ends.\<close>

definition operator_grace :: "run_control \<Rightarrow> nat set \<Rightarrow> run_control \<times> nat set" where
  "operator_grace c unsafe =
     (if \<not> rc_is_sync c \<and> rc_handler c = Active then cancel_handler c unsafe else (c, unsafe))"

definition enforce_shutdown_deadline :: "run_control \<Rightarrow> nat set \<Rightarrow> run_control \<times> nat set" where
  "enforce_shutdown_deadline c unsafe =
     (let c1 = cancel_control SHUTDOWN c in
      if \<not> rc_is_sync c1 \<and> rc_handler c1 = Active
      then cancel_handler (c1\<lparr>rc_shutdown_deadline := True\<rparr>) unsafe else (c1, unsafe))"

definition ownership_lost_report :: "uuid \<Rightarrow> run_control \<Rightarrow> job_run_report" where
  "ownership_lost_report i c =
     (let reason = (case tok_reason (rc_token c) of None \<Rightarrow> LEASE_LOST | Some r \<Rightarrow> r) in
      if rc_runtime_failed c
      then (report_of i RS_RUNTIME_FAILED RO_RUNTIME_ERROR)
        \<lparr>rp_reason := Some reason, rp_exit := rc_abandoned c, rp_fatal := True\<rparr>
      else (report_of i (if rc_abandoned c then RS_ABANDONED_SYNC else RS_OWNERSHIP_LOST) RO_OWNERSHIP_LOST)
        \<lparr>rp_reason := Some reason, rp_exit := rc_abandoned c\<rparr>)"

section \<open>Pacing\<close>

definition heartbeat_interval :: "int \<Rightarrow> rat" where
  "heartbeat_interval lease_seconds = min (of_int lease_seconds / 3) 30"

definition lease_budget :: "int \<Rightarrow> rat" where
  "lease_budget lease_seconds = of_int lease_seconds - min 60 (of_int lease_seconds / 4)"

lemma lease_budget_bounds:
  assumes "0 < l"
  shows "0 < heartbeat_interval l" "heartbeat_interval l \<le> lease_budget l" "lease_budget l < of_int l"
  using assms by (auto simp: heartbeat_interval_def lease_budget_def min_def)

end
