(* ===== verification/WorkerSettle.thy ===== *)
theory WorkerSettle
  imports Worker
begin

text \<open>
  The settlement side of \<open>WorkerSupervisor\<close>: the retry loop \<open>_settle_with_retry\<close>, the choice of the
  settlement command for a handler's intent, the terminal failure of rejected follow-ups, and the
  releases without a handler or a policy.  The transport is a parameter that changes an arbitrary
  state; what the loop reads from its surroundings in one iteration is a \<open>settle_turn\<close>.
\<close>

section \<open>Calls\<close>

datatype settle_call =
    SendComplete jobj "followup list" "string option"
  | SendFail string bool "int option" "jobj option"
  | SendSnooze int "string option" "jobj option"
  | SendRelease string int "jobj option"
  | SendCancelRunning string

fun command_of :: "settle_call \<Rightarrow> command_name" where
  "command_of (SendComplete r fs h) = C_COMPLETE"
| "command_of (SendFail e rt ra p) = C_FAIL"
| "command_of (SendSnooze d r p) = C_SNOOZE"
| "command_of (SendRelease c d p) = C_RELEASE"
| "command_of (SendCancelRunning r) = C_CANCEL_RUNNING"

type_synonym 's sender = "uuid \<Rightarrow> uuid \<Rightarrow> string \<Rightarrow> settle_call \<Rightarrow> 's \<Rightarrow> (exc + settle_result) \<times> 's"

text \<open>
  A call is answered, or it fails with an exception before it reaches the queue or after it has taken
  effect there.
\<close>

datatype wire = Answered | RequestLost exc | ReplyLost exc

definition deliver :: "wire \<Rightarrow> ('s \<Rightarrow> (exc + 'a) \<times> 's) \<Rightarrow> 's \<Rightarrow> (exc + 'a) \<times> 's" where
  "deliver w op st = (case w of
      Answered \<Rightarrow> op st
    | RequestLost e \<Rightarrow> (Inl e, st)
    | ReplyLost e \<Rightarrow> (Inl e, snd (op st)))"

text \<open>
  One iteration: the control block at the top of the loop, what others do to the queue before the call
  arrives, the call itself, the clock and the stop flag after it failed, the control block at the
  attempt cap, the random number in the unit interval, and whether the sleep ended with the loss of
  ownership, with the control block then.
\<close>

record 's settle_turn =
  tn_start :: rat
  tn_before :: run_control
  tn_others :: "'s \<Rightarrow> 's"
  tn_wire :: wire
  tn_now :: rat
  tn_stopping :: bool
  tn_after :: run_control
  tn_random :: rat
  tn_woken_lost :: bool
  tn_woken :: run_control

section \<open>The outcome of one call\<close>

definition permanent_conflicts :: "string list" where
  "permanent_conflicts = [''continuation_policy_mismatch'', ''workflow_member_limit_exceeded'']"

text \<open>\<open>details.get("reason") in _PERMANENT_CONTINUATION_CONFLICTS\<close>; a list or an object is not hashable.\<close>

definition permanent_conflict :: "taskq_error \<Rightarrow> exc + bool" where
  "permanent_conflict e = (case dget (err_details e) ''reason'' of
      Some (JStr r) \<Rightarrow> Inr (r \<in> set permanent_conflicts)
    | Some (JArr x) \<Rightarrow> Inl (PyException ''TypeError'')
    | Some (JObj x) \<Rightarrow> Inl (PyException ''TypeError'')
    | _ \<Rightarrow> Inr False)"

definition connection_errors :: "string list" where
  "connection_errors = [''TimeoutError'', ''ConnectionError'', ''BrokenPipeError'',
     ''ConnectionAbortedError'', ''ConnectionRefusedError'', ''ConnectionResetError'']"

text \<open>Either the loop ends, or it may retry: the server's delay, backpressure, availability and code.\<close>

datatype verdict = Ended "exc + job_run_report" | Retryable rat bool bool string

definition settle_verdict :: "uuid \<Rightarrow> command_name \<Rightarrow> exc + settle_result \<Rightarrow> verdict" where
  "settle_verdict i c answer = (case answer of
      Inr r \<Rightarrow> Ended (Inr (
        if settle_outcome_value (sr_result r) \<notin> set (spec_outcomes (spec_of c))
        then runtime_failure i c else report_from_settle i c r))
    | Inl e \<Rightarrow> (case e of
        TaskqError x \<Rightarrow>
          if err_code x = VALIDATION \<or> err_code x = CAPABILITY then Ended (Inl e)
          else if err_code x = CONFLICT
          then Ended (if c = C_COMPLETE
            then ebind (permanent_conflict x) (\<lambda>p. if p then Inl e else Inr (runtime_failure i c))
            else Inr (runtime_failure i c))
          else if \<not> err_retryable x then Ended (Inr (runtime_failure i c))
          else Retryable (case err_retry_after x of None \<Rightarrow> 0 | Some q \<Rightarrow> q)
                 (err_code x = BACKPRESSURE)
                 (err_code x \<noteq> BACKPRESSURE \<and> \<not> (err_code x = INTERNAL \<and> err_protocol x))
                 (code_value (err_code x))
      | PyException s \<Rightarrow>
          if s = ''CancelledError'' then Ended (Inl e)
          else if s \<in> set connection_errors then Retryable 0 False True ''transport''
          else Ended (Inr (runtime_failure i c))
      | _ \<Rightarrow> Ended (Inr (runtime_failure i c))))"

section \<open>The retry loop\<close>

text \<open>
  Whether another attempt is allowed, and \<open>settle_failing\<close> afterwards.  \<open>owned\<close> is the claim of the
  control block, if the caller passed one.
\<close>

definition retry_allowed ::
  "worker_options \<Rightarrow> claimed_job option \<Rightarrow> bool \<Rightarrow> bool \<Rightarrow> nat \<Rightarrow> rat \<Rightarrow> bool \<Rightarrow> bool \<Rightarrow> bool \<times> bool" where
  "retry_allowed ops owned backpressure availability attempt elapsed stopping failing =
     (if backpressure then (elapsed < wo_backpressure_max ops, failing)
      else let capped = int attempt < wo_settle_max_attempts ops in
        case owned of
          Some cl \<Rightarrow> if \<not> capped \<and> availability \<and> \<not> stopping
            then (elapsed < lease_budget (cj_lease_seconds cl), True) else (capped, failing)
        | None \<Rightarrow> (capped, failing))"

definition settle_delay ::
  "worker_options \<Rightarrow> claimed_job option \<Rightarrow> bool \<Rightarrow> rat \<Rightarrow> bool \<Rightarrow> nat \<Rightarrow> rat \<Rightarrow> rat" where
  "settle_delay ops owned failing retry_after backpressure attempt random =
     (let upper = min (wo_backoff_base ops * 2 ^ min (attempt - 1) 30)
            (case owned of
               Some cl \<Rightarrow> if failing then heartbeat_interval (cj_lease_seconds cl) else wo_backoff_cap ops
             | None \<Rightarrow> wo_backoff_cap ops);
          delay = max retry_after (random * upper)
      in if backpressure \<and> int attempt \<ge> wo_settle_max_attempts ops
         then max delay (min (wo_backoff_base ops) upper) else delay)"

definition settlement_unknown :: "uuid \<Rightarrow> command_name \<Rightarrow> string \<Rightarrow> job_run_report" where
  "settlement_unknown i c code = (report_of i RS_RUNTIME_FAILED RO_SETTLEMENT_UNKNOWN)
     \<lparr>rp_command := Some c, rp_error_code := Some code, rp_fatal := True\<rparr>"

definition elapsed_since :: "rat \<Rightarrow> rat \<Rightarrow> rat" where
  "elapsed_since started now = max 0 (now - started)"

text \<open>One iteration, with \<open>n\<close> attempts before it: the loop ends, or it goes on with \<open>settle_failing\<close>.\<close>

definition settle_step ::
  "worker_options \<Rightarrow> uuid \<Rightarrow> command_name \<Rightarrow> claimed_job option \<Rightarrow> ('s \<Rightarrow> (exc + settle_result) \<times> 's) \<Rightarrow>
   rat \<Rightarrow> 's settle_turn \<Rightarrow> nat \<Rightarrow> bool \<Rightarrow> 's \<Rightarrow> ((exc + job_run_report) + bool) \<times> 's" where
  "settle_step ops i c owned op started t n failing st =
     (if owned \<noteq> None \<and> rc_lost (tn_before t)
      then (Inl (Inr (ownership_lost_report i (tn_before t))), st)
      else let result = deliver (tn_wire t) op (tn_others t st) in
        (case settle_verdict i c (fst result) of
          Ended r \<Rightarrow> Inl r
        | Retryable retry_after backpressure availability code \<Rightarrow>
            let attempt = Suc n; elapsed = elapsed_since started (tn_now t);
                allowed = retry_allowed ops owned backpressure availability attempt elapsed
                  (tn_stopping t) failing;
                delay = settle_delay ops owned (snd allowed) retry_after backpressure attempt (tn_random t)
            in if \<not> fst allowed
               then Inl (Inr (if owned \<noteq> None \<and> rc_lost (tn_after t)
                 then ownership_lost_report i (tn_after t) else settlement_unknown i c code))
               else if backpressure \<and> elapsed + delay > wo_backpressure_max ops
               then Inl (Inr (settlement_unknown i c code))
               else if owned \<noteq> None \<and> tn_woken_lost t
               then Inl (Inr (ownership_lost_report i (tn_woken t)))
               else Inr (snd allowed), snd result))"

text \<open>
  The loop over the turns it is given; without an end it is still running.  A result comes with the
  turns that are left.
\<close>

type_synonym 's settling = "((exc + job_run_report) \<times> 's settle_turn list) option \<times> 's"

fun settle_loop ::
  "worker_options \<Rightarrow> uuid \<Rightarrow> command_name \<Rightarrow> claimed_job option \<Rightarrow> ('s \<Rightarrow> (exc + settle_result) \<times> 's) \<Rightarrow>
   rat \<Rightarrow> 's settle_turn list \<Rightarrow> nat \<Rightarrow> bool \<Rightarrow> 's \<Rightarrow> 's settling" where
  "settle_loop ops i c owned op started [] n failing st = (None, st)"
| "settle_loop ops i c owned op started (t # ts) n failing st =
     (case settle_step ops i c owned op started t n failing st of
        (Inl r, st1) \<Rightarrow> (Some (r, ts), st1)
      | (Inr failing1, st1) \<Rightarrow> settle_loop ops i c owned op started ts (Suc n) failing1 st1)"

definition settle_with_retry ::
  "worker_options \<Rightarrow> uuid \<Rightarrow> command_name \<Rightarrow> claimed_job option \<Rightarrow> ('s \<Rightarrow> (exc + settle_result) \<times> 's) \<Rightarrow>
   's settle_turn list \<Rightarrow> 's \<Rightarrow> 's settling" where
  "settle_with_retry ops i c owned op ts st = (case ts of
      [] \<Rightarrow> (None, st)
    | t # _ \<Rightarrow> settle_loop ops i c owned op (tn_start t) ts 0 False st)"

text \<open>Continue with the report or the exception of a loop, once it has one.\<close>

definition after_settling ::
  "'s settling \<Rightarrow> (exc + job_run_report \<Rightarrow> 's settle_turn list \<Rightarrow> 's \<Rightarrow> 's settling) \<Rightarrow> 's settling" where
  "after_settling m f = (case m of (None, st) \<Rightarrow> (None, st) | (Some (r, ts), st) \<Rightarrow> f r ts st)"

section \<open>Settling an intent\<close>

definition err_is :: "tq_code \<Rightarrow> exc \<Rightarrow> bool" where
  "err_is c e = (case e of TaskqError x \<Rightarrow> err_code x = c | _ \<Rightarrow> False)"

definition settle_call_of ::
  "worker_options \<Rightarrow> string \<Rightarrow> 's sender \<Rightarrow> claimed_job \<Rightarrow> claimed_job option \<Rightarrow> settle_call \<Rightarrow>
   's settle_turn list \<Rightarrow> 's \<Rightarrow> 's settling" where
  "settle_call_of ops wk send cl owned call ts st =
     settle_with_retry ops (cj_job_id cl) (command_of call) owned
       (send (cj_job_id cl) (cj_attempt_id cl) wk call) ts st"

definition settle_invalid_followup ::
  "worker_options \<Rightarrow> string \<Rightarrow> 's sender \<Rightarrow> claimed_job \<Rightarrow> claimed_job option \<Rightarrow> jobj option \<Rightarrow> bool \<Rightarrow>
   's settle_turn list \<Rightarrow> 's \<Rightarrow> 's settling" where
  "settle_invalid_followup ops wk send cl owned progress capability_skew ts st =
     after_settling
       (settle_call_of ops wk send cl owned
         (SendFail ''invalid_followup: rejected by active worker or SQL contract'' False None progress) ts st)
       (\<lambda>r ts st. (Some (case r of
            Inl e \<Rightarrow> if err_is VALIDATION e \<or> err_is CAPABILITY e
              then Inr (runtime_failure (cj_job_id cl) C_FAIL) else Inl e
          | Inr failed \<Rightarrow>
              if rp_state failed \<noteq> RS_SETTLED then Inr failed
              else Inr ((report_of (cj_job_id cl)
                  (if capability_skew then RS_RUNTIME_FAILED else RS_SETTLED) RO_FOLLOWUP_REJECTED)
                \<lparr>rp_command := Some C_FAIL, rp_settled_as := rp_settled_as failed,
                  rp_fatal := capability_skew\<rparr>), ts), st))"

text \<open>\<open>p or q\<close> on an optional object.\<close>

definition or_object :: "jobj option \<Rightarrow> jobj option \<Rightarrow> jobj option" where
  "or_object p q = (case some_object p of None \<Rightarrow> q | Some x \<Rightarrow> Some x)"

definition intent_call ::
  "worker_options \<Rightarrow> claimed_job \<Rightarrow> handler_result option \<Rightarrow> jobj option \<Rightarrow> bool \<Rightarrow> settle_call" where
  "intent_call ops cl intent progress deadline = (case intent of
      None \<Rightarrow>
        if deadline \<and> wo_fail_on_deadline ops
        then SendFail ''worker_shutdown_deadline'' True None progress
        else SendRelease ''worker_shutdown'' 0 progress
    | Some (Complete r fs) \<Rightarrow> SendComplete r fs (cj_policy_hash cl)
    | Some (Snooze d p rs) \<Rightarrow> SendSnooze d rs (or_object p progress)
    | Some (Cancel rs) \<Rightarrow> SendCancelRunning rs
    | Some (Retry a e p) \<Rightarrow>
        SendFail (case e of None \<Rightarrow> ''handler requested retry''
                  | Some s \<Rightarrow> if s = [] then ''handler requested retry'' else s)
          True a (or_object p progress)
    | Some (NonRetryable e p) \<Rightarrow> SendFail e False None (or_object p progress))"

definition has_followups :: "handler_result option \<Rightarrow> bool" where
  "has_followups intent = (case intent of Some (Complete r fs) \<Rightarrow> fs \<noteq> [] | _ \<Rightarrow> False)"

text \<open>
  \<open>owned\<close> and \<open>deadline\<close> are the claim and the \<open>shutdown_deadline\<close> of the control block, if there is one.
\<close>

definition settle_intent ::
  "worker_options \<Rightarrow> string \<Rightarrow> 's sender \<Rightarrow> claimed_job \<Rightarrow> handler_result option \<Rightarrow>
   cancellation_reason option \<Rightarrow> jobj option \<Rightarrow> claimed_job option \<Rightarrow> bool \<Rightarrow>
   's settle_turn list \<Rightarrow> 's \<Rightarrow> 's settling" where
  "settle_intent ops wk send cl intent reason progress owned deadline ts st =
     (let call = intent_call ops cl intent progress deadline;
          failure = Inr (runtime_failure (cj_job_id cl) (command_of call));
          with_reason = (\<lambda>m. after_settling m (\<lambda>r ts st.
            (Some (map_sum id (\<lambda>rep. rep\<lparr>rp_reason := reason\<rparr>) r, ts), st)))
      in after_settling (settle_call_of ops wk send cl owned call ts st)
        (\<lambda>r ts st. case r of
            Inr rep \<Rightarrow> with_reason (Some (r, ts), st)
          | Inl e \<Rightarrow>
              if \<not> (err_is VALIDATION e \<or> err_is CAPABILITY e \<or> err_is CONFLICT e) then (Some (r, ts), st)
              else if \<not> has_followups intent then (Some (failure, ts), st)
              else case (case e of
                    TaskqError x \<Rightarrow> if err_code x = CONFLICT then permanent_conflict x else Inr True
                  | _ \<Rightarrow> Inr True) of
                  Inl x \<Rightarrow> (Some (Inl x, ts), st)
                | Inr False \<Rightarrow> (Some (failure, ts), st)
                | Inr True \<Rightarrow> with_reason (settle_invalid_followup ops wk send cl owned progress
                    (err_is CAPABILITY e \<or> err_is CONFLICT e \<and>
                      (case e of TaskqError x \<Rightarrow>
                         dget (err_details x) ''reason'' = Some (JStr ''continuation_policy_mismatch'')
                       | _ \<Rightarrow> False)) ts st)))"

section \<open>Releases\<close>

definition release_with ::
  "worker_options \<Rightarrow> string \<Rightarrow> 's sender \<Rightarrow> claimed_job \<Rightarrow> settle_call \<Rightarrow> job_run_outcome \<Rightarrow>
   's settle_turn list \<Rightarrow> 's \<Rightarrow> 's settling" where
  "release_with ops wk send cl call outcome ts st =
     after_settling (settle_call_of ops wk send cl None call ts st)
       (\<lambda>r ts st. (Some (case r of
            Inl e \<Rightarrow> if err_is VALIDATION e \<or> err_is CAPABILITY e
              then Inr (runtime_failure (cj_job_id cl) C_RELEASE) else Inl e
          | Inr rep \<Rightarrow> Inr (if rp_state rep = RS_SETTLED then rep\<lparr>rp_outcome := outcome\<rparr> else rep), ts), st))"

definition release_no_handler ::
  "worker_options \<Rightarrow> string \<Rightarrow> 's sender \<Rightarrow> claimed_job \<Rightarrow> 's settle_turn list \<Rightarrow> 's \<Rightarrow> 's settling" where
  "release_no_handler ops wk send cl ts st = release_with ops wk send cl
     (SendRelease ''no_handler'' (wo_no_handler_delay ops) (cj_progress cl)) RO_NO_HANDLER ts st"

definition release_unsupported_policy ::
  "worker_options \<Rightarrow> string \<Rightarrow> 's sender \<Rightarrow> claimed_job \<Rightarrow> 's settle_turn list \<Rightarrow> 's \<Rightarrow> 's settling" where
  "release_unsupported_policy ops wk send cl ts st = release_with ops wk send cl
     (SendRelease ''released'' (wo_unsupported_delay ops) (cj_progress cl))
     RO_UNSUPPORTED_CONTINUATION_POLICY ts st"

end
