(* ===== verification/WorkerRun.thy ===== *)
theory WorkerRun
  imports WorkerSettle
begin

text \<open>
  \<open>_execute_job\<close> and \<open>_normalize_handler_result\<close>: from a claim to the settlement of what its handler did.
  The handler and everything that runs beside it are an argument: how the handler ended, and the
  control block it left.  The pydantic models of the task are parameters.
\<close>

section \<open>Handlers\<close>

datatype handler_value = ReturnedResult handler_result | ReturnedValue json

text \<open>How awaiting the handler ended; an exception is its diagnostic, \<open>_safe_handler_error(exc)\<close>.\<close>

datatype handler_end =
    Returned handler_value
  | RaisedCancelled cancellation_reason
  | RaisedAsyncCancelled
  | Raised string

text \<open>
  The control block when the await ended and when ownership is checked, after the remaining awaits, and
  the progress the handler checkpointed.
\<close>

record handler_run =
  hr_end :: handler_end
  hr_at_end :: run_control
  hr_control :: run_control
  hr_progress :: "jobj option"

record run_config =
  xc_options :: worker_options
  xc_worker :: string
  xc_registry :: registry
  xc_policies :: "(string, compiled_policy) dict"
  xc_input :: "model \<Rightarrow> jobj \<Rightarrow> string + unit"
  xc_output :: "model \<Rightarrow> json \<Rightarrow> exc + jobj"
  xc_payload :: payload_validator
  xc_diagnose :: "exc \<Rightarrow> string"

fun reason_value :: "cancellation_reason \<Rightarrow> string" where
  "reason_value SHUTDOWN = ''shutdown''"
| "reason_value OPERATOR = ''operator''"
| "reason_value LEASE_LOST = ''lease_lost''"

section \<open>The intent of a handler\<close>

definition normalize_handler_result ::
  "run_config \<Rightarrow> task \<Rightarrow> handler_end \<Rightarrow> compiled_policy option \<Rightarrow> exc + handler_result" where
  "normalize_handler_result cfg t e policy = (case e of
      RaisedCancelled r \<Rightarrow> handler_result_init (Cancel (reason_value r))
    | RaisedAsyncCancelled \<Rightarrow> handler_result_init (Cancel (reason_value SHUTDOWN))
    | Raised d \<Rightarrow> handler_result_init
        (if tk_retry t = RetryBool False then NonRetryable d None else Retry None (Some d) None)
    | Returned (ReturnedResult (Complete r fs)) \<Rightarrow>
        ebind (xc_output cfg (tk_output t) (JObj r)) (\<lambda>validated.
        ebind (normalize_followups (xc_payload cfg) (xc_registry cfg) t fs) (\<lambda>fs1.
        ebind (enforce_continuation_policy t fs1 policy) (\<lambda>fs2. Inr (Complete validated fs2))))
    | Returned (ReturnedResult r) \<Rightarrow> Inr r
    | Returned (ReturnedValue v) \<Rightarrow>
        ebind (xc_output cfg (tk_output t) (if v = JNull then JObj [] else v)) (\<lambda>validated.
          handler_result_init (Complete validated [])))"

text \<open>
  The awaited handler was cancelled from outside when nothing had cancelled it from inside; otherwise
  the cancellation is the reason that was given.
\<close>

definition externally_cancelled :: "handler_run \<Rightarrow> bool" where
  "externally_cancelled run \<longleftrightarrow> hr_end run = RaisedAsyncCancelled \<and>
     tok_reason (rc_token (hr_at_end run)) = None \<and> \<not> rc_shutdown_deadline (hr_at_end run) \<and>
     \<not> rc_lost (hr_at_end run)"

definition effective_end :: "handler_run \<Rightarrow> handler_end" where
  "effective_end run = (if hr_end run = RaisedAsyncCancelled
     then RaisedCancelled (case tok_reason (rc_token (hr_at_end run)) of None \<Rightarrow> SHUTDOWN | Some r \<Rightarrow> r)
     else hr_end run)"

text \<open>The intent to settle, and whether it is the rejection of the follow-ups.\<close>

definition handler_intent ::
  "run_config \<Rightarrow> task \<Rightarrow> handler_run \<Rightarrow> compiled_policy option \<Rightarrow> exc + (handler_result option \<times> bool)" where
  "handler_intent cfg t run policy =
     (let reason = tok_reason (rc_token (hr_control run)) in
      ebind (case normalize_handler_result cfg t (effective_end run) policy of
          Inr r \<Rightarrow> Inr (r, False)
        | Inl (InvalidFollowupError m) \<Rightarrow> Inr (NonRetryable ''invalid_followup'' None, True)
        | Inl (ValidationError m) \<Rightarrow>
            Inr (NonRetryable (''invalid_handler_result: '' @ xc_diagnose cfg (ValidationError m)) None, False)
        | Inl (ConfigError m) \<Rightarrow>
            Inr (NonRetryable (''invalid_handler_result: '' @ xc_diagnose cfg (ConfigError m)) None, False)
        | Inl e \<Rightarrow> Inl e)
      (\<lambda>(intent, invalid). Inr
        (if reason = Some OPERATOR then Some (Cancel ''operator_cancel_requested'')
         else if reason = Some SHUTDOWN \<and>
           ((\<exists>r. effective_end run = RaisedCancelled r) \<or> rc_shutdown_deadline (hr_control run))
         then None else Some intent, invalid)))"

section \<open>Execution\<close>

definition settle_run ::
  "run_config \<Rightarrow> 's sender \<Rightarrow> claimed_job \<Rightarrow> task \<Rightarrow> compiled_policy option \<Rightarrow> handler_run \<Rightarrow>
   's settle_turn list \<Rightarrow> 's \<Rightarrow> 's settling" where
  "settle_run cfg send cl t policy run ts st =
     (let ctl = hr_control run; deadline = rc_shutdown_deadline ctl in
      if rc_lost ctl then (Some (Inr (ownership_lost_report (cj_job_id cl) ctl), ts), st)
      else if externally_cancelled run
      then after_settling
        (settle_intent (xc_options cfg) (xc_worker cfg) send cl None (Some SHUTDOWN) (hr_progress run)
          (Some cl) deadline ts st)
        (\<lambda>r ts st. (Some (ebind r (\<lambda>_. Inl (PyException ''CancelledError'')), ts), st))
      else case handler_intent cfg t run policy of
        Inl e \<Rightarrow> (Some (Inl e, ts), st)
      | Inr (intent, invalid) \<Rightarrow>
          if invalid
          then settle_invalid_followup (xc_options cfg) (xc_worker cfg) send cl (Some cl) (hr_progress run)
                 False ts st
          else settle_intent (xc_options cfg) (xc_worker cfg) send cl intent
                 (tok_reason (rc_token ctl)) (hr_progress run) (Some cl) deadline ts st)"

definition execute_job ::
  "run_config \<Rightarrow> 's sender \<Rightarrow> claimed_job \<Rightarrow> (task \<Rightarrow> handler_run) \<Rightarrow> 's settle_turn list \<Rightarrow> 's \<Rightarrow> 's settling" where
  "execute_job cfg send cl run ts st =
     (let ops = xc_options cfg;
          policy = Option.bind (cj_policy_hash cl) (dget (xc_policies cfg)) in
      if cj_policy_hash cl \<noteq> None \<and> policy = None
      then release_unsupported_policy ops (xc_worker cfg) send cl ts st
      else case resolve (xc_registry cfg) (cj_job_type cl) of
        None \<Rightarrow> release_no_handler ops (xc_worker cfg) send cl ts st
      | Some t \<Rightarrow>
          if tk_handler t = None then release_no_handler ops (xc_worker cfg) send cl ts st
          else case xc_input cfg (tk_input t) (cj_payload cl) of
            Inl d \<Rightarrow> settle_intent ops (xc_worker cfg) send cl
              (Some (NonRetryable (''invalid_payload: '' @ d) None)) None (cj_progress cl) None False ts st
          | Inr _ \<Rightarrow>
              case job_context_init (cj_failure_count cl) (cj_max_attempts cl) (cj_progress cl)
                  (wo_effect_request_max ops) (wo_effect_response_max ops) of
                Inl e \<Rightarrow> (Some (Inl e, ts), st)
              | Inr ctx \<Rightarrow> settle_run cfg send cl t policy (run t) ts st)"

end
