(* ===== verification/WorkerSettleProps.thy ===== *)
theory WorkerSettleProps
  imports WorkerSettle
begin

text \<open>
  Properties of the retry loop that hold for every transport: it ends when its retries last, and
  it does not give up before its budgets are spent.
\<close>

section \<open>The loop ends\<close>

definition time_spent :: "worker_options \<Rightarrow> claimed_job option \<Rightarrow> rat \<Rightarrow> bool" where
  "time_spent ops owned elapsed \<longleftrightarrow> wo_backpressure_max ops \<le> elapsed \<and>
     (case owned of None \<Rightarrow> True | Some cl \<Rightarrow> lease_budget (cj_lease_seconds cl) \<le> elapsed)"

lemma retry_allowed_spent:
  assumes "wo_settle_max_attempts ops \<le> int attempt" and "time_spent ops owned elapsed"
  shows "\<not> fst (retry_allowed ops owned bp av attempt elapsed stopping failing)"
  using assms by (auto simp: retry_allowed_def time_spent_def Let_def split: option.splits)

lemma settle_step_spent:
  assumes "wo_settle_max_attempts ops \<le> int (Suc n)" and "time_spent ops owned (elapsed_since started (tn_now t))"
  shows "\<exists>r st1. settle_step ops i c owned op started t n failing st = (Inl r, st1)"
proof (cases "owned \<noteq> None \<and> rc_lost (tn_before t)")
  case False
  then show ?thesis
    using retry_allowed_spent [OF assms]
    by (cases "settle_verdict i c (fst (deliver (tn_wire t) op (tn_others t st)))")
      (auto simp: settle_step_def Let_def)
qed (simp add: settle_step_def)

lemma settle_loop_ends_within:
  assumes "k < length ts" and "wo_settle_max_attempts ops \<le> int (n + k + 1)"
    and "time_spent ops owned (elapsed_since started (tn_now (ts ! k)))"
  shows "\<exists>r used rest. settle_loop ops i c owned op started ts n failing st = (Some (r, rest), used) \<and>
    length ts \<le> Suc k + length rest"
  using assms
proof (induction ts arbitrary: k n failing st)
  case (Cons t ts)
  show ?case
  proof (cases k)
    case 0
    then obtain r st1 where "settle_step ops i c owned op started t n failing st = (Inl r, st1)"
      using settle_step_spent [of ops n owned started t i c op failing st] Cons.prems(2,3) 0 by auto
    then show ?thesis by simp
  next
    case (Suc m)
    then have "\<exists>r used rest. settle_loop ops i c owned op started ts (Suc n) f st = (Some (r, rest), used) \<and>
        length ts \<le> Suc m + length rest" for f st
      using Cons.IH [of m "Suc n" f st] Cons.prems by simp
    then show ?thesis using Suc
      by (cases "settle_step ops i c owned op started t n failing st"; cases "fst (settle_step ops i c owned op started t n failing st)") fastforce+
  qed
qed simp

text \<open>
  The time after which no failure is retried, and how many attempts fit into it when each lasts at least
  \<open>d\<close>, but never fewer than the attempt limit.
\<close>

definition settle_budget :: "worker_options \<Rightarrow> claimed_job option \<Rightarrow> rat" where
  "settle_budget ops owned = max (wo_backpressure_max ops)
     (case owned of None \<Rightarrow> 0 | Some cl \<Rightarrow> lease_budget (cj_lease_seconds cl))"

definition settle_attempts :: "worker_options \<Rightarrow> claimed_job option \<Rightarrow> rat \<Rightarrow> nat" where
  "settle_attempts ops owned d = max (nat (wo_settle_max_attempts ops)) (Suc (nat \<lceil>settle_budget ops owned / d\<rceil>))"

text \<open>Every retry lasts: the clock read after an attempt is at least \<open>d\<close> past the one read after the attempt before.\<close>

definition retries_last :: "rat \<Rightarrow> 's settle_turn list \<Rightarrow> bool" where
  "retries_last d ts \<longleftrightarrow> (\<forall>i. Suc i < length ts \<longrightarrow> tn_now (ts ! i) + d \<le> tn_now (ts ! Suc i)) \<and>
     (ts \<noteq> [] \<longrightarrow> tn_start (ts ! 0) \<le> tn_now (ts ! 0))"

lemma retries_last_time:
  assumes "retries_last d ts" and "k < length ts" shows "of_nat k * d \<le> elapsed_since (tn_start (ts ! 0)) (tn_now (ts ! k))"
proof -
  have "tn_start (ts ! 0) + of_nat k * d \<le> tn_now (ts ! k)"
    using assms
  proof (induction k)
    case (Suc k)
    then have "tn_now (ts ! k) + d \<le> tn_now (ts ! Suc k)" by (simp add: retries_last_def)
    then show ?case using Suc by (simp add: algebra_simps)
  qed (auto simp: retries_last_def)
  then show ?thesis by (simp add: elapsed_since_def)
qed

lemma budget_time_spent: "settle_budget ops owned \<le> elapsed \<Longrightarrow> time_spent ops owned elapsed"
  by (auto simp: settle_budget_def time_spent_def split: option.splits)

text \<open>
  C30: A settlement ends when its retries last.  If every attempt takes at least \<open>d > 0\<close> seconds, call and pause
  together, the loop has returned after at most \<open>settle_attempts\<close> attempts: the attempt limit, or as many as
  fit into the larger of the backpressure and the lease budget, whatever the transport answers, however
  the errors mix, and whatever the random delays are.
\<close>

theorem settlement_ends:
  assumes "0 < d" and "retries_last d ts" and "settle_attempts ops owned d \<le> length ts"
  shows "\<exists>r used rest. settle_with_retry ops i c owned op ts st = (Some (r, rest), used) \<and>
    length ts \<le> settle_attempts ops owned d + length rest"
proof -
  define k where "k = settle_attempts ops owned d - 1"
  have k: "k < length ts" "Suc k = settle_attempts ops owned d" using assms(3) by (auto simp: k_def settle_attempts_def)
  have "settle_budget ops owned / d \<le> of_nat k"
    using k(2) by (simp add: settle_attempts_def max_def split: if_splits) linarith+
  then have "settle_budget ops owned \<le> of_nat k * d" using assms(1) by (simp add: divide_le_eq)
  then have spent: "time_spent ops owned (elapsed_since (tn_start (ts ! 0)) (tn_now (ts ! k)))"
    using retries_last_time [OF assms(2) k(1)] by (intro budget_time_spent) simp
  have limit: "wo_settle_max_attempts ops \<le> int (0 + k + 1)" using k(2) by (auto simp: settle_attempts_def)
  obtain t us where ts: "ts = t # us" using k(1) by (cases ts) auto
  show ?thesis
    unfolding settle_with_retry_def ts list.case
    using settle_loop_ends_within [where k = k and n = 0, OF _ limit] k spent ts by fastforce
qed

section \<open>The loop does not give up early\<close>

lemma report_outcomes [simp]:
  "rp_outcome (runtime_failure i c) = RO_RUNTIME_ERROR"
  "rp_outcome (ownership_lost_report i ctl) \<noteq> RO_SETTLEMENT_UNKNOWN"
  "rp_outcome (report_from_settle i c r) \<noteq> RO_SETTLEMENT_UNKNOWN"
  "rp_outcome (settlement_unknown i c code) = RO_SETTLEMENT_UNKNOWN"
  "rp_error_code (settlement_unknown i c code) = Some code"
  by (simp_all add: runtime_failure_def ownership_lost_report_def report_from_settle_def report_of_def
      settlement_unknown_def Let_def)

lemma verdict_known: "settle_verdict i c answer = Ended (Inr rep) \<Longrightarrow> rp_outcome rep \<noteq> RO_SETTLEMENT_UNKNOWN"
  by (auto simp: settle_verdict_def result_simps split: sum.splits exc.splits if_splits)

text \<open>The code of a retryable failure tells backpressure from the rest.\<close>

lemma code_value_iff [simp]:
  "code_value c = ''TQ429'' \<longleftrightarrow> c = BACKPRESSURE" "code_value c = ''TQ500'' \<longleftrightarrow> c = INTERNAL"
  by (cases c; simp)+

lemma verdict_retryable:
  assumes "settle_verdict i c answer = Retryable ra bp av code"
  shows "(bp \<longleftrightarrow> code = ''TQ429'') \<and> (\<not> bp \<and> code \<noteq> ''TQ500'' \<longrightarrow> av)"
  using assms by (auto simp: settle_verdict_def split: sum.splits exc.splits if_splits)

text \<open>The condition under which one iteration may give up: the time of backpressure is spent, or the
  attempts are, and for an owned job of a worker that goes on, the lease as well.\<close>

definition may_give_up ::
  "worker_options \<Rightarrow> claimed_job option \<Rightarrow> rat \<Rightarrow> 's settle_turn \<Rightarrow> nat \<Rightarrow> string \<Rightarrow> bool" where
  "may_give_up ops owned started t attempt code \<longleftrightarrow> (let elapsed = elapsed_since started (tn_now t) in
     if code = ''TQ429''
     then wo_backpressure_max ops \<le> elapsed \<or>
       (\<exists>failing ra. wo_backpressure_max ops
          < elapsed + settle_delay ops owned failing ra True attempt (tn_random t))
     else wo_settle_max_attempts ops \<le> int attempt \<and>
       (code = ''TQ500'' \<or> tn_stopping t \<or>
          (case owned of None \<Rightarrow> True | Some cl \<Rightarrow> lease_budget (cj_lease_seconds cl) \<le> elapsed)))"

lemma settle_step_unknown:
  assumes "settle_step ops i c owned op started t n failing st = (Inl (Inr rep), st1)"
    and "rp_outcome rep = RO_SETTLEMENT_UNKNOWN"
  shows "\<exists>code. rp_error_code rep = Some code \<and> may_give_up ops owned started t (Suc n) code"
proof (cases "owned \<noteq> None \<and> rc_lost (tn_before t)")
  case True
  then show ?thesis using assms by (auto simp: settle_step_def)
next
  case False
  show ?thesis
  proof (cases "settle_verdict i c (fst (deliver (tn_wire t) op (tn_others t st)))")
    case (Ended r)
    then show ?thesis using assms False verdict_known by (auto simp: settle_step_def Let_def)
  next
    case (Retryable ra bp av code)
    note v = verdict_retryable [OF Retryable]
    let ?e = "elapsed_since started (tn_now t)"
    let ?allowed = "fst (retry_allowed ops owned bp av (Suc n) ?e (tn_stopping t) failing)"
    have c: "rp_error_code rep = Some code"
        "\<not> ?allowed \<or> bp \<and> (\<exists>f. wo_backpressure_max ops < ?e + settle_delay ops owned f ra True (Suc n) (tn_random t))"
      using assms False Retryable by (auto simp: settle_step_def Let_def split: if_splits)
    show ?thesis
    proof (cases bp)
      case True
      then have "?allowed \<longleftrightarrow> ?e < wo_backpressure_max ops" by (simp add: retry_allowed_def)
      then show ?thesis using c v True unfolding may_give_up_def Let_def by (metis not_less)
    next
      case False
      then have "wo_settle_max_attempts ops \<le> int (Suc n) \<and>
          (\<not> av \<or> tn_stopping t \<or> (case owned of None \<Rightarrow> True | Some cl \<Rightarrow> lease_budget (cj_lease_seconds cl) \<le> ?e))"
        using c(2) by (cases owned) (auto simp: retry_allowed_def Let_def split: if_splits)
      then show ?thesis using c(1) v False unfolding may_give_up_def Let_def by auto
    qed
  qed
qed

lemma settle_loop_unknown:
  assumes "settle_loop ops i c owned op started turns n failing st = (Some (Inr rep, ts), st')"
    and "rp_outcome rep = RO_SETTLEMENT_UNKNOWN"
  shows "\<exists>us t code. turns = us @ t # ts \<and> rp_error_code rep = Some code \<and>
    may_give_up ops owned started t (n + length us + 1) code"
  using assms
proof (induction turns arbitrary: n failing st)
  case (Cons t turns)
  obtain x st1 where x: "settle_step ops i c owned op started t n failing st = (x, st1)"
    by (cases rule: prod.exhaust)
  show ?case
  proof (cases x)
    case (Inl r)
    then show ?thesis
      using Cons.prems x settle_step_unknown [of ops i c owned op started t n failing st rep st1]
      by (intro exI [of _ "[]"]) auto
  next
    case (Inr f)
    then obtain us t' code where "turns = us @ t' # ts" "rp_error_code rep = Some code"
        "may_give_up ops owned started t' (Suc n + length us + 1) code"
      using Cons x by fastforce
    then show ?thesis by (intro exI [of _ "t # us"]) auto
  qed
qed simp

text \<open>
  An unknown settlement is the last resort: it is reported only after an attempt whose failure was
  backpressure with the time budget for it spent (or spent by the next delay), or another retryable
  failure at the attempt limit, and then, for an owned job of a worker that is not stopping, only past
  the lease budget unless the failure was an internal one.
\<close>

theorem settlement_gives_up_late:
  assumes "settle_with_retry ops i c owned op turns st = (Some (Inr rep, ts), st')"
    and "rp_outcome rep = RO_SETTLEMENT_UNKNOWN"
  shows "\<exists>us t code. turns = us @ t # ts \<and> rp_error_code rep = Some code \<and>
    may_give_up ops owned (tn_start (turns ! 0)) t (length us + 1) code"
proof -
  obtain t us where t: "turns = t # us" using assms(1) by (cases turns) (auto simp: settle_with_retry_def)
  show ?thesis
    using settle_loop_unknown [of ops i c owned op "tn_start t" turns 0 False st rep ts st'] assms t
    by (simp add: settle_with_retry_def)
qed

section \<open>A run against a queue that is down\<close>

definition idle_control :: run_control where
  "idle_control = \<lparr>rc_is_sync = False, rc_claim = None, rc_token = new_token, rc_lost = False,
     rc_terminal = False, rc_runtime_failed = False, rc_handler = NotStarted,
     rc_handler_cancelled = False, rc_grace = False, rc_shutdown_deadline = False,
     rc_external = False, rc_abandoned = False, rc_blocking = {}, rc_done = {}\<rparr>"

definition down_turn :: "rat \<Rightarrow> unit settle_turn" where
  "down_turn now = \<lparr>tn_start = 0, tn_before = idle_control, tn_others = id, tn_wire = Answered,
     tn_now = now, tn_stopping = False, tn_after = idle_control, tn_random = 1,
     tn_woken_lost = False, tn_woken = idle_control\<rparr>"

definition down :: "unit \<Rightarrow> (exc + settle_result) \<times> unit" where
  "down u = (Inl (raise_code UNAVAILABLE), ())"

lemma down_settling:
  "settle_with_retry default_worker_options 7 C_RELEASE None down
     [down_turn 1, down_turn 2, down_turn 3, down_turn 4, down_turn 130] () =
   (Some (Inr (settlement_unknown 7 C_RELEASE ''TQ503''), []), ())"
  by (simp add: settle_with_retry_def settle_step_def deliver_def down_turn_def down_def settle_verdict_def
      taskq_error_init_def retry_allowed_def default_worker_options_def elapsed_since_def
      normalize_retry_after_def Let_def)

theorem settlement_ends_witness:
  "\<exists>r used rest. settle_with_retry default_worker_options 7 C_RELEASE None down
     [down_turn 1, down_turn 31, down_turn 61, down_turn 91, down_turn 121] () = (Some (r, rest), used) \<and>
     settle_attempts default_worker_options None 30 = 5"
proof -
  let ?ts = "[down_turn 1, down_turn 31, down_turn 61, down_turn 91, down_turn 121]"
  have "settle_attempts default_worker_options None 30 = 5"
    by (simp add: settle_attempts_def settle_budget_def default_worker_options_def)
  moreover have "retries_last 30 ?ts"
    unfolding retries_last_def by (auto simp: down_turn_def less_Suc_eq numeral_eq_Suc)
  ultimately show ?thesis
    using settlement_ends [of 30 ?ts default_worker_options None 7 C_RELEASE down "()"] by auto
qed

theorem settlement_gives_up_late_witness:
  "\<exists>us t. [down_turn 1, down_turn 2, down_turn 3, down_turn 4, down_turn 130] = us @ [t] \<and>
     may_give_up default_worker_options None 0 t (length us + 1) ''TQ503''"
proof -
  have "rp_outcome (settlement_unknown 7 C_RELEASE ''TQ503'') = RO_SETTLEMENT_UNKNOWN" by simp
  from settlement_gives_up_late [OF down_settling this] show ?thesis by (auto simp: down_turn_def)
qed

end
