(* ===== verification/WorkerRunProps.thy ===== *)
theory WorkerRunProps
  imports WorkerRun WorkerSettleProps
begin

text \<open>
  The reports of the supervisor are coherent, whatever the handler, the transport and the timing did.
\<close>

section \<open>Coherent reports\<close>

definition report_ok :: "uuid \<Rightarrow> job_run_report \<Rightarrow> bool" where
  "report_ok i rep \<longleftrightarrow> rp_job_id rep = i \<and>
     rp_state rep \<in> {RS_SETTLED, RS_OWNERSHIP_LOST, RS_ABANDONED_SYNC, RS_RUNTIME_FAILED} \<and>
     (rp_fatal rep \<longleftrightarrow> rp_state rep = RS_RUNTIME_FAILED) \<and>
     (rp_state rep = RS_SETTLED \<longleftrightarrow> rp_outcome rep \<in> {RO_SETTLED, RO_NO_HANDLER,
        RO_UNSUPPORTED_CONTINUATION_POLICY} \<or> rp_outcome rep = RO_FOLLOWUP_REJECTED \<and> \<not> rp_fatal rep) \<and>
     (rp_state rep = RS_SETTLED \<longrightarrow>
        (\<exists>c r. rp_command rep = Some c \<and> rp_settled_as rep = Some r \<and> r \<noteq> LOST \<and> r \<noteq> SETTLE_CONFLICT \<and>
           settle_outcome_value r \<in> set (spec_outcomes (spec_of c)))) \<and>
     (rp_outcome rep = RO_OWNERSHIP_LOST \<longleftrightarrow> rp_state rep \<in> {RS_OWNERSHIP_LOST, RS_ABANDONED_SYNC}) \<and>
     (rp_exit rep \<longrightarrow> rp_state rep \<in> {RS_ABANDONED_SYNC, RS_RUNTIME_FAILED})"

lemma reports_ok [simp]:
  "report_ok i (runtime_failure i c)" "report_ok i (ownership_lost_report i ctl)"
  "report_ok i (settlement_unknown i c code)"
  by (simp_all add: report_ok_def runtime_failure_def ownership_lost_report_def settlement_unknown_def
      report_of_def Let_def)

text \<open>The report of one command: it also names that command when the job is settled.\<close>

definition report_for :: "uuid \<Rightarrow> command_name \<Rightarrow> job_run_report \<Rightarrow> bool" where
  "report_for i c rep \<longleftrightarrow> report_ok i rep \<and> (rp_state rep = RS_SETTLED \<longrightarrow> rp_command rep = Some c)"

lemma report_from_settle_for:
  "settle_outcome_value (sr_result r) \<in> set (spec_outcomes (spec_of c)) \<Longrightarrow>
   report_for i c (report_from_settle i c r)"
  by (simp add: report_for_def report_ok_def report_from_settle_def report_of_def)

lemma other_reports_for [simp]:
  "report_for i c (runtime_failure i c)" "report_for i c (ownership_lost_report i ctl)"
  "report_for i c (settlement_unknown i c code)"
  by (simp_all add: report_for_def) (simp_all add: runtime_failure_def ownership_lost_report_def
      settlement_unknown_def report_of_def Let_def)

lemma verdict_for: "settle_verdict i c answer = Ended (Inr rep) \<Longrightarrow> report_for i c rep"
  using report_from_settle_for
  by (auto simp: settle_verdict_def result_simps split: sum.splits exc.splits if_splits)

lemma step_for: "settle_step ops i c owned op started t n failing st = (Inl (Inr rep), st') \<Longrightarrow> report_for i c rep"
  using verdict_for [of i c "fst (deliver (tn_wire t) op (tn_others t st))" rep]
  by (auto simp: settle_step_def Let_def split: if_splits verdict.splits)

section \<open>Every settling reports coherently\<close>

definition reports :: "(job_run_report \<Rightarrow> bool) \<Rightarrow> 's settling \<Rightarrow> bool" where
  "reports P m \<longleftrightarrow> (\<forall>rep ts. fst m = Some (Inr rep, ts) \<longrightarrow> P rep)"

lemma reports_simps [simp]:
  "reports P (None, st)" "reports P (Some (Inl e, ts), st)" "reports P (Some (Inr rep, ts), st) \<longleftrightarrow> P rep"
  by (simp_all add: reports_def)

lemma loop_reports: "reports (report_for i c) (settle_loop ops i c owned op started turns n failing st)"
proof (induction turns arbitrary: n failing st)
  case (Cons t turns)
  obtain x st1 where x: "settle_step ops i c owned op started t n failing st = (x, st1)"
    by (cases rule: prod.exhaust)
  show ?case
  proof (cases x)
    case (Inl r)
    then show ?thesis using x step_for [of ops i c owned op started t n failing st] by (cases r) auto
  next
    case (Inr f)
    then show ?thesis using x Cons by simp
  qed
qed simp

lemma settle_call_reports:
  "reports (report_for (cj_job_id cl) (command_of call)) (settle_call_of ops wk send cl owned call ts st)"
  unfolding settle_call_of_def settle_with_retry_def
  by (cases ts) (simp_all add: loop_reports del: settle_loop.simps)

lemma after_settling_reports:
  assumes "reports P m" and "\<And>r ts st. (\<forall>rep. r = Inr rep \<longrightarrow> P rep) \<Longrightarrow> reports Q (f r ts st)"
  shows "reports Q (after_settling m f)"
proof (cases "fst m")
  case None
  then show ?thesis by (cases m) (simp add: after_settling_def)
next
  case (Some y)
  obtain r ts st where y: "m = (Some (r, ts), st)" using Some by (cases m; cases y) auto
  have "\<forall>rep. r = Inr rep \<longrightarrow> P rep" using assms(1) y by (auto simp: reports_def)
  from assms(2) [OF this] show ?thesis by (simp add: y after_settling_def)
qed

lemma report_reason_ok [simp]: "report_ok i (rep\<lparr>rp_reason := x\<rparr>) = report_ok i rep"
  by (simp add: report_ok_def)

lemma report_rejected_ok:
  assumes "report_for i C_FAIL failed" and "rp_state failed = RS_SETTLED"
  shows "report_ok i ((report_of i (if skew then RS_RUNTIME_FAILED else RS_SETTLED) RO_FOLLOWUP_REJECTED)
    \<lparr>rp_command := Some C_FAIL, rp_settled_as := rp_settled_as failed, rp_fatal := skew\<rparr>)"
  using assms by (auto simp: report_for_def report_ok_def report_of_def)

lemma invalid_followup_reports:
  "reports (report_ok (cj_job_id cl)) (settle_invalid_followup ops wk send cl owned p skew ts st)"
  unfolding settle_invalid_followup_def
proof (rule after_settling_reports [OF settle_call_reports])
  fix r :: "exc + job_run_report" and ts :: "'a settle_turn list" and st :: 'a
  assume "\<forall>rep. r = Inr rep \<longrightarrow> report_for (cj_job_id cl)
    (command_of (SendFail ''invalid_followup: rejected by active worker or SQL contract'' False None p)) rep"
  then show "reports (report_ok (cj_job_id cl)) (Some (case r of
            Inl e \<Rightarrow> if err_is VALIDATION e \<or> err_is CAPABILITY e
              then Inr (runtime_failure (cj_job_id cl) C_FAIL) else Inl e
          | Inr failed \<Rightarrow>
              if rp_state failed \<noteq> RS_SETTLED then Inr failed
              else Inr ((report_of (cj_job_id cl)
                  (if skew then RS_RUNTIME_FAILED else RS_SETTLED) RO_FOLLOWUP_REJECTED)
                \<lparr>rp_command := Some C_FAIL, rp_settled_as := rp_settled_as failed,
                  rp_fatal := skew\<rparr>), ts), st)"
    using report_rejected_ok [of "cj_job_id cl" _ skew] by (cases r) (auto simp: report_for_def)
qed

lemma report_released_ok:
  assumes "report_ok i rep" and "rp_state rep = RS_SETTLED"
    and "oc = RO_NO_HANDLER \<or> oc = RO_UNSUPPORTED_CONTINUATION_POLICY"
  shows "report_ok i (rep\<lparr>rp_outcome := oc\<rparr>)"
  using assms(3)
proof
  show "oc = RO_NO_HANDLER \<Longrightarrow> ?thesis" using assms(1,2) by (simp add: report_ok_def)
  show "oc = RO_UNSUPPORTED_CONTINUATION_POLICY \<Longrightarrow> ?thesis" using assms(1,2) by (simp add: report_ok_def)
qed

lemma release_reports:
  assumes "outcome = RO_NO_HANDLER \<or> outcome = RO_UNSUPPORTED_CONTINUATION_POLICY"
  shows "reports (report_ok (cj_job_id cl)) (release_with ops wk send cl call outcome ts st)"
  unfolding release_with_def
proof (rule after_settling_reports [OF settle_call_reports], goal_cases)
  case (1 r ts st)
  show ?case
  proof (cases r)
    case (Inr rep)
    then have "report_ok (cj_job_id cl) rep" using 1 by (simp add: report_for_def)
    then show ?thesis using report_released_ok [OF _ _ assms] Inr by simp
  qed simp
qed

lemma with_reason_reports:
  "reports (report_ok i) m \<Longrightarrow> reports (report_ok i) (after_settling m (\<lambda>r ts st.
     (Some (map_sum id (\<lambda>rep. rep\<lparr>rp_reason := x\<rparr>) r, ts), st)))"
proof (rule after_settling_reports, assumption)
  fix r :: "exc + job_run_report" and ts :: "'a settle_turn list" and st :: 'a
  assume "\<forall>rep. r = Inr rep \<longrightarrow> report_ok i rep"
  then show "reports (report_ok i) (Some (map_sum id (\<lambda>rep. rep\<lparr>rp_reason := x\<rparr>) r, ts), st)"
    by (cases r) simp_all
qed

lemma settle_intent_reports:
  "reports (report_ok (cj_job_id cl)) (settle_intent ops wk send cl intent reason p owned deadline ts st)"
  unfolding settle_intent_def Let_def
proof (rule after_settling_reports [OF settle_call_reports], goal_cases)
  case (1 r ts st)
  show ?case
  proof (cases r)
    case (Inr rep)
    then have "reports (report_ok (cj_job_id cl)) (Some (r, ts), st)" using 1 by (simp add: report_for_def)
    from with_reason_reports [OF this] show ?thesis using Inr by simp
  next
    case (Inl e)
    then show ?thesis
      using with_reason_reports [OF invalid_followup_reports [of cl ops wk send owned p _ ts st]]
      by (simp split: sum.split bool.split exc.split)
  qed
qed

lemma settle_run_reports:
  "reports (report_ok (cj_job_id cl)) (settle_run cfg send cl t policy run ts st)"
proof -
  have ext: "reports (report_ok i) (after_settling m (\<lambda>r ts st.
      (Some (ebind r (\<lambda>_. Inl (PyException ''CancelledError'')), ts), st)))" for i and m :: "'a settling"
    by (rule after_settling_reports [where P = "\<lambda>_. True"]) (auto simp: reports_def result_simps)
  show ?thesis
    unfolding settle_run_def Let_def
    by (simp add: ext settle_intent_reports invalid_followup_reports split: sum.split prod.split)
qed

text \<open>
  C31: A report of the supervisor is coherent, whatever the handler, the transport and the timing did: it
  is about the claimed job and in a final state; it is fatal exactly when the runtime failed; a
  settled job names its command and an outcome that the command's table lists and that is neither
  lost nor a conflict; a lost ownership is never reported as settled; and only an abandoned thread or
  a failed runtime asks for the end of the process.
\<close>

theorem execution_reports_coherent:
  assumes "execute_job cfg send cl run ts st = (Some (Inr rep, ts'), st')"
  shows "report_ok (cj_job_id cl) rep"
proof -
  have "reports (report_ok (cj_job_id cl)) (execute_job cfg send cl run ts st)"
    unfolding execute_job_def Let_def
    by (simp add: release_unsupported_policy_def release_no_handler_def release_reports
        settle_intent_reports settle_run_reports split: option.split sum.split)
  then show ?thesis using assms by (simp add: reports_def)
qed

end
