(* ===== verification/WorkerQueue.thy ===== *)
theory WorkerQueue
  imports WorkerRunProps FakeDraws
begin

text \<open>
  A worker that settles against the queue through a connection that loses requests and replies, while
  other clients of the queue make any calls in between: the retries of \<open>_settle_with_retry\<close> and the
  fence of the queue together make the settlement take effect at most once.
\<close>

section \<open>The queue as the worker's transport\<close>

fun settlement_of :: "clock \<Rightarrow> settle_call \<Rightarrow> settlement" where
  "settlement_of clk (SendComplete r fs h) = Completing (Some r) fs h"
| "settlement_of clk (SendFail e rt ra p) = Failing clk e rt ra p"
| "settlement_of clk (SendSnooze d rs p) = Snoozing clk d rs p"
| "settlement_of clk (SendRelease ca d p) = Releasing clk ca d"
| "settlement_of clk (SendCancelRunning rs) = CancellingRun rs"

fun sent_verb :: "settle_call \<Rightarrow> settle_verb" where
  "sent_verb (SendComplete r fs h) = V_COMPLETE"
| "sent_verb (SendFail e rt ra p) = V_FAIL"
| "sent_verb (SendSnooze d rs p) = V_SNOOZE"
| "sent_verb (SendRelease ca d p) = V_RELEASE"
| "sent_verb (SendCancelRunning rs) = V_CANCEL_RUNNING"

lemma verb_of_sent [simp]: "verb_of (settlement_of clk call) = sent_verb call"
  by (cases call) simp_all

text \<open>The answers of the queue are kept; the clock may show anything at each call.\<close>

type_synonym answers = "(exc + settle_result) list"

definition queue_send :: "world \<Rightarrow> (nat \<Rightarrow> clock) \<Rightarrow> (fake \<times> answers) sender" where
  "queue_send w clk i a wk call s = (case s of (st, ans) \<Rightarrow>
     (case settle (w_ids w) i a wk (settlement_of (clk (length ans)) call) st of
        (r, st') \<Rightarrow> (r, (st', ans @ [r]))))"

definition interfere :: "world \<Rightarrow> call list \<Rightarrow> fake \<times> answers \<Rightarrow> fake \<times> answers" where
  "interfere w cs s = (perform_all w cs (fst s), snd s)"

definition effective :: "exc + settle_result \<Rightarrow> bool" where
  "effective r \<longleftrightarrow> (case r of Inl e \<Rightarrow> False | Inr x \<Rightarrow> sr_result x \<in> {OK, RETRY_SCHEDULED, DEAD})"

section \<open>A settled attempt stays settled\<close>

definition attempt_spent :: "uuid_source \<Rightarrow> uuid \<Rightarrow> uuid \<Rightarrow> fake \<Rightarrow> bool" where
  "attempt_spent us i a st \<longleftrightarrow> a \<in> us ` {..<drawn st} \<and>
     (\<exists>j. dget (jobs st) i = Some j \<and> (fj_attempt_id j = Some a \<longrightarrow> fj_settled_command j \<noteq> None))"

lemma attempt_spent_evolves:
  assumes sp: "attempt_spent us i a st" and ev: "evolves us st st'" and inj: "inj_on us {..<drawn st'}"
  shows "attempt_spent us i a st'"
proof -
  obtain j k where j: "dget (jobs st) i = Some j" "fj_attempt_id j = Some a \<longrightarrow> fj_settled_command j \<noteq> None"
      "k < drawn st" "a = us k"
    using sp by (auto simp: attempt_spent_def)
  have mono: "drawn st \<le> drawn st'" using ev by (simp add: evolves_def)
  obtain j' where j': "dget (jobs st') i = Some j'" "attempt_evolves us (drawn st) (drawn st') j j'"
    using ev j(1) unfolding evolves_def jobs_evolve_def job_evolves_def by blast
  have "fj_attempt_id j' = Some a \<longrightarrow> fj_settled_command j' \<noteq> None"
  proof (cases "fj_attempt_number j' = fj_attempt_number j")
    case True
    then show ?thesis using j' j(2) by (simp add: attempt_evolves_def)
  next
    case False
    then obtain m where m: "drawn st \<le> m" "m < drawn st'" "fj_attempt_id j' = Some (us m)"
      using j' by (auto simp: attempt_evolves_def)
    have "us m \<noteq> us k" using inj m j(3) mono by (auto dest: inj_onD)
    then show ?thesis using m(3) j(4) by simp
  qed
  then show ?thesis using j' j(3,4) mono by (auto simp: attempt_spent_def)
qed

lemma replay_not_effective: "replay_or_lost st i a wk v = Inr r \<Longrightarrow> \<not> effective (Inr r)"
  by (auto simp: replay_or_lost_def effective_def settle_lost_def split: option.splits if_splits)

lemma settle_closed: "closed st \<Longrightarrow> settle us i a wk c st = (Inl (ConfigError ''FakeTaskQClient is closed''), st)"
  by (cases c) (simp_all add: complete_def fail_def snooze_def release_def cancel_running_def ensure_open_def)

lemma settle_spent:
  assumes "attempt_spent us i a st"
  shows "\<exists>r. settle us i a wk c st = (r, st) \<and> \<not> effective r"
proof (cases "closed st")
  case True
  then show ?thesis by (simp add: settle_closed effective_def)
next
  case False
  have "\<exists>r. replay_or_lost st i a wk (verb_of c) = Inr r"
    using assms by (auto simp: attempt_spent_def replay_or_lost_def)
  then show ?thesis using settle_answered [OF False] replay_not_effective by blast
qed

lemma settle_effective:
  assumes inv: "fake_inv us st" and dr: "inj_on us {..<drawn st'}"
    and s: "settle us i a wk c st = (Inr r, st')" and e: "effective (Inr r)"
  shows "attempt_spent us i a st' \<and> (\<exists>j. dget (jobs st') i = Some j \<and>
    fj_attempt_id j = Some a \<and> fj_worker_id j = Some wk \<and> fj_settled_command j = Some (verb_of c))"
proof -
  have op: "\<not> closed st" using s by (auto simp: settle_closed)
  obtain job where job: "replay_or_lost st i a wk (verb_of c) = Inl job"
    using settle_answered [OF op] s e replay_not_effective
    by (cases "replay_or_lost st i a wk (verb_of c)") fastforce+
  obtain j where j: "fake_inv us st'" "dget (jobs st') i = Some j" "settled_by (verb_of c) job j"
    using settle_applied [OF inv op dr job s] by blast
  have a: "fj_attempt_id j = Some a" "fj_worker_id j = Some wk" "fj_settled_command j = Some (verb_of c)"
    using j(3) job by (simp_all add: settled_by_def replay_Inl)
  have "ids_inv us (drawn st') (jobs st') (order st') (workflows st')"
    using j(1) by (simp add: fake_inv_def)
  then have "a \<in> us ` {..<drawn st'}" using j(2) a(1) unfolding ids_inv_def by blast
  then show ?thesis using j(2) a by (simp add: attempt_spent_def)
qed

text \<open>An answer that is neither \<open>lost\<close> nor a conflict: the attempt is settled by the verb sent.\<close>

definition settled_as :: "uuid \<Rightarrow> uuid \<Rightarrow> string \<Rightarrow> settle_verb \<Rightarrow> fake \<Rightarrow> bool" where
  "settled_as i a wk v st \<longleftrightarrow> (\<exists>j. dget (jobs st) i = Some j \<and> fj_attempt_id j = Some a \<and>
     fj_worker_id j = Some wk \<and> fj_settled_command j = Some v)"

lemma settle_truthful:
  assumes inv: "fake_inv us st" and dr: "inj_on us {..<drawn st'}"
    and s: "settle us i a wk c st = (Inr r, st')" and r: "sr_result r \<noteq> LOST" "sr_result r \<noteq> SETTLE_CONFLICT"
  shows "settled_as i a wk (verb_of c) st'"
proof (cases "effective (Inr r)")
  case True
  then show ?thesis using settle_effective [OF inv dr s] by (simp add: settled_as_def)
next
  case False
  have op: "\<not> closed st" using s by (auto simp: settle_closed)
  show ?thesis
  proof (cases "replay_or_lost st i a wk (verb_of c)")
    case (Inl job)
    then show ?thesis using settle_applied [OF inv op dr Inl s] False by (auto simp: effective_def)
  next
    case (Inr x)
    then have "x = r" "st' = st" using settle_answered [OF op Inr] s by simp_all
    then show ?thesis
      using Inr r by (auto simp: replay_or_lost_def settle_lost_def settled_as_def split: option.splits if_splits)
  qed
qed

section \<open>One delivery\<close>

definition once :: "uuid_source \<Rightarrow> uuid \<Rightarrow> uuid \<Rightarrow> fake \<times> answers \<Rightarrow> bool" where
  "once us i a s \<longleftrightarrow> fake_inv us (fst s) \<and> length (filter effective (snd s)) \<le> 1 \<and>
     (filter effective (snd s) \<noteq> [] \<longrightarrow> attempt_spent us i a (fst s))"

lemma interfere_once:
  assumes o: "once (w_ids w) i a s" and cs: "list_all call_ok cs"
    and dr: "inj_on (w_ids w) {..<drawn (fst (interfere w cs s))}"
  shows "once (w_ids w) i a (interfere w cs s)"
proof -
  have "fake_inv (w_ids w) (fst (interfere w cs s)) \<and> evolves (w_ids w) (fst s) (fst (interfere w cs s))"
    using perform_all_sound [of w "fst s" cs] o cs dr by (simp add: once_def interfere_def)
  then show ?thesis
    using o attempt_spent_evolves [OF _ _ dr] by (auto simp: once_def interfere_def)
qed

lemma send_once:
  assumes o: "once (w_ids w) i a s" and q: "queue_send w clk i a wk call s = (r, s')"
    and dr: "inj_on (w_ids w) {..<drawn (fst s')}"
  shows "once (w_ids w) i a s' \<and> (\<forall>x. r = Inr x \<and> sr_result x \<noteq> LOST \<and> sr_result x \<noteq> SETTLE_CONFLICT \<longrightarrow>
    settled_as i a wk (sent_verb call) (fst s'))"
proof -
  obtain st ans where s: "s = (st, ans)" by (cases s)
  let ?c = "settlement_of (clk (length ans)) call"
  obtain st' where st': "settle (w_ids w) i a wk ?c st = (r, st')" "s' = (st', ans @ [r])"
    using q s by (auto simp: queue_send_def split: prod.splits)
  have inv: "fake_inv (w_ids w) st" using o s by (simp add: once_def)
  have dr': "inj_on (w_ids w) {..<drawn st'}" using dr st'(2) by simp
  have p: "st' = perform w (call_of_settlement i a wk ?c) st" using settle_perform [of w i a wk ?c st] st'(1) by simp
  have inv': "fake_inv (w_ids w) st'"
    using perform_sound [OF inv call_of_settlement_ok, of i a wk ?c] dr' p by simp
  have "once (w_ids w) i a s'"
  proof (cases "filter effective ans = []")
    case True
    show ?thesis
    proof (cases "effective r")
      case e: True
      then obtain x where "r = Inr x" by (cases r) (auto simp: effective_def)
      then have "attempt_spent (w_ids w) i a st'" using settle_effective [OF inv dr'] st'(1) e by blast
      then show ?thesis using inv' True e st'(2) by (simp add: once_def)
    qed (use inv' True st'(2) in \<open>simp add: once_def\<close>)
  next
    case False
    then have "attempt_spent (w_ids w) i a st" using o s by (simp add: once_def)
    from settle_spent [OF this, of wk ?c] have "st' = st" "\<not> effective r" using st'(1) by auto
    then show ?thesis using o s st'(2) by (simp add: once_def)
  qed
  moreover have "settled_as i a wk (sent_verb call) (fst s')"
    if "r = Inr x" "sr_result x \<noteq> LOST" "sr_result x \<noteq> SETTLE_CONFLICT" for x
    using settle_truthful [OF inv dr', of i a wk ?c x] that st' by simp
  ultimately show ?thesis by blast
qed

text \<open>What one turn leaves of the draws.\<close>

lemma send_drawn: "drawn (fst s) \<le> drawn (fst (snd (queue_send w clk i a wk call s)))"
proof -
  obtain st ans where s: "s = (st, ans)" by (cases s)
  let ?c = "settlement_of (clk (length ans)) call"
  show ?thesis
    using settle_drawn [of st "w_ids w" i a wk ?c] s
    by (cases "settle (w_ids w) i a wk ?c st") (simp add: queue_send_def)
qed

lemma interfere_drawn: "drawn (fst s) \<le> drawn (fst (interfere w cs s))"
  using perform_all_drawn [of "fst s" w cs] by (simp add: interfere_def)

lemma deliver_drawn:
  assumes "\<And>s. drawn (fst s) \<le> drawn (fst (snd (op s)))"
  shows "drawn (fst s) \<le> drawn (fst (snd (deliver wi op s)))"
  using assms by (simp add: deliver_def split: wire.split)

lemma deliver_once:
  assumes o: "once (w_ids w) i a s" and q: "deliver wi (queue_send w clk i a wk call) s = (r, s')"
    and dr: "inj_on (w_ids w) {..<drawn (fst s')}"
  shows "once (w_ids w) i a s' \<and> (\<forall>x. r = Inr x \<and> sr_result x \<noteq> LOST \<and> sr_result x \<noteq> SETTLE_CONFLICT \<longrightarrow>
    settled_as i a wk (sent_verb call) (fst s'))"
proof (cases wi)
  case Answered
  then show ?thesis using send_once [OF o _ dr, of clk wk call r] q by (simp add: deliver_def)
next
  case (RequestLost e)
  then show ?thesis using o q by (auto simp: deliver_def)
next
  case (ReplyLost e)
  then show ?thesis
    using send_once [OF o _ dr, of clk wk call "fst (queue_send w clk i a wk call s)"] q
    by (auto simp: deliver_def)
qed

section \<open>The loop\<close>

lemma report_states [simp]:
  "rp_state (runtime_failure i c) = RS_RUNTIME_FAILED"
  "rp_state (ownership_lost_report i ctl) \<noteq> RS_SETTLED"
  "rp_state (settlement_unknown i c code) = RS_RUNTIME_FAILED"
  "rp_state (report_from_settle i c r) = RS_SETTLED \<longleftrightarrow> sr_result r \<noteq> LOST \<and> sr_result r \<noteq> SETTLE_CONFLICT"
  by (simp_all add: runtime_failure_def ownership_lost_report_def report_from_settle_def report_of_def
      settlement_unknown_def Let_def)

lemma verdict_settled:
  assumes "settle_verdict i c answer = Ended (Inr rep)" and "rp_state rep = RS_SETTLED"
  shows "\<exists>r. answer = Inr r \<and> sr_result r \<noteq> LOST \<and> sr_result r \<noteq> SETTLE_CONFLICT"
  using assms by (auto simp: settle_verdict_def result_simps split: sum.splits exc.splits if_splits)

lemma step_delivers:
  assumes "settle_step ops i c owned op started t n failing s = (x, s')"
  shows "x = Inl (Inr (ownership_lost_report i (tn_before t))) \<and> s' = s \<or>
    (\<exists>answer. deliver (tn_wire t) op (tn_others t s) = (answer, s') \<and>
      (\<forall>rep. x = Inl (Inr rep) \<and> rp_state rep = RS_SETTLED \<longrightarrow> settle_verdict i c answer = Ended (Inr rep)))"
proof (cases "owned \<noteq> None \<and> rc_lost (tn_before t)")
  case True
  then show ?thesis using assms by (auto simp: settle_step_def)
next
  case False
  obtain answer st1 where d: "deliver (tn_wire t) op (tn_others t s) = (answer, st1)"
    by (cases rule: prod.exhaust)
  show ?thesis
  proof (cases "settle_verdict i c answer")
    case (Ended r)
    then show ?thesis using assms d False by (auto simp: settle_step_def Let_def)
  next
    case (Retryable ra bp av code)
    then have "s' = st1" "\<forall>rep. x = Inl (Inr rep) \<longrightarrow> rp_state rep \<noteq> RS_SETTLED"
      using assms d False by (auto simp: settle_step_def Let_def split: if_splits)
    then show ?thesis using d by blast
  qed
qed

lemma step_once:
  assumes o: "once (w_ids w) i a s" and t: "list_all call_ok cs" "tn_others t = interfere w cs"
    and x: "settle_step ops i c owned (queue_send w clk i a wk call) started t n failing s = (x, s')"
    and dr: "inj_on (w_ids w) {..<drawn (fst s')}"
  shows "once (w_ids w) i a s' \<and> (\<forall>rep. x = Inl (Inr rep) \<and> rp_state rep = RS_SETTLED \<longrightarrow>
    settled_as i a wk (sent_verb call) (fst s'))"
  using step_delivers [OF x]
proof (elim disjE exE conjE)
  fix answer assume d: "deliver (tn_wire t) (queue_send w clk i a wk call) (tn_others t s) = (answer, s')"
    and r: "\<forall>rep. x = Inl (Inr rep) \<and> rp_state rep = RS_SETTLED \<longrightarrow> settle_verdict i c answer = Ended (Inr rep)"
  have "drawn (fst (interfere w cs s)) \<le> drawn (fst s')"
    using deliver_drawn [of "queue_send w clk i a wk call" "tn_others t s" "tn_wire t"] send_drawn d t(2) by simp
  then have "inj_on (w_ids w) {..<drawn (fst (interfere w cs s))}" using dr inj_on_subset by fastforce
  then have "once (w_ids w) i a (tn_others t s)" using interfere_once [OF o t(1)] t(2) by simp
  from deliver_once [OF this d dr] show ?thesis using r verdict_settled by blast
qed (use o in simp)

lemma step_drawn:
  assumes "tn_others t = interfere w cs"
    and "settle_step ops i c owned (queue_send w clk i a wk call) started t n failing s = (x, s')"
  shows "drawn (fst s) \<le> drawn (fst s')"
  using step_delivers [OF assms(2)]
proof (elim disjE exE conjE)
  fix answer assume "deliver (tn_wire t) (queue_send w clk i a wk call) (tn_others t s) = (answer, s')"
  then have "drawn (fst (tn_others t s)) \<le> drawn (fst s')"
    using deliver_drawn [of "queue_send w clk i a wk call" "tn_others t s" "tn_wire t"] send_drawn by simp
  then show ?thesis using interfere_drawn [of s w cs] assms(1) by simp
qed simp

definition queue_turn :: "world \<Rightarrow> (fake \<times> answers) settle_turn \<Rightarrow> bool" where
  "queue_turn w t \<longleftrightarrow> (\<exists>cs. list_all call_ok cs \<and> tn_others t = interfere w cs)"

lemma loop_drawn:
  assumes "list_all (queue_turn w) turns"
  shows "drawn (fst s) \<le> drawn (fst (snd
    (settle_loop ops i c owned (queue_send w clk i a wk call) started turns n failing s)))"
  using assms
proof (induction turns arbitrary: n failing s)
  case (Cons t turns)
  obtain x s1 where x: "settle_step ops i c owned (queue_send w clk i a wk call) started t n failing s = (x, s1)"
    by (cases rule: prod.exhaust)
  have m: "drawn (fst s) \<le> drawn (fst s1)"
    using Cons.prems step_drawn [OF _ x] by (auto simp: queue_turn_def)
  have r: "drawn (fst s1) \<le> drawn (fst (snd
      (settle_loop ops i c owned (queue_send w clk i a wk call) started turns (Suc n) f s1)))" for f
    using Cons by simp
  show ?case
  proof (cases x)
    case (Inr f)
    then show ?thesis using le_trans [OF m r [of f]] x by simp
  qed (use x m in simp)
qed simp

lemma loop_once:
  assumes "once (w_ids w) i a s" and "list_all (queue_turn w) turns"
    and "settle_loop ops i c owned (queue_send w clk i a wk call) started turns n failing s = (res, s')"
    and "inj_on (w_ids w) {..<drawn (fst s')}"
  shows "drawn (fst s) \<le> drawn (fst s') \<and> once (w_ids w) i a s' \<and>
    (\<forall>rep ts. res = Some (Inr rep, ts) \<and> rp_state rep = RS_SETTLED \<longrightarrow>
      settled_as i a wk (sent_verb call) (fst s'))"
  using assms
proof (induction turns arbitrary: n failing s)
  case (Cons t turns)
  obtain cs where cs: "list_all call_ok cs" "tn_others t = interfere w cs"
    using Cons.prems(2) by (auto simp: queue_turn_def)
  obtain x s1 where x: "settle_step ops i c owned (queue_send w clk i a wk call) started t n failing s = (x, s1)"
    by (cases rule: prod.exhaust)
  note m = step_drawn [OF cs(2) x]
  show ?case
  proof (cases x)
    case (Inl r)
    then have e: "s' = s1" "res = Some (r, turns)" using Cons.prems(3) x by simp_all
    show ?thesis using step_once [OF Cons.prems(1) cs x] Cons.prems(4) m e Inl by auto
  next
    case (Inr f)
    have l: "settle_loop ops i c owned (queue_send w clk i a wk call) started turns (Suc n) f s1 = (res, s')"
      using Cons.prems(3) x Inr by simp
    have "drawn (fst s1) \<le> drawn (fst s')"
      using loop_drawn [of w turns s1 ops i c owned clk a wk call started "Suc n" f] Cons.prems(2) l by simp
    then have "inj_on (w_ids w) {..<drawn (fst s1)}" using Cons.prems(4) inj_on_subset by fastforce
    then have "once (w_ids w) i a s1" using step_once [OF Cons.prems(1) cs x] by blast
    from Cons.IH [OF this _ l Cons.prems(4)] show ?thesis using Cons.prems(2) m by auto
  qed
qed simp

section \<open>A concrete run\<close>

definition sample_turn :: "call list \<Rightarrow> wire \<Rightarrow> (fake \<times> answers) settle_turn" where
  "sample_turn cs wi = \<lparr>tn_start = 0, tn_before = idle_control, tn_others = interfere sample_world cs,
     tn_wire = wi, tn_now = 1, tn_stopping = False, tn_after = idle_control, tn_random = 0,
     tn_woken_lost = False, tn_woken = idle_control\<rparr>"

lemma sample_resnooze:
  "settle sample_ids 2 4 ''x'' (Snoozing (Aware 0) 0 None None) sample_snoozed =
     (Inr \<lparr>sr_result = ALREADY_SETTLED, sr_job_status = Some QUEUED, sr_scheduled_at = Some 0\<rparr>, sample_snoozed)"
proof (rule settle_answered)
  show "\<not> closed sample_snoozed" by (simp add: sample_snooze)
  show "replay_or_lost sample_snoozed 2 4 ''x'' (verb_of (Snoozing (Aware 0) 0 None None)) =
     Inr \<lparr>sr_result = ALREADY_SETTLED, sr_job_status = Some QUEUED, sr_scheduled_at = Some 0\<rparr>"
    by (simp add: replay_or_lost_def sample_snooze(1) finished_job_def sample_running_def started_job_def)
qed

section \<open>Executions\<close>

fun verb_command :: "settle_verb \<Rightarrow> command_name" where
  "verb_command V_COMPLETE = C_COMPLETE"
| "verb_command V_FAIL = C_FAIL"
| "verb_command V_SNOOZE = C_SNOOZE"
| "verb_command V_RELEASE = C_RELEASE"
| "verb_command V_CANCEL_RUNNING = C_CANCEL_RUNNING"

lemma verb_command_sent [simp]: "verb_command (sent_verb call) = command_of call"
  by (cases call) simp_all

definition truthful :: "uuid \<Rightarrow> uuid \<Rightarrow> string \<Rightarrow> job_run_report \<Rightarrow> fake \<Rightarrow> bool" where
  "truthful i a wk rep st \<longleftrightarrow> (rp_state rep = RS_SETTLED \<longrightarrow>
     (\<exists>v. rp_command rep = Some (verb_command v) \<and> settled_as i a wk v st))"

text \<open>What every settling of one attempt keeps, as long as at most \<open>N\<close> values have been drawn.\<close>

definition tracked ::
  "world \<Rightarrow> nat \<Rightarrow> uuid \<Rightarrow> uuid \<Rightarrow> string \<Rightarrow> fake \<times> answers \<Rightarrow> (fake \<times> answers) settling \<Rightarrow> bool" where
  "tracked w N i a wk s m \<longleftrightarrow> drawn (fst s) \<le> drawn (fst (snd m)) \<and>
     (\<forall>r ts. fst m = Some (r, ts) \<longrightarrow> list_all (queue_turn w) ts) \<and>
     (drawn (fst (snd m)) \<le> N \<longrightarrow> once (w_ids w) i a (snd m) \<and>
        (\<forall>rep ts. fst m = Some (Inr rep, ts) \<longrightarrow> truthful i a wk rep (fst (snd m))))"

lemma loop_turns:
  "settle_loop ops i c owned op started turns n failing s = (Some (r, ts), s') \<Longrightarrow>
   list_all (queue_turn w) turns \<Longrightarrow> list_all (queue_turn w) ts"
  by (induction turns arbitrary: n failing s) (auto split: prod.splits sum.splits)

lemma call_tracked:
  assumes inj: "inj_on (w_ids w) {..<N}" and ts: "list_all (queue_turn w) ts"
    and s: "drawn (fst s) \<le> N \<Longrightarrow> once (w_ids w) (cj_job_id cl) (cj_attempt_id cl) s"
  shows "tracked w N (cj_job_id cl) (cj_attempt_id cl) wk s
    (settle_call_of ops wk (queue_send w clk) cl owned call ts s)"
proof (cases ts)
  case Nil
  then show ?thesis using s by (simp add: tracked_def settle_call_of_def settle_with_retry_def)
next
  case (Cons t us)
  let ?m = "settle_call_of ops wk (queue_send w clk) cl owned call ts s"
  let ?op = "queue_send w clk (cj_job_id cl) (cj_attempt_id cl) wk call"
  have m: "?m = settle_loop ops (cj_job_id cl) (command_of call) owned ?op (tn_start t) ts 0 False s"
    by (simp add: settle_call_of_def settle_with_retry_def Cons del: settle_loop.simps)
  have d: "drawn (fst s) \<le> drawn (fst (snd ?m))" unfolding m by (rule loop_drawn [OF ts])
  have rest: "list_all (queue_turn w) us'" if "fst ?m = Some (r, us')" for r us'
    using loop_turns [of ops _ _ owned ?op _ ts 0 False s r us' "snd ?m"] that ts unfolding m
    by (metis prod.collapse)
  have "once (w_ids w) (cj_job_id cl) (cj_attempt_id cl) (snd ?m) \<and>
      (\<forall>rep us. fst ?m = Some (Inr rep, us) \<longrightarrow> truthful (cj_job_id cl) (cj_attempt_id cl) wk rep (fst (snd ?m)))"
    if "drawn (fst (snd ?m)) \<le> N"
  proof -
    have "inj_on (w_ids w) {..<drawn (fst (snd ?m))}" using inj that inj_on_subset by fastforce
    from loop_once [OF s ts _ this, of ops "command_of call" owned clk wk call "tn_start t" 0 False "fst ?m"]
    have o: "once (w_ids w) (cj_job_id cl) (cj_attempt_id cl) (snd ?m)"
        "\<forall>rep us. fst ?m = Some (Inr rep, us) \<and> rp_state rep = RS_SETTLED \<longrightarrow>
          settled_as (cj_job_id cl) (cj_attempt_id cl) wk (sent_verb call) (fst (snd ?m))"
      using d that m by auto
    have "reports (report_for (cj_job_id cl) (command_of call)) ?m" by (rule settle_call_reports)
    then show ?thesis
      using o verb_command_sent [of call] unfolding truthful_def reports_def report_for_def by metis
  qed
  then show ?thesis using d rest by (simp add: tracked_def)
qed

lemma after_tracked:
  assumes m: "tracked w N i a wk s m"
    and f: "\<And>r ts s'. m = (Some (r, ts), s') \<Longrightarrow> list_all (queue_turn w) ts \<Longrightarrow>
      (drawn (fst s') \<le> N \<Longrightarrow> once (w_ids w) i a s' \<and> (\<forall>rep. r = Inr rep \<longrightarrow> truthful i a wk rep (fst s'))) \<Longrightarrow>
      tracked w N i a wk s' (f r ts s')"
  shows "tracked w N i a wk s (after_settling m f)"
proof (cases "fst m")
  case None
  then have "after_settling m f = m" by (cases m) (simp add: after_settling_def)
  then show ?thesis using m by simp
next
  case (Some y)
  obtain r ts s' where y: "m = (Some (r, ts), s')" using Some by (cases m; cases y) auto
  have "tracked w N i a wk s' (f r ts s')"
    by (rule f [OF y]) (use m y in \<open>auto simp: tracked_def\<close>)
  then show ?thesis using m y by (auto simp: tracked_def after_settling_def)
qed

text \<open>A continuation that only rewrites the report.\<close>

lemma rewrite_tracked:
  assumes "list_all (queue_turn w) ts"
    and "drawn (fst s) \<le> N \<Longrightarrow> once (w_ids w) i a s \<and> (\<forall>rep. r = Inr rep \<longrightarrow> truthful i a wk rep (fst s))"
  shows "tracked w N i a wk s (Some (r, ts), s)"
  using assms by (auto simp: tracked_def)

lemma truthful_simps [simp]:
  "truthful i a wk (rep\<lparr>rp_reason := x\<rparr>) st = truthful i a wk rep st"
  "truthful i a wk (rep\<lparr>rp_outcome := x'\<rparr>) st = truthful i a wk rep st"
  "truthful i a wk (runtime_failure i' c) st"
  "truthful i a wk (ownership_lost_report i' ctl) st"
  by (simp_all add: truthful_def)

lemma invalid_followup_tracked:
  assumes inj: "inj_on (w_ids w) {..<N}" and ts: "list_all (queue_turn w) ts"
    and s: "drawn (fst s) \<le> N \<Longrightarrow> once (w_ids w) (cj_job_id cl) (cj_attempt_id cl) s"
  shows "tracked w N (cj_job_id cl) (cj_attempt_id cl) wk s
    (settle_invalid_followup ops wk (queue_send w clk) cl owned p skew ts s)"
  unfolding settle_invalid_followup_def
proof (rule after_tracked [OF call_tracked [OF inj ts s]], assumption, goal_cases)
  case (1 r ts' s')
  have c: "rp_command failed = Some C_FAIL" if "r = Inr failed" "rp_state failed = RS_SETTLED" for failed
    using settle_call_reports [of cl "SendFail ''invalid_followup: rejected by active worker or SQL contract''
        False None p" ops wk "queue_send w clk" owned ts s] 1(1) that
    by (simp add: report_for_def)
  show ?case
    by (rule rewrite_tracked [OF 1(2)])
      (use 1(3) c in \<open>auto simp: truthful_def report_of_def split: sum.splits if_splits\<close>)
qed

lemma release_tracked:
  assumes inj: "inj_on (w_ids w) {..<N}" and ts: "list_all (queue_turn w) ts"
    and s: "drawn (fst s) \<le> N \<Longrightarrow> once (w_ids w) (cj_job_id cl) (cj_attempt_id cl) s"
  shows "tracked w N (cj_job_id cl) (cj_attempt_id cl) wk s
    (release_with ops wk (queue_send w clk) cl call oc ts s)"
  unfolding release_with_def
proof (rule after_tracked [OF call_tracked [OF inj ts s]], assumption, goal_cases)
  case (1 r ts' s')
  show ?case
    by (rule rewrite_tracked [OF 1(2)]) (use 1(3) in \<open>auto split: sum.splits if_splits\<close>)
qed

lemma with_reason_tracked:
  assumes "tracked w N i a wk s m"
  shows "tracked w N i a wk s (after_settling m (\<lambda>r ts st.
     (Some (map_sum id (\<lambda>rep. rep\<lparr>rp_reason := x\<rparr>) r, ts), st)))"
proof (rule after_tracked [OF assms], goal_cases)
  case (1 r ts s')
  show ?case by (rule rewrite_tracked [OF 1(2)]) (use 1(3) in \<open>cases r; auto\<close>)
qed

lemma settle_intent_tracked:
  assumes inj: "inj_on (w_ids w) {..<N}" and ts: "list_all (queue_turn w) ts"
    and s: "drawn (fst s) \<le> N \<Longrightarrow> once (w_ids w) (cj_job_id cl) (cj_attempt_id cl) s"
  shows "tracked w N (cj_job_id cl) (cj_attempt_id cl) wk s
    (settle_intent ops wk (queue_send w clk) cl intent reason p owned deadline ts s)"
  unfolding settle_intent_def Let_def
proof (rule after_tracked [OF call_tracked [OF inj ts s]], assumption, goal_cases)
  case (1 r ts' s')
  have same: "tracked w N (cj_job_id cl) (cj_attempt_id cl) wk s' (Some (r', ts'), s')"
    if "\<And>rep. r' = Inr rep \<Longrightarrow> drawn (fst s') \<le> N \<Longrightarrow> truthful (cj_job_id cl) (cj_attempt_id cl) wk rep (fst s')" for r'
    by (rule rewrite_tracked [OF 1(2)]) (use 1(3) that in blast)
  show ?case
  proof (cases r)
    case (Inr rep)
    have "tracked w N (cj_job_id cl) (cj_attempt_id cl) wk s' (Some (r, ts'), s')"
      by (rule same) (use 1(3) in blast)
    from with_reason_tracked [OF this] show ?thesis using Inr by simp
  next
    case (Inl e)
    have inv: "tracked w N (cj_job_id cl) (cj_attempt_id cl) wk s' (after_settling
        (settle_invalid_followup ops wk (queue_send w clk) cl owned p skew ts' s')
        (\<lambda>r ts st. (Some (map_sum id (\<lambda>rep. rep\<lparr>rp_reason := reason\<rparr>) r, ts), st)))" for skew
      by (rule with_reason_tracked [OF invalid_followup_tracked [OF inj 1(2)]]) (use 1(3) in blast)
    have "tracked w N (cj_job_id cl) (cj_attempt_id cl) wk s' (Some (Inl x, ts'), s')"
      "tracked w N (cj_job_id cl) (cj_attempt_id cl) wk s' (Some (Inr (runtime_failure i c), ts'), s')" for x i c
      by (rule same; simp)+
    then show ?thesis using inv Inl by (simp split: sum.split bool.split exc.split)
  qed
qed

lemma settle_run_tracked:
  assumes inj: "inj_on (w_ids w) {..<N}" and ts: "list_all (queue_turn w) ts"
    and s: "drawn (fst s) \<le> N \<Longrightarrow> once (w_ids w) (cj_job_id cl) (cj_attempt_id cl) s"
  shows "tracked w N (cj_job_id cl) (cj_attempt_id cl) (xc_worker cfg) s
    (settle_run cfg (queue_send w clk) cl t policy run ts s)"
proof -
  have none: "tracked w N (cj_job_id cl) (cj_attempt_id cl) (xc_worker cfg) s (Some (Inl e, ts), s)"
      "tracked w N (cj_job_id cl) (cj_attempt_id cl) (xc_worker cfg) s
        (Some (Inr (ownership_lost_report i ctl), ts), s)" for e i ctl
    by (rule rewrite_tracked [OF ts]; use s in auto)+
  have ext: "tracked w N (cj_job_id cl) (cj_attempt_id cl) (xc_worker cfg) s (after_settling
      (settle_intent ops (xc_worker cfg) (queue_send w clk) cl intent reason p owned deadline ts s)
      (\<lambda>r ts st. (Some (ebind r (\<lambda>_. Inl (PyException ''CancelledError'')), ts), st)))"
    for ops intent reason p owned deadline
  proof (rule after_tracked [OF settle_intent_tracked [OF inj ts s]], assumption, goal_cases)
    case (1 r ts' s')
    show ?case by (rule rewrite_tracked [OF 1(2)]) (use 1(3) in \<open>auto simp: result_simps\<close>)
  qed
  show ?thesis
    unfolding settle_run_def Let_def
    using ext settle_intent_tracked [OF inj ts s] invalid_followup_tracked [OF inj ts s] none
    by (simp split: sum.split prod.split)
qed

text \<open>
  C5: Executing a claimed job settles it at most once.  However the connection loses requests and replies,
  whatever calls other clients of the queue make in between, however the handler ended and however
  many attempts the worker makes, at most one of its settlements takes effect on the queue, even when
  a rejected completion is followed by a terminal failure; and when the report says settled, the job
  is settled under the claimed attempt, by the verb of the command the report names.
\<close>

theorem execution_settles_once:
  assumes "reachable w st" and "list_all (queue_turn w) ts"
    and "execute_job cfg (queue_send w clk) cl run ts (st, []) = (res, (st', ans))"
    and inj: "inj_on (w_ids w) {..<drawn st'}"
  shows "length (filter effective ans) \<le> 1 \<and>
    (\<forall>rep us. res = Some (Inr rep, us) \<and> rp_state rep = RS_SETTLED \<longrightarrow>
      (\<exists>v j. rp_command rep = Some (verb_command v) \<and> dget (jobs st') (cj_job_id cl) = Some j \<and>
         fj_attempt_id j = Some (cj_attempt_id cl) \<and> fj_worker_id j = Some (xc_worker cfg) \<and>
         fj_settled_command j = Some v))"
proof -
  have "once (w_ids w) (cj_job_id cl) (cj_attempt_id cl) (st, [])"
    using reachable_parts(6) [OF assms(1)] by (simp add: once_def)
  then have s: "drawn (fst (st, [])) \<le> drawn st' \<Longrightarrow> once (w_ids w) (cj_job_id cl) (cj_attempt_id cl) (st, [])" .
  note k = release_tracked [OF inj assms(2) s] settle_intent_tracked [OF inj assms(2) s]
    settle_run_tracked [OF inj assms(2) s]
  have none: "tracked w (drawn st') (cj_job_id cl) (cj_attempt_id cl) (xc_worker cfg) (st, [])
      (Some (Inl e, ts), (st, []))" for e
    by (rule rewrite_tracked [OF assms(2)]) (use s in auto)
  have "tracked w (drawn st') (cj_job_id cl) (cj_attempt_id cl) (xc_worker cfg) (st, [])
      (execute_job cfg (queue_send w clk) cl run ts (st, []))"
    unfolding execute_job_def Let_def using k none
    by (simp add: release_unsupported_policy_def release_no_handler_def split: option.split sum.split)
  then show ?thesis
    using assms(3) by (auto simp: tracked_def once_def truthful_def settled_as_def)
qed

text \<open>The witness: the handler of the claimed job asks for a snooze, and the first reply is lost.\<close>

definition sample_task :: task where
  "sample_task = \<lparr>tk_object = 1, tk_name = ''t'', tk_queue = ''q'', tk_input = ''In'', tk_output = ''Out'',
     tk_aliases = [], tk_retry = RetryBool True, tk_priority = None, tk_lease_seconds = None,
     tk_targets = [], tk_handler = Some \<lparr>hd_params = [], hd_hints = None, hd_async = True\<rparr>, tk_arity = 1\<rparr>"

definition sample_config :: run_config where
  "sample_config = \<lparr>xc_options = default_worker_options, xc_worker = ''x'',
     xc_registry = \<lparr>rg_canonical = [(''t'', sample_task)], rg_lookup = [(''t'', sample_task)]\<rparr>,
     xc_policies = [], xc_input = (\<lambda>_ _. Inr ()), xc_output = (\<lambda>_ _. Inr []), xc_payload = (\<lambda>_ p. Inr (JObj p)),
     xc_diagnose = (\<lambda>_. [])\<rparr>"

definition sample_claimed :: claimed_job where
  "sample_claimed = claimed_of sample_running 4 60 0"

definition sample_run :: handler_run where
  "sample_run = \<lparr>hr_end = Returned (ReturnedResult (Snooze 0 None None)), hr_at_end = idle_control,
     hr_control = idle_control, hr_progress = None\<rparr>"

lemma sample_claimed_fields:
  "cj_job_id sample_claimed = 2" "cj_attempt_id sample_claimed = 4" "cj_job_type sample_claimed = ''t''"
  "cj_policy_hash sample_claimed = None" "cj_progress sample_claimed = None"
  by (simp_all add: sample_claimed_def claimed_of_def sample_running_def sample_member_def started_job_def
      new_fake_job_def sample_command_def Let_def)

lemma sample_settling:
  "settle_with_retry default_worker_options 2 C_SNOOZE (Some sample_claimed)
     (queue_send sample_world (\<lambda>_. Aware 0) 2 4 ''x'' (SendSnooze 0 None None))
     [sample_turn [] (ReplyLost (raise_code UNAVAILABLE)), sample_turn [] Answered] (sample_started, []) =
   (Some (Inr (report_from_settle 2 C_SNOOZE
        \<lparr>sr_result = ALREADY_SETTLED, sr_job_status = Some QUEUED, sr_scheduled_at = Some 0\<rparr>), []),
    (sample_snoozed,
      [Inr \<lparr>sr_result = OK, sr_job_status = Some QUEUED, sr_scheduled_at = Some 0\<rparr>,
       Inr \<lparr>sr_result = ALREADY_SETTLED, sr_job_status = Some QUEUED, sr_scheduled_at = Some 0\<rparr>]))"
  using sample_snooze_result sample_resnooze
  by (simp add: settle_with_retry_def settle_step_def deliver_def sample_turn_def interfere_def queue_send_def
      idle_control_def sample_world_def settle_verdict_def taskq_error_init_def retry_allowed_def
      default_worker_options_def elapsed_since_def normalize_retry_after_def spec_of_def command_table_defs
      Let_def del: settle.simps)

lemma sample_config_fields:
  "xc_options sample_config = default_worker_options" "xc_worker sample_config = ''x''"
  "resolve (xc_registry sample_config) ''t'' = Some sample_task" "tk_handler sample_task \<noteq> None"
  "xc_input sample_config m p = Inr ()" "hr_progress sample_run = None"
  "rc_lost (hr_control sample_run) = False" "rc_shutdown_deadline (hr_control sample_run) = False"
  "tok_reason (rc_token (hr_control sample_run)) = None" "externally_cancelled sample_run = False"
  by (simp_all add: sample_config_def resolve_def sample_task_def sample_run_def idle_control_def
      new_token_def externally_cancelled_def)

lemma sample_intent: "handler_intent sample_config sample_task sample_run None = Inr (Some (Snooze 0 None None), False)"
  by (simp add: handler_intent_def normalize_handler_result_def effective_end_def sample_config_fields)
    (simp add: sample_run_def)

lemma sample_context:
  "\<exists>c. job_context_init n m None (wo_effect_request_max default_worker_options)
     (wo_effect_response_max default_worker_options) = Inr c"
  by (simp add: job_context_init_def default_worker_options_def between_def)

lemma sample_execution:
  "execute_job sample_config (queue_send sample_world (\<lambda>_. Aware 0)) sample_claimed (\<lambda>_. sample_run)
     [sample_turn [] (ReplyLost (raise_code UNAVAILABLE)), sample_turn [] Answered] (sample_started, []) =
   (Some (Inr (report_from_settle 2 C_SNOOZE
        \<lparr>sr_result = ALREADY_SETTLED, sr_job_status = Some QUEUED, sr_scheduled_at = Some 0\<rparr>), []),
    (sample_snoozed,
      [Inr \<lparr>sr_result = OK, sr_job_status = Some QUEUED, sr_scheduled_at = Some 0\<rparr>,
       Inr \<lparr>sr_result = ALREADY_SETTLED, sr_job_status = Some QUEUED, sr_scheduled_at = Some 0\<rparr>]))"
proof -
  obtain ctx where "job_context_init (cj_failure_count sample_claimed) (cj_max_attempts sample_claimed) None
      (wo_effect_request_max default_worker_options) (wo_effect_response_max default_worker_options) = Inr ctx"
    using sample_context by blast
  then show ?thesis
    using sample_settling
    by (simp add: execute_job_def settle_run_def settle_intent_def settle_call_of_def intent_call_def
        or_object_def some_object_def sample_claimed_fields sample_config_fields sample_intent
        after_settling_def report_from_settle_def report_of_def Let_def del: settle_loop.simps)
qed

theorem execution_settles_once_witness:
  "\<exists>rep ans v j. execute_job sample_config (queue_send sample_world (\<lambda>_. Aware 0)) sample_claimed
      (\<lambda>_. sample_run) [sample_turn [] (ReplyLost (raise_code UNAVAILABLE)), sample_turn [] Answered]
      (sample_started, []) = (Some (Inr rep, []), (sample_snoozed, ans)) \<and>
    length ans = 2 \<and> length (filter effective ans) \<le> 1 \<and> rp_command rep = Some (verb_command v) \<and>
    dget (jobs sample_snoozed) 2 = Some j \<and> fj_settled_command j = Some v"
proof -
  have t: "list_all (queue_turn sample_world)
      [sample_turn [] (ReplyLost (raise_code UNAVAILABLE)), sample_turn [] Answered]"
    by (auto simp: queue_turn_def sample_turn_def intro: exI [of _ "[]"])
  have dr: "inj_on (w_ids sample_world) {..<drawn sample_snoozed}"
    using sample_ids_inj [of 4] by (simp add: sample_snooze sample_world_def)
  show ?thesis
    using execution_settles_once [OF sample_reachable(2) t sample_execution dr] sample_execution
      sample_claimed_fields by auto
qed

text \<open>The report of that run is coherent.\<close>

theorem execution_reports_coherent_witness:
  "report_ok 2 (report_from_settle 2 C_SNOOZE
     \<lparr>sr_result = ALREADY_SETTLED, sr_job_status = Some QUEUED, sr_scheduled_at = Some 0\<rparr>)"
  using execution_reports_coherent [OF sample_execution] sample_claimed_fields by simp

end
