(* ===== verification/WorkerHeartbeat.thy ===== *)
theory WorkerHeartbeat
  imports WorkerSettle
begin

text \<open>
  \<open>_heartbeat_loop\<close>: the loop that keeps the lease of a running job alive, the loss of ownership when it
  cannot, and its effect on the control block and the checkpoint of the run.  What one iteration reads
  from the clock and the transport is a \<open>heartbeat_turn\<close>.
\<close>

section \<open>One iteration\<close>

datatype heartbeat_reply = HbAnswer heartbeat_result | HbError exc | HbTimedOut | HbCancelled

record heartbeat_turn =
  ht_terminal :: bool
  ht_now :: rat
  ht_pending :: "(nat \<times> jobj) option"
  ht_sent :: rat
  ht_reply :: heartbeat_reply
  ht_done :: rat

record heartbeat_state =
  hs_last_ok :: rat
  hs_failures :: nat
  hs_attempted :: bool

text \<open>
  The loop returns, raises, or loses ownership (with \<open>runtime_failed\<close>); or it goes on after a delay,
  having acknowledged a checkpoint and passed on an operator's cancellation.
\<close>

datatype heartbeat_next =
    HbReturn
  | HbRaise
  | HbLose bool
  | HbSleep rat heartbeat_state "nat option" bool

definition heartbeat_start :: "int \<Rightarrow> rat option \<Rightarrow> rat \<Rightarrow> heartbeat_state \<times> rat" where
  "heartbeat_start lease_seconds claimed_at now =
     (let last_ok = (case claimed_at of None \<Rightarrow> now | Some t \<Rightarrow> t) in
      (\<lparr>hs_last_ok = last_ok, hs_failures = 0, hs_attempted = False\<rparr>,
       max 0 (min (heartbeat_interval lease_seconds) ((last_ok + lease_budget lease_seconds - now) / 2))))"

text \<open>The time the call may take.\<close>

definition remaining_budget :: "int \<Rightarrow> heartbeat_turn \<Rightarrow> heartbeat_state \<Rightarrow> rat" where
  "remaining_budget lease_seconds t s =
     (let remaining = hs_last_ok s + lease_budget lease_seconds - ht_now t in
      if hs_attempted s then remaining else max remaining (heartbeat_interval lease_seconds))"

definition heartbeat_retryable :: "exc \<Rightarrow> bool" where
  "heartbeat_retryable e = (case e of
      TaskqError x \<Rightarrow> err_retryable x
    | PyException n \<Rightarrow> n \<in> set connection_errors
    | _ \<Rightarrow> False)"

definition retry_pause :: "int \<Rightarrow> heartbeat_state \<Rightarrow> rat \<Rightarrow> rat" where
  "retry_pause lease_seconds s now =
     max 0 (min (min (1 / 4 * 2 ^ min (hs_failures s - 1) 10) (heartbeat_interval lease_seconds))
       (hs_last_ok s + lease_budget lease_seconds - now))"

definition heartbeat_step :: "int \<Rightarrow> heartbeat_turn \<Rightarrow> heartbeat_state \<Rightarrow> heartbeat_next" where
  "heartbeat_step lease_seconds t s =
     (if ht_terminal t then HbReturn
      else if hs_attempted s \<and> hs_last_ok s + lease_budget lease_seconds - ht_now t \<le> 0 then HbLose False
      else case ht_reply t of
        HbTimedOut \<Rightarrow> HbLose False
      | HbCancelled \<Rightarrow> HbRaise
      | HbError e \<Rightarrow>
          if heartbeat_retryable e
          then let s1 = s\<lparr>hs_failures := hs_failures s + 1, hs_attempted := True\<rparr>
            in HbSleep (retry_pause lease_seconds s1 (ht_done t)) s1 None False
          else HbLose True
      | HbAnswer r \<Rightarrow>
          if \<not> hb_ok r then HbLose False
          else HbSleep (max 0 (heartbeat_interval lease_seconds - (ht_done t - ht_sent t)))
            \<lparr>hs_last_ok = ht_sent t, hs_failures = 0, hs_attempted = True\<rparr>
            (map_option fst (ht_pending t)) (hb_cancel_requested r))"

text \<open>
  The effect of an iteration on the run: what \<open>_lose_ownership\<close>, \<open>_ack_checkpoint\<close> and
  \<open>_request_operator_cancel\<close> do, and \<open>_heartbeat_crashed\<close> when the loop raises.
\<close>

definition heartbeat_effect ::
  "heartbeat_next \<Rightarrow> job_context \<Rightarrow> run_control \<Rightarrow> nat set \<Rightarrow> job_context \<times> run_control \<times> nat set" where
  "heartbeat_effect n ctx c unsafe = (case n of
      HbReturn \<Rightarrow> (ctx, c, unsafe)
    | HbRaise \<Rightarrow> (ctx, if rc_lost c \<or> rc_terminal c then (c, unsafe) else lose_ownership c unsafe)
    | HbLose failed \<Rightarrow>
        (ctx, lose_ownership (if failed then c\<lparr>rc_runtime_failed := True\<rparr> else c) unsafe)
    | HbSleep d s ack cancel \<Rightarrow>
        (case ack of None \<Rightarrow> ctx | Some g \<Rightarrow> ack_checkpoint ctx g,
         if cancel then request_operator_cancel c else c, unsafe))"

section \<open>Runs\<close>

text \<open>The iterations a run makes, each with the state it starts in.\<close>

fun heartbeat_run :: "int \<Rightarrow> heartbeat_turn list \<Rightarrow> heartbeat_state \<Rightarrow> (heartbeat_state \<times> heartbeat_turn) list" where
  "heartbeat_run l [] s = []"
| "heartbeat_run l (t # ts) s = (s, t) # (case heartbeat_step l t s of
     HbSleep d s1 ack cancel \<Rightarrow> heartbeat_run l ts s1 | _ \<Rightarrow> [])"

text \<open>Whether an iteration makes its call, and the instant at which it ends.\<close>

definition heartbeat_calls :: "int \<Rightarrow> heartbeat_turn \<Rightarrow> heartbeat_state \<Rightarrow> bool" where
  "heartbeat_calls l t s \<longleftrightarrow>
     \<not> ht_terminal t \<and> (hs_attempted s \<longrightarrow> 0 < hs_last_ok s + lease_budget l - ht_now t)"

definition turn_end :: "int \<Rightarrow> heartbeat_turn \<Rightarrow> heartbeat_state \<Rightarrow> rat" where
  "turn_end l t s = (if heartbeat_calls l t s then ht_done t else ht_now t)"

text \<open>
  A clock and an event loop that are late by at most \<open>d\<close>: a sleep until \<open>due\<close> ends by \<open>due + d\<close>, a call
  starts within \<open>d\<close>, and ends within \<open>d\<close> of its timer.
\<close>

fun punctual :: "int \<Rightarrow> rat \<Rightarrow> rat \<Rightarrow> heartbeat_turn list \<Rightarrow> heartbeat_state \<Rightarrow> bool" where
  "punctual l d due [] s = True"
| "punctual l d due (t # ts) s \<longleftrightarrow>
     due \<le> ht_now t \<and> ht_now t \<le> due + d \<and>
     (heartbeat_calls l t s \<longrightarrow> ht_now t \<le> ht_sent t \<and> ht_sent t \<le> ht_now t + d \<and>
        ht_sent t \<le> ht_done t \<and> ht_done t \<le> ht_sent t + remaining_budget l t s + d) \<and>
     (case heartbeat_step l t s of
        HbSleep delay s1 ack cancel \<Rightarrow> punctual l d (ht_done t + delay) ts s1 | _ \<Rightarrow> True)"

text \<open>The last confirmation is the claim or an acknowledged heartbeat.\<close>

definition confirmed_at :: "rat \<Rightarrow> heartbeat_turn list \<Rightarrow> rat \<Rightarrow> bool" where
  "confirmed_at start ts x \<longleftrightarrow> x = start \<or>
     (\<exists>t r. t \<in> set ts \<and> ht_reply t = HbAnswer r \<and> hb_ok r \<and> ht_sent t = x)"

section \<open>The lease is not outlived\<close>

lemma two_intervals: "0 < l \<Longrightarrow> 2 * heartbeat_interval l \<le> lease_budget l"
  by (auto simp: heartbeat_interval_def lease_budget_def min_def)

text \<open>What a step that goes on does to the state.\<close>

lemma heartbeat_goes_on:
  assumes "heartbeat_step l t s = HbSleep pause s1 ack cancel"
  shows "heartbeat_calls l t s \<and> hs_attempted s1 \<and>
    ((\<exists>r. ht_reply t = HbAnswer r \<and> hb_ok r \<and> hs_last_ok s1 = ht_sent t \<and>
        pause = max 0 (heartbeat_interval l - (ht_done t - ht_sent t))) \<or>
     hs_last_ok s1 = hs_last_ok s \<and> pause \<le> max 0 (hs_last_ok s + lease_budget l - ht_done t))"
  using assms
  by (auto simp: heartbeat_step_def heartbeat_calls_def retry_pause_def Let_def not_le le_max_iff_disj min_le_iff_disj
      split: if_splits heartbeat_reply.splits)

text \<open>
  The instant an iteration is due: \<open>got\<close> is when the claim was received.
\<close>

definition due_in_time :: "int \<Rightarrow> rat \<Rightarrow> rat \<Rightarrow> heartbeat_state \<Rightarrow> rat \<Rightarrow> bool" where
  "due_in_time l d got s due \<longleftrightarrow> hs_last_ok s \<le> due \<and>
     (if hs_attempted s then due \<le> max (hs_last_ok s) got + lease_budget l + 3 * d
      else due \<le> got + heartbeat_interval l)"

lemma turn_in_time:
  assumes l: "0 < l" and d: "0 \<le> d" and due: "due_in_time l d got s due"
    and p: "punctual l d due (t # ts) s"
  shows "turn_end l t s \<le> max (hs_last_ok s) got + lease_budget l + 4 * d"
    and "heartbeat_calls l t s \<Longrightarrow>
      ht_done t \<le> max (hs_last_ok s) got + lease_budget l + 3 * d \<and>
      ht_done t \<le> ht_sent t + lease_budget l + d"
proof -
  note b = lease_budget_bounds [OF l] two_intervals [OF l]
  show calls: "heartbeat_calls l t s \<Longrightarrow>
      ht_done t \<le> max (hs_last_ok s) got + lease_budget l + 3 * d \<and>
      ht_done t \<le> ht_sent t + lease_budget l + d"
    using p due d b
    by (cases "hs_attempted s")
      (auto simp: due_in_time_def remaining_budget_def Let_def max_def split: if_splits)
  have "ht_now t \<le> max (hs_last_ok s) got + lease_budget l + 4 * d"
    using p due d b by (auto simp: due_in_time_def max_def split: if_splits)
  then show "turn_end l t s \<le> max (hs_last_ok s) got + lease_budget l + 4 * d"
    using calls d by (auto simp: turn_end_def)
qed

lemma next_due_in_time:
  assumes l: "0 < l" and d: "0 \<le> d" and due: "due_in_time l d got s due"
    and p: "punctual l d due (t # ts) s" and st: "heartbeat_step l t s = HbSleep pause s1 ack cancel"
  shows "due_in_time l d got s1 (ht_done t + pause)"
proof -
  note g = heartbeat_goes_on [OF st]
  note b = lease_budget_bounds [OF l]
  note e = turn_in_time(2) [OF l d due p]
  have order: "hs_last_ok s \<le> ht_now t" "ht_now t \<le> ht_sent t" "ht_sent t \<le> ht_done t"
    using p due g by (auto simp: due_in_time_def)
  have "0 \<le> pause" using st by (auto simp: heartbeat_step_def retry_pause_def Let_def
        split: if_splits heartbeat_reply.splits)
  then show ?thesis
    using g e order d b by (auto simp: due_in_time_def max_def split: if_splits)
qed

lemma heartbeat_run_cases:
  assumes "(s, t) \<in> set (heartbeat_run l (u # us) s0)"
  obtains "s = s0" "t = u"
    | pause s1 ack cancel where "heartbeat_step l u s0 = HbSleep pause s1 ack cancel"
        "(s, t) \<in> set (heartbeat_run l us s1)"
  using assms by (cases "heartbeat_step l u s0") auto

lemma run_in_time:
  assumes l: "0 < l" and d: "0 \<le> d"
  shows "\<lbrakk>due_in_time l d got s0 due; punctual l d due ts s0; (s, t) \<in> set (heartbeat_run l ts s0)\<rbrakk> \<Longrightarrow>
    turn_end l t s \<le> max (hs_last_ok s) got + lease_budget l + 4 * d"
proof (induction ts arbitrary: s0 due)
  case (Cons u us)
  note head = turn_in_time(1) [OF l d Cons.prems(1,2)]
  show ?case using Cons.prems(3)
  proof (cases rule: heartbeat_run_cases)
    case 2
    then show ?thesis
      using Cons.IH [OF next_due_in_time [OF l d Cons.prems(1,2) 2(1)]] Cons.prems(2) by simp
  qed (use head in simp)
qed simp

lemma run_confirmed:
  "(s, t) \<in> set (heartbeat_run l ts s0) \<Longrightarrow> confirmed_at (hs_last_ok s0) ts (hs_last_ok s)"
proof (induction ts arbitrary: s0)
  case (Cons u us)
  show ?case using Cons.prems
  proof (cases rule: heartbeat_run_cases)
    case 2
    then show ?thesis
      using Cons.IH [OF 2(2)] heartbeat_goes_on [OF 2(1)] by (auto simp: confirmed_at_def)
  qed (simp add: confirmed_at_def)
qed simp

text \<open>
  C24: a run never goes on unconfirmed past its lease.  When the clock and the event loop are late by at
  most \<open>d\<close>, every iteration of the heartbeat loop ends, with a confirmation, a failure or the loss of
  ownership, within the lease's budget and \<open>4 * d\<close> of the last instant at which the server confirmed the
  lease, the receipt of the claim counting as one; the budget is shorter than the lease by a quarter of
  it or by a minute.
\<close>

theorem lease_never_outlived:
  assumes "0 < l" and "0 \<le> d" and "claimed \<le> got"
    and "heartbeat_start l (Some claimed) got = (s0, pause)"
    and "punctual l d (got + pause) ts s0" and "(s, t) \<in> set (heartbeat_run l ts s0)"
  shows "turn_end l t s \<le> max (hs_last_ok s) got + of_int l - min 60 (of_int l / 4) + 4 * d \<and>
    confirmed_at claimed ts (hs_last_ok s)"
proof

  have s0: "s0 = \<lparr>hs_last_ok = claimed, hs_failures = 0, hs_attempted = False\<rparr>"
    and pause: "0 \<le> pause" "pause \<le> heartbeat_interval l"
    using assms(4) lease_budget_bounds(1) [OF assms(1)]
    by (auto simp: heartbeat_start_def Let_def)
  have "due_in_time l d got s0 (got + pause)"
    using assms(3) pause by (simp add: due_in_time_def s0)
  from run_in_time [OF assms(1,2) this assms(5,6)]
  show "turn_end l t s \<le> max (hs_last_ok s) got + of_int l - min 60 (of_int l / 4) + 4 * d"
    by (simp add: lease_budget_def)
  show "confirmed_at claimed ts (hs_last_ok s)"
    using run_confirmed [OF assms(6)] by (simp add: s0)
qed

text \<open>
  A lease of 30 seconds: a heartbeat is answered, the next one times out at the end of the budget.
\<close>

definition lease_turns :: "heartbeat_turn list" where
  "lease_turns =
     [\<lparr>ht_terminal = False, ht_now = 11, ht_pending = None, ht_sent = 11,
        ht_reply = HbAnswer \<lparr>hb_ok = True, hb_cancel_requested = False,
          hb_lease_expires_at = None\<rparr>, ht_done = 12\<rparr>,
      \<lparr>ht_terminal = False, ht_now = 21, ht_pending = None, ht_sent = 21, ht_reply = HbTimedOut,
        ht_done = 33\<rparr>]"

definition lease_start :: heartbeat_state where
  "lease_start = \<lparr>hs_last_ok = 0, hs_failures = 0, hs_attempted = False\<rparr>"

lemmas lease_example = lease_turns_def lease_start_def heartbeat_start_def heartbeat_interval_def
  lease_budget_def heartbeat_step_def heartbeat_calls_def remaining_budget_def turn_end_def Let_def

lemma lease_run:
  "heartbeat_run 30 lease_turns lease_start =
     [(lease_start, lease_turns ! 0),
      (\<lparr>hs_last_ok = 11, hs_failures = 0, hs_attempted = True\<rparr>, lease_turns ! 1)]"
  by (simp add: lease_example)

theorem lease_never_outlived_witness:
  "turn_end 30 (lease_turns ! 1) \<lparr>hs_last_ok = 11, hs_failures = 0, hs_attempted = True\<rparr> \<le>
     11 + 30 - min 60 (30 / 4) + 4 * (1 / 2)"
proof -
  have "heartbeat_start 30 (Some 0) 1 = (lease_start, 10)"
    by (simp add: lease_example)
  moreover have "punctual 30 (1 / 2) (1 + 10) lease_turns lease_start"
    by (simp add: lease_example)
  moreover have "(\<lparr>hs_last_ok = 11, hs_failures = 0, hs_attempted = True\<rparr>, lease_turns ! 1)
      \<in> set (heartbeat_run 30 lease_turns lease_start)"
    by (simp add: lease_run)
  ultimately show ?thesis
    using lease_never_outlived [of 30 "1 / 2" 0 1 lease_start 10 lease_turns
        "\<lparr>hs_last_ok = 11, hs_failures = 0, hs_attempted = True\<rparr>" "lease_turns ! 1"] by simp
qed

end
