(* ===== verification/WorkerEffects.thy ===== *)
theory WorkerEffects
  imports WorkerSettle
begin

text \<open>
  \<open>_report_effect\<close>: a handler's effect is reported under its attempt, with the same payload on every
  retry.  What one attempt reads from the control block and the reporter is an \<open>effect_turn\<close>.
\<close>

record effect_turn =
  ef_control :: run_control
  ef_reply :: "exc + jobj"
  ef_woken_lost :: bool
  ef_woken :: run_control

definition task_cancelled :: exc where
  "task_cancelled = PyException ''TaskCancelled''"

definition effect_refused :: "run_control \<Rightarrow> bool" where
  "effect_refused c \<longleftrightarrow> tok_reason (rc_token c) \<noteq> None \<or> rc_lost c \<or> rc_terminal c"

text \<open>Whether a failed report may be sent again.\<close>

definition effect_retryable :: "exc \<Rightarrow> bool" where
  "effect_retryable e = (case e of
      TaskqError x \<Rightarrow> err_retryable x
    | PyException n \<Rightarrow> n \<in> set connection_errors
    | _ \<Rightarrow> False)"

definition effect_delay :: "worker_options \<Rightarrow> nat \<Rightarrow> rat" where
  "effect_delay ops number = min (wo_backoff_base ops * 2 ^ (number - 1)) (wo_backoff_cap ops)"

text \<open>The attempts from \<open>number\<close> on, with the payloads sent.\<close>

fun report_effect ::
  "worker_options \<Rightarrow> jobj \<Rightarrow> nat \<Rightarrow> effect_turn list \<Rightarrow> (exc + jobj) option \<times> jobj list" where
  "report_effect ops request number [] = (None, [])"
| "report_effect ops request number (t # ts) =
     (if effect_refused (ef_control t) then (Some (Inl task_cancelled), [])
      else case ef_reply t of
        Inr answer \<Rightarrow> (Some (Inr answer), [request])
      | Inl e \<Rightarrow>
          if \<not> effect_retryable e \<or> int number \<ge> wo_settle_max_attempts ops then (Some (Inl e), [request])
          else if ef_woken_lost t then (Some (Inl task_cancelled), [request])
          else (case report_effect ops request (number + 1) ts of (r, sent) \<Rightarrow> (r, request # sent)))"

text \<open>A report is sent at most as often as settlements are attempted, and always the same.\<close>

lemma report_effect_bounded:
  assumes "1 \<le> number" and "int number \<le> wo_settle_max_attempts ops"
  shows "set (snd (report_effect ops request number ts)) \<subseteq> {request} \<and>
    int (number + length (snd (report_effect ops request number ts))) \<le> wo_settle_max_attempts ops + 1"
  using assms
proof (induction ts arbitrary: number)
  case (Cons t ts)
  show ?case
  proof (cases "int number < wo_settle_max_attempts ops")
    case True
    then have "set (snd (report_effect ops request (number + 1) ts)) \<subseteq> {request} \<and>
        int (number + 1 + length (snd (report_effect ops request (number + 1) ts))) \<le> wo_settle_max_attempts ops + 1"
      using Cons.IH [of "number + 1"] by simp
    then show ?thesis using Cons.prems by (auto simp: case_prod_unfold split: sum.split)
  qed (use Cons.prems in \<open>auto split: sum.split\<close>)
qed simp

text \<open>With a turn for every attempt it has left, it ends.\<close>

lemma report_effect_ends:
  "int (number + length ts) > wo_settle_max_attempts ops \<Longrightarrow> ts \<noteq> [] \<Longrightarrow>
   fst (report_effect ops request number ts) \<noteq> None"
proof (induction ts arbitrary: number)
  case (Cons t ts)
  then have "int (number + 1 + length ts) > wo_settle_max_attempts ops" by simp
  then show ?case
    using Cons.IH [of "number + 1"] by (cases "ts = []") (auto simp: case_prod_unfold split: sum.split)
qed simp

end
