(* ===== verification/WorkerSupervisor.thy ===== *)
theory WorkerSupervisor
  imports Worker
begin

text \<open>
  The slots and the life of \<open>WorkerSupervisor\<close>: its construction, reservation and release of slots, the
  registration of a run's control block, the soft stop, the shutdown deadline and the end of
  \<open>_stop\<close>.  A task of a job is its key; a run's end is the report or the exception of its task.
\<close>

section \<open>State\<close>

type_synonym job_key = "uuid \<times> uuid"

definition key_of :: "claimed_job \<Rightarrow> job_key" where
  "key_of cl = (cj_job_id cl, cj_attempt_id cl)"

record supervisor =
  sp_options :: worker_options
  sp_accepting :: bool
  sp_stopping :: bool
  sp_stopped :: bool
  sp_force :: bool
  sp_deadline :: bool
  sp_stop_task :: bool
  sp_active :: "job_key list"
  sp_controls :: "(job_key, run_control) dict"
  sp_unsafe :: "nat set"

definition max_policy_hashes :: nat where
  "max_policy_hashes = 32"

definition supervisor_init ::
  "(string \<Rightarrow> string) \<Rightarrow> registry \<Rightarrow> string \<Rightarrow> worker_options \<Rightarrow> compiled_policy list \<Rightarrow> exc + supervisor" where
  "supervisor_init sha reg wk ops policies =
     (if wk = '''' \<or> length wk > 200
      then Inl (ConfigError ''worker_id must be non-empty and at most 200 characters'')
      else ebind (validate_followup_graph reg) (\<lambda>_.
        if \<not> distinct (map cp_hash policies)
        then Inl (ConfigError ''continuation policies must have distinct hashes'')
        else if length policies > max_policy_hashes
        then Inl (ConfigError ''workers support at most 32 continuation policies'')
        else ebind (traverse (validate_compiled_continuation_policy sha reg) policies) (\<lambda>_.
          Inr \<lparr>sp_options = ops, sp_accepting = False, sp_stopping = False, sp_stopped = False,
            sp_force = False, sp_deadline = False, sp_stop_task = False, sp_active = [],
            sp_controls = [], sp_unsafe = {}\<rparr>)))"

section \<open>Slots\<close>

definition capacity_error :: exc where
  "capacity_error = PyException ''WorkerCapacityError''"

definition active_slots :: "supervisor \<Rightarrow> int" where
  "active_slots sp = int (length (sp_active sp))"

definition free_slots :: "supervisor \<Rightarrow> int" where
  "free_slots sp = max 0 (wo_concurrency (sp_options sp) - active_slots sp)"

definition available_slots :: "supervisor \<Rightarrow> int" where
  "available_slots sp = (if sp_accepting sp then free_slots sp else 0)"

definition sup_requires_exit :: "supervisor \<Rightarrow> bool" where
  "sup_requires_exit sp \<longleftrightarrow> sp_unsafe sp \<noteq> {} \<or>
     list_ex (\<lambda>c. rc_is_sync c \<and> rc_handler c = Active \<and> (sp_deadline sp \<or> rc_lost c))
       (map snd (sp_controls sp))"

definition sup_start :: "supervisor \<Rightarrow> exc + supervisor" where
  "sup_start sp =
     (if sp_stopping sp \<or> sp_stopped sp then Inl capacity_error
      else Inr (sp\<lparr>sp_accepting := True\<rparr>))"

text \<open>Whether \<open>wait_for_capacity\<close> is over, and its exception then.\<close>

definition capacity_over :: "supervisor \<Rightarrow> bool" where
  "capacity_over sp \<longleftrightarrow> free_slots sp \<noteq> 0 \<or> \<not> sp_accepting sp"

definition capacity_result :: "supervisor \<Rightarrow> exc + unit" where
  "capacity_result sp = (if sp_accepting sp then Inr () else Inl capacity_error)"

definition reserve :: "job_key \<Rightarrow> supervisor \<Rightarrow> exc + supervisor" where
  "reserve k sp =
     (if k \<in> set (sp_active sp) then Inl capacity_error
      else if free_slots sp = 0 then Inl capacity_error
      else Inr (sp\<lparr>sp_active := sp_active sp @ [k]\<rparr>))"

definition submit :: "claimed_job \<Rightarrow> supervisor \<Rightarrow> exc + supervisor" where
  "submit cl sp = (if \<not> sp_accepting sp then Inl capacity_error else reserve (key_of cl) sp)"

definition run_job :: "claimed_job \<Rightarrow> supervisor \<Rightarrow> exc + supervisor" where
  "run_job cl sp =
     (if sp_stopping sp \<or> sp_stopped sp then Inl capacity_error else reserve (key_of cl) sp)"

section \<open>Stopping\<close>

definition begin_soft_stop :: "supervisor \<Rightarrow> supervisor" where
  "begin_soft_stop sp = sp\<lparr>sp_accepting := False, sp_stopping := True,
     sp_controls := map (\<lambda>(k, c). (k, cancel_control SHUTDOWN c)) (sp_controls sp)\<rparr>"

fun enforce_deadlines ::
  "(job_key, run_control) dict \<Rightarrow> nat set \<Rightarrow> (job_key, run_control) dict \<times> nat set" where
  "enforce_deadlines [] unsafe = ([], unsafe)"
| "enforce_deadlines ((k, c) # cs) unsafe =
     (case enforce_shutdown_deadline c unsafe of (c1, u1) \<Rightarrow>
      case enforce_deadlines cs u1 of (cs1, u2) \<Rightarrow> ((k, c1) # cs1, u2))"

definition enforce_all_deadlines :: "supervisor \<Rightarrow> supervisor" where
  "enforce_all_deadlines sp = (case enforce_deadlines (sp_controls sp) (sp_unsafe sp) of
     (cs, u) \<Rightarrow> sp\<lparr>sp_deadline := True, sp_controls := cs, sp_unsafe := u\<rparr>)"

definition sup_stop :: "bool \<Rightarrow> supervisor \<Rightarrow> supervisor" where
  "sup_stop cancel sp =
     (let sp1 = begin_soft_stop sp;
          sp2 = (if cancel then enforce_all_deadlines (sp1\<lparr>sp_force := True\<rparr>) else sp1)
      in sp2\<lparr>sp_stop_task := True\<rparr>)"

text \<open>
  \<open>_stop\<close>: while jobs drain, the soft-stop timeout or a forced stop enforces the deadlines; when they
  have drained it ends.
\<close>

definition stop_escalates :: "bool \<Rightarrow> supervisor \<Rightarrow> supervisor option" where
  "stop_escalates timeout sp =
     (if sp_stop_task sp \<and> \<not> sp_stopped sp \<and> sp_active sp \<noteq> [] \<and>
         (sp_force sp \<or> timeout \<and> wo_soft_stop_timeout (sp_options sp) \<noteq> None)
      then Some (enforce_all_deadlines sp) else None)"

definition stop_ends :: "supervisor \<Rightarrow> supervisor option" where
  "stop_ends sp =
     (if sp_stop_task sp \<and> \<not> sp_stopped sp \<and> sp_active sp = []
      then Some (sp\<lparr>sp_stopped := True\<rparr>) else None)"

section \<open>Runs\<close>

text \<open>\<open>_execute_job\<close> up to the start of the handler and of the heartbeat.\<close>

definition register_run :: "job_key \<Rightarrow> bool \<Rightarrow> claimed_job \<Rightarrow> supervisor \<Rightarrow> supervisor" where
  "register_run k is_sync cl sp =
     (let enforce = (\<lambda>(c, u). if sp_deadline sp then enforce_shutdown_deadline c u else (c, u));
          c0 = new_control is_sync cl;
          c1 = (if sp_stopping sp then cancel_control SHUTDOWN c0 else c0) in
      case enforce (c1, sp_unsafe sp) of (c2, u2) \<Rightarrow>
      case enforce (c2\<lparr>rc_handler := Active\<rparr>, u2) of (c3, u3) \<Rightarrow>
        sp\<lparr>sp_controls := dset k c3 (sp_controls sp), sp_unsafe := u3\<rparr>)"

text \<open>What the tasks of a run do to its control block and to the blocking futures.\<close>

datatype run_update =
    HandlerEnded
  | SettlementTerminal
  | LeaseLost bool
  | OperatorAsked
  | GraceOver
  | BlockingStarted nat
  | BlockingDone nat
  | CancelledOutside

fun apply_update :: "run_update \<Rightarrow> run_control \<Rightarrow> nat set \<Rightarrow> run_control \<times> nat set" where
  "apply_update HandlerEnded c u = (c\<lparr>rc_handler := HandlerDone\<rparr>, u)"
| "apply_update SettlementTerminal c u = (c\<lparr>rc_terminal := True\<rparr>, u)"
| "apply_update (LeaseLost failed) c u =
     lose_ownership (if failed then c\<lparr>rc_runtime_failed := True\<rparr> else c) u"
| "apply_update OperatorAsked c u = (request_operator_cancel c, u)"
| "apply_update GraceOver c u = operator_grace c u"
| "apply_update (BlockingStarted f) c u = (c\<lparr>rc_blocking := insert f (rc_blocking c)\<rparr>, u)"
| "apply_update (BlockingDone f) c u = finish_blocking f c u"
| "apply_update CancelledOutside c u =
     (let c1 = c\<lparr>rc_external := True\<rparr> in
      if \<not> rc_is_sync c1 \<and> rc_handler c1 = Active then cancel_handler c1 u else (c1, u))"

definition update_run ::
  "job_key \<Rightarrow> (run_control \<Rightarrow> nat set \<Rightarrow> run_control \<times> nat set) \<Rightarrow> supervisor \<Rightarrow> supervisor" where
  "update_run k f sp = (case dget (sp_controls sp) k of
      None \<Rightarrow> sp
    | Some c \<Rightarrow> (case f c (sp_unsafe sp) of
        (c1, u) \<Rightarrow> sp\<lparr>sp_controls := dset k c1 (sp_controls sp), sp_unsafe := u\<rparr>))"

definition run_updated :: "job_key \<Rightarrow> run_update \<Rightarrow> supervisor \<Rightarrow> supervisor" where
  "run_updated k x sp =
     update_run k (apply_update x) (if x = CancelledOutside then begin_soft_stop sp else sp)"

text \<open>The end of \<open>_run_reserved\<close>.\<close>

definition run_finished :: "job_key \<Rightarrow> exc + job_run_report \<Rightarrow> supervisor \<Rightarrow> supervisor" where
  "run_finished k r sp =
     (let fatal = (case r of Inr rep \<Rightarrow> rp_fatal rep | Inl e \<Rightarrow> False);
          soft = (case r of Inr rep \<Rightarrow> \<not> rp_fatal rep \<and> rp_outcome rep = RO_UNSUPPORTED_CONTINUATION_POLICY
                  | Inl e \<Rightarrow> False);
          sp1 = (if fatal then begin_soft_stop sp else sp);
          external = (case dget (sp_controls sp1) k of None \<Rightarrow> False | Some c \<Rightarrow> rc_external c)
      in sp1\<lparr>sp_controls := ddel k (sp_controls sp1), sp_active := remove1 k (sp_active sp1),
           sp_stop_task := sp_stop_task sp1 \<or> fatal \<or> soft \<or> external\<rparr>)"

section \<open>The supervisor as a state machine\<close>

text \<open>
  What can happen to a supervisor: its public methods, and the steps of its tasks.  A step that raises,
  or that cannot happen now, has no successor.  A task whose policy was not supported has begun the
  soft stop before it ends.
\<close>

datatype supervisor_event =
    SupStart
  | SupSubmit claimed_job
  | SupRunJob claimed_job
  | SupStop bool
  | SupRegister bool claimed_job
  | SupUpdate job_key run_update
  | SupSoftStop
  | SupFinish job_key "exc + job_run_report"
  | SupEscalate bool
  | SupEnds

definition answer :: "'e + 'a \<Rightarrow> 'a option" where
  "answer r = (case r of Inl e \<Rightarrow> None | Inr x \<Rightarrow> Some x)"

definition may_finish :: "job_key \<Rightarrow> exc + job_run_report \<Rightarrow> supervisor \<Rightarrow> bool" where
  "may_finish k r sp \<longleftrightarrow> k \<in> set (sp_active sp) \<and>
     (case r of Inl e \<Rightarrow> True
      | Inr rep \<Rightarrow> rp_outcome rep = RO_UNSUPPORTED_CONTINUATION_POLICY \<longrightarrow> sp_stopping sp)"

fun supervisor_step :: "supervisor_event \<Rightarrow> supervisor \<Rightarrow> supervisor option" where
  "supervisor_step SupStart sp = answer (sup_start sp)"
| "supervisor_step (SupSubmit cl) sp = answer (submit cl sp)"
| "supervisor_step (SupRunJob cl) sp = answer (run_job cl sp)"
| "supervisor_step (SupStop cancel) sp = Some (sup_stop cancel sp)"
| "supervisor_step (SupRegister is_sync cl) sp =
     (if key_of cl \<in> set (sp_active sp) \<and> key_of cl \<notin> set (dkeys (sp_controls sp))
      then Some (register_run (key_of cl) is_sync cl sp) else None)"
| "supervisor_step (SupUpdate k x) sp = Some (run_updated k x sp)"
| "supervisor_step SupSoftStop sp = Some (begin_soft_stop sp)"
| "supervisor_step (SupFinish k r) sp = (if may_finish k r sp then Some (run_finished k r sp) else None)"
| "supervisor_step (SupEscalate timeout) sp = stop_escalates timeout sp"
| "supervisor_step SupEnds sp = stop_ends sp"

fun supervisor_run :: "supervisor_event list \<Rightarrow> supervisor \<Rightarrow> supervisor option" where
  "supervisor_run [] sp = Some sp"
| "supervisor_run (e # es) sp = Option.bind (supervisor_step e sp) (supervisor_run es)"

section \<open>The invariant\<close>

text \<open>
  The slots are never exceeded; every registered run holds a slot; a stopping supervisor has cancelled
  every run's token, and past the deadline it has cancelled every asynchronous handler.
\<close>

definition run_cancelled :: "run_control \<Rightarrow> bool" where
  "run_cancelled c \<longleftrightarrow> tok_reason (rc_token c) \<noteq> None"

definition told_to_stop :: "bool \<Rightarrow> bool \<Rightarrow> run_control \<Rightarrow> bool" where
  "told_to_stop stopping deadline c \<longleftrightarrow> (rc_external c \<longrightarrow> stopping) \<and> (stopping \<longrightarrow> run_cancelled c) \<and>
     (deadline \<and> \<not> rc_is_sync c \<and> rc_handler c = Active \<longrightarrow> rc_shutdown_deadline c \<and> rc_handler_cancelled c)"

definition all_held :: "(job_key, run_control) dict \<Rightarrow> job_key list \<Rightarrow> bool" where
  "all_held cs ks \<longleftrightarrow> set (dkeys cs) \<subseteq> set ks"

definition slots_ok :: "supervisor \<Rightarrow> bool" where
  "slots_ok sp \<longleftrightarrow> active_slots sp \<le> wo_concurrency (sp_options sp) \<and> distinct (sp_active sp) \<and>
     distinct (dkeys (sp_controls sp)) \<and> all_held (sp_controls sp) (sp_active sp)"

definition phases_ok :: "supervisor \<Rightarrow> bool" where
  "phases_ok sp \<longleftrightarrow> (sp_accepting sp \<longrightarrow> \<not> sp_stopping sp) \<and> (sp_stop_task sp \<longrightarrow> sp_stopping sp) \<and>
     (sp_deadline sp \<longrightarrow> sp_stopping sp) \<and> (sp_stopped sp \<longrightarrow> sp_stop_task sp \<and> sp_active sp = [])"

definition runs_told :: "supervisor \<Rightarrow> bool" where
  "runs_told sp \<longleftrightarrow> list_all (\<lambda>(k, c). told_to_stop (sp_stopping sp) (sp_deadline sp) c) (sp_controls sp)"

definition supervisor_inv :: "supervisor \<Rightarrow> bool" where
  "supervisor_inv sp \<longleftrightarrow> slots_ok sp \<and> phases_ok sp \<and> runs_told sp"

lemmas supervisor_inv_defs = supervisor_inv_def slots_ok_def phases_ok_def runs_told_def active_slots_def

lemma supervisor_init_inv:
  assumes "supervisor_init sha reg wk ops pols = Inr sp" and "worker_options_valid ops"
  shows "supervisor_inv sp"
proof -
  have "sp_controls sp = [] \<and> sp_active sp = [] \<and> sp_options sp = ops \<and> \<not> sp_accepting sp \<and> \<not> sp_stop_task sp \<and>
      \<not> sp_deadline sp \<and> \<not> sp_stopped sp"
    using assms(1) by (auto simp: supervisor_init_def ebind_Inr_iff split: if_splits)
  moreover have "0 \<le> wo_concurrency ops"
    using assms(2) by (simp add: worker_options_valid_def between_def)
  ultimately show ?thesis by (simp add: supervisor_inv_defs all_held_def)
qed

lemma all_held_simps:
  "all_held cs ks \<Longrightarrow> all_held cs (ks @ [k])"
  "all_held cs ks \<Longrightarrow> k \<in> set ks \<Longrightarrow> all_held (dset k c cs) ks"
  "all_held cs ks \<Longrightarrow> distinct ks \<Longrightarrow> all_held (ddel k cs) (remove1 k ks)"
  "dkeys cs' = dkeys cs \<Longrightarrow> all_held cs' ks = all_held cs ks"
  by (auto simp: all_held_def dkeys_dset delete_keys)

lemma held_key: "all_held cs ks \<Longrightarrow> dget cs k = Some c \<Longrightarrow> k \<in> set ks"
  unfolding all_held_def by (rule subsetD [OF _ dget_Some_key])

lemma run_cancelled_cancel [simp]: "run_cancelled (cancel_control r c)"
  by (auto simp: run_cancelled_def cancel_control_def token_cancel_def split: option.splits)

lemma run_cancelled_update [simp]:
  "run_cancelled (c\<lparr>rc_handler := h\<rparr>) = run_cancelled c" "run_cancelled (c\<lparr>rc_lost := b\<rparr>) = run_cancelled c"
  "run_cancelled (c\<lparr>rc_terminal := b\<rparr>) = run_cancelled c" "run_cancelled (c\<lparr>rc_grace := b\<rparr>) = run_cancelled c"
  "run_cancelled (c\<lparr>rc_abandoned := b\<rparr>) = run_cancelled c" "run_cancelled (c\<lparr>rc_external := b\<rparr>) = run_cancelled c"
  "run_cancelled (c\<lparr>rc_blocking := f\<rparr>) = run_cancelled c"
  "run_cancelled (c\<lparr>rc_shutdown_deadline := b\<rparr>) = run_cancelled c"
  "run_cancelled (fst (cancel_handler c u)) = run_cancelled c"
  by (simp_all add: run_cancelled_def cancel_handler_def mark_blocking_unsafe_def)

lemma cancel_control_fields [simp]:
  "rc_is_sync (cancel_control r c) = rc_is_sync c" "rc_handler (cancel_control r c) = rc_handler c"
  "rc_shutdown_deadline (cancel_control r c) = rc_shutdown_deadline c"
  "rc_handler_cancelled (cancel_control r c) = rc_handler_cancelled c"
  "rc_external (cancel_control r c) = rc_external c"
  by (simp_all add: cancel_control_def)

lemma cancel_handler_fields [simp]:
  "rc_is_sync (fst (cancel_handler c u)) = rc_is_sync c" "rc_handler (fst (cancel_handler c u)) = rc_handler c"
  "rc_shutdown_deadline (fst (cancel_handler c u)) = rc_shutdown_deadline c"
  "rc_handler_cancelled (fst (cancel_handler c u))"
  "rc_external (fst (cancel_handler c u)) = rc_external c"
  "rc_token (fst (cancel_handler c u)) = rc_token c"
  by (simp_all add: cancel_handler_def mark_blocking_unsafe_def)

text \<open>A run that has been told to stop stays told, whatever its tasks do.\<close>

lemma apply_update_told:
  "told_to_stop st d c \<Longrightarrow> (x = CancelledOutside \<Longrightarrow> st) \<Longrightarrow> told_to_stop st d (fst (apply_update x c u))"
  by (cases x) (auto simp: told_to_stop_def lose_ownership_def request_operator_cancel_def
      operator_grace_def finish_blocking_def Let_def run_cancelled_update [unfolded run_cancelled_def])

lemma enforce_told:
  "told_to_stop True d c \<Longrightarrow> told_to_stop True True (fst (enforce_shutdown_deadline c u))"
  by (auto simp: told_to_stop_def enforce_shutdown_deadline_def Let_def)

lemma enforce_deadlines_keys: "dkeys (fst (enforce_deadlines cs u)) = dkeys cs"
  by (induction cs u rule: enforce_deadlines.induct) (auto split: prod.splits)

lemma enforce_deadlines_told:
  "list_all (\<lambda>(k, c). told_to_stop True d c) cs \<Longrightarrow>
   list_all (\<lambda>(k, c). told_to_stop True True c) (fst (enforce_deadlines cs u))"
proof (induction cs u rule: enforce_deadlines.induct)
  case (2 k c cs u)
  obtain c1 u1 where e: "enforce_shutdown_deadline c u = (c1, u1)" by force
  obtain cs1 u2 where es: "enforce_deadlines cs u1 = (cs1, u2)" by force
  show ?case
    using 2 e es enforce_told [of d c u] by simp
qed simp

lemma soft_stop_fields [simp]:
  "sp_stopping (begin_soft_stop sp)" "\<not> sp_accepting (begin_soft_stop sp)"
  "sp_active (begin_soft_stop sp) = sp_active sp" "sp_stop_task (begin_soft_stop sp) = sp_stop_task sp"
  "sp_deadline (begin_soft_stop sp) = sp_deadline sp" "sp_options (begin_soft_stop sp) = sp_options sp"
  "sp_stopped (begin_soft_stop sp) = sp_stopped sp"
  by (simp_all add: begin_soft_stop_def)

lemma soft_stop_keys [simp]: "dkeys (sp_controls (begin_soft_stop sp)) = dkeys (sp_controls sp)"
  by (simp add: begin_soft_stop_def comp_def case_prod_unfold)

lemma soft_stop_told: "runs_told sp \<Longrightarrow> runs_told (begin_soft_stop sp)"
  by (simp add: runs_told_def begin_soft_stop_def list_all_length case_prod_unfold told_to_stop_def)

lemma soft_stop_inv: "supervisor_inv sp \<Longrightarrow> supervisor_inv (begin_soft_stop sp)"
  using soft_stop_told [of sp] all_held_simps(4) [OF soft_stop_keys, of sp]
  by (simp add: supervisor_inv_def slots_ok_def phases_ok_def active_slots_def)

lemma enforce_all_fields [simp]:
  "sp_stopping (enforce_all_deadlines sp) = sp_stopping sp"
  "sp_accepting (enforce_all_deadlines sp) = sp_accepting sp"
  "sp_active (enforce_all_deadlines sp) = sp_active sp"
  "sp_stop_task (enforce_all_deadlines sp) = sp_stop_task sp"
  "sp_deadline (enforce_all_deadlines sp)"
  "sp_options (enforce_all_deadlines sp) = sp_options sp"
  "sp_stopped (enforce_all_deadlines sp) = sp_stopped sp"
  "dkeys (sp_controls (enforce_all_deadlines sp)) = dkeys (sp_controls sp)"
  by (simp_all add: enforce_all_deadlines_def case_prod_unfold enforce_deadlines_keys)

lemma enforce_all_told: "runs_told sp \<Longrightarrow> sp_stopping sp \<Longrightarrow> runs_told (enforce_all_deadlines sp)"
  using enforce_deadlines_told [of "sp_deadline sp" "sp_controls sp" "sp_unsafe sp"]
  by (simp add: runs_told_def enforce_all_deadlines_def case_prod_unfold)

lemma enforce_all_inv: "supervisor_inv sp \<Longrightarrow> sp_stopping sp \<Longrightarrow> supervisor_inv (enforce_all_deadlines sp)"
  using enforce_all_told [of sp] all_held_simps(4) [OF enforce_all_fields(8), of sp]
  by (simp add: supervisor_inv_def slots_ok_def phases_ok_def active_slots_def)

lemma list_all_dset:
  "list_all P d \<Longrightarrow> (\<And>k'. k' = k \<Longrightarrow> P (k', v)) \<Longrightarrow> list_all P (dset k v d)"
  by (induction d) auto

lemma list_all_ddel: "list_all P d \<Longrightarrow> list_all P (ddel k d)"
  by (induction d) auto

lemma update_run_inv:
  assumes "supervisor_inv sp"
    and "\<And>c u. told_to_stop (sp_stopping sp) (sp_deadline sp) c \<Longrightarrow>
      told_to_stop (sp_stopping sp) (sp_deadline sp) (fst (f c u))"
  shows "supervisor_inv (update_run k f sp)"
proof (cases "dget (sp_controls sp) k")
  case (Some c)
  obtain c1 u1 where f: "f c (sp_unsafe sp) = (c1, u1)" by force
  have "told_to_stop (sp_stopping sp) (sp_deadline sp) c"
    using assms(1) Some by (auto simp: supervisor_inv_def runs_told_def list_all_iff dest!: map_of_SomeD)
  then have "told_to_stop (sp_stopping sp) (sp_deadline sp) c1" using assms(2) f by (metis fst_conv)
  moreover have "all_held (dset k c1 (sp_controls sp)) (sp_active sp)"
    using assms(1) held_key [OF _ Some] all_held_simps(2) by (simp add: supervisor_inv_def slots_ok_def)
  ultimately show ?thesis
    using assms(1) Some f
    by (simp add: supervisor_inv_def update_run_def slots_ok_def phases_ok_def active_slots_def
        runs_told_def list_all_dset)
qed (use assms(1) in \<open>simp add: update_run_def\<close>)

lemma reserve_inv: "supervisor_inv sp \<Longrightarrow> \<not> sp_stopping sp \<Longrightarrow> reserve k sp = Inr sp' \<Longrightarrow> supervisor_inv sp'"
  by (auto simp: supervisor_inv_defs reserve_def free_slots_def max_def all_held_simps(1) split: if_splits)

lemma run_updated_inv: "supervisor_inv sp \<Longrightarrow> supervisor_inv (run_updated k x sp)"
  unfolding run_updated_def
  by (rule update_run_inv) (auto intro!: soft_stop_inv apply_update_told simp del: apply_update.simps)

lemma new_control_told:
  "told_to_stop st False (if st then cancel_control SHUTDOWN (new_control b cl) else new_control b cl)"
  by (simp add: told_to_stop_def new_control_def)

lemma told_handler: "told_to_stop st d c \<Longrightarrow> told_to_stop st False (c\<lparr>rc_handler := h\<rparr>)"
  by (simp add: told_to_stop_def)

lemma register_run_inv:
  assumes inv: "supervisor_inv sp" and k: "k \<in> set (sp_active sp)" "k \<notin> set (dkeys (sp_controls sp))"
  shows "supervisor_inv (register_run k b cl sp)"
proof -
  define enforce where "enforce = (\<lambda>(c, u). if sp_deadline sp then enforce_shutdown_deadline c u else (c, u))"
  define c1 where "c1 = (if sp_stopping sp then cancel_control SHUTDOWN (new_control b cl) else new_control b cl)"
  obtain c2 u2 where c2: "enforce (c1, sp_unsafe sp) = (c2, u2)" by force
  obtain c3 u3 where c3: "enforce (c2\<lparr>rc_handler := Active\<rparr>, u2) = (c3, u3)" by force
  have d: "sp_deadline sp \<longrightarrow> sp_stopping sp" using inv by (simp add: supervisor_inv_defs)
  have "told_to_stop (sp_stopping sp) False c1"
    using new_control_told by (simp add: c1_def)
  then have "told_to_stop (sp_stopping sp) False c2"
    using c2 d enforce_told [of False c1 "sp_unsafe sp"]
    by (auto simp: enforce_def told_to_stop_def split: if_splits)
  then have "told_to_stop (sp_stopping sp) (sp_deadline sp) c3"
    using c3 d told_handler [of "sp_stopping sp" False c2 Active]
      enforce_told [of False "c2\<lparr>rc_handler := Active\<rparr>" u2]
    by (auto simp: enforce_def split: if_splits)
  moreover have "register_run k b cl sp = sp\<lparr>sp_controls := dset k c3 (sp_controls sp), sp_unsafe := u3\<rparr>"
    using c2 c3 by (simp add: register_run_def Let_def enforce_def c1_def)
  ultimately show ?thesis
    using inv k by (simp add: supervisor_inv_defs list_all_dset distinct_update all_held_simps(2))
qed

definition finished_stop_task :: "job_key \<Rightarrow> exc + job_run_report \<Rightarrow> supervisor \<Rightarrow> bool" where
  "finished_stop_task k r sp \<longleftrightarrow> sp_stop_task sp \<or>
     (case r of Inl e \<Rightarrow> False
      | Inr rep \<Rightarrow> rp_fatal rep \<or> rp_outcome rep = RO_UNSUPPORTED_CONTINUATION_POLICY) \<or>
     (case dget (sp_controls sp) k of None \<Rightarrow> False | Some c \<Rightarrow> rc_external c)"

lemma run_finished_eq:
  "run_finished k r sp =
     (let sp1 = (if (case r of Inr rep \<Rightarrow> rp_fatal rep | Inl e \<Rightarrow> False) then begin_soft_stop sp else sp)
      in sp1\<lparr>sp_controls := ddel k (sp_controls sp1), sp_active := remove1 k (sp_active sp1),
           sp_stop_task := finished_stop_task k r sp1\<rparr>)"
  by (cases r) (auto simp: run_finished_def finished_stop_task_def Let_def)

lemma run_finished_inv:
  assumes "supervisor_inv sp" and "may_finish k r sp"
  shows "supervisor_inv (run_finished k r sp)"
proof -
  define sp1 where "sp1 = (if (case r of Inr rep \<Rightarrow> rp_fatal rep | Inl e \<Rightarrow> False) then begin_soft_stop sp else sp)"
  have inv: "supervisor_inv sp1" using assms(1) by (simp add: sp1_def soft_stop_inv)
  have ext: "sp_stopping sp1" if "dget (sp_controls sp1) k = Some c" "rc_external c" for c
    using inv that by (auto simp: supervisor_inv_defs told_to_stop_def list_all_iff dest!: map_of_SomeD)
  have "sp_stopping sp1" if "r = Inr rep" "rp_fatal rep \<or> rp_outcome rep = RO_UNSUPPORTED_CONTINUATION_POLICY" for rep
    using that assms(2) by (auto simp: sp1_def may_finish_def)
  then show ?thesis
    using inv ext run_finished_eq [of k r sp, folded sp1_def]
    by (auto simp: finished_stop_task_def supervisor_inv_defs list_all_ddel all_held_simps(3)
        distinct_delete length_remove1 split: sum.splits option.splits)
qed

lemma stop_flags_inv:
  "supervisor_inv sp \<Longrightarrow> supervisor_inv (sp\<lparr>sp_force := True\<rparr>)"
  "supervisor_inv sp \<Longrightarrow> sp_stopping sp \<Longrightarrow> supervisor_inv (sp\<lparr>sp_stop_task := True\<rparr>)"
  by (auto simp: supervisor_inv_defs)

lemma sup_stop_inv: "supervisor_inv sp \<Longrightarrow> supervisor_inv (sup_stop cancel sp)"
  by (auto simp: sup_stop_def Let_def intro!: stop_flags_inv soft_stop_inv enforce_all_inv)

lemma supervisor_step_inv: "supervisor_inv sp \<Longrightarrow> supervisor_step e sp = Some sp' \<Longrightarrow> supervisor_inv sp'"
proof (cases e)
  case SupStart
  moreover assume "supervisor_inv sp" "supervisor_step e sp = Some sp'"
  ultimately show ?thesis by (auto simp: answer_def sup_start_def supervisor_inv_defs split: if_splits)
next
  case (SupSubmit cl)
  moreover assume "supervisor_inv sp" "supervisor_step e sp = Some sp'"
  ultimately show ?thesis
    using reserve_inv [of sp "key_of cl" sp']
    by (auto simp: answer_def submit_def supervisor_inv_def phases_ok_def split: sum.splits if_splits)
next
  case (SupRunJob cl)
  moreover assume "supervisor_inv sp" "supervisor_step e sp = Some sp'"
  ultimately show ?thesis
    using reserve_inv [of sp "key_of cl" sp'] by (auto simp: answer_def run_job_def split: sum.splits if_splits)
next
  case (SupStop cancel)
  moreover assume "supervisor_inv sp" "supervisor_step e sp = Some sp'"
  ultimately show ?thesis by (auto simp: sup_stop_inv)
next
  case (SupEscalate timeout)
  moreover assume "supervisor_inv sp" "supervisor_step e sp = Some sp'"
  ultimately show ?thesis
    using enforce_all_inv [of sp] by (auto simp: stop_escalates_def supervisor_inv_def phases_ok_def split: if_splits)
next
  case SupEnds
  moreover assume "supervisor_inv sp" "supervisor_step e sp = Some sp'"
  ultimately show ?thesis by (auto simp: stop_ends_def supervisor_inv_defs split: if_splits)
qed (auto simp: soft_stop_inv run_updated_inv run_finished_inv register_run_inv split: if_splits)

lemma supervisor_run_inv: "supervisor_run es sp = Some sp' \<Longrightarrow> supervisor_inv sp \<Longrightarrow> supervisor_inv sp'"
  by (induction es arbitrary: sp) (auto simp: supervisor_step_inv split: Option.bind_splits)

text \<open>
  C26: at every moment of its life the supervisor runs at most as many jobs as its concurrency, never the
  same attempt twice, and every run that has a control block holds a slot; once it stops, it has
  cancelled the token of every run, and past the shutdown deadline it has cancelled every asynchronous
  handler that still runs.
\<close>

theorem slots_never_exceeded:
  assumes "supervisor_init sha reg wk ops pols = Inr sp0" and "worker_options_valid ops"
    and "supervisor_run es sp0 = Some sp"
  shows "active_slots sp \<le> wo_concurrency (sp_options sp) \<and> distinct (sp_active sp) \<and>
    (\<forall>k c. dget (sp_controls sp) k = Some c \<longrightarrow> k \<in> set (sp_active sp) \<and>
      (sp_stopping sp \<longrightarrow> tok_reason (rc_token c) \<noteq> None) \<and>
      (sp_deadline sp \<and> \<not> rc_is_sync c \<and> rc_handler c = Active \<longrightarrow> rc_handler_cancelled c))"
proof -
  have inv: "supervisor_inv sp"
    by (rule supervisor_run_inv [OF assms(3) supervisor_init_inv [OF assms(1,2)]])
  have "k \<in> set (sp_active sp) \<and> told_to_stop (sp_stopping sp) (sp_deadline sp) c"
    if "dget (sp_controls sp) k = Some c" for k c
    using inv that held_key [OF _ that] map_of_SomeD [OF that]
    by (auto simp: supervisor_inv_def slots_ok_def runs_told_def list_all_iff)
  then show ?thesis
    using inv by (auto simp: supervisor_inv_def slots_ok_def told_to_stop_def run_cancelled_def)
qed

text \<open>
  One asynchronous job is accepted and registered, a second one finds no slot, and the forced stop
  cancels the handler.
\<close>

definition sample_job :: "uuid \<Rightarrow> claimed_job" where
  "sample_job i = \<lparr>cj_job_id = i, cj_queue = ''q'', cj_job_type = ''t'', cj_priority = 100, cj_payload = [],
     cj_headers = [], cj_progress = None, cj_attempt_id = i + 1, cj_attempt_number = 1,
     cj_failure_count = 0, cj_max_attempts = 5, cj_lease_expires_at = 0, cj_lease_seconds = 60,
     cj_workflow_id = None, cj_step_key = None, cj_policy_hash = None\<rparr>"

definition sample_supervisor :: supervisor where
  "sample_supervisor = \<lparr>sp_options = default_worker_options, sp_accepting = False, sp_stopping = False,
     sp_stopped = False, sp_force = False, sp_deadline = False, sp_stop_task = False, sp_active = [],
     sp_controls = [], sp_unsafe = {}\<rparr>"

definition sample_stopping :: supervisor where
  "sample_stopping = sample_supervisor\<lparr>sp_stopping := True, sp_force := True, sp_deadline := True,
     sp_stop_task := True, sp_active := [(1, 2)],
     sp_controls := [((1, 2), (cancel_control SHUTDOWN (new_control False (sample_job 1)))
       \<lparr>rc_handler := Active, rc_shutdown_deadline := True, rc_handler_cancelled := True\<rparr>)]\<rparr>"

lemma sample_supervisor_init:
  "supervisor_init sha empty_registry ''w'' default_worker_options [] = Inr sample_supervisor"
  by (simp add: supervisor_init_def sample_supervisor_def validate_followup_graph_def registered_def
      empty_registry_def)

lemmas sample_supervisor_steps = answer_def sup_start_def submit_def reserve_def key_of_def sample_job_def
  free_slots_def active_slots_def default_worker_options_def register_run_def sup_stop_def
  begin_soft_stop_def enforce_all_deadlines_def enforce_shutdown_deadline_def new_control_def
  cancel_control_def cancel_handler_def mark_blocking_unsafe_def pending_blocking_def
  token_cancel_def new_token_def Let_def

lemma sample_supervisor_run:
  "supervisor_run [SupStart, SupSubmit (sample_job 1), SupRegister False (sample_job 1), SupStop True]
     sample_supervisor = Some sample_stopping"
  "supervisor_run [SupStart, SupSubmit (sample_job 1), SupSubmit (sample_job 2)] sample_supervisor = None"
  by (simp_all add: sample_supervisor_def sample_stopping_def sample_supervisor_steps)

theorem slots_never_exceeded_witness:
  "active_slots sample_stopping \<le> 1 \<and>
   (\<exists>c. dget (sp_controls sample_stopping) (1, 2) = Some c \<and> tok_reason (rc_token c) \<noteq> None \<and>
     rc_handler_cancelled c)"
proof -
  have "worker_options_valid default_worker_options"
    by (simp add: worker_options_valid_def default_worker_options_def between_def)
  note sound = slots_never_exceeded [OF sample_supervisor_init this sample_supervisor_run(1)]
  obtain c where c: "dget (sp_controls sample_stopping) (1, 2) = Some c" "\<not> rc_is_sync c" "rc_handler c = Active"
    by (simp add: sample_stopping_def cancel_control_def new_control_def)
  have "sp_stopping sample_stopping" "sp_deadline sample_stopping"
    "wo_concurrency (sp_options sample_stopping) = 1"
    by (simp_all add: sample_stopping_def sample_supervisor_def default_worker_options_def)
  then show ?thesis using sound c by metis
qed

section \<open>The slots a claimer relies on\<close>

text \<open>
  What the claim loop relies on: while slots are free, a job whose key is not taken is accepted and
  takes one slot.
\<close>

fun submit_each :: "('c \<Rightarrow> 's \<Rightarrow> exc + 's) \<Rightarrow> 'c list \<Rightarrow> 's \<Rightarrow> nat \<times> exc option \<times> 's" where
  "submit_each f [] s = (0, None, s)"
| "submit_each f (c # cs) s = (case f c s of
      Inl e \<Rightarrow> (0, Some e, s)
    | Inr s1 \<Rightarrow> (case submit_each f cs s1 of (n, e, s2) \<Rightarrow> (Suc n, e, s2)))"

locale job_slots =
  fixes accept :: "'c \<Rightarrow> 's \<Rightarrow> exc + 's" and free :: "'s \<Rightarrow> int" and taken :: "'s \<Rightarrow> 'k set"
    and key :: "'c \<Rightarrow> 'k"
  assumes accepts: "\<lbrakk>0 < free s; key c \<notin> taken s\<rbrakk> \<Longrightarrow>
      \<exists>s'. accept c s = Inr s' \<and> free s' = free s - 1 \<and> taken s' = insert (key c) (taken s)"
    and refuses: "free s \<le> 0 \<or> key c \<in> taken s \<Longrightarrow> \<exists>e. accept c s = Inl e"
begin

lemma all_accepted:
  "\<lbrakk>int (length cs) \<le> free s; distinct (map key cs); key ` set cs \<inter> taken s = {}\<rbrakk> \<Longrightarrow>
   \<exists>s'. submit_each accept cs s = (length cs, None, s') \<and> free s' = free s - int (length cs) \<and>
     taken s' = key ` set cs \<union> taken s"
proof (induction cs arbitrary: s)
  case (Cons c cs)
  then obtain s1 where s1: "accept c s = Inr s1" "free s1 = free s - 1" "taken s1 = insert (key c) (taken s)"
    using accepts [of s c] by auto
  then have "\<exists>s'. submit_each accept cs s1 = (length cs, None, s') \<and> free s' = free s1 - int (length cs) \<and>
      taken s' = key ` set cs \<union> taken s1"
    using Cons.prems by (intro Cons.IH) (auto simp: image_iff)
  then show ?case using s1 by auto
qed simp

lemma accepted_within: "fst (submit_each accept cs s) \<le> nat (free s)"
proof (induction cs arbitrary: s)
  case (Cons c cs)
  show ?case
  proof (cases "0 < free s \<and> key c \<notin> taken s")
    case True
    then obtain s1 where "accept c s = Inr s1" "free s1 = free s - 1" using accepts by metis
    moreover have "nat (free s) = Suc (nat (free s - 1))" using Suc_nat_eq_nat_zadd1 [of "free s - 1"] conjunct1 [OF True] by simp
    ultimately show ?thesis using Cons.IH [of s1] by (cases "submit_each accept cs s1") simp
  next
    case False
    then obtain e where "accept c s = Inl e" using refuses [of s c] by auto
    then show ?thesis by simp
  qed
qed simp

end

interpretation pool: job_slots submit available_slots "\<lambda>sp. set (sp_active sp)" key_of
proof
  show "\<exists>s'. submit c s = Inr s' \<and> available_slots s' = available_slots s - 1 \<and>
      set (sp_active s') = insert (key_of c) (set (sp_active s))"
    if "0 < available_slots s" "key_of c \<notin> set (sp_active s)" for s c
    using that by (auto simp: submit_def reserve_def available_slots_def free_slots_def active_slots_def
        split: if_splits)
  show "\<exists>e. submit c s = Inl e" if "available_slots s \<le> 0 \<or> key_of c \<in> set (sp_active s)" for s c
    using that by (auto simp: submit_def reserve_def available_slots_def free_slots_def split: if_splits)
qed

end
