(* ===== verification/WorkerService.thy ===== *)
theory WorkerService
  imports WorkerSupervisor
begin

text \<open>
  \<open>WorkerService\<close>: the loop that claims jobs for its supervisor, with its listener, its presence row and
  its stop.  Its tasks interleave only where they await, so the state has a program counter per task and
  an operation per stretch of code between two awaits.  Clock readings and random numbers in the unit
  interval are arguments.
\<close>

section \<open>State\<close>

datatype service_state =
  SV_CONSTRUCTED | SV_STARTING | SV_RUNNING | SV_DEGRADED | SV_STOPPING | SV_STOPPED | SV_FAILED

datatype wake = WakeInitial | WakeStop | WakeNudge | WakeDeadline

text \<open>
  The claim loop awaits a free slot, the answer to a claim (queue, batch, send instant, visits left in
  the sweep, whether the sweep has claimed), the next poll (delay, nudges ignored, generation seen), or
  the end of a quiet window.
\<close>

datatype claim_pc =
    ClaimOff
  | ClaimReady
  | ClaimWaits
  | ClaimAsks string int rat nat bool
  | ClaimPolls rat bool nat
  | ClaimQuiet rat
  | ClaimEnded

datatype start_pc = StartOff | StartWriting | StartListening | StartDone
datatype listener_pc = ListenOff | ListenConnecting | ListenWaiting | ListenSleeping | ListenEnded
datatype presence_pc = PresenceOff | PresenceSleeping | PresenceWriting | PresenceEnded
datatype stop_pc = StopIdle | StopScheduled | StopClaim | StopJobs | StopDone

record service =
  sv_options :: service_options
  sv_job_types :: "(string, string list) dict"
  sv_hashes :: "string list"
  sv_supervisor :: supervisor
  sv_state :: service_state
  sv_stop :: bool
  sv_stopped :: bool
  sv_fatal :: "exc option"
  sv_admission_closed :: bool
  sv_cancel_stop :: bool
  sv_listener :: bool
  sv_listener_attempted :: bool
  sv_presence_ok :: bool
  sv_generation :: nat
  sv_nudges :: nat
  sv_coalesces :: nat
  sv_event :: bool
  sv_start :: start_pc
  sv_claim :: claim_pc
  sv_listen :: listener_pc
  sv_backoff :: rat
  sv_connected_once :: bool
  sv_presence :: presence_pc
  sv_stop_task :: stop_pc
  sv_unseen :: "(exc + job_run_report) list"
  sv_queue_index :: nat
  sv_streaks :: "(string, nat) dict"
  sv_retry_at :: "(string, rat) dict"
  sv_idle_polls :: nat
  sv_fruitless :: nat
  sv_quiet_until :: rat
  sv_batch_target :: int
  sv_last_wake :: wake
  sv_sweeps :: nat
  sv_claimed :: nat
  sv_submitted :: nat
  sv_reconnects :: nat
  sv_presence_failures :: nat
  sv_started :: "rat option"
  sv_last_claim :: "rat option"
  sv_last_presence :: "rat option"

section \<open>Construction\<close>

definition bound_types :: "registry \<Rightarrow> string \<Rightarrow> string list" where
  "bound_types reg q =
     sort (map tk_name (filter (\<lambda>t. tk_queue t = q \<and> tk_handler t \<noteq> None) (registered reg)))"

definition bind_queue :: "registry \<Rightarrow> string \<Rightarrow> exc + string list" where
  "bind_queue reg q =
     (let names = bound_types reg q in
      if names = [] then Inl (ConfigError ''subscribed queue has no bound handlers'')
      else if length names > 20
      then Inl (ConfigError ''subscribed queue exceeds the 20 job-type claim limit'')
      else Inr names)"

definition service_of ::
  "service_options \<Rightarrow> string list list \<Rightarrow> string list \<Rightarrow> supervisor \<Rightarrow> service" where
  "service_of ops names hashes sp =
     \<lparr>sv_options = ops, sv_job_types = zip (so_queues ops) names, sv_hashes = hashes,
      sv_supervisor = sp, sv_state = SV_CONSTRUCTED, sv_stop = False, sv_stopped = False,
      sv_fatal = None, sv_admission_closed = False, sv_cancel_stop = False, sv_listener = False,
      sv_listener_attempted = False, sv_presence_ok = True, sv_generation = 0, sv_nudges = 0,
      sv_coalesces = 0, sv_event = False, sv_start = StartOff, sv_claim = ClaimOff,
      sv_listen = ListenOff, sv_backoff = so_listener_backoff_base ops, sv_connected_once = False,
      sv_presence = PresenceOff, sv_stop_task = StopIdle, sv_unseen = [], sv_queue_index = 0,
      sv_streaks = [], sv_retry_at = [], sv_idle_polls = 0, sv_fruitless = 0, sv_quiet_until = 0,
      sv_batch_target = (if so_adaptive_batch ops then 1 else so_batch ops),
      sv_last_wake = WakeInitial, sv_sweeps = 0, sv_claimed = 0, sv_submitted = 0, sv_reconnects = 0,
      sv_presence_failures = 0, sv_started = None, sv_last_claim = None, sv_last_presence = None\<rparr>"

definition service_init ::
  "(string \<Rightarrow> string) \<Rightarrow> registry \<Rightarrow> string \<Rightarrow> service_options \<Rightarrow> worker_options option \<Rightarrow> bool \<Rightarrow>
   compiled_policy list \<Rightarrow> exc + service" where
  "service_init sha reg wk ops sup_ops has_notifications policies =
     (let wops = (case sup_ops of None \<Rightarrow> default_worker_options | Some x \<Rightarrow> x);
          hashes = sort (map cp_hash policies) in
      if so_listen ops \<and> \<not> has_notifications
      then Inl (ConfigError ''listen=True requires a notification source'')
      else if so_batch ops > wo_concurrency wops
      then Inl (ConfigError ''batch cannot exceed worker concurrency'')
      else if \<not> distinct hashes
      then Inl (ConfigError ''continuation policies must have distinct hashes'')
      else if length hashes > max_policy_hashes
      then Inl (ConfigError ''workers support at most 32 continuation policies'')
      else ebind (traverse (bind_queue reg) (so_queues ops)) (\<lambda>names.
           ebind (supervisor_init sha reg wk wops policies) (\<lambda>sp.
             Inr (service_of ops names hashes sp))))"

section \<open>Nudges, failure and state\<close>

definition nudge :: "service \<Rightarrow> service" where
  "nudge s = s\<lparr>sv_coalesces := (if sv_event s then sv_coalesces s + 1 else sv_coalesces s),
     sv_generation := sv_generation s + 1, sv_nudges := sv_nudges s + 1, sv_event := True\<rparr>"

definition ensure_stop_task :: "service \<Rightarrow> service" where
  "ensure_stop_task s = (if sv_stop_task s = StopIdle then s\<lparr>sv_stop_task := StopScheduled\<rparr> else s)"

definition request_stop :: "service \<Rightarrow> service" where
  "request_stop s = ensure_stop_task (nudge (s\<lparr>sv_stop := True\<rparr>))"

definition fail_service :: "exc \<Rightarrow> service \<Rightarrow> service" where
  "fail_service e s = request_stop
     (s\<lparr>sv_fatal := (if sv_fatal s = None then Some e else sv_fatal s), sv_state := SV_FAILED\<rparr>)"

definition invariant_error :: exc where
  "invariant_error = PyException ''WorkerInvariantError''"

text \<open>
  The callback of a finished job.  The report's \<open>settlement_outcome\<close> is declared \<open>str | None\<close>, so a value
  is a plain string, and reading its \<open>value\<close> raises in the callback, which the event loop only logs.
\<close>

definition observe_job :: "exc + job_run_report \<Rightarrow> service \<Rightarrow> service" where
  "observe_job r s = (case r of
      Inl e \<Rightarrow> if e = PyException ''CancelledError'' then s else fail_service e s
    | Inr rep \<Rightarrow>
        if rp_fatal rep
        then if rp_settled_as rep \<noteq> None then s else fail_service invariant_error s
        else if rp_outcome rep = RO_UNSUPPORTED_CONTINUATION_POLICY then request_stop s
        else s)"

definition refresh_running_state :: "service \<Rightarrow> service" where
  "refresh_running_state s =
     (if sv_state s \<in> {SV_CONSTRUCTED, SV_STOPPING, SV_STOPPED, SV_FAILED} then s
      else if (so_listen (sv_options s) \<and> \<not> sv_listener s) \<or> \<not> sv_presence_ok s
      then s\<lparr>sv_state := SV_DEGRADED\<rparr> else s\<lparr>sv_state := SV_RUNNING\<rparr>)"

definition ready :: "service \<Rightarrow> bool" where
  "ready s \<longleftrightarrow> sv_state s = SV_RUNNING"

definition claim_job_types :: "string \<Rightarrow> service \<Rightarrow> exc + string list" where
  "claim_job_types q s = (case dget (sv_job_types s) q of
      None \<Rightarrow> Inl (ConfigError ''worker is not subscribed to queue'')
    | Some names \<Rightarrow> Inr names)"

record service_snapshot =
  sn_state :: service_state
  sn_ready :: bool
  sn_queues :: "string list"
  sn_listener_requested :: bool
  sn_listener_connected :: bool
  sn_presence_healthy :: bool
  sn_available_slots :: int
  sn_active_slots :: int
  sn_counters :: "nat list"
  sn_started :: "rat option"
  sn_claim_age :: "rat option"
  sn_presence_age :: "rat option"
  sn_fatal :: bool

definition snapshot :: "rat \<Rightarrow> service \<Rightarrow> service_snapshot" where
  "snapshot now s =
     (let age = map_option (\<lambda>t. max 0 (now - t)); sp = sv_supervisor s in
      \<lparr>sn_state = sv_state s, sn_ready = ready s, sn_queues = so_queues (sv_options s),
       sn_listener_requested = so_listen (sv_options s), sn_listener_connected = sv_listener s,
       sn_presence_healthy = sv_presence_ok s, sn_available_slots = available_slots sp,
       sn_active_slots = active_slots sp,
       sn_counters = [sv_sweeps s, sv_claimed s, sv_submitted s, sv_nudges s, sv_coalesces s,
         sv_reconnects s, sv_presence_failures s],
       sn_started = sv_started s, sn_claim_age = age (sv_last_claim s),
       sn_presence_age = age (sv_last_presence s), sn_fatal = (sv_fatal s \<noteq> None)\<rparr>)"

section \<open>Start, presence and listener\<close>

definition start_begins :: "rat \<Rightarrow> service \<Rightarrow> service option" where
  "start_begins now s =
     (if sv_state s \<noteq> SV_CONSTRUCTED \<or> sv_start s \<noteq> StartOff then None
      else Some (s\<lparr>sv_state := SV_STARTING, sv_started := Some now, sv_start := StartWriting\<rparr>))"

text \<open>\<open>_write_presence\<close> when its call has an answer: the state, and whether a shutdown was requested.\<close>

definition presence_written :: "exc + bool \<Rightarrow> rat \<Rightarrow> service \<Rightarrow> service \<times> bool" where
  "presence_written ans now s = (case ans of
      Inl e \<Rightarrow> (refresh_running_state (s\<lparr>sv_presence_ok := False,
        sv_presence_failures := sv_presence_failures s + 1\<rparr>), False)
    | Inr shutdown \<Rightarrow> (refresh_running_state (s\<lparr>sv_presence_ok := True,
        sv_last_presence := Some now\<rparr>), shutdown))"

text \<open>The end of \<open>start\<close>, which creates the presence and the claim tasks.\<close>

definition start_ends :: "service \<Rightarrow> service" where
  "start_ends s = (refresh_running_state s)
     \<lparr>sv_presence := (if sv_stop s then PresenceEnded else PresenceSleeping),
      sv_claim := ClaimReady, sv_start := StartDone\<rparr>"

definition start_written :: "exc + bool \<Rightarrow> rat \<Rightarrow> service \<Rightarrow> service option" where
  "start_written ans now s =
     (if sv_start s \<noteq> StartWriting then None
      else case presence_written ans now s of (s1, shutdown) \<Rightarrow>
        if shutdown then Some (ensure_stop_task (s1\<lparr>sv_stop := True, sv_start := StartDone\<rparr>))
        else (case sup_start (sv_supervisor s1) of
          Inl e \<Rightarrow> Some (s1\<lparr>sv_start := StartDone\<rparr>)
        | Inr sp \<Rightarrow>
            let s2 = s1\<lparr>sv_supervisor := sp\<rparr> in
            Some (if so_listen (sv_options s2)
              then s2\<lparr>sv_start := StartListening,
                sv_listen := (if sv_stop s2 then ListenEnded else ListenConnecting)\<rparr>
              else start_ends s2)))"

definition start_listened :: "service \<Rightarrow> service option" where
  "start_listened s = (if sv_start s = StartListening \<and> sv_listener_attempted s
     then Some (start_ends s) else None)"

definition presence_due :: "service \<Rightarrow> service option" where
  "presence_due s = (if sv_presence s \<noteq> PresenceSleeping then None
     else Some (s\<lparr>sv_presence := (if sv_stop s then PresenceEnded else PresenceWriting)\<rparr>))"

definition presence_answered :: "exc + bool \<Rightarrow> rat \<Rightarrow> service \<Rightarrow> service option" where
  "presence_answered ans now s =
     (if sv_presence s \<noteq> PresenceWriting then None
      else case presence_written ans now s of (s1, shutdown) \<Rightarrow>
        Some (if shutdown then request_stop (s1\<lparr>sv_presence := PresenceEnded\<rparr>)
          else s1\<lparr>sv_presence := (if sv_stop s1 then PresenceEnded else PresenceSleeping)\<rparr>))"

definition listener_connected :: "service \<Rightarrow> service option" where
  "listener_connected s =
     (if sv_listen s \<noteq> ListenConnecting then None
      else Some (refresh_running_state (nudge (s\<lparr>sv_listener := True,
        sv_reconnects := (if sv_connected_once s then sv_reconnects s + 1 else sv_reconnects s),
        sv_connected_once := True, sv_backoff := so_listener_backoff_base (sv_options s),
        sv_listener_attempted := True, sv_listen := ListenWaiting\<rparr>))))"

text \<open>
  The connection attempt raises, or the connection is lost, with or without an exception; then the
  loop ends or backs off.
\<close>

definition listener_lost :: "bool \<Rightarrow> service \<Rightarrow> service option" where
  "listener_lost raised s =
     (if sv_listen s = ListenWaiting \<or> (sv_listen s = ListenConnecting \<and> raised)
      then Some (refresh_running_state (s\<lparr>sv_listener := False,
        sv_listener_attempted := sv_listener_attempted s \<or> raised,
        sv_listen := (if sv_stop s then ListenEnded else ListenSleeping)\<rparr>))
      else None)"

definition listener_retries :: "service \<Rightarrow> service option" where
  "listener_retries s =
     (if sv_listen s \<noteq> ListenSleeping then None
      else Some (s\<lparr>sv_backoff := min (sv_backoff s * 2) (so_listener_backoff_cap (sv_options s)),
        sv_listen := (if sv_stop s then ListenEnded else ListenConnecting)\<rparr>))"

section \<open>The claim loop\<close>

definition effective_batch :: "service \<Rightarrow> int" where
  "effective_batch s = (if so_adaptive_batch (sv_options s) then sv_batch_target s else so_batch (sv_options s))"

definition observe_claim_result :: "int \<Rightarrow> int \<Rightarrow> service \<Rightarrow> service" where
  "observe_claim_result got asked s =
     (if \<not> so_adaptive_batch (sv_options s) then s
      else if got \<ge> asked \<and> got > 0
      then s\<lparr>sv_batch_target := min (sv_batch_target s * 2) (so_batch (sv_options s))\<rparr>
      else if got = 0 then s\<lparr>sv_batch_target := max 1 (sv_batch_target s div 2)\<rparr>
      else s)"

definition error_threshold :: "taskq_error \<Rightarrow> service \<Rightarrow> int option" where
  "error_threshold e s = (if err_code e = UNAVAILABLE
     then so_unavailable_fatal_threshold (sv_options s) else Some (so_claim_fatal_threshold (sv_options s)))"

definition claim_streak :: "string \<Rightarrow> service \<Rightarrow> nat" where
  "claim_streak q s = (case dget (sv_streaks s) q of None \<Rightarrow> 0 | Some n \<Rightarrow> n)"

definition claim_backoff :: "nat \<Rightarrow> rat \<Rightarrow> service \<Rightarrow> rat" where
  "claim_backoff streak random s =
     min (so_claim_backoff_base (sv_options s) * 2 ^ min (streak - 1) 20) (so_claim_backoff_cap (sv_options s)) *
     (1 / 2 + random)"

definition note_claim_error :: "string \<Rightarrow> taskq_error \<Rightarrow> rat \<Rightarrow> rat \<Rightarrow> service \<Rightarrow> service" where
  "note_claim_error q e now random s =
     (let streak = claim_streak q s + 1; s1 = s\<lparr>sv_streaks := dset q streak (sv_streaks s)\<rparr> in
      if (case error_threshold e s of None \<Rightarrow> False | Some n \<Rightarrow> int streak \<ge> n)
      then fail_service (TaskqError e) s1
      else s1\<lparr>sv_retry_at := dset q (now + claim_backoff streak random s) (sv_retry_at s1)\<rparr>)"

definition throttle_pause :: "claim_result \<Rightarrow> rat \<Rightarrow> rat" where
  "throttle_pause res random = of_int (max 1 (or_int (cr_retry_after res) 1)) * (1 + random * (3 / 10))"

definition paused_pause :: "service_options \<Rightarrow> claim_result \<Rightarrow> rat \<Rightarrow> rat" where
  "paused_pause ops res random =
     (let delay = max (so_paused_poll_interval ops) (of_int (or_int (cr_retry_after res) 0)) in
      if so_poll_jitter ops > 0 then delay * (1 + random * so_poll_jitter ops) else delay)"

text \<open>The jobs of a claim are submitted one by one; an exception leaves those before it running.\<close>

definition jobs_claimed :: "claimed_job list \<Rightarrow> int \<Rightarrow> rat \<Rightarrow> service \<Rightarrow> (exc + bool) \<times> service" where
  "jobs_claimed js batch now s =
     (if int (length js) > batch then (Inl invariant_error, s)
      else case submit_each submit js (sv_supervisor s) of (n, e, sp) \<Rightarrow>
        let s1 = s\<lparr>sv_supervisor := sp, sv_submitted := sv_submitted s + n\<rparr> in
        (case e of
          Some e \<Rightarrow> (Inl e, s1)
        | None \<Rightarrow> (Inr True, observe_claim_result (int (length js)) batch
            (s1\<lparr>sv_claimed := sv_claimed s1 + length js, sv_last_claim := Some now\<rparr>))))"

definition queue_answers :: "string \<Rightarrow> service \<Rightarrow> service" where
  "queue_answers q s = s\<lparr>sv_streaks := ddel q (sv_streaks s), sv_retry_at := ddel q (sv_retry_at s),
     sv_sweeps := sv_sweeps s + 1\<rparr>"

definition rest_queue :: "string \<Rightarrow> rat \<Rightarrow> service \<Rightarrow> service" where
  "rest_queue q u s = s\<lparr>sv_retry_at := dset q u (sv_retry_at s)\<rparr>"

definition act_on_claim ::
  "string \<Rightarrow> int \<Rightarrow> claim_result \<Rightarrow> rat \<Rightarrow> rat \<Rightarrow> service \<Rightarrow> (exc + bool) \<times> service" where
  "act_on_claim q batch res now random s = (case cr_state res of
      CLAIMED \<Rightarrow> jobs_claimed (cr_jobs res) batch now s
    | CLAIM_EMPTY \<Rightarrow> (Inr False, observe_claim_result 0 batch s)
    | THROTTLED \<Rightarrow> (Inr False, rest_queue q (now + throttle_pause res random) s)
    | PAUSED_QUEUE \<Rightarrow> (Inr False, observe_claim_result 0 batch
        (rest_queue q (now + paused_pause (sv_options s) res random) s))
    | UNKNOWN_QUEUE \<Rightarrow> (Inl invariant_error, s)
    | CLAIM_UNAVAILABLE \<Rightarrow> (Inl invariant_error, s))"

text \<open>The answer to a claim: the loop's exception, or whether jobs were claimed.\<close>

definition claim_answered ::
  "string \<Rightarrow> int \<Rightarrow> exc + claim_result \<Rightarrow> rat \<Rightarrow> rat \<Rightarrow> service \<Rightarrow> (exc + bool) \<times> service" where
  "claim_answered q batch ans now random s = (case ans of
      Inr res \<Rightarrow> act_on_claim q batch res now random (queue_answers q s)
    | Inl e \<Rightarrow> (case e of
        TaskqError x \<Rightarrow> (Inr False, note_claim_error q x now random s)
      | _ \<Rightarrow> (Inl e, s)))"

text \<open>The readings of the clock and the random number in one stretch of the loop.\<close>

record claim_turn =
  ct_clock :: "nat \<Rightarrow> rat"
  ct_again :: "nat \<Rightarrow> rat"
  ct_now :: rat
  ct_random :: rat

text \<open>
  The next queue of a sweep, in rotation, that is not backing off; with the visits left after it.
\<close>

fun pick_queue :: "nat \<Rightarrow> (nat \<Rightarrow> rat) \<Rightarrow> service \<Rightarrow> (nat \<times> string) option \<times> service" where
  "pick_queue 0 clk s = (None, s)"
| "pick_queue (Suc n) clk s =
     (if sv_stop s \<or> available_slots (sv_supervisor s) = 0 then (None, s)
      else let qs = so_queues (sv_options s); q = qs ! sv_queue_index s;
             s1 = s\<lparr>sv_queue_index := (sv_queue_index s + 1) mod length qs\<rparr> in
        if (case dget (sv_retry_at s1) q of None \<Rightarrow> 0 | Some u \<Rightarrow> u) > clk n
        then pick_queue n clk s1
        else (Some (n, q), s1))"

definition ask :: "nat \<Rightarrow> string \<Rightarrow> rat \<Rightarrow> bool \<Rightarrow> service \<Rightarrow> service" where
  "ask n q sent claimed s = s\<lparr>sv_claim := ClaimAsks q
     (min (effective_batch s) (available_slots (sv_supervisor s))) sent n claimed\<rparr>"

text \<open>\<open>_wait_for_poll_or_nudge\<close> up to its wait.\<close>

definition backing_off :: "rat \<Rightarrow> service \<Rightarrow> rat list" where
  "backing_off now s = filter (\<lambda>u. u > now) (dvalues (sv_retry_at s))"

definition all_backing_off :: "rat \<Rightarrow> service \<Rightarrow> bool" where
  "all_backing_off now s \<longleftrightarrow> 0 < length (so_queues (sv_options s)) \<and>
     length (so_queues (sv_options s)) = length (backing_off now s)"

definition idle_delay :: "rat \<Rightarrow> service \<Rightarrow> rat" where
  "idle_delay random s =
     (let ops = sv_options s;
          delay = (if so_idle_poll_cap ops > 0 \<and> sv_idle_polls s > 0 \<and> sv_listener s
            then min (so_poll_interval ops * 2 ^ min (sv_idle_polls s) 16)
                   (max (so_idle_poll_cap ops) (so_poll_interval ops))
            else so_poll_interval ops)
      in if so_poll_jitter ops > 0 then delay * (1 + (2 * random - 1) * so_poll_jitter ops) else delay)"

definition begin_poll :: "claim_turn \<Rightarrow> service \<Rightarrow> service" where
  "begin_poll t s =
     (let now = ct_now t in
      if all_backing_off now s
      then s\<lparr>sv_claim := ClaimPolls (max (1 / 100) (Min (set (backing_off now s)) - now)) True (sv_generation s)\<rparr>
      else s\<lparr>sv_claim := ClaimPolls (idle_delay (ct_random t) s) False (sv_generation s)\<rparr>)"

definition claim_ends :: "service \<Rightarrow> service" where
  "claim_ends s = s\<lparr>sv_claim := ClaimEnded\<rparr>"

text \<open>A sweep from its first visit, of the queues in \<open>clk\<close>'s time; without a claim it ends in a poll.\<close>

definition fresh_sweep :: "(nat \<Rightarrow> rat) \<Rightarrow> claim_turn \<Rightarrow> service \<Rightarrow> service" where
  "fresh_sweep clk t s = (case pick_queue (length (so_queues (sv_options s))) clk s of
      (Some (n, q), s1) \<Rightarrow> ask n q (ct_now t) False s1
    | (None, s1) \<Rightarrow> begin_poll t s1)"

text \<open>The \<open>while\<close> of the claim loop.\<close>

definition claim_top :: "claim_turn \<Rightarrow> service \<Rightarrow> service" where
  "claim_top t s =
     (if sv_stop s then claim_ends s
      else if available_slots (sv_supervisor s) = 0 then s\<lparr>sv_claim := ClaimWaits\<rparr>
      else fresh_sweep (ct_again t) t s)"

definition quiet_window :: "service \<Rightarrow> rat" where
  "quiet_window s = min (so_nudge_quiet_base (sv_options s) * 2 ^ (sv_fruitless s - 1))
     (so_nudge_quiet_cap (sv_options s))"

definition sweep_over :: "bool \<Rightarrow> claim_turn \<Rightarrow> service \<Rightarrow> service" where
  "sweep_over claimed t s =
     (if claimed
      then let s1 = s\<lparr>sv_idle_polls := 0, sv_fruitless := 0, sv_quiet_until := 0\<rparr> in
        if available_slots (sv_supervisor s1) > 0 then claim_top t s1 else begin_poll t s1
      else if sv_last_wake s = WakeNudge
      then let s1 = s\<lparr>sv_fruitless := sv_fruitless s + 1\<rparr> in
        begin_poll t (s1\<lparr>sv_quiet_until := ct_now t + quiet_window s1\<rparr>)
      else if sv_last_wake s = WakeDeadline \<and> sv_listener s
      then begin_poll t (s\<lparr>sv_idle_polls := sv_idle_polls s + 1\<rparr>)
      else begin_poll t s)"

definition sweep_goes_on :: "nat \<Rightarrow> bool \<Rightarrow> claim_turn \<Rightarrow> service \<Rightarrow> service" where
  "sweep_goes_on n claimed t s = (case pick_queue n (ct_clock t) s of
      (Some (n', q), s1) \<Rightarrow> ask n' q (ct_now t) claimed s1
    | (None, s1) \<Rightarrow> sweep_over claimed t s1)"

section \<open>What resumes the claim loop\<close>

definition claim_starts :: "claim_turn \<Rightarrow> service \<Rightarrow> service option" where
  "claim_starts t s = (if sv_claim s = ClaimReady then Some (claim_top t s) else None)"

definition claim_resumes :: "exc + claim_result \<Rightarrow> claim_turn \<Rightarrow> service \<Rightarrow> service option" where
  "claim_resumes ans t s = (case sv_claim s of
      ClaimAsks q batch sent n claimed \<Rightarrow>
        (case claim_answered q batch ans (ct_now t) (ct_random t) s of
          (Inl e, s1) \<Rightarrow> Some (claim_ends (fail_service e s1))
        | (Inr c, s1) \<Rightarrow> Some (sweep_goes_on n (claimed \<or> c) t s1))
    | _ \<Rightarrow> None)"

definition capacity_resumes :: "claim_turn \<Rightarrow> service \<Rightarrow> service option" where
  "capacity_resumes t s =
     (if sv_claim s = ClaimWaits \<and> (sv_stop s \<or> capacity_over (sv_supervisor s))
      then Some (if sv_stop s then claim_ends s else fresh_sweep (ct_clock t) t s) else None)"

text \<open>The poll ends by the stop, a nudge or its deadline; a nudge in a quiet window is deferred.\<close>

definition wake_possible :: "wake \<Rightarrow> bool \<Rightarrow> nat \<Rightarrow> service \<Rightarrow> bool" where
  "wake_possible w ignore gen s = (case w of
      WakeStop \<Rightarrow> sv_stop s
    | WakeNudge \<Rightarrow> \<not> ignore \<and> sv_generation s \<noteq> gen
    | WakeDeadline \<Rightarrow> True
    | WakeInitial \<Rightarrow> False)"

definition poll_resumes :: "wake \<Rightarrow> claim_turn \<Rightarrow> service \<Rightarrow> service option" where
  "poll_resumes w t s = (case sv_claim s of
      ClaimPolls delay ignore gen \<Rightarrow>
        if \<not> wake_possible w ignore gen s then None
        else if w = WakeNudge
        then let s1 = s\<lparr>sv_idle_polls := 0\<rparr>; remaining = sv_quiet_until s1 - ct_now t in
          Some (if remaining > 0 \<and> \<not> sv_stop s1 then s1\<lparr>sv_claim := ClaimQuiet remaining\<rparr>
            else claim_top t (s1\<lparr>sv_last_wake := w\<rparr>))
        else Some (claim_top t (s\<lparr>sv_last_wake := w\<rparr>))
    | _ \<Rightarrow> None)"

definition quiet_resumes :: "claim_turn \<Rightarrow> service \<Rightarrow> service option" where
  "quiet_resumes t s = (case sv_claim s of
      ClaimQuiet remaining \<Rightarrow> Some (claim_top t (s\<lparr>sv_last_wake := WakeNudge\<rparr>))
    | _ \<Rightarrow> None)"

text \<open>The waiter of a poll clears the event when it runs and nothing has changed.\<close>

definition waiter_runs :: "service \<Rightarrow> service option" where
  "waiter_runs s = (case sv_claim s of
      ClaimPolls delay ignore gen \<Rightarrow>
        if \<not> ignore \<and> sv_generation s = gen then Some (s\<lparr>sv_event := False\<rparr>) else None
    | _ \<Rightarrow> None)"

section \<open>Stop\<close>

definition service_stop :: "bool \<Rightarrow> service \<Rightarrow> service" where
  "service_stop cancel s =
     (if sv_state s = SV_CONSTRUCTED then s\<lparr>sv_state := SV_STOPPED, sv_stopped := True\<rparr>
      else let s1 = s\<lparr>sv_cancel_stop := sv_cancel_stop s \<or> cancel\<rparr> in
        if sv_stop_task s1 = StopIdle then s1\<lparr>sv_stop_task := StopScheduled\<rparr>
        else if cancel \<and> sv_admission_closed s1
        then s1\<lparr>sv_supervisor := sup_stop True (sv_supervisor s1)\<rparr>
        else s1)"

definition stop_begins :: "service \<Rightarrow> service option" where
  "stop_begins s = (if sv_stop_task s = StopScheduled
     then Some (nudge (s\<lparr>sv_state := SV_STOPPING, sv_stop := True, sv_stop_task := StopClaim\<rparr>)) else None)"

text \<open>With \<open>cancel_inflight_claim_on_stop\<close> the claim task is cancelled where it awaits.\<close>

definition claim_cancelled :: "service \<Rightarrow> service option" where
  "claim_cancelled s =
     (if sv_stop_task s = StopClaim \<and> so_cancel_inflight_claim (sv_options s) \<and> sv_claim s \<noteq> ClaimOff
      then Some (claim_ends s) else None)"

definition stop_admission :: "service \<Rightarrow> service option" where
  "stop_admission s =
     (if sv_stop_task s = StopClaim \<and> (sv_claim s = ClaimOff \<or> sv_claim s = ClaimEnded)
      then Some (s\<lparr>sv_admission_closed := True, sv_supervisor := sup_stop (sv_cancel_stop s) (sv_supervisor s),
        sv_stop_task := StopJobs\<rparr>)
      else None)"

definition stop_finishes :: "service \<Rightarrow> service option" where
  "stop_finishes s =
     (if sv_stop_task s = StopJobs \<and> sp_stopped (sv_supervisor s)
      then Some (s\<lparr>sv_listener := False, sv_state := SV_STOPPED, sv_stopped := True, sv_stop_task := StopDone,
        sv_presence := (if sv_presence s = PresenceOff then PresenceOff else PresenceEnded),
        sv_listen := (if sv_listen s = ListenOff then ListenOff else ListenEnded)\<rparr>)
      else None)"

section \<open>Jobs\<close>

definition job_finishes :: "job_key \<Rightarrow> exc + job_run_report \<Rightarrow> service \<Rightarrow> service option" where
  "job_finishes k r s =
     (if may_finish k r (sv_supervisor s)
      then Some (s\<lparr>sv_supervisor := run_finished k r (sv_supervisor s), sv_unseen := sv_unseen s @ [r]\<rparr>)
      else None)"

definition job_observed :: "service \<Rightarrow> service option" where
  "job_observed s = (case sv_unseen s of
      [] \<Rightarrow> None | r # rs \<Rightarrow> Some (observe_job r (s\<lparr>sv_unseen := rs\<rparr>)))"

end
