(* ===== verification/WorkerServiceRun.thy ===== *)
theory WorkerServiceRun
  imports WorkerService
begin

text \<open>
  The service as a state machine: every stretch of its tasks, of the runs of its jobs and of its callers
  is an event, and what every reachable state satisfies is proved once by rule induction.
\<close>

section \<open>Events\<close>

datatype service_event =
    EvStart rat
  | EvStartWritten "exc + bool" rat
  | EvStartListened
  | EvPresenceDue
  | EvPresenceAnswered "exc + bool" rat
  | EvListenerConnected
  | EvListenerLost bool
  | EvListenerRetries
  | EvNudge
  | EvClaimStarts claim_turn
  | EvClaimAnswered "exc + claim_result" claim_turn
  | EvCapacity claim_turn
  | EvPollOver wake claim_turn
  | EvQuietOver claim_turn
  | EvWaiter
  | EvStop bool
  | EvStopBegins
  | EvClaimCancelled
  | EvStopAdmission
  | EvStopFinishes
  | EvJobRegisters bool claimed_job
  | EvJobUpdated job_key run_update
  | EvJobSoftStop
  | EvJobFinishes job_key "exc + job_run_report"
  | EvJobObserved
  | EvStopEscalates bool
  | EvSupervisorStops

definition with_supervisor :: "supervisor_event \<Rightarrow> service \<Rightarrow> service option" where
  "with_supervisor e s = map_option (\<lambda>sp. s\<lparr>sv_supervisor := sp\<rparr>) (supervisor_step e (sv_supervisor s))"

fun service_step :: "service_event \<Rightarrow> service \<Rightarrow> service option" where
  "service_step (EvStart now) s = start_begins now s"
| "service_step (EvStartWritten ans now) s = start_written ans now s"
| "service_step EvStartListened s = start_listened s"
| "service_step EvPresenceDue s = presence_due s"
| "service_step (EvPresenceAnswered ans now) s = presence_answered ans now s"
| "service_step EvListenerConnected s = listener_connected s"
| "service_step (EvListenerLost raised) s = listener_lost raised s"
| "service_step EvListenerRetries s = listener_retries s"
| "service_step EvNudge s = Some (nudge s)"
| "service_step (EvClaimStarts t) s = claim_starts t s"
| "service_step (EvClaimAnswered ans t) s = claim_resumes ans t s"
| "service_step (EvCapacity t) s = capacity_resumes t s"
| "service_step (EvPollOver w t) s = poll_resumes w t s"
| "service_step (EvQuietOver t) s = quiet_resumes t s"
| "service_step EvWaiter s = waiter_runs s"
| "service_step (EvStop cancel) s = Some (service_stop cancel s)"
| "service_step EvStopBegins s = stop_begins s"
| "service_step EvClaimCancelled s = claim_cancelled s"
| "service_step EvStopAdmission s = stop_admission s"
| "service_step EvStopFinishes s = stop_finishes s"
| "service_step (EvJobRegisters is_sync cl) s = with_supervisor (SupRegister is_sync cl) s"
| "service_step (EvJobUpdated k x) s = with_supervisor (SupUpdate k x) s"
| "service_step EvJobSoftStop s = (if sp_active (sv_supervisor s) = [] then None else with_supervisor SupSoftStop s)"
| "service_step (EvJobFinishes k r) s = job_finishes k r s"
| "service_step EvJobObserved s = job_observed s"
| "service_step (EvStopEscalates timeout) s = with_supervisor (SupEscalate timeout) s"
| "service_step EvSupervisorStops s = with_supervisor SupEnds s"

text \<open>Random numbers lie in the unit interval.\<close>

definition turn_ok :: "claim_turn \<Rightarrow> bool" where
  "turn_ok t \<longleftrightarrow> 0 \<le> ct_random t \<and> ct_random t \<le> 1"

fun event_ok :: "service_event \<Rightarrow> bool" where
  "event_ok (EvClaimStarts t) = turn_ok t"
| "event_ok (EvClaimAnswered ans t) = turn_ok t"
| "event_ok (EvCapacity t) = turn_ok t"
| "event_ok (EvPollOver w t) = turn_ok t"
| "event_ok (EvQuietOver t) = turn_ok t"
| "event_ok e = True"

inductive service_reaches :: "service \<Rightarrow> service \<Rightarrow> bool" for s0 where
  reach_start: "service_reaches s0 s0"
| reach_step: "\<lbrakk>service_reaches s0 s; event_ok e; service_step e s = Some s'\<rbrakk> \<Longrightarrow> service_reaches s0 s'"

section \<open>The invariant\<close>

definition claim_ok :: "service \<Rightarrow> bool" where
  "claim_ok s \<longleftrightarrow> (case sv_claim s of
      ClaimAsks q batch sent n claimed \<Rightarrow> q \<in> set (so_queues (sv_options s)) \<and> 1 \<le> batch \<and>
        batch \<le> so_batch (sv_options s) \<and>
        (sp_accepting (sv_supervisor s) \<longrightarrow> batch \<le> available_slots (sv_supervisor s))
    | ClaimPolls delay ignore gen \<Rightarrow> 0 < delay \<and> (\<not> ignore \<longrightarrow>
        delay \<le> max (so_poll_interval (sv_options s)) (so_idle_poll_cap (sv_options s)) *
          (1 + so_poll_jitter (sv_options s)))
    | _ \<Rightarrow> True)"

definition pacing_ok :: "service \<Rightarrow> bool" where
  "pacing_ok s \<longleftrightarrow> sv_queue_index s < length (so_queues (sv_options s)) \<and>
     1 \<le> sv_batch_target s \<and> sv_batch_target s \<le> so_batch (sv_options s)"

definition failure_ok :: "service \<Rightarrow> bool" where
  "failure_ok s \<longleftrightarrow>
     (sv_fatal s \<noteq> None \<longrightarrow> sv_stop s \<and> sv_stop_task s \<noteq> StopIdle \<and>
        sv_state s \<in> {SV_FAILED, SV_STOPPING, SV_STOPPED})"

definition start_ok :: "service \<Rightarrow> bool" where
  "start_ok s \<longleftrightarrow> (sv_start s \<noteq> StartDone \<longrightarrow> sv_claim s = ClaimOff)"

definition service_inv :: "service \<Rightarrow> bool" where
  "service_inv s \<longleftrightarrow> service_options_valid (sv_options s) \<and> supervisor_inv (sv_supervisor s) \<and>
     pacing_ok s \<and> failure_ok s \<and> claim_ok s \<and> start_ok s"

section \<open>What the supervisor's events change\<close>

definition slots_grow :: "supervisor \<Rightarrow> supervisor \<Rightarrow> bool" where
  "slots_grow sp sp' \<longleftrightarrow> (sp_accepting sp' \<longrightarrow> sp_accepting sp \<and> available_slots sp \<le> available_slots sp')"

fun takes_slot :: "supervisor_event \<Rightarrow> bool" where
  "takes_slot SupStart = True"
| "takes_slot (SupSubmit cl) = True"
| "takes_slot (SupRunJob cl) = True"
| "takes_slot e = False"

lemma slots_grow_soft_stop: "\<not> sp_accepting sp' \<Longrightarrow> slots_grow sp sp'"
  by (simp add: slots_grow_def)

lemma slots_grow_same:
  "sp_accepting sp' = sp_accepting sp \<Longrightarrow> length (sp_active sp') \<le> length (sp_active sp) \<Longrightarrow>
   sp_options sp' = sp_options sp \<Longrightarrow> slots_grow sp sp'"
  by (auto simp: slots_grow_def available_slots_def free_slots_def active_slots_def)

lemma sup_stop_grows: "slots_grow sp (sup_stop cancel sp)"
  by (simp add: slots_grow_def sup_stop_def Let_def)

lemma run_finished_grows: "slots_grow sp (run_finished k r sp)"
  by (auto simp: run_finished_eq Let_def slots_grow_def available_slots_def free_slots_def
      active_slots_def length_remove1)

lemma update_run_fields [simp]:
  "sp_accepting (update_run k f sp) = sp_accepting sp" "sp_active (update_run k f sp) = sp_active sp"
  "sp_options (update_run k f sp) = sp_options sp"
  by (simp_all add: update_run_def case_prod_unfold split: option.split)

lemma run_updated_grows: "slots_grow sp (run_updated k x sp)"
proof (cases "x = CancelledOutside")
  case True
  then show ?thesis by (simp add: run_updated_def slots_grow_def)
next
  case False
  then show ?thesis by (intro slots_grow_same) (simp_all add: run_updated_def)
qed

lemma register_run_grows: "slots_grow sp (register_run k b cl sp)"
  by (intro slots_grow_same) (simp_all add: register_run_def Let_def case_prod_unfold)

lemma supervisor_step_grows:
  "supervisor_step e sp = Some sp' \<Longrightarrow> \<not> takes_slot e \<Longrightarrow> slots_grow sp sp'"
proof (cases e)
  case (SupEscalate timeout)
  moreover assume "supervisor_step e sp = Some sp'"
  ultimately show ?thesis
    by (auto simp: stop_escalates_def intro: slots_grow_same split: if_splits)
next
  case SupEnds
  moreover assume "supervisor_step e sp = Some sp'"
  ultimately show ?thesis
    by (auto simp: stop_ends_def intro: slots_grow_same split: if_splits)
qed (auto simp: sup_stop_grows run_finished_grows run_updated_grows register_run_grows
    slots_grow_soft_stop split: if_splits)

section \<open>Preservation\<close>

lemma claim_ok_cong:
  "claim_ok s \<Longrightarrow> sv_claim s' = sv_claim s \<Longrightarrow> sv_options s' = sv_options s \<Longrightarrow>
   slots_grow (sv_supervisor s) (sv_supervisor s') \<Longrightarrow> claim_ok s'"
  by (auto simp: claim_ok_def slots_grow_def split: claim_pc.splits)

lemma slots_grow_refl [simp]: "slots_grow sp sp"
  by (simp add: slots_grow_def)

text \<open>Steps that leave the claim loop and its pacing alone.\<close>

definition beside_claims :: "service \<Rightarrow> service \<Rightarrow> bool" where
  "beside_claims s s' \<longleftrightarrow> sv_options s' = sv_options s \<and> sv_claim s' = sv_claim s \<and>
     sv_queue_index s' = sv_queue_index s \<and> sv_batch_target s' = sv_batch_target s \<and>
     (sv_start s' = StartDone \<or> sv_start s' = sv_start s \<or> sv_claim s = ClaimOff) \<and>
     (supervisor_inv (sv_supervisor s) \<longrightarrow> supervisor_inv (sv_supervisor s')) \<and>
     (slots_grow (sv_supervisor s) (sv_supervisor s') \<or> sv_claim s = ClaimOff)"

lemma beside_claims_inv:
  assumes "service_inv s" and "beside_claims s s'" and "failure_ok s'"
  shows "service_inv s'"
proof -
  have "claim_ok s'"
  proof (cases "sv_claim s = ClaimOff")
    case True
    then show ?thesis using assms(2) by (simp add: beside_claims_def claim_ok_def)
  next
    case False
    then show ?thesis
      using claim_ok_cong [of s s'] assms(1,2) by (simp add: beside_claims_def service_inv_def)
  qed
  moreover have "start_ok s'" "pacing_ok s'"
    using assms(1,2) unfolding service_inv_def beside_claims_def pacing_ok_def start_ok_def by metis+
  moreover have "service_options_valid (sv_options s')" "supervisor_inv (sv_supervisor s')"
    using assms(1,2) by (simp_all add: service_inv_def beside_claims_def)
  ultimately show ?thesis using assms(3) by (simp add: service_inv_def)
qed

named_theorems service_fields "what the small operations of the service leave and change"

lemma nudge_fields [service_fields]:
  "sv_options (nudge s) = sv_options s" "sv_claim (nudge s) = sv_claim s"
  "sv_queue_index (nudge s) = sv_queue_index s" "sv_batch_target (nudge s) = sv_batch_target s"
  "sv_start (nudge s) = sv_start s" "sv_supervisor (nudge s) = sv_supervisor s"
  "sv_fatal (nudge s) = sv_fatal s" "sv_stop (nudge s) = sv_stop s" "sv_state (nudge s) = sv_state s"
  "sv_stop_task (nudge s) = sv_stop_task s" "sv_presence (nudge s) = sv_presence s"
  by (simp_all add: nudge_def)

lemma ensure_stop_task_fields [service_fields]:
  "sv_options (ensure_stop_task s) = sv_options s" "sv_claim (ensure_stop_task s) = sv_claim s"
  "sv_queue_index (ensure_stop_task s) = sv_queue_index s"
  "sv_batch_target (ensure_stop_task s) = sv_batch_target s"
  "sv_start (ensure_stop_task s) = sv_start s" "sv_supervisor (ensure_stop_task s) = sv_supervisor s"
  "sv_fatal (ensure_stop_task s) = sv_fatal s" "sv_stop (ensure_stop_task s) = sv_stop s"
  "sv_state (ensure_stop_task s) = sv_state s" "sv_stop_task (ensure_stop_task s) \<noteq> StopIdle"
  "sv_presence (ensure_stop_task s) = sv_presence s"
  by (simp_all add: ensure_stop_task_def)

lemma request_stop_fields [service_fields]:
  "sv_options (request_stop s) = sv_options s" "sv_claim (request_stop s) = sv_claim s"
  "sv_queue_index (request_stop s) = sv_queue_index s" "sv_batch_target (request_stop s) = sv_batch_target s"
  "sv_start (request_stop s) = sv_start s" "sv_supervisor (request_stop s) = sv_supervisor s"
  "sv_fatal (request_stop s) = sv_fatal s" "sv_stop (request_stop s)"
  "sv_state (request_stop s) = sv_state s" "sv_stop_task (request_stop s) \<noteq> StopIdle"
  by (simp_all add: request_stop_def service_fields)

lemma fail_service_fields [service_fields]:
  "sv_options (fail_service e s) = sv_options s" "sv_claim (fail_service e s) = sv_claim s"
  "sv_queue_index (fail_service e s) = sv_queue_index s" "sv_batch_target (fail_service e s) = sv_batch_target s"
  "sv_start (fail_service e s) = sv_start s" "sv_supervisor (fail_service e s) = sv_supervisor s"
  "sv_fatal (fail_service e s) \<noteq> None" "sv_stop (fail_service e s)"
  "sv_state (fail_service e s) = SV_FAILED" "sv_stop_task (fail_service e s) \<noteq> StopIdle"
  by (simp_all add: fail_service_def service_fields)

lemma refresh_fields [service_fields]:
  "sv_options (refresh_running_state s) = sv_options s" "sv_claim (refresh_running_state s) = sv_claim s"
  "sv_queue_index (refresh_running_state s) = sv_queue_index s"
  "sv_batch_target (refresh_running_state s) = sv_batch_target s"
  "sv_start (refresh_running_state s) = sv_start s"
  "sv_supervisor (refresh_running_state s) = sv_supervisor s"
  "sv_fatal (refresh_running_state s) = sv_fatal s" "sv_stop (refresh_running_state s) = sv_stop s"
  "sv_stop_task (refresh_running_state s) = sv_stop_task s"
  by (simp_all add: refresh_running_state_def)

lemma failure_ok_simps:
  "failure_ok (fail_service e s)"
  "failure_ok s \<Longrightarrow> failure_ok (nudge s)"
  "failure_ok s \<Longrightarrow> failure_ok (ensure_stop_task s)"
  "failure_ok s \<Longrightarrow> failure_ok (request_stop s)"
  "failure_ok s \<Longrightarrow> failure_ok (refresh_running_state s)"
  by (auto simp: failure_ok_def service_fields) (auto simp: refresh_running_state_def)

lemma failure_ok_cong:
  "sv_fatal s' = sv_fatal s \<Longrightarrow> sv_state s' = sv_state s \<Longrightarrow> sv_stop_task s' = sv_stop_task s \<Longrightarrow>
   sv_stop s \<longrightarrow> sv_stop s' \<Longrightarrow> failure_ok s \<Longrightarrow> failure_ok s'"
  by (simp add: failure_ok_def)

lemma beside_refl: "beside_claims s s"
  by (simp add: beside_claims_def)

lemma observe_job_beside: "beside_claims s (observe_job r s)"
  by (simp add: observe_job_def beside_claims_def service_fields split: sum.split)

lemma observe_job_failure: "failure_ok s \<Longrightarrow> failure_ok (observe_job r s)"
  by (simp add: observe_job_def failure_ok_simps split: sum.split)

lemma presence_written_beside: "beside_claims s (fst (presence_written ans now s))"
  by (simp add: presence_written_def beside_claims_def service_fields split: sum.split)

lemma presence_written_failure: "failure_ok s \<Longrightarrow> failure_ok (fst (presence_written ans now s))"
  by (simp add: presence_written_def failure_ok_simps(5) failure_ok_cong [of _ s] split: sum.split)

lemma presence_written_fields [service_fields]:
  "sv_options (fst (presence_written ans now s)) = sv_options s"
  "sv_claim (fst (presence_written ans now s)) = sv_claim s"
  "sv_supervisor (fst (presence_written ans now s)) = sv_supervisor s"
  "sv_start (fst (presence_written ans now s)) = sv_start s"
  "sv_queue_index (fst (presence_written ans now s)) = sv_queue_index s"
  "sv_batch_target (fst (presence_written ans now s)) = sv_batch_target s"
  "sv_fatal (fst (presence_written ans now s)) = sv_fatal s"
  "sv_stop (fst (presence_written ans now s)) = sv_stop s"
  by (simp_all add: presence_written_def service_fields split: sum.split)

text \<open>The tasks beside the claim loop.\<close>

lemma with_supervisor_inv:
  "service_inv s \<Longrightarrow> with_supervisor e s = Some s' \<Longrightarrow> \<not> takes_slot e \<Longrightarrow> service_inv s'"
  by (rule beside_claims_inv [of s])
    (auto simp: with_supervisor_def beside_claims_def supervisor_step_grows supervisor_step_inv
      service_inv_def intro: failure_ok_cong [of _ s])

lemma job_finishes_inv: "service_inv s \<Longrightarrow> job_finishes k r s = Some s' \<Longrightarrow> service_inv s'"
  by (rule beside_claims_inv [of s])
    (auto simp: job_finishes_def beside_claims_def run_finished_grows run_finished_inv
      service_inv_def intro: failure_ok_cong [of _ s] split: if_splits)

lemma job_observed_inv: "service_inv s \<Longrightarrow> job_observed s = Some s' \<Longrightarrow> service_inv s'"
proof -
  assume inv: "service_inv s" and "job_observed s = Some s'"
  then obtain r rs where s': "s' = observe_job r (s\<lparr>sv_unseen := rs\<rparr>)"
    by (auto simp: job_observed_def split: list.splits)
  have "service_inv (s\<lparr>sv_unseen := rs\<rparr>)"
    by (rule beside_claims_inv [OF inv])
      (use inv in \<open>auto simp: beside_claims_def service_inv_def intro: failure_ok_cong [of _ s]\<close>)
  then show ?thesis
    using beside_claims_inv observe_job_beside observe_job_failure unfolding s' service_inv_def by blast
qed

lemma start_begins_inv: "service_inv s \<Longrightarrow> start_begins now s = Some s' \<Longrightarrow> service_inv s'"
  by (rule beside_claims_inv [of s])
    (auto simp: start_begins_def beside_claims_def service_inv_def start_ok_def failure_ok_def
      split: if_splits)

lemma sup_start_inv: "supervisor_inv sp \<Longrightarrow> sup_start sp = Inr sp' \<Longrightarrow> supervisor_inv sp'"
  using supervisor_step_inv [of sp SupStart sp'] by (simp add: answer_def)

text \<open>The end of \<open>start\<close> makes the claim task; before it there is none.\<close>

lemma start_ends_inv:
  assumes "service_inv s"
  shows "service_inv (start_ends s)"
proof -
  have "failure_ok (start_ends s)"
    using assms failure_ok_cong [of "start_ends s" "refresh_running_state s"] failure_ok_simps(5) [of s]
    by (simp add: start_ends_def service_inv_def)
  then show ?thesis
    using assms by (simp add: service_inv_def start_ends_def service_fields pacing_ok_def claim_ok_def start_ok_def)
qed

lemma start_written_inv:
  assumes inv: "service_inv s" and st: "start_written ans now s = Some s'"
  shows "service_inv s'"
proof -
  obtain s1 shutdown where w: "presence_written ans now s = (s1, shutdown)" by force
  note f = presence_written_fields [of ans now s, unfolded w fst_conv]
  have off: "sv_claim s = ClaimOff" "sv_start s = StartWriting"
    using inv st by (auto simp: start_written_def service_inv_def start_ok_def split: if_splits)
  have fail: "failure_ok s1"
    using presence_written_failure [of s ans now] inv by (simp add: w service_inv_def)
  have base: "service_inv (s1\<lparr>sv_supervisor := sp, sv_start := d, sv_listen := l\<rparr>)"
    if "supervisor_inv sp" for sp d l
    using inv f off fail that failure_ok_cong [of "s1\<lparr>sv_supervisor := sp, sv_start := d, sv_listen := l\<rparr>" s1]
    by (simp add: service_inv_def pacing_ok_def claim_ok_def start_ok_def)
  have sup: "supervisor_inv (sv_supervisor s1)" using inv f by (simp add: service_inv_def)
  have "service_inv (ensure_stop_task (s1\<lparr>sv_stop := True, sv_start := StartDone\<rparr>))"
    using base [OF sup, where d = StartDone and l = "sv_listen s1"] fail
    by (simp add: service_inv_def service_fields pacing_ok_def claim_ok_def start_ok_def failure_ok_def f off)
  moreover have "service_inv (s1\<lparr>sv_start := StartDone\<rparr>)"
    using base [OF sup, where d = StartDone and l = "sv_listen s1"] by simp
  moreover have "service_inv (if so_listen (sv_options s1)
      then s1\<lparr>sv_supervisor := sp, sv_start := StartListening,
        sv_listen := (if sv_stop s1 then ListenEnded else ListenConnecting)\<rparr>
      else start_ends (s1\<lparr>sv_supervisor := sp\<rparr>))" if "sup_start (sv_supervisor s1) = Inr sp" for sp
    using base [OF sup_start_inv [OF sup that]] base [OF sup_start_inv [OF sup that], where d = "sv_start s1" and l = "sv_listen s1"]
      start_ends_inv [of "s1\<lparr>sv_supervisor := sp\<rparr>"] by simp
  ultimately show ?thesis
    using st w off by (auto simp: start_written_def Let_def split: if_splits sum.splits)
qed

lemma start_listened_inv: "service_inv s \<Longrightarrow> start_listened s = Some s' \<Longrightarrow> service_inv s'"
  by (auto simp: start_listened_def start_ends_inv split: if_splits)

lemma beside_step:
  "service_inv s \<Longrightarrow> beside_claims s s' \<Longrightarrow> (failure_ok s \<Longrightarrow> failure_ok s') \<Longrightarrow> service_inv s'"
  by (rule beside_claims_inv) (simp_all add: service_inv_def)

lemma presence_due_inv: "service_inv s \<Longrightarrow> presence_due s = Some s' \<Longrightarrow> service_inv s'"
  by (rule beside_step [of s]) (auto simp: presence_due_def beside_claims_def intro: failure_ok_cong [of _ s] split: if_splits)

lemma presence_answered_inv:
  assumes "service_inv s" and "presence_answered ans now s = Some s'"
  shows "service_inv s'"
proof -
  obtain s1 shutdown where w: "presence_written ans now s = (s1, shutdown)" by force
  have fail: "failure_ok s \<Longrightarrow> failure_ok (s1\<lparr>sv_presence := p\<rparr>)" for p
    using presence_written_failure [of s ans now] failure_ok_cong [of "s1\<lparr>sv_presence := p\<rparr>" s1] by (simp add: w)
  then have "failure_ok s \<Longrightarrow> failure_ok s'"
    using assms(2) w by (auto simp: presence_answered_def failure_ok_simps(4) split: if_splits)
  moreover have "beside_claims s s'"
    using assms(2) w presence_written_fields [of ans now s]
    by (auto simp: presence_answered_def beside_claims_def service_fields split: if_splits)
  ultimately show ?thesis using beside_step [OF assms(1)] by blast
qed

lemma listener_connected_inv: "service_inv s \<Longrightarrow> listener_connected s = Some s' \<Longrightarrow> service_inv s'"
  by (rule beside_step [of s])
    (auto simp: listener_connected_def beside_claims_def service_fields
      intro!: failure_ok_simps(5) failure_ok_simps(2) intro: failure_ok_cong [of _ s] split: if_splits)

lemma listener_lost_inv: "service_inv s \<Longrightarrow> listener_lost raised s = Some s' \<Longrightarrow> service_inv s'"
  by (rule beside_step [of s])
    (auto simp: listener_lost_def beside_claims_def service_fields
      intro!: failure_ok_simps(5) intro: failure_ok_cong [of _ s] split: if_splits)

lemma listener_retries_inv: "service_inv s \<Longrightarrow> listener_retries s = Some s' \<Longrightarrow> service_inv s'"
  by (rule beside_step [of s])
    (auto simp: listener_retries_def beside_claims_def intro: failure_ok_cong [of _ s] split: if_splits)

lemma nudge_inv: "service_inv s \<Longrightarrow> service_inv (nudge s)"
  by (rule beside_step [of s]) (auto simp: beside_claims_def service_fields failure_ok_simps)

lemma waiter_inv: "service_inv s \<Longrightarrow> waiter_runs s = Some s' \<Longrightarrow> service_inv s'"
  by (rule beside_step [of s])
    (auto simp: waiter_runs_def beside_claims_def intro: failure_ok_cong [of _ s] split: claim_pc.splits if_splits)

lemma fail_service_inv: "service_inv s \<Longrightarrow> service_inv (fail_service e s)"
  by (rule beside_step [of s]) (auto simp: beside_claims_def service_fields failure_ok_simps)

text \<open>The stop.\<close>

lemma service_stop_inv: "service_inv s \<Longrightarrow> service_inv (service_stop cancel s)"
  by (rule beside_step [of s])
    (auto simp: service_stop_def Let_def beside_claims_def sup_stop_inv sup_stop_grows failure_ok_def)

lemma stop_begins_inv: "service_inv s \<Longrightarrow> stop_begins s = Some s' \<Longrightarrow> service_inv s'"
  by (rule beside_step [of s])
    (auto simp: stop_begins_def beside_claims_def service_fields failure_ok_def split: if_splits)

lemma claim_ends_inv: "service_inv s \<Longrightarrow> sv_claim s \<noteq> ClaimOff \<Longrightarrow> service_inv (claim_ends s)"
  using failure_ok_cong [of "claim_ends s" s]
  by (auto simp: service_inv_def claim_ends_def pacing_ok_def claim_ok_def start_ok_def)

lemma claim_cancelled_inv: "service_inv s \<Longrightarrow> claim_cancelled s = Some s' \<Longrightarrow> service_inv s'"
  by (auto simp: claim_cancelled_def claim_ends_inv split: if_splits)

lemma stop_admission_inv: "service_inv s \<Longrightarrow> stop_admission s = Some s' \<Longrightarrow> service_inv s'"
  by (rule beside_step [of s])
    (auto simp: stop_admission_def beside_claims_def sup_stop_inv sup_stop_grows failure_ok_def split: if_splits)

lemma stop_finishes_inv: "service_inv s \<Longrightarrow> stop_finishes s = Some s' \<Longrightarrow> service_inv s'"
  by (rule beside_step [of s])
    (auto simp: stop_finishes_def beside_claims_def failure_ok_def split: if_splits)

section \<open>The claim loop keeps the invariant\<close>

text \<open>What holds in the middle of the loop's code, where its program counter is out of date.\<close>

definition core_inv :: "service \<Rightarrow> bool" where
  "core_inv s \<longleftrightarrow> service_options_valid (sv_options s) \<and> supervisor_inv (sv_supervisor s) \<and>
     pacing_ok s \<and> failure_ok s \<and> sv_start s = StartDone"

lemma core_of_service: "service_inv s \<Longrightarrow> sv_claim s \<noteq> ClaimOff \<Longrightarrow> core_inv s"
  by (auto simp: service_inv_def core_inv_def start_ok_def)

lemma service_of_core: "core_inv s \<Longrightarrow> claim_ok s \<Longrightarrow> service_inv s"
  by (simp add: service_inv_def core_inv_def start_ok_def)

lemma core_cong:
  "core_inv s \<Longrightarrow> sv_options s' = sv_options s \<Longrightarrow> sv_supervisor s' = sv_supervisor s \<Longrightarrow>
   sv_queue_index s' = sv_queue_index s \<Longrightarrow> sv_batch_target s' = sv_batch_target s \<Longrightarrow>
   sv_start s' = sv_start s \<Longrightarrow> failure_ok s' \<Longrightarrow> core_inv s'"
  by (simp add: core_inv_def pacing_ok_def)

lemma core_update:
  "core_inv s \<Longrightarrow> core_inv (s\<lparr>sv_claim := x\<rparr>)"
  "core_inv s \<Longrightarrow> core_inv (s\<lparr>sv_idle_polls := n\<rparr>)"
  "core_inv s \<Longrightarrow> core_inv (s\<lparr>sv_fruitless := n\<rparr>)"
  "core_inv s \<Longrightarrow> core_inv (s\<lparr>sv_quiet_until := u\<rparr>)"
  "core_inv s \<Longrightarrow> core_inv (s\<lparr>sv_last_wake := w\<rparr>)"
  "core_inv s \<Longrightarrow> core_inv (s\<lparr>sv_streaks := d1\<rparr>)"
  "core_inv s \<Longrightarrow> core_inv (s\<lparr>sv_retry_at := d2\<rparr>)"
  "core_inv s \<Longrightarrow> core_inv (s\<lparr>sv_sweeps := n\<rparr>)"
  "core_inv s \<Longrightarrow> core_inv (s\<lparr>sv_submitted := n\<rparr>)"
  "core_inv s \<Longrightarrow> core_inv (s\<lparr>sv_claimed := n\<rparr>)"
  "core_inv s \<Longrightarrow> core_inv (s\<lparr>sv_last_claim := o1\<rparr>)"
  "core_inv s \<Longrightarrow> supervisor_inv sp \<Longrightarrow> core_inv (s\<lparr>sv_supervisor := sp\<rparr>)"
  by (simp_all add: core_inv_def pacing_ok_def failure_ok_def)

lemma core_fail: "core_inv s \<Longrightarrow> core_inv (fail_service e s)"
  by (rule core_cong [of s]) (simp_all add: service_fields failure_ok_simps)

lemma core_options: "core_inv s \<Longrightarrow> service_options_valid (sv_options s)"
  by (simp add: core_inv_def)

lemma slots_nonneg: "0 \<le> available_slots sp"
  by (simp add: available_slots_def free_slots_def)

lemma effective_batch_bounds:
  "core_inv s \<Longrightarrow> 1 \<le> effective_batch s \<and> effective_batch s \<le> so_batch (sv_options s)"
  by (auto simp: core_inv_def effective_batch_def pacing_ok_def service_options_valid_def between_def)

lemma ask_inv:
  assumes "core_inv s" and "q \<in> set (so_queues (sv_options s))" and "available_slots (sv_supervisor s) \<noteq> 0"
  shows "service_inv (ask n q sent claimed s)"
proof (rule service_of_core)
  show "core_inv (ask n q sent claimed s)" using assms(1) by (simp add: ask_def core_update)
  show "claim_ok (ask n q sent claimed s)"
    using effective_batch_bounds [OF assms(1)] assms(2,3) slots_nonneg [of "sv_supervisor s"]
    by (simp add: claim_ok_def ask_def min_le_iff_disj)
qed

lemma idle_delay_bounds:
  assumes "service_options_valid (sv_options s)" and "0 \<le> r" and "r \<le> 1"
  shows "0 < idle_delay r s \<and> idle_delay r s \<le>
    max (so_poll_interval (sv_options s)) (so_idle_poll_cap (sv_options s)) * (1 + so_poll_jitter (sv_options s))"
proof -
  define ops where "ops = sv_options s"
  define j where "j = so_poll_jitter ops"
  define delay where "delay = (if so_idle_poll_cap ops > 0 \<and> sv_idle_polls s > 0 \<and> sv_listener s
      then min (so_poll_interval ops * 2 ^ min (sv_idle_polls s) 16)
             (max (so_idle_poll_cap ops) (so_poll_interval ops)) else so_poll_interval ops)"
  have v: "0 < so_poll_interval ops" "0 \<le> j" "j \<le> 1 / 2"
    using assms(1) by (auto simp: service_options_valid_def ops_def j_def)
  have d: "0 < delay" "delay \<le> max (so_poll_interval ops) (so_idle_poll_cap ops)"
    using v by (auto simp: delay_def)
  define f where "f = (if j > 0 then 1 + (2 * r - 1) * j else 1)"
  have "(2 * r - 1) * j \<le> j" using v assms(2,3) mult_right_mono [of "2 * r - 1" 1 j] by simp
  moreover have "- j \<le> (2 * r - 1) * j" using v assms(2,3) mult_right_mono [of "-1" "2 * r - 1" j] by simp
  ultimately have f: "0 < f" "f \<le> 1 + j" using v by (auto simp: f_def)
  have "delay * f \<le> max (so_poll_interval ops) (so_idle_poll_cap ops) * (1 + j)"
    using d f v by (intro mult_mono) auto
  moreover have "idle_delay r s = delay * f"
    by (simp add: idle_delay_def Let_def delay_def f_def ops_def j_def)
  ultimately show ?thesis using d f by (simp add: ops_def j_def)
qed

lemma begin_poll_inv: "core_inv s \<Longrightarrow> turn_ok t \<Longrightarrow> service_inv (begin_poll t s)"
proof (rule service_of_core)
  assume "core_inv s" "turn_ok t"
  then show "core_inv (begin_poll t s)" by (simp add: begin_poll_def core_update Let_def)
  show "claim_ok (begin_poll t s)"
    using idle_delay_bounds [OF core_options [OF \<open>core_inv s\<close>], of "ct_random t"] \<open>turn_ok t\<close>
    by (simp add: begin_poll_def Let_def claim_ok_def turn_ok_def less_max_iff_disj)
qed

lemma pick_queue_spec:
  "core_inv s \<Longrightarrow> pick_queue n clk s = (r, s1) \<Longrightarrow>
   core_inv s1 \<and> sv_options s1 = sv_options s \<and> sv_supervisor s1 = sv_supervisor s \<and>
   (\<forall>m q. r = Some (m, q) \<longrightarrow> q \<in> set (so_queues (sv_options s)) \<and> \<not> sv_stop s \<and>
      available_slots (sv_supervisor s) \<noteq> 0)"
proof (induction n clk s rule: pick_queue.induct)
  case (2 n clk s)
  define qs where "qs = so_queues (sv_options s)"
  define s2 where "s2 = s\<lparr>sv_queue_index := (sv_queue_index s + 1) mod length qs\<rparr>"
  have q: "qs ! sv_queue_index s \<in> set qs"
    using 2(2) by (simp add: core_inv_def pacing_ok_def qs_def)
  have core: "core_inv s2"
    using 2(2) failure_ok_cong [of s2 s] mod_less_divisor [OF length_pos_if_in_set [OF q], of "Suc (sv_queue_index s)"]
    by (simp add: core_inv_def pacing_ok_def s2_def qs_def)
  show ?case
  proof (cases "sv_stop s \<or> available_slots (sv_supervisor s) = 0")
    case False
    define rests where "rests \<longleftrightarrow> (case dget (sv_retry_at s2) (qs ! sv_queue_index s) of None \<Rightarrow> 0 | Some u \<Rightarrow> u) > clk n"
    have step: "pick_queue (Suc n) clk s =
        (if rests then pick_queue n clk s2 else (Some (n, qs ! sv_queue_index s), s2))"
      using False by (simp add: Let_def qs_def s2_def rests_def)
    have s2: "sv_options s2 = sv_options s" "sv_supervisor s2 = sv_supervisor s" "sv_stop s2 = sv_stop s"
      by (simp_all add: s2_def)
    show ?thesis
    proof (cases rests)
      case True
      have "pick_queue n clk s2 = (r, s1)" using step 2(3) True by simp
      from 2(1) [OF False qs_def refl _ _ core this] True show ?thesis
        using s2 by (simp add: s2_def rests_def)
    next
      case False
      then have "r = Some (n, qs ! sv_queue_index s)" "s1 = s2" using step 2(3) by simp_all
      then show ?thesis using core q s2 \<open>\<not> (sv_stop s \<or> _)\<close> by (simp add: qs_def)
    qed
  qed (use 2(2,3) in auto)
qed auto

lemma fresh_sweep_inv: "core_inv s \<Longrightarrow> turn_ok t \<Longrightarrow> service_inv (fresh_sweep clk t s)"
proof -
  assume "core_inv s" "turn_ok t"
  obtain r s1 where p: "pick_queue (length (so_queues (sv_options s))) clk s = (r, s1)" by force
  note spec = pick_queue_spec [OF \<open>core_inv s\<close> p]
  show ?thesis
    using spec p ask_inv [of s1] begin_poll_inv [of s1 t] \<open>turn_ok t\<close>
    by (cases r) (auto simp: fresh_sweep_def)
qed

lemma claim_top_inv: "core_inv s \<Longrightarrow> turn_ok t \<Longrightarrow> service_inv (claim_top t s)"
  using fresh_sweep_inv [of s t "ct_again t"] service_of_core [OF core_update(1) [of s ClaimEnded]]
    service_of_core [OF core_update(1) [of s ClaimWaits]]
  by (simp add: claim_top_def claim_ends_def claim_ok_def)

lemma sweep_over_inv: "core_inv s \<Longrightarrow> turn_ok t \<Longrightarrow> service_inv (sweep_over claimed t s)"
  by (simp add: sweep_over_def Let_def claim_top_inv begin_poll_inv core_update)

lemma sweep_goes_on_inv: "core_inv s \<Longrightarrow> turn_ok t \<Longrightarrow> service_inv (sweep_goes_on n claimed t s)"
proof -
  assume "core_inv s" "turn_ok t"
  obtain r s1 where p: "pick_queue n (ct_clock t) s = (r, s1)" by force
  note spec = pick_queue_spec [OF \<open>core_inv s\<close> p]
  show ?thesis
    using spec p ask_inv [of s1] sweep_over_inv [of s1 t claimed] \<open>turn_ok t\<close>
    by (cases r) (auto simp: sweep_goes_on_def)
qed

lemma submit_each_inv:
  "supervisor_inv sp \<Longrightarrow> submit_each submit cs sp = (n, e, sp') \<Longrightarrow> supervisor_inv sp'"
proof (induction cs arbitrary: sp n)
  case (Cons c cs)
  show ?case
  proof (cases "submit c sp")
    case (Inr sp1)
    have "supervisor_inv sp1"
      using supervisor_step_inv [OF Cons.prems(1), of "SupSubmit c" sp1] Inr by (simp add: answer_def)
    then show ?thesis using Cons Inr by (auto split: prod.splits)
  qed (use Cons.prems in auto)
qed simp

lemma observe_claim_core: "core_inv s \<Longrightarrow> core_inv (observe_claim_result got asked s)"
proof -
  assume inv: "core_inv s"
  have "1 \<le> so_batch (sv_options s)"
    using inv by (auto simp: core_inv_def service_options_valid_def between_def)
  then show ?thesis
    using inv failure_ok_cong [of "observe_claim_result got asked s" s]
    by (auto simp: observe_claim_result_def core_inv_def pacing_ok_def)
qed

lemma note_claim_error_core: "core_inv s \<Longrightarrow> core_inv (note_claim_error q e now r s)"
  by (simp add: note_claim_error_def Let_def core_fail core_update)

lemma rest_queue_core: "core_inv s \<Longrightarrow> core_inv (rest_queue q u s)"
  by (simp add: rest_queue_def core_update)

lemma jobs_claimed_core:
  assumes "core_inv s"
  shows "core_inv (snd (jobs_claimed js batch now s))"
proof -
  obtain n e sp where sub: "submit_each submit js (sv_supervisor s) = (n, e, sp)"
    by (metis prod_cases3)
  have "supervisor_inv sp" using submit_each_inv [OF _ sub] assms by (simp add: core_inv_def)
  then have "core_inv (s\<lparr>sv_supervisor := sp, sv_submitted := k\<rparr>)" for k
    using core_update(9) [OF core_update(12) [OF assms]] by blast
  then show ?thesis
    using assms sub by (simp add: jobs_claimed_def Let_def observe_claim_core core_update split: option.split)
qed

lemma claim_answered_core:
  assumes "core_inv s"
  shows "core_inv (snd (claim_answered q batch ans now r s))"
proof -
  have "core_inv (queue_answers q s)" using assms by (simp add: queue_answers_def core_update)
  then show ?thesis
    using assms by (auto simp: claim_answered_def act_on_claim_def jobs_claimed_core observe_claim_core
        rest_queue_core note_claim_error_core split: sum.split exc.split claim_state.split)
qed

lemma claim_resumes_inv:
  assumes inv: "service_inv s" and st: "claim_resumes ans t s = Some s'" and t: "turn_ok t"
  shows "service_inv s'"
proof -
  obtain q batch sent n claimed where pc: "sv_claim s = ClaimAsks q batch sent n claimed"
    using st by (auto simp: claim_resumes_def split: claim_pc.splits)
  obtain r s1 where a: "claim_answered q batch ans (ct_now t) (ct_random t) s = (r, s1)" by force
  have core: "core_inv s1"
    using claim_answered_core [OF core_of_service [OF inv], of q batch ans "ct_now t" "ct_random t"] pc a by simp
  have "service_inv (claim_ends (fail_service e s1))" for e
    using service_of_core [OF core_update(1) [OF core_fail [OF core]]] by (simp add: claim_ends_def claim_ok_def)
  then show ?thesis
    using st pc a sweep_goes_on_inv [OF core t] by (auto simp: claim_resumes_def split: sum.splits)
qed

lemma other_resumes_inv:
  assumes inv: "service_inv s" and t: "turn_ok t"
  shows "claim_starts t s = Some s' \<Longrightarrow> service_inv s'" "capacity_resumes t s = Some s' \<Longrightarrow> service_inv s'"
    "poll_resumes w t s = Some s' \<Longrightarrow> service_inv s'" "quiet_resumes t s = Some s' \<Longrightarrow> service_inv s'"
proof -
  have core: "sv_claim s \<noteq> ClaimOff \<Longrightarrow> core_inv s" using core_of_service [OF inv] .
  show "claim_starts t s = Some s' \<Longrightarrow> service_inv s'"
    using core by (auto simp: claim_starts_def claim_top_inv t split: if_splits)
  show "capacity_resumes t s = Some s' \<Longrightarrow> service_inv s'"
    using core claim_ends_inv [OF inv] by (auto simp: capacity_resumes_def fresh_sweep_inv t split: if_splits)
  show "poll_resumes w t s = Some s' \<Longrightarrow> service_inv s'"
    using core service_of_core [OF core_update(1) [OF core_update(2) [of s]]]
    by (auto simp: poll_resumes_def Let_def claim_top_inv core_update t claim_ok_def
        split: claim_pc.splits if_splits)
  show "quiet_resumes t s = Some s' \<Longrightarrow> service_inv s'"
    using core by (auto simp: quiet_resumes_def claim_top_inv core_update t split: claim_pc.splits)
qed

text \<open>The events of a run that the service passes on to its supervisor.\<close>

lemma supervised_inv:
  assumes "service_inv s"
  shows "with_supervisor (SupRegister b cl) s = Some s' \<Longrightarrow> service_inv s'"
    "with_supervisor (SupUpdate k x) s = Some s' \<Longrightarrow> service_inv s'"
    "with_supervisor (SupEscalate b) s = Some s' \<Longrightarrow> service_inv s'"
    "with_supervisor SupEnds s = Some s' \<Longrightarrow> service_inv s'"
    "(if c then None else with_supervisor SupSoftStop s) = Some s' \<Longrightarrow> service_inv s'"
    "Some (nudge s) = Some s' \<Longrightarrow> service_inv s'"
    "Some (service_stop cancel s) = Some s' \<Longrightarrow> service_inv s'"
  using with_supervisor_inv [OF assms] nudge_inv [OF assms] service_stop_inv [OF assms]
  by (auto split: if_splits)

lemmas beside_invs = start_begins_inv start_written_inv start_listened_inv presence_due_inv
  presence_answered_inv listener_connected_inv listener_lost_inv listener_retries_inv waiter_inv
  stop_begins_inv claim_cancelled_inv stop_admission_inv stop_finishes_inv job_finishes_inv job_observed_inv

lemma service_step_inv:
  "\<lbrakk>service_inv s; event_ok e; service_step e s = Some s'\<rbrakk> \<Longrightarrow> service_inv s'"
  by (cases e; simp only: service_step.simps event_ok.simps;
      (erule (1) beside_invs supervised_inv | erule (2) claim_resumes_inv | erule (2) other_resumes_inv))

lemma service_init_inv:
  assumes "service_init sha reg wk ops sup_ops nf pols = Inr s0" and "service_options_valid ops"
    and "opt_ok worker_options_valid sup_ops"
  shows "service_inv s0"
proof -
  define wops where "wops = (case sup_ops of None \<Rightarrow> default_worker_options | Some x \<Rightarrow> x)"
  obtain names sp where s0: "s0 = service_of ops names (sort (map cp_hash pols)) sp"
    and sp: "supervisor_init sha reg wk wops pols = Inr sp"
    using assms(1) by (auto simp: service_init_def Let_def wops_def ebind_Inr_iff split: if_splits)
  have "worker_options_valid wops"
    using assms(3) by (auto simp: wops_def opt_ok_def default_worker_options_def worker_options_valid_def
        between_def split: option.splits)
  then have "supervisor_inv sp" using supervisor_init_inv [OF sp] by simp
  moreover have "1 \<le> so_batch ops" "so_queues ops \<noteq> []"
    using assms(2) by (auto simp: service_options_valid_def between_def)
  ultimately show ?thesis
    using assms(2) by (simp add: s0 service_of_def service_inv_def pacing_ok_def failure_ok_def claim_ok_def start_ok_def)
qed

lemma service_reaches_inv: "service_reaches s0 s \<Longrightarrow> service_inv s0 \<Longrightarrow> service_inv s"
  by (induction rule: service_reaches.induct) (auto intro: service_step_inv)

fun service_run :: "service_event list \<Rightarrow> service \<Rightarrow> service option" where
  "service_run [] s = Some s"
| "service_run (e # es) s = Option.bind (service_step e s) (service_run es)"

lemma reaches_trans: "service_reaches s1 s2 \<Longrightarrow> service_reaches s0 s1 \<Longrightarrow> service_reaches s0 s2"
  by (induction rule: service_reaches.induct) (auto intro: reach_step)

lemma service_run_reaches: "service_run es s = Some s' \<Longrightarrow> list_all event_ok es \<Longrightarrow> service_reaches s s'"
proof (induction es arbitrary: s)
  case (Cons e es)
  then obtain s1 where "service_step e s = Some s1" "service_run es s1 = Some s'"
    by (auto split: Option.bind_splits)
  then show ?case
    using Cons reaches_trans [of s1 s' s] reach_step [OF reach_start, of e s s1] by simp
qed (simp add: reach_start)

end
