(* ===== verification/WorkerServiceProps.thy ===== *)
theory WorkerServiceProps
  imports WorkerServiceRun
begin

text \<open>
  Properties of the service: what it claims fits its slots and is submitted, the queues are visited in
  rotation, errors of the claim are fatal exactly at their threshold, polls are bounded, and a stop or
  a failure is final.
\<close>

section \<open>A sample service\<close>

text \<open>One queue, one bound task, one slot.\<close>

definition service_task :: task where
  "service_task = (demo_task 1 ''t'' [])\<lparr>tk_handler := Some \<lparr>hd_params = [], hd_hints = None, hd_async = True\<rparr>\<rparr>"

definition service_registry :: registry where
  "service_registry = \<lparr>rg_canonical = [(''t'', service_task)], rg_lookup = [(''t'', service_task)]\<rparr>"

definition sample_options :: service_options where
  "sample_options = (default_service_options [''q''])\<lparr>so_listen := False\<rparr>"

definition sample_service :: service where
  "sample_service = service_of sample_options [[''t'']] [] sample_supervisor"

definition sample_claim_turn :: claim_turn where
  "sample_claim_turn = \<lparr>ct_clock = (\<lambda>n. 1), ct_again = (\<lambda>n. 1), ct_now = 1, ct_random = 1 / 2\<rparr>"

lemma sample_options_valid: "service_options_valid sample_options"
  by (simp add: sample_options_def default_service_options_def service_options_valid_def between_def
      queue_name_def queue_char_def is_lower_c_def)

lemma sample_service_init:
  "service_init (\<lambda>x. x) service_registry ''w'' sample_options None False [] = Inr sample_service"
proof -
  have "validate_followup_graph service_registry = Inr ()"
    by (simp add: validate_followup_graph_def registered_def service_registry_def service_task_def demo_task_def)
  then have "supervisor_init (\<lambda>x. x) service_registry ''w'' default_worker_options [] = Inr sample_supervisor"
    by (simp add: supervisor_init_def sample_supervisor_def)
  then show ?thesis
    by (simp add: service_init_def sample_service_def sample_options_def default_service_options_def
        default_worker_options_def bind_queue_def bound_types_def registered_def service_registry_def
        service_task_def demo_task_def Let_def)
qed

text \<open>It has started and asks its queue for one job.\<close>

definition sample_asking :: service where
  "sample_asking = sample_service
     \<lparr>sv_state := SV_RUNNING, sv_started := Some 0, sv_start := StartDone, sv_last_presence := Some 0,
      sv_supervisor := sample_supervisor\<lparr>sp_accepting := True\<rparr>, sv_presence := PresenceSleeping,
      sv_claim := ClaimAsks ''q'' 1 1 0 False\<rparr>"

lemmas sample_service_defs = sample_service_def service_of_def sample_options_def default_service_options_def
  sample_supervisor_def default_worker_options_def sample_claim_turn_def

lemmas service_steps = start_begins_def start_written_def presence_written_def refresh_running_state_def
  sup_start_def start_ends_def claim_starts_def claim_top_def fresh_sweep_def ask_def available_slots_def
  free_slots_def active_slots_def effective_batch_def Let_def

lemma sample_started:
  "service_run [EvStart 0, EvStartWritten (Inr False) 0, EvClaimStarts sample_claim_turn] sample_service =
     Some sample_asking"
  by (simp add: sample_asking_def sample_service_defs service_steps)

lemma sample_asking_reached: "service_reaches sample_service sample_asking"
  by (rule service_run_reaches [OF sample_started]) (simp add: turn_ok_def sample_claim_turn_def)

section \<open>Claims fit the slots\<close>

lemma init_reaches_inv:
  assumes "service_init sha reg wk ops sup_ops nf pols = Inr s0" and "service_options_valid ops"
    and "opt_ok worker_options_valid sup_ops" and "service_reaches s0 s"
  shows "service_inv s"
  using service_reaches_inv [OF assms(4) service_init_inv [OF assms(1-3)]] .

text \<open>
  C25: a claim asks for as many jobs as can be run: at least one, at most the configured batch, and no more
  than the free slots, whatever finished or failed in the meantime.  So when the queue answers with at
  most that many new jobs and the supervisor still accepts, every one of them is submitted and none is
  left to its lease.
\<close>

theorem claims_fit_the_slots:
  assumes "service_init sha reg wk ops sup_ops nf pols = Inr s0" and "service_options_valid ops"
    and "opt_ok worker_options_valid sup_ops" and "service_reaches s0 s"
    and pc: "sv_claim s = ClaimAsks q batch sent n claimed"
    and acc: "sp_accepting (sv_supervisor s)"
    and res: "cr_state res = CLAIMED" "int (length (cr_jobs res)) \<le> batch"
    and new: "distinct (map key_of (cr_jobs res))"
      "key_of ` set (cr_jobs res) \<inter> set (sp_active (sv_supervisor s)) = {}"
  shows "q \<in> set (so_queues (sv_options s)) \<and> 1 \<le> batch \<and> batch \<le> so_batch (sv_options s) \<and>
    (\<exists>s'. claim_answered q batch (Inr res) now r s = (Inr True, s') \<and>
      set (sp_active (sv_supervisor s')) = key_of ` set (cr_jobs res) \<union> set (sp_active (sv_supervisor s)) \<and>
      sv_submitted s' = sv_submitted s + length (cr_jobs res))"
proof -
  note inv = init_reaches_inv [OF assms(1-4)]
  have fit: "q \<in> set (so_queues (sv_options s))" "1 \<le> batch" "batch \<le> so_batch (sv_options s)"
    "batch \<le> available_slots (sv_supervisor s)"
    using inv pc acc by (simp_all add: service_inv_def claim_ok_def)
  obtain sp where sp: "submit_each submit (cr_jobs res) (sv_supervisor s) = (length (cr_jobs res), None, sp)"
    "set (sp_active sp) = key_of ` set (cr_jobs res) \<union> set (sp_active (sv_supervisor s))"
    using pool.all_accepted [OF _ new] res(2) fit(4) by auto
  have same: "sv_supervisor (observe_claim_result g a s1) = sv_supervisor s1 \<and>
      sv_submitted (observe_claim_result g a s1) = sv_submitted s1" for g a s1
    by (simp add: observe_claim_result_def)
  have "\<exists>s'. claim_answered q batch (Inr res) now r s = (Inr True, s') \<and> sv_supervisor s' = sp \<and>
      sv_submitted s' = sv_submitted s + length (cr_jobs res)"
    using res sp(1) same by (simp add: claim_answered_def act_on_claim_def jobs_claimed_def queue_answers_def Let_def)
  then show ?thesis using fit sp(2) by auto
qed

theorem claims_fit_the_slots_witness:
  "\<exists>s'. claim_answered ''q'' 1 (Inr \<lparr>cr_state = CLAIMED, cr_jobs = [sample_job 1], cr_retry_after = None\<rparr>)
      2 0 sample_asking = (Inr True, s') \<and> set (sp_active (sv_supervisor s')) = {(1, 2)}"
proof -
  have pc: "sv_claim sample_asking = ClaimAsks ''q'' 1 1 0 False" "sp_accepting (sv_supervisor sample_asking)"
    "sp_active (sv_supervisor sample_asking) = []"
    by (simp_all add: sample_asking_def sample_supervisor_def)
  have key: "key_of (sample_job 1) = (1, 2)" by (simp add: key_of_def sample_job_def)
  show ?thesis
    using claims_fit_the_slots [OF sample_service_init sample_options_valid _ sample_asking_reached pc(1,2),
        of "\<lparr>cr_state = CLAIMED, cr_jobs = [sample_job 1], cr_retry_after = None\<rparr>" 2 0] pc(3) key
    by auto
qed

section \<open>Rotation\<close>

definition visited :: "nat \<Rightarrow> service \<Rightarrow> string" where
  "visited k s = (let qs = so_queues (sv_options s) in qs ! ((sv_queue_index s + k) mod length qs))"

definition rests :: "string \<Rightarrow> rat \<Rightarrow> service \<Rightarrow> bool" where
  "rests q now s \<longleftrightarrow> (case dget (sv_retry_at s) q of None \<Rightarrow> 0 | Some u \<Rightarrow> u) > now"

lemma mod_next: "i < n \<Longrightarrow> Suc i mod n < n"
  for n :: nat by (rule mod_less_divisor) simp

lemma pick_queue_Suc:
  assumes "\<not> (sv_stop s \<or> available_slots (sv_supervisor s) = 0)"
    and "sv_queue_index s < length (so_queues (sv_options s))"
  obtains s2 where "pick_queue (Suc n) clk s =
      (if rests (visited 0 s) (clk n) s then pick_queue n clk s2 else (Some (n, visited 0 s), s2))"
    "sv_queue_index s2 = (sv_queue_index s + 1) mod length (so_queues (sv_options s))"
    "sv_options s2 = sv_options s" "sv_stop s2 = sv_stop s" "sv_supervisor s2 = sv_supervisor s"
    "\<And>k. visited k s2 = visited (Suc k) s" "\<And>q now. rests q now s2 = rests q now s"
proof
  define qs where "qs = so_queues (sv_options s)"
  define s2 where "s2 = s\<lparr>sv_queue_index := (sv_queue_index s + 1) mod length qs\<rparr>"
  show "pick_queue (Suc n) clk s =
      (if rests (visited 0 s) (clk n) s then pick_queue n clk s2 else (Some (n, visited 0 s), s2))"
    using assms by (simp add: Let_def qs_def s2_def visited_def rests_def)
qed (simp_all add: visited_def rests_def Let_def mod_simps)

text \<open>
  The queues are visited in rotation and none is passed over: a sweep with \<open>n\<close> visits left asks the
  first queue, from where the last visit stopped, that is not backing off at the instant it is looked
  at, and the next sweep goes on behind it; it asks no queue only when the service stops, no slot is
  free, or every queue it had left is backing off.
\<close>

theorem queues_visited_in_rotation:
  assumes "pick_queue n clk s = (r, s1)" and "sv_queue_index s < length (so_queues (sv_options s))"
  shows "case r of
      Some (m, q) \<Rightarrow> m < n \<and> q = visited (n - Suc m) s \<and> \<not> rests q (clk m) s \<and>
        (\<forall>k < n - Suc m. rests (visited k s) (clk (n - Suc k)) s) \<and>
        sv_queue_index s1 = (sv_queue_index s + (n - m)) mod length (so_queues (sv_options s))
    | None \<Rightarrow> sv_stop s \<or> available_slots (sv_supervisor s) = 0 \<or>
        (\<forall>k < n. rests (visited k s) (clk (n - Suc k)) s)"
  using assms
proof (induction n arbitrary: s)
  case (Suc n)
  show ?case
  proof (cases "sv_stop s \<or> available_slots (sv_supervisor s) = 0")
    case False
    from pick_queue_Suc [OF False Suc.prems(2), of n clk] obtain s2 where s2: "pick_queue (Suc n) clk s =
      (if rests (visited 0 s) (clk n) s then pick_queue n clk s2 else (Some (n, visited 0 s), s2))"
      "sv_queue_index s2 = (sv_queue_index s + 1) mod length (so_queues (sv_options s))"
      "sv_options s2 = sv_options s" "sv_stop s2 = sv_stop s" "sv_supervisor s2 = sv_supervisor s"
      "\<And>k. visited k s2 = visited (Suc k) s" "\<And>q now. rests q now s2 = rests q now s"
      by metis
    show ?thesis
    proof (cases "rests (visited 0 s) (clk n) s")
      case True
      have p: "pick_queue n clk s2 = (r, s1)" using s2(1) True Suc.prems(1) by simp
      have "sv_queue_index s2 < length (so_queues (sv_options s2))"
        using mod_next [OF Suc.prems(2)] s2(2,3) by simp
      note ih = Suc.IH [OF p this]
      show ?thesis
      proof (cases r)
        case None
        then show ?thesis using ih s2 True by (auto simp: less_Suc_eq_0_disj)
      next
        case (Some mq)
        obtain m q where r: "r = Some (m, q)" using Some by force
        have m: "m < n" using ih r by simp
        then have nm: "n - m = Suc (n - Suc m)" by simp
        have "rests (visited k s) (clk (n - k)) s" if "k < n - m" for k
          using that ih r s2(6,7) True nm by (cases k) auto
        moreover have "sv_queue_index s1 =
            (sv_queue_index s + (Suc n - m)) mod length (so_queues (sv_options s))"
          using ih r s2(2,3) m by (simp add: mod_simps Suc_diff_le)
        ultimately show ?thesis using ih r m s2(6,7) nm by auto
      qed
    qed (use s2 Suc.prems in auto)
  qed (use Suc.prems in auto)
qed simp

theorem queues_visited_in_rotation_witness:
  "case pick_queue 1 (\<lambda>n. 5) sample_asking of (r, s1) \<Rightarrow> r = Some (0, ''q'') \<and>
     ''q'' = visited 0 sample_asking \<and> \<not> rests ''q'' 5 sample_asking"
proof -
  have slots: "available_slots (sv_supervisor sample_asking) = 1" "sv_stop sample_asking = False"
    "so_queues (sv_options sample_asking) = [''q'']" "sv_retry_at sample_asking = []" "sv_queue_index sample_asking = 0"
    by (simp_all add: sample_asking_def sample_service_defs available_slots_def free_slots_def active_slots_def)
  obtain s1 where p: "pick_queue 1 (\<lambda>n. 5) sample_asking = (Some (0, ''q''), s1)"
    using slots by (simp add: Let_def)
  show ?thesis
    using queues_visited_in_rotation [OF p] p slots(5,3) by auto
qed

section \<open>Errors of the claim\<close>

definition errors_noted :: "string \<Rightarrow> (taskq_error \<times> rat \<times> rat) list \<Rightarrow> service \<Rightarrow> service" where
  "errors_noted q es s = foldl (\<lambda>s (e, now, r). note_claim_error q e now r s) s es"

definition reaches_threshold :: "nat \<Rightarrow> taskq_error \<Rightarrow> service \<Rightarrow> bool" where
  "reaches_threshold streak e s \<longleftrightarrow> (case error_threshold e s of None \<Rightarrow> False | Some n \<Rightarrow> int streak \<ge> n)"

lemma note_claim_error_fields:
  "sv_options (note_claim_error q e now r s) = sv_options s"
  "claim_streak q (note_claim_error q e now r s) = claim_streak q s + 1"
  "q' \<noteq> q \<Longrightarrow> claim_streak q' (note_claim_error q e now r s) = claim_streak q' s"
  "sv_fatal (note_claim_error q e now r s) \<noteq> None \<longleftrightarrow>
    sv_fatal s \<noteq> None \<or> reaches_threshold (claim_streak q s + 1) e s"
  by (auto simp: note_claim_error_def Let_def reaches_threshold_def service_fields claim_streak_def
      fail_service_def request_stop_def ensure_stop_task_def nudge_def)

lemma reaches_threshold_options: "sv_options s' = sv_options s \<Longrightarrow> reaches_threshold n e s' = reaches_threshold n e s"
  by (simp add: reaches_threshold_def error_threshold_def)

lemma fail_service_fatal: "(sv_fatal (fail_service e s) = None) = False"
  by (simp add: service_fields)

lemma ex_index_snoc:
  "(\<exists>k < length (xs @ [x]). P ((xs @ [x]) ! k) k) \<longleftrightarrow> (\<exists>k < length xs. P (xs ! k) k) \<or> P x (length xs)"
proof
  assume "\<exists>k < length (xs @ [x]). P ((xs @ [x]) ! k) k"
  then obtain k where "k < Suc (length xs)" "P ((xs @ [x]) ! k) k" by auto
  then show "(\<exists>k < length xs. P (xs ! k) k) \<or> P x (length xs)"
    by (cases "k < length xs") (auto simp: nth_append less_Suc_eq)
next
  assume "(\<exists>k < length xs. P (xs ! k) k) \<or> P x (length xs)"
  then show "\<exists>k < length (xs @ [x]). P ((xs @ [x]) ! k) k"
  proof
    assume "\<exists>k < length xs. P (xs ! k) k"
    then obtain k where "k < length xs" "P (xs ! k) k" by blast
    then show ?thesis by (intro exI [of _ k]) (simp add: nth_append)
  next
    assume "P x (length xs)"
    then show ?thesis by (intro exI [of _ "length xs"]) simp
  qed
qed

lemma errors_noted_spec:
  "sv_options (errors_noted q es s) = sv_options s \<and>
   claim_streak q (errors_noted q es s) = claim_streak q s + length es \<and>
   (sv_fatal (errors_noted q es s) \<noteq> None \<longleftrightarrow> sv_fatal s \<noteq> None \<or>
     (\<exists>k < length es. reaches_threshold (claim_streak q s + k + 1) (fst (es ! k)) s))"
proof (induction es rule: rev_induct)
  case (snoc x es)
  obtain e now r where x: "x = (e, now, r)" by (cases x) auto
  define s' where "s' = errors_noted q es s"
  have step: "errors_noted q (es @ [x]) s = note_claim_error q e now r s'"
    by (simp add: errors_noted_def x s'_def)
  have ih: "sv_options s' = sv_options s" "claim_streak q s' = claim_streak q s + length es"
    "sv_fatal s' \<noteq> None \<longleftrightarrow> sv_fatal s \<noteq> None \<or>
      (\<exists>k < length es. reaches_threshold (claim_streak q s + k + 1) (fst (es ! k)) s)"
    using snoc unfolding s'_def by blast+
  show ?case
    unfolding step note_claim_error_fields ih(3)
      ex_index_snoc [where P = "\<lambda>y k. reaches_threshold (claim_streak q s + k + 1) (fst y) s"]
    using ih(1,2) by (simp add: x add.assoc reaches_threshold_options [OF ih(1)])
qed (simp add: errors_noted_def)

text \<open>
  C29: the errors of the claims of a queue are fatal exactly at their threshold.  After any run of errors
  of a queue that no answer interrupts, the service has failed exactly if at some error the length of
  the run so far had reached the threshold for that kind of error: the unavailability of the queue has
  its own, and without one it never fails the service, however long it lasts.  An error that is not fatal makes
  the queue rest, at most one and a half times the backoff cap.
\<close>

theorem claim_errors_fatal_at_threshold:
  assumes "service_options_valid (sv_options s)" and "sv_fatal s = None" and "claim_streak q s = 0"
    and "0 \<le> r" and "r \<le> 1"
  shows "(sv_fatal (errors_noted q es s) \<noteq> None \<longleftrightarrow>
      (\<exists>k < length es. reaches_threshold (k + 1) (fst (es ! k)) s)) \<and>
    (so_unavailable_fatal_threshold (sv_options s) = None \<and> (\<forall>x \<in> set es. err_code (fst x) = UNAVAILABLE) \<longrightarrow>
      sv_fatal (errors_noted q es s) = None) \<and>
    (sv_fatal (note_claim_error q e now r s) = None \<longrightarrow>
      (\<exists>u. dget (sv_retry_at (note_claim_error q e now r s)) q = Some u \<and> now < u \<and>
        u \<le> now + so_claim_backoff_cap (sv_options s) * (3 / 2)))"
proof (intro conjI impI)
  show fatal: "sv_fatal (errors_noted q es s) \<noteq> None \<longleftrightarrow>
      (\<exists>k < length es. reaches_threshold (k + 1) (fst (es ! k)) s)"
    using errors_noted_spec [of q es s] assms(2,3) by simp
  show "sv_fatal (errors_noted q es s) = None"
    if a: "so_unavailable_fatal_threshold (sv_options s) = None \<and> (\<forall>x \<in> set es. err_code (fst x) = UNAVAILABLE)"
  proof -
    have "error_threshold (fst (es ! k)) s = None" if "k < length es" for k
      using a that by (simp add: error_threshold_def)
    then show ?thesis using fatal by (auto simp: reaches_threshold_def)
  qed
  have v: "0 < so_claim_backoff_base (sv_options s)" "0 < so_claim_backoff_cap (sv_options s)"
    using assms(1) by (auto simp: service_options_valid_def)
  have "0 < claim_backoff n r s" for n
    using v assms(4) by (simp add: claim_backoff_def)
  moreover have "claim_backoff n r s \<le> so_claim_backoff_cap (sv_options s) * (3 / 2)" for n
    unfolding claim_backoff_def using v assms(4,5) by (intro mult_mono) auto
  ultimately have "0 < claim_backoff n r s" "claim_backoff n r s \<le> so_claim_backoff_cap (sv_options s) * (3 / 2)" for n
    by blast+
  then show "\<exists>u. dget (sv_retry_at (note_claim_error q e now r s)) q = Some u \<and> now < u \<and>
      u \<le> now + so_claim_backoff_cap (sv_options s) * (3 / 2)"
    if "sv_fatal (note_claim_error q e now r s) = None"
    using that by (auto simp: note_claim_error_def Let_def fail_service_fatal split: if_splits)
qed

text \<open>Eight errors of the contended queue are fatal, eight outages are not.\<close>

definition sample_errors :: "tq_code \<Rightarrow> (taskq_error \<times> rat \<times> rat) list" where
  "sample_errors c = replicate 8 (\<lparr>err_code = c, err_details = [], err_retryable = True, err_retry_after = None,
     err_protocol = False\<rparr>, 1, 1 / 2)"

theorem claim_errors_fatal_at_threshold_witness:
  "sv_fatal (errors_noted ''q'' (sample_errors INTERNAL) sample_asking) \<noteq> None \<and>
   sv_fatal (errors_noted ''q'' (sample_errors UNAVAILABLE) sample_asking) = None"
proof -
  have pre: "service_options_valid (sv_options sample_asking)" "sv_fatal sample_asking = None"
    "claim_streak ''q'' sample_asking = 0" "so_claim_fatal_threshold (sv_options sample_asking) = 8"
    "so_unavailable_fatal_threshold (sv_options sample_asking) = None"
    using sample_options_valid
    by (simp_all add: sample_asking_def sample_service_def service_of_def claim_streak_def sample_options_def
        default_service_options_def)
  have "\<exists>k < length (sample_errors INTERNAL). reaches_threshold (k + 1) (fst (sample_errors INTERNAL ! k)) sample_asking"
    by (rule exI [of _ 7]) (simp add: sample_errors_def reaches_threshold_def error_threshold_def pre(4))
  moreover have "\<forall>x \<in> set (sample_errors UNAVAILABLE). err_code (fst x) = UNAVAILABLE"
    by (simp add: sample_errors_def)
  ultimately show ?thesis
    using claim_errors_fatal_at_threshold [OF pre(1,2,3), of 0] pre(5) by fastforce
qed

section \<open>Polls\<close>

text \<open>
  A poll is bounded: while it listens to nudges it lasts at most the longer of the poll interval and
  the idle cap, with the jitter, and the quiet window in which a nudge is deferred at most its cap.
\<close>

theorem polls_bounded:
  assumes "service_init sha reg wk ops sup_ops nf pols = Inr s0" and "service_options_valid ops"
    and "opt_ok worker_options_valid sup_ops" and "service_reaches s0 s"
    and "sv_claim s = ClaimPolls delay False gen"
  shows "0 < delay \<and> delay \<le> max (so_poll_interval (sv_options s)) (so_idle_poll_cap (sv_options s)) *
      (1 + so_poll_jitter (sv_options s)) \<and> 0 < quiet_window s \<and> quiet_window s \<le> so_nudge_quiet_cap (sv_options s)"
  using init_reaches_inv [OF assms(1-4)] assms(5)
  by (auto simp: service_inv_def claim_ok_def quiet_window_def service_options_valid_def)

text \<open>The queue is empty, and the service polls.\<close>

definition sample_polling :: service where
  "sample_polling = sample_asking\<lparr>sv_sweeps := 1, sv_claim := ClaimPolls 5 False 0\<rparr>"

lemma sample_polled:
  "service_run [EvClaimAnswered (Inr \<lparr>cr_state = CLAIM_EMPTY, cr_jobs = [], cr_retry_after = None\<rparr>) sample_claim_turn]
     sample_asking = Some sample_polling"
  by (simp add: sample_polling_def sample_asking_def sample_service_defs claim_resumes_def claim_answered_def
      act_on_claim_def queue_answers_def observe_claim_result_def sweep_goes_on_def sweep_over_def
      begin_poll_def all_backing_off_def backing_off_def idle_delay_def Let_def)

theorem polls_bounded_witness:
  "sv_claim sample_polling = ClaimPolls 5 False 0 \<and>
   5 \<le> max (so_poll_interval (sv_options sample_polling)) (so_idle_poll_cap (sv_options sample_polling)) *
     (1 + so_poll_jitter (sv_options sample_polling)) \<and>
   quiet_window sample_polling \<le> so_nudge_quiet_cap (sv_options sample_polling)"
proof -
  have "service_reaches sample_asking sample_polling"
    by (rule service_run_reaches [OF sample_polled]) (simp add: turn_ok_def sample_claim_turn_def)
  from reaches_trans [OF this sample_asking_reached] have reach: "service_reaches sample_service sample_polling" .
  have pc: "sv_claim sample_polling = ClaimPolls 5 False 0" by (simp add: sample_polling_def)
  show ?thesis
    using polls_bounded [OF sample_service_init sample_options_valid _ reach pc] pc by simp
qed

end
