(* ===== verification/WorkerServiceStop.thy ===== *)
theory WorkerServiceStop
  imports WorkerServiceProps
begin

text \<open>
  Stop and failure are final: what a stop request, a failure and a stopping supervisor mean for every
  later state of the service.
\<close>

section \<open>Flags that stay\<close>

definition flags_stay :: "service \<Rightarrow> service \<Rightarrow> bool" where
  "flags_stay s s' \<longleftrightarrow> (sv_stop s \<longrightarrow> sv_stop s') \<and> (sv_fatal s \<noteq> None \<longrightarrow> sv_fatal s' = sv_fatal s) \<and>
     (sp_stopping (sv_supervisor s) \<longrightarrow> sp_stopping (sv_supervisor s'))"

lemma flags_stay_refl: "flags_stay s s"
  by (simp add: flags_stay_def)

lemma flags_stay_trans: "flags_stay s s' \<Longrightarrow> flags_stay s' s'' \<Longrightarrow> flags_stay s s''"
  by (simp add: flags_stay_def)

lemma flags_stay_same:
  "sv_stop s' = sv_stop s \<Longrightarrow> sv_fatal s' = sv_fatal s \<Longrightarrow> sv_supervisor s' = sv_supervisor s \<Longrightarrow> flags_stay s s'"
  by (simp add: flags_stay_def)

lemma update_run_stopping [simp]: "sp_stopping (update_run k f sp) = sp_stopping sp"
  by (simp add: update_run_def case_prod_unfold split: option.split)

lemma register_run_stopping [simp]: "sp_stopping (register_run k b cl sp) = sp_stopping sp"
  by (simp add: register_run_def Let_def case_prod_unfold)

lemma run_finished_stopping: "sp_stopping sp \<Longrightarrow> sp_stopping (run_finished k r sp)"
  by (simp add: run_finished_eq Let_def)

lemma sup_stop_stopping [simp]: "sp_stopping (sup_stop cancel sp)"
  by (simp add: sup_stop_def Let_def)

lemma supervisor_step_stopping: "supervisor_step e sp = Some sp' \<Longrightarrow> sp_stopping sp \<Longrightarrow> sp_stopping sp'"
  by (cases e) (auto simp: answer_def sup_start_def submit_def run_job_def reserve_def run_updated_def
      run_finished_stopping stop_escalates_def stop_ends_def split: if_splits)

lemma submit_each_stopping: "submit_each submit cs sp = (n, e, sp') \<Longrightarrow> sp_stopping sp \<Longrightarrow> sp_stopping sp'"
proof (induction cs arbitrary: sp n)
  case (Cons c cs)
  show ?case
  proof (cases "submit c sp")
    case (Inr sp1)
    have "sp_stopping sp1"
      using supervisor_step_stopping [of "SupSubmit c" sp sp1] Inr Cons.prems(2) by (simp add: answer_def)
    then show ?thesis using Cons Inr by (auto split: prod.splits)
  qed (use Cons.prems in auto)
qed simp

named_theorems stay "operations under which the flags stay"

lemma small_stay [stay]:
  "flags_stay s (nudge s)" "flags_stay s (ensure_stop_task s)" "flags_stay s (request_stop s)"
  "flags_stay s (fail_service e s)" "flags_stay s (refresh_running_state s)" "flags_stay s (claim_ends s)"
  "flags_stay s (fst (presence_written ans now s))" "flags_stay s (observe_job r s)"
  "flags_stay s (observe_claim_result g a s)" "flags_stay s (note_claim_error q te now x s)"
  "flags_stay s (rest_queue q u s)" "flags_stay s (queue_answers q s)" "flags_stay s (begin_poll t s)"
  "flags_stay s (ask n q sent claimed s)" "flags_stay s (start_ends s)"
  by (auto simp: flags_stay_def nudge_def ensure_stop_task_def request_stop_def fail_service_def
      refresh_running_state_def claim_ends_def presence_written_def observe_job_def observe_claim_result_def
      note_claim_error_def rest_queue_def queue_answers_def begin_poll_def ask_def start_ends_def Let_def
      split: sum.split)

lemma pick_queue_stays: "flags_stay s (snd (pick_queue n clk s))"
proof (induction n clk s rule: pick_queue.induct)
  case (2 n clk s)
  show ?case
    using 2 by (auto simp: Let_def flags_stay_def split: option.split)
qed (simp add: flags_stay_refl)

lemma fresh_sweep_stays [stay]: "flags_stay s (fresh_sweep clk t s)"
proof -
  obtain r s1 where p: "pick_queue (length (so_queues (sv_options s))) clk s = (r, s1)" by force
  then have "flags_stay s s1" using pick_queue_stays [of s "length (so_queues (sv_options s))" clk] by simp
  then show ?thesis
    using flags_stay_trans small_stay(13,14) p by (auto simp: fresh_sweep_def split: option.split)
qed

lemma claim_top_stays [stay]: "flags_stay s (claim_top t s)"
  by (simp add: claim_top_def stay flags_stay_same)

lemma sweep_over_stays [stay]: "flags_stay s (sweep_over claimed t s)"
proof -
  have "flags_stay s s1 \<Longrightarrow> flags_stay s (claim_top t s1)" "flags_stay s s1 \<Longrightarrow> flags_stay s (begin_poll t s1)" for s1
    by (auto intro: flags_stay_trans stay)
  then show ?thesis by (simp add: sweep_over_def Let_def flags_stay_same)
qed

lemma sweep_goes_on_stays [stay]: "flags_stay s (sweep_goes_on n claimed t s)"
proof -
  obtain r s1 where p: "pick_queue n (ct_clock t) s = (r, s1)" by force
  then have "flags_stay s s1" using pick_queue_stays [of s n "ct_clock t"] by simp
  then show ?thesis
    using flags_stay_trans small_stay(14) sweep_over_stays p by (auto simp: sweep_goes_on_def split: option.split)
qed

lemma claim_answered_stays: "flags_stay s (snd (claim_answered q batch ans now r s))"
proof -
  have jobs: "flags_stay s (snd (jobs_claimed js batch now s))" for js s
  proof -
    obtain n e sp where sub: "submit_each submit js (sv_supervisor s) = (n, e, sp)" by (metis prod_cases3)
    have "flags_stay s (s\<lparr>sv_supervisor := sp, sv_submitted := k\<rparr>)"
      "flags_stay s (s\<lparr>sv_supervisor := sp, sv_submitted := k, sv_claimed := c, sv_last_claim := u\<rparr>)" for k c u
      using submit_each_stopping [OF sub] by (simp_all add: flags_stay_def)
    then show ?thesis
      using sub by (auto simp: jobs_claimed_def Let_def flags_stay_refl
          intro: flags_stay_trans [OF _ small_stay(9)] split: option.split)
  qed
  have act: "flags_stay s1 (snd (act_on_claim q batch res now r s1))" for res s1
    by (cases "cr_state res")
      (simp_all add: act_on_claim_def jobs stay flags_stay_refl flags_stay_trans [OF small_stay(11) small_stay(9)])
  show ?thesis
  proof (cases ans)
    case (Inl e)
    then show ?thesis by (cases e) (simp_all add: claim_answered_def stay flags_stay_refl)
  next
    case (Inr res)
    then show ?thesis using flags_stay_trans [OF small_stay(12) act] by (simp add: claim_answered_def)
  qed
qed

lemma claim_resumes_stays: "claim_resumes ans t s = Some s' \<Longrightarrow> flags_stay s s'"
proof -
  assume st: "claim_resumes ans t s = Some s'"
  obtain q batch sent n claimed where pc: "sv_claim s = ClaimAsks q batch sent n claimed"
    using st by (auto simp: claim_resumes_def split: claim_pc.splits)
  obtain r s1 where a: "claim_answered q batch ans (ct_now t) (ct_random t) s = (r, s1)" by force
  have s1: "flags_stay s s1" using claim_answered_stays [of s q batch ans "ct_now t" "ct_random t"] a by simp
  have "flags_stay s (claim_ends (fail_service e s1))" "flags_stay s (sweep_goes_on n c t s1)" for e c
    by (rule flags_stay_trans [OF s1 flags_stay_trans [OF small_stay(4) small_stay(6)]],
        rule flags_stay_trans [OF s1 sweep_goes_on_stays])
  then show ?thesis using st pc a by (auto simp: claim_resumes_def split: sum.splits)
qed

lemma other_resumes_stay:
  "claim_starts t s = Some s' \<Longrightarrow> flags_stay s s'" "capacity_resumes t s = Some s' \<Longrightarrow> flags_stay s s'"
  "poll_resumes w t s = Some s' \<Longrightarrow> flags_stay s s'" "quiet_resumes t s = Some s' \<Longrightarrow> flags_stay s s'"
proof -
  have top: "flags_stay s (claim_top t (s\<lparr>sv_last_wake := w\<rparr>))"
    "flags_stay s (claim_top t (s\<lparr>sv_idle_polls := k, sv_last_wake := w\<rparr>))" for w k
    by (rule flags_stay_trans [OF flags_stay_same claim_top_stays]; simp)+
  show "claim_starts t s = Some s' \<Longrightarrow> flags_stay s s'"
    by (auto simp: claim_starts_def stay split: if_splits)
  show "capacity_resumes t s = Some s' \<Longrightarrow> flags_stay s s'"
    by (auto simp: capacity_resumes_def stay split: if_splits)
  show "poll_resumes w t s = Some s' \<Longrightarrow> flags_stay s s'"
    using top by (auto simp: poll_resumes_def Let_def flags_stay_same split: claim_pc.splits if_splits)
  show "quiet_resumes t s = Some s' \<Longrightarrow> flags_stay s s'"
    using top by (auto simp: quiet_resumes_def split: claim_pc.splits)
qed

lemma supervised_stays:
  "with_supervisor e s = Some s' \<Longrightarrow> flags_stay s s'"
  "(if c then None else with_supervisor e s) = Some s' \<Longrightarrow> flags_stay s s'"
  by (auto simp: with_supervisor_def flags_stay_def intro: supervisor_step_stopping split: if_splits)

lemma start_written_stays: "start_written ans now s = Some s' \<Longrightarrow> flags_stay s s'"
proof -
  assume st: "start_written ans now s = Some s'"
  obtain s1 shutdown where w: "presence_written ans now s = (s1, shutdown)" by force
  have s1: "flags_stay s s1" using small_stay(7) [of s ans now] w by simp
  have "flags_stay s1 (start_ends (s1\<lparr>sv_supervisor := sp\<rparr>))" if "sup_start (sv_supervisor s1) = Inr sp" for sp
    using that by (intro flags_stay_trans [OF _ small_stay(15)])
      (auto simp: sup_start_def flags_stay_def split: if_splits)
  then have "flags_stay s1 s'"
    using st w by (auto simp: start_written_def Let_def flags_stay_same sup_start_def flags_stay_def service_fields
        split: if_splits sum.splits)
  then show ?thesis by (rule flags_stay_trans [OF s1])
qed

lemma beside_stay:
  "start_begins now s = Some s' \<Longrightarrow> flags_stay s s'" "start_listened s = Some s' \<Longrightarrow> flags_stay s s'"
  "presence_due s = Some s' \<Longrightarrow> flags_stay s s'" "listener_connected s = Some s' \<Longrightarrow> flags_stay s s'"
  "listener_lost raised s = Some s' \<Longrightarrow> flags_stay s s'" "listener_retries s = Some s' \<Longrightarrow> flags_stay s s'"
  "waiter_runs s = Some s' \<Longrightarrow> flags_stay s s'" "stop_begins s = Some s' \<Longrightarrow> flags_stay s s'"
  "claim_cancelled s = Some s' \<Longrightarrow> flags_stay s s'" "stop_admission s = Some s' \<Longrightarrow> flags_stay s s'"
  "stop_finishes s = Some s' \<Longrightarrow> flags_stay s s'" "job_finishes k r s = Some s' \<Longrightarrow> flags_stay s s'"
  "Some (nudge s) = Some s' \<Longrightarrow> flags_stay s s'" "Some (service_stop cancel s) = Some s' \<Longrightarrow> flags_stay s s'"
  by (auto simp: start_begins_def start_listened_def presence_due_def listener_connected_def listener_lost_def
      listener_retries_def waiter_runs_def stop_begins_def claim_cancelled_def stop_admission_def
      stop_finishes_def job_finishes_def service_stop_def Let_def run_finished_stopping
      flags_stay_def service_fields start_ends_def claim_ends_def split: if_splits claim_pc.splits)

lemma job_observed_stays: "job_observed s = Some s' \<Longrightarrow> flags_stay s s'"
  by (auto simp: job_observed_def intro: flags_stay_trans [OF flags_stay_same small_stay(8)] split: list.splits)

lemma presence_answered_stays: "presence_answered ans now s = Some s' \<Longrightarrow> flags_stay s s'"
proof -
  assume st: "presence_answered ans now s = Some s'"
  obtain s1 shutdown where w: "presence_written ans now s = (s1, shutdown)" by force
  have "flags_stay s1 s'"
    using st w by (auto simp: presence_answered_def flags_stay_def service_fields split: if_splits)
  then show ?thesis using flags_stay_trans [OF small_stay(7) [of s ans now]] w by simp
qed

lemma service_step_stays: "service_step e s = Some s' \<Longrightarrow> flags_stay s s'"
  by (cases e; simp only: service_step.simps;
      (erule beside_stay supervised_stays start_written_stays presence_answered_stays job_observed_stays
        claim_resumes_stays other_resumes_stay))

section \<open>A closed service sends no claim\<close>

definition asking :: "service \<Rightarrow> bool" where
  "asking s \<longleftrightarrow> (case sv_claim s of ClaimAsks q batch sent n claimed \<Rightarrow> True | _ \<Rightarrow> False)"

definition closed :: "service \<Rightarrow> bool" where
  "closed s \<longleftrightarrow> sv_stop s \<or> sp_stopping (sv_supervisor s)"

lemma closed_stays: "closed s \<Longrightarrow> flags_stay s s' \<Longrightarrow> closed s'"
  by (auto simp: closed_def flags_stay_def)

lemma closed_slots: "closed s \<Longrightarrow> supervisor_inv (sv_supervisor s) \<Longrightarrow> sv_stop s \<or> available_slots (sv_supervisor s) = 0"
  by (auto simp: closed_def supervisor_inv_def phases_ok_def available_slots_def)

lemma closed_pick: "closed s \<Longrightarrow> supervisor_inv (sv_supervisor s) \<Longrightarrow> pick_queue n clk s = (None, s)"
  using closed_slots by (cases n) simp_all

lemma closed_not_asking:
  assumes "closed s" and "supervisor_inv (sv_supervisor s)"
  shows "\<not> asking (begin_poll t s)" "\<not> asking (claim_top t s)" "\<not> asking (fresh_sweep clk t s)"
    "\<not> asking (sweep_over claimed t s)" "\<not> asking (sweep_goes_on n claimed t s)" "\<not> asking (claim_ends s)"
proof -
  have poll: "\<not> asking (begin_poll t s')" for s' by (simp add: asking_def begin_poll_def Let_def)
  have fresh: "\<not> asking (fresh_sweep clk t s')" if "closed s'" "supervisor_inv (sv_supervisor s')" for s' clk
    using closed_pick [OF that] poll by (simp add: fresh_sweep_def)
  have top: "\<not> asking (claim_top t s')" if "closed s'" "supervisor_inv (sv_supervisor s')" for s'
    using fresh [OF that] by (simp add: claim_top_def) (simp add: asking_def claim_ends_def)
  have "\<not> asking (claim_top t (s\<lparr>sv_idle_polls := 0, sv_fruitless := 0, sv_quiet_until := 0\<rparr>))"
    using assms by (intro top) (simp_all add: closed_def)
  then have over: "\<not> asking (sweep_over claimed t s)"
    by (simp add: sweep_over_def Let_def poll)
  show "\<not> asking (sweep_goes_on n claimed t s)"
    using closed_pick [OF assms] over by (simp add: sweep_goes_on_def)
  show "\<not> asking (begin_poll t s)" "\<not> asking (claim_top t s)" "\<not> asking (fresh_sweep clk t s)"
    "\<not> asking (sweep_over claimed t s)"
    using poll top [OF assms] fresh [OF assms] over by blast+
  show "\<not> asking (claim_ends s)" by (simp add: asking_def claim_ends_def)
qed

definition asks_the_same :: "service \<Rightarrow> service \<Rightarrow> bool" where
  "asks_the_same s s' \<longleftrightarrow> (asking s' \<longrightarrow> sv_claim s' = sv_claim s)"

lemma beside_ask:
  "start_begins now s = Some s' \<Longrightarrow> asks_the_same s s'" "start_listened s = Some s' \<Longrightarrow> asks_the_same s s'"
  "start_written ans now s = Some s' \<Longrightarrow> asks_the_same s s'"
  "presence_due s = Some s' \<Longrightarrow> asks_the_same s s'" "listener_connected s = Some s' \<Longrightarrow> asks_the_same s s'"
  "presence_answered ans now s = Some s' \<Longrightarrow> asks_the_same s s'"
  "listener_lost raised s = Some s' \<Longrightarrow> asks_the_same s s'" "listener_retries s = Some s' \<Longrightarrow> asks_the_same s s'"
  "waiter_runs s = Some s' \<Longrightarrow> asks_the_same s s'" "stop_begins s = Some s' \<Longrightarrow> asks_the_same s s'"
  "claim_cancelled s = Some s' \<Longrightarrow> asks_the_same s s'" "stop_admission s = Some s' \<Longrightarrow> asks_the_same s s'"
  "stop_finishes s = Some s' \<Longrightarrow> asks_the_same s s'" "job_finishes k r s = Some s' \<Longrightarrow> asks_the_same s s'"
  "Some (nudge s) = Some s' \<Longrightarrow> asks_the_same s s'" "Some (service_stop cancel s) = Some s' \<Longrightarrow> asks_the_same s s'"
  "with_supervisor e s = Some s' \<Longrightarrow> asks_the_same s s'"
  "(if c then None else with_supervisor e s) = Some s' \<Longrightarrow> asks_the_same s s'"
  "job_observed s = Some s' \<Longrightarrow> asks_the_same s s'"
  by (auto simp: start_begins_def start_listened_def start_written_def presence_due_def listener_connected_def
      presence_answered_def listener_lost_def listener_retries_def waiter_runs_def stop_begins_def
      claim_cancelled_def stop_admission_def stop_finishes_def job_finishes_def service_stop_def
      with_supervisor_def job_observed_def observe_job_def Let_def asks_the_same_def asking_def
      service_fields start_ends_def claim_ends_def presence_written_def
      split: if_splits claim_pc.splits list.splits sum.splits)

lemma claim_resumes_closed:
  assumes inv: "service_inv s" and "closed s" and st: "claim_resumes ans t s = Some s'"
  shows "\<not> asking s'"
proof -
  obtain q batch sent n claimed where pc: "sv_claim s = ClaimAsks q batch sent n claimed"
    using st by (auto simp: claim_resumes_def split: claim_pc.splits)
  obtain r s1 where a: "claim_answered q batch ans (ct_now t) (ct_random t) s = (r, s1)" by force
  have core: "supervisor_inv (sv_supervisor s1)"
    using claim_answered_core [OF core_of_service [OF inv], of q batch ans "ct_now t" "ct_random t"] pc a
    by (simp add: core_inv_def)
  have "closed s1"
    using closed_stays [OF assms(2) claim_answered_stays [of s q batch ans "ct_now t" "ct_random t"]] a by simp
  then have "\<not> asking (sweep_goes_on n c t s1)" for c
    using closed_not_asking(5) core by blast
  moreover have "\<not> asking (claim_ends x)" for x by (simp add: asking_def claim_ends_def)
  ultimately show ?thesis using st pc a by (auto simp: claim_resumes_def split: sum.splits)
qed

lemma other_resumes_closed:
  assumes inv: "service_inv s" and "closed s"
  shows "claim_starts t s = Some s' \<Longrightarrow> \<not> asking s'" "capacity_resumes t s = Some s' \<Longrightarrow> \<not> asking s'"
    "poll_resumes w t s = Some s' \<Longrightarrow> \<not> asking s'" "quiet_resumes t s = Some s' \<Longrightarrow> \<not> asking s'"
proof -
  have sup: "supervisor_inv (sv_supervisor s)" using inv by (simp add: service_inv_def)
  note no = closed_not_asking [OF assms(2) sup]
  have top: "\<not> asking (claim_top t (s\<lparr>sv_last_wake := w\<rparr>))"
    "\<not> asking (claim_top t (s\<lparr>sv_idle_polls := k, sv_last_wake := w\<rparr>))" for w k
    by (rule closed_not_asking(2); use sup assms(2) in \<open>simp add: closed_def\<close>)+
  have quiet: "\<not> asking (s\<lparr>sv_idle_polls := k, sv_claim := ClaimQuiet x\<rparr>)" for k x
    by (simp add: asking_def)
  show "claim_starts t s = Some s' \<Longrightarrow> \<not> asking s'"
    using no by (auto simp: claim_starts_def split: if_splits)
  show "capacity_resumes t s = Some s' \<Longrightarrow> \<not> asking s'"
    using no by (auto simp: capacity_resumes_def split: if_splits)
  show "poll_resumes w t s = Some s' \<Longrightarrow> \<not> asking s'"
    using top quiet by (auto simp: poll_resumes_def Let_def split: claim_pc.splits if_splits)
  show "quiet_resumes t s = Some s' \<Longrightarrow> \<not> asking s'"
    using top by (auto simp: quiet_resumes_def split: claim_pc.splits)
qed

lemma closed_step:
  assumes "service_inv s" and "closed s"
  shows "service_step e s = Some s' \<Longrightarrow> asks_the_same s s'"
proof -
  have no: "\<not> asking s' \<Longrightarrow> asks_the_same s s'" by (simp add: asks_the_same_def)
  note resumes = claim_resumes_closed [OF assms(1,2), THEN no] other_resumes_closed [OF assms(1,2), THEN no]
  show "service_step e s = Some s' \<Longrightarrow> asks_the_same s s'"
    by (cases e; simp only: service_step.simps; (erule beside_ask resumes))
qed

lemma closed_reaches:
  assumes "service_reaches s s'" and "service_inv s" and "closed s"
  shows "closed s' \<and> asks_the_same s s'"
  using assms(1)
proof (induction rule: service_reaches.induct)
  case reach_start
  then show ?case using assms(3) by (simp add: asks_the_same_def)
next
  case (reach_step s1 e s2)
  have "service_inv s1" using service_reaches_inv [OF reach_step.hyps(1) assms(2)] .
  then show ?case
    using closed_step [OF _ _ reach_step.hyps(3)] reach_step.IH
      closed_stays [OF _ service_step_stays [OF reach_step.hyps(3)]]
    by (auto simp: asks_the_same_def asking_def)
qed

lemma fatal_stays:
  "service_reaches s s' \<Longrightarrow> sv_fatal s = Some e \<Longrightarrow> sv_fatal s' = Some e"
  by (induction rule: service_reaches.induct) (use service_step_stays in \<open>auto simp: flags_stay_def\<close>)

text \<open>
  C27: stop and failure are final.  Once the stop is requested, whatever the jobs, the listener, the
  presence row or the callers do, no further claim is sent: the only claim that can still be awaited is
  the one that was in flight.  Once the service has failed it keeps its first error, its stop stays
  requested, and it is never ready again.
\<close>

theorem stop_and_failure_final:
  assumes "service_init sha reg wk ops sup_ops nf pols = Inr s0" and "service_options_valid ops"
    and "opt_ok worker_options_valid sup_ops" and "service_reaches s0 s" and "service_reaches s s'"
  shows "(sv_stop s \<and> sv_claim s' = ClaimAsks q batch sent n claimed \<longrightarrow>
      sv_claim s = ClaimAsks q batch sent n claimed) \<and> (sv_stop s \<longrightarrow> sv_stop s') \<and>
    (sv_fatal s = Some e \<longrightarrow> sv_fatal s' = Some e \<and> sv_stop s' \<and> \<not> ready s')"
proof -
  note inv = init_reaches_inv [OF assms(1-4)]
  note inv' = service_reaches_inv [OF assms(5) inv]
  have "asks_the_same s s'" if "sv_stop s"
    using closed_reaches [OF assms(5) inv] that by (simp add: closed_def)
  moreover have "sv_stop s \<longrightarrow> sv_stop s'"
    using assms(5) by (induction rule: service_reaches.induct)
      (use service_step_stays in \<open>auto simp: flags_stay_def\<close>)
  moreover have "sv_stop s' \<and> \<not> ready s'" if "sv_fatal s' = Some e"
    using inv' that by (auto simp: service_inv_def failure_ok_def ready_def)
  ultimately show ?thesis
    using fatal_stays [OF assms(5)] by (auto simp: asks_the_same_def asking_def)
qed

text \<open>The queue answers that it does not exist: the service has failed.\<close>

definition sample_failed :: service where
  "sample_failed = claim_ends (fail_service invariant_error (sample_asking\<lparr>sv_sweeps := 1\<rparr>))"

lemma sample_failed_reached: "service_reaches sample_asking sample_failed"
proof (rule service_run_reaches)
  show "service_run [EvClaimAnswered (Inr \<lparr>cr_state = UNKNOWN_QUEUE, cr_jobs = [], cr_retry_after = None\<rparr>)
      sample_claim_turn] sample_asking = Some sample_failed"
    by (simp add: sample_failed_def sample_asking_def sample_service_defs claim_resumes_def claim_answered_def
        act_on_claim_def queue_answers_def)
qed (simp add: turn_ok_def sample_claim_turn_def)

theorem stop_and_failure_final_witness:
  "sv_fatal (nudge sample_failed) = Some invariant_error \<and> \<not> ready (nudge sample_failed)"
proof -
  have fatal: "sv_fatal sample_failed = Some invariant_error"
    by (simp add: sample_failed_def claim_ends_def fail_service_def request_stop_def ensure_stop_task_def
        nudge_def sample_asking_def sample_service_def service_of_def)
  have "service_reaches sample_failed (nudge sample_failed)"
    by (rule reach_step [OF reach_start, of EvNudge]) simp_all
  from stop_and_failure_final [OF sample_service_init sample_options_valid _
      reaches_trans [OF sample_failed_reached sample_asking_reached] this] fatal
  show ?thesis by auto
qed

section \<open>A failure that goes unnoticed\<close>

text \<open>
  C28: A fatal report that carries a settlement outcome, as a settlement conflict does, stops the
  supervisor, but the callback raises before it fails the service: neither the state of the service nor
  its error tells, and the service never sends a claim again.
\<close>

theorem unread_outcome_hides_failure:
  assumes "service_init sha reg wk ops sup_ops nf pols = Inr s0" and "service_options_valid ops"
    and "opt_ok worker_options_valid sup_ops" and "service_reaches s0 s"
    and fin: "job_finishes k (Inr rep) s = Some s1" and "sv_unseen s = []"
    and "rp_fatal rep" and "rp_settled_as rep \<noteq> None" and "job_observed s1 = Some s2"
    and "service_reaches s2 s'"
  shows "sv_state s2 = sv_state s \<and> sv_fatal s2 = sv_fatal s \<and> sv_stop s2 = sv_stop s \<and>
    available_slots (sv_supervisor s2) = 0 \<and>
    (sv_claim s' = ClaimAsks q batch sent n claimed \<longrightarrow> sv_claim s = ClaimAsks q batch sent n claimed)"
proof -
  note inv = init_reaches_inv [OF assms(1-4)]
  have s1: "s1 = s\<lparr>sv_supervisor := run_finished k (Inr rep) (sv_supervisor s), sv_unseen := [Inr rep]\<rparr>"
    using fin assms(6) by (auto simp: job_finishes_def split: if_splits)
  then have s2: "s2 = s1\<lparr>sv_unseen := []\<rparr>"
    using assms(7-9) by (simp add: job_observed_def observe_job_def)
  have sup: "sp_stopping (sv_supervisor s2)" "\<not> sp_accepting (sv_supervisor s2)"
    using assms(7) by (simp_all add: s2 s1 run_finished_eq Let_def)
  have "service_inv s2"
    using job_observed_inv [OF job_finishes_inv [OF inv fin] assms(9)] .
  then have "asks_the_same s2 s'"
    using closed_reaches [OF assms(10)] sup(1) by (simp add: closed_def)
  moreover have "sv_claim s2 = sv_claim s" by (simp add: s2 s1)
  ultimately show ?thesis
    using sup(2) by (auto simp: s2 s1 available_slots_def asks_the_same_def asking_def)
qed

text \<open>The claimed job ends in a settlement conflict: the service stays ready, with no slot.\<close>

definition sample_busy :: service where
  "sample_busy = sample_asking
     \<lparr>sv_supervisor := sample_supervisor\<lparr>sp_accepting := True, sp_active := [(1, 2)]\<rparr>, sv_submitted := 1,
      sv_claimed := 1, sv_last_claim := Some 1, sv_sweeps := 1, sv_claim := ClaimPolls 5 False 0\<rparr>"

lemma sample_busy_reached: "service_reaches sample_service sample_busy"
proof (rule reaches_trans [OF service_run_reaches sample_asking_reached])
  show "service_run [EvClaimAnswered (Inr \<lparr>cr_state = CLAIMED, cr_jobs = [sample_job 1], cr_retry_after = None\<rparr>)
      sample_claim_turn] sample_asking = Some sample_busy"
    by (simp add: sample_busy_def sample_asking_def sample_service_defs claim_resumes_def claim_answered_def
        act_on_claim_def queue_answers_def jobs_claimed_def submit_def reserve_def key_of_def sample_job_def
        observe_claim_result_def sweep_goes_on_def sweep_over_def claim_top_def begin_poll_def
        all_backing_off_def backing_off_def idle_delay_def available_slots_def free_slots_def
        active_slots_def Let_def)
qed (simp add: turn_ok_def sample_claim_turn_def)

definition conflict_report :: job_run_report where
  "conflict_report = report_from_settle 1 C_COMPLETE
     \<lparr>sr_result = SETTLE_CONFLICT, sr_job_status = None, sr_scheduled_at = None\<rparr>"

theorem unread_outcome_hides_failure_witness:
  "\<exists>s1 s2. job_finishes (1, 2) (Inr conflict_report) sample_busy = Some s1 \<and> job_observed s1 = Some s2 \<and>
     ready s2 \<and> sv_fatal s2 = None \<and> available_slots (sv_supervisor s2) = 0"
proof -
  have rep: "rp_fatal conflict_report" "rp_settled_as conflict_report \<noteq> None"
    "rp_outcome conflict_report = RO_SETTLE_CONFLICT"
    by (simp_all add: conflict_report_def report_from_settle_def report_of_def)
  have busy: "sv_unseen sample_busy = []" "ready sample_busy" "sv_fatal sample_busy = None"
    "sp_active (sv_supervisor sample_busy) = [(1, 2)]"
    by (simp_all add: sample_busy_def sample_asking_def sample_service_def service_of_def ready_def)
  obtain s1 where s1: "job_finishes (1, 2) (Inr conflict_report) sample_busy = Some s1"
    using rep busy by (simp add: job_finishes_def may_finish_def)
  then obtain s2 where s2: "job_observed s1 = Some s2"
    using busy(1) by (auto simp: job_finishes_def job_observed_def split: if_splits)
  show ?thesis
    using unread_outcome_hides_failure [OF sample_service_init sample_options_valid _ sample_busy_reached s1
        busy(1) rep(1,2) s2 reach_start] s1 s2 busy by (auto simp: ready_def)
qed

end
