(* ===== verification/SqlScript.thy ===== *)
theory SqlScript
  imports Schedules
begin

text \<open>
  \<open>sql/__init__.py\<close>: migration files, and the splitter that cuts a script at its top-level semicolons.
  The code scans with an index; here the scan holds what is left of the script and, reversed, what it has
  passed, which is all that the test for an \<open>E'..'\<close> string looks back at.
\<close>

section \<open>Characters and strings of Python\<close>

text \<open>\<open>str.isalnum\<close> below code point 256: letters, digits, superscripts and fractions.\<close>

definition py_alnum :: "char \<Rightarrow> bool" where
  "py_alnum c \<longleftrightarrow> (let n = ord_c c in
     48 \<le> n \<and> n \<le> 57 \<or> 65 \<le> n \<and> n \<le> 90 \<or> 97 \<le> n \<and> n \<le> 122 \<or>
     n \<in> {170, 178, 179, 181, 185, 186, 188, 189, 190} \<or>
     192 \<le> n \<and> n \<le> 255 \<and> n \<noteq> 215 \<and> n \<noteq> 247)"

definition py_lstrip :: "string \<Rightarrow> string" where
  "py_lstrip s = dropWhile py_space s"

definition py_strip :: "string \<Rightarrow> string" where
  "py_strip s = rev (py_lstrip (rev (py_lstrip s)))"

definition newline :: char where "newline = CHR 0x0A"

definition backslash :: char where "backslash = CHR 0x5C"

definition quote_char :: char where "quote_char = CHR 0x27"

definition double_quote :: char where "double_quote = CHR 0x22"

section \<open>Tokens that hide a semicolon\<close>

text \<open>Each scanner returns what it consumes and what is left.\<close>

definition consume :: "string \<Rightarrow> string \<times> string \<Rightarrow> string \<times> string" where
  "consume t p = (t @ fst p, snd p)"

fun line_comment :: "string \<Rightarrow> string \<times> string" where
  "line_comment [] = ([], [])"
| "line_comment (c # cs) = (if c = newline then ([c], cs) else consume [c] (line_comment cs))"

text \<open>After the opening of a block comment, with its nesting depth.\<close>

fun block_comment :: "nat \<Rightarrow> string \<Rightarrow> string \<times> string" where
  "block_comment 0 s = ([], s)"
| "block_comment (Suc d) [] = ([], [])"
| "block_comment (Suc d) [c] = ([c], [])"
| "block_comment (Suc d) (c # e # s) =
     (if c = CHR ''/'' \<and> e = CHR ''*'' then consume [c, e] (block_comment (Suc (Suc d)) s)
      else if c = CHR ''*'' \<and> e = CHR ''/'' then consume [c, e] (block_comment d s)
      else consume [c] (block_comment (Suc d) (e # s)))"

text \<open>After the opening quote \<open>q\<close>: a doubled quote stays inside, and so does what a backslash escapes.\<close>

fun quoted :: "char \<Rightarrow> bool \<Rightarrow> string \<Rightarrow> string \<times> string" where
  "quoted q escapes [] = ([], [])"
| "quoted q escapes [c] = ([c], [])"
| "quoted q escapes (c # e # s) =
     (if escapes \<and> c = backslash then consume [c, e] (quoted q escapes s)
      else if c = q then (if e = q then consume [c, e] (quoted q escapes s) else ([c], e # s))
      else consume [c] (quoted q escapes (e # s)))"

definition tag_start :: "char \<Rightarrow> bool" where
  "tag_start c \<longleftrightarrow> (let n = ord_c c in 65 \<le> n \<and> n \<le> 90 \<or> 97 \<le> n \<and> n \<le> 122 \<or> n = 95)"

definition tag_char :: "char \<Rightarrow> bool" where
  "tag_char c \<longleftrightarrow> tag_start c \<or> (let n = ord_c c in 48 \<le> n \<and> n \<le> 57)"

text \<open>\<open>_DOLLAR_TAG.match\<close>, given what follows the dollar: the name of the tag and the rest.\<close>

definition dollar_tag :: "string \<Rightarrow> (string \<times> string) option" where
  "dollar_tag s = (let name = takeWhile tag_char s in
     case dropWhile tag_char s of
       [] \<Rightarrow> None
     | c # r \<Rightarrow> if c = CHR ''$'' \<and> (name = [] \<or> tag_start (List.hd name)) then Some (name, r) else None)"

fun begins_with :: "string \<Rightarrow> string \<Rightarrow> bool" where
  "begins_with [] s = True"
| "begins_with (p # ps) [] = False"
| "begins_with (p # ps) (c # s) = (p = c \<and> begins_with ps s)"

text \<open>\<open>sql.find(tag, j)\<close>: everything up to the end of the first occurrence, or all of it.\<close>

fun through :: "string \<Rightarrow> string \<Rightarrow> string \<times> string" where
  "through t [] = ([], [])"
| "through t (c # s) =
     (if begins_with t (c # s) then (t, drop (length t) (c # s)) else consume [c] (through t s))"

section \<open>The splitter\<close>

text \<open>\<open>_is_estring_opener\<close>, given the characters before the quote, the nearest first.\<close>

fun is_estring_opener :: "string \<Rightarrow> bool" where
  "is_estring_opener [] = False"
| "is_estring_opener [e] = (e = CHR ''E'' \<or> e = CHR ''e'')"
| "is_estring_opener (e # p # ps) = ((e = CHR ''E'' \<or> e = CHR ''e'') \<and> \<not> (py_alnum p \<or> p = CHR ''_''))"

text \<open>One turn of the loop at the character \<open>c\<close>: the text it appends, whether it counts as code, the rest.\<close>

definition next_chunk :: "string \<Rightarrow> char \<Rightarrow> string \<Rightarrow> string \<times> bool \<times> string" where
  "next_chunk before c s = (let plain = ([c], \<not> py_space c, s) in
     if c = CHR ''-'' \<and> begins_with ''-'' s then (c # fst (line_comment s), False, snd (line_comment s))
     else if c = CHR ''/'' \<and> begins_with ''*'' s
     then (case block_comment 1 (tl s) of (t, r) \<Rightarrow> (c # CHR ''*'' # t, False, r))
     else if c = quote_char
     then (case quoted quote_char (is_estring_opener before) s of (t, r) \<Rightarrow> (c # t, True, r))
     else if c = double_quote
     then (case quoted double_quote False s of (t, r) \<Rightarrow> (c # t, True, r))
     else if c = CHR ''$''
     then (case dollar_tag s of
         None \<Rightarrow> plain
       | Some (name, r) \<Rightarrow>
           (let tag = c # name @ [c] in case through tag r of (t, r') \<Rightarrow> (tag @ t, True, r')))
     else plain)"

lemma fst_consume [simp]: "fst (consume t p) = t @ fst p" "snd (consume t p) = snd p"
  by (simp_all add: consume_def)

lemma line_comment_parts: "fst (line_comment s) @ snd (line_comment s) = s"
  by (induction s) simp_all

lemma block_comment_parts: "fst (block_comment d s) @ snd (block_comment d s) = s"
  by (induction d s rule: block_comment.induct) simp_all

lemma quoted_parts: "fst (quoted q e s) @ snd (quoted q e s) = s"
  by (induction q e s rule: quoted.induct) simp_all

lemma starts_with_take: "begins_with t s \<Longrightarrow> t @ drop (length t) s = s"
  by (induction t s rule: begins_with.induct) simp_all

lemma through_parts: "fst (through t s) @ snd (through t s) = s"
proof (induction s)
  case (Cons c s)
  then show ?case using starts_with_take [of t "c # s"] by (cases "begins_with t (c # s)") simp_all
qed simp

lemma dollar_tag_parts: "dollar_tag s = Some (name, r) \<Longrightarrow> name @ CHR ''$'' # r = s"
proof -
  assume d: "dollar_tag s = Some (name, r)"
  then have "name = takeWhile tag_char s" "dropWhile tag_char s = CHR ''$'' # r"
    by (auto simp: dollar_tag_def Let_def split: list.splits if_splits)
  then show ?thesis by (metis takeWhile_dropWhile_id)
qed

lemma starts_with_single: "begins_with [c] s \<Longrightarrow> c # tl s = s"
  by (cases s) simp_all

text \<open>The five kinds of token, each with the condition under which the loop takes it.\<close>

definition opens_line :: "char \<Rightarrow> string \<Rightarrow> bool" where
  "opens_line c s \<longleftrightarrow> c = CHR ''-'' \<and> begins_with ''-'' s"

definition opens_block :: "char \<Rightarrow> string \<Rightarrow> bool" where
  "opens_block c s \<longleftrightarrow> c = CHR ''/'' \<and> begins_with ''*'' s"

lemma next_chunk_eq:
  "next_chunk before c s =
     (if opens_line c s then (c # fst (line_comment s), False, snd (line_comment s))
      else if opens_block c s then (c # CHR ''*'' # fst (block_comment 1 (tl s)), False, snd (block_comment 1 (tl s)))
      else if c = quote_char \<or> c = double_quote
      then (let p = quoted c (c = quote_char \<and> is_estring_opener before) s in (c # fst p, True, snd p))
      else if c = CHR ''$'' \<and> dollar_tag s \<noteq> None
      then (case the (dollar_tag s) of (name, r) \<Rightarrow>
        (let tag = c # name @ [c] in (tag @ fst (through tag r), True, snd (through tag r))))
      else ([c], \<not> py_space c, s))"
proof -
  have q: "quote_char \<noteq> CHR ''$''" "double_quote \<noteq> CHR ''$''" "double_quote \<noteq> quote_char"
    by (simp_all add: double_quote_def quote_char_def)
  show ?thesis
    unfolding next_chunk_def opens_line_def [symmetric] opens_block_def [symmetric] Let_def
    by (cases "opens_line c s"; cases "opens_block c s"; cases "c = quote_char"; cases "c = double_quote";
        cases "dollar_tag s") (use q in \<open>simp_all add: split_beta\<close>)
qed

lemma next_chunk_parts:
  assumes "next_chunk before c s = (t, code, r)" shows "t @ r = c # s"
proof -
  consider (line) "opens_line c s" | (block) "\<not> opens_line c s" "opens_block c s"
    | (quoted) "\<not> opens_line c s" "\<not> opens_block c s" "c = quote_char \<or> c = double_quote"
    | (dollar) name r1 where "\<not> opens_line c s" "\<not> opens_block c s" "\<not> (c = quote_char \<or> c = double_quote)"
        "c = CHR ''$''" "dollar_tag s = Some (name, r1)"
    | (plain) "\<not> opens_line c s" "\<not> opens_block c s" "\<not> (c = quote_char \<or> c = double_quote)"
        "\<not> (c = CHR ''$'' \<and> dollar_tag s \<noteq> None)"
    by (cases "dollar_tag s") auto
  then show ?thesis
  proof cases
    case line
    then show ?thesis using assms line_comment_parts [of s] by (auto simp: next_chunk_eq)
  next
    case block
    then have "CHR ''*'' # tl s = s" using starts_with_single [of "CHR ''*''" s] by (simp add: opens_block_def)
    then show ?thesis using assms block block_comment_parts [of 1 "tl s"] by (auto simp: next_chunk_eq)
  next
    case quoted
    then show ?thesis using assms quoted_parts by (auto simp: next_chunk_eq Let_def)
  next
    case dollar
    then show ?thesis
      using assms dollar_tag_parts [OF dollar(5)] through_parts [of "c # name @ [c]" r1]
      by (auto simp: next_chunk_eq Let_def)
  next
    case plain
    then show ?thesis using assms by (auto simp: next_chunk_eq)
  qed
qed

lemma next_chunk_nonempty: "next_chunk before c s = (t, code, r) \<Longrightarrow> t \<noteq> []"
  by (auto simp: next_chunk_eq Let_def split: if_split_asm prod.split_asm)

lemma next_chunk_shorter: "next_chunk before c s = (t, code, r) \<Longrightarrow> length r < Suc (length s)"
  using next_chunk_parts [of before c s t code r] next_chunk_nonempty [of before c s t code r]
  by (cases t) (auto dest: arg_cong [of _ _ length])

text \<open>
  The pieces between top-level semicolons, each with whether it holds code.  A semicolon that starts a
  token of its own never occurs, so the test for it may come first.
\<close>

function raw_pieces :: "string \<Rightarrow> string \<Rightarrow> bool \<Rightarrow> string \<Rightarrow> (string \<times> bool) list" where
  "raw_pieces before buf has_code [] = [(buf, has_code)]"
| "raw_pieces before buf has_code (c # s) =
     (if c = CHR '';'' then (buf, has_code) # raw_pieces (c # before) [] False s
      else case next_chunk before c s of
        (t, code, r) \<Rightarrow> raw_pieces (rev t @ before) (buf @ t) (has_code \<or> code) r)"
  by pat_completeness auto

termination by (relation "measure (\<lambda>(before, buf, has_code, s). length s)") (auto dest!: next_chunk_shorter [OF sym])

definition kept_statement :: "string \<times> bool \<Rightarrow> string option" where
  "kept_statement p = (case p of (buf, has_code) \<Rightarrow>
     let stmt = py_strip buf in if stmt \<noteq> [] \<and> has_code then Some stmt else None)"

definition split_sql_statements :: "string \<Rightarrow> string list" where
  "split_sql_statements sql = List.map_filter kept_statement (raw_pieces [] [] False sql)"

section \<open>Nothing is lost\<close>

fun join_pieces :: "string list \<Rightarrow> string" where
  "join_pieces [] = []"
| "join_pieces [p] = p"
| "join_pieces (p # q # ps) = p @ CHR '';'' # join_pieces (q # ps)"

lemma raw_pieces_nonempty: "raw_pieces before buf has_code s \<noteq> []"
  by (induction before buf has_code s rule: raw_pieces.induct) (auto split: prod.split)

lemma join_Cons: "ps \<noteq> [] \<Longrightarrow> join_pieces (p # ps) = p @ CHR '';'' # join_pieces ps"
  by (cases ps) simp_all

lemma raw_pieces_join: "join_pieces (map fst (raw_pieces before buf has_code s)) = buf @ s"
proof (induction before buf has_code s rule: raw_pieces.induct)
  case (2 before buf has_code c s)
  show ?case
  proof (cases "c = CHR '';''")
    case True
    then show ?thesis using 2(1) [OF True] raw_pieces_nonempty by (simp add: join_Cons)
  next
    case False
    obtain t code r where n: "next_chunk before c s = (t, code, r)" by (cases "next_chunk before c s")
    then show ?thesis using 2(2) [OF False n [symmetric] refl] next_chunk_parts [OF n] False by simp
  qed
qed simp

section \<open>After a semicolon\<close>

lemma estring_after_semicolon: "is_estring_opener (b @ CHR '';'' # b') = is_estring_opener b"
  by (cases b rule: is_estring_opener.cases; cases b') (simp_all add: py_alnum_def)

lemma raw_pieces_after_semicolon:
  "raw_pieces (b @ CHR '';'' # b') buf has_code s = raw_pieces b buf has_code s"
proof (induction b buf has_code s rule: raw_pieces.induct)
  case (2 b buf has_code c s)
  have n: "next_chunk (b @ CHR '';'' # b') c s = next_chunk b c s"
    by (simp only: next_chunk_eq estring_after_semicolon)
  show ?case
  proof (cases "c = CHR '';''")
    case True
    then show ?thesis using 2(1) [OF True] by simp
  next
    case False
    obtain t code r where e: "next_chunk b c s = (t, code, r)" by (cases "next_chunk b c s")
    then show ?thesis using 2(2) [OF False e [symmetric] refl] False n by simp
  qed
qed simp

section \<open>Migration files\<close>

text \<open>\<open>s.find(t)\<close>: what follows the first occurrence.\<close>

fun after_first :: "string \<Rightarrow> string \<Rightarrow> string option" where
  "after_first t [] = (if t = [] then Some [] else None)"
| "after_first t (c # s) =
     (if begins_with t (c # s) then Some (drop (length t) (c # s)) else after_first t s)"

lemma after_first_shorter: "after_first t s = Some r \<Longrightarrow> t \<noteq> [] \<Longrightarrow> length r < length s"
  by (induction s) (auto split: if_splits)

function first_keyword :: "string \<Rightarrow> string" where
  "first_keyword stmt = (let s = py_lstrip stmt in
     if begins_with ''--'' s
     then (case after_first [newline] s of None \<Rightarrow> [] | Some r \<Rightarrow> first_keyword r)
     else if begins_with ''/*'' s
     then (case after_first ''*/'' s of None \<Rightarrow> [] | Some r \<Rightarrow> first_keyword r)
     else map char_lower (takeWhile tag_start s))"
  by pat_completeness auto

termination
proof (relation "measure length")
  have strip: "length (py_lstrip s) \<le> length s" for s by (simp add: py_lstrip_def length_dropWhile_le)
  show "(r, stmt) \<in> measure length"
    if "x = py_lstrip stmt" "after_first [newline] x = Some r" for stmt x r
    using after_first_shorter [OF that(2)] strip [of stmt] that(1) by simp
  show "(r, stmt) \<in> measure length"
    if "x = py_lstrip stmt" "after_first ''*/'' x = Some r" for stmt x r
    using after_first_shorter [OF that(2)] strip [of stmt] that(1) by simp
qed simp_all

declare first_keyword.simps [simp del]

text \<open>\<open>s.replace(t, u)\<close> for a text \<open>t\<close> that is not empty.\<close>

function py_replace :: "string \<Rightarrow> string \<Rightarrow> string \<Rightarrow> string" where
  "py_replace t u [] = []"
| "py_replace t u (c # s) =
     (if t \<noteq> [] \<and> begins_with t (c # s) then u @ py_replace t u (drop (length t) (c # s))
      else c # py_replace t u s)"
  by pat_completeness auto

termination
proof (relation "measure (\<lambda>(t, u, s). length s)")
  show "((t, u, drop (length t) (c # s)), t, u, c # s) \<in> measure (\<lambda>(t, u, s). length s)"
    if "t \<noteq> [] \<and> begins_with t (c # s)" for t u c s
    using that by (cases t) simp_all
qed simp_all

record migration =
  mg_id :: string
  mg_filename :: string
  mg_checksum :: string
  mg_sql :: string

definition executable_sql :: "migration \<Rightarrow> string" where
  "executable_sql m = py_replace ''{{CHECKSUM}}'' (mg_checksum m) (mg_sql m)"

definition transaction_control :: "string list" where
  "transaction_control = [''begin'', ''commit'', ''rollback'', ''start'', ''end'', ''savepoint'', ''release'']"

definition migration_statements :: "migration \<Rightarrow> exc + string list" where
  "migration_statements m = (let stmts = split_sql_statements (executable_sql m) in
     if list_ex (\<lambda>s. first_keyword s \<in> set transaction_control) stmts then Inl (PyException ''ValueError'')
     else Inr stmts)"

text \<open>
  The entries of the directory: name, whether it is a file, and its bytes; \<open>None\<close> when there is no
  directory.  SHA-256 and the decoding of UTF-8 are parameters.
\<close>

definition has_suffix :: "string \<Rightarrow> string \<Rightarrow> bool" where
  "has_suffix t s \<longleftrightarrow> begins_with (rev t) (rev s)"

definition load_migration :: "('b \<Rightarrow> string) \<Rightarrow> ('b \<Rightarrow> exc + string) \<Rightarrow> string \<times> bool \<times> 'b \<Rightarrow> exc + migration" where
  "load_migration sha decode e = (case e of (name, is_file, bytes) \<Rightarrow>
     ebind (decode bytes) (\<lambda>sql. Inr \<lparr>mg_id = take (length name - 4) name, mg_filename = name,
       mg_checksum = sha bytes, mg_sql = sql\<rparr>))"

definition discover_migrations ::
  "('b \<Rightarrow> string) \<Rightarrow> ('b \<Rightarrow> exc + string) \<Rightarrow> (string \<times> bool \<times> 'b) list option \<Rightarrow> exc + migration list" where
  "discover_migrations sha decode entries = (case entries of
      None \<Rightarrow> Inr []
    | Some es \<Rightarrow> traverse (load_migration sha decode)
        (sort_key fst (filter (\<lambda>(name, is_file, bytes). is_file \<and> has_suffix ''.sql'' name) es)))"

definition plan_pending :: "migration list \<Rightarrow> string set \<Rightarrow> migration list" where
  "plan_pending migrations applied = filter (\<lambda>m. mg_id m \<notin> applied) migrations"

definition current_version :: "migration list \<Rightarrow> string option" where
  "current_version migrations = (if migrations = [] then None else Some (mg_id (last migrations)))"

text \<open>
  The splitter nests block comments, the search for the first keyword does not: transaction control
  behind a nested comment passes.
\<close>

lemma nested_comment_hides_commit:
  "migration_statements \<lparr>mg_id = ''m'', mg_filename = ''m.sql'', mg_checksum = ''c'',
     mg_sql = ''/* a /* b */ c */ COMMIT;''\<rparr> = Inr [''/* a /* b */ c */ COMMIT'']"
  "migration_statements \<lparr>mg_id = ''m'', mg_filename = ''m.sql'', mg_checksum = ''c'',
     mg_sql = ''/* a b c */ COMMIT;''\<rparr> = Inl (PyException ''ValueError'')"
  by (simp_all add: migration_statements_def executable_sql_def split_sql_statements_def kept_statement_def py_strip_def
      py_lstrip_def py_space_def next_chunk_def quote_char_def double_quote_def first_keyword.simps tag_start_def
      transaction_control_def consume_def List.map_filter_def char_lower_def Let_def) code_simp

end
