(* ===== verification/SqlTokens.thy ===== *)
theory SqlTokens
  imports SqlScript
begin

text \<open>
  Statements as PostgreSQL reads them: sequences of lexical tokens, each with the text that writes it.  The
  grammar is stated apart from the splitter of \<open>SqlScript\<close>, which is then shown to cut a script between
  its statements and nowhere else.
\<close>

section \<open>Tokens and their text\<close>

text \<open>The inside of a block comment: letters, and comments nested in it.\<close>

datatype comment_part = Letter char | Nested "comment_part list"

fun comment_text :: "comment_part list \<Rightarrow> string" where
  "comment_text [] = []"
| "comment_text (Letter c # ps) = c # comment_text ps"
| "comment_text (Nested qs # ps) = ''/*'' @ comment_text qs @ ''*/'' @ comment_text ps"

text \<open>What a literal holds is arbitrary: a quote is written twice, or escaped in an escape literal.\<close>

fun doubled :: "char \<Rightarrow> string \<Rightarrow> string" where
  "doubled q [] = []"
| "doubled q (c # cs) = (if c = q then [q, q] else [c]) @ doubled q cs"

fun escaped :: "string \<Rightarrow> string" where
  "escaped [] = []"
| "escaped (c # cs) = (if c = quote_char \<or> c = backslash then [backslash, c] else [c]) @ escaped cs"

datatype sql_token =
    Plain char
  | LineNote string
  | BlockNote "comment_part list"
  | Literal string
  | EscapeLiteral char string
  | Identifier string
  | DollarLiteral string string

definition dollar_quote :: "string \<Rightarrow> string" where
  "dollar_quote name = CHR ''$'' # name @ ''$''"

fun token_text :: "sql_token \<Rightarrow> string" where
  "token_text (Plain c) = [c]"
| "token_text (LineNote s) = ''--'' @ s @ [newline]"
| "token_text (BlockNote ps) = ''/*'' @ comment_text ps @ ''*/''"
| "token_text (Literal s) = quote_char # doubled quote_char s @ [quote_char]"
| "token_text (EscapeLiteral e s) = e # quote_char # escaped s @ [quote_char]"
| "token_text (Identifier s) = double_quote # doubled double_quote s @ [double_quote]"
| "token_text (DollarLiteral name s) = dollar_quote name @ s @ dollar_quote name"

definition tokens_text :: "sql_token list \<Rightarrow> string" where
  "tokens_text ts = concat (map token_text ts)"

section \<open>Which sequences are read back as they are written\<close>

definition next_is :: "char \<Rightarrow> string \<Rightarrow> bool" where
  "next_is c s \<longleftrightarrow> s \<noteq> [] \<and> List.hd s = c"

fun comment_ok :: "comment_part list \<Rightarrow> bool" where
  "comment_ok [] = True"
| "comment_ok (Letter c # ps) \<longleftrightarrow>
     (c = CHR ''/'' \<longrightarrow> \<not> next_is (CHR ''*'') (comment_text ps @ ''*/'')) \<and>
     (c = CHR ''*'' \<longrightarrow> \<not> next_is (CHR ''/'') (comment_text ps)) \<and> comment_ok ps"
| "comment_ok (Nested qs # ps) \<longleftrightarrow> comment_ok qs \<and> comment_ok ps"

text \<open>\<open>$name$\<close>: the name is an identifier of ASCII letters, digits and underscores, or empty.\<close>

definition tag_ok :: "string \<Rightarrow> bool" where
  "tag_ok name \<longleftrightarrow> list_all tag_char name \<and> (name = [] \<or> tag_start (List.hd name))"

definition tag_follows :: "string \<Rightarrow> bool" where
  "tag_follows s \<longleftrightarrow> (\<exists>name r. s = name @ CHR ''$'' # r \<and> tag_ok name)"

fun occurs :: "string \<Rightarrow> string \<Rightarrow> bool" where
  "occurs t [] = (t = [])"
| "occurs t (c # s) = (take (length t) (c # s) = t \<or> occurs t s)"

text \<open>
  What may stand before a token (the nearest character first), and after it: a plain character ends no
  statement and opens no other token, a literal is not continued by a quote, and the body of a dollar
  literal does not hold its own end.
\<close>

fun may_follow :: "string \<Rightarrow> sql_token \<Rightarrow> bool" where
  "may_follow before (Literal s) \<longleftrightarrow> \<not> next_is (CHR ''E'') before \<and> \<not> next_is (CHR ''e'') before"
| "may_follow before (EscapeLiteral e s) \<longleftrightarrow>
     before = [] \<or> \<not> py_alnum (List.hd before) \<and> List.hd before \<noteq> CHR ''_''"
| "may_follow before t \<longleftrightarrow> True"

fun ends_there :: "sql_token \<Rightarrow> string \<Rightarrow> bool" where
  "ends_there (Plain c) rest \<longleftrightarrow>
     c \<noteq> CHR '';'' \<and> c \<noteq> quote_char \<and> c \<noteq> double_quote \<and> (c = CHR ''-'' \<longrightarrow> \<not> next_is (CHR ''-'') rest) \<and>
     (c = CHR ''/'' \<longrightarrow> \<not> next_is (CHR ''*'') rest) \<and> (c = CHR ''$'' \<longrightarrow> \<not> tag_follows rest)"
| "ends_there (LineNote s) rest \<longleftrightarrow> newline \<notin> set s"
| "ends_there (BlockNote ps) rest \<longleftrightarrow> comment_ok ps"
| "ends_there (Literal s) rest \<longleftrightarrow> \<not> next_is quote_char rest"
| "ends_there (EscapeLiteral e s) rest \<longleftrightarrow> (e = CHR ''E'' \<or> e = CHR ''e'') \<and> \<not> next_is quote_char rest"
| "ends_there (Identifier s) rest \<longleftrightarrow> \<not> next_is double_quote rest"
| "ends_there (DollarLiteral name s) rest \<longleftrightarrow>
     tag_ok name \<and> \<not> occurs (dollar_quote name) (s @ butlast (dollar_quote name))"

fun lexes :: "string \<Rightarrow> sql_token list \<Rightarrow> bool" where
  "lexes before [] = True"
| "lexes before (t # ts) \<longleftrightarrow>
     may_follow before t \<and> ends_there t (tokens_text ts) \<and> lexes (rev (token_text t) @ before) ts"

fun is_code :: "sql_token \<Rightarrow> bool" where
  "is_code (Plain c) \<longleftrightarrow> \<not> py_space c"
| "is_code (LineNote s) = False"
| "is_code (BlockNote ps) = False"
| "is_code t = True"

definition trimmed :: "string \<Rightarrow> bool" where
  "trimmed s \<longleftrightarrow> s \<noteq> [] \<and> \<not> py_space (List.hd s) \<and> \<not> py_space (last s)"

definition sql_statement :: "sql_token list \<Rightarrow> bool" where
  "sql_statement ts \<longleftrightarrow> lexes [] ts \<and> list_ex is_code ts \<and> trimmed (tokens_text ts)"

definition script_of :: "sql_token list list \<Rightarrow> string" where
  "script_of sts = concat (map (\<lambda>ts. tokens_text ts @ '';'') sts)"

section \<open>The scanners read a token as it is written\<close>

lemma next_is_Cons [simp]: "next_is c [] = False" "next_is c (d # s) = (d = c)"
  by (simp_all add: next_is_def)

lemma next_is_append: "c \<noteq> CHR '';'' \<Longrightarrow> next_is c (s @ CHR '';'' # u) = next_is c s"
  by (cases s) auto

lemma consume_consume: "consume a (consume b p) = consume (a @ b) p"
  by (simp add: consume_def)

lemma consume_pair [simp]: "consume a (b, r) = (a @ b, r)"
  by (simp add: consume_def)

lemma line_comment_text: "newline \<notin> set s \<Longrightarrow> line_comment (s @ newline # r) = (s @ [newline], r)"
  by (induction s) auto

lemma block_step:
  assumes "\<not> (c = CHR ''/'' \<and> next_is (CHR ''*'') s)" and "\<not> (c = CHR ''*'' \<and> next_is (CHR ''/'') s)" and "s \<noteq> []"
  shows "block_comment (Suc d) (c # s) = consume [c] (block_comment (Suc d) s)"
  using assms by (cases s) auto

lemma block_comment_text:
  "comment_ok ps \<Longrightarrow> block_comment (Suc d) (comment_text ps @ CHR ''*'' # CHR ''/'' # r) =
     consume (comment_text ps @ ''*/'') (block_comment d r)"
proof (induction ps arbitrary: d r rule: comment_text.induct)
  case (2 c ps)
  let ?s = "comment_text ps @ CHR ''*'' # CHR ''/'' # r"
  have n: "\<not> (c = CHR ''/'' \<and> next_is (CHR ''*'') ?s)" "\<not> (c = CHR ''*'' \<and> next_is (CHR ''/'') ?s)" "?s \<noteq> []"
    using 2(2) by (cases "comment_text ps"; auto)+
  show ?case using block_step [OF n] 2 by (simp add: consume_consume)
next
  case (3 qs ps)
  have "block_comment (Suc (Suc d)) (comment_text qs @ CHR ''*'' # CHR ''/'' # comment_text ps @ CHR ''*'' # CHR ''/'' # r) =
      consume (comment_text qs @ ''*/'') (consume (comment_text ps @ ''*/'') (block_comment d r))"
    using 3 by simp
  then show ?case by (simp add: consume_consume)
qed simp

lemma quoted_step: "c \<noteq> q \<Longrightarrow> \<not> (e \<and> c = backslash) \<Longrightarrow> s \<noteq> [] \<Longrightarrow> quoted q e (c # s) = consume [c] (quoted q e s)"
  by (cases s) auto

lemma quoted_end: "\<not> next_is q r \<Longrightarrow> \<not> (e \<and> q = backslash) \<Longrightarrow> quoted q e (q # r) = ([q], r)"
  by (cases r) auto

lemma quoted_doubled: "\<not> next_is q r \<Longrightarrow> quoted q False (doubled q s @ q # r) = (doubled q s @ [q], r)"
proof (induction s)
  case Nil
  then show ?case by (simp add: quoted_end)
next
  case (Cons c s)
  then show ?case by (cases "c = q") (simp_all add: quoted_step)
qed

lemma quoted_escaped:
  "\<not> next_is quote_char r \<Longrightarrow> quoted quote_char True (escaped s @ quote_char # r) = (escaped s @ [quote_char], r)"
proof (induction s)
  case Nil
  then show ?case by (simp add: quoted_end backslash_def quote_char_def)
next
  case (Cons c s)
  then show ?case by (cases "c = quote_char \<or> c = backslash") (auto simp: quoted_step)
qed

lemma begins_with_take: "begins_with t s \<longleftrightarrow> take (length t) s = t"
  by (induction t s rule: begins_with.induct) auto

lemma through_first:
  "t \<noteq> [] \<Longrightarrow> \<not> occurs t (b @ butlast t) \<Longrightarrow> through t (b @ t @ r) = (b @ t, r)"
proof (induction b)
  case Nil
  then show ?case by (cases t) (simp_all add: begins_with_take)
next
  case (Cons c b)
  have "length t \<le> length (c # b @ butlast t)" using Cons.prems(1) by (cases t) simp_all
  moreover have "c # b @ t @ r = (c # b @ butlast t) @ last t # r" using Cons.prems(1) by simp
  ultimately have "take (length t) (c # b @ t @ r) = take (length t) (c # b @ butlast t)" by (metis take_append diff_is_0_eq take0 append_Nil2)
  then have "\<not> begins_with t (c # b @ t @ r)" using Cons.prems(2) by (auto simp: begins_with_take)
  then show ?case using Cons by simp
qed

lemma dollar_tag_text:
  assumes "tag_ok name" shows "dollar_tag (name @ CHR ''$'' # r) = Some (name, r)"
proof -
  have "\<not> tag_char (CHR ''$'')" by (simp add: tag_char_def tag_start_def)
  then have "takeWhile tag_char (name @ CHR ''$'' # r) = name" "dropWhile tag_char (name @ CHR ''$'' # r) = CHR ''$'' # r"
    using assms by (simp_all add: tag_ok_def list_all_iff)
  then show ?thesis using assms by (simp add: dollar_tag_def tag_ok_def)
qed

lemma dollar_tag_Some: "dollar_tag s = Some (name, r) \<Longrightarrow> tag_ok name"
  by (auto simp: dollar_tag_def tag_ok_def Let_def list_all_iff dest: set_takeWhileD split: list.splits if_splits)

lemma tag_follows_code [code]: "tag_follows s \<longleftrightarrow> dollar_tag s \<noteq> None"
  unfolding tag_follows_def using dollar_tag_text dollar_tag_parts dollar_tag_Some by fastforce

lemma dollar_tag_none:
  assumes "\<not> tag_follows rest" shows "dollar_tag (rest @ CHR '';'' # u) = None"
proof (rule ccontr)
  let ?s = "rest @ CHR '';'' # u"
  assume "dollar_tag ?s \<noteq> None"
  then obtain name r where d: "dollar_tag ?s = Some (name, r)" by auto
  have s: "name @ CHR ''$'' # r = ?s" by (rule dollar_tag_parts [OF d])
  have t: "tag_ok name" by (rule dollar_tag_Some [OF d])
  have "CHR '';'' \<notin> set (name @ ''$'')" using t by (auto simp: tag_ok_def list_all_iff tag_char_def tag_start_def)
  moreover have "(name @ ''$'') @ r = rest @ CHR '';'' # u" using s by simp
  ultimately obtain r' where "rest = (name @ ''$'') @ r'"
    by (auto simp: append_eq_append_conv2 append_eq_Cons_conv Cons_eq_append_conv)
  then show False using assms t by (auto simp: tag_follows_def)
qed

section \<open>The splitter cuts between statements\<close>

lemma raw_pieces_chunk:
  assumes "c \<noteq> CHR '';''" and "next_chunk before c s = (t, code, r)"
  shows "raw_pieces before buf has_code (c # s) = raw_pieces (rev t @ before) (buf @ t) (has_code \<or> code) r"
  using assms by simp

text \<open>What \<open>next_chunk\<close> reads, by the character it starts at.\<close>

lemma quote_chars: "quote_char \<noteq> CHR '';''" "double_quote \<noteq> CHR '';''" "quote_char \<noteq> double_quote"
    "quote_char \<noteq> CHR ''-''" "quote_char \<noteq> CHR ''/''" "double_quote \<noteq> CHR ''-''" "double_quote \<noteq> CHR ''/''"
    "quote_char \<noteq> CHR ''$''" "double_quote \<noteq> CHR ''$''"
  by (simp_all add: quote_char_def double_quote_def)

lemma opens_iff:
  "opens_line c s \<longleftrightarrow> c = CHR ''-'' \<and> next_is (CHR ''-'') s"
  "opens_block c s \<longleftrightarrow> c = CHR ''/'' \<and> next_is (CHR ''*'') s"
  by (cases s; auto simp: opens_line_def opens_block_def)+

lemma chunk_plain:
  assumes "ends_there (Plain c) rest"
  shows "next_chunk before c (rest @ CHR '';'' # u) = ([c], \<not> py_space c, rest @ CHR '';'' # u)"
  using assms dollar_tag_none [of rest u] by (auto simp: next_chunk_eq opens_iff next_is_append)

lemma chunk_line:
  assumes "newline \<notin> set s"
  shows "next_chunk before (CHR ''-'') (CHR ''-'' # s @ newline # r) = (''--'' @ s @ [newline], False, r)"
proof -
  have "newline \<notin> set (CHR ''-'' # s)" using assms by (simp add: newline_def)
  then have "line_comment (CHR ''-'' # s @ newline # r) = (CHR ''-'' # s @ [newline], r)"
    using line_comment_text [of "CHR ''-'' # s" r] by simp
  then show ?thesis by (simp add: next_chunk_eq opens_iff)
qed

lemma chunk_block:
  assumes "comment_ok ps"
  shows "next_chunk before (CHR ''/'') (CHR ''*'' # comment_text ps @ CHR ''*'' # CHR ''/'' # r) =
     (''/*'' @ comment_text ps @ ''*/'', False, r)"
  using block_comment_text [OF assms, of 0 r] by (simp add: next_chunk_eq opens_iff)

lemma chunk_literal:
  assumes "\<not> is_estring_opener before" and "\<not> next_is quote_char r"
  shows "next_chunk before quote_char (doubled quote_char s @ quote_char # r) =
     (quote_char # doubled quote_char s @ [quote_char], True, r)"
  using quoted_doubled [OF assms(2)] assms(1) quote_chars by (simp add: next_chunk_eq opens_iff)

lemma chunk_escaped:
  assumes "is_estring_opener before" and "\<not> next_is quote_char r"
  shows "next_chunk before quote_char (escaped s @ quote_char # r) = (quote_char # escaped s @ [quote_char], True, r)"
  using quoted_escaped [OF assms(2)] assms(1) quote_chars by (simp add: next_chunk_eq opens_iff)

lemma chunk_identifier:
  assumes "\<not> next_is double_quote r"
  shows "next_chunk before double_quote (doubled double_quote s @ double_quote # r) =
     (double_quote # doubled double_quote s @ [double_quote], True, r)"
  using quoted_doubled [OF assms] quote_chars by (simp add: next_chunk_eq opens_iff)

lemma chunk_dollar:
  assumes "tag_ok name" and "\<not> occurs (dollar_quote name) (s @ butlast (dollar_quote name))"
  shows "next_chunk before (CHR ''$'') (name @ CHR ''$'' # s @ dollar_quote name @ r) =
     (dollar_quote name @ s @ dollar_quote name, True, r)"
proof -
  have "through (CHR ''$'' # name @ ''$'') (s @ (CHR ''$'' # name @ ''$'') @ r) = (s @ CHR ''$'' # name @ ''$'', r)"
    using through_first [OF _ assms(2)] by (simp add: dollar_quote_def)
  then show ?thesis
    using dollar_tag_text [OF assms(1)] quote_chars by (simp add: next_chunk_eq opens_iff dollar_quote_def)
qed

lemma opener_iff:
  "\<not> next_is (CHR ''E'') b \<and> \<not> next_is (CHR ''e'') b \<Longrightarrow> \<not> is_estring_opener b"
  "e = CHR ''E'' \<or> e = CHR ''e'' \<Longrightarrow> b = [] \<or> \<not> py_alnum (List.hd b) \<and> List.hd b \<noteq> CHR ''_'' \<Longrightarrow> is_estring_opener (e # b)"
  by (cases b rule: is_estring_opener.cases; auto) (cases b; auto)

lemma raw_pieces_token:
  assumes "may_follow before t" and "ends_there t rest"
  shows "raw_pieces before buf has_code (token_text t @ rest @ CHR '';'' # u) =
     raw_pieces (rev (token_text t) @ before) (buf @ token_text t) (has_code \<or> is_code t) (rest @ CHR '';'' # u)"
proof -
  let ?r = "rest @ CHR '';'' # u"
  have n: "\<not> next_is c rest \<Longrightarrow> c \<noteq> CHR '';'' \<Longrightarrow> \<not> next_is c ?r" for c by (simp add: next_is_append)
  show ?thesis
  proof (cases t)
    case (Plain c)
    then show ?thesis using raw_pieces_chunk [OF _ chunk_plain [of c rest before u]] assms(2) by simp
  next
    case (LineNote s)
    then show ?thesis using raw_pieces_chunk [OF _ chunk_line [of s before ?r]] assms(2) by simp
  next
    case (BlockNote ps)
    then show ?thesis using raw_pieces_chunk [OF _ chunk_block [of ps before ?r]] assms(2) by simp
  next
    case (Literal s)
    then show ?thesis
      using raw_pieces_chunk [OF _ chunk_literal [OF opener_iff(1) n, of before s]] assms quote_chars by simp
  next
    case (EscapeLiteral e s)
    have e: "e = CHR ''E'' \<or> e = CHR ''e''" "is_estring_opener (e # before)" "\<not> next_is quote_char ?r"
      using assms EscapeLiteral opener_iff(2) n quote_chars by auto
    have "next_chunk before e (quote_char # escaped s @ quote_char # ?r) = ([e], True, quote_char # escaped s @ quote_char # ?r)"
      using e(1) by (auto simp: next_chunk_eq opens_iff quote_char_def double_quote_def py_space_def)
    then have "raw_pieces before buf has_code (e # quote_char # escaped s @ quote_char # ?r) =
        raw_pieces (e # before) (buf @ [e]) True (quote_char # escaped s @ quote_char # ?r)"
      using raw_pieces_chunk [of e before "quote_char # escaped s @ quote_char # ?r"] e(1)
      by (auto simp del: raw_pieces.simps)
    also have "\<dots> = raw_pieces (rev (quote_char # escaped s @ [quote_char]) @ e # before)
        ((buf @ [e]) @ quote_char # escaped s @ [quote_char]) (True \<or> True) ?r"
      by (rule raw_pieces_chunk [OF quote_chars(1) chunk_escaped [OF e(2,3)]])
    finally show ?thesis using EscapeLiteral by (simp del: raw_pieces.simps)
  next
    case (Identifier s)
    then show ?thesis using raw_pieces_chunk [OF _ chunk_identifier [OF n, of before s]] assms(2) quote_chars by simp
  next
    case (DollarLiteral name s)
    then show ?thesis
      using raw_pieces_chunk [OF _ chunk_dollar [of name s before ?r]] assms(2) by (simp add: dollar_quote_def)
  qed
qed

lemma raw_pieces_tokens:
  "lexes before ts \<Longrightarrow> raw_pieces before buf has_code (tokens_text ts @ CHR '';'' # u) =
     (buf @ tokens_text ts, has_code \<or> list_ex is_code ts) #
     raw_pieces (CHR '';'' # rev (tokens_text ts) @ before) [] False u"
proof (induction ts arbitrary: before buf has_code)
  case (Cons t ts)
  then show ?case
    using raw_pieces_token [of before t "tokens_text ts" buf has_code u] by (simp add: tokens_text_def del: raw_pieces.simps)
qed (simp add: tokens_text_def)

lemma trimmed_strip: "trimmed s \<Longrightarrow> py_strip s = s"
proof -
  assume t: "trimmed s"
  then have "py_lstrip s = s" by (cases s) (simp_all add: trimmed_def py_lstrip_def)
  moreover have "py_lstrip (rev s) = rev s" using t by (cases s rule: rev_cases) (simp_all add: trimmed_def py_lstrip_def)
  ultimately show "py_strip s = s" by (simp add: py_strip_def)
qed

text \<open>
  C37: Statements written as a script, each ended by a semicolon, come back exactly and in order, whatever their
  literals, identifiers, comments and function bodies hold; and of any text at all the pieces, put back with
  their semicolons, are the text, so nothing is lost or reordered.
\<close>

theorem split_inverts_script:
  assumes "list_all sql_statement sts"
  shows "split_sql_statements (script_of sts) = map tokens_text sts \<and>
    join_pieces (map fst (raw_pieces [] [] False sql)) = sql"
proof -
  have "split_sql_statements (script_of sts) = map tokens_text sts"
    using assms
  proof (induction sts)
    case (Cons ts sts)
    have "raw_pieces [] [] False (tokens_text ts @ CHR '';'' # script_of sts) =
        (tokens_text ts, True) # raw_pieces [] [] False (script_of sts)"
      using Cons.prems raw_pieces_tokens [of "[]" ts "[]" False "script_of sts"]
        raw_pieces_after_semicolon [of "[]" "rev (tokens_text ts)"] by (simp add: sql_statement_def)
    moreover have "kept_statement (tokens_text ts, True) = Some (tokens_text ts)"
      using Cons.prems by (simp add: kept_statement_def trimmed_strip sql_statement_def) (simp add: trimmed_def)
    ultimately show ?case
      using Cons by (simp add: split_sql_statements_def script_of_def List.map_filter_def)
  qed (simp add: split_sql_statements_def script_of_def kept_statement_def List.map_filter_def)
  then show ?thesis by (simp add: raw_pieces_join)
qed

definition sample_statements :: "sql_token list list" where
  "sample_statements =
     [map Plain ''INSERT INTO t VALUES ('' @ [Literal (''a;'' @ [quote_char] @ ''b''), Plain (CHR '',''),
        EscapeLiteral (CHR ''E'') ([quote_char, backslash] @ '';'')] @ map Plain '')'',
      [BlockNote [Letter (CHR '';''), Nested [Letter (CHR '';'')]]] @ map Plain ''SELECT '' @ [Identifier '';''],
      map Plain ''CREATE FUNCTION f() AS '' @ [DollarLiteral ''body'' ''BEGIN; RETURN $1; END''] @
        [LineNote '' ;''] @ map Plain ''LANGUAGE plpgsql'']"

lemma sample_statements_ok: "list_all sql_statement sample_statements"
  by code_simp

theorem split_inverts_script_witness:
  "split_sql_statements (script_of sample_statements) = map tokens_text sample_statements"
  using split_inverts_script [OF sample_statements_ok, of "[]"] by simp

end
