(* ===== verification/Migrate.thy ===== *)
theory Migrate
  imports SqlScript
begin

text \<open>
  The migration runner and the ledger check of \<open>sql/__init__.py\<close>.  PostgreSQL is outside: what a statement
  does and what the role catalogue answers are functions over the content of the database.
  Its transactions are modelled: a connection holds the committed database and the one its open
  transaction sees, every statement changes the latter, and what the transaction did before an error stays
  there until the runner commits or rolls back.
\<close>

section \<open>The database a runner sees\<close>

record ledger_row =
  lr_package_version :: "string option"
  lr_checksum :: "string option"
  lr_applied_at :: bool

text \<open>The ledger: no table, or its columns and its rows by identifier.\<close>

record 'd database =
  db_content :: 'd
  db_ledger :: "(string list \<times> (string, ledger_row) dict) option"

record 'd server =
  sv_execute :: "string \<Rightarrow> 'd database \<Rightarrow> exc + 'd database"
  sv_owner_exists :: "'d database \<Rightarrow> bool"
  sv_can_set_owner :: "'d database \<Rightarrow> bool"
  sv_unsafe_roles :: "'d database \<Rightarrow> string list"

record 'd connection =
  cn_committed :: "'d database"
  cn_working :: "'d database"
  cn_in_transaction :: bool
  cn_session_locks :: nat

definition commit :: "'d connection \<Rightarrow> 'd connection" where
  "commit c = c\<lparr>cn_committed := cn_working c, cn_in_transaction := False\<rparr>"

definition rollback :: "'d connection \<Rightarrow> 'd connection" where
  "rollback c = c\<lparr>cn_working := cn_committed c, cn_in_transaction := False\<rparr>"

text \<open>A statement opens a transaction; one that fails leaves what the transaction has done so far.\<close>

definition in_txn :: "('d database \<Rightarrow> exc + 'd database) \<Rightarrow> 'd connection \<Rightarrow> (exc + unit) \<times> 'd connection" where
  "in_txn f c = (case f (cn_working c) of
      Inl e \<Rightarrow> (Inl e, c\<lparr>cn_in_transaction := True\<rparr>)
    | Inr d \<Rightarrow> (Inr (), c\<lparr>cn_working := d, cn_in_transaction := True\<rparr>))"

text \<open>The next statement runs when the one before did not raise.\<close>

definition and_then ::
  "(exc + unit) \<times> 'd connection \<Rightarrow> ('d connection \<Rightarrow> (exc + unit) \<times> 'd connection) \<Rightarrow> (exc + unit) \<times> 'd connection" where
  "and_then r f = (case r of (Inl e, c) \<Rightarrow> (Inl e, c) | (Inr _, c) \<Rightarrow> f c)"

lemma and_then_simps [simp]: "and_then (Inl e, c) f = (Inl e, c)" "and_then (Inr u, c) f = f c"
  by (simp_all add: and_then_def)

section \<open>One migration\<close>

text \<open>
  The role that owns TaskQ's objects is created where it is missing and granted to the installer where
  it cannot assume it; the runner asks again before it goes on.
\<close>

definition create_owner :: string where
  "create_owner = ''CREATE ROLE taskq_owner NOLOGIN''"

definition grant_owner :: string where
  "grant_owner = ''GRANT taskq_owner TO CURRENT_USER''"

definition ensure_installer_owner_membership ::
  "'d server \<Rightarrow> 'd connection \<Rightarrow> (exc + unit) \<times> 'd connection" where
  "ensure_installer_owner_membership sv c =
     and_then (if sv_owner_exists sv (cn_working c) then in_txn Inr c else in_txn (sv_execute sv create_owner) c) (\<lambda>c1.
     and_then (if sv_can_set_owner sv (cn_working c1) then (Inr (), c1) else in_txn (sv_execute sv grant_owner) c1) (\<lambda>c2.
     if sv_can_set_owner sv (cn_working c2) then (Inr (), c2) else (Inl (PyException ''RuntimeError''), c2)))"

fun execute_statements :: "'d server \<Rightarrow> string list \<Rightarrow> 'd connection \<Rightarrow> (exc + unit) \<times> 'd connection" where
  "execute_statements sv [] c = (Inr (), c)"
| "execute_statements sv (s # stmts) c = and_then (in_txn (sv_execute sv s) c) (execute_statements sv stmts)"

text \<open>\<open>ON CONFLICT\<close> rewrites the columns there are; a new row takes them all.\<close>

definition updated_row :: "string list \<Rightarrow> string \<Rightarrow> migration \<Rightarrow> ledger_row \<Rightarrow> ledger_row" where
  "updated_row columns version m r =
     r\<lparr>lr_package_version := (if ''package_version'' \<in> set columns then Some version else lr_package_version r),
       lr_checksum := (if ''checksum'' \<in> set columns then Some (mg_checksum m) else lr_checksum r)\<rparr>"

definition new_row :: "string list \<Rightarrow> string \<Rightarrow> migration \<Rightarrow> ledger_row" where
  "new_row columns version m = updated_row columns version m
     \<lparr>lr_package_version = None, lr_checksum = None, lr_applied_at = ''applied_at'' \<in> set columns\<rparr>"

definition record_applied :: "string \<Rightarrow> migration \<Rightarrow> 'd database \<Rightarrow> exc + 'd database" where
  "record_applied version m d = (case db_ledger d of
      None \<Rightarrow> Inl (PyException ''RuntimeError'')
    | Some (columns, rows) \<Rightarrow>
        if ''id'' \<notin> set columns then Inl (PyException ''RuntimeError'')
        else Inr (d\<lparr>db_ledger := Some (columns, dset (mg_id m)
          (case dget rows (mg_id m) of None \<Rightarrow> new_row columns version m
           | Some r \<Rightarrow> updated_row columns version m r) rows)\<rparr>))"

text \<open>The body of the loop's \<open>try\<close>: the grant, the statements of the file one by one, its row in the ledger.\<close>

definition apply_migration ::
  "'d server \<Rightarrow> string \<Rightarrow> migration \<Rightarrow> 'd connection \<Rightarrow> (exc + unit) \<times> 'd connection" where
  "apply_migration sv version m c =
     and_then (ensure_installer_owner_membership sv c) (\<lambda>c1.
     case migration_statements m of
       Inl e \<Rightarrow> (Inl e, c1)
     | Inr stmts \<Rightarrow> and_then (execute_statements sv stmts c1) (in_txn (record_applied version m)))"

section \<open>The runner\<close>

definition applied_ids :: "'d database \<Rightarrow> string set" where
  "applied_ids d = (case db_ledger d of None \<Rightarrow> {} | Some (columns, rows) \<Rightarrow> set (dkeys rows))"

text \<open>What \<open>except Exception\<close> lets through.\<close>

definition is_exception :: "exc \<Rightarrow> bool" where
  "is_exception e \<longleftrightarrow> e \<notin> PyException `
     {''CancelledError'', ''KeyboardInterrupt'', ''SystemExit'', ''GeneratorExit''}"

text \<open>
  The loop over the pending migrations.  A runner that owns the transaction commits each migration with
  its ledger row and rolls back the one that raises an \<open>Exception\<close>; what a cancellation interrupts is left to the
  \<open>finally\<close> block.  Otherwise everything stays in the caller's transaction.
\<close>

fun run_pending ::
  "'d server \<Rightarrow> string \<Rightarrow> bool \<Rightarrow> migration list \<Rightarrow> 'd connection \<Rightarrow> (exc + string list) \<times> 'd connection" where
  "run_pending sv version owns [] c = (Inr [], c)"
| "run_pending sv version owns (m # ms) c = (case apply_migration sv version m c of
      (Inl e, c1) \<Rightarrow> (Inl e, if owns \<and> is_exception e then rollback c1 else c1)
    | (Inr _, c1) \<Rightarrow> (case run_pending sv version owns ms (if owns then commit c1 else c1) of
          (Inl e, c2) \<Rightarrow> (Inl e, c2)
        | (Inr ids, c2) \<Rightarrow> (Inr (mg_id m # ids), c2)))"

definition plan_of :: "migration list \<Rightarrow> (string \<times> string) list" where
  "plan_of ms = map (\<lambda>m. (mg_id m, mg_checksum m)) ms"

definition locked_body ::
  "'d server \<Rightarrow> string \<Rightarrow> bool \<Rightarrow> migration list \<Rightarrow> (string \<times> string) list option \<Rightarrow> 'd connection \<Rightarrow>
   (exc + string list) \<times> 'd connection" where
  "locked_body sv version owns migrations expected c =
     (if sv_unsafe_roles sv (cn_working c) \<noteq> [] then (Inl (PyException ''RuntimeError''), c)
      else let todo = plan_pending migrations (applied_ids (cn_working c)) in
        if expected \<noteq> None \<and> Some (plan_of todo) \<noteq> expected
        then (Inl (ConfigError ''migration plan drifted while holding the migration lock''), c)
        else run_pending sv version owns todo (if owns then commit c else c))"

text \<open>
  The advisory lock belongs to the session when the runner owns its transactions, and is then released
  in the \<open>finally\<close> block after anything left open is rolled back; otherwise it ends with the caller's
  transaction.  The pending migrations are read in a probing transaction.
\<close>

definition migrate ::
  "'d server \<Rightarrow> string \<Rightarrow> migration list \<Rightarrow> (string \<times> string) list option \<Rightarrow> 'd connection \<Rightarrow>
   (exc + string list) \<times> 'd connection" where
  "migrate sv version migrations expected c =
     (let owns = \<not> cn_in_transaction c;
          locked = c\<lparr>cn_in_transaction := True, cn_session_locks := cn_session_locks c + (if owns then 1 else 0)\<rparr>
      in case locked_body sv version owns migrations expected locked of (r, c1) \<Rightarrow>
        if \<not> owns then (r, c1)
        else
          let c2 = (if cn_in_transaction c1 then rollback c1 else c1);
              c3 = commit (c2\<lparr>cn_session_locks := cn_session_locks c2 - 1\<rparr>)
          in if cn_session_locks c2 = 0 then (Inl (PyException ''RuntimeError''), c3) else (r, c3))"

section \<open>The check of the ledger\<close>

text \<open>The wording of the details is shortened; what counts is whether there are any.\<close>

record verify_check =
  vc_name :: string
  vc_ok :: bool
  vc_details :: "string list"

record verify_report =
  vr_ok :: bool
  vr_checks :: "verify_check list"

definition from_checks :: "verify_check list \<Rightarrow> verify_report" where
  "from_checks checks = \<lparr>vr_ok = list_all vc_ok checks, vr_checks = checks\<rparr>"

definition failures :: "verify_report \<Rightarrow> verify_check list" where
  "failures r = filter (\<lambda>c. \<not> vc_ok c) (vr_checks r)"

definition released_equivalent_checksums :: "string \<Rightarrow> string list" where
  "released_equivalent_checksums i =
     (if i = ''0001_initial'' then [''6d5b8196c091bbf08a2ea5ddec99eb5d386a018c462761caee15dad54f0571e3''] else [])"

definition schema_check :: "string option \<Rightarrow> verify_check" where
  "schema_check owner = (let details = (case owner of
        None \<Rightarrow> [''schema 'taskq' does not exist (run `taskq migrate`)'']
      | Some o' \<Rightarrow> if o' \<noteq> ''taskq_owner'' then [''schema 'taskq' is owned by another role''] else [])
     in \<lparr>vc_name = ''schema_exists'', vc_ok = (details = []), vc_details = details\<rparr>)"

text \<open>\<open>{m.id: m for m in migrations}\<close>: the last file of a name counts.\<close>

definition by_id :: "migration list \<Rightarrow> string \<Rightarrow> migration option" where
  "by_id migrations i = dget (rev (map (\<lambda>m. (mg_id m, m)) migrations)) i"

definition row_complaints :: "migration list \<Rightarrow> string \<times> string option \<Rightarrow> string list" where
  "row_complaints migrations r = (case r of (i, recorded) \<Rightarrow> (case by_id migrations i of
      None \<Rightarrow> [''ledger row '' @ i @ '' has no packaged migration file'']
    | Some m \<Rightarrow> (case recorded of
          None \<Rightarrow> []
        | Some recorded_sum \<Rightarrow>
            if recorded_sum \<noteq> mg_checksum m \<and> recorded_sum \<notin> set (released_equivalent_checksums i)
            then [''checksum mismatch for '' @ i] else [])))"

definition ledger_details :: "migration list \<Rightarrow> string list \<times> (string, ledger_row) dict \<Rightarrow> string list" where
  "ledger_details migrations l = (case l of (columns, ledger) \<Rightarrow>
     let missing = filter (\<lambda>c. c \<notin> set columns) [''package_version'', ''checksum'', ''applied_at''];
         rows = map (\<lambda>(i, r). (i, if ''checksum'' \<in> set columns then lr_checksum r else None)) ledger
     in (if missing \<noteq> [] then [''ledger is missing ADR-004 column(s)''] else []) @
        concat (map (row_complaints migrations) (sort_key fst rows)) @
        map (\<lambda>m. ''packaged migration '' @ mg_id m @ '' not applied'')
          (filter (\<lambda>m. mg_id m \<notin> set (dkeys ledger)) migrations))"

definition ledger_check :: "migration list \<Rightarrow> 'd database \<Rightarrow> verify_check" where
  "ledger_check migrations d = (let details = (case db_ledger d of
        None \<Rightarrow> [''taskq.schema_migrations does not exist (run `taskq migrate`)''] @
          (if migrations \<noteq> [] then [''packaged migration(s) not applied''] else [])
      | Some l \<Rightarrow> ledger_details migrations l)
     in \<lparr>vc_name = ''migration_ledger'', vc_ok = (details = []), vc_details = details\<rparr>)"

section \<open>All or nothing, migration by migration\<close>

text \<open>
  The specification forgets connections and transactions: what a whole migration makes of a database, when it
  succeeds, and the error when it does not.
\<close>

definition owner_effect :: "'d server \<Rightarrow> 'd database \<Rightarrow> exc + 'd database" where
  "owner_effect sv d =
     ebind (if sv_owner_exists sv d then Inr d else sv_execute sv create_owner d) (\<lambda>d1.
     ebind (if sv_can_set_owner sv d1 then Inr d1 else sv_execute sv grant_owner d1) (\<lambda>d2.
     if sv_can_set_owner sv d2 then Inr d2 else Inl (PyException ''RuntimeError'')))"

definition execute_all :: "'d server \<Rightarrow> string list \<Rightarrow> 'd database \<Rightarrow> exc + 'd database" where
  "execute_all sv stmts d = fold (\<lambda>s r. ebind r (sv_execute sv s)) stmts (Inr d)"

definition migration_effect :: "'d server \<Rightarrow> string \<Rightarrow> migration \<Rightarrow> 'd database \<Rightarrow> exc + 'd database" where
  "migration_effect sv version m d =
     ebind (owner_effect sv d) (\<lambda>d1.
     ebind (migration_statements m) (\<lambda>stmts.
     ebind (execute_all sv stmts d1) (record_applied version m)))"

definition apply_all :: "'d server \<Rightarrow> string \<Rightarrow> migration list \<Rightarrow> 'd database \<Rightarrow> exc + 'd database" where
  "apply_all sv version ms d = fold (\<lambda>m r. ebind r (migration_effect sv version m)) ms (Inr d)"

lemma apply_all_simps [simp]:
  "apply_all sv version [] d = Inr d"
  "apply_all sv version (ms @ [m]) d = ebind (apply_all sv version ms d) (migration_effect sv version m)"
  by (simp_all add: apply_all_def)

lemma apply_all_Cons:
  "migration_effect sv version m d = Inr d1 \<Longrightarrow> apply_all sv version (m # ms) d = apply_all sv version ms d1"
  by (simp add: apply_all_def)

lemma fold_ebind_Inl: "fold (\<lambda>s r. ebind r (f s)) ss (Inl e) = Inl e"
  by (induction ss) simp_all

lemma execute_all_Cons: "execute_all sv (s # stmts) d = ebind (sv_execute sv s d) (execute_all sv stmts)"
  by (cases "sv_execute sv s d") (simp_all add: execute_all_def fold_ebind_Inl)

text \<open>
  The transactional steps refine it: nothing is committed on the way, the transaction's own view ends as the
  specification says when they return, and they raise its error when they do not.
\<close>

definition refines ::
  "('d connection \<Rightarrow> (exc + unit) \<times> 'd connection) \<Rightarrow> ('d database \<Rightarrow> exc + 'd database) \<Rightarrow> bool" where
  "refines g f \<longleftrightarrow> (\<forall>c r c'. g c = (r, c') \<longrightarrow>
     cn_committed c' = cn_committed c \<and> cn_session_locks c' = cn_session_locks c \<and>
     (cn_in_transaction c \<longrightarrow> cn_in_transaction c') \<and>
     (case r of Inl e \<Rightarrow> f (cn_working c) = Inl e | Inr _ \<Rightarrow> f (cn_working c) = Inr (cn_working c')))"

lemma refinesD:
  assumes "refines g f" and "g c = (r, c')"
  shows "cn_committed c' = cn_committed c" "cn_session_locks c' = cn_session_locks c"
    "cn_in_transaction c \<Longrightarrow> cn_in_transaction c'" "r = Inl e \<Longrightarrow> f (cn_working c) = Inl e"
    "r = Inr u \<Longrightarrow> f (cn_working c) = Inr (cn_working c')"
  using assms by (auto simp: refines_def split: sum.splits)

lemma refines_in_txn: "refines (in_txn f) f"
  by (auto simp: refines_def in_txn_def split: sum.splits)

lemma refines_return: "refines (\<lambda>c. (Inr (), c)) Inr" "refines (\<lambda>c. (Inl e, c)) (\<lambda>d. Inl e)"
  by (simp_all add: refines_def)

lemma refines_if:
  "refines g f \<Longrightarrow> refines g' f' \<Longrightarrow>
   refines (\<lambda>c. if b (cn_working c) then g c else g' c) (\<lambda>d. if b d then f d else f' d)"
  by (auto simp: refines_def)

lemma refines_and_then:
  assumes "refines g f" and "refines g' f'"
  shows "refines (\<lambda>c. and_then (g c) g') (\<lambda>d. ebind (f d) f')"
proof -
  have "cn_committed c' = cn_committed c \<and> cn_session_locks c' = cn_session_locks c \<and>
      (cn_in_transaction c \<longrightarrow> cn_in_transaction c') \<and>
      (case r of Inl e \<Rightarrow> ebind (f (cn_working c)) f' = Inl e
        | Inr _ \<Rightarrow> ebind (f (cn_working c)) f' = Inr (cn_working c'))"
    if run: "and_then (g c) g' = (r, c')" for c r c'
  proof -
    obtain q c1 where q: "g c = (q, c1)" by (cases rule: prod.exhaust)
    note first = refinesD [OF assms(1) q]
    show ?thesis
    proof (cases q)
      case (Inl e)
      then show ?thesis using run q first by auto
    next
      case (Inr u)
      then have "g' c1 = (r, c')" using run q by simp
      note second = refinesD [OF assms(2) this]
      show ?thesis using first(1-3) first(5) [OF Inr] second by (auto split: sum.splits)
    qed
  qed
  then show ?thesis by (auto simp: refines_def)
qed

lemma refines_membership: "refines (ensure_installer_owner_membership sv) (owner_effect sv)"
  unfolding ensure_installer_owner_membership_def owner_effect_def
  by (intro refines_and_then refines_if refines_in_txn refines_return)

lemma refines_statements: "refines (execute_statements sv stmts) (execute_all sv stmts)"
proof (induction stmts)
  case Nil
  then show ?case by (simp add: refines_def execute_all_def)
next
  case (Cons s stmts)
  then show ?case
    using refines_and_then [OF refines_in_txn Cons, of "sv_execute sv s"]
    by (simp add: execute_all_Cons [abs_def])
qed

lemma refines_apply_migration: "refines (apply_migration sv version m) (migration_effect sv version m)"
proof (cases "migration_statements m")
  case (Inl e)
  then show ?thesis
    using refines_and_then [OF refines_membership refines_return(2)]
    by (simp add: apply_migration_def [abs_def] migration_effect_def [abs_def])
next
  case (Inr stmts)
  then show ?thesis
    using refines_and_then [OF refines_membership refines_and_then [OF refines_statements refines_in_txn]]
    by (simp add: apply_migration_def [abs_def] migration_effect_def [abs_def])
qed

text \<open>The first statement has opened the transaction when a migration ends, however it ends.\<close>

definition opens :: "('d connection \<Rightarrow> (exc + unit) \<times> 'd connection) \<Rightarrow> bool" where
  "opens g \<longleftrightarrow> (\<forall>c r c'. g c = (r, c') \<longrightarrow> cn_in_transaction c')"

lemma opens_in_txn: "opens (in_txn f)"
  by (auto simp: opens_def in_txn_def split: sum.splits)

lemma opens_if: "opens g \<Longrightarrow> opens g' \<Longrightarrow> opens (\<lambda>c. if b c then g c else g' c)"
  by (auto simp: opens_def)

lemma opens_and_then:
  assumes "opens g" and "refines g' f'" shows "opens (\<lambda>c. and_then (g c) g')"
proof -
  have "cn_in_transaction c'" if run: "and_then (g c) g' = (r, c')" for c r c'
  proof -
    obtain q c1 where q: "g c = (q, c1)" by (cases rule: prod.exhaust)
    then have "cn_in_transaction c1" using assms(1) by (simp add: opens_def)
    then show ?thesis using run q refinesD(3) [OF assms(2)] by (cases q) auto
  qed
  then show ?thesis by (simp add: opens_def)
qed

lemma opens_membership: "opens (ensure_installer_owner_membership sv)"
  unfolding ensure_installer_owner_membership_def
  by (rule opens_and_then [where f' = "\<lambda>d. ebind (if sv_can_set_owner sv d then Inr d else sv_execute sv grant_owner d)
        (\<lambda>d2. if sv_can_set_owner sv d2 then Inr d2 else Inl (PyException ''RuntimeError''))"],
      intro opens_if opens_in_txn, intro refines_and_then refines_if refines_in_txn refines_return)

lemma opens_apply_migration: "opens (apply_migration sv version m)"
proof (cases "migration_statements m")
  case (Inl e)
  then show ?thesis
    using opens_and_then [OF opens_membership refines_return(2)] by (simp add: apply_migration_def [abs_def])
next
  case (Inr stmts)
  then show ?thesis
    using opens_and_then [OF opens_membership refines_and_then [OF refines_statements refines_in_txn]]
    by (simp add: apply_migration_def [abs_def])
qed

definition settled :: "'d connection \<Rightarrow> bool" where
  "settled c \<longleftrightarrow> cn_working c = cn_committed c \<and> \<not> cn_in_transaction c"

definition migrated ::
  "'d server \<Rightarrow> string \<Rightarrow> migration list \<Rightarrow> 'd database \<Rightarrow> exc + string list \<Rightarrow> 'd database \<Rightarrow> bool" where
  "migrated sv version todo d r d' \<longleftrightarrow> (case r of
      Inr ids \<Rightarrow> ids = map mg_id todo \<and> apply_all sv version todo d = Inr d'
    | Inl e \<Rightarrow> \<exists>k < length todo. apply_all sv version (take k todo) d = Inr d' \<and>
        migration_effect sv version (todo ! k) d' = Inl e)"

text \<open>An interrupted run leaves its transaction open, and what it holds is not committed.\<close>

lemma run_pending_owned:
  "run_pending sv version True ms c = (r, c') \<Longrightarrow> settled c \<Longrightarrow>
   (settled c' \<or> cn_in_transaction c') \<and> cn_session_locks c' = cn_session_locks c \<and>
   migrated sv version ms (cn_committed c) r (cn_committed c')"
proof (induction ms arbitrary: c r c')
  case Nil
  then show ?case by (auto simp: migrated_def)
next
  case (Cons m ms)
  have w: "cn_working c = cn_committed c" using Cons.prems(2) by (simp add: settled_def)
  obtain a c1 where a: "apply_migration sv version m c = (a, c1)" by (cases rule: prod.exhaust)
  note step = refinesD [OF refines_apply_migration a]
  have opened: "cn_in_transaction c1" using opens_apply_migration a unfolding opens_def by blast
  show ?case
  proof (cases a)
    case (Inl e)
    then have "r = Inl e" "c' = (if is_exception e then rollback c1 else c1)"
      using Cons.prems(1) a by simp_all
    then show ?thesis
      using step(1,2) step(4) [OF Inl] opened w
      by (auto simp: rollback_def settled_def migrated_def intro!: exI [of _ 0])
  next
    case (Inr u)
    have d: "migration_effect sv version m (cn_committed c) = Inr (cn_working c1)" using step(5) [OF Inr] w by simp
    obtain q c2 where q: "run_pending sv version True ms (commit c1) = (q, c2)" by (cases rule: prod.exhaust)
    have c': "c' = c2" and r: "r = map_sum id (\<lambda>ids. mg_id m # ids) q"
      using Cons.prems(1) a Inr q by (auto split: sum.splits)
    have s: "settled (commit c1)" "cn_committed (commit c1) = cn_working c1"
        "cn_session_locks (commit c1) = cn_session_locks c"
      using step(2) by (simp_all add: settled_def commit_def)
    have ih: "settled c2 \<or> cn_in_transaction c2" "cn_session_locks c2 = cn_session_locks c"
        "migrated sv version ms (cn_working c1) q (cn_committed c2)"
      using Cons.IH [OF q s(1)] s(2,3) by simp_all
    have "migrated sv version (m # ms) (cn_committed c) r (cn_committed c2)"
    proof (cases q)
      case (Inl e)
      then obtain k where "k < length ms" "apply_all sv version (take k ms) (cn_working c1) = Inr (cn_committed c2)"
          "migration_effect sv version (ms ! k) (cn_committed c2) = Inl e"
        using ih(3) by (auto simp: migrated_def)
      then show ?thesis
        using Inl r apply_all_Cons [OF d] by (auto simp: migrated_def intro!: exI [of _ "Suc k"])
    next
      case q: (Inr ids)
      then show ?thesis using ih(3) r apply_all_Cons [OF d] by (simp add: migrated_def)
    qed
    then show ?thesis using ih(1,2) c' by simp
  qed
qed

text \<open>In the caller's transaction nothing is committed and no session lock is taken.\<close>

lemma run_pending_borrowed:
  "run_pending sv version False ms c = (r, c') \<Longrightarrow> cn_in_transaction c \<Longrightarrow>
   cn_committed c' = cn_committed c \<and> cn_session_locks c' = cn_session_locks c \<and> cn_in_transaction c'"
proof (induction ms arbitrary: c r c')
  case (Cons m ms)
  obtain a c1 where a: "apply_migration sv version m c = (a, c1)" by (cases rule: prod.exhaust)
  note step = refinesD [OF refines_apply_migration a]
  obtain q c2 where q: "run_pending sv version False ms c1 = (q, c2)" by (cases rule: prod.exhaust)
  show ?case
    using Cons.prems(1) a q Cons.IH [OF q] step(1,2) step(3) [OF Cons.prems(2)] by (auto split: sum.splits)
qed simp

lemma migrate_in_callers_transaction:
  assumes "cn_in_transaction c" and "migrate sv version ms expected c = (r, c')"
  shows "cn_committed c' = cn_committed c \<and> cn_session_locks c' = cn_session_locks c \<and> cn_in_transaction c'"
  using assms by (auto simp: migrate_def locked_body_def Let_def dest!: run_pending_borrowed split: if_splits)

text \<open>
  C20: A runner that owns its transactions never leaves half a migration behind.  Statement by statement a migration
  changes what the open transaction sees, and wherever it raises, be it a statement, a refused file, the
  ledger row or a cancellation, the run ends outside any transaction and holding no lock it took, and what is
  committed is the database with the first \<open>k\<close> pending migrations applied, each with its ledger row; all of them when it
  returns, and when it raises in a migration, those before the one that failed.  When it raises earlier
  nothing has changed.
\<close>

theorem migrations_are_atomic:
  assumes "settled c" and "migrate sv version ms expected c = (r, c')"
  shows "settled c' \<and> cn_session_locks c' = cn_session_locks c \<and>
    (migrated sv version (plan_pending ms (applied_ids (cn_committed c))) (cn_committed c) r (cn_committed c') \<or>
     (\<exists>e. r = Inl e) \<and> cn_committed c' = cn_committed c)"
proof -
  let ?pending = "plan_pending ms (applied_ids (cn_committed c))"
  let ?locked = "c\<lparr>cn_in_transaction := True, cn_session_locks := cn_session_locks c + 1\<rparr>"
  have c: "cn_working c = cn_committed c" "\<not> cn_in_transaction c" using assms(1) by (simp_all add: settled_def)
  obtain q c1 where q: "locked_body sv version True ms expected ?locked = (q, c1)" by (cases rule: prod.exhaust)
  define c2 where "c2 = (if cn_in_transaction c1 then rollback c1 else c1)"
  have body: "cn_session_locks c2 = cn_session_locks c + 1 \<and> settled c2 \<and>
      (migrated sv version ?pending (cn_committed c) q (cn_committed c2) \<or>
       (\<exists>e. q = Inl e) \<and> cn_committed c2 = cn_committed c)"
  proof (cases "sv_unsafe_roles sv (cn_working c) \<noteq> [] \<or> expected \<noteq> None \<and> Some (plan_of ?pending) \<noteq> expected")
    case True
    then have "(\<exists>e. q = Inl e)" "c1 = ?locked"
      using q c by (auto simp: locked_body_def Let_def split: if_splits)
    then show ?thesis using c by (auto simp: c2_def rollback_def settled_def)
  next
    case False
    then have run: "run_pending sv version True ?pending (commit ?locked) = (q, c1)"
      using q c by (auto simp: locked_body_def Let_def)
    have s: "settled (commit ?locked)" "cn_committed (commit ?locked) = cn_committed c"
      using c by (simp_all add: settled_def commit_def)
    have "settled c1 \<or> cn_in_transaction c1" "cn_session_locks c1 = cn_session_locks c + 1"
        "migrated sv version ?pending (cn_committed c) q (cn_committed c1)"
      using run_pending_owned [OF run s(1)] s(2) by (simp_all add: commit_def)
    then show ?thesis by (auto simp: c2_def settled_def rollback_def)
  qed
  have "r = q \<and> c' = commit (c2\<lparr>cn_session_locks := cn_session_locks c2 - 1\<rparr>)"
    using assms(2) c q body by (auto simp: migrate_def Let_def c2_def [symmetric])
  then show ?thesis using body by (auto simp: commit_def settled_def)
qed

text \<open>A script that creates the ledger and one that is cancelled in its second statement.\<close>

definition sample_server :: "string list server" where
  "sample_server =
     \<lparr>sv_execute = (\<lambda>s d. if s = ''BAD'' then Inl (PyException ''CancelledError'')
        else Inr (d\<lparr>db_content := db_content d @ [s], db_ledger := (case db_ledger d of
          None \<Rightarrow> Some ([''id'', ''package_version'', ''checksum'', ''applied_at''], []) | Some l \<Rightarrow> Some l)\<rparr>)),
      sv_owner_exists = (\<lambda>d. create_owner \<in> set (db_content d)),
      sv_can_set_owner = (\<lambda>d. grant_owner \<in> set (db_content d)), sv_unsafe_roles = (\<lambda>d. [])\<rparr>"

definition sample_migration :: "string \<Rightarrow> string \<Rightarrow> migration" where
  "sample_migration i sql = \<lparr>mg_id = i, mg_filename = i @ ''.sql'', mg_checksum = ''0'' @ i, mg_sql = sql\<rparr>"

definition sample_migrations :: "migration list" where
  "sample_migrations = [sample_migration ''1'' ''A;B'', sample_migration ''2'' ''C;BAD;'']"

definition empty_connection :: "string list connection" where
  "empty_connection =
     \<lparr>cn_committed = \<lparr>db_content = [], db_ledger = None\<rparr>, cn_working = \<lparr>db_content = [], db_ledger = None\<rparr>,
      cn_in_transaction = False, cn_session_locks = 0\<rparr>"

definition migrated_connection :: "string list connection" where
  "migrated_connection = (let d =
       \<lparr>db_content = [create_owner, grant_owner, ''A'', ''B''],
        db_ledger = Some ([''id'', ''package_version'', ''checksum'', ''applied_at''],
          [(''1'', \<lparr>lr_package_version = Some ''v'', lr_checksum = Some ''01'', lr_applied_at = True\<rparr>)])\<rparr>
     in \<lparr>cn_committed = d, cn_working = d, cn_in_transaction = False, cn_session_locks = 0\<rparr>)"

lemma sample_statements_of:
  "migration_statements (sample_migration ''1'' ''A;B'') = Inr [''A'', ''B'']"
  "migration_statements (sample_migration ''2'' ''C;BAD;'') = Inr [''C'', ''BAD'']"
  by (simp_all add: migration_statements_def sample_migration_def executable_sql_def split_sql_statements_def
      kept_statement_def py_strip_def py_lstrip_def py_space_def next_chunk_def quote_char_def double_quote_def
      first_keyword.simps tag_start_def transaction_control_def consume_def List.map_filter_def char_lower_def Let_def)
    code_simp

lemma sample_run:
  "run_pending sample_server ''v'' True [sample_migration ''1'' ''A;B''] (empty_connection\<lparr>cn_session_locks := 1\<rparr>) =
     (Inr [''1''], migrated_connection\<lparr>cn_session_locks := 1\<rparr>)"
  "run_pending sample_server ''v'' True sample_migrations (empty_connection\<lparr>cn_session_locks := 1\<rparr>) =
     (Inl (PyException ''CancelledError''), migrated_connection\<lparr>cn_session_locks := 1, cn_in_transaction := True,
        cn_working := cn_committed migrated_connection
          \<lparr>db_content := [create_owner, grant_owner, ''A'', ''B'', ''C'']\<rparr>\<rparr>)"
  unfolding sample_migrations_def run_pending.simps apply_migration_def sample_statements_of
  by (simp_all add: sample_server_def ensure_installer_owner_membership_def in_txn_def record_applied_def new_row_def
      updated_row_def empty_connection_def migrated_connection_def sample_migration_def commit_def is_exception_def
      create_owner_def grant_owner_def Let_def)

lemma sample_migrate:
  "migrate sample_server ''v'' sample_migrations None empty_connection =
     (Inl (PyException ''CancelledError''), migrated_connection)"
  "migrate sample_server ''v'' [sample_migration ''1'' ''A;B''] None empty_connection = (Inr [''1''], migrated_connection)"
proof -
  have plans: "plan_pending ms (applied_ids (cn_working empty_connection)) = ms" for ms
    by (simp add: plan_pending_def applied_ids_def empty_connection_def)
  have "migrate sample_server ''v'' ms None empty_connection =
      (case run_pending sample_server ''v'' True ms (empty_connection\<lparr>cn_session_locks := 1\<rparr>) of (r, c1) \<Rightarrow>
        let c2 = (if cn_in_transaction c1 then rollback c1 else c1);
            c3 = commit (c2\<lparr>cn_session_locks := cn_session_locks c2 - 1\<rparr>)
        in if cn_session_locks c2 = 0 then (Inl (PyException ''RuntimeError''), c3) else (r, c3))" for ms
    using plans [of ms]
    by (simp add: migrate_def locked_body_def empty_connection_def sample_server_def commit_def Let_def)
  then show "migrate sample_server ''v'' sample_migrations None empty_connection =
       (Inl (PyException ''CancelledError''), migrated_connection)"
    and "migrate sample_server ''v'' [sample_migration ''1'' ''A;B''] None empty_connection =
       (Inr [''1''], migrated_connection)"
    by (simp_all add: sample_run [unfolded One_nat_def] migrated_connection_def rollback_def commit_def Let_def
        del: run_pending.simps)
qed

theorem migrations_are_atomic_witness:
  "settled migrated_connection \<and> migrated sample_server ''v'' sample_migrations \<lparr>db_content = [], db_ledger = None\<rparr>
     (Inl (PyException ''CancelledError'')) (cn_committed migrated_connection)"
proof -
  have "settled empty_connection" by (simp add: settled_def empty_connection_def)
  note m = migrations_are_atomic [OF this sample_migrate(1)]
  have "plan_pending sample_migrations {} = sample_migrations" by (simp add: plan_pending_def)
  moreover have "cn_committed migrated_connection \<noteq> cn_committed empty_connection"
    by (simp add: migrated_connection_def empty_connection_def Let_def)
  ultimately show ?thesis using m by (simp add: applied_ids_def empty_connection_def)
qed

section \<open>What a migrated database answers to the check\<close>

definition ledger_rows :: "'d database \<Rightarrow> (string \<times> ledger_row) list" where
  "ledger_rows d = (case db_ledger d of None \<Rightarrow> [] | Some (columns, rows) \<Rightarrow> rows)"

lemma applied_ids_rows: "applied_ids d = fst ` set (ledger_rows d)"
  by (simp add: applied_ids_def ledger_rows_def split: option.splits)

text \<open>A statement that leaves the rows of the ledger alone; it may create the table or add columns.\<close>

definition leaves_rows :: "('d database \<Rightarrow> exc + 'd database) \<Rightarrow> bool" where
  "leaves_rows f \<longleftrightarrow> (\<forall>d d'. f d = Inr d' \<longrightarrow> ledger_rows d' = ledger_rows d)"

text \<open>The statements a run can execute: those of the files and the two about the owner.\<close>

definition packaged_statements :: "migration list \<Rightarrow> string set" where
  "packaged_statements ms = {create_owner, grant_owner} \<union>
     (\<Union>m \<in> set ms. case migration_statements m of Inl e \<Rightarrow> {} | Inr stmts \<Rightarrow> set stmts)"

text \<open>
  A row that needs no explanation: its file is packaged, and the checksum it states, if any, is the file's or the
  one of its released equivalent.
\<close>

definition row_explained :: "migration list \<Rightarrow> string \<times> ledger_row \<Rightarrow> bool" where
  "row_explained ms r \<longleftrightarrow> (\<exists>m \<in> set ms. mg_id m = fst r \<and> (case lr_checksum (snd r) of None \<Rightarrow> True
     | Some x \<Rightarrow> x = mg_checksum m \<or> x \<in> set (released_equivalent_checksums (mg_id m))))"

definition full_ledger :: "'d database \<Rightarrow> bool" where
  "full_ledger d \<longleftrightarrow> (case db_ledger d of None \<Rightarrow> False
     | Some (columns, rows) \<Rightarrow> {''package_version'', ''checksum'', ''applied_at''} \<subseteq> set columns)"

lemma packaged_statement:
  assumes "m \<in> set ms" and "migration_statements m = Inr stmts" and "s \<in> set stmts"
  shows "s \<in> packaged_statements ms"
  using assms unfolding packaged_statements_def by (intro UnI2 UN_I [of m]) simp_all

lemma leaves_rowsD: "leaves_rows f \<Longrightarrow> f d = Inr d' \<Longrightarrow> ledger_rows d' = ledger_rows d"
  by (simp add: leaves_rows_def)

lemma leaves_bind: "leaves_rows f \<Longrightarrow> leaves_rows g \<Longrightarrow> leaves_rows (\<lambda>d. ebind (f d) g)"
  by (auto simp: leaves_rows_def ebind_Inr_iff)

lemma leaves_trivially: "leaves_rows Inr" "leaves_rows (\<lambda>d. Inl e)"
  by (simp_all add: leaves_rows_def)

lemma leaves_if: "leaves_rows f \<Longrightarrow> leaves_rows g \<Longrightarrow> leaves_rows (\<lambda>d. if b d then f d else g d)"
  by (simp add: leaves_rows_def)

lemma execute_all_leaves: "\<forall>s \<in> set stmts. leaves_rows (sv_execute sv s) \<Longrightarrow> leaves_rows (execute_all sv stmts)"
proof (induction stmts)
  case Nil
  then show ?case by (simp add: execute_all_def leaves_rows_def)
next
  case (Cons s stmts)
  then show ?case using leaves_bind [of "sv_execute sv s" "execute_all sv stmts"]
    by (simp add: execute_all_Cons [abs_def])
qed

lemma owner_effect_leaves:
  "leaves_rows (sv_execute sv create_owner) \<Longrightarrow> leaves_rows (sv_execute sv grant_owner) \<Longrightarrow> leaves_rows (owner_effect sv)"
  unfolding owner_effect_def by (intro leaves_bind leaves_if leaves_trivially)

lemma dset_new: "i \<notin> fst ` set rows \<Longrightarrow> dset i x rows = rows @ [(i, x)]"
  by (induction rows) auto

lemma record_applied_row:
  assumes "record_applied version m d = Inr d'" and "mg_id m \<notin> applied_ids d" and "m \<in> set ms"
  shows "\<exists>x. ledger_rows d' = ledger_rows d @ [(mg_id m, x)] \<and> row_explained ms (mg_id m, x)"
proof -
  obtain columns rows where l: "db_ledger d = Some (columns, rows)"
    using assms(1) by (auto simp: record_applied_def split: option.splits)
  have "dget rows (mg_id m) = None" using assms(2) l by (simp add: applied_ids_rows ledger_rows_def map_of_eq_None_iff)
  then have "ledger_rows d' = ledger_rows d @ [(mg_id m, new_row columns version m)]"
    using assms(1,2) l
    by (auto simp: record_applied_def applied_ids_rows ledger_rows_def dset_new split: if_splits)
  moreover have "row_explained ms (mg_id m, new_row columns version m)"
    using assms(3) by (auto simp: row_explained_def new_row_def updated_row_def)
  ultimately show ?thesis by blast
qed

text \<open>The server's statements leave the ledger to the runner.\<close>

definition ledger_left_alone :: "'d server \<Rightarrow> migration list \<Rightarrow> bool" where
  "ledger_left_alone sv ms \<longleftrightarrow> (\<forall>s \<in> packaged_statements ms. leaves_rows (sv_execute sv s))"

lemma migration_adds_its_row:
  assumes "ledger_left_alone sv ms" and "m \<in> set ms" and "mg_id m \<notin> applied_ids d"
    and "migration_effect sv version m d = Inr d'"
  shows "\<exists>x. ledger_rows d' = ledger_rows d @ [(mg_id m, x)] \<and> row_explained ms (mg_id m, x)"
proof -
  obtain d1 stmts d2 where s: "owner_effect sv d = Inr d1" "migration_statements m = Inr stmts"
      "execute_all sv stmts d1 = Inr d2" "record_applied version m d2 = Inr d'"
    using assms(4) by (auto simp: migration_effect_def ebind_Inr_iff)
  have left: "leaves_rows (sv_execute sv t)" if "t \<in> packaged_statements ms" for t
    using assms(1) that by (simp add: ledger_left_alone_def)
  have "leaves_rows (owner_effect sv)" by (intro owner_effect_leaves left) (simp_all add: packaged_statements_def)
  moreover have "leaves_rows (execute_all sv stmts)"
    using packaged_statement [OF assms(2) s(2)] by (intro execute_all_leaves ballI left)
  ultimately have "ledger_rows d2 = ledger_rows d" using leaves_rowsD s(1,3) by metis
  then show ?thesis using record_applied_row [OF s(4) _ assms(2)] assms(3) by (simp add: applied_ids_rows)
qed

lemma apply_all_records:
  assumes "ledger_left_alone sv ms"
  shows "set todo \<subseteq> set ms \<Longrightarrow> distinct (map mg_id todo) \<Longrightarrow> applied_ids d \<inter> mg_id ` set todo = {} \<Longrightarrow>
    apply_all sv version todo d = Inr d' \<Longrightarrow>
    \<exists>new. ledger_rows d' = ledger_rows d @ new \<and> map fst new = map mg_id todo \<and> list_all (row_explained ms) new"
proof (induction todo arbitrary: d' rule: rev_induct)
  case (snoc m todo)
  obtain d1 where d1: "apply_all sv version todo d = Inr d1" "migration_effect sv version m d1 = Inr d'"
    using snoc.prems(4) by (auto simp: ebind_Inr_iff)
  obtain new where new: "ledger_rows d1 = ledger_rows d @ new" "map fst new = map mg_id todo"
      "list_all (row_explained ms) new"
    using snoc.IH [OF _ _ _ d1(1)] snoc.prems(1-3) by auto
  have "fst ` set new = mg_id ` set todo" using new(2) by (metis list.set_map)
  then have "mg_id m \<notin> applied_ids d1"
    using snoc.prems(2,3) new(1) by (auto simp: applied_ids_rows image_Un)
  then obtain x where "ledger_rows d' = ledger_rows d1 @ [(mg_id m, x)]" "row_explained ms (mg_id m, x)"
    using migration_adds_its_row [OF assms _ _ d1(2)] snoc.prems(1) by auto
  then show ?case using new by (intro exI [of _ "new @ [(mg_id m, x)]"]) simp
qed simp

lemma by_id_distinct:
  assumes "distinct (map mg_id ms)"
  shows "by_id ms i = Some m \<longleftrightarrow> m \<in> set ms \<and> mg_id m = i"
proof -
  have "distinct (dkeys (rev (map (\<lambda>m. (mg_id m, m)) ms)))" using assms
    by (simp add: rev_map [symmetric] comp_def)
  note key = map_of_eq_Some_iff [OF this]
  show ?thesis unfolding by_id_def key by auto
qed

lemma complaint_iff:
  assumes "distinct (map mg_id ms)"
  shows "row_complaints ms (i, lr_checksum r) = [] \<longleftrightarrow> row_explained ms (i, r)"
proof (cases "by_id ms i")
  case None
  then have "\<forall>m \<in> set ms. mg_id m \<noteq> i" using by_id_distinct [OF assms, of i] by force
  then show ?thesis using None by (auto simp: row_complaints_def row_explained_def)
next
  case (Some m)
  then have one: "m' \<in> set ms \<and> mg_id m' = i \<longleftrightarrow> m' = m" for m' by (auto simp: by_id_distinct [OF assms, symmetric])
  then have "row_explained ms (i, r) \<longleftrightarrow> (\<exists>m'. m' = m \<and> (case lr_checksum r of None \<Rightarrow> True
      | Some x \<Rightarrow> x = mg_checksum m' \<or> x \<in> set (released_equivalent_checksums (mg_id m'))))"
    unfolding row_explained_def Bex_def conj_assoc [symmetric] fst_conv snd_conv by simp
  moreover have i: "mg_id m = i" using one [of m] by simp
  ultimately have "row_explained ms (i, r) \<longleftrightarrow> (case lr_checksum r of None \<Rightarrow> True
      | Some x \<Rightarrow> x = mg_checksum m \<or> x \<in> set (released_equivalent_checksums i))"
    by (simp add: i split: option.splits)
  then show ?thesis using Some by (auto simp: row_complaints_def split: option.splits)
qed

lemma ledger_check_iff:
  assumes "distinct (map mg_id ms)"
  shows "vc_ok (ledger_check ms d) \<longleftrightarrow> full_ledger d \<and> list_all (row_explained ms) (ledger_rows d) \<and>
    mg_id ` set ms \<subseteq> applied_ids d"
proof (cases "full_ledger d")
  case True
  then obtain columns rows where l: "db_ledger d = Some (columns, rows)"
      and c: "''package_version'' \<in> set columns" "''checksum'' \<in> set columns" "''applied_at'' \<in> set columns"
    by (auto simp: full_ledger_def split: option.splits)
  have "concat (map (row_complaints ms) (sort_key fst (map (\<lambda>(i, r). (i, lr_checksum r)) rows))) = [] \<longleftrightarrow>
      (\<forall>(i, r) \<in> set rows. row_complaints ms (i, lr_checksum r) = [])"
    by (simp only: concat_eq_Nil_conv set_map set_sort) auto
  also have "\<dots> \<longleftrightarrow> list_all (row_explained ms) rows" by (auto simp: complaint_iff [OF assms] list_all_iff)
  finally have "concat (map (row_complaints ms) (sort_key fst (map (\<lambda>(i, r). (i, lr_checksum r)) rows))) = [] \<longleftrightarrow>
      list_all (row_explained ms) rows" .
  moreover have "filter (\<lambda>m. mg_id m \<notin> set (dkeys rows)) ms = [] \<longleftrightarrow> mg_id ` set ms \<subseteq> applied_ids d"
    using l by (auto simp: applied_ids_def filter_empty_conv)
  ultimately show ?thesis using True l c by (simp add: ledger_check_def ledger_details_def ledger_rows_def)
next
  case False
  then show ?thesis
    by (auto simp: ledger_check_def ledger_details_def full_ledger_def Let_def split: option.splits)
qed

text \<open>
  C34: Migrating settles the matter: when the runner returns, every packaged file is in the ledger, the rows there were
  before are untouched, and the check passes if and only if the ledger has the columns it asks for and each
  row from before the run is of a packaged file with its checksum; the rows the run wrote never fail it.
  Running again applies nothing and changes nothing: it returns the empty list, or refuses because of a
  reserved role.  The files are assumed to have different names and to leave the ledger's rows to the runner.
\<close>

theorem migrated_database_verifies:
  assumes "settled c" and "migrate sv version ms expected c = (Inr ids, c')"
    and "distinct (map mg_id ms)" and "ledger_left_alone sv ms"
  shows "mg_id ` set ms \<subseteq> applied_ids (cn_committed c') \<and>
    take (length (ledger_rows (cn_committed c))) (ledger_rows (cn_committed c')) = ledger_rows (cn_committed c) \<and>
    (vc_ok (ledger_check ms (cn_committed c')) \<longleftrightarrow>
      full_ledger (cn_committed c') \<and> list_all (row_explained ms) (ledger_rows (cn_committed c))) \<and>
    migrate sv later ms None c' = (if sv_unsafe_roles sv (cn_committed c') = [] then Inr []
      else Inl (PyException ''RuntimeError''), c')"
proof -
  let ?todo = "plan_pending ms (applied_ids (cn_committed c))"
  have m: "settled c'" "apply_all sv version ?todo (cn_committed c) = Inr (cn_committed c')"
    using migrations_are_atomic [OF assms(1,2)] by (auto simp: migrated_def)
  have todo: "set ?todo \<subseteq> set ms" "distinct (map mg_id ?todo)" "applied_ids (cn_committed c) \<inter> mg_id ` set ?todo = {}"
    using assms(3) by (auto simp: plan_pending_def distinct_map_filter)
  obtain new where new: "ledger_rows (cn_committed c') = ledger_rows (cn_committed c) @ new"
      "map fst new = map mg_id ?todo" "list_all (row_explained ms) new"
    using apply_all_records [OF assms(4) todo m(2)] by blast
  have "fst ` set new = mg_id ` set ?todo" using new(2) by (metis list.set_map)
  then have ids: "mg_id ` set ms \<subseteq> applied_ids (cn_committed c')"
    using new(1) by (auto simp: applied_ids_rows plan_pending_def image_Un)
  then have none: "plan_pending ms (applied_ids (cn_committed c')) = []"
    by (auto simp: plan_pending_def filter_empty_conv)
  have c': "cn_working c' = cn_committed c'" "\<not> cn_in_transaction c'" using m(1) by (simp_all add: settled_def)
  have "migrate sv later ms None c' = (if sv_unsafe_roles sv (cn_committed c') = [] then Inr []
      else Inl (PyException ''RuntimeError''), c')"
    using c' none by (simp add: migrate_def locked_body_def commit_def rollback_def Let_def)
  then show ?thesis using ids new(1,3) by (simp add: ledger_check_iff [OF assms(3)])
qed

lemma sample_left_alone: "ledger_left_alone sample_server ms"
  by (auto simp: ledger_left_alone_def leaves_rows_def sample_server_def ledger_rows_def split: option.splits if_splits)

theorem migrated_database_verifies_witness:
  "vc_ok (ledger_check [sample_migration ''1'' ''A;B''] (cn_committed migrated_connection)) \<and>
   migrate sample_server ''w'' [sample_migration ''1'' ''A;B''] None migrated_connection = (Inr [], migrated_connection)"
proof -
  have "settled empty_connection" by (simp add: settled_def empty_connection_def)
  note m = migrated_database_verifies [OF this sample_migrate(2) _ sample_left_alone, of "''w''"]
  have "full_ledger (cn_committed migrated_connection)"
    by (simp add: full_ledger_def migrated_connection_def Let_def)
  moreover have "ledger_rows (cn_committed empty_connection) = []"
    by (simp add: ledger_rows_def empty_connection_def)
  ultimately show ?thesis using m by (simp add: sample_server_def)
qed

end
