(* ===== verification/SchemaVerify.thy ===== *)
theory SchemaVerify
  imports Migrate
begin

text \<open>
  The rest of the verifier of \<open>sql/__init__.py\<close>: the checks of the live catalogue against a manifest of
  functions, roles, relations, privileges and seeds.  The rows that its queries return are the record
  \<open>catalog\<close>, the contents of \<open>sql/manifest.py\<close> the record \<open>manifest\<close>; the details leave out the values
  they quote.
\<close>

section \<open>Rows and manifest\<close>

record function_row =
  fr_signature :: string
  fr_arguments :: string
  fr_result :: string
  fr_language :: string
  fr_volatility :: string
  fr_parallel :: string
  fr_strict :: bool
  fr_leakproof :: bool
  fr_owner :: string
  fr_secdef :: bool
  fr_config :: "string list option"
  fr_default_acl :: bool
  fr_public_execute :: bool
  fr_grants :: "string list option"

record function_spec =
  fn_arguments :: string
  fn_result :: string
  fn_language :: string
  fn_volatility :: string
  fn_parallel :: string
  fn_grants :: "string list"

record role_row =
  ro_name :: string
  ro_super :: bool
  ro_inherit :: bool
  ro_createrole :: bool
  ro_createdb :: bool
  ro_canlogin :: bool
  ro_replication :: bool
  ro_bypassrls :: bool
  ro_connlimit :: int
  ro_validuntil :: "string option"
  ro_config :: "string list option"

record relation_row =
  rl_name :: string
  rl_kind :: char
  rl_owner :: string

text \<open>A grant: the relation, empty for the schema, the grantee, the privilege, whether grantable, the grantor.\<close>

type_synonym grant = "string \<times> string \<times> string \<times> bool \<times> string"

record manifest =
  mf_owner :: string
  mf_roles :: "string list"
  mf_role_configs :: "(string, string list) dict"
  mf_tables :: "string list"
  mf_views :: "string list"
  mf_sequences :: "string list"
  mf_composites :: "(string, (string \<times> string) list) dict"
  mf_table_shapes :: "(string, nat \<times> string) dict"
  mf_constraints :: "(string, nat \<times> string) dict"
  mf_constraint_equivalents :: "(string, string list) dict"
  mf_indexes :: "(string, string) dict"
  mf_view_definitions :: "(string, string) dict"
  mf_triggers :: "(string, string) dict"
  mf_functions :: "(string, function_spec) dict"
  mf_control_seeds :: "string list"
  mf_meta_seeds :: "(string, string) dict"
  mf_schedule_seed :: "(string, json) dict"

record catalog =
  cg_functions :: "function_row list"
  cg_roles :: "role_row list"
  cg_memberships :: "(string \<times> string) list"
  cg_relations :: "relation_row list"
  cg_attributes :: "(string \<times> string \<times> string) list"
  cg_table_shapes :: "(string \<times> nat \<times> string) list"
  cg_constraints :: "(string \<times> nat \<times> string) list"
  cg_indexes :: "(string \<times> string) list"
  cg_view_definitions :: "(string \<times> string) list"
  cg_triggers :: "(string \<times> string) list"
  cg_schema_grants :: "grant list"
  cg_relation_grants :: "grant list"
  cg_privilege :: "string \<Rightarrow> string \<Rightarrow> bool"
  cg_meta :: "(string, string) dict"
  cg_controls :: "string list"
  cg_system_queue :: bool
  cg_maintenance :: "(string, json) dict list"
  cg_external_keys :: "string list"

section \<open>The checks\<close>

definition report_check :: "string \<Rightarrow> string list \<Rightarrow> verify_check" where
  "report_check name details = \<lparr>vc_name = name, vc_ok = (details = []), vc_details = details\<rparr>"

text \<open>\<open>sorted(set)\<close>\<close>

definition sorted_set :: "string list \<Rightarrow> string list" where
  "sorted_set xs = sort (remdups xs)"

definition quote_name :: "string \<Rightarrow> string" where
  "quote_name x = CHR 0x27 # x @ [CHR 0x27]"

definition named :: "string \<Rightarrow> string \<Rightarrow> string \<Rightarrow> string" where
  "named verb label x = verb @ '' '' @ label @ '' '' @ quote_name x"

definition role_label :: "string \<Rightarrow> string" where
  "role_label role = ''role '' @ quote_name role"

text \<open>\<open>_set_details\<close>\<close>

definition set_details :: "string \<Rightarrow> string list \<Rightarrow> string list \<Rightarrow> string list" where
  "set_details label expected actual =
     map (named ''missing'' label) (sorted_set (filter (\<lambda>x. x \<notin> set actual) expected)) @
     map (named ''unexpected'' label) (sorted_set (filter (\<lambda>x. x \<notin> set expected) actual))"

text \<open>\<open>{row["relname"]: row for row in rows}\<close>: the last row of a name counts, at the place of the first.\<close>

definition dict_rows :: "('k \<times> 'v) list \<Rightarrow> ('k, 'v) dict" where
  "dict_rows rows = fold (\<lambda>(k, v) d. dset k v d) rows []"

definition function_rows :: "catalog \<Rightarrow> (string, function_row) dict" where
  "function_rows c = dict_rows (map (\<lambda>r. (fr_signature r, r)) (cg_functions c))"

text \<open>The names that both sides know, sorted.\<close>

definition shared_names :: "(string, 'a) dict \<Rightarrow> (string, 'b) dict \<Rightarrow> string list" where
  "shared_names expected actual = sorted_set (filter (\<lambda>k. k \<in> set (dkeys actual)) (dkeys expected))"

definition field_details :: "string \<Rightarrow> function_spec \<Rightarrow> function_row \<Rightarrow> string list" where
  "field_details identity spec row =
     (if fr_arguments row \<noteq> fn_arguments spec then [identity @ '': arguments''] else []) @
     (if fr_result row \<noteq> fn_result spec then [identity @ '': result''] else []) @
     (if fr_language row \<noteq> fn_language spec then [identity @ '': language''] else []) @
     (if fr_volatility row \<noteq> fn_volatility spec then [identity @ '': volatility''] else []) @
     (if fr_parallel row \<noteq> fn_parallel spec then [identity @ '': parallel''] else []) @
     (if fr_strict row then [identity @ '': unexpectedly STRICT''] else []) @
     (if fr_leakproof row then [identity @ '': unexpectedly LEAKPROOF''] else [])"

definition shared_details :: "(string, 'a) dict \<Rightarrow> (string, 'b) dict \<Rightarrow> (string \<Rightarrow> 'a \<Rightarrow> 'b \<Rightarrow> string list) \<Rightarrow> string list" where
  "shared_details expected actual f =
     concat (map (\<lambda>k. f k (the (dget expected k)) (the (dget actual k))) (shared_names expected actual))"

definition function_catalog_check :: "manifest \<Rightarrow> catalog \<Rightarrow> verify_check" where
  "function_catalog_check m c = report_check ''function_catalog''
     (set_details ''function'' (dkeys (mf_functions m)) (dkeys (function_rows c)) @
      shared_details (mf_functions m) (function_rows c) field_details)"

text \<open>\<open>_pinned_search_path_of\<close>\<close>

definition strip_quotes :: "string \<Rightarrow> string" where
  "strip_quotes s = rev (dropWhile (\<lambda>c. c = double_quote) (rev (dropWhile (\<lambda>c. c = double_quote) s)))"

fun pinned_search_path_in :: "string list \<Rightarrow> string list option" where
  "pinned_search_path_in [] = None"
| "pinned_search_path_in (entry # entries) =
     (if takeWhile (\<lambda>c. c \<noteq> CHR ''='') entry = ''search_path''
      then Some (map (\<lambda>part. strip_quotes (py_strip part))
        (split_on (CHR '','') (tl (dropWhile (\<lambda>c. c \<noteq> CHR ''='') entry))))
      else pinned_search_path_in entries)"

definition pinned_search_path_of :: "string list option \<Rightarrow> string list option" where
  "pinned_search_path_of config = pinned_search_path_in (case config of None \<Rightarrow> [] | Some es \<Rightarrow> es)"

definition pinned_search_path :: "string list" where
  "pinned_search_path = [''pg_catalog'', ''taskq'', ''pg_temp'']"

definition hardening_details :: "function_row \<Rightarrow> string list" where
  "hardening_details row =
     (if \<not> fr_secdef row then [fr_signature row @ '': not SECURITY DEFINER''] else []) @
     (if fr_owner row \<noteq> ''taskq_owner'' then [fr_signature row @ '': owner''] else []) @
     (case pinned_search_path_of (fr_config row) of
        None \<Rightarrow> [fr_signature row @ '': no pinned search_path (proconfig)'']
      | Some p \<Rightarrow> if p \<noteq> pinned_search_path then [fr_signature row @ '': search_path''] else [])"

definition function_hardening_check :: "catalog \<Rightarrow> verify_check" where
  "function_hardening_check c = report_check ''function_hardening''
     (concat (map (\<lambda>(k, row). hardening_details row) (function_rows c)))"

definition public_details :: "function_row \<Rightarrow> string list" where
  "public_details row =
     (if fr_default_acl row then [fr_signature row @ '': default ACL'']
      else if fr_public_execute row then [fr_signature row @ '': EXECUTE granted to PUBLIC''] else [])"

definition public_execute_check :: "catalog \<Rightarrow> verify_check" where
  "public_execute_check c = report_check ''no_public_execute''
     (concat (map (\<lambda>(k, row). public_details row) (function_rows c)))"

definition granted_roles :: "function_row \<Rightarrow> string set" where
  "granted_roles row = set (case fr_grants row of None \<Rightarrow> [] | Some gs \<Rightarrow> gs)"

definition expected_grants :: "manifest \<Rightarrow> function_spec \<Rightarrow> string set" where
  "expected_grants m spec = (\<lambda>role. role @ ''/'' @ mf_owner m) ` set (fn_grants spec)"

definition function_privileges_check :: "manifest \<Rightarrow> catalog \<Rightarrow> verify_check" where
  "function_privileges_check m c = report_check ''function_privileges''
     (shared_details (mf_functions m) (function_rows c) (\<lambda>identity spec row.
        if granted_roles row \<noteq> expected_grants m spec then [identity @ '': EXECUTE grants''] else []))"

definition taskq_roles :: "string list" where
  "taskq_roles = [''taskq_owner'', ''taskq_producer'', ''taskq_runner'', ''taskq_observer'', ''taskq_operator'', ''taskq_housekeeper'']"

definition roles_check :: "catalog \<Rightarrow> verify_check" where
  "roles_check c = report_check ''capability_roles_exist''
     (map (\<lambda>r. role_label r @ '' does not exist'') (filter (\<lambda>r. r \<notin> ro_name ` set (cg_roles c)) taskq_roles))"

definition safe_role :: "role_row \<Rightarrow> bool" where
  "safe_role r \<longleftrightarrow> \<not> ro_super r \<and> ro_inherit r \<and> \<not> ro_createrole r \<and> \<not> ro_createdb r \<and> \<not> ro_canlogin r \<and>
     \<not> ro_replication r \<and> \<not> ro_bypassrls r \<and> ro_connlimit r = -1 \<and> ro_validuntil r = None"

definition role_attributes :: "role_row \<Rightarrow> string list" where
  "role_attributes r =
     (if ro_super r then [''rolsuper''] else []) @ (if \<not> ro_inherit r then [''rolinherit''] else []) @
     (if ro_createrole r then [''rolcreaterole''] else []) @ (if ro_createdb r then [''rolcreatedb''] else []) @
     (if ro_canlogin r then [''rolcanlogin''] else []) @ (if ro_replication r then [''rolreplication''] else []) @
     (if ro_bypassrls r then [''rolbypassrls''] else []) @ (if ro_connlimit r \<noteq> -1 then [''rolconnlimit''] else []) @
     (if ro_validuntil r \<noteq> None then [''rolvaliduntil''] else [])"

definition role_settings :: "role_row \<Rightarrow> string set" where
  "role_settings r = set (case ro_config r of None \<Rightarrow> [] | Some cs \<Rightarrow> cs)"

text \<open>\<open>ROLE_CONFIGS[role]\<close> is read of every row; a role without an entry raises.\<close>

definition role_manifest_check :: "manifest \<Rightarrow> catalog \<Rightarrow> exc + verify_check" where
  "role_manifest_check m c =
     ebind (traverse (\<lambda>r. case dget (mf_role_configs m) (ro_name r) of
         None \<Rightarrow> Inl PyKeyError
       | Some config \<Rightarrow> Inr (map (\<lambda>f. role_label (ro_name r) @ '': '' @ f) (role_attributes r) @
           (if role_settings r \<noteq> set config then [role_label (ro_name r) @ '': settings''] else []))) (cg_roles c))
       (\<lambda>ds. Inr (report_check ''role_manifest''
          (concat ds @ map (\<lambda>(member, group). role_label member @ '' is unexpectedly a member of '' @ quote_name group)
            (cg_memberships c))))"

definition relations_of :: "char \<Rightarrow> catalog \<Rightarrow> string list" where
  "relations_of kind c = map rl_name (filter (\<lambda>r. rl_kind r = kind) (cg_relations c))"

definition relation_catalog_check :: "manifest \<Rightarrow> catalog \<Rightarrow> verify_check" where
  "relation_catalog_check m c = report_check ''relation_catalog''
     (set_details ''table'' (mf_tables m) (relations_of (CHR ''r'') c) @
      set_details ''view'' (mf_views m) (relations_of (CHR ''v'') c) @
      set_details ''sequence'' (mf_sequences m) (relations_of (CHR ''S'') c) @
      set_details ''composite'' (dkeys (mf_composites m)) (relations_of (CHR ''c'') c) @
      map (\<lambda>r. rl_name r @ '': owner'') (filter (\<lambda>r. rl_owner r \<noteq> mf_owner m) (cg_relations c)))"

text \<open>\<open>actual.setdefault(name, []).append((attname, data_type))\<close>\<close>

definition composite_shapes :: "catalog \<Rightarrow> (string, (string \<times> string) list) dict" where
  "composite_shapes c = fold (\<lambda>(name, att) d. dset name ((case dget d name of None \<Rightarrow> [] | Some s \<Rightarrow> s) @ [att]) d) (cg_attributes c) []"

definition composites_check :: "manifest \<Rightarrow> catalog \<Rightarrow> verify_check" where
  "composites_check m c = report_check ''composite_shapes''
     (shared_details (mf_composites m) (composite_shapes c) (\<lambda>name wanted shape.
        if shape \<noteq> wanted then [''composite '' @ quote_name name @ '': shape''] else []))"

definition digest_check :: "string \<Rightarrow> (string \<times> 'a) list \<Rightarrow> (string, 'a) dict \<Rightarrow> verify_check" where
  "digest_check name rows expected = report_check name
     (set_details name (dkeys expected) (dkeys (dict_rows rows)) @
      shared_details expected (dict_rows rows) (\<lambda>k wanted got. if got \<noteq> wanted then [name @ '' '' @ quote_name k @ '' definition differs from manifest''] else []))"

definition constraints_check :: "manifest \<Rightarrow> catalog \<Rightarrow> verify_check" where
  "constraints_check m c = report_check ''constraints''
     (set_details ''constraints'' (dkeys (mf_constraints m)) (dkeys (dict_rows (cg_constraints c))) @
      shared_details (mf_constraints m) (dict_rows (cg_constraints c)) (\<lambda>k (n, canonical) (got_n, got).
        if got_n \<noteq> n \<or> got \<notin> insert canonical (set (case dget (mf_constraint_equivalents m) k of None \<Rightarrow> [] | Some es \<Rightarrow> es))
        then [''constraints '' @ quote_name k @ '' definition differs from manifest''] else []))"

definition expected_schema_grants :: "manifest \<Rightarrow> grant set" where
  "expected_schema_grants m = (\<lambda>r. ([], r, ''USAGE'', False, mf_owner m)) ` {r \<in> set (mf_roles m). r \<noteq> ''taskq_owner''}"

definition expected_relation_grants :: "manifest \<Rightarrow> grant set" where
  "expected_relation_grants m = (\<lambda>v. (v, ''taskq_observer'', ''SELECT'', False, mf_owner m)) ` set (mf_views m)"

definition direct_privileges :: "manifest \<Rightarrow> catalog \<Rightarrow> string list" where
  "direct_privileges m c = concat (map (\<lambda>role.
     map (\<lambda>t. role_label role @ '' has direct/effective privilege on table '' @ quote_name t) (filter (cg_privilege c role)
       (sorted_set (filter (\<lambda>t. t \<in> set (relations_of (CHR ''r'') c)) (mf_tables m)))))
     (remdups (filter (\<lambda>r. r \<in> ro_name ` set (cg_roles c)) (tl (mf_roles m)))))"

definition relation_privileges_check :: "manifest \<Rightarrow> catalog \<Rightarrow> verify_check" where
  "relation_privileges_check m c = report_check ''relation_privileges''
     ((if set (cg_schema_grants c) \<noteq> expected_schema_grants m then [''schema grants''] else []) @
      (if set (cg_relation_grants c) \<noteq> expected_relation_grants m then [''relation grants''] else []) @
      direct_privileges m c)"

text \<open>Equality of two Python dictionaries.\<close>

definition same_dict :: "(string, 'a) dict \<Rightarrow> (string, 'a) dict \<Rightarrow> bool" where
  "same_dict a b \<longleftrightarrow> set (dkeys a) = set (dkeys b) \<and> list_all (\<lambda>k. dget a k = dget b k) (dkeys a)"

definition seed_state_check :: "manifest \<Rightarrow> catalog \<Rightarrow> verify_check" where
  "seed_state_check m c = (let live = set (relations_of (CHR ''r'') c) in report_check ''seed_state''
     ((if ''meta'' \<in> live then (if \<not> same_dict (cg_meta c) (mf_meta_seeds m) then [''meta rows''] else [])
       else [''cannot verify meta seeds: table 'meta' is missing'']) @
      (if ''control_state'' \<in> live then set_details ''control seed'' (mf_control_seeds m) (cg_controls c)
       else [''cannot verify control seeds: table 'control_state' is missing'']) @
      (if ''queues'' \<in> live \<and> cg_system_queue c then [''deferred seed queue '_system' is present''] else []) @
      (if ''schedules'' \<in> live
       then (if length (cg_maintenance c) \<noteq> 1 \<or> \<not> same_dict (List.hd (cg_maintenance c)) (mf_schedule_seed m)
             then [''maintenance schedule seed''] else [])
       else [''cannot verify schedule seed: table 'schedules' is missing''])))"

definition external_keys_check :: "catalog \<Rightarrow> verify_check" where
  "external_keys_check c = report_check ''external_foreign_keys'' 
     (map (\<lambda>i. ''cross-schema foreign key '' @ quote_name i @ '' is not in the manifest'') (cg_external_keys c))"

text \<open>\<open>_verify_impl\<close>\<close>

definition verify_database ::
  "manifest \<Rightarrow> migration list \<Rightarrow> string option \<Rightarrow> 'd database \<Rightarrow> catalog \<Rightarrow> exc + verify_report" where
  "verify_database m migrations owner d c = ebind (role_manifest_check m c) (\<lambda>roles.
     Inr (from_checks [schema_check owner, ledger_check migrations d, function_catalog_check m c,
       function_hardening_check c, public_execute_check c, function_privileges_check m c, roles_check c, roles,
       relation_catalog_check m c, composites_check m c, digest_check ''table_shapes'' (cg_table_shapes c) (mf_table_shapes m),
       constraints_check m c, digest_check ''indexes'' (cg_indexes c) (mf_indexes m),
       digest_check ''views'' (cg_view_definitions c) (mf_view_definitions m),
       digest_check ''triggers'' (cg_triggers c) (mf_triggers m),
       relation_privileges_check m c, seed_state_check m c, external_keys_check c]))"

section \<open>What the report means\<close>

lemma report_check_ok [simp]: "vc_ok (report_check name ds) \<longleftrightarrow> ds = []"
  by (simp add: report_check_def)

lemma sorted_set_Nil: "sorted_set xs = [] \<longleftrightarrow> xs = []"
  by (metis remdups_eq_nil_iff set_empty set_sort sorted_set_def)

lemma set_sorted_set: "set (sorted_set xs) = set xs"
  by (simp add: sorted_set_def)

lemma set_details_Nil: "set_details label e a = [] \<longleftrightarrow> set e = set a"
  by (auto simp: set_details_def sorted_set_Nil filter_empty_conv)

lemma shared_details_Nil:
  "shared_details e a f = [] \<longleftrightarrow> (\<forall>k x y. dget e k = Some x \<longrightarrow> dget a k = Some y \<longrightarrow> f k x y = [])"
proof
  assume s: "shared_details e a f = []"
  show "\<forall>k x y. dget e k = Some x \<longrightarrow> dget a k = Some y \<longrightarrow> f k x y = []"
  proof (intro allI impI)
    fix k x y assume k: "dget e k = Some x" "dget a k = Some y"
    then have "k \<in> set (shared_names e a)"
      using dget_Some_key [of e k x] dget_Some_key [of a k y] by (simp add: shared_names_def set_sorted_set)
    then show "f k x y = []" using s k by (auto simp: shared_details_def)
  qed
next
  assume r: "\<forall>k x y. dget e k = Some x \<longrightarrow> dget a k = Some y \<longrightarrow> f k x y = []"
  have "f k (the (dget e k)) (the (dget a k)) = []" if "k \<in> set (shared_names e a)" for k
  proof -
    have "k \<in> set (dkeys e)" "k \<in> set (dkeys a)" using that by (auto simp: shared_names_def set_sorted_set)
    then obtain x y where "dget e k = Some x" "dget a k = Some y" using key_dget_Some by metis
    then show ?thesis using r by simp
  qed
  then show "shared_details e a f = []" by (simp add: shared_details_def)
qed

lemma dkeys_dom: "set (dkeys d) = dom (dget d)"
  by (auto simp: dom_map_of_conv_image_fst)

lemma same_entries:
  "set (dkeys e) = set (dkeys a) \<and> (\<forall>k x y. dget e k = Some x \<longrightarrow> dget a k = Some y \<longrightarrow> x = y) \<longleftrightarrow> dget e = dget a"
proof
  assume l: "set (dkeys e) = set (dkeys a) \<and> (\<forall>k x y. dget e k = Some x \<longrightarrow> dget a k = Some y \<longrightarrow> x = y)"
  then have d: "dom (dget e) = dom (dget a)" by (simp only: dkeys_dom)
  show "dget e = dget a"
  proof
    fix k
    have k: "dget e k = None \<longleftrightarrow> dget a k = None" using d by (metis domIff)
    show "dget e k = dget a k"
    proof (cases "dget e k")
      case None
      then show ?thesis using k by simp
    next
      case (Some x)
      then obtain y where "dget a k = Some y" using k by (cases "dget a k") simp_all
      then show ?thesis using l Some by metis
    qed
  qed
next
  assume "dget e = dget a"
  then show "set (dkeys e) = set (dkeys a) \<and> (\<forall>k x y. dget e k = Some x \<longrightarrow> dget a k = Some y \<longrightarrow> x = y)"
    by (simp only: dkeys_dom) simp
qed

lemma same_dict_iff: "same_dict a b \<longleftrightarrow> dget a = dget b"
proof
  assume s: "same_dict a b"
  show "dget a = dget b"
  proof
    fix k show "dget a k = dget b k"
    proof (cases "k \<in> set (dkeys a)")
      case True
      have "\<forall>k \<in> set (dkeys a). dget a k = dget b k" using s unfolding same_dict_def list_all_iff by blast
      then show ?thesis using True by (rule bspec)
    next
      case False
      then have "k \<notin> set (dkeys b)" using s by (simp add: same_dict_def)
      then show ?thesis using False by (metis dget_Some_key option.exhaust)
    qed
  qed
next
  assume "dget a = dget b"
  then show "same_dict a b" unfolding same_dict_def list_all_iff dkeys_dom by simp
qed

lemma differs_Nil: "(if got \<noteq> wanted then [d] else []) = [] \<longleftrightarrow> wanted = got"
  by auto

lemma digest_check_ok: "vc_ok (digest_check name rows expected) \<longleftrightarrow> dget (dict_rows rows) = dget expected"
  unfolding digest_check_def report_check_ok append_is_Nil_conv set_details_Nil shared_details_Nil differs_Nil same_entries
  by (rule eq_commute)

text \<open>What a catalogue must be, read off the manifest.\<close>

definition function_matches :: "manifest \<Rightarrow> function_spec \<Rightarrow> function_row \<Rightarrow> bool" where
  "function_matches m spec row \<longleftrightarrow>
     fr_arguments row = fn_arguments spec \<and> fr_result row = fn_result spec \<and> fr_language row = fn_language spec \<and>
     fr_volatility row = fn_volatility spec \<and> fr_parallel row = fn_parallel spec \<and>
     \<not> fr_strict row \<and> \<not> fr_leakproof row \<and> granted_roles row = expected_grants m spec"

definition hardened :: "function_row \<Rightarrow> bool" where
  "hardened row \<longleftrightarrow> fr_secdef row \<and> fr_owner row = ''taskq_owner'' \<and>
     pinned_search_path_of (fr_config row) = Some pinned_search_path \<and> \<not> fr_default_acl row \<and> \<not> fr_public_execute row"

definition functions_conform :: "manifest \<Rightarrow> catalog \<Rightarrow> bool" where
  "functions_conform m c \<longleftrightarrow> dom (dget (function_rows c)) = dom (dget (mf_functions m)) \<and>
     (\<forall>k spec row. dget (mf_functions m) k = Some spec \<longrightarrow> dget (function_rows c) k = Some row \<longrightarrow> function_matches m spec row) \<and>
     (\<forall>(k, row) \<in> set (function_rows c). hardened row)"

definition roles_conform :: "manifest \<Rightarrow> catalog \<Rightarrow> bool" where
  "roles_conform m c \<longleftrightarrow> set taskq_roles \<subseteq> ro_name ` set (cg_roles c) \<and> cg_memberships c = [] \<and>
     (\<forall>r \<in> set (cg_roles c). safe_role r \<and> map_option set (dget (mf_role_configs m) (ro_name r)) = Some (role_settings r))"

definition relations_conform :: "manifest \<Rightarrow> catalog \<Rightarrow> bool" where
  "relations_conform m c \<longleftrightarrow>
     set (relations_of (CHR ''r'') c) = set (mf_tables m) \<and> set (relations_of (CHR ''v'') c) = set (mf_views m) \<and>
     set (relations_of (CHR ''S'') c) = set (mf_sequences m) \<and>
     set (relations_of (CHR ''c'') c) = dom (dget (mf_composites m)) \<and>
     (\<forall>r \<in> set (cg_relations c). rl_owner r = mf_owner m) \<and>
     (\<forall>k w s. dget (mf_composites m) k = Some w \<longrightarrow> dget (composite_shapes c) k = Some s \<longrightarrow> s = w) \<and>
     dget (dict_rows (cg_table_shapes c)) = dget (mf_table_shapes m) \<and>
     dget (dict_rows (cg_indexes c)) = dget (mf_indexes m) \<and>
     dget (dict_rows (cg_view_definitions c)) = dget (mf_view_definitions m) \<and>
     dget (dict_rows (cg_triggers c)) = dget (mf_triggers m) \<and> cg_external_keys c = []"

definition constraints_conform :: "manifest \<Rightarrow> catalog \<Rightarrow> bool" where
  "constraints_conform m c \<longleftrightarrow> dom (dget (dict_rows (cg_constraints c))) = dom (dget (mf_constraints m)) \<and>
     (\<forall>k n d n' d'. dget (mf_constraints m) k = Some (n, d) \<longrightarrow> dget (dict_rows (cg_constraints c)) k = Some (n', d') \<longrightarrow>
        n' = n \<and> (d' = d \<or> (\<exists>es. dget (mf_constraint_equivalents m) k = Some es \<and> d' \<in> set es)))"

definition privileges_conform :: "manifest \<Rightarrow> catalog \<Rightarrow> bool" where
  "privileges_conform m c \<longleftrightarrow> set (cg_schema_grants c) = expected_schema_grants m \<and>
     set (cg_relation_grants c) = expected_relation_grants m \<and>
     (\<forall>role \<in> set (tl (mf_roles m)) \<inter> ro_name ` set (cg_roles c).
        \<forall>t \<in> set (mf_tables m) \<inter> set (relations_of (CHR ''r'') c). \<not> cg_privilege c role t)"

definition seeds_conform :: "manifest \<Rightarrow> catalog \<Rightarrow> bool" where
  "seeds_conform m c \<longleftrightarrow> {''meta'', ''control_state'', ''schedules''} \<subseteq> set (relations_of (CHR ''r'') c) \<and>
     dget (cg_meta c) = dget (mf_meta_seeds m) \<and> set (cg_controls c) = set (mf_control_seeds m) \<and>
     (''queues'' \<in> set (relations_of (CHR ''r'') c) \<longrightarrow> \<not> cg_system_queue c) \<and>
     (\<exists>seed. cg_maintenance c = [seed] \<and> dget seed = dget (mf_schedule_seed m))"

definition conforms :: "manifest \<Rightarrow> catalog \<Rightarrow> bool" where
  "conforms m c \<longleftrightarrow> functions_conform m c \<and> roles_conform m c \<and> relations_conform m c \<and>
     constraints_conform m c \<and> privileges_conform m c \<and> seeds_conform m c"

lemma concat_map_Nil: "concat (map f xs) = [] \<longleftrightarrow> (\<forall>x \<in> set xs. f x = [])"
  by simp

lemma details_Nil:
  "field_details i spec row = [] \<and>
     (if granted_roles row \<noteq> expected_grants m spec then [g] else []) = [] \<longleftrightarrow> function_matches m spec row"
  "hardening_details row = [] \<and> public_details row = [] \<longleftrightarrow> hardened row"
  "role_attributes r = [] \<longleftrightarrow> safe_role r"
  by (auto simp: field_details_def function_matches_def hardening_details_def public_details_def hardened_def
      role_attributes_def safe_role_def split: option.splits)

lemma functions_ok:
  "vc_ok (function_catalog_check m c) \<and> vc_ok (function_hardening_check c) \<and> vc_ok (public_execute_check c) \<and>
   vc_ok (function_privileges_check m c) \<longleftrightarrow> functions_conform m c"
proof -
  have k: "set (dkeys (mf_functions m)) = set (dkeys (function_rows c)) \<longleftrightarrow> dom (dget (function_rows c)) = dom (dget (mf_functions m))"
    by (auto simp only: dkeys_dom)
  have "vc_ok (function_catalog_check m c) \<and> vc_ok (function_privileges_check m c) \<longleftrightarrow>
      dom (dget (function_rows c)) = dom (dget (mf_functions m)) \<and>
      (\<forall>i spec row. dget (mf_functions m) i = Some spec \<longrightarrow> dget (function_rows c) i = Some row \<longrightarrow>
         field_details i spec row = [] \<and>
         (if granted_roles row \<noteq> expected_grants m spec then [i @ '': EXECUTE grants''] else []) = [])"
    unfolding function_catalog_check_def function_privileges_check_def report_check_ok append_is_Nil_conv
      set_details_Nil shared_details_Nil k by blast
  then have "vc_ok (function_catalog_check m c) \<and> vc_ok (function_privileges_check m c) \<longleftrightarrow>
      dom (dget (function_rows c)) = dom (dget (mf_functions m)) \<and>
      (\<forall>i spec row. dget (mf_functions m) i = Some spec \<longrightarrow> dget (function_rows c) i = Some row \<longrightarrow> function_matches m spec row)"
    unfolding details_Nil(1) .
  moreover have "vc_ok (function_hardening_check c) \<and> vc_ok (public_execute_check c) \<longleftrightarrow> (\<forall>(i, row) \<in> set (function_rows c). hardened row)"
    unfolding function_hardening_check_def public_execute_check_def report_check_ok concat_map_Nil details_Nil(2) [symmetric]
    by (auto simp: split_beta)
  ultimately show ?thesis unfolding functions_conform_def by blast
qed

lemma traverse_concat_Nil: "traverse f xs = Inr ds \<Longrightarrow> concat ds = [] \<longleftrightarrow> (\<forall>x \<in> set xs. f x = Inr [])"
  by (induction xs arbitrary: ds) (auto simp: ebind_Inr_iff)

lemma roles_ok:
  assumes "role_manifest_check m c = Inr v"
  shows "vc_ok (roles_check c) \<and> vc_ok v \<longleftrightarrow> roles_conform m c"
proof -
  let ?f = "\<lambda>r. case dget (mf_role_configs m) (ro_name r) of
         None \<Rightarrow> Inl PyKeyError
       | Some config \<Rightarrow> Inr (map (\<lambda>f. role_label (ro_name r) @ '': '' @ f) (role_attributes r) @
           (if role_settings r \<noteq> set config then [role_label (ro_name r) @ '': settings''] else []))"
  obtain ds where d: "traverse ?f (cg_roles c) = Inr ds"
      "v = report_check ''role_manifest'' (concat ds @
         map (\<lambda>(member, group). role_label member @ '' is unexpectedly a member of '' @ quote_name group) (cg_memberships c))"
    using assms by (auto simp: role_manifest_check_def ebind_Inr_iff)
  have r: "?f x = Inr [] \<longleftrightarrow> safe_role x \<and> map_option set (dget (mf_role_configs m) (ro_name x)) = Some (role_settings x)" for x
    by (auto simp: details_Nil(3) split: option.splits)
  have "vc_ok v \<longleftrightarrow> (\<forall>x \<in> set (cg_roles c). ?f x = Inr []) \<and> cg_memberships c = []"
    unfolding d(2) report_check_ok append_is_Nil_conv traverse_concat_Nil [OF d(1)] by simp
  moreover have "vc_ok (roles_check c) \<longleftrightarrow> set taskq_roles \<subseteq> ro_name ` set (cg_roles c)"
    unfolding roles_check_def report_check_ok by (auto simp: filter_empty_conv)
  ultimately show ?thesis unfolding roles_conform_def r by blast
qed

lemma relations_ok:
  "vc_ok (relation_catalog_check m c) \<and> vc_ok (composites_check m c) \<and>
   vc_ok (digest_check ''table_shapes'' (cg_table_shapes c) (mf_table_shapes m)) \<and>
   vc_ok (digest_check ''indexes'' (cg_indexes c) (mf_indexes m)) \<and>
   vc_ok (digest_check ''views'' (cg_view_definitions c) (mf_view_definitions m)) \<and>
   vc_ok (digest_check ''triggers'' (cg_triggers c) (mf_triggers m)) \<and> vc_ok (external_keys_check c) \<longleftrightarrow>
   relations_conform m c"
proof -
  have "vc_ok (composites_check m c) \<longleftrightarrow>
      (\<forall>k w s. dget (mf_composites m) k = Some w \<longrightarrow> dget (composite_shapes c) k = Some s \<longrightarrow> s = w)"
    unfolding composites_check_def report_check_ok shared_details_Nil by auto
  moreover have "vc_ok (relation_catalog_check m c) \<longleftrightarrow>
     set (relations_of (CHR ''r'') c) = set (mf_tables m) \<and> set (relations_of (CHR ''v'') c) = set (mf_views m) \<and>
     set (relations_of (CHR ''S'') c) = set (mf_sequences m) \<and>
     set (relations_of (CHR ''c'') c) = dom (dget (mf_composites m)) \<and> (\<forall>r \<in> set (cg_relations c). rl_owner r = mf_owner m)"
    unfolding relation_catalog_check_def report_check_ok append_is_Nil_conv set_details_Nil dkeys_dom
    by (auto simp: filter_empty_conv)
  moreover have "vc_ok (external_keys_check c) \<longleftrightarrow> cg_external_keys c = []" by (simp add: external_keys_check_def)
  ultimately show ?thesis unfolding relations_conform_def digest_check_ok by blast
qed

lemma constraint_Nil:
  "(case w of (n, canonical) \<Rightarrow> \<lambda>(got_n, got).
      if got_n \<noteq> n \<or> got \<notin> insert canonical (set (case q of None \<Rightarrow> [] | Some es \<Rightarrow> es)) then [x] else []) y = [] \<longleftrightarrow>
   fst y = fst w \<and> (snd y = snd w \<or> (\<exists>es. q = Some es \<and> snd y \<in> set es))"
  by (cases w; cases y; cases q) simp_all

lemma constraints_ok: "vc_ok (constraints_check m c) \<longleftrightarrow> constraints_conform m c"
proof -
  have "set (dkeys (mf_constraints m)) = set (dkeys (dict_rows (cg_constraints c))) \<longleftrightarrow>
      dom (dget (dict_rows (cg_constraints c))) = dom (dget (mf_constraints m))"
    by (auto simp only: dkeys_dom)
  then show ?thesis
    unfolding constraints_check_def constraints_conform_def report_check_ok append_is_Nil_conv set_details_Nil
      shared_details_Nil constraint_Nil
    by (simp add: split_paired_All)
qed

lemma privileges_ok: "vc_ok (relation_privileges_check m c) \<longleftrightarrow> privileges_conform m c"
  unfolding relation_privileges_check_def privileges_conform_def report_check_ok append_is_Nil_conv
    direct_privileges_def concat_map_Nil
  by (auto simp: filter_empty_conv set_sorted_set)

lemma seeds_ok: "vc_ok (seed_state_check m c) \<longleftrightarrow> seeds_conform m c"
proof -
  have one: "length (cg_maintenance c) = 1 \<and> dget (List.hd (cg_maintenance c)) = dget (mf_schedule_seed m) \<longleftrightarrow>
      (\<exists>seed. cg_maintenance c = [seed] \<and> dget seed = dget (mf_schedule_seed m))"
    by (cases "cg_maintenance c") auto
  show ?thesis
    unfolding seed_state_check_def seeds_conform_def Let_def report_check_ok append_is_Nil_conv same_dict_iff one [symmetric]
    by (auto simp: set_details_Nil split: if_splits)
qed

lemma schema_ok: "vc_ok (schema_check owner) \<longleftrightarrow> owner = Some ''taskq_owner''"
  by (auto simp: schema_check_def Let_def split: option.splits)

text \<open>
  C35: The verifier reports a database ok exactly when it conforms: the schema has its owner, the ledger its
  migrations, and the catalogue is the one the manifest describes, with the same functions, hardened and
  granted as stated, the same relations and definitions, safe roles, no other privilege and the seeds.
\<close>

theorem verify_ok_iff_conforms:
  assumes "verify_database m migrations owner d c = Inr report"
  shows "vr_ok report \<longleftrightarrow> owner = Some ''taskq_owner'' \<and> vc_ok (ledger_check migrations d) \<and> conforms m c"
proof -
  obtain v where v: "role_manifest_check m c = Inr v"
    using assms by (auto simp: verify_database_def ebind_Inr_iff)
  show ?thesis
    using assms v roles_ok [OF v]
    unfolding conforms_def functions_ok [symmetric] relations_ok [symmetric] constraints_ok [symmetric]
      privileges_ok [symmetric] seeds_ok [symmetric]
    by (auto simp: verify_database_def from_checks_def schema_ok)
qed

definition small_manifest :: manifest where
  "small_manifest = \<lparr>mf_owner = ''taskq_owner'', mf_roles = taskq_roles,
     mf_role_configs = map (\<lambda>r. (r, [])) taskq_roles, mf_tables = [''meta'', ''control_state'', ''schedules''],
     mf_views = [], mf_sequences = [], mf_composites = [], mf_table_shapes = [], mf_constraints = [],
     mf_constraint_equivalents = [], mf_indexes = [], mf_view_definitions = [], mf_triggers = [],
     mf_functions = [(''taskq.heartbeat()'', \<lparr>fn_arguments = [], fn_result = ''void'', fn_language = ''plpgsql'',
        fn_volatility = ''v'', fn_parallel = ''u'', fn_grants = [''taskq_runner'']\<rparr>)],
     mf_control_seeds = [''tick''], mf_meta_seeds = [(''contract'', ''1'')], mf_schedule_seed = [(''name'', JStr ''janitor'')]\<rparr>"

definition small_catalog :: "string list \<Rightarrow> catalog" where
  "small_catalog path = \<lparr>cg_functions = [\<lparr>fr_signature = ''taskq.heartbeat()'', fr_arguments = [], fr_result = ''void'',
        fr_language = ''plpgsql'', fr_volatility = ''v'', fr_parallel = ''u'', fr_strict = False, fr_leakproof = False,
        fr_owner = ''taskq_owner'', fr_secdef = True, fr_config = Some path, fr_default_acl = False,
        fr_public_execute = False, fr_grants = Some [''taskq_runner/taskq_owner'']\<rparr>],
     cg_roles = map (\<lambda>r. \<lparr>ro_name = r, ro_super = False, ro_inherit = True, ro_createrole = False, ro_createdb = False,
        ro_canlogin = False, ro_replication = False, ro_bypassrls = False, ro_connlimit = -1, ro_validuntil = None,
        ro_config = None\<rparr>) taskq_roles,
     cg_memberships = [],
     cg_relations = map (\<lambda>t. \<lparr>rl_name = t, rl_kind = CHR ''r'', rl_owner = ''taskq_owner''\<rparr>)
        [''meta'', ''control_state'', ''schedules''],
     cg_attributes = [], cg_table_shapes = [], cg_constraints = [], cg_indexes = [], cg_view_definitions = [],
     cg_triggers = [], cg_schema_grants = map (\<lambda>r. ([], r, ''USAGE'', False, ''taskq_owner'')) (tl taskq_roles),
     cg_relation_grants = [], cg_privilege = (\<lambda>r t. False), cg_meta = [(''contract'', ''1'')], cg_controls = [''tick''],
     cg_system_queue = False, cg_maintenance = [[(''name'', JStr ''janitor'')]], cg_external_keys = []\<rparr>"

definition small_database :: "unit database" where
  "small_database = \<lparr>db_content = (), db_ledger = Some ([''id'', ''package_version'', ''checksum'', ''applied_at''], [])\<rparr>"

definition small_report :: "string list \<Rightarrow> exc + verify_report" where
  "small_report path = verify_database small_manifest [] (Some ''taskq_owner'') small_database (small_catalog path)"

lemma small_reports:
  "map_sum id vr_ok (small_report [''search_path=pg_catalog, taskq, pg_temp'']) = Inr True"
  "map_sum id vr_ok (small_report [''search_path=taskq'']) = Inr False"
  by code_simp+

lemma map_sum_Inr: "map_sum id f x = Inr y \<Longrightarrow> \<exists>r. x = Inr r \<and> f r = y"
  by (cases x) simp_all

theorem verify_ok_iff_conforms_witness:
  "conforms small_manifest (small_catalog [''search_path=pg_catalog, taskq, pg_temp'']) \<and>
   \<not> conforms small_manifest (small_catalog [''search_path=taskq''])"
proof -
  obtain r where r: "small_report [''search_path=pg_catalog, taskq, pg_temp''] = Inr r" "vr_ok r"
    using map_sum_Inr [OF small_reports(1)] by blast
  obtain s where s: "small_report [''search_path=taskq''] = Inr s" "\<not> vr_ok s"
    using map_sum_Inr [OF small_reports(2)] by auto
  have l: "vc_ok (ledger_check [] small_database)" by code_simp
  show ?thesis
    using verify_ok_iff_conforms [OF r(1) [unfolded small_report_def]]
      verify_ok_iff_conforms [OF s(1) [unfolded small_report_def]] r(2) s(2) l by blast
qed

end
