(* ===== verification/HttpClient.thy ===== *)
theory HttpClient
  imports Commands SqlScript
begin

text \<open>
  \<open>http/client.py\<close>: how a client sends a command of the HTTP table, checks the answer, and resends.  httpx and
  the server are a channel with a state of its own; pydantic's validation of the two envelopes and of
  the request models, and \<open>float(..)\<close> of a header, are parameters.  The synchronous and the asynchronous
  client run the same steps.
\<close>

section \<open>Answers\<close>

record response =
  rsp_status :: int
  rsp_protocol :: "string option"
  rsp_request_id :: "string option"
  rsp_etag :: "string option"
  rsp_retry_after :: "string option"
  rsp_body :: "json option"

datatype wire_code = WireCode tq_code | Auth401 | Auth403

record protocol_error =
  pe_code :: wire_code
  pe_message :: string
  pe_retryable :: bool
  pe_details :: jobj

record error_envelope =
  ee_request_id :: string
  ee_error :: protocol_error

record command_envelope =
  ce_request_id :: string
  ce_outcome :: string
  ce_data :: jobj

record wire_models =
  parse_float :: "string \<Rightarrow> pyfloat option"
  parse_error_envelope :: "json \<Rightarrow> error_envelope option"
  parse_command_envelope :: "json \<Rightarrow> command_envelope option"
  validate_request :: "string \<Rightarrow> jobj \<Rightarrow> exc + jobj"

text \<open>\<open>max(0.0, min(float(value), 30.0))\<close>; a NaN loses both comparisons and gives \<open>0.0\<close>.\<close>

definition retry_after_seconds :: "wire_models \<Rightarrow> response \<Rightarrow> rat" where
  "retry_after_seconds wm r = (case rsp_retry_after r of
      None \<Rightarrow> 0
    | Some v \<Rightarrow> (case parse_float wm v of
          Some (FFinite q) \<Rightarrow> max 0 (min q 30)
        | Some FPosInf \<Rightarrow> 30
        | _ \<Rightarrow> 0))"

definition retry_after_hint :: "wire_models \<Rightarrow> response \<Rightarrow> pyfloat option" where
  "retry_after_hint wm r = (let q = retry_after_seconds wm r in if q = 0 then None else Some (FFinite q))"

definition protocol_violation :: "string \<Rightarrow> exc" where
  "protocol_violation reason =
     TaskqError ((taskq_error_init INTERNAL [(''reason'', JStr reason)] None)\<lparr>err_protocol := True\<rparr>)"

text \<open>\<open>"error" in raw\<close>: a key, an element, a substring, or a \<open>TypeError\<close>.\<close>

fun has_substring :: "string \<Rightarrow> string \<Rightarrow> bool" where
  "has_substring t [] = (t = [])"
| "has_substring t (c # s) = (begins_with t (c # s) \<or> has_substring t s)"

fun error_in :: "json \<Rightarrow> exc + bool" where
  "error_in (JObj d) = Inr (dget d ''error'' \<noteq> None)"
| "error_in (JArr xs) = Inr (JStr ''error'' \<in> set xs)"
| "error_in (JStr s) = Inr (has_substring ''error'' s)"
| "error_in j = Inl (PyException ''TypeError'')"

definition without_protocol :: "wire_models \<Rightarrow> response \<Rightarrow> exc" where
  "without_protocol wm r =
     (if rsp_status r \<in> {502, 503, 504}
      then TaskqError (taskq_error_init UNAVAILABLE
        [(''reason'', JStr ''upstream_unavailable''), (''status'', JInt (rsp_status r))] (retry_after_hint wm r))
      else if 500 \<le> rsp_status r \<or> rsp_status r \<in> {408, 425, 429}
      then raise_reason INTERNAL ''missing_or_invalid_protocol_header''
      else protocol_violation ''missing_or_invalid_protocol_header'')"

definition answered_error :: "wire_models \<Rightarrow> response \<Rightarrow> error_envelope \<Rightarrow> string \<Rightarrow> exc" where
  "answered_error wm r e sent =
     (if Some (ee_request_id e) \<noteq> rsp_request_id r \<or> ee_request_id e \<noteq> sent
      then protocol_violation ''request_id_mismatch''
      else case pe_code (ee_error e) of
          Auth401 \<Rightarrow> PyException ''TaskqAuthenticationError''
        | Auth403 \<Rightarrow> PyException ''TaskqAuthorizationError''
        | WireCode c \<Rightarrow>
            if rsp_status r \<noteq> int (http_status (error_registry c)) \<or>
               pe_retryable (ee_error e) \<noteq> spec_retryable (error_registry c)
            then protocol_violation ''error_status_mismatch''
            else TaskqError (taskq_error_init c (pe_details (ee_error e)) (retry_after_hint wm r)))"

definition schedule_command :: "http_command_spec \<Rightarrow> bool" where
  "schedule_command spec \<longleftrightarrow> http_sql_command spec \<in> {Some C_GET_SCHEDULE, Some C_PUT_SCHEDULE, Some C_RETIRE_SCHEDULE}"

text \<open>\<open>f'"taskq-schedule-{version}"'\<close> for an integer that is not a bool.\<close>

definition etag_matches :: "response \<Rightarrow> jobj \<Rightarrow> bool" where
  "etag_matches r d = (case dget d ''version'' of
      Some (JInt v) \<Rightarrow> rsp_etag r = Some ([double_quote] @ ''taskq-schedule-'' @ int_str v @ [double_quote])
    | _ \<Rightarrow> False)"

definition answered_command ::
  "response \<Rightarrow> http_command_spec \<Rightarrow> command_envelope \<Rightarrow> string \<Rightarrow> exc + (string \<times> jobj \<times> string)" where
  "answered_command r spec e sent =
     (if Some (ce_request_id e) \<noteq> rsp_request_id r \<or> ce_request_id e \<noteq> sent
      then Inl (protocol_violation ''request_id_mismatch'')
      else if map_option int (dget (http_outcomes spec) (ce_outcome e)) \<noteq> Some (rsp_status r)
      then Inl (protocol_violation ''unexpected_outcome_or_status'')
      else if schedule_command spec \<and> \<not> etag_matches r (ce_data e)
      then Inl (protocol_violation ''schedule_etag_mismatch'')
      else Inr (ce_outcome e, ce_data e, ce_request_id e))"

definition decode_envelope ::
  "wire_models \<Rightarrow> response \<Rightarrow> http_command_spec \<Rightarrow> string \<Rightarrow> exc + (string \<times> jobj \<times> string)" where
  "decode_envelope wm r spec sent =
     (if rsp_protocol r \<noteq> Some ''1'' then Inl (without_protocol wm r)
      else case rsp_body r of
          None \<Rightarrow> Inl (protocol_violation ''invalid_json_envelope'')
        | Some raw \<Rightarrow>
            ebind (if 400 \<le> rsp_status r then error_in raw else Inr False) (\<lambda>is_error.
              if is_error
              then (case parse_error_envelope wm raw of
                  None \<Rightarrow> Inl (protocol_violation ''invalid_error_envelope'')
                | Some e \<Rightarrow> Inl (answered_error wm r e sent))
              else (case parse_command_envelope wm raw of
                  None \<Rightarrow> Inl (protocol_violation ''invalid_command_envelope'')
                | Some e \<Rightarrow> answered_command r spec e sent)))"

section \<open>What may be resent\<close>

fun json_truthy :: "json \<Rightarrow> bool" where
  "json_truthy JNull = False"
| "json_truthy (JBool b) = b"
| "json_truthy (JInt n) = (n \<noteq> 0)"
| "json_truthy (JStr s) = (s \<noteq> [])"
| "json_truthy (JArr xs) = (xs \<noteq> [])"
| "json_truthy (JObj d) = (d \<noteq> [])"

definition truthy_key :: "string \<Rightarrow> jobj \<Rightarrow> bool" where
  "truthy_key k d = (case dget d k of None \<Rightarrow> False | Some j \<Rightarrow> json_truthy j)"

fun keyed_item :: "json \<Rightarrow> bool" where
  "keyed_item (JObj d) = truthy_key ''idempotency_key'' d"
| "keyed_item j = False"

definition can_retry :: "http_command_spec \<Rightarrow> jobj option \<Rightarrow> bool" where
  "can_retry spec body = (case http_retry_class spec of
      RETRY_SAFE_IDEMPOTENT \<Rightarrow> True
    | RETRY_KEYED_ENQUEUE \<Rightarrow> (case body of
          None \<Rightarrow> False
        | Some d \<Rightarrow> truthy_key ''idempotency_key'' d \<or> truthy_key ''workflow_id'' d \<and> truthy_key ''step_key'' d)
    | RETRY_KEYED_BATCH \<Rightarrow> (case body of
          None \<Rightarrow> False
        | Some d \<Rightarrow> (case dget d ''items'' of
              Some (JArr items) \<Rightarrow> items \<noteq> [] \<and> list_all keyed_item items
            | _ \<Rightarrow> False))
    | _ \<Rightarrow> False)"

text \<open>The codes worth a resend; a violation of the protocol carries the code of an internal error.\<close>

fun worth_resending :: "exc \<Rightarrow> bool" where
  "worth_resending (TaskqError e) = (err_code e \<in> {BACKPRESSURE, INTERNAL, UNAVAILABLE})"
| "worth_resending e = False"

section \<open>Paths\<close>

definition path_char :: "char \<Rightarrow> bool" where
  "path_char c \<longleftrightarrow> (let n = ord_c c in 97 \<le> n \<and> n \<le> 122 \<or> n = 95)"

text \<open>\<open>_PATH_PARAMETER_RE.findall\<close>\<close>

fun path_names :: "string \<Rightarrow> string list" where
  "path_names [] = []"
| "path_names (c # s) =
     (let name = takeWhile path_char s in
      if c = CHR ''{'' \<and> name \<noteq> [] \<and> begins_with ''}'' (dropWhile path_char s)
      then name # path_names s else path_names s)"

definition fill_path :: "string \<Rightarrow> string \<Rightarrow> string \<Rightarrow> string" where
  "fill_path name value path = py_replace ([CHR ''{''] @ name @ [CHR ''}'']) value path"

fun format_names :: "string list \<Rightarrow> (string, string) dict \<Rightarrow> string \<Rightarrow> exc + string" where
  "format_names [] supplied path =
     (if supplied \<noteq> [] then Inl (ConfigError ''unexpected path parameter'') else Inr path)"
| "format_names (name # names) supplied path = (case dget supplied name of
      None \<Rightarrow> Inl (ConfigError (''missing path parameter: '' @ name))
    | Some value \<Rightarrow>
        if CHR ''/'' \<in> set value \<or> value = [] then Inl (ConfigError (''invalid path parameter: '' @ name))
        else format_names names (ddel name supplied) (fill_path name value path))"

definition format_path :: "http_command_spec \<Rightarrow> (string, string) dict \<Rightarrow> exc + string" where
  "format_path spec supplied = format_names (path_names (http_path spec)) supplied (http_path spec)"

section \<open>The request loop\<close>

text \<open>
  What attempt \<open>k\<close> meets: the request id of the configuration, which may refuse (a bad provider, a forked
  process), the answer of the server or none when the transport fails, and the draws of the two jitters.
\<close>

record 's channel =
  ch_request_id :: "nat \<Rightarrow> exc + string"
  ch_send :: "nat \<Rightarrow> string \<Rightarrow> string \<Rightarrow> jobj option \<Rightarrow> 's \<Rightarrow> response option \<times> 's"
  ch_backoff :: "nat \<Rightarrow> rat \<Rightarrow> rat"
  ch_stretch :: "nat \<Rightarrow> rat"

definition backoff_delay :: "'s channel \<Rightarrow> nat \<Rightarrow> rat" where
  "backoff_delay ch k = ch_backoff ch k (min (1 / 4 * 2 ^ k) 5)"

definition retry_delay :: "wire_models \<Rightarrow> 's channel \<Rightarrow> response \<Rightarrow> nat \<Rightarrow> rat" where
  "retry_delay wm ch r k = (let q = retry_after_seconds wm r in
     if q = 0 then backoff_delay ch k else q * ch_stretch ch k)"

text \<open>
  The loop with \<open>left\<close> resends remaining: its result, the delays it slept, one before each resend, how often
  it sent, and the state of the channel.
\<close>

fun send_loop ::
  "wire_models \<Rightarrow> 's channel \<Rightarrow> http_command_spec \<Rightarrow> string \<Rightarrow> jobj option \<Rightarrow> bool \<Rightarrow> nat \<Rightarrow> nat \<Rightarrow> 's \<Rightarrow>
   (exc + (string \<times> jobj \<times> string)) \<times> rat list \<times> nat \<times> 's" where
  "send_loop wm ch spec path body retry k left s = (case ch_request_id ch k of
      Inl e \<Rightarrow> (Inl e, [], 0, s)
    | Inr rid \<Rightarrow> (case ch_send ch k rid path (if http_method spec = M_GET then None else body) s of (answer, s1) \<Rightarrow>
        let again = (\<lambda>delay. case left of
              0 \<Rightarrow> (Inl (PyAssertionError ''unreachable''), [], 1, s1)
            | Suc n \<Rightarrow> (case send_loop wm ch spec path body retry (Suc k) n s1 of
                (r, delays, sends, s2) \<Rightarrow> (r, delay # delays, Suc sends, s2)))
        in case answer of
            None \<Rightarrow> if \<not> retry \<or> left = 0 then (Inl (raise_code UNAVAILABLE), [], 1, s1)
                     else again (backoff_delay ch k)
          | Some rsp \<Rightarrow> (case decode_envelope wm rsp spec rid of
                Inr x \<Rightarrow> (Inr x, [], 1, s1)
              | Inl e \<Rightarrow> if \<not> retry \<or> left = 0 \<or> \<not> worth_resending e then (Inl e, [], 1, s1)
                         else again (retry_delay wm ch rsp k))))"

declare send_loop.simps [simp del]

definition max_retries_ok :: "int \<Rightarrow> bool" where
  "max_retries_ok n \<longleftrightarrow> 0 \<le> n \<and> n \<le> 10"

definition encoded_body :: "wire_models \<Rightarrow> http_command_spec \<Rightarrow> jobj option \<Rightarrow> exc + jobj option" where
  "encoded_body wm spec body = (case http_request_model spec of
      None \<Rightarrow> Inr body
    | Some model \<Rightarrow> ebind (validate_request wm model (case body of None \<Rightarrow> [] | Some d \<Rightarrow> d)) (\<lambda>d. Inr (Some d)))"

definition request_command ::
  "wire_models \<Rightarrow> 's channel \<Rightarrow> int \<Rightarrow> http_command_name \<Rightarrow> (string, string) dict \<Rightarrow> jobj option \<Rightarrow> 's \<Rightarrow>
   (exc + (string \<times> jobj \<times> string)) \<times> rat list \<times> nat \<times> 's" where
  "request_command wm ch max_retries name params body s =
     (let spec = http_spec_of name in
      if http_surface spec = SURFACE_DEFERRED
      then (Inl (ConfigError ''deferred command has no official client method''), [], 0, s)
      else case format_path spec params of
          Inl e \<Rightarrow> (Inl e, [], 0, s)
        | Inr path \<Rightarrow> (case encoded_body wm spec body of
              Inl e \<Rightarrow> (Inl e, [], 0, s)
            | Inr d \<Rightarrow> send_loop wm ch spec path d (can_retry spec d) 0 (nat max_retries) s))"

section \<open>An accepted answer is the answer to this request\<close>

text \<open>
  The client returns an outcome only from a response that speaks the protocol, repeats the id of the very request
  that was sent, both in its header and in its envelope, and has the status the command table gives that
  outcome; for a schedule, also the entity tag of the version it states.
\<close>

theorem accepted_answer_is_registered:
  assumes "decode_envelope wm r spec sent = Inr (outcome, d, rid)"
  shows "rid = sent \<and> rsp_protocol r = Some ''1'' \<and> rsp_request_id r = Some sent \<and>
    (\<exists>status. dget (http_outcomes spec) outcome = Some status \<and> rsp_status r = int status) \<and>
    (schedule_command spec \<longrightarrow> etag_matches r d)"
proof -
  obtain raw e where e: "rsp_protocol r = Some ''1''" "parse_command_envelope wm raw = Some e"
      "answered_command r spec e sent = Inr (outcome, d, rid)"
    using assms by (auto simp: decode_envelope_def ebind_Inr_iff split: if_splits option.splits)
  then show ?thesis by (auto simp: answered_command_def split: if_splits)
qed

text \<open>
  Every answer that is not accepted is an error: one of the registry with its registered status and flag, a
  refused credential, a violation of the protocol, or an answer of something that is not the service.
\<close>

definition registered_error :: "response \<Rightarrow> exc \<Rightarrow> bool" where
  "registered_error r e \<longleftrightarrow> (case e of TaskqError t \<Rightarrow>
      \<not> err_protocol t \<and> rsp_status r = int (http_status (error_registry (err_code t))) | _ \<Rightarrow> False)"

definition refusal :: "exc \<Rightarrow> bool" where
  "refusal e \<longleftrightarrow> (\<exists>reason. e = protocol_violation reason) \<or>
     e \<in> {PyException ''TaskqAuthenticationError'', PyException ''TaskqAuthorizationError'', PyException ''TypeError''}"

lemma answered_error_kinds:
  "registered_error r (answered_error wm r e sent) \<or> refusal (answered_error wm r e sent)"
  by (auto simp: answered_error_def registered_error_def refusal_def taskq_error_init_def split: wire_code.splits if_splits)

theorem answers_are_classified:
  assumes "decode_envelope wm r spec sent = Inl e"
  shows "registered_error r e \<or> refusal e \<or> rsp_protocol r \<noteq> Some ''1'' \<and> e = without_protocol wm r"
proof (cases "rsp_protocol r = Some ''1''")
  case False
  then show ?thesis using assms by (simp add: decode_envelope_def)
next
  case True
  have t: "error_in raw = Inl x \<Longrightarrow> refusal x" for raw x by (cases raw) (auto simp: refusal_def)
  have c: "answered_command r spec env sent = Inl x \<Longrightarrow> refusal x" for env x
    by (auto simp: answered_command_def refusal_def split: if_splits)
  show ?thesis
  proof (cases "rsp_body r")
    case None
    then show ?thesis using assms True by (auto simp: decode_envelope_def refusal_def)
  next
    case (Some raw)
    show ?thesis
    proof (cases "if 400 \<le> rsp_status r then error_in raw else Inr False")
      case (Inl x)
      then show ?thesis using assms True Some t by (auto simp: decode_envelope_def split: if_splits)
    next
      case b: (Inr is_error)
      have eq: "(if is_error then case parse_error_envelope wm raw of None \<Rightarrow> Inl (protocol_violation ''invalid_error_envelope'')
            | Some e \<Rightarrow> Inl (answered_error wm r e sent)
          else case parse_command_envelope wm raw of None \<Rightarrow> Inl (protocol_violation ''invalid_command_envelope'')
            | Some e \<Rightarrow> answered_command r spec e sent) = Inl e"
        using assms True Some b by (simp add: decode_envelope_def)
      have pv: "refusal (protocol_violation m)" for m by (auto simp: refusal_def)
      show ?thesis
      proof (cases is_error)
        case True
        then show ?thesis
          using eq pv answered_error_kinds [of r wm _ sent] by (cases "parse_error_envelope wm raw") fastforce+
      next
        case False
        then show ?thesis using eq pv c by (cases "parse_command_envelope wm raw") auto
      qed
    qed
  qed
qed

section \<open>Resending\<close>

lemma send_loop_bounds:
  "send_loop wm ch spec path body retry k left s = (r, delays, sends, s') \<Longrightarrow>
   sends \<le> Suc left \<and> length delays \<le> left \<and> (1 < sends \<longrightarrow> retry)"
proof (induction left arbitrary: k s r delays sends s')
  case 0
  then show ?case
    by (subst (asm) send_loop.simps) (auto split: sum.splits prod.splits option.splits if_splits)
next
  case (Suc left)
  obtain x where x: "ch_request_id ch k = x" by blast
  show ?case
  proof (cases x)
    case (Inl e)
    then show ?thesis using Suc.prems x by (subst (asm) send_loop.simps) simp
  next
    case (Inr rid)
    obtain answer s1 where a: "ch_send ch k rid path (if http_method spec = M_GET then None else body) s = (answer, s1)"
      by (cases rule: prod.exhaust)
    obtain r2 delays2 sends2 s2 where l: "send_loop wm ch spec path body retry (Suc k) left s1 = (r2, delays2, sends2, s2)"
      by (cases rule: prod_cases4)
    have stop_or_again: "sends = 1 \<and> delays = [] \<or> retry \<and> (\<exists>d. delays = d # delays2) \<and> sends = Suc sends2"
      using Suc.prems x Inr a l
      by (subst (asm) send_loop.simps) (auto simp: Let_def split: sum.splits option.splits if_splits)
    then show ?thesis using Suc.IH [OF l] by auto
  qed
qed

text \<open>
  What makes a command safe to repeat, stated of its name and the body that is sent.  A job is named by an
  idempotency key, or by a workflow and its step; a batch repeats safely when every item has a key; a
  claim would hand out other jobs and a settlement is fenced by its caller, so neither is repeated.
\<close>

definition stated :: "jobj \<Rightarrow> string \<Rightarrow> bool" where
  "stated d k \<longleftrightarrow> (case dget d k of None \<Rightarrow> False
     | Some v \<Rightarrow> v \<notin> {JNull, JStr [], JBool False, JInt 0, JArr [], JObj []})"

definition names_its_job :: "jobj \<Rightarrow> bool" where
  "names_its_job d \<longleftrightarrow> stated d ''idempotency_key'' \<or> stated d ''workflow_id'' \<and> stated d ''step_key''"

definition safe_to_repeat :: "http_command_name \<Rightarrow> jobj option \<Rightarrow> bool" where
  "safe_to_repeat name body \<longleftrightarrow>
     (if name = H_ENQUEUE then \<exists>d. body = Some d \<and> names_its_job d
      else if name = H_ENQUEUE_MANY
      then \<exists>d items. body = Some d \<and> dget d ''items'' = Some (JArr items) \<and> items \<noteq> [] \<and>
        (\<forall>item \<in> set items. \<exists>d. item = JObj d \<and> stated d ''idempotency_key'')
      else name \<notin> {H_CLAIM, H_COMPLETE, H_FAIL, H_SNOOZE, H_RELEASE, H_CANCEL_RUNNING})"

lemma truthy_stated: "truthy_key k d \<longleftrightarrow> stated d k"
proof (cases "dget d k")
  case (Some v)
  then show ?thesis by (cases v) (auto simp: truthy_key_def stated_def)
qed (simp add: truthy_key_def stated_def)

lemma keyed_item_stated: "keyed_item j \<longleftrightarrow> (\<exists>d. j = JObj d \<and> stated d ''idempotency_key'')"
  by (cases j) (simp_all add: truthy_stated)

text \<open>The retry classes of the commands that are not safe as such.\<close>

lemma unsafe_classes:
  "http_retry_class (http_spec_of H_ENQUEUE) = RETRY_KEYED_ENQUEUE"
  "http_retry_class (http_spec_of H_ENQUEUE_MANY) = RETRY_KEYED_BATCH"
  "http_retry_class (http_spec_of H_CLAIM) = RETRY_NEVER"
  "name \<in> {H_COMPLETE, H_FAIL, H_SNOOZE, H_RELEASE, H_CANCEL_RUNNING} \<Longrightarrow>
     http_retry_class (http_spec_of name) = RETRY_WORKER_SETTLEMENT"
  by (auto simp: http_spec_of_def http_table_defs)

lemma can_retry_safe: "can_retry (http_spec_of name) d \<Longrightarrow> safe_to_repeat name d"
  using unsafe_classes(4) [of name]
  by (auto simp: can_retry_def safe_to_repeat_def names_its_job_def unsafe_classes truthy_stated keyed_item_stated
      list_all_iff split: option.splits json.splits)

text \<open>
  C21: The client resends only what is safe to repeat: at most \<open>max_retries\<close> times, and more than once only a
  command that is \<open>safe_to_repeat\<close> with the body it sends.  An enqueue without a key or a workflow step, a
  batch with one item without a key, a claim and a settlement are sent at most once.
\<close>

theorem resend_only_when_safe:
  assumes "request_command wm ch max_retries name params body s = (r, delays, sends, s')"
    and "max_retries_ok max_retries"
  shows "int sends \<le> max_retries + 1 \<and> int (length delays) \<le> max_retries \<and>
    (1 < sends \<longrightarrow> (\<exists>d. encoded_body wm (http_spec_of name) body = Inr d \<and> safe_to_repeat name d))"
proof -
  consider (refused) "sends = 0" "delays = []"
    | (sent) path d where "encoded_body wm (http_spec_of name) body = Inr d"
        "send_loop wm ch (http_spec_of name) path d (can_retry (http_spec_of name) d) 0 (nat max_retries) s =
          (r, delays, sends, s')"
    using assms(1) by (auto simp: request_command_def Let_def split: if_splits sum.splits)
  then show ?thesis
  proof cases
    case refused
    then show ?thesis using assms(2) by (simp add: max_retries_ok_def)
  next
    case sent
    have b: "sends \<le> Suc (nat max_retries) \<and> length delays \<le> nat max_retries \<and>
        (1 < sends \<longrightarrow> can_retry (http_spec_of name) d)"
      by (rule send_loop_bounds [OF sent(2)])
    have "0 \<le> max_retries" using assms(2) by (simp add: max_retries_ok_def)
    then have "int sends \<le> max_retries + 1" "int (length delays) \<le> max_retries" using b by linarith+
    then show ?thesis using b sent(1) can_retry_safe by blast
  qed
qed

text \<open>A violation of the protocol is resent like an internal error of the service, whose code it carries.\<close>

lemma violations_are_resent: "worth_resending (protocol_violation reason)"
  by (simp add: protocol_violation_def taskq_error_init_def)

definition plain_models :: wire_models where
  "plain_models = \<lparr>parse_float = (\<lambda>_. None), parse_error_envelope = (\<lambda>_. None),
     parse_command_envelope = (\<lambda>j. case j of
        JObj [(''id'', JStr i), (''outcome'', JStr oc)] \<Rightarrow> Some \<lparr>ce_request_id = i, ce_outcome = oc, ce_data = []\<rparr>
      | _ \<Rightarrow> None),
     validate_request = (\<lambda>m d. Inr d)\<rparr>"

text \<open>A channel that loses the first request and answers the second.\<close>

definition created_response :: "string \<Rightarrow> response" where
  "created_response rid = \<lparr>rsp_status = 201, rsp_protocol = Some ''1'', rsp_request_id = Some rid, rsp_etag = None,
     rsp_retry_after = None, rsp_body = Some (JObj [(''id'', JStr rid), (''outcome'', JStr ''created'')])\<rparr>"

definition flaky_channel :: "nat channel" where
  "flaky_channel = \<lparr>ch_request_id = (\<lambda>k. Inr (''id'' @ [if k = 0 then CHR ''0'' else CHR ''1''])),
     ch_send = (\<lambda>k rid path body n. if n = 0 then (None, 1)
       else (Some (created_response rid), n + 1)),
     ch_backoff = (\<lambda>k m. m / 2), ch_stretch = (\<lambda>k. 1)\<rparr>"

definition keyed_body :: jobj where
  "keyed_body = [(''job_type'', JStr ''t''), (''idempotency_key'', JStr ''k'')]"

lemma enqueue_spec:
  "http_surface (http_spec_of H_ENQUEUE) = SURFACE_ACTIVE" "http_retry_class (http_spec_of H_ENQUEUE) = RETRY_KEYED_ENQUEUE"
  "http_path (http_spec_of H_ENQUEUE) = ''/taskq/v1/queues/{queue}/jobs''" "http_method (http_spec_of H_ENQUEUE) = M_POST"
  "http_sql_command (http_spec_of H_ENQUEUE) = Some C_ENQUEUE"
  "dget (http_outcomes (http_spec_of H_ENQUEUE)) ''created'' = Some 201"
  "http_request_model (http_spec_of H_ENQUEUE) \<noteq> None"
  by (simp_all add: http_spec_of_def http_table_defs)

theorem accepted_answer_is_registered_witness:
  "decode_envelope plain_models (created_response ''id1'') (http_spec_of H_ENQUEUE) ''id1'' = Inr (''created'', [], ''id1'') \<and>
   rsp_request_id (created_response ''id1'') = Some ''id1'' \<and>
   (\<exists>status. dget (http_outcomes (http_spec_of H_ENQUEUE)) ''created'' = Some status \<and>
      rsp_status (created_response ''id1'') = int status)"
proof -
  have d: "decode_envelope plain_models (created_response ''id1'') (http_spec_of H_ENQUEUE) ''id1'' = Inr (''created'', [], ''id1'')"
    by (simp add: decode_envelope_def answered_command_def created_response_def plain_models_def schedule_command_def enqueue_spec)
  show ?thesis using d accepted_answer_is_registered [OF d] by blast
qed

theorem resend_only_when_safe_witness:
  "request_command plain_models flaky_channel 2 H_ENQUEUE [(''queue'', ''q'')] (Some keyed_body) 0 =
     (Inr (''created'', [], ''id1''), [1 / 8], 2, 2) \<and> int (2::nat) \<le> 2 + 1 \<and>
   (\<exists>d. encoded_body plain_models (http_spec_of H_ENQUEUE) (Some keyed_body) = Inr d \<and> safe_to_repeat H_ENQUEUE d)"
proof -
  have p: "format_path (http_spec_of H_ENQUEUE) [(''queue'', ''q'')] = Inr ''/taskq/v1/queues/q/jobs''"
    by (simp add: format_path_def enqueue_spec) code_simp
  have b: "encoded_body plain_models (http_spec_of H_ENQUEUE) (Some keyed_body) = Inr (Some keyed_body)"
    using enqueue_spec(7) by (auto simp: encoded_body_def plain_models_def)
  have t: "can_retry (http_spec_of H_ENQUEUE) (Some keyed_body)"
    by (simp add: can_retry_def enqueue_spec keyed_body_def truthy_key_def)
  have d: "decode_envelope plain_models (created_response ''id1'') (http_spec_of H_ENQUEUE) ''id1'' = Inr (''created'', [], ''id1'')"
    by (simp add: decode_envelope_def answered_command_def created_response_def plain_models_def schedule_command_def enqueue_spec)
  have l1: "send_loop plain_models flaky_channel (http_spec_of H_ENQUEUE) ''/taskq/v1/queues/q/jobs'' (Some keyed_body) True 1 1 1 =
      (Inr (''created'', [], ''id1''), [], 1, 2)"
    using d by (subst send_loop.simps) (simp add: flaky_channel_def)
  have l0: "send_loop plain_models flaky_channel (http_spec_of H_ENQUEUE) ''/taskq/v1/queues/q/jobs'' (Some keyed_body) True 0 2 0 =
      (Inr (''created'', [], ''id1''), [1 / 8], 2, 2)"
    using l1 by (subst send_loop.simps) (simp add: flaky_channel_def backoff_delay_def numeral_2_eq_2)
  have r: "request_command plain_models flaky_channel 2 H_ENQUEUE [(''queue'', ''q'')] (Some keyed_body) 0 =
      (Inr (''created'', [], ''id1''), [1 / 8], 2, 2)"
    using l0 p b t by (simp add: request_command_def enqueue_spec)
  show ?thesis using r resend_only_when_safe [OF r] by (simp add: max_retries_ok_def)
qed

end
