(* ===== verification/Facade.thy ===== *)
theory Facade
  imports HttpClient
begin

text \<open>
  \<open>http/facade.py\<close> and \<open>http/deps.py\<close>: how the service handles a command of the HTTP table.  A request is
  authenticated, its command authorized for the queues it touches, its headers, query and body
  validated, in an order that depends on the command, and only then a transport is called.  The
  authorizers, pydantic and the transports are the fields of the record \<open>facade\<close>; the transports act on
  a state of their own, the projections they give for authorization do not change it.
\<close>

section \<open>Requests and failures\<close>

text \<open>
  What the code reads of a request.  The path parameters, the query with its repetitions, and the
  body as its length and what \<open>json.loads\<close> makes of it, \<open>None\<close> when it raises.
\<close>

record request =
  rq_method :: http_method
  rq_path :: "(string, string) dict"
  rq_query :: "(string \<times> string) list"
  rq_protocol :: "string option"
  rq_request_id :: "string option"
  rq_if_match :: "string option"
  rq_body_length :: nat
  rq_json :: "json option"

text \<open>
  An exception of the handler, or an \<open>HTTPException\<close> of the authorizer: its status, the reason of its
  detail, its \<open>Retry-After\<close>, and the denied queue the request's state remembers.
\<close>

datatype facade_error =
    Raised exc
  | HttpExc int "string option" "string option" "string option"

record auth_context =
  ac_actor :: string
  ac_principal :: string

datatype auth_kind = AUTH_MAIN | AUTH_OPERATOR | AUTH_METRICS

text \<open>A validated request model: what the handler reads of it, and the rest.\<close>

datatype wire_body =
    EnqueueBody "uuid option" jobj
  | EnqueueManyBody "uuid option list" jobj
  | PresenceBody worker_presence_request
  | WorkflowBody create_workflow_request
  | CompleteBody "followup list option" jobj
  | ScheduleBody schedule_definition
  | OtherBody jobj

text \<open>An answer before it is rendered: the outcome, its data, and the version of an entity tag.\<close>

record facade_answer =
  an_outcome :: string
  an_data :: jobj
  an_schedule_version :: "int option"

record schedule_reply =
  sr_outcome :: string
  sr_version :: int
  sr_fields :: jobj

text \<open>\<open>_schedule_wire\<close>: the version is a field of the profile.\<close>

definition schedule_wire :: "schedule_reply \<Rightarrow> jobj" where
  "schedule_wire r = dset ''version'' (JInt (sr_version r)) (sr_fields r)"

definition schedule_answer :: "schedule_reply \<Rightarrow> facade_answer" where
  "schedule_answer r = \<lparr>an_outcome = sr_outcome r, an_data = schedule_wire r, an_schedule_version = Some (sr_version r)\<rparr>"

record 's schedule_operator =
  so_projection :: "string \<Rightarrow> facade_error + string option"
  so_put :: "string \<Rightarrow> schedule_definition \<Rightarrow> string \<Rightarrow> int option \<Rightarrow> 's \<Rightarrow> (facade_error + schedule_reply) \<times> 's"
  so_get :: "string \<Rightarrow> 's \<Rightarrow> (facade_error + schedule_reply) \<times> 's"
  so_retire :: "string \<Rightarrow> int \<Rightarrow> string \<Rightarrow> 's \<Rightarrow> (facade_error + schedule_reply) \<times> 's"

text \<open>
  The dispatcher: its authorizers, its policies, the projections, the parser of the request models, the
  schedule operations when the operator transport has them, and the rest of \<open>_execute\<close>.
\<close>

record 's facade =
  fa_authenticate :: "auth_kind \<Rightarrow> request \<Rightarrow> facade_error + auth_context"
  fa_authorize :: "auth_kind \<Rightarrow> request \<Rightarrow> auth_context \<Rightarrow> taskq_action \<Rightarrow> string option \<Rightarrow> facade_error + unit"
  fa_operator :: bool
  fa_hide :: bool
  fa_meta_public :: bool
  fa_job :: "uuid \<Rightarrow> facade_error + string option"
  fa_workflow :: "(uuid \<Rightarrow> facade_error + string list) option"
  fa_parse :: "string \<Rightarrow> jobj \<Rightarrow> wire_body option"
  fa_schedules :: "'s schedule_operator option"
  fa_execute :: "http_command_name \<Rightarrow> auth_context \<Rightarrow> request \<Rightarrow> wire_body option \<Rightarrow> string option \<Rightarrow> 's \<Rightarrow>
    (facade_error + facade_answer) \<times> 's"

abbreviation fraise :: "tq_code \<Rightarrow> jobj \<Rightarrow> facade_error" where
  "fraise c d \<equiv> Raised (raise_with c d)"

section \<open>Reading a request\<close>

text \<open>\<open>_REQUEST_ID_RE\<close>\<close>

definition request_id_char :: "char \<Rightarrow> bool" where
  "request_id_char c \<longleftrightarrow> is_alnum_c c \<or> c \<in> {CHR ''.'', CHR ''_'', CHR '':'', CHR ''-''}"

definition request_id_ok :: "string \<Rightarrow> bool" where
  "request_id_ok s \<longleftrightarrow> 1 \<le> length s \<and> length s \<le> 128 \<and> list_all request_id_char s"

text \<open>\<open>_selected_request_id\<close>: the id of the answer and whether the request's own is invalid.\<close>

definition selected_request_id :: "uuid \<Rightarrow> request \<Rightarrow> string \<times> bool" where
  "selected_request_id u rq = (case rq_request_id rq of
      None \<Rightarrow> (uuid_str u, False)
    | Some s \<Rightarrow> if request_id_ok s then (s, False) else (uuid_str u, True))"

definition invalid_request_id :: "request \<Rightarrow> bool" where
  "invalid_request_id rq \<longleftrightarrow> (case rq_request_id rq of None \<Rightarrow> False | Some s \<Rightarrow> \<not> request_id_ok s)"

definition validate_headers :: "request \<Rightarrow> facade_error + unit" where
  "validate_headers rq =
     (if rq_protocol rq \<noteq> None \<and> rq_protocol rq \<noteq> Some ''1''
      then Inl (fraise VERSION [(''protocol'', JStr (take 32 (the (rq_protocol rq))))])
      else if invalid_request_id rq then Inl (fraise VALIDATION [(''header'', JStr ''Taskq-Request-Id'')])
      else Inr ())"

definition allowed_query :: "http_command_name \<Rightarrow> string list" where
  "allowed_query name =
     (if name = H_GET_JOB then [''include_error'', ''include_result'', ''include_progress'', ''include_payload'']
      else if name = H_LIST_JOBS then [''queue'', ''view'', ''limit'', ''cursor'']
      else if name \<in> {H_LIST_WORKFLOWS, H_LIST_SCHEDULES} then [''view'', ''limit'', ''cursor'']
      else if name = H_LIST_JOB_EVENTS then [''limit'', ''cursor'', ''include_details'']
      else if name \<in> {H_GET_WORKFLOW_PAGE, H_LIST_WORKERS} then [''limit'', ''cursor'']
      else [])"

definition validate_query :: "request \<Rightarrow> http_command_name \<Rightarrow> facade_error + unit" where
  "validate_query rq name =
     guard (list_all (\<lambda>k. k \<in> set (allowed_query name)) (map fst (rq_query rq)) \<and> distinct (map fst (rq_query rq)))
       (fraise VALIDATION [(''reason'', JStr ''unexpected_query_parameter'')])"

definition query_param :: "request \<Rightarrow> string \<Rightarrow> string option" where
  "query_param rq k = map_of (rev (rq_query rq)) k"

text \<open>\<open>_body\<close>\<close>

definition max_body_bytes :: nat where
  "max_body_bytes = 4 * 1024 * 1024"

definition read_body :: "'s facade \<Rightarrow> request \<Rightarrow> http_command_spec \<Rightarrow> facade_error + wire_body option" where
  "read_body fa rq spec =
     (if rq_method rq = M_GET
      then (if rq_body_length rq \<noteq> 0 then Inl (fraise VALIDATION [(''reason'', JStr ''body_not_allowed'')]) else Inr None)
      else if max_body_bytes < rq_body_length rq
      then Inl (fraise VALIDATION [(''reason'', JStr ''request_body_too_large'')])
      else case (if rq_body_length rq = 0 then Some (JObj []) else rq_json rq) of
          None \<Rightarrow> Inl (fraise VALIDATION [(''reason'', JStr ''invalid_json'')])
        | Some (JObj value) \<Rightarrow> (case http_request_model spec of
              None \<Rightarrow> if value \<noteq> [] then Inl (fraise VALIDATION [(''reason'', JStr ''body_not_allowed'')]) else Inr None
            | Some model \<Rightarrow> (case fa_parse fa model value of
                  None \<Rightarrow> Inl (fraise VALIDATION [(''reason'', JStr ''invalid_command'')])
                | Some b \<Rightarrow> Inr (Some b)))
        | Some _ \<Rightarrow> Inl (fraise VALIDATION [(''reason'', JStr ''body_must_be_object'')]))"

text \<open>\<open>UUID(text)\<close>: \<open>int(hex, 16)\<close> allows blanks around, a sign, a prefix and single underscores.\<close>

definition hex_value :: "char \<Rightarrow> nat option" where
  "hex_value c = (let n = ord_c c in
     if 48 \<le> n \<and> n \<le> 57 then Some (n - 48)
     else if 65 \<le> n \<and> n \<le> 70 then Some (n - 55)
     else if 97 \<le> n \<and> n \<le> 102 then Some (n - 87) else None)"

text \<open>The digits left to read after a digit: \<open>acc\<close> is the value so far.\<close>

fun hex_digits :: "nat \<Rightarrow> string \<Rightarrow> nat option" where
  "hex_digits acc [] = Some acc"
| "hex_digits acc [c] = map_option (\<lambda>v. 16 * acc + v) (hex_value c)"
| "hex_digits acc (c # e # s) =
     (if c = CHR ''_'' then (case hex_value e of None \<Rightarrow> None | Some v \<Rightarrow> hex_digits (16 * acc + v) s)
      else case hex_value c of None \<Rightarrow> None | Some v \<Rightarrow> hex_digits (16 * acc + v) (e # s))"

definition hex_number :: "string \<Rightarrow> nat option" where
  "hex_number s = (case s of
      [] \<Rightarrow> None
    | c # r \<Rightarrow> (case hex_value c of None \<Rightarrow> None | Some v \<Rightarrow> hex_digits v r))"

definition hex_unsigned :: "string \<Rightarrow> nat option" where
  "hex_unsigned s =
     (if begins_with ''0x'' s \<or> begins_with ''0X'' s
      then (case drop 2 s of
          [] \<Rightarrow> None
        | c # r \<Rightarrow> hex_number (if c = CHR ''_'' then r else c # r))
      else hex_number s)"

definition parse_hex :: "string \<Rightarrow> int option" where
  "parse_hex s = (case py_strip s of
      [] \<Rightarrow> None
    | c # r \<Rightarrow> if c = CHR ''-'' then map_option (\<lambda>n. - int n) (hex_unsigned r)
               else if c = CHR ''+'' then map_option int (hex_unsigned r)
               else map_option int (hex_unsigned (c # r)))"

definition brace :: "char \<Rightarrow> bool" where
  "brace c \<longleftrightarrow> c = CHR ''{'' \<or> c = CHR ''}''"

definition py_uuid :: "string \<Rightarrow> uuid option" where
  "py_uuid text = (let
     s = py_replace ''uuid:'' [] (py_replace ''urn:'' [] text);
     h = filter (\<lambda>c. c \<noteq> CHR ''-'') (rev (dropWhile brace (rev (dropWhile brace s))))
   in if length h \<noteq> 32 then None
      else case parse_hex h of
          None \<Rightarrow> None
        | Some i \<Rightarrow> if 0 \<le> i \<and> i < 2 ^ 128 then Some (word_of_int i) else None)"

definition path_uuid :: "request \<Rightarrow> string \<Rightarrow> facade_error + uuid" where
  "path_uuid rq k = (case dget (rq_path rq) k of
      None \<Rightarrow> Inl (Raised PyKeyError)
    | Some s \<Rightarrow> (case py_uuid s of None \<Rightarrow> Inl (fraise VALIDATION [(''field'', JStr k)]) | Some u \<Rightarrow> Inr u))"

definition path_param :: "request \<Rightarrow> string \<Rightarrow> facade_error + string" where
  "path_param rq k = (case dget (rq_path rq) k of None \<Rightarrow> Inl (Raised PyKeyError) | Some s \<Rightarrow> Inr s)"

section \<open>Authorization\<close>

definition operator_commands :: "command_name list" where
  "operator_commands = [C_ENSURE_QUEUE, C_PAUSE_QUEUE, C_RESUME_QUEUE, C_CANCEL, C_CANCEL_WORKFLOW, C_GET_SCHEDULE,
     C_LIST_SCHEDULES, C_PUT_SCHEDULE, C_RETIRE_SCHEDULE, C_REDRIVE, C_EXPIRE_JOB, C_EXPIRE_WORKER_LEASES,
     C_PURGE_QUEUED, C_RUN_NOW, C_REPRIORITIZE, C_SET_CONCURRENCY_LIMIT, C_REQUEST_WORKER_SHUTDOWN]"

definition operator_command :: "http_command_name \<Rightarrow> bool" where
  "operator_command name = (case http_sql_command (http_spec_of name) of
      None \<Rightarrow> False | Some c \<Rightarrow> c \<in> set operator_commands)"

definition admission_commands :: "http_command_name list" where
  "admission_commands = [H_RESERVE_ADMISSION, H_FINISH_ADMISSION, H_CANCEL_ADMISSION]"

definition schedule_commands :: "http_command_name list" where
  "schedule_commands = [H_GET_SCHEDULE, H_PUT_SCHEDULE, H_RETIRE_SCHEDULE]"

definition authorizer_of :: "'s facade \<Rightarrow> http_command_name \<Rightarrow> facade_error + auth_kind" where
  "authorizer_of fa name =
     (if name = H_METRICS then Inr AUTH_METRICS
      else if operator_command name
      then (if fa_operator fa then Inr AUTH_OPERATOR else Inl (Raised (PyAssertionError ''operator_authorizer'')))
      else Inr AUTH_MAIN)"

text \<open>\<open>_check_authorization\<close>: a refusal is remembered with its queue, or looks like a missing resource.\<close>

definition check_authorization ::
  "'s facade \<Rightarrow> auth_kind \<Rightarrow> request \<Rightarrow> auth_context \<Rightarrow> taskq_action \<Rightarrow> string option \<Rightarrow> bool \<Rightarrow> facade_error + unit" where
  "check_authorization fa kind rq ctx action queue hide = (case fa_authorize fa kind rq ctx action queue of
      Inr u \<Rightarrow> Inr u
    | Inl (Raised e) \<Rightarrow> Inl (Raised e)
    | Inl (HttpExc status reason retry denied) \<Rightarrow>
        if status \<noteq> 403 then Inl (HttpExc status reason retry denied)
        else if hide then Inl (Raised (raise_code NOT_FOUND))
        else Inl (HttpExc status reason retry queue))"

fun check_queues ::
  "'s facade \<Rightarrow> auth_kind \<Rightarrow> request \<Rightarrow> auth_context \<Rightarrow> taskq_action \<Rightarrow> bool \<Rightarrow> string list \<Rightarrow> facade_error + unit" where
  "check_queues fa kind rq ctx action hide [] = Inr ()"
| "check_queues fa kind rq ctx action hide (q # qs) =
     ebind (check_authorization fa kind rq ctx action (Some q) hide)
       (\<lambda>_. check_queues fa kind rq ctx action hide qs)"

definition authorize_workflow ::
  "'s facade \<Rightarrow> auth_kind \<Rightarrow> request \<Rightarrow> auth_context \<Rightarrow> uuid \<Rightarrow> taskq_action option \<Rightarrow> facade_error + unit" where
  "authorize_workflow fa kind rq ctx w action = (case (fa_workflow fa, action) of
      (Some lookup, Some a) \<Rightarrow>
        ebind (lookup w) (\<lambda>queues. check_queues fa kind rq ctx a (fa_hide fa) queues)
    | _ \<Rightarrow> Inl (fraise CAPABILITY [(''capability'', JStr ''dependencies_workflows'')]))"

text \<open>\<open>_authorize_followup_queues\<close>: the other queues of the follow-ups, sorted, for running.\<close>

definition followup_queues :: "string \<Rightarrow> followup list \<Rightarrow> string list" where
  "followup_queues parent fs =
     sort (remdups (filter (\<lambda>q. q \<noteq> parent) (List.map_filter fu_queue fs)))"

definition declared_of :: "wire_body option \<Rightarrow> facade_error + string list" where
  "declared_of body = (case body of
      Some (PresenceBody p) \<Rightarrow> Inr (wp_queues p)
    | Some (WorkflowBody w) \<Rightarrow> Inr (cw_declared_queues w)
    | _ \<Rightarrow> Inl (Raised (PyAssertionError ''CreateWorkflowWireRequest'')))"

text \<open>\<open>_authorize\<close>: the queue the command is about, when it is about one.\<close>

definition authorize_command ::
  "'s facade \<Rightarrow> request \<Rightarrow> http_command_name \<Rightarrow> wire_body option \<Rightarrow> auth_context \<Rightarrow> auth_kind \<Rightarrow> bool \<Rightarrow>
   facade_error + string option" where
  "authorize_command fa rq name body ctx kind public_meta = (let spec = http_spec_of name in
     case (if public_meta then None else http_action spec) of
       None \<Rightarrow>
         if name = H_METRICS
         then ebind (check_authorization fa kind rq ctx ACT_READ None False) (\<lambda>_. Inr None)
         else Inr None
     | Some action \<Rightarrow> (case http_queue_source spec of
           QS_PATH \<Rightarrow> ebind (path_param rq ''queue'') (\<lambda>q.
             ebind (check_authorization fa kind rq ctx action (Some q) False) (\<lambda>_. Inr (Some q)))
         | QS_QUERY \<Rightarrow> (case query_param rq ''queue'' of
             None \<Rightarrow> Inl (fraise VALIDATION [(''field'', JStr ''queue'')])
           | Some q \<Rightarrow> ebind (check_authorization fa kind rq ctx action (Some q) False) (\<lambda>_. Inr (Some q)))
         | QS_DECLARED_QUEUES \<Rightarrow> ebind (declared_of body) (\<lambda>qs.
             ebind (check_queues fa kind rq ctx action False qs) (\<lambda>_. Inr None))
         | QS_WORKFLOW_LOOKUP \<Rightarrow>
             ebind (path_uuid rq (if name = H_GET_WORKFLOW_PAGE then ''workflow_id'' else ''id'')) (\<lambda>w.
             ebind (authorize_workflow fa kind rq ctx w (http_action spec)) (\<lambda>_. Inr None))
         | QS_JOB_LOOKUP \<Rightarrow> ebind (path_uuid rq ''job_id'') (\<lambda>j. ebind (fa_job fa j) (\<lambda>p. case p of
             None \<Rightarrow> Inl (Raised (raise_code NOT_FOUND))
           | Some q \<Rightarrow> ebind (check_authorization fa kind rq ctx action (Some q) (fa_hide fa)) (\<lambda>_. Inr (Some q))))
         | _ \<Rightarrow> ebind (check_authorization fa kind rq ctx action None False) (\<lambda>_. Inr None)))"

section \<open>The order of the checks\<close>

text \<open>
  \<open>handle\<close> up to the transport call: the validated body and the queue.  Commands on one resource are
  authorized before a byte of the body is read; the others are read first, since their body may name
  the queues.
\<close>

definition checked_first ::
  "'s facade \<Rightarrow> request \<Rightarrow> http_command_name \<Rightarrow> auth_context \<Rightarrow> auth_kind \<Rightarrow> bool \<Rightarrow>
   facade_error + (wire_body option \<times> string option)" where
  "checked_first fa rq name ctx kind public_meta =
     ebind (validate_query rq name) (\<lambda>_.
     ebind (authorize_command fa rq name None ctx kind public_meta) (\<lambda>queue.
     ebind (validate_headers rq) (\<lambda>_.
     ebind (read_body fa rq (http_spec_of name)) (\<lambda>body. Inr (body, queue)))))"

definition prepare_enqueue ::
  "'s facade \<Rightarrow> request \<Rightarrow> auth_context \<Rightarrow> auth_kind \<Rightarrow> bool \<Rightarrow> facade_error + (wire_body option \<times> string option)" where
  "prepare_enqueue fa rq ctx kind public_meta =
     ebind (checked_first fa rq H_ENQUEUE ctx kind public_meta) (\<lambda>(body, queue). case body of
       Some (EnqueueBody workflow rest) \<Rightarrow> (case workflow of
           None \<Rightarrow> Inr (body, queue)
         | Some w \<Rightarrow> ebind (authorize_workflow fa kind rq ctx w (http_action (http_spec_of H_ENQUEUE)))
             (\<lambda>_. Inr (body, queue)))
     | _ \<Rightarrow> Inl (Raised (PyAssertionError ''EnqueueWireRequest'')))"

fun http_name :: "http_command_name \<Rightarrow> string" where
  "http_name H_META = ''meta''"
| "http_name H_TARGET = ''target''"
| "http_name H_SCHEDULER_HEALTH = ''scheduler_health''"
| "http_name H_ENSURE_QUEUE = ''ensure_queue''"
| "http_name H_ENQUEUE = ''enqueue''"
| "http_name H_ENQUEUE_MANY = ''enqueue_many''"
| "http_name H_RESERVE_ADMISSION = ''reserve_admission''"
| "http_name H_FINISH_ADMISSION = ''finish_admission''"
| "http_name H_CANCEL_ADMISSION = ''cancel_admission''"
| "http_name H_CREATE_WORKFLOW = ''create_workflow''"
| "http_name H_SEAL_WORKFLOW = ''seal_workflow''"
| "http_name H_CANCEL_WORKFLOW = ''cancel_workflow''"
| "http_name H_GET_WORKFLOW_PAGE = ''get_workflow_page''"
| "http_name H_LIST_WORKFLOWS = ''list_workflows''"
| "http_name H_GET_SCHEDULE = ''get_schedule''"
| "http_name H_LIST_SCHEDULES = ''list_schedules''"
| "http_name H_PUT_SCHEDULE = ''put_schedule''"
| "http_name H_RETIRE_SCHEDULE = ''retire_schedule''"
| "http_name H_CLAIM = ''claim''"
| "http_name H_HEARTBEAT = ''heartbeat''"
| "http_name H_COMPLETE = ''complete''"
| "http_name H_FAIL = ''fail''"
| "http_name H_RELEASE = ''release''"
| "http_name H_SNOOZE = ''snooze''"
| "http_name H_CANCEL_RUNNING = ''cancel_running''"
| "http_name H_WORKER_HEARTBEAT = ''worker_heartbeat''"
| "http_name H_GET_JOB = ''get_job''"
| "http_name H_LIST_JOB_EVENTS = ''list_job_events''"
| "http_name H_GET_QUEUE_STATS = ''get_queue_stats''"
| "http_name H_LIST_QUEUE_STATS = ''list_queue_stats''"
| "http_name H_METRICS = ''metrics''"
| "http_name H_PAUSE_QUEUE = ''pause_queue''"
| "http_name H_RESUME_QUEUE = ''resume_queue''"
| "http_name H_CANCEL = ''cancel''"
| "http_name H_REDRIVE = ''redrive''"
| "http_name H_EXPIRE_JOB = ''expire_job''"
| "http_name H_EXPIRE_WORKER_LEASES = ''expire_worker_leases''"
| "http_name H_PURGE_QUEUED = ''purge_queued''"
| "http_name H_RUN_NOW = ''run_now''"
| "http_name H_REPRIORITIZE = ''reprioritize''"
| "http_name H_SET_CONCURRENCY_LIMIT = ''set_concurrency_limit''"
| "http_name H_REQUEST_WORKER_SHUTDOWN = ''request_worker_shutdown''"
| "http_name H_LIST_WORKERS = ''list_workers''"
| "http_name H_GET_QUEUE = ''get_queue''"
| "http_name H_LIST_JOBS = ''list_jobs''"

definition active_surface :: "http_command_name \<Rightarrow> facade_error + unit" where
  "active_surface name = (if http_surface (http_spec_of name) = SURFACE_ACTIVE then Inr ()
     else Inl (fraise CAPABILITY [(''capability'', JStr (http_name name))]))"

definition prepare_job ::
  "'s facade \<Rightarrow> request \<Rightarrow> http_command_name \<Rightarrow> auth_context \<Rightarrow> auth_kind \<Rightarrow> bool \<Rightarrow>
   facade_error + (wire_body option \<times> string option)" where
  "prepare_job fa rq name ctx kind public_meta =
     ebind (checked_first fa rq name ctx kind public_meta) (\<lambda>(body, queue).
     ebind (if name = H_COMPLETE
       then (case (queue, body) of
           (Some q, Some (CompleteBody followups rest)) \<Rightarrow>
             check_queues fa kind rq ctx ACT_RUN False (followup_queues q (case followups of None \<Rightarrow> [] | Some fs \<Rightarrow> fs))
         | _ \<Rightarrow> Inl (Raised (PyAssertionError ''CompleteWireRequest'')))
       else Inr ()) (\<lambda>_.
     ebind (active_surface name) (\<lambda>_. Inr (body, queue))))"

definition prepare_other ::
  "'s facade \<Rightarrow> request \<Rightarrow> http_command_name \<Rightarrow> auth_context \<Rightarrow> auth_kind \<Rightarrow> bool \<Rightarrow>
   facade_error + (wire_body option \<times> string option)" where
  "prepare_other fa rq name ctx kind public_meta =
     ebind (validate_headers rq) (\<lambda>_.
     ebind (read_body fa rq (http_spec_of name)) (\<lambda>body.
     ebind (validate_query rq name) (\<lambda>_.
     ebind (authorize_command fa rq name body ctx kind public_meta) (\<lambda>queue.
     ebind (active_surface name) (\<lambda>_. Inr (body, queue))))))"

definition prepare ::
  "'s facade \<Rightarrow> request \<Rightarrow> http_command_name \<Rightarrow> auth_context \<Rightarrow> auth_kind \<Rightarrow> bool \<Rightarrow>
   facade_error + (wire_body option \<times> string option)" where
  "prepare fa rq name ctx kind public_meta =
     (if name \<in> set admission_commands \<or> http_queue_source (http_spec_of name) = QS_WORKFLOW_LOOKUP
      then checked_first fa rq name ctx kind public_meta
      else if name = H_ENQUEUE then prepare_enqueue fa rq ctx kind public_meta
      else if http_queue_source (http_spec_of name) = QS_JOB_LOOKUP then prepare_job fa rq name ctx kind public_meta
      else prepare_other fa rq name ctx kind public_meta)"

section \<open>Schedules\<close>

definition schedule_name_char :: "bool \<Rightarrow> char \<Rightarrow> bool" where
  "schedule_name_char first c \<longleftrightarrow> is_lower_c c \<or> is_digit_c c \<or> \<not> first \<and> c \<in> {CHR ''_'', CHR ''.'', CHR ''-''}"

definition schedule_name_ok :: "string \<Rightarrow> bool" where
  "schedule_name_ok s \<longleftrightarrow> utf8_length s \<le> 120 \<and> s \<noteq> [] \<and> schedule_name_char True (List.hd s) \<and>
     list_all (schedule_name_char False) (tl s) \<and> s \<noteq> ''taskq-janitor-daily''"

text \<open>\<open>_parse_schedule_if_match\<close>\<close>

definition schedule_etag :: "int \<Rightarrow> string" where
  "schedule_etag version = [double_quote] @ ''taskq-schedule-'' @ int_str version @ [double_quote]"

definition etag_version :: "string \<Rightarrow> string \<Rightarrow> int option" where
  "etag_version prefix v = (let s = drop (Suc (length prefix)) v; ds = butlast s in
     if begins_with (double_quote # prefix) v \<and> s \<noteq> [] \<and> last s = double_quote \<and> ds \<noteq> [] \<and>
        list_all is_digit_c ds \<and> List.hd ds \<noteq> CHR ''0''
     then Some (digits_value ds) else None)"

definition schedule_if_match :: "request \<Rightarrow> facade_error + int option" where
  "schedule_if_match rq = (case rq_if_match rq of
      None \<Rightarrow> Inr None
    | Some v \<Rightarrow> (case etag_version ''taskq-schedule-'' v of
          None \<Rightarrow> Inl (fraise VALIDATION [(''header'', JStr ''If-Match'')])
        | Some n \<Rightarrow> Inr (Some n)))"

definition is_not_found :: "facade_error \<Rightarrow> bool" where
  "is_not_found e = (case e of Raised (TaskqError t) \<Rightarrow> err_code t = NOT_FOUND \<and> \<not> err_protocol t | _ \<Rightarrow> False)"

text \<open>The projection of the schedule, \<open>None\<close> when a definition is put under a new name, and its authorization.\<close>

definition schedule_projection ::
  "'s facade \<Rightarrow> 's schedule_operator \<Rightarrow> request \<Rightarrow> http_command_name \<Rightarrow> auth_context \<Rightarrow> auth_kind \<Rightarrow> string \<Rightarrow>
   facade_error + string option" where
  "schedule_projection fa op rq name ctx kind schedule = (case so_projection op schedule of
      Inl e \<Rightarrow> if is_not_found e \<and> name = H_PUT_SCHEDULE then Inr None else Inl e
    | Inr None \<Rightarrow> Inl (Raised (raise_code INTERNAL))
    | Inr (Some q) \<Rightarrow> ebind (check_authorization fa kind rq ctx ACT_CONTROL (Some q) (fa_hide fa)) (\<lambda>_. Inr (Some q)))"

text \<open>What is left to do once a schedule command is authorized.\<close>

datatype schedule_call =
    PutSchedule string schedule_definition "int option"
  | GetSchedule string
  | RetireSchedule string int

definition schedule_target :: "wire_body option \<Rightarrow> facade_error + schedule_definition" where
  "schedule_target body = (case body of Some (ScheduleBody d) \<Rightarrow> Inr d
     | _ \<Rightarrow> Inl (Raised (PyAssertionError ''ScheduleDefinition'')))"

definition prepare_put ::
  "'s facade \<Rightarrow> request \<Rightarrow> auth_context \<Rightarrow> auth_kind \<Rightarrow> string \<Rightarrow> string option \<Rightarrow> int option \<Rightarrow> schedule_definition \<Rightarrow>
   facade_error + schedule_call" where
  "prepare_put fa rq ctx kind schedule projection version d =
     (if projection = None \<and> version \<noteq> None then Inl (Raised (raise_code NOT_FOUND))
      else ebind (if projection = None \<or> Some (st_queue (sd_target d)) \<noteq> projection
             then check_authorization fa kind rq ctx ACT_CONTROL (Some (st_queue (sd_target d))) False
             else Inr ()) (\<lambda>_. Inr (PutSchedule schedule d version)))"

definition schedule_choice ::
  "'s facade \<Rightarrow> request \<Rightarrow> http_command_name \<Rightarrow> auth_context \<Rightarrow> auth_kind \<Rightarrow> string \<Rightarrow> string option \<Rightarrow> int option \<Rightarrow>
   wire_body option \<Rightarrow> facade_error + schedule_call" where
  "schedule_choice fa rq name ctx kind schedule projection version body =
     (if name = H_PUT_SCHEDULE
      then ebind (schedule_target body) (prepare_put fa rq ctx kind schedule projection version)
      else if name = H_GET_SCHEDULE then Inr (GetSchedule schedule)
      else case version of
          None \<Rightarrow> Inl (fraise VALIDATION [(''header'', JStr ''If-Match'')])
        | Some v \<Rightarrow> Inr (RetireSchedule schedule v))"

definition prepare_schedule ::
  "'s facade \<Rightarrow> 's schedule_operator option \<Rightarrow> request \<Rightarrow> http_command_name \<Rightarrow> auth_context \<Rightarrow> auth_kind \<Rightarrow>
   facade_error + schedule_call" where
  "prepare_schedule fa op rq name ctx kind =
     ebind (validate_query rq name) (\<lambda>_.
     ebind (validate_headers rq) (\<lambda>_.
     ebind (path_param rq ''name'') (\<lambda>schedule.
     if \<not> schedule_name_ok schedule then Inl (fraise VALIDATION [(''field'', JStr ''name'')])
     else case op of
         None \<Rightarrow> Inl (fraise CAPABILITY [(''capability'', JStr ''schedules'')])
       | Some so \<Rightarrow>
           ebind (schedule_projection fa so rq name ctx kind schedule) (\<lambda>projection.
           ebind (schedule_if_match rq) (\<lambda>version.
           ebind (read_body fa rq (http_spec_of name)) (\<lambda>body.
             schedule_choice fa rq name ctx kind schedule projection version body))))))"

definition call_schedule :: "'s schedule_operator \<Rightarrow> string \<Rightarrow> schedule_call \<Rightarrow> 's \<Rightarrow> (facade_error + schedule_reply) \<times> 's" where
  "call_schedule so actor c s = (case c of
      PutSchedule n d v \<Rightarrow> so_put so n d actor v s
    | GetSchedule n \<Rightarrow> (case so_get so n s of (r, s') \<Rightarrow> (map_sum id (\<lambda>x. x\<lparr>sr_outcome := ''ok''\<rparr>) r, s'))
    | RetireSchedule n v \<Rightarrow> so_retire so n v actor s)"

section \<open>Handling a request\<close>

text \<open>\<open>_command_response\<close> refuses an outcome the table does not give the command; the metrics are plain text.\<close>

definition registered_answer :: "http_command_name \<Rightarrow> facade_answer \<Rightarrow> facade_error + facade_answer" where
  "registered_answer name a =
     (if http_enveloped (http_spec_of name) \<and> dget (http_outcomes (http_spec_of name)) (an_outcome a) = None
      then Inl (Raised (raise_reason INTERNAL ''unregistered_http_outcome'')) else Inr a)"

definition public_request :: "'s facade \<Rightarrow> http_command_name \<Rightarrow> bool" where
  "public_request fa name \<longleftrightarrow> name = H_META \<and> fa_meta_public fa"

definition authenticated :: "'s facade \<Rightarrow> auth_kind \<Rightarrow> http_command_name \<Rightarrow> request \<Rightarrow> facade_error + auth_context" where
  "authenticated fa kind name rq =
     (if public_request fa name
      then Inr \<lparr>ac_actor = ''public-meta'', ac_principal = ''deployment-policy''\<rparr>
      else fa_authenticate fa kind rq)"

definition handle :: "'s facade \<Rightarrow> http_command_name \<Rightarrow> request \<Rightarrow> 's \<Rightarrow> (facade_error + facade_answer) \<times> 's" where
  "handle fa name rq s = (case authorizer_of fa name of
      Inl e \<Rightarrow> (Inl e, s)
    | Inr kind \<Rightarrow> (case authenticated fa kind name rq of
          Inl e \<Rightarrow> (Inl e, s)
        | Inr ctx \<Rightarrow>
            if name \<in> set schedule_commands
            then (case prepare_schedule fa (fa_schedules fa) rq name ctx kind of
                Inl e \<Rightarrow> (Inl e, s)
              | Inr c \<Rightarrow> (case call_schedule (the (fa_schedules fa)) (ac_actor ctx) c s of
                  (r, s') \<Rightarrow> (ebind (map_sum id schedule_answer r) (registered_answer name), s')))
            else (case prepare fa rq name ctx kind (public_request fa name) of
                Inl e \<Rightarrow> (Inl e, s)
              | Inr (body, queue) \<Rightarrow> (case fa_execute fa name ctx rq body queue s of
                  (r, s') \<Rightarrow> (ebind r (registered_answer name), s')))))"

end
