(* ===== verification/FacadeProps.thy ===== *)
theory FacadeProps
  imports Facade CommandProps
begin

text \<open>
  What the order of the checks in \<open>http/facade.py\<close> guarantees: nothing is done for a request before its
  caller is authorized for every queue the request touches, the workflows joined by a bulk enqueue excepted,
  and a resource the caller may not see looks like one that does not exist.
\<close>

section \<open>Rows of the table\<close>

definition row_facts :: "http_command_name \<Rightarrow> taskq_action option \<Rightarrow> queue_source \<Rightarrow> bool" where
  "row_facts n action source \<longleftrightarrow> (action = None \<longleftrightarrow> n = H_METRICS) \<and>
     (source = QS_SCHEDULE_LOOKUP \<longleftrightarrow> n \<in> set schedule_commands) \<and>
     (n \<in> set admission_commands \<longrightarrow> source = QS_PATH) \<and>
     (n \<in> {H_ENQUEUE, H_ENQUEUE_MANY} \<longrightarrow> source = QS_PATH \<and> action = Some ACT_ENQUEUE) \<and>
     (n = H_COMPLETE \<longrightarrow> source = QS_JOB_LOOKUP) \<and>
     (n \<in> set schedule_commands \<longrightarrow> action = Some ACT_CONTROL) \<and>
     (n \<in> {H_META, H_METRICS} \<longrightarrow> source = QS_DEPLOYMENT)"

lemma mk_http_row:
  "http_action (mk_http m p a qs outs rc sql req dat env) = a"
  "http_queue_source (mk_http m p a qs outs rc sql req dat env) = qs"
  by (simp_all add: mk_http_def)

lemma all_rows: "list_all (\<lambda>(h, s). row_facts h (http_action s) (http_queue_source s)) http_command_specs"
  unfolding http_command_specs_def http_admission_specs_def http_workflow_specs_def
    http_runner_specs_def http_read_specs_def http_operator_specs_def
  by (simp only: list_all_append list.pred_inject prod.case mk_http_row)
    (simp add: row_facts_def schedule_commands_def admission_commands_def)

lemmas source_of_row = http_specs_all [OF all_rows, unfolded row_facts_def]

lemma source_of_metrics: "http_action (http_spec_of name) = None \<longleftrightarrow> name = H_METRICS"
  using source_of_row [of name] by simp

lemma source_of_schedules: "http_queue_source (http_spec_of name) = QS_SCHEDULE_LOOKUP \<longleftrightarrow> name \<in> set schedule_commands"
  using source_of_row [of name] by simp

lemma source_of_admissions: "name \<in> set admission_commands \<Longrightarrow> http_queue_source (http_spec_of name) = QS_PATH"
  using source_of_row [of name] by simp

lemma source_of_enqueue:
  "http_queue_source (http_spec_of H_ENQUEUE) = QS_PATH" "http_action (http_spec_of H_ENQUEUE) = Some ACT_ENQUEUE"
  using source_of_row [of H_ENQUEUE] by simp_all

lemma source_of_bulk:
  "http_queue_source (http_spec_of H_ENQUEUE_MANY) = QS_PATH" "http_action (http_spec_of H_ENQUEUE_MANY) = Some ACT_ENQUEUE"
  using source_of_row [of H_ENQUEUE_MANY] by simp_all

lemma source_of_complete: "http_queue_source (http_spec_of H_COMPLETE) = QS_JOB_LOOKUP"
  using source_of_row [of H_COMPLETE] by simp

lemma source_of_deployment: "name \<in> {H_META, H_METRICS} \<Longrightarrow> http_queue_source (http_spec_of name) = QS_DEPLOYMENT"
  using source_of_row [of name] by simp

lemma action_of_schedules: "name \<in> set schedule_commands \<Longrightarrow> http_action (http_spec_of name) = Some ACT_CONTROL"
  using source_of_row [of name] by simp

section \<open>What a request touches\<close>

text \<open>
  Read off the request, independently of the order in which the code looks: the action and the queues of
  the command by its queue source; the queues of the workflows an enqueue joins, for one job or for the items of a
  bulk; the other queues a completion enqueues into; the present and the new queue of a schedule.
\<close>

definition body_of :: "'s facade \<Rightarrow> request \<Rightarrow> http_command_name \<Rightarrow> wire_body option" where
  "body_of fa rq name = (case read_body fa rq (http_spec_of name) of Inr b \<Rightarrow> b | Inl e \<Rightarrow> None)"

definition workflow_queues :: "'s facade \<Rightarrow> uuid \<Rightarrow> string set" where
  "workflow_queues fa w = (case fa_workflow fa of
      None \<Rightarrow> {} | Some lookup \<Rightarrow> (case lookup w of Inr qs \<Rightarrow> set qs | Inl e \<Rightarrow> {}))"

definition declared_queues :: "wire_body option \<Rightarrow> string set" where
  "declared_queues body = (case declared_of body of Inr qs \<Rightarrow> set qs | Inl e \<Rightarrow> {})"

definition job_queue :: "'s facade \<Rightarrow> request \<Rightarrow> string option" where
  "job_queue fa rq = (case path_uuid rq ''job_id'' of
      Inl e \<Rightarrow> None | Inr j \<Rightarrow> (case fa_job fa j of Inr q \<Rightarrow> q | Inl e \<Rightarrow> None))"

definition schedule_queues :: "'s facade \<Rightarrow> request \<Rightarrow> http_command_name \<Rightarrow> string set" where
  "schedule_queues fa rq name =
     (case (fa_schedules fa, dget (rq_path rq) ''name'') of
        (Some so, Some n) \<Rightarrow> (case so_projection so n of Inr (Some q) \<Rightarrow> {q} | _ \<Rightarrow> {})
      | _ \<Rightarrow> {}) \<union>
     (case body_of fa rq name of
        Some (ScheduleBody d) \<Rightarrow> if name = H_PUT_SCHEDULE then {st_queue (sd_target d)} else {}
      | _ \<Rightarrow> {})"

definition named_queues :: "'s facade \<Rightarrow> request \<Rightarrow> http_command_name \<Rightarrow> string option set" where
  "named_queues fa rq name = (case http_queue_source (http_spec_of name) of
      QS_PATH \<Rightarrow> {dget (rq_path rq) ''queue''}
    | QS_QUERY \<Rightarrow> {query_param rq ''queue''}
    | QS_DECLARED_QUEUES \<Rightarrow> Some ` declared_queues (body_of fa rq name)
    | QS_WORKFLOW_LOOKUP \<Rightarrow>
        (case path_uuid rq (if name = H_GET_WORKFLOW_PAGE then ''workflow_id'' else ''id'') of
           Inr w \<Rightarrow> Some ` workflow_queues fa w | Inl e \<Rightarrow> {})
    | QS_JOB_LOOKUP \<Rightarrow> {job_queue fa rq}
    | QS_SCHEDULE_LOOKUP \<Rightarrow> Some ` schedule_queues fa rq name
    | _ \<Rightarrow> {None})"

definition joined_queues :: "'s facade \<Rightarrow> request \<Rightarrow> http_command_name \<Rightarrow> (taskq_action \<times> string option) set" where
  "joined_queues fa rq name = (case body_of fa rq name of
      Some (EnqueueBody (Some w) rest) \<Rightarrow>
        if name = H_ENQUEUE then (\<lambda>q. (ACT_ENQUEUE, Some q)) ` workflow_queues fa w else {}
    | Some (EnqueueManyBody ws rest) \<Rightarrow>
        if name = H_ENQUEUE_MANY
        then (\<lambda>q. (ACT_ENQUEUE, Some q)) ` (\<Union>w \<in> {w. Some w \<in> set ws}. workflow_queues fa w) else {}
    | Some (CompleteBody (Some fs) rest) \<Rightarrow>
        if name = H_COMPLETE
        then (\<lambda>q. (ACT_RUN, Some q)) ` {q. Some q \<noteq> job_queue fa rq \<and> (\<exists>f \<in> set fs. fu_queue f = Some q)} else {}
    | _ \<Rightarrow> {})"

definition commanded :: "'s facade \<Rightarrow> request \<Rightarrow> http_command_name \<Rightarrow> (taskq_action \<times> string option) set" where
  "commanded fa rq name = (case http_action (http_spec_of name) of
      None \<Rightarrow> {(ACT_READ, None)}
    | Some a \<Rightarrow> Pair a ` named_queues fa rq name)"

definition touched :: "'s facade \<Rightarrow> request \<Rightarrow> http_command_name \<Rightarrow> (taskq_action \<times> string option) set" where
  "touched fa rq name = commanded fa rq name \<union> joined_queues fa rq name"

text \<open>What the facade asks for: a bulk's joins are left out.\<close>

definition asked :: "'s facade \<Rightarrow> request \<Rightarrow> http_command_name \<Rightarrow> (taskq_action \<times> string option) set" where
  "asked fa rq name = (if name = H_ENQUEUE_MANY then commanded fa rq name else touched fa rq name)"

definition granted :: "'s facade \<Rightarrow> auth_kind \<Rightarrow> request \<Rightarrow> auth_context \<Rightarrow> (taskq_action \<times> string option) set \<Rightarrow> bool" where
  "granted fa kind rq ctx needs \<longleftrightarrow> (\<forall>(a, q) \<in> needs. fa_authorize fa kind rq ctx a q = Inr ())"

section \<open>Nothing happens before the caller is authorized\<close>

lemma ebind_InrE: "ebind m f = Inr y \<Longrightarrow> (\<And>x. m = Inr x \<Longrightarrow> f x = Inr y \<Longrightarrow> P) \<Longrightarrow> P"
  by (auto simp: ebind_Inr_iff)

lemma granted_simps [simp]:
  "granted fa kind rq ctx {}"
  "granted fa kind rq ctx (insert x A) \<longleftrightarrow> fa_authorize fa kind rq ctx (fst x) (snd x) = Inr () \<and> granted fa kind rq ctx A"
  "granted fa kind rq ctx (A \<union> B) \<longleftrightarrow> granted fa kind rq ctx A \<and> granted fa kind rq ctx B"
  by (auto simp: granted_def)

lemma granted_image:
  "granted fa kind rq ctx (f ` A) \<longleftrightarrow> (\<forall>x \<in> A. fa_authorize fa kind rq ctx (fst (f x)) (snd (f x)) = Inr ())"
  by (auto simp: granted_def split_beta)

lemma check_authorization_Inr:
  "check_authorization fa kind rq ctx a q hide = Inr u \<longleftrightarrow> fa_authorize fa kind rq ctx a q = Inr ()"
  by (auto simp: check_authorization_def split: sum.splits facade_error.splits)

lemma check_queues_Inr:
  "check_queues fa kind rq ctx a hide qs = Inr u \<longleftrightarrow> (\<forall>q \<in> set qs. fa_authorize fa kind rq ctx a (Some q) = Inr ())"
  by (induction qs) (auto simp: ebind_Inr_iff check_authorization_Inr)

lemma authorize_workflow_Inr:
  "authorize_workflow fa kind rq ctx w action = Inr u \<Longrightarrow>
   \<exists>a. action = Some a \<and> (\<forall>q \<in> workflow_queues fa w. fa_authorize fa kind rq ctx a (Some q) = Inr ())"
  by (auto simp: authorize_workflow_def workflow_queues_def ebind_Inr_iff check_queues_Inr split: option.splits)

lemma authorize_command_grants:
  assumes "authorize_command fa rq name body ctx kind False = Inr queue"
    and "http_queue_source (http_spec_of name) \<noteq> QS_SCHEDULE_LOOKUP"
    and "http_queue_source (http_spec_of name) = QS_DECLARED_QUEUES \<Longrightarrow> body = body_of fa rq name"
  shows "granted fa kind rq ctx (commanded fa rq name)"
proof (cases "http_action (http_spec_of name)")
  case None
  then have "name = H_METRICS" by (simp add: source_of_metrics)
  then show ?thesis using assms(1) None
    by (auto simp: authorize_command_def commanded_def ebind_Inr_iff check_authorization_Inr)
next
  case (Some a)
  show ?thesis
  proof (cases "http_queue_source (http_spec_of name)")
    case QS_PATH
    then show ?thesis using assms(1) Some
      by (auto simp: authorize_command_def commanded_def named_queues_def path_param_def ebind_Inr_iff check_authorization_Inr
          split: option.splits)
  next
    case QS_JOB_LOOKUP
    then show ?thesis using assms(1) Some
      by (auto simp: authorize_command_def commanded_def named_queues_def job_queue_def ebind_Inr_iff check_authorization_Inr
          split: option.splits)
  next
    case QS_WORKFLOW_LOOKUP
    then show ?thesis using assms(1) Some
      by (auto simp: authorize_command_def commanded_def named_queues_def ebind_Inr_iff granted_image
          dest!: authorize_workflow_Inr split: if_splits)
  next
    case QS_DECLARED_QUEUES
    then show ?thesis using assms(1) assms(3) Some
      by (auto simp: authorize_command_def commanded_def named_queues_def declared_queues_def ebind_Inr_iff check_queues_Inr granted_image)
  next
    case QS_QUERY
    then show ?thesis using assms(1) Some
      by (auto simp: authorize_command_def commanded_def named_queues_def ebind_Inr_iff check_authorization_Inr split: option.splits)
  qed (use assms Some in \<open>auto simp: authorize_command_def commanded_def named_queues_def ebind_Inr_iff check_authorization_Inr\<close>)
qed

lemma joined_queues_none:
  "name \<notin> {H_ENQUEUE, H_ENQUEUE_MANY, H_COMPLETE} \<Longrightarrow> joined_queues fa rq name = {}"
  by (auto simp: joined_queues_def split: option.splits wire_body.splits)

lemma checked_first_grants:
  assumes "checked_first fa rq name ctx kind False = Inr (body, queue)"
    and "http_queue_source (http_spec_of name) \<noteq> QS_SCHEDULE_LOOKUP"
    and "http_queue_source (http_spec_of name) \<noteq> QS_DECLARED_QUEUES"
  shows "granted fa kind rq ctx (commanded fa rq name)"
    and "body = body_of fa rq name" and "authorize_command fa rq name None ctx kind False = Inr queue"
proof -
  have a: "authorize_command fa rq name None ctx kind False = Inr queue" "read_body fa rq (http_spec_of name) = Inr body"
    using assms(1) by (auto simp: checked_first_def ebind_Inr_iff)
  then show "body = body_of fa rq name" "authorize_command fa rq name None ctx kind False = Inr queue"
    by (simp_all add: body_of_def)
  show "granted fa kind rq ctx (commanded fa rq name)"
    by (rule authorize_command_grants [OF a(1) assms(2)]) (use assms(3) in blast)
qed

lemma authorized_job_queue:
  assumes "authorize_command fa rq name None ctx kind False = Inr (Some q)"
    and "http_queue_source (http_spec_of name) = QS_JOB_LOOKUP" and "http_action (http_spec_of name) = Some a"
  shows "job_queue fa rq = Some q"
proof -
  have "ebind (path_uuid rq ''job_id'') (\<lambda>j. ebind (fa_job fa j) (\<lambda>p. case p of
      None \<Rightarrow> Inl (Raised (raise_code NOT_FOUND))
    | Some q \<Rightarrow> ebind (check_authorization fa kind rq ctx a (Some q) (fa_hide fa)) (\<lambda>_. Inr (Some q)))) = Inr (Some q)"
    using assms by (simp add: authorize_command_def)
  then obtain j p where j: "path_uuid rq ''job_id'' = Inr j" "fa_job fa j = Inr p"
      "(case p of None \<Rightarrow> Inl (Raised (raise_code NOT_FOUND))
        | Some q \<Rightarrow> ebind (check_authorization fa kind rq ctx a (Some q) (fa_hide fa)) (\<lambda>_. Inr (Some q))) = Inr (Some q)"
    by (elim ebind_InrE)
  have "p = Some q" using j(3) by (cases p) (auto elim: ebind_InrE)
  then show ?thesis using j(1,2) by (simp add: job_queue_def)
qed

lemma followup_queues_set:
  "set (followup_queues p fs) = {q. q \<noteq> p \<and> (\<exists>f \<in> set fs. fu_queue f = Some q)}"
  by (force simp: followup_queues_def List.map_filter_def)

lemma prepare_enqueue_grants:
  assumes "prepare_enqueue fa rq ctx kind False = Inr (body, queue)"
  shows "granted fa kind rq ctx (touched fa rq H_ENQUEUE)"
proof -
  obtain b q where c: "checked_first fa rq H_ENQUEUE ctx kind False = Inr (b, q)"
    using assms by (auto simp: prepare_enqueue_def ebind_Inr_iff)
  note g = checked_first_grants [OF c]
  have "fa_authorize fa kind rq ctx ACT_ENQUEUE (Some x) = Inr ()"
    if "b = Some (EnqueueBody (Some w) rest)" "x \<in> workflow_queues fa w" for w rest x
  proof -
    have "authorize_workflow fa kind rq ctx w (Some ACT_ENQUEUE) = Inr ()"
      using assms that(1) by (simp add: prepare_enqueue_def c source_of_enqueue ebind_Inr_iff)
    then show ?thesis using authorize_workflow_Inr that(2) by blast
  qed
  then have "granted fa kind rq ctx (joined_queues fa rq H_ENQUEUE)"
    using g(2) source_of_enqueue by (auto simp: joined_queues_def granted_image split: option.splits wire_body.splits)
  then show ?thesis using g(1) source_of_enqueue by (simp add: touched_def)
qed

lemma prepare_job_grants:
  assumes "prepare_job fa rq name ctx kind False = Inr (body, queue)"
    and "http_queue_source (http_spec_of name) = QS_JOB_LOOKUP" and "name \<noteq> H_ENQUEUE"
  shows "granted fa kind rq ctx (touched fa rq name)"
proof -
  have bulk: "name \<noteq> H_ENQUEUE_MANY" using assms(2) source_of_bulk by auto
  obtain b q where c: "checked_first fa rq name ctx kind False = Inr (b, q)"
    using assms by (auto simp: prepare_job_def ebind_Inr_iff)
  note g = checked_first_grants [OF c]
  obtain a where a: "http_action (http_spec_of name) = Some a"
    using assms(2) source_of_metrics [of name] source_of_deployment [of name]
    by (cases "http_action (http_spec_of name)") auto
  have "granted fa kind rq ctx (joined_queues fa rq name)"
  proof (cases "name = H_COMPLETE")
    case True
    then obtain p fs rest where b: "q = Some p" "b = Some (CompleteBody fs rest)"
        "check_queues fa kind rq ctx ACT_RUN False (followup_queues p (case fs of None \<Rightarrow> [] | Some xs \<Rightarrow> xs)) = Inr ()"
      using assms(1) c by (auto simp: prepare_job_def ebind_Inr_iff split: option.splits wire_body.splits)
    have "job_queue fa rq = Some p"
      using authorized_job_queue [of fa rq name ctx kind p a] g(3) b(1) assms(2) a by simp
    moreover have "fa_authorize fa kind rq ctx ACT_RUN (Some x) = Inr ()"
      if "fs = Some xs" "f \<in> set xs" "fu_queue f = Some x" "x \<noteq> p" for xs f x
    proof -
      have "x \<in> set (followup_queues p xs)" using that by (auto simp: followup_queues_set)
      then show ?thesis using b(3) that(1) by (simp add: check_queues_Inr)
    qed
    ultimately show ?thesis using b(2) g(2) assms(2) True
      by (auto simp: joined_queues_def granted_image split: option.splits)
  qed (use assms(3) bulk joined_queues_none [of name fa rq] in simp)
  then show ?thesis using g(1) assms(2) by (simp add: touched_def)
qed

lemma prepare_other_grants:
  assumes "prepare_other fa rq name ctx kind False = Inr (body, queue)"
    and "http_queue_source (http_spec_of name) \<noteq> QS_SCHEDULE_LOOKUP" and "name \<noteq> H_ENQUEUE" "name \<noteq> H_COMPLETE"
  shows "granted fa kind rq ctx (asked fa rq name)"
proof -
  obtain b q where a: "authorize_command fa rq name b ctx kind False = Inr q" "b = body_of fa rq name"
    using assms(1) by (auto simp: prepare_other_def body_of_def ebind_Inr_iff)
  show ?thesis
    using authorize_command_grants [OF a(1) assms(2) a(2)] joined_queues_none [of name fa rq] assms(3,4)
    by (auto simp: asked_def touched_def)
qed

lemma prepare_grants:
  assumes "prepare fa rq name ctx kind False = Inr (body, queue)" and "name \<notin> set schedule_commands"
  shows "granted fa kind rq ctx (asked fa rq name)"
proof -
  have n: "http_queue_source (http_spec_of name) \<noteq> QS_SCHEDULE_LOOKUP" using assms(2) by (simp add: source_of_schedules)
  consider (first) "name \<in> set admission_commands \<or> http_queue_source (http_spec_of name) = QS_WORKFLOW_LOOKUP"
    | (enqueue) "name = H_ENQUEUE"
    | (job) "http_queue_source (http_spec_of name) = QS_JOB_LOOKUP" "name \<noteq> H_ENQUEUE"
        "\<not> (name \<in> set admission_commands \<or> http_queue_source (http_spec_of name) = QS_WORKFLOW_LOOKUP)"
    | (other) "http_queue_source (http_spec_of name) \<noteq> QS_JOB_LOOKUP" "name \<noteq> H_ENQUEUE"
        "\<not> (name \<in> set admission_commands \<or> http_queue_source (http_spec_of name) = QS_WORKFLOW_LOOKUP)"
    by blast
  then show ?thesis
  proof cases
    case first
    then have c: "checked_first fa rq name ctx kind False = Inr (body, queue)" using assms(1) by (auto simp: prepare_def)
    have "http_queue_source (http_spec_of name) \<noteq> QS_DECLARED_QUEUES" "name \<notin> {H_ENQUEUE, H_ENQUEUE_MANY, H_COMPLETE}"
      using first source_of_admissions [of name] source_of_enqueue source_of_bulk source_of_complete
      by (auto simp: admission_commands_def)
    then show ?thesis
      using checked_first_grants(1) [OF c n] joined_queues_none [of name fa rq] by (simp add: asked_def touched_def)
  next
    case enqueue
    then have "prepare_enqueue fa rq ctx kind False = Inr (body, queue)"
      using assms(1) source_of_enqueue by (simp add: prepare_def admission_commands_def)
    then show ?thesis using prepare_enqueue_grants enqueue by (simp add: asked_def)
  next
    case job
    then have "prepare_job fa rq name ctx kind False = Inr (body, queue)" using assms(1) by (simp add: prepare_def)
    moreover have "name \<noteq> H_ENQUEUE_MANY" using job(1) source_of_bulk by auto
    ultimately show ?thesis using prepare_job_grants [OF _ job(1,2)] by (simp add: asked_def)
  next
    case other
    then have "prepare_other fa rq name ctx kind False = Inr (body, queue)" using assms(1) by (simp add: prepare_def)
    then show ?thesis by (rule prepare_other_grants [OF _ n other(2)]) (use other source_of_complete in auto)
  qed
qed

lemma prepare_schedule_grants:
  assumes "prepare_schedule fa (fa_schedules fa) rq name ctx kind = Inr c" and "name \<in> set schedule_commands"
  shows "granted fa kind rq ctx (touched fa rq name)"
proof -
  obtain n where n: "path_param rq ''name'' = Inr n" and ok: "schedule_name_ok n"
    using assms(1) unfolding prepare_schedule_def by (elim ebind_InrE) (auto split: if_split_asm)
  have at: "dget (rq_path rq) ''name'' = Some n" using n by (auto simp: path_param_def split: option.splits)
  obtain so where so: "fa_schedules fa = Some so"
    using assms(1) n ok unfolding prepare_schedule_def by (elim ebind_InrE) (auto split: option.split_asm)
  have "ebind (schedule_projection fa so rq name ctx kind n) (\<lambda>p. ebind (schedule_if_match rq) (\<lambda>v.
      ebind (read_body fa rq (http_spec_of name)) (schedule_choice fa rq name ctx kind n p v))) = Inr c"
    using assms(1) unfolding prepare_schedule_def by (elim ebind_InrE) (use n so ok in simp)
  then obtain p v b where s: "schedule_projection fa so rq name ctx kind n = Inr p" "read_body fa rq (http_spec_of name) = Inr b"
      "schedule_choice fa rq name ctx kind n p v b = Inr c"
    by (elim ebind_InrE)
  have now: "\<forall>q. so_projection so n = Inr (Some q) \<longrightarrow> p = Some q \<and> fa_authorize fa kind rq ctx ACT_CONTROL (Some q) = Inr ()"
    using s(1) by (auto simp: schedule_projection_def ebind_Inr_iff check_authorization_Inr)
  have kept: "p = Some q \<Longrightarrow> so_projection so n = Inr (Some q)" for q
    using s(1) by (auto simp: schedule_projection_def ebind_Inr_iff split: sum.splits option.splits if_splits)
  have new: "fa_authorize fa kind rq ctx ACT_CONTROL (Some (st_queue (sd_target d))) = Inr ()"
    if "b = Some (ScheduleBody d)" "name = H_PUT_SCHEDULE" for d
  proof (cases "p = Some (st_queue (sd_target d))")
    case True
    then show ?thesis using now kept by blast
  next
    case False
    have "prepare_put fa rq ctx kind n p v d = Inr c"
      using s(3) that by (simp add: schedule_choice_def schedule_target_def)
    then have "check_authorization fa kind rq ctx ACT_CONTROL (Some (st_queue (sd_target d))) False = Inr ()"
      using False by (auto simp: prepare_put_def elim: ebind_InrE split: if_split_asm)
    then show ?thesis by (simp add: check_authorization_Inr)
  qed
  have "joined_queues fa rq name = {}" "name \<noteq> H_ENQUEUE_MANY"
    using joined_queues_none [of name fa rq] assms(2) by (auto simp: schedule_commands_def)
  moreover have "named_queues fa rq name = Some ` schedule_queues fa rq name"
    using assms(2) source_of_schedules [of name] by (simp add: named_queues_def)
  moreover have "body_of fa rq name = b" using s(2) by (simp add: body_of_def)
  ultimately show ?thesis
    using at so now new action_of_schedules [OF assms(2)]
    by (auto simp: touched_def commanded_def schedule_queues_def granted_def
        split: sum.splits option.splits wire_body.splits if_splits)
qed

text \<open>An authorizer that knows one queue only.\<close>

definition deny_elsewhere :: "'s facade \<Rightarrow> string option \<Rightarrow> 's facade" where
  "deny_elsewhere fa q = fa\<lparr>fa_authorize := (\<lambda>kind rq ctx a q'.
     if q' = q then fa_authorize fa kind rq ctx a q' else Inl (HttpExc 403 None None None))\<rparr>"

lemma bulk_asks_one_queue:
  "handle (deny_elsewhere fa (dget (rq_path rq) ''queue'')) H_ENQUEUE_MANY rq s = handle fa H_ENQUEUE_MANY rq s"
proof -
  let ?fb = "deny_elsewhere fa (dget (rq_path rq) ''queue'')"
  have c: "check_authorization ?fb kind rq ctx a (dget (rq_path rq) ''queue'') hide =
      check_authorization fa kind rq ctx a (dget (rq_path rq) ''queue'') hide" for kind ctx a hide
    by (simp add: check_authorization_def deny_elsewhere_def)
  have "authorize_command ?fb rq H_ENQUEUE_MANY body ctx kind False =
      authorize_command fa rq H_ENQUEUE_MANY body ctx kind False" for body ctx kind
    using c by (cases "dget (rq_path rq) ''queue''") (simp_all add: authorize_command_def source_of_bulk path_param_def)
  moreover have "fa_parse ?fb = fa_parse fa" by (simp add: deny_elsewhere_def)
  then have "read_body ?fb rq spec = read_body fa rq spec" for spec by (simp only: read_body_def)
  ultimately have p: "prepare ?fb rq H_ENQUEUE_MANY ctx kind False = prepare fa rq H_ENQUEUE_MANY ctx kind False" for ctx kind
    by (simp add: prepare_def prepare_other_def admission_commands_def source_of_bulk)
  have e: "authorizer_of ?fb n = authorizer_of fa n" "authenticated ?fb kind n rq = authenticated fa kind n rq"
      "public_request ?fb H_ENQUEUE_MANY = False" "public_request fa H_ENQUEUE_MANY = False"
      "fa_execute ?fb = fa_execute fa" for n kind
    by (simp_all add: authorizer_of_def authenticated_def public_request_def deny_elsewhere_def)
  have n: "H_ENQUEUE_MANY \<notin> set schedule_commands" by (simp add: schedule_commands_def)
  show ?thesis by (simp only: handle_def e p n if_False)
qed

text \<open>
  C8: Nothing happens for a caller who is not authorized, but for the workflows a bulk joins: when a request changes
  the state of the transports or is answered with an outcome, its caller was authenticated, and authorized
  for the command's action on every queue the request touches: the queue it names, the queue of the job or
  schedule, every queue of the workflow it reads, seals, cancels or enqueues a job into, and every other queue a
  completion enqueues into.  Of a bulk enqueue only the queue it names is asked for: whatever workflows its
  items join, it is answered as it would be if the caller were denied every other queue.
\<close>

theorem effects_are_authorized:
  assumes "handle fa name rq s = (r, s')" and "s' \<noteq> s \<or> (\<exists>a. r = Inr a)" and "\<not> public_request fa name"
  shows "(\<exists>kind ctx. authorizer_of fa name = Inr kind \<and> fa_authenticate fa kind rq = Inr ctx \<and>
      granted fa kind rq ctx (if name = H_ENQUEUE_MANY then commanded fa rq name else touched fa rq name)) \<and>
    (name = H_ENQUEUE_MANY \<longrightarrow> handle (deny_elsewhere fa (dget (rq_path rq) ''queue'')) name rq s = (r, s'))"
proof -
  obtain kind where k: "authorizer_of fa name = Inr kind"
    using assms(1,2) by (auto simp: handle_def split: sum.splits)
  obtain ctx where a: "fa_authenticate fa kind rq = Inr ctx"
    using assms k by (auto simp: handle_def authenticated_def split: sum.splits)
  have "granted fa kind rq ctx (asked fa rq name)"
  proof (cases "name \<in> set schedule_commands")
    case True
    then obtain c where "prepare_schedule fa (fa_schedules fa) rq name ctx kind = Inr c"
      using assms k a by (auto simp: handle_def authenticated_def split: sum.splits)
    then have "granted fa kind rq ctx (touched fa rq name)" using prepare_schedule_grants True by blast
    then show ?thesis by (auto simp: asked_def touched_def)
  next
    case False
    then obtain body queue where "prepare fa rq name ctx kind False = Inr (body, queue)"
      using assms k a by (auto simp: handle_def authenticated_def split: sum.splits)
    then show ?thesis using prepare_grants False by blast
  qed
  then have "\<exists>kind ctx. authorizer_of fa name = Inr kind \<and> fa_authenticate fa kind rq = Inr ctx \<and>
      granted fa kind rq ctx (if name = H_ENQUEUE_MANY then commanded fa rq name else touched fa rq name)"
    using k a unfolding asked_def by blast
  then show ?thesis using assms(1) bulk_asks_one_queue [of fa rq s] by (intro conjI impI) simp_all
qed

section \<open>What the caller may not see\<close>

text \<open>
  C23: With \<open>not_found_on_forbidden\<close>, a job the caller may not act on is answered exactly like a job that does not
  exist, by every command on a job, whatever the body of the request.
\<close>

theorem forbidden_job_looks_missing:
  assumes "fa_hide fa" and "http_queue_source (http_spec_of name) = QS_JOB_LOOKUP"
    and "http_action (http_spec_of name) = Some a" and "path_uuid rq ''job_id'' = Inr j" and "fa_job fa j = Inr (Some q)"
    and "\<And>kind ctx. \<exists>reason retry denied. fa_authorize fa kind rq ctx a (Some q) = Inl (HttpExc 403 reason retry denied)"
  shows "handle fa name rq s = handle (fa\<lparr>fa_job := (fa_job fa)(j := Inr None)\<rparr>) name rq s"
proof -
  let ?fb = "fa\<lparr>fa_job := (fa_job fa)(j := Inr None)\<rparr>"
  have n: "name \<notin> set schedule_commands" "name \<notin> set admission_commands" "name \<noteq> H_ENQUEUE"
    using assms(2) source_of_schedules [of name] source_of_admissions [of name] source_of_enqueue by auto
  have h: "check_authorization fa kind rq ctx a (Some q) True = Inl (Raised (raise_code NOT_FOUND))" for kind ctx
    using assms(6) [of kind ctx] by (auto simp: check_authorization_def)
  have p: "public_request fa name = False" "public_request ?fb name = False"
    using assms(2) source_of_deployment [of name] by (auto simp: public_request_def)
  have c: "authorize_command fa rq name None ctx kind False = Inl (Raised (raise_code NOT_FOUND))"
      "authorize_command ?fb rq name None ctx kind False = Inl (Raised (raise_code NOT_FOUND))" for kind ctx
    using assms h by (simp_all add: authorize_command_def)
  have "prepare fa rq name ctx kind False = prepare ?fb rq name ctx kind False" for kind ctx
    using n assms(2) c by (simp add: prepare_def prepare_job_def checked_first_def) (cases "validate_query rq name"; simp)
  moreover have "authorizer_of ?fb name = authorizer_of fa name"
      "\<And>kind. authenticated ?fb kind name rq = authenticated fa kind name rq"
    using p by (simp_all add: authorizer_of_def authenticated_def)
  ultimately have e: "prepare ?fb rq name ctx kind False = prepare fa rq name ctx kind False"
      "authorizer_of ?fb name = authorizer_of fa name" "authenticated ?fb kind name rq = authenticated fa kind name rq"
      "fa_execute ?fb = fa_execute fa" for kind ctx
    by simp_all
  show ?thesis
  proof (cases "authorizer_of fa name")
    case (Inr kind)
    show ?thesis
    proof (cases "authenticated fa kind name rq")
      case a: (Inr ctx)
      show ?thesis using n by (simp only: handle_def e Inr a p if_False sum.case)
    qed (simp add: handle_def Inr e)
  qed (simp add: handle_def e)
qed

section \<open>The application\<close>

text \<open>The choices of \<open>create_taskq_app\<close>: the transports and authorizers it is given, and the surfaces that are on.\<close>

record app_config =
  ap_operator :: bool
  ap_operator_authorizer :: bool
  ap_operator_workflows :: bool
  ap_operator_schedules :: bool
  ap_poll_interval :: rat
  ap_admission :: bool
  ap_workflow :: bool
  ap_workflow_read :: bool
  ap_schedule :: bool
  ap_workflow_producer :: bool
  ap_workflow_authorization :: bool

definition app_config_check :: "app_config \<Rightarrow> exc + unit" where
  "app_config_check c =
     (if ap_operator c \<noteq> ap_operator_authorizer c
      then Inl (ConfigError ''operator_transport and operator_authorizer must be configured together'')
      else if ap_poll_interval c \<le> 0 \<or> 30 < ap_poll_interval c
      then Inl (ConfigError ''poll_interval must be greater than zero and at most 30 seconds'')
      else if ap_workflow c \<and> \<not> ap_workflow_producer c
      then Inl (ConfigError ''workflow_enabled requires workflow producer transport'')
      else if (ap_workflow c \<or> ap_workflow_read c) \<and> \<not> ap_workflow_authorization c
      then Inl (ConfigError ''workflow surfaces require workflow authorization transport'')
      else if ap_workflow c \<and> ap_operator c \<and> \<not> ap_operator_workflows c
      then Inl (ConfigError ''workflow-enabled operator transport must implement workflow cancellation'')
      else if ap_schedule c \<and> ap_operator c \<and> \<not> ap_operator_schedules c
      then Inl (ConfigError ''schedule-enabled operator transport must implement schedule operations'')
      else Inr ())"

definition mounted :: "app_config \<Rightarrow> http_command_name \<Rightarrow> bool" where
  "mounted c name \<longleftrightarrow>
     \<not> (name \<in> set admission_commands \<and> \<not> ap_admission c) \<and>
     \<not> (name \<in> {H_CREATE_WORKFLOW, H_SEAL_WORKFLOW, H_CANCEL_WORKFLOW} \<and> \<not> ap_workflow c) \<and>
     \<not> (name \<in> {H_GET_WORKFLOW_PAGE, H_LIST_WORKFLOWS} \<and> \<not> ap_workflow_read c) \<and>
     \<not> (name \<in> insert H_LIST_SCHEDULES (set schedule_commands) \<and> \<not> ap_schedule c) \<and>
     \<not> (operator_command name \<and> \<not> ap_operator c)"

text \<open>The dispatcher an application builds has what its mounted commands need.\<close>

definition dispatcher_of :: "app_config \<Rightarrow> 's facade \<Rightarrow> bool" where
  "dispatcher_of c fa \<longleftrightarrow> fa_operator fa = ap_operator_authorizer c \<and>
     (fa_workflow fa \<noteq> None \<longleftrightarrow> ap_workflow_authorization c) \<and>
     (fa_schedules fa \<noteq> None \<longleftrightarrow> ap_operator c \<and> ap_operator_schedules c)"

definition workflow_names :: "http_command_name list" where
  "workflow_names = [H_SEAL_WORKFLOW, H_CANCEL_WORKFLOW, H_GET_WORKFLOW_PAGE]"

lemma workflow_lookup_rows:
  "list_all (\<lambda>(h, s). (http_queue_source s = QS_WORKFLOW_LOOKUP) = (h \<in> set workflow_names)) http_command_specs"
  unfolding http_command_specs_def http_admission_specs_def http_workflow_specs_def
    http_runner_specs_def http_read_specs_def http_operator_specs_def
  by (simp only: list_all_append list.pred_inject prod.case mk_http_row) (simp add: workflow_names_def)

lemma workflow_lookup_commands: "http_queue_source (http_spec_of name) = QS_WORKFLOW_LOOKUP \<longleftrightarrow> name \<in> set workflow_names"
  by (rule http_specs_all [OF workflow_lookup_rows])

lemma schedule_operator_command: "name \<in> set schedule_commands \<Longrightarrow> operator_command name"
  by (auto simp: schedule_commands_def operator_command_def operator_commands_def http_spec_of_def http_table_defs)

text \<open>No mounted command meets an authorizer, a lookup or an operator that the application lacks.\<close>

lemma mounted_is_served:
  assumes "app_config_check c = Inr ()" and "mounted c name" and "dispatcher_of c fa"
  shows "\<exists>kind. authorizer_of fa name = Inr kind" and
    "http_queue_source (http_spec_of name) = QS_WORKFLOW_LOOKUP \<Longrightarrow> fa_workflow fa \<noteq> None" and
    "name \<in> set schedule_commands \<Longrightarrow> fa_schedules fa \<noteq> None"
proof -
  have c: "ap_operator c = ap_operator_authorizer c" "(ap_workflow c \<or> ap_workflow_read c) \<longrightarrow> ap_workflow_authorization c"
      "ap_schedule c \<and> ap_operator c \<longrightarrow> ap_operator_schedules c"
    using assms(1) by (auto simp: app_config_check_def split: if_splits)
  show "\<exists>kind. authorizer_of fa name = Inr kind"
    using assms c by (auto simp: authorizer_of_def mounted_def dispatcher_of_def)
  show "fa_workflow fa \<noteq> None" if "http_queue_source (http_spec_of name) = QS_WORKFLOW_LOOKUP"
    using that assms c by (auto simp: workflow_lookup_commands workflow_names_def mounted_def dispatcher_of_def)
  show "fa_schedules fa \<noteq> None" if "name \<in> set schedule_commands"
    using that assms c schedule_operator_command by (auto simp: mounted_def dispatcher_of_def)
qed

section \<open>An example\<close>

text \<open>A completion of the job \<open>1\<close> of the queue \<open>q\<close> that enqueues into \<open>r\<close>; the state counts the calls.\<close>

definition sample_followup :: followup where
  "sample_followup = \<lparr>fu_step = ''s'', fu_job_type = ''t'', fu_queue = Some ''r'', fu_payload = [], fu_headers = [],
     fu_priority = None, fu_max_attempts = None, fu_lease_seconds = None, fu_scheduled_at = None, fu_workflow_member = False\<rparr>"

definition sample_facade :: "bool \<Rightarrow> nat facade" where
  "sample_facade allow = \<lparr>fa_authenticate = (\<lambda>_ _. Inr \<lparr>ac_actor = ''a'', ac_principal = ''p''\<rparr>),
     fa_authorize = (\<lambda>_ _ _ _ _. if allow then Inr () else Inl (HttpExc 403 None None None)),
     fa_operator = False, fa_hide = True, fa_meta_public = False, fa_job = (\<lambda>_. Inr (Some ''q'')), fa_workflow = None,
     fa_parse = (\<lambda>_ d. Some (CompleteBody (Some [sample_followup]) d)), fa_schedules = None,
     fa_execute = (\<lambda>_ _ _ _ _ n. (Inr \<lparr>an_outcome = ''ok'', an_data = [], an_schedule_version = None\<rparr>, Suc n))\<rparr>"

definition sample_request :: request where
  "sample_request = \<lparr>rq_method = M_POST, rq_path = [(''job_id'', ''00000000-0000-0000-0000-000000000001'')], rq_query = [],
     rq_protocol = Some ''1'', rq_request_id = None, rq_if_match = None, rq_body_length = 0, rq_json = None\<rparr>"

lemma sample_uuid: "path_uuid sample_request ''job_id'' = Inr 1"
proof -
  have "py_uuid ''00000000-0000-0000-0000-000000000001'' = Some 1" by code_simp
  then show ?thesis by (simp add: path_uuid_def sample_request_def)
qed

lemma complete_row:
  "http_action (http_spec_of H_COMPLETE) = Some ACT_RUN" "http_request_model (http_spec_of H_COMPLETE) \<noteq> None"
  "http_surface (http_spec_of H_COMPLETE) = SURFACE_ACTIVE"
  "dget (http_outcomes (http_spec_of H_COMPLETE)) ''ok'' = Some 200"
  "operator_command H_COMPLETE = False"
  by (simp_all add: http_spec_of_def http_table_defs operator_command_def operator_commands_def)

lemma sample_body:
  "read_body (sample_facade allow) sample_request (http_spec_of H_COMPLETE) = Inr (Some (CompleteBody (Some [sample_followup]) []))"
  using complete_row(2) by (auto simp: read_body_def sample_request_def sample_facade_def max_body_bytes_def)

theorem effects_are_authorized_witness:
  "snd (handle (sample_facade True) H_COMPLETE sample_request 0) = 1 \<and>
   granted (sample_facade True) AUTH_MAIN sample_request \<lparr>ac_actor = ''a'', ac_principal = ''p''\<rparr>
     (touched (sample_facade True) sample_request H_COMPLETE) \<and>
   {(ACT_RUN, Some ''q''), (ACT_RUN, Some ''r'')} \<subseteq> touched (sample_facade True) sample_request H_COMPLETE"
proof -
  let ?fa = "sample_facade True" and ?ctx = "\<lparr>ac_actor = ''a'', ac_principal = ''p''\<rparr>"
  have kind: "authorizer_of ?fa H_COMPLETE = Inr AUTH_MAIN" by (simp add: authorizer_of_def complete_row)
  have auth: "authenticated ?fa AUTH_MAIN H_COMPLETE sample_request = Inr ?ctx" "\<not> public_request ?fa H_COMPLETE"
    by (simp_all add: authenticated_def public_request_def sample_facade_def)
  have q: "validate_query sample_request H_COMPLETE = Inr ()" "validate_headers sample_request = Inr ()"
    by (simp_all add: validate_query_def validate_headers_def invalid_request_id_def sample_request_def)
  have c: "authorize_command ?fa sample_request H_COMPLETE None ?ctx AUTH_MAIN False = Inr (Some ''q'')"
    by (simp add: authorize_command_def complete_row source_of_complete sample_uuid check_authorization_def)
      (simp add: sample_facade_def)
  have f: "check_queues ?fa AUTH_MAIN sample_request ?ctx ACT_RUN False (followup_queues ''q'' [sample_followup]) = Inr ()"
    by (simp add: check_queues_Inr) (simp add: sample_facade_def)
  have "prepare_job ?fa sample_request H_COMPLETE ?ctx AUTH_MAIN False =
      Inr (Some (CompleteBody (Some [sample_followup]) []), Some ''q'')"
    using f by (simp add: prepare_job_def checked_first_def q c sample_body active_surface_def complete_row)
  then have p: "prepare ?fa sample_request H_COMPLETE ?ctx AUTH_MAIN False =
      Inr (Some (CompleteBody (Some [sample_followup]) []), Some ''q'')"
    by (simp add: prepare_def source_of_complete admission_commands_def)
  have x: "fa_execute ?fa name ctx rq b qq n = (Inr \<lparr>an_outcome = ''ok'', an_data = [], an_schedule_version = None\<rparr>, Suc n)"
    for name ctx rq b qq n by (simp add: sample_facade_def)
  have a: "registered_answer H_COMPLETE \<lparr>an_outcome = ''ok'', an_data = [], an_schedule_version = None\<rparr> =
      Inr \<lparr>an_outcome = ''ok'', an_data = [], an_schedule_version = None\<rparr>"
    by (simp add: registered_answer_def complete_row)
  have h: "handle ?fa H_COMPLETE sample_request 0 = (Inr \<lparr>an_outcome = ''ok'', an_data = [], an_schedule_version = None\<rparr>, 1)"
    using kind auth p x a by (simp add: handle_def schedule_commands_def)
  have "granted ?fa AUTH_MAIN sample_request ?ctx (touched ?fa sample_request H_COMPLETE)"
    using effects_are_authorized [OF h _ auth(2)] kind by (auto simp: sample_facade_def)
  moreover have "job_queue ?fa sample_request = Some ''q''"
    by (simp add: job_queue_def sample_uuid) (simp add: sample_facade_def)
  ultimately show ?thesis using h
    by (auto simp: touched_def commanded_def complete_row named_queues_def source_of_complete joined_queues_def body_of_def sample_body
        sample_followup_def)
qed

theorem forbidden_job_looks_missing_witness:
  "handle (sample_facade False) H_COMPLETE sample_request 0 =
   handle ((sample_facade False)\<lparr>fa_job := (fa_job (sample_facade False))(1 := Inr None)\<rparr>) H_COMPLETE sample_request 0"
  by (rule forbidden_job_looks_missing [OF _ source_of_complete complete_row(1) sample_uuid])
    (simp_all add: sample_facade_def)

end
