(* ===== verification/FacadeWire.thy ===== *)
theory FacadeWire
  imports FacadeProps
begin

text \<open>
  The answers of \<open>http/facade.py\<close> on the wire, \<open>_command_response\<close>, \<open>_error_response\<close> and the exception
  handlers of \<open>create_taskq_app\<close>, and their agreement with the client of \<open>http/client.py\<close>: what the service
  answers is what the client reads.
\<close>

section \<open>Details of an error\<close>

definition blocked_details :: "string list" where
  "blocked_details = [''attempt_id'', ''fence'', ''payload'', ''headers'', ''progress'', ''result'', ''sql'']"

fun scalar :: "json \<Rightarrow> bool" where
  "scalar (JArr xs) = False"
| "scalar (JObj d) = False"
| "scalar j = True"

fun rendered :: "json \<Rightarrow> json" where
  "rendered (JStr s) = JStr (take 256 s)"
| "rendered j = j"

text \<open>\<open>_safe_details\<close>: scalars only, bounded, at most sixteen.\<close>

fun detail_scan :: "jobj \<Rightarrow> jobj \<Rightarrow> jobj" where
  "detail_scan found [] = found"
| "detail_scan found ((k, v) # d) =
     (if map char_lower k \<in> set blocked_details then detail_scan found d
      else let found = (if scalar v then dset (take 64 k) (rendered v) found else found) in
        if 16 \<le> length found then found else detail_scan found d)"

definition wire_details :: "jobj \<Rightarrow> jobj" where
  "wire_details d = detail_scan [] d"

section \<open>Answers\<close>

fun wire_code_value :: "wire_code \<Rightarrow> string" where
  "wire_code_value (WireCode c) = code_value c"
| "wire_code_value Auth401 = ''AUTH401''"
| "wire_code_value Auth403 = ''AUTH403''"

fun wire_retryable :: "wire_code \<Rightarrow> bool" where
  "wire_retryable (WireCode c) = spec_retryable (error_registry c)"
| "wire_retryable c = False"

definition error_json :: "string \<Rightarrow> protocol_error \<Rightarrow> json" where
  "error_json rid e = JObj [(''protocol_version'', JInt 1), (''request_id'', JStr rid),
     (''error'', JObj [(''code'', JStr (wire_code_value (pe_code e))), (''message'', JStr (pe_message e)),
        (''retryable'', JBool (pe_retryable e)), (''details'', JObj (pe_details e))])]"

definition command_json :: "string \<Rightarrow> string \<Rightarrow> jobj \<Rightarrow> json" where
  "command_json rid outcome d = JObj [(''protocol_version'', JInt 1), (''request_id'', JStr rid),
     (''outcome'', JStr outcome), (''data'', JObj d)]"

text \<open>\<open>_error_response\<close>, with the two headers that the middleware \<open>protocol_boundary\<close> adds to every answer.\<close>

definition error_response :: "string \<Rightarrow> wire_code \<Rightarrow> int \<Rightarrow> jobj \<Rightarrow> string \<Rightarrow> string option \<Rightarrow> response" where
  "error_response rid code status details message retry =
     \<lparr>rsp_status = status, rsp_protocol = Some ''1'', rsp_request_id = Some rid, rsp_etag = None, rsp_retry_after = retry,
      rsp_body = Some (error_json rid \<lparr>pe_code = code, pe_message = take 200 message, pe_retryable = wire_retryable code,
        pe_details = wire_details details\<rparr>)\<rparr>"

definition command_response :: "string \<Rightarrow> http_command_spec \<Rightarrow> facade_answer \<Rightarrow> response" where
  "command_response rid spec a =
     \<lparr>rsp_status = int (the (dget (http_outcomes spec) (an_outcome a))), rsp_protocol = Some ''1'', rsp_request_id = Some rid,
      rsp_etag = map_option schedule_etag (an_schedule_version a), rsp_retry_after = None,
      rsp_body = Some (command_json rid (an_outcome a) (an_data a))\<rparr>"

text \<open>The exception handlers: \<open>taskq_error\<close>, \<open>http_error\<close> and \<open>unknown_error\<close>.\<close>

definition dependency_response :: "string \<Rightarrow> tq_code \<Rightarrow> int \<Rightarrow> string \<Rightarrow> string option \<Rightarrow> string option \<Rightarrow> response" where
  "dependency_response rid code status message reason retry =
     error_response rid (WireCode code) status
       [(''reason'', JStr (case reason of None \<Rightarrow> ''auth_dependency_failure''
          | Some r \<Rightarrow> if r = [] then ''auth_dependency_failure'' else r))]
       message (if retry = Some [] then None else retry)"

fun failure_response :: "string \<Rightarrow> facade_error \<Rightarrow> response" where
  "failure_response rid (Raised (TaskqError e)) =
     error_response rid (WireCode (err_code e)) (int (http_status (error_registry (err_code e)))) (err_details e)
       (category (error_registry (err_code e))) None"
| "failure_response rid (Raised e) = error_response rid (WireCode INTERNAL) 500 [] ''internal taskq failure'' None"
| "failure_response rid (HttpExc status reason retry denied) =
     (if status = 401 then error_response rid Auth401 401 [] ''authentication failed'' None
      else if status = 403
      then error_response rid Auth403 403 (case denied of None \<Rightarrow> [] | Some q \<Rightarrow> [(''queue'', JStr q)]) ''authorization failed'' None
      else if status = 429 then dependency_response rid BACKPRESSURE 429 ''authorization rate limited'' reason retry
      else if status = 503 then dependency_response rid UNAVAILABLE 503 ''authorization dependency unavailable'' reason retry
      else error_response rid (WireCode VALIDATION) 422 [] ''request failed'' None)"

definition served :: "string \<Rightarrow> http_command_name \<Rightarrow> facade_error + facade_answer \<Rightarrow> response" where
  "served rid name r = (case r of
      Inl e \<Rightarrow> failure_response rid e
    | Inr a \<Rightarrow> command_response rid (http_spec_of name) a)"

section \<open>The client reads what the service answers\<close>

text \<open>What pydantic makes of the two envelopes, as the models of \<open>protocol.py\<close> declare them.\<close>

definition envelopes_parse :: "wire_models \<Rightarrow> bool" where
  "envelopes_parse wm \<longleftrightarrow>
     (\<forall>rid outcome d. parse_command_envelope wm (command_json rid outcome d) =
        Some \<lparr>ce_request_id = rid, ce_outcome = outcome, ce_data = d\<rparr>) \<and>
     (\<forall>rid e. parse_error_envelope wm (error_json rid e) = Some \<lparr>ee_request_id = rid, ee_error = e\<rparr>)"

text \<open>The error a client raises for a failure of the service.\<close>

definition hint_of :: "wire_models \<Rightarrow> string option \<Rightarrow> pyfloat option" where
  "hint_of wm retry = retry_after_hint wm (error_response [] Auth401 0 [] [] (if retry = Some [] then None else retry))"

fun client_error :: "wire_models \<Rightarrow> facade_error \<Rightarrow> exc" where
  "client_error wm (Raised (TaskqError e)) = TaskqError (taskq_error_init (err_code e) (wire_details (err_details e)) None)"
| "client_error wm (Raised e) = raise_code INTERNAL"
| "client_error wm (HttpExc status reason retry denied) =
     (if status = 401 then PyException ''TaskqAuthenticationError''
      else if status = 403 then PyException ''TaskqAuthorizationError''
      else if status = 429 \<or> status = 503
      then TaskqError (taskq_error_init (if status = 429 then BACKPRESSURE else UNAVAILABLE)
        (wire_details [(''reason'', JStr (case reason of None \<Rightarrow> ''auth_dependency_failure''
          | Some r \<Rightarrow> if r = [] then ''auth_dependency_failure'' else r))]) (hint_of wm retry))
      else raise_code VALIDATION)"

lemma status_is_error: "400 \<le> int (http_status (error_registry c))"
  by (cases c) simp_all

lemma retry_after_same:
  "rsp_retry_after a = rsp_retry_after b \<Longrightarrow> retry_after_hint wm a = retry_after_hint wm b"
  by (simp add: retry_after_hint_def retry_after_seconds_def)

lemma retry_after_none: "rsp_retry_after a = None \<Longrightarrow> retry_after_hint wm a = None"
  by (simp add: retry_after_hint_def retry_after_seconds_def)

lemma error_in_json: "error_in (error_json rid e) = Inr True" "error_in (command_json rid outcome d) = Inr False"
  by (simp_all add: error_json_def command_json_def)

lemma decode_error_response:
  assumes "envelopes_parse wm" and "400 \<le> status"
  shows "decode_envelope wm (error_response rid code status details message retry) spec rid =
    Inl (answered_error wm (error_response rid code status details message retry)
      \<lparr>ee_request_id = rid, ee_error = \<lparr>pe_code = code, pe_message = take 200 message,
         pe_retryable = wire_retryable code, pe_details = wire_details details\<rparr>\<rparr> rid)"
  using assms by (simp add: decode_envelope_def error_response_def envelopes_parse_def error_in_json)

lemma decode_code_response:
  assumes "envelopes_parse wm" and "status = int (http_status (error_registry c))"
  shows "decode_envelope wm (error_response rid (WireCode c) status details message retry) spec rid =
    Inl (TaskqError (taskq_error_init c (wire_details details) (retry_after_hint wm (error_response rid (WireCode c) status details message retry))))"
  using status_is_error [of c] assms(2)
  by (simp add: decode_error_response [OF assms(1)] answered_error_def) (simp add: error_response_def)

lemma decode_failure:
  assumes "envelopes_parse wm"
  shows "decode_envelope wm (failure_response rid e) spec rid = Inl (client_error wm e)"
proof -
  have n: "retry_after_hint wm (error_response rid c st d m None) = None" for c st d m
    by (simp add: retry_after_none error_response_def)
  have h: "retry_after_hint wm (error_response rid c st d m (if r = Some [] then None else r)) = hint_of wm r" for c st d m r
    unfolding hint_of_def by (rule retry_after_same) (simp add: error_response_def)
  have auth: "decode_envelope wm (error_response rid Auth401 401 d m None) spec rid = Inl (PyException ''TaskqAuthenticationError'')"
      "decode_envelope wm (error_response rid Auth403 403 d m None) spec rid = Inl (PyException ''TaskqAuthorizationError'')" for d m
    by (simp_all add: decode_error_response [OF assms] answered_error_def) (simp_all add: error_response_def)
  have dep: "decode_envelope wm (dependency_response rid c st m reason retry) spec rid =
      Inl (TaskqError (taskq_error_init c (wire_details [(''reason'', JStr (case reason of None \<Rightarrow> ''auth_dependency_failure''
          | Some r \<Rightarrow> if r = [] then ''auth_dependency_failure'' else r))]) (hint_of wm retry)))"
    if "st = int (http_status (error_registry c))" for c st m reason retry
    unfolding dependency_response_def decode_code_response [OF assms that] h by (rule refl)
  have none: "wire_details [] = []" by (simp add: wire_details_def)
  show ?thesis
  proof (cases e)
    case (Raised x)
    then show ?thesis by (cases x) (simp_all add: decode_code_response [OF assms] n none)
  next
    case (HttpExc status reason retry denied)
    then show ?thesis by (auto simp: auth dep decode_code_response [OF assms] n none)
  qed
qed

lemma mk_http_sql: "http_sql_command (mk_http m p a qs outs rc sql req dat env) = sql"
  by (simp add: mk_http_def)

lemma schedule_rows: "list_all (\<lambda>(h, s). schedule_command s = (h \<in> set schedule_commands)) http_command_specs"
  unfolding http_command_specs_def http_admission_specs_def http_workflow_specs_def
    http_runner_specs_def http_read_specs_def http_operator_specs_def schedule_command_def
  by (simp only: list_all_append list.pred_inject prod.case mk_http_sql) (simp add: schedule_commands_def)

lemma handle_schedule_answer:
  assumes "fst (handle fa name rq s) = Inr a" and "name \<in> set schedule_commands"
  shows "\<exists>v. an_schedule_version a = Some v \<and> dget (an_data a) ''version'' = Some (JInt v)"
proof -
  obtain r where "ebind (map_sum id schedule_answer r) (registered_answer name) = Inr a"
    using assms by (auto simp: handle_def split: sum.splits prod.splits)
  then obtain x where "registered_answer name (schedule_answer x) = Inr a" by (cases r) auto
  then have "a = schedule_answer x" by (simp add: registered_answer_def split: if_splits)
  then show ?thesis by (simp add: schedule_answer_def schedule_wire_def)
qed

lemma handle_registered:
  assumes "fst (handle fa name rq s) = Inr a" and "http_enveloped (http_spec_of name)"
  shows "dget (http_outcomes (http_spec_of name)) (an_outcome a) \<noteq> None"
proof -
  obtain r where "ebind r (registered_answer name) = Inr a"
    using assms by (auto simp: handle_def split: sum.splits prod.splits if_splits)
  then show ?thesis using assms(2) by (auto simp: registered_answer_def elim!: ebind_InrE split: if_splits)
qed

text \<open>
  C9: What the service answers is what the client reads: the client accepts every answer of the facade to its
  request, with the outcome and the data the handler gave, entity tags included, and turns every
  failure into the error of the same code with the details that may leave the service; no failure is
  mistaken for an outcome, or an outcome for a violation of the protocol.
\<close>

theorem client_reads_the_answer:
  assumes "envelopes_parse wm" and "http_enveloped (http_spec_of name)"
  shows "decode_envelope wm (served rid name (fst (handle fa name rq s))) (http_spec_of name) rid =
    (case fst (handle fa name rq s) of
       Inr a \<Rightarrow> Inr (an_outcome a, an_data a, rid)
     | Inl e \<Rightarrow> Inl (client_error wm e))"
proof (cases "fst (handle fa name rq s)")
  case (Inl e)
  then show ?thesis by (simp add: served_def decode_failure [OF assms(1)])
next
  case (Inr a)
  obtain status where st: "dget (http_outcomes (http_spec_of name)) (an_outcome a) = Some status"
    using handle_registered [OF Inr assms(2)] by blast
  have sched: "schedule_command (http_spec_of name) \<longleftrightarrow> name \<in> set schedule_commands" by (rule http_specs_all [OF schedule_rows])
  have "schedule_command (http_spec_of name) \<Longrightarrow> etag_matches (command_response rid (http_spec_of name) a) (an_data a)"
    using handle_schedule_answer [OF Inr] sched by (auto simp: etag_matches_def command_response_def schedule_etag_def)
  then have "answered_command (command_response rid (http_spec_of name) a) (http_spec_of name)
      \<lparr>ce_request_id = rid, ce_outcome = an_outcome a, ce_data = an_data a\<rparr> rid = Inr (an_outcome a, an_data a, rid)"
    using st by (simp add: answered_command_def) (simp add: command_response_def)
  moreover have "decode_envelope wm (command_response rid (http_spec_of name) a) (http_spec_of name) rid =
      answered_command (command_response rid (http_spec_of name) a) (http_spec_of name)
        \<lparr>ce_request_id = rid, ce_outcome = an_outcome a, ce_data = an_data a\<rparr> rid"
    using assms(1) by (simp add: decode_envelope_def envelopes_parse_def error_in_json command_response_def)
  ultimately show ?thesis using Inr by (simp add: served_def)
qed

text \<open>A parser of the two envelopes, and the answer to the completion of the example.\<close>

definition code_of_wire :: "string \<Rightarrow> wire_code option" where
  "code_of_wire s = (if s = ''AUTH401'' then Some Auth401 else if s = ''AUTH403'' then Some Auth403
     else map_option WireCode (code_of_value s))"

definition envelope_models :: wire_models where
  "envelope_models = \<lparr>parse_float = (\<lambda>_. None),
     parse_error_envelope = (\<lambda>j. case j of
        JObj [(_, JInt v), (_, JStr rid), (_, JObj [(_, JStr c), (_, JStr m), (_, JBool b), (_, JObj d)])] \<Rightarrow>
          map_option (\<lambda>c. \<lparr>ee_request_id = rid, ee_error = \<lparr>pe_code = c, pe_message = m, pe_retryable = b, pe_details = d\<rparr>\<rparr>)
            (code_of_wire c)
      | _ \<Rightarrow> None),
     parse_command_envelope = (\<lambda>j. case j of
        JObj [(_, JInt v), (_, JStr rid), (_, JStr oc), (_, JObj d)] \<Rightarrow> Some \<lparr>ce_request_id = rid, ce_outcome = oc, ce_data = d\<rparr>
      | _ \<Rightarrow> None),
     validate_request = (\<lambda>m d. Inr d)\<rparr>"

lemma code_of_wire_value: "code_of_wire (wire_code_value c) = Some c"
proof (cases c)
  case (WireCode x)
  have "code_of_value (code_value x) = Some x" by (simp add: code_of_value_Some)
  moreover have "code_value x \<noteq> ''AUTH401''" "code_value x \<noteq> ''AUTH403''" by (cases x; simp)+
  ultimately show ?thesis using WireCode by (simp add: code_of_wire_def)
qed (simp_all add: code_of_wire_def)

lemma envelope_models_parse: "envelopes_parse envelope_models"
  by (simp add: envelopes_parse_def envelope_models_def command_json_def error_json_def code_of_wire_value)

theorem client_reads_the_answer_witness:
  "decode_envelope envelope_models (served ''r'' H_COMPLETE (fst (handle (sample_facade False) H_COMPLETE sample_request 0)))
     (http_spec_of H_COMPLETE) ''r'' =
   (case fst (handle (sample_facade False) H_COMPLETE sample_request 0) of
      Inr a \<Rightarrow> Inr (an_outcome a, an_data a, ''r'')
    | Inl e \<Rightarrow> Inl (client_error envelope_models e))"
  by (rule client_reads_the_answer [OF envelope_models_parse]) (simp add: http_spec_of_def http_table_defs)

end
