(* ===== verification/ClaimHub.thy ===== *)
theory ClaimHub
  imports Protocol
begin

text \<open>
  \<open>http/hub.py\<close>: the hub on which long-polling claims wait.  A waiter reads the generation of its queue,
  claims, and subscribes with what it read; a notification in between must not be missed.  An event is
  its number; \<open>fired\<close> are the events that are set.  Every operation holds the lock, so it is one step.
\<close>

record hub =
  hub_generation :: nat
  hub_queues :: "(string, nat) dict"
  hub_closed :: bool
  hub_subscribers :: "(nat \<times> string option) list"
  hub_fired :: "nat set"
  hub_next :: nat

definition new_hub :: hub where
  "new_hub = \<lparr>hub_generation = 0, hub_queues = [], hub_closed = False, hub_subscribers = [], hub_fired = {}, hub_next = 0\<rparr>"

definition queue_generation :: "hub \<Rightarrow> string \<Rightarrow> nat" where
  "queue_generation h q = (case dget (hub_queues h) q of None \<Rightarrow> 0 | Some n \<Rightarrow> n)"

definition hub_stopped :: exc where
  "hub_stopped = raise_reason UNAVAILABLE ''claim_wait_hub_stopped''"

text \<open>\<open>prepare_queue\<close>, with what the registrar does when there is one.\<close>

definition prepare_queue :: "hub \<Rightarrow> (exc + unit) option \<Rightarrow> exc + unit" where
  "prepare_queue h registrar = (if hub_closed h then Inl hub_stopped
     else case registrar of None \<Rightarrow> Inr () | Some r \<Rightarrow> r)"

definition current_generation :: "hub \<Rightarrow> string option \<Rightarrow> nat" where
  "current_generation h queue = (case queue of None \<Rightarrow> hub_generation h | Some q \<Rightarrow> queue_generation h q)"

definition subscribe :: "nat \<Rightarrow> string option \<Rightarrow> hub \<Rightarrow> (exc + nat) \<times> hub" where
  "subscribe observed queue h = (if hub_closed h then (Inl hub_stopped, h) else
     let e = hub_next h in
     (Inr e, h\<lparr>hub_subscribers := hub_subscribers h @ [(e, queue)], hub_next := Suc e,
        hub_fired := (if observed \<noteq> current_generation h queue then insert e (hub_fired h) else hub_fired h)\<rparr>))"

definition bump_all :: "(string, nat) dict \<Rightarrow> (string, nat) dict" where
  "bump_all = map (\<lambda>(q, n). (q, Suc n))"

definition waiters :: "hub \<Rightarrow> string option \<Rightarrow> nat set" where
  "waiters h queue = {e. \<exists>w. (e, w) \<in> set (hub_subscribers h) \<and> (queue = None \<or> w = queue \<or> w = None)}"

definition notify :: "string option \<Rightarrow> hub \<Rightarrow> hub" where
  "notify queue h = (if hub_closed h then h else
     h\<lparr>hub_generation := Suc (hub_generation h),
       hub_queues := (case queue of
           None \<Rightarrow> bump_all (hub_queues h)
         | Some q \<Rightarrow> dset q (Suc (queue_generation h q)) (hub_queues h)),
       hub_fired := hub_fired h \<union> waiters h queue\<rparr>)"

definition shutdown :: "hub \<Rightarrow> hub" where
  "shutdown h = (if hub_closed h then h else
     h\<lparr>hub_closed := True, hub_generation := Suc (hub_generation h), hub_queues := bump_all (hub_queues h),
       hub_fired := hub_fired h \<union> waiters h None\<rparr>)"

text \<open>\<open>aclose\<close> of a subscription: its event is discarded from its bucket.\<close>

definition unsubscribe :: "nat \<Rightarrow> string option \<Rightarrow> hub \<Rightarrow> hub" where
  "unsubscribe e queue h = h\<lparr>hub_subscribers := filter (\<lambda>x. x \<noteq> (e, queue)) (hub_subscribers h)\<rparr>"

text \<open>\<open>wait\<close>, for an open subscription: what it answers when nobody notifies before the timeout.\<close>

definition wait_now :: "nat \<Rightarrow> hub \<Rightarrow> bool" where
  "wait_now e h \<longleftrightarrow> e \<in> hub_fired h"

section \<open>No wake-up is lost\<close>

datatype hub_call = Subscribe nat "string option" | Notify "string option" | Shutdown | Unsubscribe nat "string option"

fun hub_step :: "hub_call \<Rightarrow> hub \<Rightarrow> hub" where
  "hub_step (Subscribe g q) h = snd (subscribe g q h)"
| "hub_step (Notify q) h = notify q h"
| "hub_step Shutdown h = shutdown h"
| "hub_step (Unsubscribe e q) h = unsubscribe e q h"

definition hub_run :: "hub_call list \<Rightarrow> hub \<Rightarrow> hub" where
  "hub_run calls h = fold hub_step calls h"

text \<open>The calls that should wake a waiter for the queue.\<close>

definition wakes :: "string \<Rightarrow> hub_call \<Rightarrow> bool" where
  "wakes q c \<longleftrightarrow> c \<in> {Notify (Some q), Notify None, Shutdown}"

lemma dget_bump_all: "dget (bump_all d) q = map_option Suc (dget d q)"
  by (induction d) (auto simp: bump_all_def)

lemma queue_generation_step:
  "queue_generation h q \<le> queue_generation (hub_step c h) q"
  by (cases c) (auto simp: subscribe_def notify_def shutdown_def unsubscribe_def queue_generation_def dget_bump_all Let_def
      split: option.splits)

lemma queue_generation_run: "queue_generation h q \<le> queue_generation (hub_run calls h) q"
  by (induction calls arbitrary: h) (auto simp: hub_run_def intro: order_trans [OF queue_generation_step])

lemma closed_run: "hub_closed h \<Longrightarrow> hub_closed (hub_run calls h)"
proof (induction calls arbitrary: h)
  case (Cons c calls)
  have "hub_closed (hub_step c h)"
    using Cons.prems by (cases c) (auto simp: subscribe_def notify_def shutdown_def unsubscribe_def Let_def)
  then show ?case using Cons.IH by (simp add: hub_run_def)
qed (simp add: hub_run_def)

text \<open>Before the subscription: a notification of the queue raises its generation, unless the hub is closed.\<close>

lemma notified_before:
  "\<exists>c \<in> set calls. c = Notify (Some q) \<or> dget (hub_queues h) q \<noteq> None \<and> wakes q c \<Longrightarrow>
   \<not> hub_closed (hub_run calls h) \<Longrightarrow> queue_generation h q < queue_generation (hub_run calls h) q"
proof (induction calls arbitrary: h)
  case (Cons c calls)
  have run: "hub_run (c # calls) h = hub_run calls (hub_step c h)" by (simp add: hub_run_def)
  have o: "\<not> hub_closed (hub_step c h)" using Cons.prems(2) closed_run run by metis
  show ?case
  proof (cases "c = Notify (Some q) \<or> dget (hub_queues h) q \<noteq> None \<and> wakes q c")
    case True
    then have "queue_generation h q < queue_generation (hub_step c h) q"
      using o by (auto simp: wakes_def notify_def shutdown_def queue_generation_def dget_bump_all split: if_splits)
    then show ?thesis using queue_generation_run [of "hub_step c h" q calls] run by simp
  next
    case False
    have "dget (hub_queues h) q \<noteq> None \<Longrightarrow> dget (hub_queues (hub_step c h)) q \<noteq> None"
      by (cases c) (auto simp: subscribe_def notify_def shutdown_def unsubscribe_def dget_bump_all Let_def split: option.splits)
    then have "queue_generation (hub_step c h) q < queue_generation (hub_run calls (hub_step c h)) q"
      using Cons.IH [of "hub_step c h"] Cons.prems False run by auto
    then show ?thesis using queue_generation_step [of h q c] run by simp
  qed
qed simp

lemma hub_fired_run: "e \<in> hub_fired h \<Longrightarrow> e \<in> hub_fired (hub_run calls h)"
proof (induction calls arbitrary: h)
  case (Cons c calls)
  have "e \<in> hub_fired (hub_step c h)"
    using Cons.prems by (cases c) (auto simp: subscribe_def notify_def shutdown_def unsubscribe_def Let_def)
  then show ?case using Cons.IH by (simp add: hub_run_def)
qed (simp add: hub_run_def)

text \<open>After the subscription: whoever is still in its bucket is woken.\<close>

lemma notified_after:
  "\<exists>c \<in> set calls. wakes q c \<Longrightarrow> Unsubscribe e (Some q) \<notin> set calls \<Longrightarrow> (e, Some q) \<in> set (hub_subscribers h) \<Longrightarrow>
   \<not> hub_closed h \<Longrightarrow> e \<in> hub_fired (hub_run calls h)"
proof (induction calls arbitrary: h)
  case (Cons c calls)
  have run: "hub_run (c # calls) h = hub_run calls (hub_step c h)" by (simp add: hub_run_def)
  show ?case
  proof (cases "wakes q c")
    case True
    then have "e \<in> hub_fired (hub_step c h)"
      using Cons.prems(3,4) by (auto simp: wakes_def notify_def shutdown_def waiters_def)
    then show ?thesis using hub_fired_run run by simp
  next
    case False
    then have "(e, Some q) \<in> set (hub_subscribers (hub_step c h))" "\<not> hub_closed (hub_step c h)"
      using Cons.prems(2-4)
      by (cases c; auto simp: subscribe_def notify_def shutdown_def unsubscribe_def wakes_def Let_def)+
    then show ?thesis using Cons.IH [of "hub_step c h"] Cons.prems False run by auto
  qed
qed simp

text \<open>
  C22: A claim that waits on the hub misses no notification of its queue: whatever others do, when the queue is
  notified after its generation was read, before or after the subscription, or the hub reconnects or
  stops after the subscription, the event of the subscription is set.  A reconnection before the
  subscription is seen too, but only for a queue that has been notified before.
\<close>

theorem wakeups_not_lost:
  assumes "subscribe (queue_generation h q) (Some q) (hub_run before h) = (Inr e, h1)"
    and "Notify (Some q) \<in> set before \<or> dget (hub_queues h) q \<noteq> None \<and> Notify None \<in> set before \<or>
      (\<exists>c \<in> set after. wakes q c) \<and> Unsubscribe e (Some q) \<notin> set after"
  shows "wait_now e (hub_run after h1)"
proof -
  let ?h = "hub_run before h"
  have o: "\<not> hub_closed ?h" and e: "e = hub_next ?h"
      "h1 = ?h\<lparr>hub_subscribers := hub_subscribers ?h @ [(e, Some q)], hub_next := Suc e,
        hub_fired := (if queue_generation h q \<noteq> queue_generation ?h q then insert e (hub_fired ?h) else hub_fired ?h)\<rparr>"
    using assms(1) by (auto simp: subscribe_def Let_def current_generation_def split: if_splits)
  show ?thesis
  proof (cases "(\<exists>c \<in> set after. wakes q c) \<and> Unsubscribe e (Some q) \<notin> set after")
    case True
    then show ?thesis using notified_after [of after q e h1] e o by (simp add: wait_now_def)
  next
    case False
    then have "\<exists>c \<in> set before. c = Notify (Some q) \<or> dget (hub_queues h) q \<noteq> None \<and> wakes q c"
      using assms(2) by (auto simp: wakes_def)
    then have "queue_generation h q < queue_generation ?h q" using notified_before o by blast
    then have "e \<in> hub_fired h1" using e by simp
    then show ?thesis using hub_fired_run by (simp add: wait_now_def)
  qed
qed

text \<open>The condition on a reconnection is needed: a queue that nobody has notified has no generation to raise.\<close>

lemma reconnection_missed:
  "case subscribe (queue_generation new_hub ''q'') (Some ''q'') (hub_run [Notify None] new_hub) of
     (r, h) \<Rightarrow> r = Inr 0 \<and> \<not> wait_now 0 h"
  by (simp add: hub_run_def new_hub_def notify_def subscribe_def queue_generation_def current_generation_def
      bump_all_def wait_now_def waiters_def)

theorem wakeups_not_lost_witness:
  "(case subscribe (queue_generation new_hub ''q'') (Some ''q'') (hub_run [Notify (Some ''q'')] new_hub) of
      (r, h) \<Rightarrow> r = Inr 0 \<and> wait_now 0 (hub_run [] h))"
proof -
  obtain r h where s: "subscribe (queue_generation new_hub ''q'') (Some ''q'') (hub_run [Notify (Some ''q'')] new_hub) = (r, h)"
    by (cases rule: prod.exhaust)
  then have "r = Inr 0"
    by (auto simp: hub_run_def new_hub_def notify_def subscribe_def queue_generation_def waiters_def split: if_splits)
  then show ?thesis using s wakeups_not_lost [of new_hub "''q''" "[Notify (Some ''q'')]" 0 h "[]"] by simp
qed

end
