(* ===== verification/FacadeClaim.thy ===== *)
theory FacadeClaim
  imports Facade ClaimHub
begin

text \<open>
  \<open>_claim\<close> and \<open>_release_if_undeliverable\<close> of \<open>http/facade.py\<close>: a claim that waits for work.  What one
  iteration reads of the runner, the hub, the clock and the connection is a turn; times are seconds
  since the request arrived.  The loop goes on as long as its turns do, and gives its answer, or none yet,
  with every job that its claims returned and every job it tried to give back.
\<close>

section \<open>Turns\<close>

text \<open>
  A claim of the runner with what follows it if it has to be delivered: the time on the clock and whether
  the client is gone.  How the releases end does not matter, their failures are only logged.
\<close>

record claim_reply =
  cy_result :: "facade_error + claim_result"
  cy_elapsed :: rat
  cy_gone :: bool

record wait_turn =
  ct_claim :: claim_reply
  ct_elapsed :: rat
  ct_hub :: hub
  ct_observed :: nat
  ct_again :: claim_reply
  ct_gone :: bool
  ct_elapsed_again :: rat
  ct_jitter :: rat

record claim_options =
  co_wait_seconds :: rat
  co_poll_interval :: rat

datatype claim_end =
    ClaimAnswer string "claimed_job list" "int option"
  | ClaimRaises facade_error

text \<open>\<open>_claim_outcome\<close>\<close>

fun claim_state_value :: "claim_state \<Rightarrow> string" where
  "claim_state_value CLAIMED = ''claimed''"
| "claim_state_value CLAIM_EMPTY = ''empty''"
| "claim_state_value PAUSED_QUEUE = ''paused''"
| "claim_state_value THROTTLED = ''throttled''"
| "claim_state_value UNKNOWN_QUEUE = ''unknown_queue''"
| "claim_state_value CLAIM_UNAVAILABLE = ''unavailable''"

definition claim_outcome :: "claim_result \<Rightarrow> facade_error + string" where
  "claim_outcome r = (if cr_state r = UNKNOWN_QUEUE then Inl (Raised (raise_code NOT_FOUND))
     else Inr (claim_state_value (cr_state r)))"

section \<open>Delivery\<close>

definition delivery_limit :: "claim_options \<Rightarrow> rat" where
  "delivery_limit co = max 28 (co_wait_seconds co + 3)"

definition undeliverable :: "claim_options \<Rightarrow> claim_reply \<Rightarrow> claim_result \<Rightarrow> bool" where
  "undeliverable co y r \<longleftrightarrow> cr_jobs r \<noteq> [] \<and> (delivery_limit co < cy_elapsed y \<or> cy_gone y)"

text \<open>
  The answer to a claim that is not empty: its jobs, or they are all released and the request fails.  The second part are the attempts that were released.
\<close>

definition deliver_claim :: "claim_options \<Rightarrow> claim_reply \<Rightarrow> claim_result \<Rightarrow> string \<Rightarrow> claim_end \<times> (uuid \<times> uuid) list" where
  "deliver_claim co y r outcome =
     (if undeliverable co y r
      then (ClaimRaises (fraise UNAVAILABLE [(''reason'', JStr ''claim_undeliverable'')]),
            map (\<lambda>j. (cj_job_id j, cj_attempt_id j)) (cr_jobs r))
      else (ClaimAnswer outcome (cr_jobs r) (cr_retry_after r), []))"

text \<open>One claim: nothing to say yet, or the end, with the jobs it returned and the attempts released.\<close>

definition claim_once ::
  "claim_options \<Rightarrow> bool \<Rightarrow> claim_reply \<Rightarrow> claim_end option \<times> claimed_job list \<times> (uuid \<times> uuid) list" where
  "claim_once co wait y = (case cy_result y of
      Inl e \<Rightarrow> (Some (ClaimRaises e), [], [])
    | Inr r \<Rightarrow> (case claim_outcome r of
          Inl e \<Rightarrow> (Some (ClaimRaises e), cr_jobs r, [])
        | Inr outcome \<Rightarrow>
            if outcome \<noteq> ''empty'' \<or> \<not> wait
            then (case deliver_claim co y r outcome of (e, released) \<Rightarrow> (Some e, cr_jobs r, released))
            else (None, cr_jobs r, [])))"

section \<open>The loop\<close>

definition claim_timeout :: claim_end where
  "claim_timeout = ClaimAnswer ''timeout'' [] None"

text \<open>
  One iteration, after its first claim found nothing: subscribe, claim again, and wait, but not past the
  deadline.  The last part is how long it waits at most.
\<close>

definition claim_recheck ::
  "claim_options \<Rightarrow> string \<Rightarrow> wait_turn \<Rightarrow> claim_end option \<times> claimed_job list \<times> (uuid \<times> uuid) list \<times> rat" where
  "claim_recheck co queue t = (case fst (subscribe (ct_observed t) (Some queue) (ct_hub t)) of
      Inl e \<Rightarrow> (Some (ClaimRaises (Raised e)), [], [], 0)
    | Inr ev \<Rightarrow> (case claim_once co True (ct_again t) of
          (Some e, got, released) \<Rightarrow> (Some e, got, released, 0)
        | (None, got, released) \<Rightarrow>
            if ct_gone t
            then (Some (ClaimRaises (fraise UNAVAILABLE [(''reason'', JStr ''claim_client_disconnected'')])), got, released, 0)
            else let remaining = co_wait_seconds co - ct_elapsed_again t in
              if remaining \<le> 0 then (Some claim_timeout, got, released, 0)
              else (None, got, released, min remaining (co_poll_interval co * ct_jitter t))))"

definition wait_turn_step ::
  "claim_options \<Rightarrow> string \<Rightarrow> wait_turn \<Rightarrow> claim_end option \<times> claimed_job list \<times> (uuid \<times> uuid) list \<times> rat" where
  "wait_turn_step co queue t = (case claim_once co (co_wait_seconds co \<noteq> 0) (ct_claim t) of
      (Some e, got, released) \<Rightarrow> (Some e, got, released, 0)
    | (None, got, released) \<Rightarrow>
        if co_wait_seconds co - ct_elapsed t \<le> 0 then (Some claim_timeout, got, released, 0)
        else (case claim_recheck co queue t of (e, got2, released2, pause) \<Rightarrow> (e, got @ got2, released @ released2, pause)))"

fun claim_loop ::
  "claim_options \<Rightarrow> string \<Rightarrow> wait_turn list \<Rightarrow> claim_end option \<times> claimed_job list \<times> (uuid \<times> uuid) list" where
  "claim_loop co queue [] = (None, [], [])"
| "claim_loop co queue (t # ts) = (case wait_turn_step co queue t of
      (Some e, got, released, pause) \<Rightarrow> (Some e, got, released)
    | (None, got, released, pause) \<Rightarrow> (case claim_loop co queue ts of
          (e, got2, released2) \<Rightarrow> (e, got @ got2, released @ released2)))"

text \<open>\<open>_claim\<close>: waiting needs the hub to listen to the queue first.\<close>

definition long_claim ::
  "claim_options \<Rightarrow> string \<Rightarrow> hub \<Rightarrow> (exc + unit) option \<Rightarrow> wait_turn list \<Rightarrow>
   claim_end option \<times> claimed_job list \<times> (uuid \<times> uuid) list" where
  "long_claim co queue h registrar ts =
     (case (if co_wait_seconds co > 0 then prepare_queue h registrar else Inr ()) of
        Inl e \<Rightarrow> (Some (ClaimRaises (Raised e)), [], [])
      | Inr u \<Rightarrow> claim_loop co queue ts)"

section \<open>No claimed job is forgotten\<close>

definition answered_jobs :: "claim_end option \<Rightarrow> claimed_job list" where
  "answered_jobs e = (case e of Some (ClaimAnswer outcome js retry) \<Rightarrow> js | _ \<Rightarrow> [])"

definition attempts :: "claimed_job list \<Rightarrow> (uuid \<times> uuid) list" where
  "attempts js = map (\<lambda>j. (cj_job_id j, cj_attempt_id j)) js"

definition reply_valid :: "claim_reply \<Rightarrow> bool" where
  "reply_valid y \<longleftrightarrow> (case cy_result y of Inl e \<Rightarrow> True | Inr r \<Rightarrow> claim_result_valid r)"

definition turn_valid :: "wait_turn \<Rightarrow> bool" where
  "turn_valid t \<longleftrightarrow> reply_valid (ct_claim t) \<and> reply_valid (ct_again t)"

lemma claim_state_value_empty: "claim_state_value s = ''empty'' \<longleftrightarrow> s = CLAIM_EMPTY"
  by (cases s) simp_all

lemma claim_once_accounts:
  assumes "reply_valid y" and "claim_once co wait y = (e, got, released)"
  shows "attempts got = attempts (answered_jobs e) @ released" and "e = None \<Longrightarrow> got = []"
proof -
  have "attempts got = attempts (answered_jobs e) @ released \<and> (e = None \<longrightarrow> got = [])"
  proof (cases "cy_result y")
    case (Inl x)
    then show ?thesis using assms(2) by (auto simp: claim_once_def attempts_def answered_jobs_def)
  next
    case (Inr r)
    have v: "cr_state r = CLAIMED \<longleftrightarrow> cr_jobs r \<noteq> []" using assms(1) Inr by (simp add: reply_valid_def claim_result_valid_def)
    show ?thesis
    proof (cases "cr_state r = CLAIMED")
      case True
      then show ?thesis using assms(2) Inr
        by (auto simp: claim_once_def claim_outcome_def deliver_claim_def attempts_def answered_jobs_def split: if_splits)
    next
      case False
      then have "cr_jobs r = []" using v by simp
      then show ?thesis using assms(2) Inr
        by (auto simp: claim_once_def claim_outcome_def deliver_claim_def undeliverable_def attempts_def answered_jobs_def
            split: if_splits)
    qed
  qed
  then show "attempts got = attempts (answered_jobs e) @ released" "e = None \<Longrightarrow> got = []" by blast+
qed

lemma attempts_append [simp]: "attempts (xs @ ys) = attempts xs @ attempts ys"
  by (simp add: attempts_def)

lemma answered_jobs_simps [simp]:
  "answered_jobs None = []" "answered_jobs (Some (ClaimRaises x)) = []" "answered_jobs (Some claim_timeout) = []"
  "attempts [] = []"
  by (simp_all add: answered_jobs_def claim_timeout_def attempts_def)

lemma claim_recheck_accounts:
  assumes "turn_valid t" and "claim_recheck co queue t = (e, got, released, pause)"
  shows "attempts got = attempts (answered_jobs e) @ released \<and> (e = None \<longrightarrow> got = [])"
proof (cases "fst (subscribe (ct_observed t) (Some queue) (ct_hub t))")
  case (Inl x)
  then show ?thesis using assms(2) by (auto simp: claim_recheck_def)
next
  case (Inr ev)
  obtain e2 got2 rel2 where o: "claim_once co True (ct_again t) = (e2, got2, rel2)" by (cases rule: prod_cases3)
  note a = claim_once_accounts [OF _ o]
  have v: "reply_valid (ct_again t)" using assms(1) by (simp add: turn_valid_def)
  show ?thesis
  proof (cases e2)
    case None
    then have "got2 = []" "rel2 = []" using a v by auto
    then show ?thesis using assms(2) Inr o None by (auto simp: claim_recheck_def Let_def split: if_splits)
  next
    case (Some x)
    then show ?thesis using assms(2) Inr o a(1) v by (auto simp: claim_recheck_def)
  qed
qed

lemma wait_turn_accounts:
  assumes "turn_valid t" and "wait_turn_step co queue t = (e, got, released, pause)"
  shows "attempts got = attempts (answered_jobs e) @ released \<and> (e = None \<longrightarrow> got = [])"
proof -
  obtain e1 got1 rel1 where o: "claim_once co (co_wait_seconds co \<noteq> 0) (ct_claim t) = (e1, got1, rel1)" by (cases rule: prod_cases3)
  have v: "reply_valid (ct_claim t)" using assms(1) by (simp add: turn_valid_def)
  note a = claim_once_accounts [OF v o]
  show ?thesis
  proof (cases e1)
    case None
    then have n: "got1 = []" "rel1 = []" using a by auto
    obtain e2 got2 rel2 p2 where r: "claim_recheck co queue t = (e2, got2, rel2, p2)" by (cases rule: prod_cases4)
    show ?thesis using assms(2) o None n r claim_recheck_accounts [OF assms(1) r]
      by (auto simp: wait_turn_step_def split: if_splits)
  next
    case (Some x)
    then show ?thesis using assms(2) o a by (auto simp: wait_turn_step_def)
  qed
qed

text \<open>
  C10: A claim that waits forgets no job: when it ends, however often it claimed, the jobs that its claims took from
  the queue are exactly those it answers with, followed by those it handed back because the answer would
  be too late or nobody is there to read it; while it goes on, it holds none.
\<close>

theorem claimed_jobs_accounted:
  assumes "\<forall>t \<in> set ts. turn_valid t" and "long_claim co queue h registrar ts = (e, got, released)"
  shows "attempts got = attempts (answered_jobs e) @ released \<and> (e = None \<longrightarrow> got = [])"
proof -
  have loop: "claim_loop co queue ts = (e, got, released) \<Longrightarrow> \<forall>t \<in> set ts. turn_valid t \<Longrightarrow>
      attempts got = attempts (answered_jobs e) @ released \<and> (e = None \<longrightarrow> got = [])" for e got released
  proof (induction ts arbitrary: e got released)
    case (Cons t ts)
    obtain e1 got1 rel1 p1 where s: "wait_turn_step co queue t = (e1, got1, rel1, p1)" by (cases rule: prod_cases4)
    have a: "attempts got1 = attempts (answered_jobs e1) @ rel1 \<and> (e1 = None \<longrightarrow> got1 = [])"
      by (rule wait_turn_accounts [OF _ s]) (use Cons.prems in simp)
    show ?case
    proof (cases e1)
      case None
      obtain e2 got2 rel2 where l: "claim_loop co queue ts = (e2, got2, rel2)" by (cases rule: prod_cases3)
      show ?thesis using Cons.IH [OF l] Cons.prems s l None a by auto
    next
      case (Some x)
      then show ?thesis using Cons.prems(1) s a by auto
    qed
  qed simp
  show ?thesis using assms loop by (auto simp: long_claim_def split: sum.splits)
qed

definition sample_job :: claimed_job where
  "sample_job = \<lparr>cj_job_id = 7, cj_queue = ''q'', cj_job_type = ''t'', cj_priority = 0, cj_payload = [], cj_headers = [],
     cj_progress = None, cj_attempt_id = 9, cj_attempt_number = 1, cj_failure_count = 0, cj_max_attempts = 3,
     cj_lease_expires_at = 0, cj_lease_seconds = 60, cj_workflow_id = None, cj_step_key = None, cj_policy_hash = None\<rparr>"

definition sample_reply :: "claim_state \<Rightarrow> claimed_job list \<Rightarrow> bool \<Rightarrow> claim_reply" where
  "sample_reply st js gone = \<lparr>cy_result = Inr \<lparr>cr_state = st, cr_jobs = js, cr_retry_after = None\<rparr>, cy_elapsed = 2,
     cy_gone = gone\<rparr>"

definition sample_turn :: wait_turn where
  "sample_turn = \<lparr>ct_claim = sample_reply CLAIM_EMPTY [] False, ct_elapsed = 1, ct_hub = new_hub, ct_observed = 0,
     ct_again = sample_reply CLAIMED [sample_job] True, ct_gone = False, ct_elapsed_again = 2, ct_jitter = 1\<rparr>"

definition sample_options :: claim_options where
  "sample_options = \<lparr>co_wait_seconds = 25, co_poll_interval = 1\<rparr>"

text \<open>The second claim finds a job, but nobody is there to take it.\<close>

theorem claimed_jobs_accounted_witness:
  "long_claim sample_options ''q'' new_hub None [sample_turn] =
     (Some (ClaimRaises (fraise UNAVAILABLE [(''reason'', JStr ''claim_undeliverable'')])), [sample_job], [(7, 9)]) \<and>
   attempts [sample_job] = attempts [] @ [(7, 9)]"
proof -
  have l: "long_claim sample_options ''q'' new_hub None [sample_turn] =
     (Some (ClaimRaises (fraise UNAVAILABLE [(''reason'', JStr ''claim_undeliverable'')])), [sample_job], [(7, 9)])"
    by (simp add: long_claim_def sample_options_def prepare_queue_def new_hub_def wait_turn_step_def sample_turn_def
        claim_once_def sample_reply_def claim_outcome_def claim_recheck_def subscribe_def Let_def deliver_claim_def
        undeliverable_def sample_job_def)
  have v: "\<forall>t \<in> set [sample_turn]. turn_valid t"
    by (simp add: turn_valid_def reply_valid_def sample_turn_def sample_reply_def claim_result_valid_def)
  show ?thesis using l claimed_jobs_accounted [OF v l] by simp
qed

end
