(* ===== verification/HttpAuth.thy ===== *)
theory HttpAuth
  imports Facade
begin

text \<open>
  \<open>http/deps.py\<close>: the authorizers a host can give the facade.  A request is represented by its header
  lookup, whose values the web framework decodes as Latin-1.
\<close>

type_synonym headers = "string \<Rightarrow> string option"

definition header_or_empty :: "headers \<Rightarrow> string \<Rightarrow> string" where
  "header_or_empty h k = (case h k of None \<Rightarrow> [] | Some v \<Rightarrow> v)"

text \<open>\<open>secrets.compare_digest\<close> on strings: only ASCII strings may be compared.\<close>

definition compare_digest :: "string \<Rightarrow> string \<Rightarrow> exc + bool" where
  "compare_digest a b =
     (if list_all (\<lambda>c. ord_c c < 128) a \<and> list_all (\<lambda>c. ord_c c < 128) b then Inr (a = b)
      else Inl (PyException ''TypeError''))"

definition unauthenticated :: facade_error where
  "unauthenticated = HttpExc 401 None None None"

definition same_secret :: "string \<Rightarrow> string \<Rightarrow> string \<Rightarrow> facade_error + auth_context" where
  "same_secret supplied expected actor = (case compare_digest supplied expected of
      Inl e \<Rightarrow> Inl (Raised e)
    | Inr same \<Rightarrow> if \<not> same then Inl unauthenticated else Inr \<lparr>ac_actor = actor, ac_principal = actor\<rparr>)"

text \<open>\<open>StaticApiKeyAuthorizer.authenticate\<close> and \<open>BearerTokenAuthorizer.authenticate\<close>\<close>

definition static_key_authenticate :: "string \<Rightarrow> string \<Rightarrow> string \<Rightarrow> headers \<Rightarrow> facade_error + auth_context" where
  "static_key_authenticate value header actor h = same_secret (header_or_empty h header) value actor"

definition bearer_authenticate :: "string \<Rightarrow> string \<Rightarrow> headers \<Rightarrow> facade_error + auth_context" where
  "bearer_authenticate token actor h = same_secret (header_or_empty h ''Authorization'') (''Bearer '' @ token) actor"

text \<open>\<open>_QueueBlindAuthorizer\<close> and \<open>CallableAuthorizer\<close>: what an authorizer checks once the caller is known.\<close>

type_synonym permission_check = "auth_context \<Rightarrow> taskq_action \<Rightarrow> string option \<Rightarrow> facade_error + unit"

definition queue_blind :: permission_check where
  "queue_blind ctx action queue = Inr ()"

definition callable_authorize :: "permission_check option \<Rightarrow> permission_check" where
  "callable_authorize check ctx action queue = (case check of None \<Rightarrow> Inr () | Some f \<Rightarrow> f ctx action queue)"

text \<open>\<open>LegacyTaskqAuthorizer\<close>: three checks for five actions.\<close>

fun legacy_family :: "taskq_action \<Rightarrow> string" where
  "legacy_family ACT_READ = ''read''"
| "legacy_family ACT_ENQUEUE = ''write''"
| "legacy_family ACT_RUN = ''write''"
| "legacy_family ACT_CONTROL = ''operator''"
| "legacy_family ACT_ADMIN = ''operator''"

definition legacy_check :: "(string, permission_check) dict \<Rightarrow> permission_check" where
  "legacy_check checks ctx action queue = (case dget checks (legacy_family action) of
      None \<Rightarrow> Inl (HttpExc 403 None None None)
    | Some f \<Rightarrow> f ctx action queue)"

text \<open>\<open>authorize\<close>, the phases one after the other.\<close>

definition authorize_request ::
  "(headers \<Rightarrow> facade_error + auth_context) \<Rightarrow> permission_check \<Rightarrow> headers \<Rightarrow> taskq_action \<Rightarrow> string option \<Rightarrow>
   facade_error + auth_context" where
  "authorize_request authenticate check h action queue =
     ebind (authenticate h) (\<lambda>ctx. ebind (check ctx action queue) (\<lambda>_. Inr ctx))"

section \<open>Who gets in\<close>

text \<open>
  A bearer token lets in exactly the requests that carry it; every other request made of ASCII is refused
  with 401.  One that is not, an attacker's choice, makes the comparison itself raise, which the facade
  answers as an internal error worth a resend.
\<close>

lemma bearer_exact:
  assumes "list_all (\<lambda>c. ord_c c < 128) token"
  shows "bearer_authenticate token actor h =
    (if list_all (\<lambda>c. ord_c c < 128) (header_or_empty h ''Authorization'')
     then if header_or_empty h ''Authorization'' = ''Bearer '' @ token
          then Inr \<lparr>ac_actor = actor, ac_principal = actor\<rparr> else Inl unauthenticated
     else Inl (Raised (PyException ''TypeError'')))"
  using assms by (simp add: bearer_authenticate_def same_secret_def compare_digest_def)

lemma legacy_needs_family: "legacy_check checks ctx action queue = Inr () \<Longrightarrow> dget checks (legacy_family action) \<noteq> None"
  by (auto simp: legacy_check_def split: option.splits)

lemma authorize_request_Inr:
  "authorize_request authenticate check h action queue = Inr ctx \<longleftrightarrow> authenticate h = Inr ctx \<and> check ctx action queue = Inr ()"
  by (auto simp: authorize_request_def ebind_Inr_iff)

end
