(* ===== verification/Spec2Isabelle.thy ===== *)
theory Spec2Isabelle
  imports CommandProps FakeEffects ContinuationProps SchedulerRun ScheduleManifest WorkerQueue WorkerHeartbeat
    WorkerEffects WorkerServiceStop SqlTokens Migrate SchemaVerify FacadeWire FacadeClaim HttpAuth
begin

text \<open>
  A model of the core of outlabs-taskq (\<open>src/src/taskq\<close>), a task queue on PostgreSQL.  Producers
  enqueue jobs, workers claim them under a lease and settle them, a scheduler turns recurrences into
  enqueues.  The database carries the queue itself; in Python the same contract is implemented by
  \<open>FakeTaskQClient\<close> (\<open>testing.py\<close>), the in-memory queue the package's tests and the tests of its
  users run against.  The development models that implementation of the contract completely, and
  around it the pure logic every client shares: the protocol models and tables, errors, the task
  registry, continuation policies, schedule evaluation and the execution primitives of handlers.

  \<^bold>\<open>Vocabulary.\<close>
  \<^item> \<open>Prelude\<close>: Python dictionaries as insertion-ordered association lists (the locale \<open>key_store\<close> states
    their laws), UUIDs as 128-bit words with their text form, UTF-8 length, \<open>ebind\<close>, \<open>guard\<close> and
    \<open>traverse\<close> for code that raises.
  \<^item> \<open>Json\<close>: JSON values, \<open>json.dumps\<close>, Python's equality on them.
  \<^item> \<open>Errors\<close>: \<open>TqCode\<close>, \<open>errors.py\<close>, and the walk over the chain of a database exception.
  \<^item> \<open>Protocol\<close>: the enumerations and value models of \<open>protocol.py\<close> that the modelled code uses, each with
    the predicate its validators accept.
  \<^item> \<open>Commands\<close>, \<open>CommandProps\<close>: \<open>COMMAND_SPECS\<close> and \<open>HTTP_COMMAND_SPECS\<close> row by row; totality and agreement
    of the two tables.

  \<^bold>\<open>Handlers and tasks.\<close>
  \<^item> \<open>Execution\<close>: handler results, \<open>CancellationToken\<close>, the checkpoint buffer of \<open>JobContext\<close>
    (\<open>execution.py\<close>); no checkpoint is lost, the token reports the strongest reason.
  \<^item> \<open>Registry\<close>, \<open>RegistryProps\<close>: \<open>registry.py\<close>, registration, resolution, the follow-up graph and the
    normalisation of follow-ups.
  \<^item> \<open>ContinuationIds\<close>, \<open>Continuations\<close>, \<open>ContinuationProps\<close>: \<open>continuations.py\<close>, derived identities, the
    policy compiler with its worklist, validation and enforcement; a compiled policy covers exactly
    the reachable member targets, validates, and accepts what the registry allows.
  \<^item> \<open>Schedules\<close>, \<open>ScheduleProps\<close>: \<open>schedules.py\<close>, cron grammar, next instants, the evaluation of a claim;
    the locale \<open>advancing\<close> states what the catch-up loop needs of a recurrence.

  \<^bold>\<open>The queue\<close> (\<open>testing.py\<close>).
  \<^item> \<open>FakeState\<close>: the record of the client's dictionaries, counters and ledgers.  An operation returns its
    value or exception together with the state it leaves, so that mutations made before an exception
    are kept.  \<open>uuid4()\<close> is a sequence of draws and the clock an argument.
  \<^item> \<open>FakeGraph\<close>: promotion of blocked jobs and the cascade over descendants, with loop-free
    specifications.  \<open>FakeEnqueue\<close>, \<open>FakeClaim\<close>, \<open>FakeSettle\<close>, \<open>FakeComplete\<close>, \<open>FakeWorkflow\<close>,
    \<open>FakeAdmission\<close>, \<open>FakeSchedule\<close>, \<open>FakeWorkers\<close>: the operations, one theory per group of methods, each
    with the lemma that it keeps the invariant.
  \<^item> \<open>FakeInv\<close>, \<open>FakeAdvance\<close>: the invariant, the relation between the states before and after an
    operation, and their preservation when a workflow advances.
  \<^item> \<open>FakeRun\<close>: the client as a state machine over every public call; \<open>reachable\<close> and the invariant of
    every reachable state by rule induction.
  \<^item> \<open>FakeProps\<close>, \<open>FakeFence\<close>, \<open>FakeEffects\<close>: the properties: dependencies, finality, keys, limits, progress;
    the locale \<open>fenced_settlement\<close>, which the five settlement verbs provide; exact effects of claim,
    completion, failure and cancellation.

  \<^bold>\<open>The worker\<close> (\<open>worker.py\<close>), which claims from a queue and settles what it ran.  What a loop reads from
  the clock, the transport, the event loop and other tasks in one iteration is a \<^emph>\<open>turn\<close>, and a run is
  a list of turns, so that every interleaving and every failure of a call is some list.
  \<^item> \<open>Worker\<close>: options, reports, the control block a run shares with its heartbeat, and the reactions to a
    lost lease, an operator and a shutdown.
  \<^item> \<open>WorkerSettle\<close>, \<open>WorkerSettleProps\<close>: \<open>_settle_with_retry\<close>, \<open>_settle_intent\<close> and the releases, over any
    transport; the loop returns within a number of attempts that its budgets fix when every retry takes some
    time, and gives up only when its budget is spent.
  \<^item> \<open>WorkerRun\<close>, \<open>WorkerRunProps\<close>: \<open>_execute_job\<close> from a claim to its report; reports are coherent.
  \<^item> \<open>FakeDraws\<close>, \<open>WorkerQueue\<close>: the run against the model of the queue, between calls of others: a job is
    settled once and a report of settlement is true.
  \<^item> \<open>WorkerHeartbeat\<close>: the heartbeat loop; no run goes on past its lease unconfirmed.  \<open>WorkerEffects\<close>:
    the retries of an effect report.
  \<^item> \<open>WorkerSupervisor\<close>: slots, soft stop and deadlines; the locale \<open>job_slots\<close> states what a claimer
    relies on.
  \<^item> \<open>WorkerService\<close>, \<open>WorkerServiceRun\<close>: \<open>WorkerService\<close>, one operation per stretch of code between two
    awaits, and the state machine over all of them with its invariant; \<open>WorkerServiceProps\<close>,
    \<open>WorkerServiceStop\<close>: claims fit the slots, queues rotate, errors are fatal at their threshold, stop and
    failure are final.

  \<^bold>\<open>The scheduler\<close> (\<open>scheduler.py\<close>), which claims due schedules, evaluates and fires them.
  \<^item> \<open>Scheduler\<close>: \<open>SchedulerEngine\<close>, \<open>SchedulerService\<close>, the settings and the doctor, over any queue.
  \<^item> \<open>SchedulerQueue\<close>: any number of engines and clients over one queue as a step relation with the
    history of its claims and fires; no occurrence is accepted twice.
  \<^item> \<open>SchedulerRun\<close>: the locale \<open>housekeeping\<close> states what the engine needs of a queue, and the queue of
    \<open>SchedulerQueue\<close> provides it, so that every run of the engine is a run of the relation; the budget and
    the pauses of the service, and when the doctor calls a target ready.
  \<^item> \<open>ScheduleManifest\<close>: manifests, their plan and its application over any database that keeps what is put;
    planning ends, and an applied manifest leaves nothing to do.

  \<^bold>\<open>The database scripts\<close> (\<open>sql/__init__.py\<close>).
  \<^item> \<open>SqlScript\<close>: migration files, the splitter that cuts a script at its top-level semicolons, and the guard
    against transaction control.  \<open>SqlTokens\<close>: a grammar of SQL's tokens, written without the splitter, and the
    proof that a script of such statements is cut where the statements end and nowhere else.
  \<^item> \<open>Migrate\<close>: the migration runner over any server, statement by statement, with its transactions and locks,
    what an error or a cancellation leaves open, the ledger and its check.  \<open>migration_effect\<close> says what a whole
    migration makes of a database and \<open>refines\<close> relates the steps to it; no migration is left half
    committed, and the check of a migrated database fails only for rows that were there before.
  \<^item> \<open>SchemaVerify\<close>: the checks of the live catalogue, over the rows of their queries and any manifest; the
    report is ok exactly when the database is the one described.

  \<^bold>\<open>HTTP\<close> (\<open>http/client.py\<close>, \<open>http/facade.py\<close>, \<open>http/hub.py\<close>, \<open>http/deps.py\<close>), a client and a service over
  the table of \<open>Commands\<close>.
  \<^item> \<open>HttpClient\<close>: how a client sends a command, checks the answer and resends what is \<open>safe_to_repeat\<close>.
  \<^item> \<open>Facade\<close>, \<open>FacadeProps\<close>: how the service authenticates, authorizes and validates a request before it calls
    a transport; nothing happens for a caller who may not, but for the workflows that the items of a bulk
    join, which the code does not ask about; what he may not see looks missing.
  \<^item> \<open>FacadeWire\<close>: the answers on the wire; the client of \<open>HttpClient\<close> reads exactly what the service says.
  \<^item> \<open>ClaimHub\<close>, \<open>FacadeClaim\<close>: the claim that waits for work; no wake-up is lost, no claimed job forgotten.
  \<^item> \<open>HttpAuth\<close>: the authorizers of the package.

  \<^bold>\<open>Bounds and fuel.\<close>  Every loop of the code terminates in the model by a structural or measured recursion:
  the cascade by its frontier and the pending jobs, the policy compiler by the names it has not
  visited, the exception walk by the exceptions not seen.  The only fuel is the room of \<open>fire_all\<close>,
  which is the code's own \<open>max_catchup\<close>, and the scan over croniter's results, whose length is the
  code's own iteration limit.  The loops of the worker recurse over the turns they are given; that the
  settlement loop ends is a theorem.

  \<^bold>\<open>Outside the model\<close>: pydantic (a model's constructor is its predicate), croniter, the IANA time zones,
  SHA-256 and BLAKE2b are parameters.  Characters are the code points below 256.  Floating point
  numbers are rationals.

  \<^bold>\<open>Not modelled.\<close>  The SQL functions themselves (\<open>sql/migrations\<close>) are PL/pgSQL; \<open>sql/transport.py\<close>,
  \<open>transport.py\<close> and \<open>client.py\<close> marshal arguments to and from a database.  The contents of \<open>sql/manifest.py\<close>
  are a parameter of the verifier.  Of \<open>http/facade.py\<close>, the calls of the transports themselves (\<open>_execute\<close>, a
  parameter of \<open>handle\<close>), page cursors, metrics text and the OpenAPI schema are left out, of \<open>http/client.py\<close> the
  methods that shape one command each.  \<open>http/outlabs.py\<close> and \<open>http/runtime.py\<close> adapt the service to a host.
  \<open>cli\<close>, \<open>bench.py\<close>, \<open>loadlab\<close> and \<open>settings.py\<close> are command-line entry points, load generators and
  configuration.
\<close>

end
